(* ===== verification/Prelude.thy ===== *)
theory Prelude
  imports Main "HOL-Library.Word" "HOL-Library.AList" "HOL-Library.List_Lexorder" "HOL-Library.Char_ord"
begin

text \<open>
  Shared vocabulary of the development.

  \<^item> A Go function that returns a value and an error is a value of \<open>'e + 'a\<close>: \<open>Inl\<close> carries
    the error, \<open>Inr\<close> the value. \<open>bind_res\<close> is the early return \<open>if err != nil\<close>.
  \<^item> A Go map that the code iterates or measures is an association list with distinct keys
    (\<open>amap\<close>); the order of the list stands for the iteration order that Go leaves open, so a
    theorem about every list is a theorem about every iteration order. A map that is only looked
    up and stored is a partial function.
  \<^item> An instant (\<open>time.Time\<close>) and a duration (\<open>time.Duration\<close>) are integers that count
    nanoseconds; \<open>wrap64\<close> is the result of 64-bit signed arithmetic where the code can leave the
    range.
\<close>

section \<open>Collections of facts\<close>

named_theorems res_simps \<open>equations and inversions of results\<close>
named_theorems amap_simps \<open>association lists as Go maps\<close>
named_theorems inv_intros \<open>invariant preservation, one fact per operation\<close>

section \<open>Results with errors\<close>

type_synonym ('e, 'a) result = "'e + 'a"

fun bind_res :: "('e, 'a) result \<Rightarrow> ('a \<Rightarrow> ('e, 'b) result) \<Rightarrow> ('e, 'b) result" where
  "bind_res (Inl e) f = Inl e"
| "bind_res (Inr a) f = f a"

lemma bind_res_Inr [res_simps]:
  "bind_res r f = Inr b \<longleftrightarrow> (\<exists>a. r = Inr a \<and> f a = Inr b)"
  by (cases r) auto

lemma bind_res_Inl [res_simps]:
  "bind_res r f = Inl e \<longleftrightarrow> r = Inl e \<or> (\<exists>a. r = Inr a \<and> f a = Inl e)"
  by (cases r) auto

text \<open>The first error of a list of checks, as a loop that returns at the first failure.\<close>

fun first_err :: "('a \<Rightarrow> 'e option) \<Rightarrow> 'a list \<Rightarrow> 'e option" where
  "first_err f [] = None"
| "first_err f (x # xs) = (case f x of Some e \<Rightarrow> Some e | None \<Rightarrow> first_err f xs)"

lemma first_err_None [simp]: "first_err f xs = None \<longleftrightarrow> (\<forall>x \<in> set xs. f x = None)"
  by (induction xs) (auto split: option.splits)

lemma first_err_Some: "first_err f xs = Some e \<Longrightarrow> \<exists>x \<in> set xs. f x = Some e"
  by (induction xs) (auto split: option.splits)

lemma first_err_cong [fundef_cong]:
  "xs = ys \<Longrightarrow> (\<And>x. x \<in> set ys \<Longrightarrow> f x = g x) \<Longrightarrow> first_err f xs = first_err g ys"
  by (induction ys arbitrary: xs) (auto split: option.splits)

section \<open>Association lists as Go maps\<close>

type_synonym ('k, 'v) amap = "('k \<times> 'v) list"

abbreviation lookup :: "('k, 'v) amap \<Rightarrow> 'k \<Rightarrow> 'v option" where
  "lookup m k \<equiv> map_of m k"

abbreviation store :: "'k \<Rightarrow> 'v \<Rightarrow> ('k, 'v) amap \<Rightarrow> ('k, 'v) amap" where
  "store \<equiv> AList.update"

abbreviation remove :: "'k \<Rightarrow> ('k, 'v) amap \<Rightarrow> ('k, 'v) amap" where
  "remove \<equiv> AList.delete"

definition keys_ok :: "('k, 'v) amap \<Rightarrow> bool" where
  "keys_ok m \<longleftrightarrow> distinct (map fst m)"

text \<open>Deleting during a range loop: what remains is a filter of the entries.\<close>

definition keep_if :: "('k \<Rightarrow> 'v \<Rightarrow> bool) \<Rightarrow> ('k, 'v) amap \<Rightarrow> ('k, 'v) amap" where
  "keep_if P m = filter (\<lambda>(k, v). P k v) m"

text \<open>Updating every value in a range loop.\<close>

definition map_vals :: "('k \<Rightarrow> 'v \<Rightarrow> 'w) \<Rightarrow> ('k, 'v) amap \<Rightarrow> ('k, 'w) amap" where
  "map_vals f m = map (\<lambda>(k, v). (k, f k v)) m"

lemma lookup_store [amap_simps, simp]:
  "lookup (store k v m) k' = (if k' = k then Some v else lookup m k')"
  by (simp add: update_conv')

lemma lookup_remove [amap_simps, simp]:
  "lookup (remove k m) k' = (if k' = k then None else lookup m k')"
  by (simp add: delete_conv')

lemma keys_ok_empty [simp, inv_intros]: "keys_ok []"
  by (simp add: keys_ok_def)

lemma keys_ok_store [simp, inv_intros]: "keys_ok m \<Longrightarrow> keys_ok (store k v m)"
  by (simp add: keys_ok_def distinct_update)

lemma keys_ok_remove [simp, inv_intros]: "keys_ok m \<Longrightarrow> keys_ok (remove k m)"
  by (simp add: keys_ok_def distinct_delete)

lemma distinct_keys_filter: "distinct (map fst m) \<Longrightarrow> distinct (map fst (filter P m))"
  by (induction m) auto

lemma keys_ok_keep_if [simp, inv_intros]: "keys_ok m \<Longrightarrow> keys_ok (keep_if P m)"
  by (simp add: keys_ok_def keep_if_def distinct_keys_filter)

lemma map_fst_map_vals [simp]: "map fst (map_vals f m) = map fst m"
  by (simp add: map_vals_def case_prod_unfold comp_def)

lemma keys_ok_map_vals [simp, inv_intros]: "keys_ok m \<Longrightarrow> keys_ok (map_vals f m)"
  by (simp add: keys_ok_def)

lemma lookup_map_vals [amap_simps, simp]:
  "lookup (map_vals f m) k = map_option (f k) (lookup m k)"
  by (induction m) (auto simp: map_vals_def)

lemma lookup_keep_if [amap_simps]:
  "keys_ok m \<Longrightarrow> lookup (keep_if P m) k =
     (case lookup m k of None \<Rightarrow> None | Some v \<Rightarrow> if P k v then Some v else None)"
proof (induction m)
  case Nil
  then show ?case by (simp add: keep_if_def)
next
  case (Cons kv m)
  obtain a v where kv: "kv = (a, v)" by (cases kv)
  have notin: "a \<notin> fst ` set m" using Cons.prems kv by (simp add: keys_ok_def)
  have none: "lookup (keep_if P m) a = None"
    using notin by (auto simp: keep_if_def map_of_eq_None_iff image_iff)
  have IH: "lookup (keep_if P m) k =
     (case lookup m k of None \<Rightarrow> None | Some v \<Rightarrow> if P k v then Some v else None)"
    using Cons by (simp add: keys_ok_def)
  show ?case
  proof (cases "k = a")
    case True
    then show ?thesis using none by (simp add: kv keep_if_def)
  next
    case False
    then show ?thesis using IH by (simp add: kv keep_if_def)
  qed
qed

lemma keep_if_subset: "set (keep_if P m) \<subseteq> set m"
  by (auto simp: keep_if_def)

lemma length_keep_if: "length (keep_if P m) \<le> length m"
  by (simp add: keep_if_def)

lemma lookup_in_set: "keys_ok m \<Longrightarrow> (k, v) \<in> set m \<longleftrightarrow> lookup m k = Some v"
  by (simp add: keys_ok_def)

lemma length_store:
  "length (store k v m) = (if k \<in> fst ` set m then length m else Suc (length m))"
  by (induction m) auto

lemma lookup_None_iff: "lookup m k = None \<longleftrightarrow> k \<notin> fst ` set m"
  by (simp add: map_of_eq_None_iff)

section \<open>Time and 64-bit integers\<close>

type_synonym instant = int
type_synonym nanos = int

definition second :: nanos where "second = 1000000000"
definition minute :: nanos where "minute = 60 * second"
definition hour :: nanos where "hour = 60 * minute"

text \<open>The zero value of \<open>time.Time\<close>: the first of January of the year 1, UTC.\<close>

definition zero_time :: instant where "zero_time = - 62135596800 * 1000000000"

definition wrap64 :: "int \<Rightarrow> int" where
  "wrap64 n = (n + 2 ^ 63) mod 2 ^ 64 - 2 ^ 63"

definition int64 :: "int \<Rightarrow> bool" where
  "int64 n \<longleftrightarrow> - (2 ^ 63) \<le> n \<and> n < 2 ^ 63"

lemma wrap64_id: "int64 n \<Longrightarrow> wrap64 n = n"
  by (simp add: wrap64_def int64_def)

lemma int64_wrap64: "int64 (wrap64 n)"
proof -
  have "0 \<le> (n + 2 ^ 63) mod 2 ^ 64" "(n + 2 ^ 63) mod 2 ^ 64 < (2 ^ 64 :: int)" by simp_all
  then show ?thesis by (simp add: wrap64_def int64_def)
qed

end
