(* ===== verification/PathPolicy.thy ===== *)
theory PathPolicy
  imports GoStrings "HOL-Library.While_Combinator"
begin

text \<open>
  \<open>internal/pathpolicy\<close>: which policy a file of a build has. \<open>match_segment\<close> is the loop with
  one remembered star, kept as a loop over its four indices; \<open>match_segments\<close> and
  \<open>Match\<close> lift it to paths, \<open>Resolve\<close> picks the policy. \<open>glob\<close> is the reference meaning of a
  pattern; the lemmas show that the loop stops and decides it.
\<close>

section \<open>The loop over one path segment\<close>

record match_state =
  star :: int
  mark :: nat
  pi :: nat
  si :: nat
  failed :: bool

definition match_init :: match_state where
  "match_init = \<lparr>star = -1, mark = 0, pi = 0, si = 0, failed = False\<rparr>"

definition match_cond :: "string \<Rightarrow> match_state \<Rightarrow> bool" where
  "match_cond s st \<longleftrightarrow> \<not> failed st \<and> si st < length s"

definition match_body :: "string \<Rightarrow> string \<Rightarrow> match_state \<Rightarrow> match_state" where
  "match_body pat s st =
     (if pi st < length pat \<and> pat ! pi st = s ! si st
      then st\<lparr>pi := pi st + 1, si := si st + 1\<rparr>
      else if pi st < length pat \<and> pat ! pi st = CHR ''*''
      then st\<lparr>star := int (pi st), mark := si st, pi := pi st + 1\<rparr>
      else if star st \<noteq> -1
      then st\<lparr>pi := nat (star st + 1), mark := mark st + 1, si := mark st + 1\<rparr>
      else st\<lparr>failed := True\<rparr>)"

fun skip_stars :: "string \<Rightarrow> nat \<Rightarrow> nat \<Rightarrow> nat" where
  "skip_stars pat p 0 = p"
| "skip_stars pat p (Suc n) =
     (if p < length pat \<and> pat ! p = CHR ''*'' then skip_stars pat (p + 1) n else p)"

text \<open>The value is \<open>None\<close> where the loop would not end; \<open>match_segment_total\<close> excludes it.\<close>

definition match_segment :: "string \<Rightarrow> string \<Rightarrow> bool option" where
  "match_segment pat s =
     (case while_option (match_cond s) (match_body pat s) match_init of
        None \<Rightarrow> None
      | Some st \<Rightarrow>
          Some (\<not> failed st \<and> skip_stars pat (pi st) (length pat - pi st) = length pat))"

section \<open>The meaning of a pattern\<close>

fun glob :: "string \<Rightarrow> string \<Rightarrow> bool" where
  "glob [] s \<longleftrightarrow> s = []"
| "glob (c # ps) s \<longleftrightarrow>
     (if c = CHR ''*'' then list_ex (\<lambda>k. glob ps (drop k s)) [0 ..< Suc (length s)]
      else s \<noteq> [] \<and> hd s = c \<and> glob ps (tl s))"

declare glob.simps(2) [simp del]

lemma glob_star: "glob (CHR ''*'' # ps) s \<longleftrightarrow> (\<exists>k \<le> length s. glob ps (drop k s))"
  by (auto simp: glob.simps(2) list_ex_iff less_Suc_eq_le simp del: upt_Suc)

lemma glob_lit: "c \<noteq> CHR ''*'' \<Longrightarrow> glob (c # ps) s \<longleftrightarrow> s \<noteq> [] \<and> hd s = c \<and> glob ps (tl s)"
  by (simp add: glob.simps(2))

lemma glob_literals:
  "CHR ''*'' \<notin> set ls \<Longrightarrow> glob (ls @ ps) s \<longleftrightarrow> take (length ls) s = ls \<and> glob ps (drop (length ls) s)"
proof (induction ls arbitrary: s)
  case Nil
  then show ?case by simp
next
  case (Cons c ls)
  then have c: "c \<noteq> CHR ''*''" by auto
  show ?case using Cons by (cases s) (simp_all add: glob_lit [OF c])
qed

lemma glob_plain: "CHR ''*'' \<notin> set p \<Longrightarrow> glob p s \<longleftrightarrow> s = p"
proof -
  assume "CHR ''*'' \<notin> set p"
  then have "glob p s \<longleftrightarrow> take (length p) s = p \<and> drop (length p) s = []"
    using glob_literals[of p "[]" s] by simp
  then show "glob p s \<longleftrightarrow> s = p" by auto
qed

lemma glob_stars_nil: "glob ps [] \<longleftrightarrow> set ps \<subseteq> {CHR ''*''}"
proof (induction ps)
  case Nil
  then show ?case by simp
next
  case (Cons c ps)
  then show ?case by (cases "c = CHR ''*''") (simp_all add: glob_star glob_lit)
qed

section \<open>Termination\<close>

definition match_ok :: "string \<Rightarrow> string \<Rightarrow> match_state \<Rightarrow> bool" where
  "match_ok pat s st \<longleftrightarrow> -1 \<le> star st \<and> star st < int (pi st) \<and> mark st \<le> si st \<and>
     pi st \<le> length pat \<and> si st \<le> length s"

lemma match_ok_init: "match_ok pat s match_init"
  by (simp add: match_ok_def match_init_def)

lemma match_ok_body: "match_ok pat s st \<Longrightarrow> match_cond s st \<Longrightarrow> match_ok pat s (match_body pat s st)"
  by (auto simp: match_ok_def match_cond_def match_body_def)

definition match_measure :: "string \<Rightarrow> string \<Rightarrow> (match_state \<times> match_state) set" where
  "match_measure pat s =
     measures [\<lambda>st. if failed st then 0 else 1, \<lambda>st. nat (int (length pat) - star st),
       \<lambda>st. length s - mark st, \<lambda>st. length s - si st]"

lemma match_body_decreases:
  "match_ok pat s st \<Longrightarrow> match_cond s st \<Longrightarrow> (match_body pat s st, st) \<in> match_measure pat s"
  by (auto simp: match_ok_def match_cond_def match_body_def match_measure_def)

lemma match_loop_stops:
  "\<exists>st. while_option (match_cond s) (match_body pat s) match_init = Some st"
proof (rule wf_rel_while_option_Some [where R = "match_measure pat s" and P = "match_ok pat s"])
  show "wf (match_measure pat s)" by (simp add: match_measure_def)
qed (auto intro: match_ok_body match_ok_init match_body_decreases)

lemma match_segment_Some: "\<exists>b. match_segment pat s = Some b"
  using match_loop_stops[of s pat] by (auto simp: match_segment_def)

section \<open>The loop decides the meaning\<close>

text \<open>
  The pattern matches the text exactly when its rest matches the rest of the text, or when the
  remembered star may still absorb more; between that star and \<open>pi\<close> the pattern is literal and
  equals the text between \<open>mark\<close> and \<open>si\<close>.
\<close>

definition more :: "string \<Rightarrow> string \<Rightarrow> match_state \<Rightarrow> bool" where
  "more pat s st \<longleftrightarrow> star st \<noteq> -1 \<and>
     (\<exists>k > mark st. k \<le> length s \<and> glob (drop (nat (star st + 1)) pat) (drop k s))"

definition literal_run :: "string \<Rightarrow> string \<Rightarrow> match_state \<Rightarrow> bool" where
  "literal_run pat s st \<longleftrightarrow> star st \<noteq> -1 \<longrightarrow>
     (\<exists>ls. drop (nat (star st + 1)) pat = ls @ drop (pi st) pat \<and> CHR ''*'' \<notin> set ls \<and>
        si st = mark st + length ls)"

definition match_inv :: "string \<Rightarrow> string \<Rightarrow> match_state \<Rightarrow> bool" where
  "match_inv pat s st \<longleftrightarrow> match_ok pat s st \<and> literal_run pat s st \<and>
     glob pat s = (\<not> failed st \<and> (glob (drop (pi st) pat) (drop (si st) s) \<or> more pat s st))"

lemma match_inv_init: "match_inv pat s match_init"
  by (simp add: match_inv_def match_ok_init literal_run_def more_def) (simp add: match_init_def)

lemma more_iff_after:
  assumes "literal_run pat s st" and "star st \<noteq> -1"
  shows "more pat s st \<longleftrightarrow> (\<exists>j > si st. j \<le> length s \<and>
     take (si st - mark st) (drop (j - (si st - mark st)) s) = take (si st - mark st) (drop (nat (star st + 1)) pat) \<and>
     glob (drop (pi st) pat) (drop j s))"
proof -
  obtain ls where ls: "drop (nat (star st + 1)) pat = ls @ drop (pi st) pat"
    "CHR ''*'' \<notin> set ls" "si st = mark st + length ls"
    using assms by (auto simp: literal_run_def)
  have "more pat s st \<longleftrightarrow> (\<exists>k > mark st. k \<le> length s \<and> take (length ls) (drop k s) = ls \<and>
      glob (drop (pi st) pat) (drop (k + length ls) s))"
    using assms(2) ls by (simp add: more_def glob_literals add.commute)
  also have "\<dots> \<longleftrightarrow> (\<exists>j > mark st + length ls. j \<le> length s \<and> take (length ls) (drop (j - length ls) s) = ls \<and>
      glob (drop (pi st) pat) (drop j s))"
  proof
    assume "\<exists>k > mark st. k \<le> length s \<and> take (length ls) (drop k s) = ls \<and>
      glob (drop (pi st) pat) (drop (k + length ls) s)"
    then obtain k where k: "k > mark st" "take (length ls) (drop k s) = ls" "k \<le> length s"
      "glob (drop (pi st) pat) (drop (k + length ls) s)" by blast
    have "length (take (length ls) (drop k s)) = length ls" using k by simp
    then have "k + length ls \<le> length s" using k(3) by simp
    then show "\<exists>j > mark st + length ls. j \<le> length s \<and> take (length ls) (drop (j - length ls) s) = ls \<and>
      glob (drop (pi st) pat) (drop j s)"
      using k by (intro exI[of _ "k + length ls"]) simp
  next
    assume "\<exists>j > mark st + length ls. j \<le> length s \<and> take (length ls) (drop (j - length ls) s) = ls \<and>
      glob (drop (pi st) pat) (drop j s)"
    then obtain j where "j > mark st + length ls" "j \<le> length s"
      "take (length ls) (drop (j - length ls) s) = ls" "glob (drop (pi st) pat) (drop j s)" by blast
    then show "\<exists>k > mark st. k \<le> length s \<and> take (length ls) (drop k s) = ls \<and>
      glob (drop (pi st) pat) (drop (k + length ls) s)"
      by (intro exI[of _ "j - length ls"]) auto
  qed
  finally show ?thesis using ls by simp
qed

lemma more_at_end:
  assumes "match_ok pat s st" "literal_run pat s st" "si st = length s"
  shows "\<not> more pat s st"
  using more_iff_after[OF assms(2)] assms(3) by (cases "star st = -1") (auto simp: more_def)

lemma more_at_star:
  assumes "literal_run pat s st" "more pat s st" "drop (pi st) pat = CHR ''*'' # ps"
  shows "\<exists>k > si st. k \<le> length s \<and> glob ps (drop k s)"
proof -
  from assms(2) have "star st \<noteq> -1" by (simp add: more_def)
  then obtain j where j: "j > si st" "j \<le> length s" "glob (CHR ''*'' # ps) (drop j s)"
    using more_iff_after[OF assms(1)] assms(2,3) by auto
  then obtain k where "k \<le> length (drop j s)" "glob ps (drop k (drop j s))"
    by (auto simp: glob_star)
  then show ?thesis using j by (intro exI[of _ "k + j"]) auto
qed

lemma drop_nth_cons: "n < length xs \<Longrightarrow> drop n xs = xs ! n # drop (Suc n) xs"
  by (simp add: Cons_nth_drop_Suc)

lemma glob_step:
  assumes "si st < length s" "CHR ''*'' \<notin> set s" "pi st < length pat" "pat ! pi st = s ! si st"
  shows "glob (drop (pi st) pat) (drop (si st) s) = glob (drop (Suc (pi st)) pat) (drop (Suc (si st)) s)"
proof -
  have "pat ! pi st \<noteq> CHR ''*''" using assms by (metis nth_mem)
  then show ?thesis using assms by (simp add: drop_nth_cons glob_lit)
qed

lemma glob_split_star:
  assumes "si st < length s"
  shows "glob (CHR ''*'' # ps) (drop (si st) s) \<longleftrightarrow>
    glob ps (drop (si st) s) \<or> (\<exists>k > si st. k \<le> length s \<and> glob ps (drop k s))"
proof -
  have "glob (CHR ''*'' # ps) (drop (si st) s) \<longleftrightarrow> (\<exists>k \<le> length s - si st. glob ps (drop (k + si st) s))"
    by (simp add: glob_star)
  also have "\<dots> \<longleftrightarrow> (\<exists>k \<ge> si st. k \<le> length s \<and> glob ps (drop k s))"
  proof
    assume "\<exists>k \<ge> si st. k \<le> length s \<and> glob ps (drop k s)"
    then obtain k where "k \<ge> si st" "k \<le> length s" "glob ps (drop k s)" by blast
    then show "\<exists>k \<le> length s - si st. glob ps (drop (k + si st) s)"
      by (intro exI[of _ "k - si st"]) simp
  next
    assume "\<exists>k \<le> length s - si st. glob ps (drop (k + si st) s)"
    then obtain k where "k \<le> length s - si st" "glob ps (drop (k + si st) s)" by blast
    then show "\<exists>k \<ge> si st. k \<le> length s \<and> glob ps (drop k s)"
      using assms by (intro exI[of _ "k + si st"]) simp
  qed
  finally show ?thesis using assms by (metis le_eq_less_or_eq less_imp_le_nat)
qed

lemma literal_run_snoc:
  assumes "literal_run pat s st" "pi st < length pat" "pat ! pi st \<noteq> CHR ''*''"
  shows "literal_run pat s (st\<lparr>pi := Suc (pi st), si := Suc (si st)\<rparr>)"
proof (cases "star st = -1")
  case True
  then show ?thesis by (simp add: literal_run_def)
next
  case False
  then obtain ls where ls: "drop (nat (star st + 1)) pat = ls @ drop (pi st) pat"
    "CHR ''*'' \<notin> set ls" "si st = mark st + length ls"
    using assms(1) by (auto simp: literal_run_def)
  then show ?thesis
    using assms(2,3) by (auto simp: literal_run_def drop_nth_cons intro!: exI[of _ "ls @ [pat ! pi st]"])
qed

lemma ex_above: "(\<exists>k > m. P k) \<longleftrightarrow> P (Suc m) \<or> (\<exists>k > Suc m. P k)"
  by (metis Suc_lessD Suc_lessI lessI)

lemma match_inv_body:
  assumes inv: "match_inv pat s st" and cond: "match_cond s st" and plain: "CHR ''*'' \<notin> set s"
  shows "match_inv pat s (match_body pat s st)"
proof -
  have ok: "match_ok pat s (match_body pat s st)"
    using inv cond by (simp add: match_inv_def match_ok_body)
  have lit: "literal_run pat s st" and si: "si st < length s" "\<not> failed st" and okst: "match_ok pat s st"
    and eq: "glob pat s = (glob (drop (pi st) pat) (drop (si st) s) \<or> more pat s st)"
    using inv cond by (simp_all add: match_inv_def match_cond_def)
  have ch: "s ! si st \<noteq> CHR ''*''" using plain si by (metis nth_mem)
  consider (same) "pi st < length pat" "pat ! pi st = s ! si st"
    | (star) "pi st < length pat" "pat ! pi st = CHR ''*''"
    | (stuck) "\<not> (pi st < length pat \<and> (pat ! pi st = s ! si st \<or> pat ! pi st = CHR ''*''))"
    by blast
  then show ?thesis
  proof cases
    case same
    then have body: "match_body pat s st = st\<lparr>pi := Suc (pi st), si := Suc (si st)\<rparr>"
      by (simp add: match_body_def)
    have "more pat s (st\<lparr>pi := Suc (pi st), si := Suc (si st)\<rparr>) = more pat s st"
      by (simp add: more_def)
    then show ?thesis
      using ok eq glob_step[OF si(1) plain same] literal_run_snoc[OF lit same(1)] same ch si
      by (simp add: match_inv_def body)
  next
    case star
    then have body: "match_body pat s st = st\<lparr>star := int (pi st), mark := si st, pi := Suc (pi st)\<rparr>"
      using ch by (auto simp: match_body_def)
    have dr: "drop (pi st) pat = CHR ''*'' # drop (Suc (pi st)) pat"
      using star by (metis drop_nth_cons)
    have m: "more pat s (match_body pat s st) \<longleftrightarrow>
        (\<exists>k > si st. k \<le> length s \<and> glob (drop (Suc (pi st)) pat) (drop k s))"
      by (simp add: more_def body nat_add_distrib)
    have "glob pat s = (glob (drop (Suc (pi st)) pat) (drop (si st) s) \<or> more pat s (match_body pat s st))"
      using eq glob_split_star[OF si(1)] more_at_star[OF lit _ dr] by (auto simp: dr m)
    moreover have "literal_run pat s (match_body pat s st)"
      by (simp add: literal_run_def body nat_add_distrib)
    ultimately show ?thesis using ok si by (simp add: match_inv_def body)
  next
    case stuck
    have no: "\<not> glob (drop (pi st) pat) (drop (si st) s)"
    proof (cases "pi st < length pat")
      case True
      then show ?thesis using stuck si by (auto simp: drop_nth_cons glob_lit)
    next
      case False
      then show ?thesis using si by simp
    qed
    show ?thesis
    proof (cases "star st = -1")
      case True
      then have "match_body pat s st = st\<lparr>failed := True\<rparr>"
        using stuck by (auto simp: match_body_def)
      then show ?thesis using ok lit eq no True by (simp add: match_inv_def literal_run_def more_def)
    next
      case False
      then have body: "match_body pat s st =
          st\<lparr>pi := nat (star st + 1), mark := Suc (mark st), si := Suc (mark st)\<rparr>"
        using stuck by (auto simp: match_body_def)
      have "mark st < length s" using okst si by (simp add: match_ok_def)
      then have "more pat s st \<longleftrightarrow> glob (drop (nat (star st + 1)) pat) (drop (Suc (mark st)) s) \<or>
          more pat s (match_body pat s st)"
        using False ex_above[of "mark st" "\<lambda>k. k \<le> length s \<and> glob (drop (nat (star st + 1)) pat) (drop k s)"]
        by (simp add: more_def body Suc_le_eq)
      moreover have "literal_run pat s (match_body pat s st)"
        by (simp add: literal_run_def body)
      ultimately show ?thesis using ok eq no si by (simp add: match_inv_def body)
    qed
  qed
qed

lemma skip_stars_all:
  "p \<le> length pat \<Longrightarrow> n = length pat - p \<Longrightarrow>
     skip_stars pat p n = length pat \<longleftrightarrow> set (drop p pat) \<subseteq> {CHR ''*''}"
proof (induction n arbitrary: p)
  case 0
  then show ?case by simp
next
  case (Suc n)
  then have p: "p < length pat" by simp
  have IH: "skip_stars pat (Suc p) n = length pat \<longleftrightarrow> set (drop (Suc p) pat) \<subseteq> {CHR ''*''}"
    using Suc by (intro Suc.IH) simp_all
  show ?case using p IH by (simp add: drop_nth_cons)
qed

lemma match_segment_glob_lemma:
  assumes "CHR ''*'' \<notin> set s"
  shows "match_segment pat s = Some (glob pat s)"
proof -
  obtain st where st: "while_option (match_cond s) (match_body pat s) match_init = Some st"
    using match_loop_stops by blast
  have inv: "match_inv pat s st"
    by (rule while_option_rule [where P = "match_inv pat s", OF _ st])
      (simp_all add: match_inv_init match_inv_body assms)
  have stop: "\<not> match_cond s st" using st by (rule while_option_stop)
  show ?thesis
  proof (cases "failed st")
    case True
    then show ?thesis using inv st by (simp add: match_segment_def match_inv_def)
  next
    case False
    then have end_si: "si st = length s" using stop inv by (simp add: match_cond_def match_inv_def match_ok_def)
    then have "\<not> more pat s st" using inv by (intro more_at_end) (simp_all add: match_inv_def)
    then have "glob pat s = (set (drop (pi st) pat) \<subseteq> {CHR ''*''})"
      using inv False end_si by (simp add: match_inv_def glob_stars_nil)
    then show ?thesis using st False inv
      by (simp add: match_segment_def skip_stars_all match_inv_def match_ok_def)
  qed
qed

section \<open>Paths\<close>

text \<open>A loop that returns at the first hit, where each test may fail to return.\<close>

fun any_opt :: "('a \<Rightarrow> bool option) \<Rightarrow> 'a list \<Rightarrow> bool option" where
  "any_opt f [] = Some False"
| "any_opt f (x # xs) =
     (case f x of None \<Rightarrow> None | Some True \<Rightarrow> Some True | Some False \<Rightarrow> any_opt f xs)"

lemma any_opt_cong [fundef_cong]:
  "xs = ys \<Longrightarrow> (\<And>x. x \<in> set ys \<Longrightarrow> f x = g x) \<Longrightarrow> any_opt f xs = any_opt g ys"
  by (induction ys arbitrary: xs) (auto split: option.splits bool.splits)

lemma any_opt_total: "(\<And>x. x \<in> set xs \<Longrightarrow> f x = Some (P x)) \<Longrightarrow> any_opt f xs = Some (\<exists>x \<in> set xs. P x)"
  by (induction xs) (auto split: bool.splits)

lemma any_opt_Some: "(\<And>x. x \<in> set xs \<Longrightarrow> \<exists>b. f x = Some b) \<Longrightarrow> \<exists>b. any_opt f xs = Some b"
  by (induction xs) (force split: bool.splits)+

fun match_segments :: "string list \<Rightarrow> string list \<Rightarrow> bool option" where
  "match_segments [] name = Some (name = [])"
| "match_segments (p # ps) name =
     (if p = ''**'' then any_opt (\<lambda>i. match_segments ps (drop i name)) [0 ..< length name + 1]
      else if name = [] then Some False
      else (case match_segment p (hd name) of
              None \<Rightarrow> None
            | Some False \<Rightarrow> Some False
            | Some True \<Rightarrow> match_segments ps (tl name)))"

definition Match :: "string \<Rightarrow> string \<Rightarrow> bool option" where
  "Match pattern path =
     (let pattern = trim_space pattern in
      if pattern = [] then Some False
      else let pattern = (if has_suffix pattern ''/'' then pattern @ ''**'' else pattern) in
        match_segments (split_on CHR ''/'' pattern) (split_on CHR ''/'' path))"

datatype file_policy = FILE_POLICY_UNSPECIFIED | FILE_POLICY_USER_WRITABLE | FILE_POLICY_ENFORCED

definition Resolve :: "string \<Rightarrow> string list \<Rightarrow> string list \<Rightarrow> file_policy option" where
  "Resolve path userWritable enforced =
     (case any_opt (\<lambda>pattern. Match pattern path) enforced of
        None \<Rightarrow> None
      | Some True \<Rightarrow> Some FILE_POLICY_ENFORCED
      | Some False \<Rightarrow>
          (case any_opt (\<lambda>pattern. Match pattern path) userWritable of
             None \<Rightarrow> None
           | Some True \<Rightarrow> Some FILE_POLICY_USER_WRITABLE
           | Some False \<Rightarrow> Some FILE_POLICY_UNSPECIFIED))"

text \<open>
  The meaning of a path pattern: the segments of the path are dealt out to the segments of the
  pattern in order, any number to \<open>**\<close> and exactly one to every other, which it must match.
\<close>

definition takes :: "string \<Rightarrow> string list \<Rightarrow> bool" where
  "takes p g \<longleftrightarrow> p = ''**'' \<or> (\<exists>n. g = [n] \<and> glob p n)"

definition path_meaning :: "string list \<Rightarrow> string list \<Rightarrow> bool" where
  "path_meaning pat name \<longleftrightarrow> (\<exists>gs. list_all2 takes pat gs \<and> concat gs = name)"

lemma path_meaning_Nil [simp]: "path_meaning [] name \<longleftrightarrow> name = []"
  by (auto simp: path_meaning_def)

lemma path_meaning_Cons:
  "path_meaning (p # ps) name \<longleftrightarrow> (\<exists>g r. takes p g \<and> name = g @ r \<and> path_meaning ps r)"
proof
  assume "path_meaning (p # ps) name"
  then show "\<exists>g r. takes p g \<and> name = g @ r \<and> path_meaning ps r"
    unfolding path_meaning_def list_all2_Cons1 by auto blast
next
  assume "\<exists>g r. takes p g \<and> name = g @ r \<and> path_meaning ps r"
  then obtain g gs where "takes p g" "name = g @ concat gs" "list_all2 takes ps gs"
    unfolding path_meaning_def by blast
  then show "path_meaning (p # ps) name"
    unfolding path_meaning_def by (intro exI [of _ "g # gs"]) simp
qed

lemma path_meaning_stars:
  "path_meaning (''**'' # ps) name \<longleftrightarrow> (\<exists>i \<le> length name. path_meaning ps (drop i name))"
proof
  assume "\<exists>i \<le> length name. path_meaning ps (drop i name)"
  then show "path_meaning (''**'' # ps) name"
    unfolding path_meaning_Cons takes_def by (metis append_take_drop_id)
next
  assume "path_meaning (''**'' # ps) name"
  then obtain g r where "name = g @ r" "path_meaning ps r" unfolding path_meaning_Cons by blast
  then show "\<exists>i \<le> length name. path_meaning ps (drop i name)"
    by (intro exI[of _ "length g"]) simp
qed

lemma path_meaning_one:
  "p \<noteq> ''**'' \<Longrightarrow> path_meaning (p # ps) name \<longleftrightarrow> name \<noteq> [] \<and> glob p (hd name) \<and> path_meaning ps (tl name)"
  unfolding path_meaning_Cons takes_def by (cases name) auto

lemma match_segments_meaning:
  "\<forall>n \<in> set name. CHR ''*'' \<notin> set n \<Longrightarrow> match_segments pat name = Some (path_meaning pat name)"
proof (induction pat arbitrary: name)
  case Nil
  then show ?case by simp
next
  case (Cons p ps)
  show ?case
  proof (cases "p = ''**''")
    case True
    have "any_opt (\<lambda>i. match_segments ps (drop i name)) [0 ..< length name + 1] =
      Some (\<exists>i \<in> set [0 ..< length name + 1]. path_meaning ps (drop i name))"
      using Cons.prems by (intro any_opt_total Cons.IH) (auto dest: in_set_dropD)
    then show ?thesis using True by (simp add: path_meaning_stars less_Suc_eq_le del: upt_Suc)
        (auto simp: less_Suc_eq_le)
  next
    case False
    then show ?thesis using Cons
      by (cases name) (auto simp: path_meaning_one match_segment_glob_lemma split: bool.splits)
  qed
qed

lemma match_segments_Some: "\<exists>b. match_segments pat name = Some b"
proof (induction pat arbitrary: name)
  case Nil
  then show ?case by simp
next
  case (Cons p ps)
  have "\<exists>b. any_opt (\<lambda>i. match_segments ps (drop i name)) [0 ..< length name + 1] = Some b"
    by (intro any_opt_Some Cons.IH)
  moreover obtain b where "match_segment p (hd name) = Some b" using match_segment_Some by blast
  ultimately show ?case using Cons.IH[of "tl name"] by (cases b) auto
qed

lemma Match_Some: "\<exists>b. Match pattern path = Some b"
  using match_segments_Some by (auto simp: Match_def Let_def)

text \<open>The pattern as the code expands it.\<close>

definition expanded :: "string \<Rightarrow> string" where
  "expanded pattern = (if has_suffix pattern ''/'' then pattern @ ''**'' else pattern)"

lemma split_segments_plain:
  "CHR ''*'' \<notin> set path \<Longrightarrow> n \<in> set (split_on c path) \<Longrightarrow> CHR ''*'' \<notin> set n"
  using split_on_sub by blast

lemma Match_meaning_lemma:
  "CHR ''*'' \<notin> set path \<Longrightarrow> Match pattern path =
     Some (trim_space pattern \<noteq> [] \<and>
       path_meaning (split_on CHR ''/'' (expanded (trim_space pattern))) (split_on CHR ''/'' path))"
  by (auto simp: Match_def Let_def expanded_def match_segments_meaning split_segments_plain)

section \<open>Properties\<close>

text \<open>
  C28: the segment matcher with one remembered star returns, for a text without stars, exactly the
  reference meaning of the pattern.
\<close>

theorem match_segment_glob:
  "CHR ''*'' \<notin> set s \<Longrightarrow> match_segment pat s = Some (glob pat s)"
  by (rule match_segment_glob_lemma)

theorem match_segment_glob_witness:
  "CHR ''*'' \<notin> set ''ab.jar'' \<and> match_segment ''*.jar'' ''ab.jar'' = Some (glob ''*.jar'' ''ab.jar'')"
  using match_segment_glob [of "''ab.jar''" "''*.jar''"] by simp

text \<open>
  on a path without stars, \<open>Match\<close> is the declarative meaning of the trimmed and expanded
  pattern, and a blank pattern matches nothing.
\<close>

theorem Match_meaning:
  "CHR ''*'' \<notin> set path \<Longrightarrow> Match pattern path =
     Some (trim_space pattern \<noteq> [] \<and>
       path_meaning (split_on CHR ''/'' (expanded (trim_space pattern))) (split_on CHR ''/'' path))"
  by (rule Match_meaning_lemma)

theorem Match_meaning_witness:
  "CHR ''*'' \<notin> set ''config/a/b'' \<and> Match ''config/'' ''config/a/b'' =
     Some (trim_space ''config/'' \<noteq> [] \<and>
       path_meaning (split_on CHR ''/'' (expanded (trim_space ''config/''))) (split_on CHR ''/'' ''config/a/b''))"
  using Match_meaning [of "''config/a/b''" "''config/''"] by simp

text \<open>
  resolving a policy always returns; an enforced pattern that matches wins over every
  user-writable one, and a path that no pattern matches has no policy.
\<close>

theorem Resolve_priority:
  "Resolve path userWritable enforced =
     Some (if \<exists>e \<in> set enforced. Match e path = Some True then FILE_POLICY_ENFORCED
           else if \<exists>u \<in> set userWritable. Match u path = Some True then FILE_POLICY_USER_WRITABLE
           else FILE_POLICY_UNSPECIFIED)"
proof -
  have "any_opt (\<lambda>p. Match p path) ps = Some (\<exists>p \<in> set ps. Match p path = Some True)" for ps
    using Match_Some by (intro any_opt_total) (metis (full_types))
  then show ?thesis by (simp add: Resolve_def split: bool.splits)
qed

text \<open>
  a literal star in the text is taken by the pattern's star as one literal byte, before the
  star is remembered, so the pattern of a single star does not match every segment.
\<close>

theorem match_segment_literal_star:
  "match_segment ''*'' ''*ab'' = Some False \<and> glob ''*'' ''*ab''"
proof
  show "match_segment ''*'' ''*ab'' = Some False"
    by (simp add: match_segment_def match_init_def match_cond_def match_body_def while_option_unfold)
  show "glob ''*'' ''*ab''"
    unfolding glob_star by (rule exI [of _ 3]) simp
qed

end
