(* ===== verification/SafePath.thy ===== *)
theory SafePath
  imports GoStrings
begin

text \<open>
  \<open>internal/safepath\<close>: a relative path from outside (an archive, a manifest, a request) made safe
  to join to a root. \<open>Relative\<close> and \<open>Join\<close> are the two exported functions; \<open>Clean\<close> and
  \<open>path_join\<close> are what they use of \<open>path/filepath\<close> on a system whose separator is the slash.
\<close>

section \<open>Lexical cleaning of paths\<close>

fun clean_segs :: "bool \<Rightarrow> string list \<Rightarrow> string list \<Rightarrow> string list" where
  "clean_segs rooted acc [] = rev acc"
| "clean_segs rooted acc (s # ss) =
     (if s = [] \<or> s = ''.'' then clean_segs rooted acc ss
      else if s = ''..'' then
        (case acc of
           [] \<Rightarrow> clean_segs rooted (if rooted then [] else [''..'']) ss
         | a # as \<Rightarrow> clean_segs rooted (if a = ''..'' then ''..'' # acc else as) ss)
      else clean_segs rooted (s # acc) ss)"

definition Clean :: "string \<Rightarrow> string" where
  "Clean path =
     (let rooted = (path \<noteq> [] \<and> hd path = CHR ''/'');
          out = join_with CHR ''/'' (clean_segs rooted [] (split_on CHR ''/'' path))
      in if rooted then CHR ''/'' # out else if out = [] then ''.'' else out)"

text \<open>\<open>filepath.Join\<close>: the empty elements are ignored, the rest is joined and cleaned.\<close>

definition path_join :: "string list \<Rightarrow> string" where
  "path_join elems =
     (let es = filter (\<lambda>e. e \<noteq> []) elems in if es = [] then [] else Clean (join_with CHR ''/'' es))"

section \<open>The two functions\<close>

datatype path_error =
    EmptyPath
  | Absolute string
  | OnDrive string
  | NulByte string
  | Climbs string
  | NoTarget string
  | Escapes string string

fun relative_parts :: "string \<Rightarrow> string list \<Rightarrow> string list \<Rightarrow> path_error + string list" where
  "relative_parts path parts [] = Inr parts"
| "relative_parts path parts (segment # rest) =
     (if segment = [] \<or> segment = ''.'' then relative_parts path parts rest
      else if segment = ''..'' then Inl (Climbs path)
      else relative_parts path (parts @ [segment]) rest)"

definition Relative :: "string \<Rightarrow> path_error + string" where
  "Relative path =
     (let text = map (\<lambda>c. if c = CHR 0x5C then CHR ''/'' else c) (trim_space path) in
      if text = [] then Inl EmptyPath
      else if has_prefix text ''/'' then Inl (Absolute path)
      else if 1 < length text \<and> text ! 1 = CHR '':'' then Inl (OnDrive path)
      else if CHR 0x00 \<in> set text then Inl (NulByte path)
      else bind_res (relative_parts path [] (split_on CHR ''/'' text))
        (\<lambda>parts. if parts = [] then Inl (NoTarget path) else Inr (path_join parts)))"

definition Join :: "string \<Rightarrow> string \<Rightarrow> path_error + string" where
  "Join root relative =
     bind_res (Relative relative)
       (\<lambda>cleaned.
          let target = path_join [root, cleaned]; base = Clean root in
          if target \<noteq> base \<and> \<not> has_prefix target (base @ ''/'') then Inl (Escapes relative root)
          else Inr target)"

section \<open>Plain segments\<close>

definition plain_seg :: "string \<Rightarrow> bool" where
  "plain_seg s \<longleftrightarrow> s \<noteq> [] \<and> s \<noteq> ''.'' \<and> s \<noteq> ''..'' \<and> CHR ''/'' \<notin> set s"

lemma clean_segs_plain: "\<forall>s \<in> set ss. plain_seg s \<Longrightarrow> clean_segs rooted acc ss = rev acc @ ss"
  by (induction ss arbitrary: acc) (auto simp: plain_seg_def)

lemma clean_segs_append_plain:
  "\<forall>s \<in> set ys. plain_seg s \<Longrightarrow> clean_segs rooted acc (xs @ ys) = clean_segs rooted acc xs @ ys"
proof (induction rooted acc xs rule: clean_segs.induct)
  case (1 rooted acc)
  then show ?case by (simp add: clean_segs_plain)
next
  case (2 rooted acc s ss)
  consider "s = [] \<or> s = ''.''" | "s = ''..''" | "s \<noteq> [] \<and> s \<noteq> ''.'' \<and> s \<noteq> ''..''" by blast
  then show ?case using 2 by cases (auto split: list.splits)
qed

lemma relative_parts_plain:
  "relative_parts path parts ss = Inr ps \<Longrightarrow> list_all (\<lambda>s. CHR ''/'' \<notin> set s) ss \<Longrightarrow>
     list_all plain_seg parts \<Longrightarrow> list_all plain_seg ps"
proof (induction path parts ss rule: relative_parts.induct)
  case (2 path parts s ss)
  consider "s = [] \<or> s = ''.''" | "s = ''..''" | "s \<noteq> []" "s \<noteq> ''.''" "s \<noteq> ''..''" by blast
  then show ?case
  proof cases
    case 1
    then have "relative_parts path parts ss = Inr ps" using "2.prems"(1) by auto
    with 1 show ?thesis using "2.IH"(1) "2.prems"(2,3) by simp
  next
    case 2
    then show ?thesis using "2.prems"(1) by simp
  next
    case 3
    then have "relative_parts path (parts @ [s]) ss = Inr ps" and "plain_seg s"
      using "2.prems"(1,2) by (simp_all add: plain_seg_def)
    with 3 show ?thesis using "2.IH"(2) "2.prems"(2,3) by simp
  qed
qed simp

lemma relative_parts_sub: "relative_parts path parts ss = Inr ps \<Longrightarrow> set ps \<subseteq> set parts \<union> set ss"
  by (induction path parts ss rule: relative_parts.induct) (fastforce split: if_splits)+

lemma join_ne: "ps \<noteq> [] \<Longrightarrow> \<forall>p \<in> set ps. p \<noteq> [] \<Longrightarrow> join_with c ps \<noteq> []"
  by (cases ps) (simp_all add: join_Cons)

lemma hd_join: "ps \<noteq> [] \<Longrightarrow> \<forall>p \<in> set ps. plain_seg p \<Longrightarrow> hd (join_with CHR ''/'' ps) \<noteq> CHR ''/''"
proof (cases ps)
  case (Cons p qs)
  assume "\<forall>p \<in> set ps. plain_seg p"
  then have p: "p \<noteq> []" "CHR ''/'' \<notin> set p" using Cons by (simp_all add: plain_seg_def)
  then have "hd (join_with CHR ''/'' ps) = hd p" by (simp add: Cons join_Cons)
  then show ?thesis using p hd_in_set[OF p(1)] by metis
qed simp

lemma Clean_plain:
  assumes "ps \<noteq> []" "\<forall>p \<in> set ps. plain_seg p"
  shows "Clean (join_with CHR ''/'' ps) = join_with CHR ''/'' ps"
proof -
  have "split_on CHR ''/'' (join_with CHR ''/'' ps) = ps"
    using assms by (intro split_join) (auto simp: plain_seg_def)
  moreover have "join_with CHR ''/'' ps \<noteq> []" using assms by (intro join_ne) (auto simp: plain_seg_def)
  ultimately show ?thesis
    using assms hd_join[OF assms] by (simp add: Clean_def Let_def clean_segs_plain)
qed

lemma path_join_plain:
  assumes "ps \<noteq> []" "\<forall>p \<in> set ps. plain_seg p"
  shows "path_join ps = join_with CHR ''/'' ps"
proof -
  have "filter (\<lambda>e. e \<noteq> []) ps = ps" using assms(2) by (auto simp: plain_seg_def filter_id_conv)
  then show ?thesis using assms by (simp add: path_join_def Clean_plain)
qed

lemma Relative_shape:
  assumes "Relative path = Inr r"
  shows "\<exists>ps. ps \<noteq> [] \<and> (\<forall>p \<in> set ps. plain_seg p \<and> CHR 0x5C \<notin> set p \<and> CHR 0x00 \<notin> set p) \<and>
    r = join_with CHR ''/'' ps"
proof -
  let ?text = "map (\<lambda>c. if c = CHR 0x5C then CHR ''/'' else c) (trim_space path)"
  obtain ps where ps: "relative_parts path [] (split_on CHR ''/'' ?text) = Inr ps" "ps \<noteq> []"
    "r = path_join ps" "CHR 0x00 \<notin> set ?text"
    using assms by (auto simp: Relative_def Let_def res_simps split: if_splits)
  have "list_all (\<lambda>s. CHR ''/'' \<notin> set s) (split_on CHR ''/'' ?text)"
    using split_on_no_sep by (auto simp: list_all_iff)
  then have plain: "\<forall>p \<in> set ps. plain_seg p"
    using relative_parts_plain[OF ps(1)] by (simp add: list_all_iff)
  have "p \<in> set ps \<Longrightarrow> set p \<subseteq> set ?text" for p
    using relative_parts_sub[OF ps(1)] split_on_sub[of p "CHR ''/''" ?text] by auto
  moreover have "CHR 0x5C \<notin> set ?text" by auto
  ultimately have "\<forall>p \<in> set ps. plain_seg p \<and> CHR 0x5C \<notin> set p \<and> CHR 0x00 \<notin> set p"
    using plain ps(4) by blast
  then show ?thesis using ps path_join_plain[OF ps(2) plain] by blast
qed

definition real_seg :: "string \<Rightarrow> bool" where
  "real_seg s \<longleftrightarrow> s \<noteq> [] \<and> s \<noteq> ''.'' \<and> CHR ''/'' \<notin> set s"

lemma clean_segs_real:
  "list_all real_seg acc \<Longrightarrow> list_all (\<lambda>s. CHR ''/'' \<notin> set s) ss \<Longrightarrow> list_all real_seg (clean_segs rooted acc ss)"
proof (induction rooted acc ss rule: clean_segs.induct)
  case (2 rooted acc s ss)
  have dots: "real_seg ''..''" by (simp add: real_seg_def)
  consider "s = [] \<or> s = ''.''" | "s = ''..''" | "s \<noteq> []" "s \<noteq> ''.''" "s \<noteq> ''..''" by blast
  then show ?case
  proof cases
    case 2
    then show ?thesis using "2.IH"(2,3) "2.prems" dots by (cases acc) (auto split: if_splits)
  qed (use "2.IH"(1,4) "2.prems" in \<open>simp_all add: real_seg_def\<close>)
qed simp

definition rooted_out :: "bool \<Rightarrow> string \<Rightarrow> string" where
  "rooted_out rooted out = (if rooted then CHR ''/'' # out else if out = [] then ''.'' else out)"

lemma Clean_out:
  "Clean path = rooted_out (path \<noteq> [] \<and> hd path = CHR ''/'')
     (join_with CHR ''/'' (clean_segs (path \<noteq> [] \<and> hd path = CHR ''/'') [] (split_on CHR ''/'' path)))"
  by (simp add: Clean_def rooted_out_def Let_def)

lemma joined_real:
  assumes "ps \<noteq> []" "\<forall>p \<in> set ps. real_seg p"
  shows "join_with CHR ''/'' ps \<noteq> ''.''" "join_with CHR ''/'' ps \<noteq> []" "join_with CHR ''/'' ps \<noteq> ''/''"
proof -
  obtain p qs where ps: "ps = p # qs" using assms(1) by (cases ps) auto
  have p: "p \<noteq> []" "p \<noteq> ''.''" "CHR ''/'' \<notin> set p" using assms(2) ps by (simp_all add: real_seg_def)
  have hd: "hd (join_with CHR ''/'' ps) = hd p" "join_with CHR ''/'' ps \<noteq> []" using p(1) by (simp_all add: ps join_Cons)
  then show "join_with CHR ''/'' ps \<noteq> []" by simp
  show "join_with CHR ''/'' ps \<noteq> ''/''" using hd(1) p(3) hd_in_set[OF p(1)] by (metis list.sel(1))
  show "join_with CHR ''/'' ps \<noteq> ''.''"
  proof (cases "qs = []")
    case True
    then show ?thesis using p(2) by (simp add: ps)
  next
    case False
    then have "CHR ''/'' \<in> set (join_with CHR ''/'' ps)" by (simp add: ps join_Cons)
    moreover have "CHR ''/'' \<notin> set ''.''" by simp
    ultimately show ?thesis by metis
  qed
qed

lemma Clean_append:
  assumes "root \<noteq> []" "ps \<noteq> []" "\<forall>p \<in> set ps. plain_seg p"
  shows "Clean (root @ CHR ''/'' # join_with CHR ''/'' ps) =
    (if Clean root = ''.'' then join_with CHR ''/'' ps
     else if Clean root = ''/'' then CHR ''/'' # join_with CHR ''/'' ps
     else Clean root @ CHR ''/'' # join_with CHR ''/'' ps)"
proof -
  obtain rt where rt: "rt \<longleftrightarrow> hd root = CHR ''/''" by blast
  let ?segs = "clean_segs rt [] (split_on CHR ''/'' root)"
  let ?tail = "join_with CHR ''/'' ps"
  have "split_on CHR ''/'' ?tail = ps"
    using assms by (intro split_join) (auto simp: plain_seg_def)
  then have lhs: "Clean (root @ CHR ''/'' # ?tail) = rooted_out rt (join_with CHR ''/'' (?segs @ ps))"
    using assms(1) rt by (simp add: Clean_out split_on_append2 clean_segs_append_plain assms(3))
  have rhs: "Clean root = rooted_out rt (join_with CHR ''/'' ?segs)"
    using assms(1) rt by (simp add: Clean_out)
  have "list_all (\<lambda>s. CHR ''/'' \<notin> set s) (split_on CHR ''/'' root)"
    using split_on_no_sep by (auto simp: list_all_iff)
  then have ok: "\<forall>s \<in> set ?segs. real_seg s"
    using clean_segs_real[of "[]" "split_on CHR ''/'' root" rt] by (simp add: list_all_iff)
  have tail: "?tail \<noteq> []" using assms by (intro join_ne) (auto simp: plain_seg_def)
  show ?thesis
  proof (cases ?segs)
    case Nil
    then show ?thesis unfolding lhs rhs using tail by (simp add: rooted_out_def)
  next
    case (Cons x xs)
    have "join_with CHR ''/'' ?segs \<noteq> ''.''" "join_with CHR ''/'' ?segs \<noteq> []" "join_with CHR ''/'' ?segs \<noteq> ''/''"
      using Cons ok joined_real[of ?segs] by auto
    then show ?thesis unfolding lhs rhs using tail Cons assms(2) join_append[of ?segs ps "CHR ''/''"]
      by (simp add: rooted_out_def)
  qed
qed

lemma Join_no_dot:
  assumes "ps \<noteq> []" "\<forall>p \<in> set ps. plain_seg p" "r = join_with CHR ''/'' ps"
  shows "\<not> has_prefix r ''./''"
proof
  assume "has_prefix r ''./''"
  then obtain t where "r = ''.'' @ CHR ''/'' # t" by (auto simp: has_prefix_iff)
  then have "split_on CHR ''/'' (join_with CHR ''/'' ps) = ''.'' # split_on CHR ''/'' t"
    using assms(3) split_on_append[of "CHR ''/''" "''.''" t] by simp
  moreover have "split_on CHR ''/'' (join_with CHR ''/'' ps) = ps"
    using assms by (intro split_join) (auto simp: plain_seg_def)
  ultimately show False using assms(2) by (simp add: plain_seg_def)
qed

section \<open>Properties\<close>

text \<open>
  a relative path that is accepted consists of plain segments only: none is empty, a dot or two
  dots, and none holds a slash, a backslash or a zero byte, so it names something below its root.
\<close>

theorem Relative_plain:
  "Relative path = Inr r \<Longrightarrow>
     \<exists>ps. ps \<noteq> [] \<and> (\<forall>p \<in> set ps. plain_seg p \<and> CHR 0x5C \<notin> set p \<and> CHR 0x00 \<notin> set p) \<and>
       r = join_with CHR ''/'' ps"
  by (rule Relative_shape)

theorem Relative_plain_witness:
  "Relative ''mods/./a.jar'' = Inr ''mods/a.jar'' \<and>
     (\<exists>ps. ps \<noteq> [] \<and> (\<forall>p \<in> set ps. plain_seg p \<and> CHR 0x5C \<notin> set p \<and> CHR 0x00 \<notin> set p) \<and>
       ''mods/a.jar'' = join_with CHR ''/'' ps)"
proof -
  have "trim_space ''mods/./a.jar'' = ''mods/./a.jar''" by (rule trim_space_id) (simp add: solid_def)
  then have "Relative ''mods/./a.jar'' = Inr ''mods/a.jar''"
    by (simp add: Relative_def has_prefix_def path_join_def Clean_def)
  then show ?thesis using Relative_plain by blast
qed

text \<open>
  joining keeps every accepted path strictly below the cleaned root; it rejects what
  \<open>Relative\<close> rejects, and its own check fires exactly when the root cleans to the current
  directory or to the file system's root, where no prefix with a separator exists.
\<close>

theorem Join_below_root:
  "Join root relative =
     (case Relative relative of
        Inl e \<Rightarrow> Inl e
      | Inr r \<Rightarrow> if Clean root = ''.'' \<or> Clean root = ''/'' then Inl (Escapes relative root)
          else Inr (Clean root @ ''/'' @ r))"
proof (cases "Relative relative")
  case (Inl e)
  then show ?thesis by (simp add: Join_def)
next
  case (Inr r)
  then obtain ps where ps: "ps \<noteq> []" "\<forall>p \<in> set ps. plain_seg p" "r = join_with CHR ''/'' ps"
    using Relative_shape by blast
  have cr: "Clean r = r" using ps Clean_plain by simp
  have r: "r \<noteq> []" "hd r \<noteq> CHR ''/''"
    using ps join_ne[of ps] hd_join[of ps] by (auto simp: plain_seg_def)
  have rd: "r \<noteq> ''.''"
  proof
    assume "r = ''.''"
    then have "split_on CHR ''/'' (join_with CHR ''/'' ps) = [''.'']" using ps(3) by simp
    moreover have "split_on CHR ''/'' (join_with CHR ''/'' ps) = ps"
      using ps by (intro split_join) (auto simp: plain_seg_def)
    ultimately show False using ps(2) by (simp add: plain_seg_def)
  qed
  show ?thesis
  proof (cases "root = []")
    case True
    have "Clean [] = ''.''" by (simp add: Clean_def)
    moreover have "\<not> has_prefix r ''./''" by (rule Join_no_dot[OF ps])
    ultimately show ?thesis using Inr r cr rd True by (simp add: Join_def path_join_def)
  next
    case False
    then have "path_join [root, r] = Clean (root @ CHR ''/'' # r)" using r by (simp add: path_join_def)
    moreover have "\<not> has_prefix r ''./''" by (rule Join_no_dot[OF ps])
    moreover have "take 1 r \<noteq> ''/''" using r by (cases r) simp_all
    ultimately show ?thesis using Inr r rd Clean_append[OF False ps(1,2)] ps(3)
      by (auto simp: Join_def Let_def has_prefix_def)
  qed
qed

end
