(* ===== verification/Totp.thy ===== *)
theory Totp
  imports GoStrings
begin

unbundle bit_operations_syntax

text \<open>
  \<open>internal/auth/totp\<close>: one-time codes. \<open>Verify\<close> checks a code against the three time steps around
  now; \<open>verifier\<close> with \<open>verifier_verify\<close> models \<open>Verifier\<close>, which remembers the last accepted step
  of each subject so that a code is not used more than \<open>codeUses\<close> times. Parameters, in
  \<open>totp_env\<close>: HMAC-SHA1, the upper-casing of a secret and the decoding of base 32.
\<close>

section \<open>Codes\<close>

type_synonym bytes = "8 word list"

record totp_env =
  hmac_sha1 :: "bytes \<Rightarrow> bytes \<Rightarrow> bytes"
  upper :: "string \<Rightarrow> string"
  base32 :: "string \<Rightarrow> bytes option"

definition period_seconds :: int where "period_seconds = 30"
definition digits :: nat where "digits = 6"
definition skewOps :: int where "skewOps = 1"
definition codeUses :: int where "codeUses = 2"

fun pow10 :: "nat \<Rightarrow> nat" where
  "pow10 0 = 1"
| "pow10 (Suc n) = pow10 n * 10"

definition codeMod :: nat where "codeMod = pow10 digits"

text \<open>Integer division of Go truncates towards zero.\<close>

definition go_div :: "int \<Rightarrow> int \<Rightarrow> int" where
  "go_div a b = sgn a * sgn b * (\<bar>a\<bar> div \<bar>b\<bar>)"

definition big_endian64 :: "64 word \<Rightarrow> bytes" where
  "big_endian64 w = map (\<lambda>i. ucast (drop_bit (8 * i) w)) (rev [0 ..< 8])"

definition big_endian32 :: "bytes \<Rightarrow> nat" where
  "big_endian32 bs = foldl (\<lambda>n b. 256 * n + unat b) 0 bs"

definition pad_zero :: "nat \<Rightarrow> string \<Rightarrow> string" where
  "pad_zero n s = replicate (n - length s) CHR ''0'' @ s"

definition hotp :: "totp_env \<Rightarrow> bytes \<Rightarrow> int \<Rightarrow> string" where
  "hotp T key step =
     (let sum = hmac_sha1 T key (big_endian64 (word_of_int step));
          offset = unat (last sum AND 0x0f);
          value = big_endian32 (take 4 (drop offset sum)) mod 2 ^ 31
      in pad_zero digits (nat_digits (value mod codeMod)))"

definition decode :: "totp_env \<Rightarrow> string \<Rightarrow> bytes option" where
  "decode T secret =
     (let clean = upper T (filter (\<lambda>c. c \<notin> {CHR '' '', CHR ''-'', CHR ''=''}) (trim_space secret))
      in if clean = [] then None else base32 T clean)"

definition onlyDigits :: "string \<Rightarrow> bool" where
  "onlyDigits code = list_all is_digit code"

text \<open>\<open>hmac.Equal\<close> compares the bytes.\<close>

definition match_code :: "totp_env \<Rightarrow> bytes \<Rightarrow> string \<Rightarrow> int \<Rightarrow> bool" where
  "match_code T key code step \<longleftrightarrow> hotp T key step = code"

definition Code :: "totp_env \<Rightarrow> string \<Rightarrow> int \<Rightarrow> string option" where
  "Code T secret unix = map_option (\<lambda>key. hotp T key (go_div unix period_seconds)) (decode T secret)"

text \<open>The loop over the steps returns at the first match; the result is the step.\<close>

definition Verify :: "totp_env \<Rightarrow> string \<Rightarrow> string \<Rightarrow> int \<Rightarrow> int option" where
  "Verify T secret code unix =
     (case decode T secret of
        None \<Rightarrow> None
      | Some key \<Rightarrow>
          if length code \<noteq> digits \<or> \<not> onlyDigits code then None
          else let current = go_div unix period_seconds in
            List.find (match_code T key code) [current - skewOps .. current + skewOps])"

section \<open>The verifier\<close>

record acceptance =
  step :: int
  used :: int

type_synonym verifier = "(string, acceptance) amap"

text \<open>The part under the verifier's lock, for the step that the code matched.\<close>

definition accept_step :: "string \<Rightarrow> int \<Rightarrow> verifier \<Rightarrow> bool \<times> verifier" where
  "accept_step subject s v =
     (let v = keep_if (\<lambda>_ prev. \<not> step prev < s - 1) v in
      case lookup v subject of
        Some prev \<Rightarrow>
          if step prev > s then (False, v)
          else if step prev = s then
            (if used prev \<ge> codeUses then (False, v)
             else (True, store subject \<lparr>step = s, used = used prev + 1\<rparr> v))
          else (True, store subject \<lparr>step = s, used = 1\<rparr> v)
      | None \<Rightarrow> (True, store subject \<lparr>step = s, used = 1\<rparr> v))"

definition verifier_verify ::
    "totp_env \<Rightarrow> int \<Rightarrow> string \<Rightarrow> string \<Rightarrow> string \<Rightarrow> verifier \<Rightarrow> bool \<times> verifier" where
  "verifier_verify T unix subject secret code v =
     (case Verify T secret code unix of
        None \<Rightarrow> (False, v)
      | Some s \<Rightarrow> accept_step subject s v)"

section \<open>Steps and windows\<close>

lemma find_SomeD: "List.find P xs = Some x \<Longrightarrow> x \<in> set xs \<and> P x"
  by (auto simp: find_Some_iff)

lemma Verify_window:
  "Verify T secret code unix = Some s \<Longrightarrow>
     go_div unix period_seconds - 1 \<le> s \<and> s \<le> go_div unix period_seconds + 1"
  by (auto simp: Verify_def Let_def skewOps_def dest!: find_SomeD split: option.splits if_splits)

lemma go_div_mono: "a \<le> b \<Longrightarrow> go_div a 30 \<le> go_div b 30"
proof (cases "0 \<le> a \<or> b < 0")
  case True
  then show "a \<le> b \<Longrightarrow> ?thesis" by (auto simp: go_div_def sgn_if zdiv_mono1)
next
  case False
  then have "0 \<le> - a div 30" "0 \<le> b div 30" by (auto simp: pos_imp_zdiv_nonneg_iff)
  then show ?thesis using False by (simp add: go_div_def sgn_if)
qed

lemma pow10_power: "pow10 n = 10 ^ n"
  by (induction n) simp_all

lemma codeMod_million: "codeMod = 1000000"
  by (simp add: codeMod_def digits_def pow10_power)

lemma hotp_length: "length (hotp T key s) = 6"
proof -
  have "length (nat_digits n) \<le> 6" if "n < 1000000" for n
  proof -
    have short: "n < 10 ^ Suc k \<Longrightarrow> length (nat_digits n) \<le> Suc k" for n k
    proof (induction k arbitrary: n)
      case 0
      then show ?case by (subst nat_digits.simps) simp
    next
      case (Suc k)
      show ?case
      proof (cases "n < 10")
        case True
        then show ?thesis by (subst nat_digits.simps) simp
      next
        case False
        have "n div 10 < 10 ^ Suc k" using Suc.prems by (simp add: div_less_iff_less_mult)
        from Suc.IH[OF this] False show ?thesis by (subst nat_digits.simps) simp
      qed
    qed
    show ?thesis using short[of n 5] that by simp
  qed
  then show ?thesis by (simp add: hotp_def Let_def pad_zero_def digits_def codeMod_million)
qed

section \<open>How often a code is accepted\<close>

text \<open>
  A run of calls, each with its clock, subject, secret and code. \<open>accepted\<close> counts the calls of one
  subject that were accepted for one step.
\<close>

type_synonym totp_call = "int \<times> string \<times> string \<times> string"

fun accepted :: "totp_env \<Rightarrow> string \<Rightarrow> int \<Rightarrow> totp_call list \<Rightarrow> verifier \<Rightarrow> int" where
  "accepted T u s [] v = 0"
| "accepted T u s ((unix, subject, secret, code) # calls) v =
     (if subject = u \<and> Verify T secret code unix = Some s \<and> fst (verifier_verify T unix subject secret code v)
      then 1 else 0) + accepted T u s calls (snd (verifier_verify T unix subject secret code v))"

fun clock_runs :: "int \<Rightarrow> totp_call list \<Rightarrow> bool" where
  "clock_runs t [] \<longleftrightarrow> True"
| "clock_runs t ((unix, _) # calls) \<longleftrightarrow> t \<le> unix \<and> clock_runs unix calls"

text \<open>No call of the run matches a step that lies after its own clock.\<close>

definition none_early :: "totp_env \<Rightarrow> totp_call list \<Rightarrow> bool" where
  "none_early T calls = list_all (\<lambda>(unix, subject, secret, code).
     case Verify T secret code unix of None \<Rightarrow> True | Some s \<Rightarrow> s \<le> go_div unix period_seconds) calls"

definition verifier_ok :: "verifier \<Rightarrow> bool" where
  "verifier_ok v \<longleftrightarrow> keys_ok v \<and> (\<forall>k a. lookup v k = Some a \<longrightarrow> 1 \<le> used a \<and> used a \<le> codeUses)"

text \<open>How many more acceptances of step \<open>s\<close> the state leaves to the subject at clock step \<open>c\<close>.\<close>

definition budget :: "string \<Rightarrow> int \<Rightarrow> int \<Rightarrow> verifier \<Rightarrow> int" where
  "budget u s c v =
     (if s < c - 1 then 0
      else (case lookup v u of
              None \<Rightarrow> codeUses
            | Some a \<Rightarrow> if step a > s then 0 else if step a = s then codeUses - used a else codeUses))"

lemma verifier_ok_accept: "verifier_ok v \<Longrightarrow> verifier_ok (snd (accept_step subject s v))"
  by (force simp: verifier_ok_def accept_step_def Let_def lookup_keep_if codeUses_def split: option.splits if_splits)

lemma budget_step:
  assumes ok: "verifier_ok v" and m: "m \<le> c" "c - 1 \<le> m"
  shows "(if subject = u \<and> m = s \<and> fst (accept_step subject m v) then 1 else 0) +
    budget u s c (snd (accept_step subject m v)) \<le> budget u s c v"
proof (cases "s < c - 1")
  case True
  then show ?thesis using m by (simp add: budget_def)
next
  case False
  have keys: "keys_ok v" using ok by (simp add: verifier_ok_def)
  have keep: "lookup (keep_if (\<lambda>_ prev. \<not> step prev < t) v) k =
      (case lookup v k of None \<Rightarrow> None | Some a \<Rightarrow> if step a < t then None else Some a)" for t k
    using lookup_keep_if[OF keys, of "\<lambda>_ prev. \<not> step prev < t" k] by (auto split: option.splits)
  have u2: "lookup v k = Some a \<Longrightarrow> 1 \<le> used a \<and> used a \<le> 2" for k a
    using ok by (simp add: verifier_ok_def codeUses_def)
  show ?thesis
  proof (cases "lookup v u")
    case None
    then show ?thesis using False m
      by (cases "subject = u") (auto simp: budget_def accept_step_def Let_def keep codeUses_def split: option.splits)
  next
    case (Some a)
    then show ?thesis using False m u2[OF Some]
      by (cases "subject = u") (auto simp: budget_def accept_step_def Let_def keep codeUses_def split: option.splits)
  qed
qed

lemma budget_le: "verifier_ok v \<Longrightarrow> budget u s c v \<le> 2"
  by (force simp: budget_def verifier_ok_def codeUses_def split: option.splits)

lemma budget_mono: "verifier_ok v \<Longrightarrow> c \<le> c' \<Longrightarrow> budget u s c' v \<le> budget u s c v"
  by (auto simp: budget_def verifier_ok_def codeUses_def split: option.splits)

lemma accepted_budget:
  "verifier_ok v \<Longrightarrow> clock_runs t calls \<Longrightarrow> none_early T calls \<Longrightarrow>
     accepted T u s calls v \<le> budget u s (go_div t period_seconds) v"
proof (induction calls arbitrary: v t)
  case Nil
  then show ?case by (auto simp: budget_def verifier_ok_def codeUses_def split: option.splits)
next
  case (Cons call calls)
  obtain unix subject secret code where call: "call = (unix, subject, secret, code)" by (cases call)
  let ?c = "go_div unix period_seconds"
  have mono: "go_div t period_seconds \<le> ?c" using Cons.prems by (simp add: call go_div_mono period_seconds_def)
  show ?case
  proof (cases "Verify T secret code unix")
    case None
    have "accepted T u s calls v \<le> budget u s ?c v"
      using Cons.IH[of v unix] Cons.prems by (simp add: call none_early_def)
    then show ?thesis using None budget_mono[OF Cons.prems(1) mono, of u s]
      by (simp add: call verifier_verify_def)
  next
    case (Some m)
    have m: "m \<le> ?c" "?c - 1 \<le> m"
      using Verify_window[OF Some] Cons.prems(3) Some by (simp_all add: call none_early_def)
    have "accepted T u s calls (snd (accept_step subject m v)) \<le> budget u s ?c (snd (accept_step subject m v))"
      using Cons.IH[OF verifier_ok_accept[OF Cons.prems(1)], of unix] Cons.prems by (simp add: call none_early_def)
    then show ?thesis
      using Some budget_step[OF Cons.prems(1) m, of subject u s] budget_mono[OF Cons.prems(1) mono, of u s]
      by (auto simp: call verifier_verify_def)
  qed
qed

section \<open>A sample environment\<close>

text \<open>Every code is the last six decimal digits of its step, one secret fits all.\<close>

definition sample_totp :: totp_env where
  "sample_totp = \<lparr>hmac_sha1 = (\<lambda>key counter. drop 4 counter @ replicate 15 0 @ [0]),
     upper = (\<lambda>s. s), base32 = (\<lambda>s. Some [])\<rparr>"

lemma sample_bytes [simp]:
  "big_endian64 5 = [0, 0, 0, 0, 0, 0, 0, 5]" "big_endian64 6 = [0, 0, 0, 0, 0, 0, 0, 6]"
  "big_endian64 7 = [0, 0, 0, 0, 0, 0, 0, 7]"
  by code_simp+

lemma sample_digits [simp]: "nat_digits 5 = ''5''" "nat_digits 6 = ''6''" "nat_digits 7 = ''7''"
  by code_simp+

lemma sample_padding [simp]: "replicate 5 CHR ''0'' = ''00000''"
  by code_simp

lemma sample_hotp [simp]:
  "hotp sample_totp [] 5 = ''000005''" "hotp sample_totp [] 6 = ''000006''" "hotp sample_totp [] 7 = ''000007''"
  by (simp_all add: hotp_def sample_totp_def big_endian32_def pad_zero_def digits_def codeMod_million)

lemma sample_current [simp]: "go_div 180 period_seconds = 6"
  by (simp add: go_div_def period_seconds_def)

lemma sample_decode [simp]: "decode sample_totp ''A'' = Some []"
  by code_simp

lemma sample_verify [simp]:
  "Verify sample_totp ''A'' ''000005'' 180 = Some 5" "Verify sample_totp ''A'' ''000007'' 180 = Some 7"
  by (simp_all add: Verify_def onlyDigits_def is_digit_def digits_def skewOps_def match_code_def upto_rec1)

text \<open>
  C27: A one-time code is accepted at most twice for one subject in every run of calls with a clock
  that does not go back, whatever the other subjects submit, provided no call matches a step after
  its own clock: an acceptance of a code of the next step, which the skew admits, is excluded.
\<close>

theorem code_used_at_most_twice:
  assumes "verifier_ok v" "clock_runs t calls" "none_early T calls"
  shows "accepted T u s calls v \<le> 2"
  using accepted_budget[OF assms, of u s] budget_le[OF assms(1)] order_trans by blast

lemma code_used_at_most_twice_witness:
  "accepted sample_totp ''amy'' 5 [(180, ''amy'', ''A'', ''000005''), (180, ''amy'', ''A'', ''000005''),
     (180, ''amy'', ''A'', ''000005'')] [] \<le> 2"
  by (rule code_used_at_most_twice[where t = 0]) (simp_all add: verifier_ok_def none_early_def)

text \<open>
  Where a call matches the step after its clock, the bound fails across subjects: the pruning of
  the map keeps only the steps from the accepted one less one, so a code of the next step submitted
  by one account forgets the acceptances of the previous step of every other, and a code that was
  used up is accepted a third time within the same window.
\<close>

theorem code_used_three_times:
  "accepted sample_totp ''amy'' 5 [(180, ''amy'', ''A'', ''000005''), (180, ''amy'', ''A'', ''000005''),
     (180, ''bob'', ''A'', ''000007''), (180, ''amy'', ''A'', ''000005'')] [] = 3"
  by (simp add: verifier_verify_def accept_step_def keep_if_def codeUses_def)

end
