(* ===== verification/Command.thy ===== *)
theory Command
  imports GoStrings
begin

text \<open>
  \<open>internal/command\<close>: the administrator's command line (\<open>arguments.go\<close>) and the registry of commands
  (\<open>registry.go\<close>, \<open>policy.go\<close>). Parameters, in \<open>line_env\<close>: \<open>strconv.Quote\<close> and \<open>strconv.Unquote\<close>, and
  the length of the JSON value at the start of a line, as the decoder finds it.
\<close>

section \<open>The command line\<close>

record line_env =
  quote :: "string \<Rightarrow> string"
  unquote :: "string \<Rightarrow> string option"
  json_length :: "string \<Rightarrow> nat option"

definition starts_space :: "string \<Rightarrow> bool" where
  "starts_space s \<longleftrightarrow> strip_one space_runes s \<noteq> None"

definition argumentBoundary :: "string \<Rightarrow> bool" where
  "argumentBoundary s \<longleftrightarrow> s = [] \<or> starts_space s"

text \<open>The text up to the closing quote and the rest after it; a backslash hides a character in double quotes.\<close>

fun scan_quote :: "char \<Rightarrow> string \<Rightarrow> (string \<times> string) option" where
  "scan_quote q [] = None"
| "scan_quote q [c] = (if q = CHR 0x22 \<and> c = CHR 0x5C then None else if c = q then Some ([], []) else None)"
| "scan_quote q (c # d # s) =
     (if q = CHR 0x22 \<and> c = CHR 0x5C then map_option (\<lambda>(w, r). (c # d # w, r)) (scan_quote q s)
      else if c = q then Some ([], d # s)
      else map_option (\<lambda>(w, r). (c # w, r)) (scan_quote q (d # s)))"

text \<open>The text up to the first white space, and the rest from there.\<close>

fun take_word :: "string \<Rightarrow> string \<times> string" where
  "take_word [] = ([], [])"
| "take_word (c # s) = (if starts_space (c # s) then ([], c # s) else (case take_word s of (w, r) \<Rightarrow> (c # w, r)))"

datatype split_error = OpenQuote | BadEscape | NoSpaceAfterQuote

lemma scan_quote_shorter: "scan_quote q s = Some (w, r) \<Longrightarrow> length r < length s"
  by (induction q s arbitrary: w r rule: scan_quote.induct) (fastforce split: if_splits)+

lemma take_word_append: "take_word s = (w, r) \<Longrightarrow> s = w @ r"
  by (induction s arbitrary: w r) (auto split: if_splits prod.splits)

lemma strip_all_stuck: "strip_one ps (strip_all ps s) = None"
proof (induction ps s rule: strip_all.induct)
  case (1 ps s)
  then show ?case by (subst strip_all.simps) (auto split: option.splits simp: strip_all.simps)
qed

lemma strip_one_iff: "strip_one ps s = None \<longleftrightarrow> (\<forall>p \<in> set ps. p = [] \<or> \<not> has_prefix s p)"
  by (induction ps) auto

lemma starts_space_iff: "starts_space s \<longleftrightarrow> (\<exists>p \<in> set space_runes. p \<noteq> [] \<and> has_prefix s p)"
  by (auto simp: starts_space_def strip_one_iff)

lemma starts_space_append: "starts_space s \<Longrightarrow> starts_space (s @ t)"
  by (auto simp: starts_space_iff has_prefix_iff)

lemma trim_space_starts: "\<not> starts_space (trim_space s)"
proof
  assume st: "starts_space (trim_space s)"
  obtain b where "rev (trim_left s) = b @ strip_all (map rev space_runes) (rev (trim_left s))"
    using strip_all_suffix by metis
  then have "trim_left s = trim_space s @ rev b"
    unfolding trim_right_def trim_space_def by (metis rev_append rev_rev_ident)
  then have "starts_space (trim_left s)" using st starts_space_append by metis
  then show False using strip_all_stuck[of space_runes s] by (simp add: starts_space_def trim_left_def)
qed

lemma length_trim_space: "length (trim_space s) \<le> length s"
proof -
  obtain a b where "s = a @ trim_space s @ b" using trim_space_infix by blast
  then have "length s = length a + length (trim_space s) + length b" by (metis add.assoc length_append)
  then show ?thesis by simp
qed

lemma take_word_shorter:
  assumes "take_word s = (w, r)" "s \<noteq> []" "\<not> starts_space s"
  shows "length r < length s"
  using assms by (cases s) (auto split: prod.splits dest: take_word_append)

definition is_quote :: "char \<Rightarrow> bool" where
  "is_quote c \<longleftrightarrow> c = CHR 0x22 \<or> c = CHR 0x27"

lemma trimmed_tail: "trim_space s = q # t \<Longrightarrow> length t - n < length s"
  using length_trim_space[of s] by simp

lemma trimmed_quote: "trim_space s = q # t \<Longrightarrow> scan_quote q t = Some (raw, rest) \<Longrightarrow> length rest < length s"
  using length_trim_space[of s] scan_quote_shorter[of q t raw rest] by simp

lemma trimmed_word: "trim_space s = q # t \<Longrightarrow> length (snd (take_word (q # t))) < length s"
  using length_trim_space[of s] trim_space_starts[of s]
    take_word_shorter[of "q # t" "fst (take_word (q # t))" "snd (take_word (q # t))"] by simp

text \<open>The value of \<open>json_length\<close> is one less than the decoder's offset, which is never zero.\<close>

function Split :: "line_env \<Rightarrow> string \<Rightarrow> (split_error, string list) result" where
  "Split E s =
     (case trim_space s of
        [] \<Rightarrow> Inr []
      | q # t \<Rightarrow>
          if is_quote q then
            (case scan_quote q t of
               None \<Rightarrow> Inl OpenQuote
             | Some (raw, rest) \<Rightarrow>
                 (case (if q = CHR 0x22 then unquote E (q # raw @ [q]) else Some raw) of
                    None \<Rightarrow> Inl BadEscape
                  | Some word \<Rightarrow>
                      if \<not> argumentBoundary rest then Inl NoSpaceAfterQuote
                      else bind_res (Split E rest) (\<lambda>ws. Inr (word # ws))))
          else
            (case (if q = CHR ''{'' \<or> q = CHR ''['' then json_length E (q # t) else None) of
               Some n \<Rightarrow>
                 if argumentBoundary (drop (Suc n) (q # t))
                 then bind_res (Split E (drop (Suc n) (q # t))) (\<lambda>ws. Inr (take (Suc n) (q # t) # ws))
                 else bind_res (Split E (snd (take_word (q # t)))) (\<lambda>ws. Inr (fst (take_word (q # t)) # ws))
             | None \<Rightarrow> bind_res (Split E (snd (take_word (q # t)))) (\<lambda>ws. Inr (fst (take_word (q # t)) # ws))))"
  by pat_completeness auto
termination
  by (relation "measure (\<lambda>(E, s). length s)")
    (auto simp: trimmed_tail trimmed_word trimmed_quote simp del: take_word.simps)

declare Split.simps [simp del]

lemma Split_Nil: "Split E [] = Inr []"
proof -
  have "trim_space [] = []" by (rule trim_space_id) simp
  then show ?thesis by (subst Split.simps) simp
qed

definition has_space :: "string \<Rightarrow> bool" where
  "has_space s \<longleftrightarrow> snd (take_word s) \<noteq> []"

definition needs_quote :: "string \<Rightarrow> bool" where
  "needs_quote w \<longleftrightarrow> w = [] \<or> list_ex (\<lambda>c. c \<in> {CHR 0x22, CHR 0x27, CHR 0x5C}) w \<or> has_space w"

definition Format :: "line_env \<Rightarrow> string list \<Rightarrow> string" where
  "Format E args = join_with CHR 0x20 (map (\<lambda>w. if needs_quote w then quote E w else w) args)"

section \<open>Formatting and splitting\<close>

lemma space_rune_no_blank: "p \<in> set space_runes \<Longrightarrow> CHR 0x20 \<in> set p \<Longrightarrow> p = [CHR 0x20]"
  by (auto simp: space_runes_def)

definition ends_space :: "string \<Rightarrow> bool" where
  "ends_space s \<longleftrightarrow> (\<exists>p \<in> set space_runes. has_suffix s p)"

definition clean :: "string \<Rightarrow> bool" where
  "clean s \<longleftrightarrow> s \<noteq> [] \<and> \<not> starts_space s \<and> \<not> ends_space s"

lemma space_runes_ne: "p \<in> set space_runes \<Longrightarrow> p \<noteq> []"
  by (auto simp: space_runes_def)

lemma trim_clean:
  assumes "clean s" shows "trim_space s = s"
proof -
  have left: "trim_left s = s"
    using assms by (subst trim_left_def, subst strip_all.simps) (auto simp: clean_def starts_space_def)
  have "strip_one (map rev space_runes) (rev s) = None"
    using assms by (auto simp: strip_one_iff clean_def ends_space_def has_prefix_iff has_suffix_iff)
      (metis rev_append rev_rev_ident)
  then have "trim_right s = s" unfolding trim_right_def by (subst strip_all.simps) simp
  then show ?thesis by (simp add: trim_space_def left)
qed

lemma trim_blank: "trim_space (CHR 0x20 # s) = trim_space s"
proof -
  have "strip_one space_runes (CHR 0x20 # s) = Some s"
    by (simp add: space_runes_def has_prefix_def)
  then show ?thesis unfolding trim_space_def trim_left_def by (subst strip_all.simps) simp
qed

lemma Split_blank: "Split E (CHR 0x20 # s) = Split E s"
  by (subst (1 2) Split.simps) (simp add: trim_blank)

lemma not_starts_blank:
  assumes "a \<noteq> []" "\<not> starts_space a" shows "\<not> starts_space (a @ CHR 0x20 # b)"
proof
  assume "starts_space (a @ CHR 0x20 # b)"
  then obtain p r where p: "p \<in> set space_runes" "a @ CHR 0x20 # b = p @ r"
    by (auto simp: starts_space_iff has_prefix_iff)
  then obtain u where "a = p @ u \<or> p = a @ u \<and> CHR 0x20 # b = u @ r"
    by (auto simp: append_eq_append_conv2)
  moreover have "a \<noteq> p @ u" using p assms space_runes_ne by (auto simp: starts_space_iff has_prefix_iff)
  ultimately have u: "p = a @ u" "CHR 0x20 # b = u @ r" by simp_all
  have "u \<noteq> []" using u(1) p(1) assms space_runes_ne by (auto simp: starts_space_iff has_prefix_iff)
  then have "CHR 0x20 \<in> set p" using u by (cases u) auto
  then show False using space_rune_no_blank[OF p(1)] u(1) assms(1) \<open>u \<noteq> []\<close> by (cases a) auto
qed

lemma not_ends_blank:
  assumes "b \<noteq> []" "\<not> ends_space b" shows "\<not> ends_space (a @ CHR 0x20 # b)"
proof
  assume "ends_space (a @ CHR 0x20 # b)"
  then obtain p r where p: "p \<in> set space_runes" "r @ p = (a @ [CHR 0x20]) @ b"
    by (auto simp: ends_space_def has_suffix_iff)
  then obtain u where "b = u @ p \<or> p = u @ b \<and> r @ u = a @ [CHR 0x20]"
    by (auto simp only: append_eq_append_conv2)
  moreover have "b \<noteq> u @ p" using p assms by (auto simp: ends_space_def has_suffix_iff)
  ultimately have u: "p = u @ b" "r @ u = a @ [CHR 0x20]" by simp_all
  have ne: "u \<noteq> []" using u(1) p(1) assms by (auto simp: ends_space_def has_suffix_iff)
  then have "CHR 0x20 \<in> set p" using u by (cases u rule: rev_cases) auto
  then show False using space_rune_no_blank[OF p(1)] u(1) assms(1) ne by (cases u) auto
qed

lemma clean_join: "clean a \<Longrightarrow> clean b \<Longrightarrow> clean (a @ CHR 0x20 # b)"
  by (simp add: clean_def not_starts_blank not_ends_blank)

lemma has_space_Cons: "\<not> has_space (c # w) \<Longrightarrow> \<not> starts_space (c # w) \<and> \<not> has_space w"
  by (auto simp: has_space_def split: prod.splits if_splits)

lemma no_space_suffix: "\<not> has_space (a @ b) \<Longrightarrow> b \<noteq> [] \<Longrightarrow> \<not> starts_space b"
proof (induction a)
  case Nil
  then show ?case using has_space_Cons[of "hd b" "tl b"] by simp
next
  case (Cons c a)
  then show ?case using has_space_Cons[of c "a @ b"] by simp
qed

lemma plain_clean:
  assumes "w \<noteq> []" "\<not> has_space w" shows "clean w"
proof -
  have "\<not> ends_space w"
    using no_space_suffix assms(2) space_runes_ne
    by (fastforce simp: ends_space_def has_suffix_iff starts_space_iff has_prefix_iff)
  then show ?thesis using assms no_space_suffix[of "[]" w] by (simp add: clean_def)
qed

lemma take_plain: "\<not> has_space w \<Longrightarrow> take_word w = (w, [])"
  by (induction w) (auto dest: has_space_Cons)

lemma starts_blank: "starts_space (CHR 0x20 # r)"
  by (auto simp: starts_space_iff has_prefix_iff space_runes_def)

lemma take_plain_blank: "\<not> has_space w \<Longrightarrow> take_word (w @ CHR 0x20 # r) = (w, CHR 0x20 # r)"
proof (induction w)
  case Nil
  then show ?case by (simp add: starts_blank)
next
  case (Cons c w)
  then show ?case using not_starts_blank[of "c # w" r] has_space_Cons[OF Cons.prems] by simp
qed

text \<open>What the code relies on of \<open>Quote\<close> and \<open>Unquote\<close>, for one word.\<close>

definition quotable :: "line_env \<Rightarrow> string \<Rightarrow> bool" where
  "quotable E w \<longleftrightarrow>
     (\<exists>body. quote E w = CHR 0x22 # body @ [CHR 0x22] \<and>
        scan_quote CHR 0x22 (body @ [CHR 0x22]) = Some (body, [])) \<and> unquote E (quote E w) = Some w"

definition sayable :: "line_env \<Rightarrow> string \<Rightarrow> bool" where
  "sayable E w \<longleftrightarrow> (if needs_quote w then quotable E w else hd w \<notin> {CHR ''{'', CHR ''[''})"

lemma scan_quote_more: "scan_quote q s = Some (w, r) \<Longrightarrow> scan_quote q (s @ t) = Some (w, r @ t)"
proof (induction q s arbitrary: w r rule: scan_quote.induct)
  case (2 q c)
  then show ?case by (cases t) (auto split: if_splits)
qed (fastforce split: if_splits)+

definition say :: "line_env \<Rightarrow> string \<Rightarrow> string" where
  "say E w = (if needs_quote w then quote E w else w)"

lemma solid_ends: "solid (hd s) \<Longrightarrow> s \<noteq> [] \<Longrightarrow> \<not> starts_space s" "solid (last s) \<Longrightarrow> s \<noteq> [] \<Longrightarrow> \<not> ends_space s"
  using space_runes_solid by (auto simp: starts_space_iff ends_space_def has_prefix_iff has_suffix_iff)

lemma say_clean:
  assumes "sayable E w" shows "clean (say E w)"
proof (cases "needs_quote w")
  case True
  then obtain body where "say E w = CHR 0x22 # body @ [CHR 0x22]"
    using assms by (auto simp: sayable_def quotable_def say_def)
  then show ?thesis by (simp add: clean_def solid_ends solid_def)
next
  case False
  then show ?thesis by (simp add: say_def plain_clean needs_quote_def)
qed

lemma Split_say:
  assumes "sayable E w" "tail = [] \<or> (\<exists>r. tail = CHR 0x20 # r)" "clean (say E w @ tail)"
  shows "Split E (say E w @ tail) = bind_res (Split E tail) (\<lambda>ws. Inr (w # ws))"
proof (cases "needs_quote w")
  case True
  then obtain body where body: "say E w = CHR 0x22 # body @ [CHR 0x22]"
    "scan_quote CHR 0x22 (body @ [CHR 0x22]) = Some (body, [])" "unquote E (CHR 0x22 # body @ [CHR 0x22]) = Some w"
    using assms(1) by (auto simp: sayable_def quotable_def say_def)
  have scan: "scan_quote CHR 0x22 (body @ CHR 0x22 # tail) = Some (body, tail)"
    using scan_quote_more[OF body(2), of tail] by simp
  have "argumentBoundary tail" using assms(2) by (auto simp: argumentBoundary_def starts_blank)
  then show ?thesis using trim_clean[OF assms(3)]
    by (subst Split.simps) (simp add: body scan is_quote_def)
next
  case False
  then have plain: "say E w = w" "w \<noteq> []" "\<not> has_space w" "hd w \<notin> {CHR ''{'', CHR ''[''}" "\<not> is_quote (hd w)"
    using assms(1) by (auto simp: say_def needs_quote_def sayable_def is_quote_def list_ex_iff)
  have take: "take_word (w @ tail) = (w, tail)"
    using assms(2) take_plain[OF plain(3)] take_plain_blank[OF plain(3)] by auto
  obtain c u where w: "w = c # u" using plain(2) by (cases w) auto
  show ?thesis using trim_clean[OF assms(3)] plain take
    by (subst Split.simps) (simp add: w del: take_word.simps)
qed

lemma Format_say: "Format E args = join_with CHR 0x20 (map (say E) args)"
  by (simp add: Format_def say_def[abs_def])

text \<open>
  A formatted command line splits into exactly the arguments it was formatted from, whatever
  characters they contain, given that \<open>strconv\<close> quotes and unquotes the words that need it and that
  no unquoted word opens a JSON value.
\<close>

theorem Split_Format:
  assumes "list_all (sayable E) args"
  shows "Split E (Format E args) = Inr args"
proof -
  have "Split E (Format E args) = Inr args \<and> (args \<noteq> [] \<longrightarrow> clean (Format E args))"
    using assms
  proof (induction args)
    case Nil
    show ?case by (simp add: Format_say Split_Nil)
  next
    case (Cons w args)
    show ?case
    proof (cases "args = []")
      case True
      show ?thesis using Split_Nil Split_say[of E w "[]"] say_clean[of E w] Cons.prems True by (simp add: Format_say)
    next
      case False
      let ?rest = "Format E args"
      have line: "Format E (w # args) = say E w @ CHR 0x20 # ?rest"
        using False by (simp add: Format_say join_Cons)
      have rest: "Split E ?rest = Inr args" "clean ?rest" using Cons False by simp_all
      have clean: "clean (say E w @ CHR 0x20 # ?rest)"
        by (rule clean_join[OF say_clean rest(2)]) (use Cons.prems in simp)
      then show ?thesis using Split_say[of E w "CHR 0x20 # ?rest"] Cons.prems rest
        by (simp add: line Split_blank)
    qed
  qed
  then show ?thesis by simp
qed

definition sample_line :: line_env where
  "sample_line = \<lparr>quote = (\<lambda>w. CHR 0x22 # w @ [CHR 0x22]), unquote = (\<lambda>w. Some (tl (butlast w))), json_length = (\<lambda>_. None)\<rparr>"

lemma Split_Format_witness:
  "Split sample_line (Format sample_line [''ban'', ''big bob'']) = Inr [''ban'', ''big bob'']"
  by (rule Split_Format)
    (simp add: sayable_def quotable_def sample_line_def needs_quote_def has_space_def starts_space_def space_runes_def has_prefix_def)

section \<open>The registry\<close>

record 'w command =
  Name :: string
  Aliases :: "string list"
  Synopsis :: string
  Secret :: bool
  SecretArgs :: bool
  Run :: "string list \<Rightarrow> 'w \<Rightarrow> string option \<times> 'w"

record 'w registry =
  commands :: "(string, 'w command) amap"
  asleep :: "(string, string) amap"

definition NewRegistry :: "'w registry" where
  "NewRegistry = \<lparr>commands = [], asleep = []\<rparr>"

definition Sleeping :: "string \<Rightarrow> string list \<Rightarrow> 'w registry \<Rightarrow> 'w registry" where
  "Sleeping reason names r =
     r\<lparr>asleep := fold (\<lambda>n m. if lookup (commands r) n = None then store n reason m else m) names (asleep r)\<rparr>"

definition Register :: "'w command \<Rightarrow> 'w registry \<Rightarrow> 'w registry" where
  "Register c r = r\<lparr>commands := fold (\<lambda>a m. store a c m) (Name c # Aliases c) (commands r)\<rparr>"

fun first_by_name :: "string list \<Rightarrow> 'w command list \<Rightarrow> 'w command list" where
  "first_by_name seen [] = []"
| "first_by_name seen (c # cs) =
     (if Name c \<in> set seen then first_by_name seen cs else c # first_by_name (Name c # seen) cs)"

definition ListCommands :: "'w registry \<Rightarrow> 'w command list" where
  "ListCommands r = sort_key Name (first_by_name [] (map snd (commands r)))"

definition Lookup :: "'w registry \<Rightarrow> string \<Rightarrow> 'w command option" where
  "Lookup r name = lookup (commands r) name"

text \<open>A policy in the context answers with an error or not; \<open>Completed\<close> only writes the log.\<close>

type_synonym 'w policy = "'w command \<Rightarrow> string option"

definition Authorize :: "'w registry \<Rightarrow> 'w policy option \<Rightarrow> string \<Rightarrow> string option" where
  "Authorize r policy name =
     (case Lookup r name of
        None \<Rightarrow> None
      | Some c \<Rightarrow> (case policy of None \<Rightarrow> None | Some p \<Rightarrow> p c))"

datatype dispatch_error = Asleep string string | Unknown string | Refused string | Failed string | BadLine split_error

definition DispatchArgs ::
    "'w registry \<Rightarrow> 'w policy option \<Rightarrow> string list \<Rightarrow> 'w \<Rightarrow> dispatch_error option \<times> 'w" where
  "DispatchArgs r policy words w =
     (case words of
        [] \<Rightarrow> (None, w)
      | f # args \<Rightarrow>
          (case lookup (commands r) f of
             None \<Rightarrow>
               (case lookup (asleep r) f of
                  Some reason \<Rightarrow> (Some (Asleep f reason), w)
                | None \<Rightarrow> (Some (Unknown f), w))
           | Some c \<Rightarrow>
               (case Authorize r policy (Name c) of
                  Some e \<Rightarrow> (Some (Refused e), w)
                | None \<Rightarrow> (case Run c args w of (e, w) \<Rightarrow> (map_option Failed e, w)))))"

definition Dispatch ::
    "line_env \<Rightarrow> 'w registry \<Rightarrow> 'w policy option \<Rightarrow> string \<Rightarrow> 'w \<Rightarrow> dispatch_error option \<times> 'w" where
  "Dispatch E r policy line w =
     (case Split E line of
        Inl e \<Rightarrow> (Some (BadLine e), w)
      | Inr words \<Rightarrow> DispatchArgs r policy words w)"

end
