(* ===== verification/ControlAuth.thy ===== *)
theory ControlAuth
  imports Command
begin

text \<open>
  \<open>internal/controlauth\<close>: the administrator tokens. The token file with its operations (\<open>tokens.go\<close>),
  the scopes of commands and calls (\<open>policy.go\<close>) and the decision of the HTTP handler (\<open>http.go\<close>).
  Parameters, in \<open>control_env\<close>: SHA-256 and the hexadecimal codec. The file is one value that each
  operation reads and replaces under the store's lock; \<open>Bootstrap\<close> takes no lock and creates the file only
  where there is none.
\<close>

section \<open>Tokens\<close>

record token =
  TokenID :: string
  TokenName :: string
  Scopes :: "string list"
  Expires :: instant
  Hash :: string
  Revoked :: bool

record control_env =
  sha256 :: "string \<Rightarrow> string"
  hex_encode :: "string \<Rightarrow> string"
  hex_decode :: "string \<Rightarrow> string option"

datatype token_file = Missing | Unreadable | Corrupt | Tokens "token list"

datatype token_error = LoadFailed | SaveFailed | NameOrScopes | UnknownScope string | NotFresh | NotFound | ErrUnauthorized

definition load :: "token_file \<Rightarrow> (token_error, token list) result" where
  "load f = (case f of Missing \<Rightarrow> Inr [] | Unreadable \<Rightarrow> Inl LoadFailed | Corrupt \<Rightarrow> Inl LoadFailed | Tokens ts \<Rightarrow> Inr ts)"

text \<open>An atomic write: it replaces the file or fails and leaves it.\<close>

definition save :: "bool \<Rightarrow> token list \<Rightarrow> token_file \<Rightarrow> token_error option \<times> token_file" where
  "save written ts f = (if written then (None, Tokens ts) else (Some SaveFailed, f))"

definition known_scopes :: "string list" where
  "known_scopes = [''admin'', ''read'', ''logs'', ''settings'', ''builds'', ''accounts'', ''access'', ''signing'',
     ''modules'', ''lifecycle'']"

definition validScope :: "string \<Rightarrow> bool" where
  "validScope scope =
     (if has_prefix scope ''command:''
      then length scope > length ''command:'' \<and>
           \<not> list_ex (\<lambda>c. c \<in> {CHR 0x20, CHR 0x09, CHR 0x0D, CHR 0x0A, CHR ''/'', CHR ''*''}) scope
      else scope \<in> set known_scopes)"

text \<open>The id and the secret are drawn at random.\<close>

definition newToken ::
    "control_env \<Rightarrow> instant \<Rightarrow> string \<Rightarrow> string \<Rightarrow> string \<Rightarrow> string list \<Rightarrow> nanos \<Rightarrow> (token_error, token \<times> string) result" where
  "newToken E now ident secret name scopes ttl =
     (if trim_space name = [] \<or> scopes = [] \<or> ttl \<le> 0 then Inl NameOrScopes
      else case List.find (\<lambda>s. \<not> validScope s) scopes of
        Some s \<Rightarrow> Inl (UnknownScope s)
      | None \<Rightarrow>
          let raw = ''laminara_'' @ ident @ ''.'' @ secret in
          Inr (\<lparr>TokenID = ident, TokenName = name, Scopes = scopes, Expires = now + ttl,
                Hash = hex_encode E (sha256 E raw), Revoked = False\<rparr>, raw))"

definition hide :: "token \<Rightarrow> token" where
  "hide t = t\<lparr>Hash := []\<rparr>"

definition Create ::
    "control_env \<Rightarrow> instant \<Rightarrow> string \<Rightarrow> string \<Rightarrow> bool \<Rightarrow> string \<Rightarrow> string list \<Rightarrow> nanos \<Rightarrow> token_file \<Rightarrow>
     (token_error, token \<times> string) result \<times> token_file" where
  "Create E now ident secret written name scopes ttl f =
     (case newToken E now ident secret name scopes ttl of
        Inl e \<Rightarrow> (Inl e, f)
      | Inr (t, raw) \<Rightarrow>
          (case load f of
             Inl e \<Rightarrow> (Inl e, f)
           | Inr ts \<Rightarrow>
               (case save written (ts @ [t]) f of
                  (Some e, f) \<Rightarrow> (Inl e, f)
                | (None, f) \<Rightarrow> (Inr (hide t, raw), f))))"

text \<open>
  \<open>Bootstrap\<close> creates the file exclusively; a failed write removes it again, a failed close leaves it.
\<close>

datatype bootstrap_io = BootWritten | BootFailed | BootUnclosed

definition Bootstrap ::
    "control_env \<Rightarrow> instant \<Rightarrow> string \<Rightarrow> string \<Rightarrow> bootstrap_io \<Rightarrow> string \<Rightarrow> nanos \<Rightarrow> token_file \<Rightarrow>
     (token_error, token \<times> string) result \<times> token_file" where
  "Bootstrap E now ident secret written name ttl f =
     (case newToken E now ident secret name [''admin''] ttl of
        Inl e \<Rightarrow> (Inl e, f)
      | Inr (t, raw) \<Rightarrow>
          if f \<noteq> Missing then (Inl NotFresh, f)
          else (case written of
              BootFailed \<Rightarrow> (Inl SaveFailed, Missing)
            | BootUnclosed \<Rightarrow> (Inl SaveFailed, Tokens [t])
            | BootWritten \<Rightarrow> (Inr (hide t, raw), Tokens [t])))"

definition Authenticate :: "control_env \<Rightarrow> instant \<Rightarrow> string \<Rightarrow> token_file \<Rightarrow> (token_error, token) result" where
  "Authenticate E now raw f =
     (let (ident, _, ok) = cut_at CHR ''.'' (trim_prefix raw ''laminara_'') in
      if \<not> ok \<or> \<not> has_prefix raw ''laminara_'' then Inl ErrUnauthorized
      else case load f of
        Inl e \<Rightarrow> Inl ErrUnauthorized
      | Inr ts \<Rightarrow>
          (case List.find (\<lambda>t. TokenID t = ident) ts of
             None \<Rightarrow> Inl ErrUnauthorized
           | Some t \<Rightarrow>
               if hex_decode E (Hash t) = Some (sha256 E raw) \<and> \<not> Revoked t \<and> now < Expires t
               then Inr (hide t) else Inl ErrUnauthorized))"

definition ListTokens :: "token_file \<Rightarrow> (token_error, token list) result" where
  "ListTokens f = (case load f of Inl e \<Rightarrow> Inl e | Inr ts \<Rightarrow> Inr (map hide ts))"

definition Active :: "instant \<Rightarrow> token \<Rightarrow> token_file \<Rightarrow> bool" where
  "Active now actor f =
     (if TokenID actor = ''local'' then True
      else case ListTokens f of
        Inl e \<Rightarrow> False
      | Inr ts \<Rightarrow>
          (case List.find (\<lambda>t. TokenID t = TokenID actor) ts of
             None \<Rightarrow> False
           | Some t \<Rightarrow> \<not> Revoked t \<and> now < Expires t \<and> Scopes t = Scopes actor))"

fun revoke_first :: "string \<Rightarrow> token list \<Rightarrow> token list option" where
  "revoke_first ident [] = None"
| "revoke_first ident (t # ts) =
     (if TokenID t = ident then Some (t\<lparr>Revoked := True\<rparr> # ts) else map_option ((#) t) (revoke_first ident ts))"

definition Revoke :: "bool \<Rightarrow> string \<Rightarrow> token_file \<Rightarrow> token_error option \<times> token_file" where
  "Revoke written ident f =
     (case load f of
        Inl e \<Rightarrow> (Some e, f)
      | Inr ts \<Rightarrow>
          (case revoke_first ident ts of
             None \<Rightarrow> (Some NotFound, f)
           | Some ts \<Rightarrow> save written ts f))"

section \<open>Scopes\<close>

definition Allows :: "token \<Rightarrow> string \<Rightarrow> bool" where
  "Allows t scope \<longleftrightarrow> ''admin'' \<in> set (Scopes t) \<or> scope \<in> set (Scopes t)"

definition commandScope :: "string \<Rightarrow> string" where
  "commandScope name =
     (if name \<in> {''help'', ''status'', ''version'', ''versions'', ''loaders'', ''builds'', ''build'', ''players''} then ''read''
      else if name \<in> {''install'', ''publish'', ''delete'', ''launcher'', ''build-apply'', ''build-rollback''} then ''builds''
      else if name = ''auth'' then ''accounts''
      else if name \<in> {''access'', ''hwid'', ''machines'', ''ban'', ''bans''} then ''access''
      else if name = ''signing'' then ''signing''
      else if name = ''settings'' then ''settings''
      else if name \<in> {''restart'', ''stop'', ''update'', ''doctor''} then ''lifecycle''
      else if name = ''modules'' then ''modules''
      else ''admin'')"

definition rpcScope :: "string \<Rightarrow> string" where
  "rpcScope rpc =
     (if rpc \<in> {''Status'', ''ListCommands'', ''ListVersions'', ''ListLoaders'', ''ListBuilds'', ''ListPlayers'', ''ListSettings'',
        ''PreviewSettings'', ''PreviewBuildSettings''} then ''read''
      else if rpc = ''StreamLogs'' then ''logs''
      else if rpc \<in> {''ApplySettings'', ''SetSetting'', ''AddSettingEntry'', ''RemoveSettingEntry''} then ''settings''
      else if rpc \<in> {''ApplyBuildSettings'', ''PlanBuild'', ''UploadBuildChunk''} then ''builds''
      else if rpc \<in> {''Restart'', ''Stop''} then ''lifecycle''
      else if rpc \<in> {''Exec'', ''StartJob'', ''GetJob'', ''ListJobs'', ''CancelJob'', ''StreamJob''} then []
      else ''admin'')"

text \<open>The policy that \<open>WithPrincipal\<close> puts into the context of a request.\<close>

definition token_policy :: "token \<Rightarrow> 'w policy" where
  "token_policy t c =
     (if Allows t (''command:'' @ Name c) \<or> Allows t (commandScope (Name c)) then None
      else Some ''the token does not allow this command'')"

text \<open>The answer of the handler before it calls the service: the header is split at its first blank.\<close>

datatype entry = Unauthenticated | Forbidden | Pass token

definition handle ::
    "control_env \<Rightarrow> (string \<Rightarrow> string \<Rightarrow> bool) \<Rightarrow> instant \<Rightarrow> string \<Rightarrow> string \<Rightarrow> token_file \<Rightarrow> entry" where
  "handle E equal_fold now authorization rpc f =
     (let (scheme, raw, ok) = cut_at CHR 0x20 authorization in
      if \<not> ok \<or> \<not> equal_fold scheme ''Bearer'' then Unauthenticated
      else case Authenticate E now raw f of
        Inl e \<Rightarrow> Unauthenticated
      | Inr t \<Rightarrow> if rpcScope rpc \<noteq> [] \<and> \<not> Allows t (rpcScope rpc) then Forbidden else Pass t)"

section \<open>A revoked token stays out\<close>

datatype token_op =
    CreateOp instant string string bool string "string list" nanos
  | BootstrapOp instant string string bootstrap_io string nanos
  | RevokeOp bool string

fun token_step :: "control_env \<Rightarrow> token_op \<Rightarrow> token_file \<Rightarrow> token_file" where
  "token_step E (CreateOp now ident secret written name scopes ttl) f = snd (Create E now ident secret written name scopes ttl f)"
| "token_step E (BootstrapOp now ident secret written name ttl) f = snd (Bootstrap E now ident secret written name ttl f)"
| "token_step E (RevokeOp written ident) f = snd (Revoke written ident f)"

text \<open>The first token of the id, which is the only one that counts, is revoked.\<close>

definition shut :: "string \<Rightarrow> token_file \<Rightarrow> bool" where
  "shut ident f \<longleftrightarrow> (\<exists>ts t. f = Tokens ts \<and> List.find (\<lambda>t. TokenID t = ident) ts = Some t \<and> Revoked t)"

lemma find_append: "List.find P (xs @ ys) = (case List.find P xs of None \<Rightarrow> List.find P ys | Some x \<Rightarrow> Some x)"
  by (induction xs) auto

lemma revoke_first_shut:
  "revoke_first ident ts = Some ts' \<Longrightarrow> \<exists>t. List.find (\<lambda>t. TokenID t = ident) ts' = Some t \<and> Revoked t"
  by (induction ts arbitrary: ts') (auto split: if_splits)

lemma revoke_first_keeps:
  "revoke_first other ts = Some ts' \<Longrightarrow> List.find (\<lambda>t. TokenID t = ident) ts = Some t \<Longrightarrow> Revoked t \<Longrightarrow>
     \<exists>t. List.find (\<lambda>t. TokenID t = ident) ts' = Some t \<and> Revoked t"
  by (induction ts arbitrary: ts') (auto split: if_splits)

lemma shut_revoked: "Revoke written ident f = (None, f') \<Longrightarrow> shut ident f'"
  using revoke_first_shut by (auto simp: Revoke_def save_def shut_def split: sum.splits option.splits if_splits)

lemma shut_step: "shut ident f \<Longrightarrow> shut ident (token_step E op f)"
proof (cases op)
  case (CreateOp now i secret written name scopes ttl)
  then show "shut ident f \<Longrightarrow> ?thesis"
    by (auto simp: Create_def shut_def load_def save_def find_append split: sum.splits option.splits)
next
  case (BootstrapOp now i secret written name ttl)
  then show "shut ident f \<Longrightarrow> ?thesis" by (auto simp: Bootstrap_def shut_def split: sum.splits)
next
  case (RevokeOp written i)
  then show "shut ident f \<Longrightarrow> ?thesis"
    by (auto simp: Revoke_def shut_def load_def save_def split: option.splits dest: revoke_first_keeps)
qed

lemma shut_run: "shut ident f \<Longrightarrow> shut ident (fold (token_step E) ops f)"
  by (induction ops arbitrary: f) (simp_all add: shut_step)

lemma shut_out:
  assumes "shut ident f" "CHR ''.'' \<notin> set ident"
  shows "Authenticate E now (''laminara_'' @ ident @ CHR ''.'' # secret) f = Inl ErrUnauthorized"
proof -
  have "trim_prefix (''laminara_'' @ ident @ CHR ''.'' # secret) ''laminara_'' = ident @ CHR ''.'' # secret"
    by (simp add: trim_prefix_def has_prefix_def)
  then show ?thesis using assms cut_found[OF assms(2), of secret]
    by (auto simp: Authenticate_def shut_def load_def)
qed

text \<open>
  C34: Revocation is final: once \<open>Revoke\<close> has reported success for a token, no raw token with its id
  authenticates and no holder of it counts as active after any sequence of creations, bootstraps and
  revocations, even if a later token drew the same id.
\<close>

theorem revocation_is_final:
  assumes "Revoke True ident f = (None, f')" "CHR ''.'' \<notin> set ident" "ident \<noteq> ''local''"
  shows "Authenticate E now (''laminara_'' @ ident @ CHR ''.'' # secret) (fold (token_step E) ops f') = Inl ErrUnauthorized \<and>
    (TokenID actor = ident \<longrightarrow> \<not> Active now actor (fold (token_step E) ops f'))"
proof -
  have sh: "shut ident (fold (token_step E) ops f')" by (rule shut_run[OF shut_revoked[OF assms(1)]])
  have "\<not> Active now actor (fold (token_step E) ops f')" if "TokenID actor = ident"
  proof -
    have "List.find (\<lambda>t. TokenID t = ident) (map hide ts) = map_option hide (List.find (\<lambda>t. TokenID t = ident) ts)" for ts
      by (induction ts) (auto simp: hide_def)
    then show ?thesis using sh that assms(3)
      by (auto simp: Active_def shut_def ListTokens_def load_def hide_def)
  qed
  then show ?thesis using shut_out[OF sh assms(2)] by blast
qed

definition sample_token :: token where
  "sample_token = \<lparr>TokenID = ''T1'', TokenName = ''ci'', Scopes = [''read''], Expires = 1000, Hash = ''h'', Revoked = False\<rparr>"

definition sample_control :: control_env where
  "sample_control = \<lparr>sha256 = (\<lambda>s. s), hex_encode = (\<lambda>s. s), hex_decode = Some\<rparr>"

lemma revocation_is_final_witness:
  "Authenticate sample_control 5 ''laminara_T1.x'' (Tokens [sample_token\<lparr>Revoked := True\<rparr>]) = Inl ErrUnauthorized"
  using revocation_is_final[of "''T1''" "Tokens [sample_token]" "Tokens [sample_token\<lparr>Revoked := True\<rparr>]" sample_control 5 "''x''" "[]"]
  by (simp add: Revoke_def load_def save_def sample_token_def)

section \<open>A token does only what its scopes allow\<close>

text \<open>The registry after registering some commands, and what its entries are.\<close>

definition registered :: "'w command list \<Rightarrow> 'w registry" where
  "registered cs = fold Register cs NewRegistry"

definition names_clear :: "'w command list \<Rightarrow> bool" where
  "names_clear cs \<longleftrightarrow> list_all (\<lambda>c. list_all (\<lambda>d. Name d \<in> set (Aliases c) \<longrightarrow> Name d = Name c) cs) cs"

lemma fold_store_lookup:
  "lookup (fold (\<lambda>a m. store a c m) as m) k = (if k \<in> set as then Some c else lookup m k)"
  by (induction as arbitrary: m) auto

lemma Register_lookup:
  "lookup (commands (Register c r)) k = (if k = Name c \<or> k \<in> set (Aliases c) then Some c else lookup (commands r) k)"
  by (simp add: Register_def fold_store_lookup del: fold.simps)

lemma registered_entry:
  "lookup (commands (registered cs)) k = Some c \<Longrightarrow> c \<in> set cs \<and> (k = Name c \<or> k \<in> set (Aliases c))"
  by (induction cs arbitrary: k c rule: rev_induct)
    (auto simp: registered_def NewRegistry_def Register_lookup split: if_splits)

lemma registered_name: "c \<in> set cs \<Longrightarrow> lookup (commands (registered cs)) (Name c) \<noteq> None"
  by (induction cs rule: rev_induct) (auto simp: registered_def Register_lookup)

text \<open>
  C35: Dispatching a command line under a token changes nothing unless its first word names a registered
  command, by name or alias, and the scopes of the token allow the command that is registered last under
  the name of that command. This is the command itself when no command has the name of another as an
  alias, which \<open>Register\<close> does not check.
\<close>

theorem dispatch_respects_scopes:
  assumes "Dispatch L (registered cs) (Some (token_policy t)) line w = (e, w')" "w' \<noteq> w"
  shows "\<exists>word args c asked. Split L line = Inr (word # args) \<and> c \<in> set cs \<and> (word = Name c \<or> word \<in> set (Aliases c)) \<and>
    asked \<in> set cs \<and> (Name c = Name asked \<or> Name c \<in> set (Aliases asked)) \<and>
    (Allows t (''command:'' @ Name asked) \<or> Allows t (commandScope (Name asked))) \<and>
    (names_clear cs \<longrightarrow> Name asked = Name c)"
proof -
  obtain word args c where line: "Split L line = Inr (word # args)" and c: "lookup (commands (registered cs)) word = Some c"
    and auth: "Authorize (registered cs) (Some (token_policy t)) (Name c) = None"
    using assms by (auto simp: Dispatch_def DispatchArgs_def split: sum.splits list.splits option.splits prod.splits)
  have entry: "c \<in> set cs" "word = Name c \<or> word \<in> set (Aliases c)" using registered_entry[OF c] by simp_all
  obtain c' where c': "lookup (commands (registered cs)) (Name c) = Some c'" using registered_name[OF entry(1)] by blast
  have entry': "c' \<in> set cs" "Name c = Name c' \<or> Name c \<in> set (Aliases c')" using registered_entry[OF c'] by simp_all
  have "Name c' = Name c" if "names_clear cs"
  proof -
    have "Name c \<in> set (Aliases c') \<longrightarrow> Name c = Name c'"
      using that entry(1) entry'(1) unfolding names_clear_def list_all_iff by blast
    then show ?thesis using entry'(2) by auto
  qed
  moreover have "Allows t (''command:'' @ Name c') \<or> Allows t (commandScope (Name c'))"
    using auth c' by (auto simp: Authorize_def Lookup_def token_policy_def split: if_splits)
  ultimately show ?thesis using line entry entry' by blast
qed

definition sample_command :: "int command" where
  "sample_command = \<lparr>Name = ''status'', Aliases = [''st''], Synopsis = [], Secret = False, SecretArgs = False,
     Run = (\<lambda>args n. (None, n + 1))\<rparr>"

lemma dispatch_respects_scopes_witness:
  "\<exists>word args. Split sample_line ''st'' = Inr (word # args) \<and>
     (Allows sample_token ''command:status'' \<or> Allows sample_token (commandScope ''status''))"
proof -
  have split: "Split sample_line ''st'' = Inr [''st'']"
  proof -
    have plain: "\<not> needs_quote ''st''"
      by (simp add: needs_quote_def has_space_def starts_space_def space_runes_def has_prefix_def)
    then have "clean ''st''" using say_clean[of sample_line "''st''"] by (simp add: sayable_def say_def)
    then show ?thesis using Split_say[of sample_line "''st''" "[]"] plain by (simp add: sayable_def say_def Split_Nil)
  qed
  have "Dispatch sample_line (registered [sample_command]) (Some (token_policy sample_token)) ''st'' 1 = (None, 2)"
    by (simp add: Dispatch_def split DispatchArgs_def registered_def Register_def NewRegistry_def sample_command_def Authorize_def
        Lookup_def token_policy_def Allows_def sample_token_def commandScope_def)
  from dispatch_respects_scopes[OF this]
  show ?thesis by (auto simp: names_clear_def sample_command_def)
qed

text \<open>
  The scope that is asked for is that of another command, when this has the name of the first as an alias:
  a token for the command \<open>note\<close> runs \<open>signing\<close> by its alias, once \<open>note\<close> has taken its name.
\<close>

definition shadowed_commands :: "int command list" where
  "shadowed_commands =
     [sample_command\<lparr>Name := ''signing'', Aliases := [''sign'']\<rparr>,
      sample_command\<lparr>Name := ''note'', Aliases := [''signing''], Run := (\<lambda>args n. (None, n))\<rparr>]"

lemma alias_lends_its_scope:
  "DispatchArgs (registered shadowed_commands) (Some (token_policy (sample_token\<lparr>Scopes := [''command:note'']\<rparr>))) [''sign''] 1 = (None, 2)"
  "\<not> Allows (sample_token\<lparr>Scopes := [''command:note'']\<rparr>) ''command:signing''"
  "\<not> Allows (sample_token\<lparr>Scopes := [''command:note'']\<rparr>) (commandScope ''signing'')"
  by (simp_all add: DispatchArgs_def registered_def Register_def NewRegistry_def shadowed_commands_def sample_command_def Authorize_def
      Lookup_def token_policy_def Allows_def sample_token_def commandScope_def)

end
