(* ===== verification/Jobs.thy ===== *)
theory Jobs
  imports ControlAuth
begin

text \<open>
  \<open>internal/jobs\<close>: administrator commands that run in the background. The event log of a job
  (\<open>events.go\<close>), the manager (\<open>manager.go\<close>) with its limits, its idempotent start, the life of a job
  and the recovery at a restart. Parameters, in \<open>job_env\<close>: the JSON form of an event, SHA-256 and the
  line environment of \<open>Command\<close>. The outcome of each disk operation is an argument; random ids and
  keys are arguments. What changes the manager does so under its lock, so each operation is one atomic step
  (a start looks at the command and its token before it takes the lock); a command runs between them
  and shows itself by its output, its progress and its end, of which the last lines and the result are two steps.
\<close>

section \<open>Events and their log\<close>

datatype exec_event = Output string | Progress string int int string | Result int

record stream_event =
  Sequence :: nat
  Event :: exec_event

datatype job_state = RUNNING | SUCCEEDED | FAILED | CANCELLED | INTERRUPTED

record job_info =
  JobId :: string
  JobCommand :: string
  State :: job_state
  Created :: instant
  Finished :: instant
  ExitCode :: int
  LastSequence :: nat
  OutputTruncated :: bool
  CancelRequested :: bool

record job =
  Info :: job_info
  Owner :: string
  Key :: string
  Digest :: string
  Cancelled :: bool
  WriteError :: bool
  LogBytes :: nat

record job_env =
  encode :: "stream_event \<Rightarrow> string option"
  decode :: "string \<Rightarrow> stream_event option"
  job_digest :: "string \<Rightarrow> string"
  job_line :: line_env

definition maxLogBytes :: nat where "maxLogBytes = 8388608"
definition readLimit :: nat where "readLimit = maxLogBytes + 1048576"

abbreviation NL :: char where "NL \<equiv> CHR 0x0A"

text \<open>A failed write leaves the first bytes of the line; a failed sync or close leaves all of it.\<close>

datatype write_result = Written | OpenFailed | WriteFailed nat | SyncFailed

definition is_result :: "exec_event \<Rightarrow> bool" where
  "is_result e = (case e of Result _ \<Rightarrow> True | _ \<Rightarrow> False)"

text \<open>The result is whether it succeeded, the job and the log file.\<close>

definition appendEvent ::
    "job_env \<Rightarrow> write_result \<Rightarrow> exec_event \<Rightarrow> job \<Rightarrow> string option \<Rightarrow> bool \<times> job \<times> string option" where
  "appendEvent E io ev j log =
     (if LogBytes j \<ge> maxLogBytes \<and> \<not> is_result ev
      then (True, j\<lparr>Info := (Info j)\<lparr>OutputTruncated := True\<rparr>\<rparr>, log)
      else case encode E \<lparr>Sequence = LastSequence (Info j) + 1, Event = ev\<rparr> of
        None \<Rightarrow> (False, j, log)
      | Some data \<Rightarrow>
          let old = (case log of None \<Rightarrow> [] | Some s \<Rightarrow> s) in
          (case io of
             OpenFailed \<Rightarrow> (False, j, log)
           | WriteFailed n \<Rightarrow> (False, j, Some (old @ take n (data @ [NL])))
           | SyncFailed \<Rightarrow> (False, j, Some (old @ data @ [NL]))
           | Written \<Rightarrow>
               (True, j\<lparr>Info := (Info j)\<lparr>LastSequence := LastSequence (Info j) + 1\<rparr>,
                        LogBytes := LogBytes j + length data + 1\<rparr>, Some (old @ data @ [NL]))))"

text \<open>Reading: complete lines only, numbered from one; a damaged line is an error.\<close>

fun read_lines :: "job_env \<Rightarrow> nat \<Rightarrow> nat \<Rightarrow> string list \<Rightarrow> stream_event list option" where
  "read_lines E sequence after [] = Some []"
| "read_lines E sequence after (line # lines) =
     (case decode E (trim_space line) of
        None \<Rightarrow> None
      | Some ev \<Rightarrow>
          if Sequence ev \<noteq> sequence + 1 then None
          else map_option (\<lambda>evs. if Sequence ev > after then ev # evs else evs) (read_lines E (Sequence ev) after lines))"

definition readEvents :: "job_env \<Rightarrow> string option \<Rightarrow> nat \<Rightarrow> stream_event list option" where
  "readEvents E log after =
     (case log of
        None \<Rightarrow> Some []
      | Some s \<Rightarrow> if length s > readLimit then None else read_lines E 0 after (butlast (split_on NL s)))"

section \<open>The writer\<close>

definition rune_start :: "char \<Rightarrow> bool" where
  "rune_start c \<longleftrightarrow> (of_char c :: nat) div 64 \<noteq> 2"

fun back_to_start :: "string \<Rightarrow> nat \<Rightarrow> nat" where
  "back_to_start data 0 = 0"
| "back_to_start data (Suc n) = (if rune_start (data ! Suc n) then Suc n else back_to_start data n)"

definition chunkBytes :: nat where "chunkBytes = 16384"

definition chunk_end :: "string \<Rightarrow> nat" where
  "chunk_end data =
     (let e = min (length data) chunkBytes;
          e' = (if e < length data then back_to_start data e else e)
      in if e' = 0 then min (length data) chunkBytes else e')"

lemma back_to_start_le: "back_to_start data n \<le> n"
  by (induction n) auto

lemma chunk_end_pos: "data \<noteq> [] \<Longrightarrow> 0 < chunk_end data"
  by (auto simp: chunk_end_def chunkBytes_def Let_def)

lemma chunk_end_le: "chunk_end data \<le> length data \<and> chunk_end data \<le> chunkBytes"
  using back_to_start_le[of data "min (length data) chunkBytes"] by (auto simp: chunk_end_def Let_def)

function chunks :: "string \<Rightarrow> string list" where
  "chunks data = (if data = [] then [] else take (chunk_end data) data # chunks (drop (chunk_end data) data))"
  by pat_completeness auto
termination
  by (relation "measure length") (auto simp: chunk_end_pos)

declare chunks.simps [simp del]

text \<open>\<open>outputWriter.Write\<close>: the chunks in order until an append fails; the outcomes of the disk in order.\<close>

fun write_chunks :: "job_env \<Rightarrow> write_result list \<Rightarrow> string list \<Rightarrow> job \<Rightarrow> string option \<Rightarrow> bool \<times> job \<times> string option" where
  "write_chunks E ios [] j log = (True, j, log)"
| "write_chunks E ios (c # cs) j log =
     (let (io, ios) = (case ios of [] \<Rightarrow> (Written, []) | io # ios \<Rightarrow> (io, ios)) in
      case appendEvent E io (Output c) j log of
        (True, j, log) \<Rightarrow> write_chunks E ios cs j log
      | (False, j, log) \<Rightarrow> (False, j\<lparr>WriteError := True\<rparr>, log))"

definition Write :: "job_env \<Rightarrow> write_result list \<Rightarrow> string \<Rightarrow> job \<Rightarrow> string option \<Rightarrow> bool \<times> job \<times> string option" where
  "Write E ios data j log = write_chunks E ios (chunks data) j log"

definition progressInterval :: nanos where "progressInterval = 250000000"

text \<open>\<open>Report\<close>: progress closer than a quarter of a second is dropped unless it is complete.\<close>

definition Report ::
    "job_env \<Rightarrow> write_result \<Rightarrow> instant \<Rightarrow> string \<times> int \<times> int \<times> string \<Rightarrow> instant \<Rightarrow> job \<Rightarrow> string option \<Rightarrow>
     instant \<times> job \<times> string option" where
  "Report E io now p lastProgress j log =
     (case p of (phase, current, tot, message) \<Rightarrow>
       if now - lastProgress < progressInterval \<and> current \<noteq> tot then (lastProgress, j, log)
       else (case appendEvent E io (Progress phase current tot message) j log of
               (ok, j, log) \<Rightarrow> (now, if ok then j else j\<lparr>WriteError := True\<rparr>, log)))"

section \<open>What the log keeps\<close>

text \<open>The log of some events, and the codec's documented behaviour.\<close>

definition rendered :: "job_env \<Rightarrow> stream_event list \<Rightarrow> string" where
  "rendered E evs = concat (map (\<lambda>e. the (encode E e) @ [NL]) evs)"

definition codec_ok :: "job_env \<Rightarrow> bool" where
  "codec_ok E \<longleftrightarrow> (\<forall>e data. encode E e = Some data \<longrightarrow>
     NL \<notin> set data \<and> trim_space data = data \<and> decode E data = Some e)"

definition numbered :: "job_env \<Rightarrow> stream_event list \<Rightarrow> bool" where
  "numbered E evs \<longleftrightarrow> map Sequence evs = [1 ..< Suc (length evs)] \<and> list_all (\<lambda>e. encode E e \<noteq> None) evs"

definition log_ok :: "job_env \<Rightarrow> stream_event list \<Rightarrow> job \<Rightarrow> string option \<Rightarrow> bool" where
  "log_ok E evs j log \<longleftrightarrow> numbered E evs \<and> LastSequence (Info j) = length evs \<and>
     (case log of None \<Rightarrow> evs = [] | Some s \<Rightarrow> s = rendered E evs)"

lemma split_rendered:
  assumes "codec_ok E" "list_all (\<lambda>e. encode E e \<noteq> None) evs" "NL \<notin> set tail"
  shows "split_on NL (rendered E evs @ tail) = map (\<lambda>e. the (encode E e)) evs @ [tail]"
  using assms(2)
proof (induction evs)
  case Nil
  then show ?case using assms(3) by (simp add: rendered_def split_on_id)
next
  case (Cons e evs)
  have "NL \<notin> set (the (encode E e))" using assms(1) Cons.prems by (auto simp: codec_ok_def)
  then show ?case using Cons by (simp add: rendered_def split_on_append)
qed

lemma read_numbered:
  assumes "codec_ok E" "map Sequence evs = [Suc n ..< Suc n + length evs]" "list_all (\<lambda>e. encode E e \<noteq> None) evs"
  shows "read_lines E n after (map (\<lambda>e. the (encode E e)) evs) = Some (filter (\<lambda>e. Sequence e > after) evs)"
  using assms(2,3)
proof (induction evs arbitrary: n)
  case Nil
  then show ?case by simp
next
  case (Cons e evs)
  have len: "[Suc n ..< Suc n + length (e # evs)] = Suc n # [Suc (Suc n) ..< Suc (Suc n) + length evs]"
    by (subst upt_conv_Cons) simp_all
  have seq: "Sequence e = Suc n" "map Sequence evs = [Suc (Suc n) ..< Suc (Suc n) + length evs]"
    using Cons.prems(1) unfolding len by simp_all
  obtain d where d: "encode E e = Some d" "trim_space d = d" "decode E d = Some e"
    using assms(1) Cons.prems(2) by (auto simp: codec_ok_def)
  show ?case using Cons.IH[OF seq(2)] Cons.prems(2) by (simp add: d seq(1))
qed

lemma read_torn:
  assumes "codec_ok E" "numbered E evs" "NL \<notin> set tail" "length (rendered E evs @ tail) \<le> readLimit"
  shows "readEvents E (Some (rendered E evs @ tail)) after = Some (filter (\<lambda>e. Sequence e > after) evs)"
proof -
  have enc: "list_all (\<lambda>e. encode E e \<noteq> None) evs" using assms(2) unfolding numbered_def by (rule conjunct2)
  have "map Sequence evs = [Suc 0 ..< Suc 0 + length evs]"
    using assms(2) unfolding numbered_def One_nat_def add_Suc add_0 by (rule conjunct1)
  from read_numbered[OF assms(1) this enc] split_rendered[OF assms(1) enc assms(3)]
  show ?thesis using assms(4) by (simp add: readEvents_def)
qed

text \<open>
  The events that a job keeps of those it is given: the ones that are encoded and written, numbered from
  the last; beyond the limit of the size only a result. \<open>used\<close> and \<open>n\<close> are the bytes and the last number so far.
\<close>

fun kept_events :: "job_env \<Rightarrow> nat \<Rightarrow> nat \<Rightarrow> (write_result \<times> exec_event) list \<Rightarrow> stream_event list" where
  "kept_events E used n [] = []"
| "kept_events E used n ((io, ev) # ops) =
     (case encode E \<lparr>Sequence = n + 1, Event = ev\<rparr> of
        None \<Rightarrow> kept_events E used n ops
      | Some data \<Rightarrow>
          if io = Written \<and> (used < maxLogBytes \<or> is_result ev)
          then \<lparr>Sequence = n + 1, Event = ev\<rparr> # kept_events E (used + length data + 1) (n + 1) ops
          else kept_events E used n ops)"

text \<open>A write that succeeds, or fails before its first byte is on the disk.\<close>

definition whole_write :: "write_result \<Rightarrow> bool" where
  "whole_write io \<longleftrightarrow> io \<in> {Written, OpenFailed, WriteFailed 0}"

fun append_all :: "job_env \<Rightarrow> (write_result \<times> exec_event) list \<Rightarrow> job \<times> string option \<Rightarrow> job \<times> string option" where
  "append_all E [] st = st"
| "append_all E ((io, ev) # ops) (j, log) = append_all E ops (snd (appendEvent E io ev j log))"

lemma append_log_ok:
  assumes ok: "log_ok E evs j log" and io: "whole_write io" and app: "appendEvent E io ev j log = (done, j', log')"
  shows "log_ok E (evs @ kept_events E (LogBytes j) (LastSequence (Info j)) [(io, ev)]) j' log' \<and>
    kept_events E (LogBytes j) (LastSequence (Info j)) ((io, ev) # ops) =
      kept_events E (LogBytes j) (LastSequence (Info j)) [(io, ev)] @ kept_events E (LogBytes j') (LastSequence (Info j')) ops"
proof -
  let ?e = "\<lparr>Sequence = LastSequence (Info j) + 1, Event = ev\<rparr>"
  consider (out) "LogBytes j \<ge> maxLogBytes \<and> \<not> is_result ev"
    | (plain) "\<not> (LogBytes j \<ge> maxLogBytes \<and> \<not> is_result ev)" "encode E ?e = None"
    | (failed) data where "\<not> (LogBytes j \<ge> maxLogBytes \<and> \<not> is_result ev)" "encode E ?e = Some data" "io \<noteq> Written"
    | (written) data where "\<not> (LogBytes j \<ge> maxLogBytes \<and> \<not> is_result ev)" "encode E ?e = Some data" "io = Written"
    by (cases "encode E ?e") auto
  then show ?thesis
  proof cases
    case out
    then show ?thesis using ok app by (auto simp: appendEvent_def log_ok_def split: option.splits)
  next
    case plain
    then show ?thesis using ok app by (auto simp: appendEvent_def)
  next
    case (failed data)
    then have "io = OpenFailed \<or> io = WriteFailed 0" using io by (auto simp: whole_write_def)
    then show ?thesis using failed ok app by (auto simp: appendEvent_def log_ok_def Let_def rendered_def split: option.splits)
  next
    case (written data)
    have "numbered E (evs @ [?e])" using ok written by (auto simp: log_ok_def numbered_def)
    then show ?thesis using written ok app by (auto simp: appendEvent_def log_ok_def Let_def rendered_def split: option.splits)
  qed
qed

lemma append_all_ok:
  "log_ok E evs j log \<Longrightarrow> list_all (\<lambda>op. whole_write (fst op)) ops \<Longrightarrow> append_all E ops (j, log) = (j', log') \<Longrightarrow>
     log_ok E (evs @ kept_events E (LogBytes j) (LastSequence (Info j)) ops) j' log'"
proof (induction ops arbitrary: evs j log)
  case (Cons op ops)
  obtain io ev where op: "op = (io, ev)" by (cases op)
  obtain d j1 log1 where app: "appendEvent E io ev j log = (d, j1, log1)" by (cases "appendEvent E io ev j log")
  have w: "whole_write io" using Cons.prems(2) op by simp
  note step = append_log_ok[OF Cons.prems(1) w app, of ops]
  have "log_ok E ((evs @ kept_events E (LogBytes j) (LastSequence (Info j)) [(io, ev)]) @ kept_events E (LogBytes j1) (LastSequence (Info j1)) ops) j' log'"
    by (rule Cons.IH) (use Cons.prems step op app in simp_all)
  then show ?case unfolding op using step by simp
qed simp

lemma upt_after: "filter (\<lambda>n. n > a) [1 ..< Suc m] = [Suc a ..< Suc m]"
  by (induction m) auto

lemma filter_after:
  assumes "map Sequence evs = [1 ..< Suc (length evs)]"
  shows "map Sequence (filter (\<lambda>e. Sequence e > after) evs) = [Suc after ..< Suc (length evs)]"
proof -
  have "map Sequence (filter (\<lambda>e. Sequence e > after) evs) = filter (\<lambda>n. n > after) (map Sequence evs)"
    by (simp add: filter_map comp_def)
  then show ?thesis unfolding assms upt_after .
qed

section \<open>The manager\<close>

definition maxConcurrent :: nat where "maxConcurrent = 4"
definition maxJobs :: nat where "maxJobs = 10000"

text \<open>The fields of a record on disk, as the JSON form of a record has them.\<close>

record saved_job =
  SavedInfo :: job_info
  SavedOwner :: string
  SavedKey :: string
  SavedDigest :: string

record manager =
  jobs :: "(string, job) amap"
  running :: nat
  closing :: bool
  stopped :: bool
  logs :: "string \<Rightarrow> string option"
  files :: "string \<Rightarrow> saved_job option"

datatype start_error = BadRequest | UnknownCommand | SecretCommand | PermissionDenied string | Unauthenticated
  | Unavailable | ServerStopped | AlreadyExists | FourRunning | HistoryFull | SaveFailed

definition saved_of :: "job \<Rightarrow> saved_job" where
  "saved_of j = \<lparr>SavedInfo = Info j, SavedOwner = Owner j, SavedKey = Key j, SavedDigest = Digest j\<rparr>"

text \<open>\<open>save\<close> writes the record atomically, or fails and leaves the file.\<close>

definition save_job :: "bool \<Rightarrow> job \<Rightarrow> manager \<Rightarrow> bool \<times> manager" where
  "save_job written j m = (written, if written then m\<lparr>files := (files m)(JobId (Info j) \<mapsto> saved_of j)\<rparr> else m)"

record start_request =
  Arguments :: "string list"
  IdempotencyKey :: string

text \<open>What \<open>Start\<close> draws and sees: the clock, a fresh id and key, the disk, and whether the actor is active.\<close>

record start_env =
  fresh_id :: string
  fresh_key :: string
  now :: instant
  save_works :: bool
  actor_active :: bool

text \<open>The checks before the lock; the result is the command's name and the digest of the line.\<close>

definition start_checks ::
    "job_env \<Rightarrow> 'w registry \<Rightarrow> token \<Rightarrow> start_env \<Rightarrow> start_request \<Rightarrow> (start_error, string \<times> string) result" where
  "start_checks E r actor S req =
     (if Arguments req = [] \<or> length (Format (job_line E) (Arguments req)) > 65536 \<or> length (IdempotencyKey req) > 256
      then Inl BadRequest
      else case Lookup r (hd (Arguments req)) of
        None \<Rightarrow> Inl UnknownCommand
      | Some c \<Rightarrow>
          if Secret c then Inl SecretCommand
          else (case Authorize r (Some (token_policy actor)) (Name c) of
            Some e \<Rightarrow> Inl (PermissionDenied e)
          | None \<Rightarrow>
              if \<not> actor_active S then Inl Unauthenticated
              else Inr (Name c, job_digest E (Format (job_line E) (Name c # tl (Arguments req))))))"

definition new_job :: "start_env \<Rightarrow> token \<Rightarrow> string \<Rightarrow> string \<Rightarrow> string \<Rightarrow> job" where
  "new_job S actor name k digest =
     \<lparr>Info = \<lparr>JobId = fresh_id S, JobCommand = name, State = RUNNING, Created = now S, Finished = 0, ExitCode = 0,
        LastSequence = 0, OutputTruncated = False, CancelRequested = False\<rparr>,
      Owner = TokenID actor, Key = k, Digest = digest, Cancelled = False, WriteError = False, LogBytes = 0\<rparr>"

definition find_key :: "token \<Rightarrow> string \<Rightarrow> manager \<Rightarrow> job option" where
  "find_key actor k m = List.find (\<lambda>j. Owner j = TokenID actor \<and> Key j = k) (map snd (jobs m))"

definition Start ::
    "job_env \<Rightarrow> 'w registry \<Rightarrow> token \<Rightarrow> start_env \<Rightarrow> start_request \<Rightarrow> manager \<Rightarrow> (start_error, job_info) result \<times> manager" where
  "Start E r actor S req m =
     (case start_checks E r actor S req of
        Inl e \<Rightarrow> (Inl e, m)
      | Inr (name, digest) \<Rightarrow>
          let k = (if IdempotencyKey req = [] then fresh_key S else IdempotencyKey req) in
          if closing m then (Inl Unavailable, m)
          else if stopped m then (Inl ServerStopped, m)
          else (case find_key actor k m of
            Some j \<Rightarrow> if Digest j \<noteq> digest then (Inl AlreadyExists, m) else (Inr (Info j), m)
          | None \<Rightarrow>
              if running m \<ge> maxConcurrent then (Inl FourRunning, m)
              else if length (jobs m) \<ge> maxJobs then (Inl HistoryFull, m)
              else
                let j = new_job S actor name k digest in
                (case save_job (save_works S) j m of
                   (False, m) \<Rightarrow> (Inl SaveFailed, m)
                 | (True, m) \<Rightarrow>
                     (Inr (Info j), m\<lparr>jobs := store (JobId (Info j)) j (jobs m), running := running m + 1\<rparr>))))"

text \<open>The end of \<open>run\<close>: the command's error, the disk's outcomes and the clock.\<close>

definition final_state :: "bool \<Rightarrow> job \<Rightarrow> job_info" where
  "final_state failed j =
     (let i = Info j;
          i = i\<lparr>State := SUCCEEDED\<rparr>;
          i = (if failed \<or> WriteError j then i\<lparr>State := FAILED, ExitCode := 1\<rparr> else i)
      in if Cancelled j then i\<lparr>State := CANCELLED, ExitCode := 1\<rparr> else i)"

definition fail_job :: "job \<Rightarrow> job" where
  "fail_job j = j\<lparr>WriteError := True, Info := (Info j)\<lparr>State := FAILED, ExitCode := 1\<rparr>\<rparr>"

definition finish_job ::
    "job_env \<Rightarrow> bool \<Rightarrow> write_result \<Rightarrow> instant \<Rightarrow> job \<Rightarrow> string option \<Rightarrow> job \<times> string option" where
  "finish_job E failed io t j log =
     (let j = j\<lparr>Info := (final_state failed j)\<lparr>Finished := t\<rparr>\<rparr> in
      case appendEvent E io (Result (ExitCode (Info j))) j log of
        (ok, j, log) \<Rightarrow> (if ok then j else fail_job j, log))"

text \<open>The locked part at the end of \<open>run\<close>; whether the command failed is \<open>failed\<close>.\<close>

definition Finish ::
    "job_env \<Rightarrow> string \<Rightarrow> bool \<Rightarrow> write_result \<Rightarrow> bool \<Rightarrow> instant \<Rightarrow> manager \<Rightarrow> manager" where
  "Finish E ident failed io saves t m =
     (case lookup (jobs m) ident of
        None \<Rightarrow> m
      | Some j \<Rightarrow>
          if State (Info j) \<noteq> RUNNING then m
          else case finish_job E failed io t j (logs m ident) of
            (j, log) \<Rightarrow>
              (let m = m\<lparr>logs := (logs m)(ident := log)\<rparr> in
               case save_job saves j m of
                 (ok, m) \<Rightarrow>
                   m\<lparr>jobs := store ident (if ok then j else fail_job j) (jobs m), running := running m - 1\<rparr>))"

definition owned :: "token \<Rightarrow> string \<Rightarrow> manager \<Rightarrow> job option" where
  "owned actor ident m =
     (case lookup (jobs m) ident of
        None \<Rightarrow> None
      | Some j \<Rightarrow> if Owner j \<noteq> TokenID actor \<and> \<not> Allows actor ''admin'' then None else Some j)"

datatype read_error = JobNotFound | ResultNotSaved | CursorBeyondEnd | LogDamaged

definition Get :: "token \<Rightarrow> string \<Rightarrow> manager \<Rightarrow> (read_error, job_info) result" where
  "Get actor ident m =
     (case owned actor ident m of
        None \<Rightarrow> Inl JobNotFound
      | Some j \<Rightarrow> if WriteError j then Inl ResultNotSaved else Inr (Info j))"

definition ListJobs :: "token \<Rightarrow> manager \<Rightarrow> job_info list" where
  "ListJobs actor m =
     sort_key (\<lambda>i. - Created i) (map Info (filter (\<lambda>j. \<not> (Owner j \<noteq> TokenID actor \<and> \<not> Allows actor ''admin'')) (map snd (jobs m))))"

definition Cancel :: "token \<Rightarrow> string \<Rightarrow> bool \<Rightarrow> manager \<Rightarrow> job_info option \<times> manager" where
  "Cancel actor ident saves m =
     (case owned actor ident m of
        None \<Rightarrow> (None, m)
      | Some j \<Rightarrow>
          if State (Info j) \<noteq> RUNNING then (Some (Info j), m)
          else
            let j' = j\<lparr>Info := (Info j)\<lparr>CancelRequested := True\<rparr>\<rparr>;
                (ok, m) = save_job saves j' m
            in if \<not> ok then (None, m\<lparr>jobs := store ident j' (jobs m)\<rparr>)
               else (Some (Info j'), m\<lparr>jobs := store ident (j'\<lparr>Cancelled := True\<rparr>) (jobs m)\<rparr>))"

definition Close :: "manager \<Rightarrow> manager" where
  "Close m = m\<lparr>closing := True, jobs := map_vals (\<lambda>_ j. j\<lparr>Cancelled := True\<rparr>) (jobs m)\<rparr>"

text \<open>Output of the running command.\<close>

definition write_output :: "job_env \<Rightarrow> string \<Rightarrow> write_result list \<Rightarrow> string \<Rightarrow> manager \<Rightarrow> manager" where
  "write_output E ident ios data m =
     (case lookup (jobs m) ident of
        None \<Rightarrow> m
      | Some j \<Rightarrow>
          if State (Info j) \<noteq> RUNNING then m
          else case Write E ios data j (logs m ident) of
            (_, j, log) \<Rightarrow> m\<lparr>jobs := store ident j (jobs m), logs := (logs m)(ident := log)\<rparr>)"

definition write_progress ::
    "job_env \<Rightarrow> string \<Rightarrow> write_result \<Rightarrow> instant \<Rightarrow> string \<times> int \<times> int \<times> string \<Rightarrow> instant \<Rightarrow> manager \<Rightarrow> manager" where
  "write_progress E ident io t p lastProgress m =
     (case lookup (jobs m) ident of
        None \<Rightarrow> m
      | Some j \<Rightarrow>
          if State (Info j) \<noteq> RUNNING then m
          else case Report E io t p lastProgress j (logs m ident) of
            (_, j, log) \<Rightarrow> m\<lparr>jobs := store ident j (jobs m), logs := (logs m)(ident := log)\<rparr>)"

text \<open>
  What follows the command in \<open>run\<close>: a command that failed first writes its error as output, with the lock
  taken and given back, so others may come before the end.
\<close>

definition run_end ::
    "job_env \<Rightarrow> string \<Rightarrow> string option \<Rightarrow> write_result list \<Rightarrow> write_result \<Rightarrow> bool \<Rightarrow> instant \<Rightarrow> manager \<Rightarrow> manager" where
  "run_end E ident err ios io saves t m =
     Finish E ident (err \<noteq> None) io saves t (case err of None \<Rightarrow> m | Some e \<Rightarrow> write_output E ident ios (e @ [NL]) m)"

text \<open>One round of \<open>Stream\<close>: the events to send and whether the job has ended.\<close>

definition stream_round :: "job_env \<Rightarrow> token \<Rightarrow> string \<Rightarrow> nat \<Rightarrow> manager \<Rightarrow> (read_error, stream_event list \<times> bool) result" where
  "stream_round E actor ident after m =
     (case owned actor ident m of
        None \<Rightarrow> Inl JobNotFound
      | Some j \<Rightarrow>
          if after > LastSequence (Info j) then Inl CursorBeyondEnd
          else if WriteError j then Inl ResultNotSaved
          else (case readEvents E (logs m ident) after of
            None \<Rightarrow> Inl LogDamaged
          | Some evs \<Rightarrow> Inr (evs, State (Info j) \<noteq> RUNNING)))"

text \<open>\<open>Stream\<close> over the states it sees between its waits, with what it has sent.\<close>

fun Stream :: "job_env \<Rightarrow> token \<Rightarrow> string \<Rightarrow> nat \<Rightarrow> manager list \<Rightarrow> stream_event list" where
  "Stream E actor ident after [] = []"
| "Stream E actor ident after (m # ms) =
     (case stream_round E actor ident after m of
        Inl e \<Rightarrow> []
      | Inr (evs, finished) \<Rightarrow>
          evs @ (if finished then [] else
                   Stream E actor ident (case evs of [] \<Rightarrow> after | _ \<Rightarrow> Sequence (last evs)) ms))"

section \<open>Restart\<close>

definition safeID :: "string \<Rightarrow> bool" where
  "safeID s \<longleftrightarrow> 26 \<le> length s \<and> length s \<le> 128 \<and>
     list_all (\<lambda>c. (CHR ''A'' \<le> c \<and> c \<le> CHR ''Z'') \<or> (CHR ''2'' \<le> c \<and> c \<le> CHR ''7'')) s"

definition replay :: "stream_event \<Rightarrow> job_info \<Rightarrow> job_info" where
  "replay ev i =
     (let i = i\<lparr>LastSequence := max (LastSequence i) (Sequence ev)\<rparr> in
      case Event ev of
        Result code \<Rightarrow> i\<lparr>ExitCode := code, State := (if code = 0 then SUCCEEDED else FAILED)\<rparr>
      | _ \<Rightarrow> i)"

text \<open>One record file at the start: its name, its content and the log; \<open>None\<close> stops the server's start.\<close>

definition recover ::
    "job_env \<Rightarrow> instant \<Rightarrow> string \<Rightarrow> saved_job option \<Rightarrow> string option \<Rightarrow> job option" where
  "recover E t name content log =
     (case content of
        None \<Rightarrow> None
      | Some s \<Rightarrow>
          if \<not> safeID (JobId (SavedInfo s)) \<or> name \<noteq> JobId (SavedInfo s) @ ''.json'' then None
          else
            let j = \<lparr>Info = SavedInfo s, Owner = SavedOwner s, Key = SavedKey s, Digest = SavedDigest s, Cancelled = False,
                     WriteError = False, LogBytes = (case log of None \<Rightarrow> 0 | Some l \<Rightarrow> length l)\<rparr>
            in if State (SavedInfo s) \<noteq> RUNNING then Some j
               else (case readEvents E log 0 of
                 None \<Rightarrow> None
               | Some evs \<Rightarrow>
                   Some (j\<lparr>Info := (fold replay evs ((SavedInfo s)\<lparr>State := INTERRUPTED, ExitCode := 1\<rparr>))\<lparr>Finished := t\<rparr>\<rparr>)))"

fun New :: "job_env \<Rightarrow> bool \<Rightarrow> instant \<Rightarrow> (string \<times> saved_job option \<times> string option) list \<Rightarrow> manager \<Rightarrow> manager option" where
  "New E saves t [] m = Some m"
| "New E saves t ((name, content, log) # rest) m =
     (if \<not> has_suffix name ''.json'' then New E saves t rest m
      else case recover E t name content log of
        None \<Rightarrow> None
      | Some j \<Rightarrow>
          if map_option (\<lambda>s. State (SavedInfo s)) content = Some RUNNING \<and> \<not> saves then None
          else New E saves t rest (m\<lparr>jobs := store (JobId (Info j)) j (jobs m), logs := (logs m)(JobId (Info j) := log),
                                     files := (files m)(JobId (Info j) \<mapsto> saved_of j)\<rparr>))"

section \<open>The log is read back as it was written\<close>

lemma log_read:
  assumes "codec_ok E" "log_ok E evs j log" "case log of None \<Rightarrow> True | Some s \<Rightarrow> length s \<le> readLimit"
  shows "readEvents E log after = Some (filter (\<lambda>e. Sequence e > after) evs) \<and>
    map Sequence (filter (\<lambda>e. Sequence e > after) evs) = [Suc after ..< Suc (LastSequence (Info j))]"
proof (cases log)
  case None
  then show ?thesis using assms(2) by (simp add: readEvents_def log_ok_def)
next
  case (Some s)
  have num: "numbered E evs" "s = rendered E evs" "LastSequence (Info j) = length evs"
    using assms(2) by (simp_all add: log_ok_def Some)
  have "readEvents E log after = Some (filter (\<lambda>e. Sequence e > after) evs)"
    using read_torn[OF assms(1) num(1), of "[]" after] assms(3) by (simp add: Some num(2))
  moreover have "map Sequence evs = [1 ..< Suc (length evs)]" using num(1) unfolding numbered_def by (rule conjunct1)
  ultimately show ?thesis using filter_after num(3) by metis
qed

lemma fresh_log_ok: "LastSequence (Info j) = 0 \<Longrightarrow> log_ok E [] j None"
  by (simp add: log_ok_def numbered_def)

text \<open>
  C31: The event log is faithful: after any sequence of output, progress and result events appended to
  a new job, where each append succeeds or fails before its first byte is written, a reader that has seen
  the events up to a number gets exactly the events kept after it, each as it was given and with its
  number, without a gap up to the last number of the job. Kept are those that were written, and beyond
  the limit of the size only a result. The log is one that the reader accepts by its size.
\<close>

theorem log_roundtrip:
  assumes "codec_ok E" "LastSequence (Info j) = 0" "list_all (\<lambda>op. whole_write (fst op)) ops"
    and "append_all E ops (j, None) = (j', log)" "case log of None \<Rightarrow> True | Some s \<Rightarrow> length s \<le> readLimit"
  shows "readEvents E log after = Some (filter (\<lambda>e. Sequence e > after) (kept_events E (LogBytes j) 0 ops)) \<and>
    map Sequence (filter (\<lambda>e. Sequence e > after) (kept_events E (LogBytes j) 0 ops)) = [Suc after ..< Suc (LastSequence (Info j'))]"
  using log_read[OF assms(1) append_all_ok[OF fresh_log_ok[OF assms(2)] assms(3,4)] assms(5)] by (simp add: assms(2))

text \<open>
  A crash in the middle of a write loses at most the event being written: from a faithful log with
  an incomplete last line, recovery keeps every complete event, ends a job without a result as
  interrupted and one with a result by its exit code, and never refuses to start.
\<close>

theorem recovery_after_crash:
  assumes "codec_ok E" "numbered E evs" "NL \<notin> set tail" "length (rendered E evs @ tail) \<le> readLimit"
    and "safeID (JobId (SavedInfo s))" "State (SavedInfo s) = RUNNING" "LastSequence (SavedInfo s) = 0"
  shows "\<exists>j. recover E t (JobId (SavedInfo s) @ ''.json'') (Some s) (Some (rendered E evs @ tail)) = Some j \<and>
    LastSequence (Info j) = length evs \<and> State (Info j) \<noteq> RUNNING \<and>
    (list_all (\<lambda>e. \<not> is_result (Event e)) evs \<longrightarrow> State (Info j) = INTERRUPTED) \<and>
    (\<forall>code. evs \<noteq> [] \<longrightarrow> Event (last evs) = Result code \<longrightarrow>
       State (Info j) = (if code = 0 then SUCCEEDED else FAILED) \<and> ExitCode (Info j) = code)"
proof -
  have seqs: "map Sequence evs = [1 ..< Suc (length evs)]" using assms(2) unfolding numbered_def by (rule conjunct1)
  then have all: "filter (\<lambda>e. Sequence e > 0) evs = evs"
    by (metis (no_types, lifting) atLeastLessThan_iff atLeastLessThan_upt filter_True imageI list.set_map not_one_le_zero zero_less_iff_neq_zero)
  have read: "readEvents E (Some (rendered E evs @ tail)) 0 = Some evs"
    using read_torn[OF assms(1-4), of 0] by (simp add: all)
  define i where "i = (SavedInfo s)\<lparr>State := INTERRUPTED, ExitCode := 1\<rparr>"
  have seq: "LastSequence (fold replay es i) = fold max (map Sequence es) 0" for es
    by (induction es rule: rev_induct) (auto simp: i_def assms(7) replay_def Let_def max.commute split: exec_event.splits)
  have last: "fold max [1 ..< Suc n] 0 = n" for n :: nat by (induction n) auto
  have state: "State (fold replay es i) \<noteq> RUNNING" for es
    by (induction es rule: rev_induct) (auto simp: i_def replay_def Let_def split: exec_event.splits)
  have inter: "list_all (\<lambda>e. \<not> is_result (Event e)) es \<Longrightarrow> State (fold replay es i) = INTERRUPTED" for es
    by (induction es rule: rev_induct) (auto simp: i_def replay_def Let_def is_result_def split: exec_event.splits)
  have final: "es \<noteq> [] \<Longrightarrow> Event (last es) = Result code \<Longrightarrow>
      State (fold replay es i) = (if code = 0 then SUCCEEDED else FAILED) \<and> ExitCode (fold replay es i) = code" for es code
    by (induction es rule: rev_induct) (auto simp: replay_def Let_def)
  have "LastSequence (fold replay evs i) = length evs" unfolding seq seqs last ..
  then show ?thesis using state[of evs] inter[of evs] final[of evs] assms(5,6)
    by (simp add: recover_def read Let_def i_def)
qed

definition no_jobs :: manager where
  "no_jobs = \<lparr>jobs = [], running = 0, closing = False, stopped = False, logs = (\<lambda>_. None), files = (\<lambda>_. None)\<rparr>"

definition sample_event :: stream_event where
  "sample_event = \<lparr>Sequence = 1, Event = Result 0\<rparr>"

definition sample_jobs :: job_env where
  "sample_jobs = \<lparr>encode = (\<lambda>e. if e = sample_event then Some ''x'' else None),
     decode = (\<lambda>s. if s = ''x'' then Some sample_event else None), job_digest = (\<lambda>s. s), job_line = sample_line\<rparr>"

definition sample_info :: job_info where
  "sample_info = \<lparr>JobId = replicate 26 CHR ''A'', JobCommand = ''status'', State = RUNNING, Created = 1, Finished = 0, ExitCode = 0,
     LastSequence = 0, OutputTruncated = False, CancelRequested = False\<rparr>"

definition sample_job :: job where
  "sample_job = \<lparr>Info = sample_info, Owner = ''T1'', Key = ''k'', Digest = ''status'', Cancelled = False, WriteError = False, LogBytes = 0\<rparr>"

lemma sample_id [simp]: "safeID (replicate 26 CHR ''A'')"
  by (simp add: safeID_def list_all_iff less_eq_char_def)

lemma sample_codec: "codec_ok sample_jobs"
  by (simp add: codec_ok_def sample_jobs_def trim_space_id solid_def)

lemma log_roundtrip_witness:
  "readEvents sample_jobs (Some (''x'' @ [NL])) 0 = Some [sample_event]"
proof -
  have run: "append_all sample_jobs [(WriteFailed 0, Result 1), (Written, Result 0)] (sample_job, None) =
      (sample_job\<lparr>Info := sample_info\<lparr>LastSequence := 1\<rparr>, LogBytes := 2\<rparr>, Some (''x'' @ [NL]))"
    by (simp add: appendEvent_def is_result_def sample_jobs_def sample_job_def sample_info_def sample_event_def maxLogBytes_def)
  show ?thesis using log_roundtrip[OF sample_codec _ _ run, of 0]
    by (simp add: sample_job_def sample_info_def readLimit_def maxLogBytes_def whole_write_def sample_jobs_def sample_event_def is_result_def)
qed

lemma recovery_after_crash_witness:
  "\<exists>j. recover sample_jobs 9 (JobId sample_info @ ''.json'') (Some (saved_of sample_job)) (Some (rendered sample_jobs [sample_event] @ ''{'')) = Some j \<and>
    State (Info j) = SUCCEEDED"
  using recovery_after_crash[OF sample_codec, of "[sample_event]" "''{''" "saved_of sample_job" 9]
  by (auto simp: numbered_def sample_jobs_def sample_event_def rendered_def readLimit_def maxLogBytes_def saved_of_def
      sample_job_def sample_info_def)

section \<open>A torn log\<close>

text \<open>
  A write that fails part of the way tears the log for good: the next event is glued to the
  incomplete line, the log counts as damaged, and while the record on disk still says running, the
  whole manager refuses to start.
\<close>

theorem torn_write_blocks_restart:
  assumes "numbered E evs" "codec_ok E" "encode E \<lparr>Sequence = LastSequence (Info j) + 1, Event = Result c\<rparr> = Some data"
    and "NL \<notin> set part" "decode E (trim_space (part @ data)) = None"
    and "appendEvent E Written (Result c) j (Some (rendered E evs @ part)) = (True, j', log)"
    and "safeID (JobId (SavedInfo s))" "State (SavedInfo s) = RUNNING"
  shows "readEvents E log after = None \<and> New E saves t [(JobId (SavedInfo s) @ ''.json'', Some s, log)] m = None"
proof -
  have log: "log = Some (rendered E evs @ part @ data @ [NL])"
    using assms(3,6) by (auto simp: appendEvent_def is_result_def Let_def)
  have data: "NL \<notin> set data" using assms(2,3) by (auto simp: codec_ok_def)
  have enc: "list_all (\<lambda>e. encode E e \<noteq> None) evs" using assms(1) unfolding numbered_def by (rule conjunct2)
  have lines: "split_on NL (rendered E evs @ part @ data @ [NL]) = map (\<lambda>e. the (encode E e)) evs @ [part @ data, []]"
  proof -
    have "split_on NL (rendered E evs @ []) = map (\<lambda>e. the (encode E e)) evs @ [[]]"
      by (rule split_rendered[OF assms(2) enc]) simp
    then show ?thesis using enc
    proof (induction evs)
      case Nil
      then show ?case using split_on_append[of NL "part @ data" "[]"] assms(4) data by (simp add: rendered_def)
    next
      case (Cons e evs)
      have "NL \<notin> set (the (encode E e))" using assms(2) Cons.prems(2) by (auto simp: codec_ok_def)
      then show ?case using Cons by (simp add: rendered_def split_on_append)
    qed
  qed
  have none: "read_lines E n after (map (\<lambda>e. the (encode E e)) evs @ [part @ data]) = None" for n after
    using enc
  proof (induction evs arbitrary: n)
    case Nil
    then show ?case by (simp add: assms(5))
  next
    case (Cons e evs)
    then show ?case by (auto split: option.splits)
  qed
  have "readEvents E log after = None" for after by (simp add: log readEvents_def lines none butlast_append)
  then show ?thesis using assms(7,8) by (simp add: recover_def has_suffix_iff)
qed

lemma torn_write_blocks_restart_witness:
  "New sample_jobs True 9 [(JobId sample_info @ ''.json'', Some (saved_of sample_job), Some (''{x'' @ [NL])) ] no_jobs = None"
proof -
  have "trim_space ''{x'' = ''{x''" by (rule trim_space_id) (simp add: solid_def)
  then show ?thesis
    using torn_write_blocks_restart[OF _ sample_codec, of "[]" sample_job 0 "''x''" "''{''"
      "sample_job\<lparr>Info := sample_info\<lparr>LastSequence := 1\<rparr>, LogBytes := 2\<rparr>" "Some (''{x'' @ [NL])" "saved_of sample_job" 0 True 9 no_jobs]
    by (simp add: numbered_def sample_jobs_def sample_event_def appendEvent_def is_result_def rendered_def sample_job_def sample_info_def
        saved_of_def maxLogBytes_def)
qed

section \<open>Output keeps its characters whole\<close>

lemma back_rune: "back_to_start data n = Suc m \<Longrightarrow> rune_start (data ! Suc m)"
  by (induction n) (auto split: if_splits)

lemma back_found: "0 < k \<Longrightarrow> k \<le> n \<Longrightarrow> rune_start (data ! k) \<Longrightarrow> 0 < back_to_start data n"
  by (induction n) (auto simp: le_Suc_eq)

text \<open>Of any four bytes in a row one starts a character, as in every UTF-8 text.\<close>

definition utf8_dense :: "string \<Rightarrow> bool" where
  "utf8_dense data \<longleftrightarrow> list_all (\<lambda>i. \<exists>k \<in> set [0 ..< 4]. rune_start (data ! (i + k))) [0 ..< length data - 3]"

lemma chunk_end_rune:
  assumes "utf8_dense data" "chunk_end data < length data"
  shows "rune_start (data ! chunk_end data)"
proof -
  have big: "chunkBytes < length data"
  proof (rule ccontr)
    assume "\<not> chunkBytes < length data"
    then have "min (length data) chunkBytes = length data" by simp
    then show False using assms(2) by (cases "data = []") (simp_all add: chunk_end_def)
  qed
  have "\<exists>k \<in> set [0 ..< 4]. rune_start (data ! (16381 + k))"
    using assms(1) big by (auto simp: utf8_dense_def list_all_iff chunkBytes_def)
  then obtain k where k: "k < 4" "rune_start (data ! (16381 + k))" by auto
  have pos: "0 < back_to_start data chunkBytes"
    by (rule back_found[of "16381 + k"]) (use k in \<open>simp_all add: chunkBytes_def\<close>)
  then obtain n where n: "back_to_start data chunkBytes = Suc n" using gr0_conv_Suc by blast
  have "chunk_end data = back_to_start data chunkBytes"
    using big pos by (simp add: chunk_end_def Let_def)
  then show ?thesis using back_rune[OF n] n by simp
qed

lemma utf8_dense_drop: "utf8_dense data \<Longrightarrow> utf8_dense (drop n data)"
proof -
  assume "utf8_dense data"
  then have "\<exists>k \<in> set [0 ..< 4]. rune_start (data ! (n + i + k))" if "n + i < length data - 3" for i
    using that by (simp add: utf8_dense_def list_all_iff)
  then show ?thesis by (auto simp: utf8_dense_def list_all_iff add.assoc)
qed

text \<open>
  C32: The writer of a job's output splits it without loss: the chunks concatenate to the output, none
  is empty or longer than 16 KiB, and in a UTF-8 text every chunk after the first starts at the start
  of a character.
\<close>

theorem chunks_whole:
  "concat (chunks data) = data \<and> list_all (\<lambda>c. c \<noteq> [] \<and> length c \<le> chunkBytes) (chunks data) \<and>
   (utf8_dense data \<longrightarrow> list_all (\<lambda>c. rune_start (hd c)) (tl (chunks data)))"
proof (induction data rule: chunks.induct)
  case (1 data)
  show ?case
  proof (cases "data = []")
    case True
    then show ?thesis by (simp add: chunks.simps)
  next
    case False
    let ?rest = "drop (chunk_end data) data"
    have IH: "concat (chunks ?rest) = ?rest" "list_all (\<lambda>c. c \<noteq> [] \<and> length c \<le> chunkBytes) (chunks ?rest)"
      "utf8_dense ?rest \<Longrightarrow> list_all (\<lambda>c. rune_start (hd c)) (tl (chunks ?rest))"
      using "1.IH"[OF False] by simp_all
    have step: "chunks data = take (chunk_end data) data # chunks ?rest" using False by (subst chunks.simps) simp
    have first: "take (chunk_end data) data \<noteq> []" "length (take (chunk_end data) data) \<le> chunkBytes"
      using chunk_end_pos[OF False] chunk_end_le[of data] False by auto
    have "list_all (\<lambda>c. rune_start (hd c)) (chunks ?rest)" if dense: "utf8_dense data"
    proof (cases "?rest = []")
      case True
      then show ?thesis by (simp add: chunks.simps)
    next
      case ne: False
      have "hd (take (chunk_end ?rest) ?rest) = data ! chunk_end data"
        using chunk_end_pos[OF ne] ne by (simp add: hd_conv_nth)
      moreover have "rune_start (data ! chunk_end data)" using chunk_end_rune[OF dense] ne by simp
      moreover have "chunks ?rest = take (chunk_end ?rest) ?rest # tl (chunks ?rest)"
        using ne by (subst (1 2) chunks.simps) simp
      ultimately show ?thesis using IH(3)[OF utf8_dense_drop[OF dense]] by (metis (no_types, lifting) list.pred_inject(2))
    qed
    then show ?thesis using IH(1,2) first by (simp add: step)
  qed
qed

lemma chunks_whole_witness:
  "list_all (\<lambda>c. rune_start (hd c)) (tl (chunks ''ok''))"
  using chunks_whole[of "''ok''"] by (simp add: utf8_dense_def)

section \<open>Runs of the manager\<close>

datatype job_op =
    StartOp token start_env start_request
  | OutputOp string "write_result list" string
  | ProgressOp string write_result instant "string \<times> int \<times> int \<times> string" instant
  | FinishOp string bool write_result bool instant
  | CancelOp token string bool
  | CloseOp

fun job_step :: "job_env \<Rightarrow> 'w registry \<Rightarrow> job_op \<Rightarrow> manager \<Rightarrow> manager" where
  "job_step E r (StartOp actor S req) m = snd (Start E r actor S req m)"
| "job_step E r (OutputOp ident ios data) m = write_output E ident ios data m"
| "job_step E r (ProgressOp ident io t p lastProgress) m = write_progress E ident io t p lastProgress m"
| "job_step E r (FinishOp ident failed io saves t) m = Finish E ident failed io saves t m"
| "job_step E r (CancelOp actor ident saves) m = snd (Cancel actor ident saves m)"
| "job_step E r CloseOp m = Close m"

text \<open>The id a start draws is new, as 130 random bits make it.\<close>

fun fresh_op :: "job_op \<Rightarrow> manager \<Rightarrow> bool" where
  "fresh_op (StartOp actor S req) m \<longleftrightarrow> lookup (jobs m) (fresh_id S) = None"
| "fresh_op op m \<longleftrightarrow> True"

inductive job_steps :: "job_env \<Rightarrow> 'w registry \<Rightarrow> manager \<Rightarrow> manager \<Rightarrow> bool" for E r where
  stay: "job_steps E r m m"
| more: "job_steps E r m m' \<Longrightarrow> fresh_op op m' \<Longrightarrow> job_steps E r m (job_step E r op m')"

text \<open>What the writers and the worker leave of a job.\<close>

definition same_job :: "job \<Rightarrow> job \<Rightarrow> bool" where
  "same_job j j' \<longleftrightarrow> JobId (Info j') = JobId (Info j) \<and> Owner j' = Owner j \<and> Key j' = Key j \<and> Digest j' = Digest j"

lemma same_job_refl [simp]: "same_job j j"
  by (simp add: same_job_def)

lemma same_job_trans: "same_job a b \<Longrightarrow> same_job b c \<Longrightarrow> same_job a c"
  by (simp add: same_job_def)

lemma append_same:
  "same_job j (fst (snd (appendEvent E io ev j log))) \<and> State (Info (fst (snd (appendEvent E io ev j log)))) = State (Info j)"
  by (auto simp: appendEvent_def same_job_def Let_def split: option.splits write_result.splits)

lemma write_same:
  "same_job j (fst (snd (write_chunks E ios cs j log))) \<and> State (Info (fst (snd (write_chunks E ios cs j log)))) = State (Info j)"
proof (induction cs arbitrary: ios j log)
  case Nil
  then show ?case by simp
next
  case (Cons c cs)
  obtain io rest where io: "(case ios of [] \<Rightarrow> (Written, []) | io # ios \<Rightarrow> (io, ios)) = (io, rest)" by fastforce
  obtain ok j1 log1 where app: "appendEvent E io (Output c) j log = (ok, j1, log1)" by (cases "appendEvent E io (Output c) j log")
  have "same_job j j1 \<and> State (Info j1) = State (Info j)" using append_same[of j E io "Output c" log] by (simp add: app)
  then show ?case using Cons.IH[of j1 rest log1]
    by (cases ok) (auto simp: io app same_job_def)
qed

lemma Report_same:
  "same_job j (fst (snd (Report E io t p lp j log))) \<and> State (Info (fst (snd (Report E io t p lp j log)))) = State (Info j)"
proof -
  obtain ph c n msg where p: "p = (ph, c, n, msg)" by (cases p)
  obtain ok j1 log1 where app: "appendEvent E io (Progress ph c n msg) j log = (ok, j1, log1)"
    by (cases "appendEvent E io (Progress ph c n msg) j log")
  then show ?thesis using append_same[of j E io "Progress ph c n msg" log] by (auto simp: Report_def p same_job_def)
qed

lemma final_not_running: "State (final_state failed j) \<noteq> RUNNING \<and> JobId (final_state failed j) = JobId (Info j)"
  by (simp add: final_state_def Let_def)

lemma finish_same:
  "same_job j (fst (finish_job E failed io t j log)) \<and> State (Info (fst (finish_job E failed io t j log))) \<noteq> RUNNING"
proof -
  define j2 where "j2 = j\<lparr>Info := (final_state failed j)\<lparr>Finished := t\<rparr>\<rparr>"
  have j2: "same_job j j2" "State (Info j2) \<noteq> RUNNING"
    using final_not_running[of failed j] by (simp_all add: same_job_def j2_def)
  obtain ok j3 log3 where app: "appendEvent E io (Result (ExitCode (Info j2))) j2 log = (ok, j3, log3)"
    by (cases "appendEvent E io (Result (ExitCode (Info j2))) j2 log")
  have j3: "same_job j2 j3" "State (Info j3) = State (Info j2)"
    using append_same[of j2 E io "Result (ExitCode (Info j2))" log] by (simp_all add: app)
  have "finish_job E failed io t j log = (if ok then j3 else fail_job j3, log3)"
    unfolding finish_job_def using app by (simp add: j2_def Let_def)
  moreover have "same_job j j3" using j2(1) j3(1) same_job_trans by blast
  ultimately show ?thesis using j2(2) j3(2) by (auto simp: fail_job_def same_job_def)
qed

text \<open>The invariant of the manager.\<close>

definition live_jobs :: "(string, job) amap \<Rightarrow> nat" where
  "live_jobs m = length (filter (\<lambda>(_, j). State (Info j) = RUNNING) m)"

definition jobs_ok :: "manager \<Rightarrow> bool" where
  "jobs_ok m \<longleftrightarrow> keys_ok (jobs m) \<and> running m = live_jobs (jobs m) \<and> running m \<le> maxConcurrent \<and>
     length (jobs m) \<le> maxJobs \<and> distinct (map (\<lambda>(_, j). (Owner j, Key j)) (jobs m))"

lemma live_store_new:
  "lookup m k = None \<Longrightarrow> live_jobs (store k j m) = live_jobs m + (if State (Info j) = RUNNING then 1 else 0)"
  by (induction m) (auto simp: live_jobs_def split: if_splits)

lemma live_store_old:
  "lookup m k = Some j \<Longrightarrow>
     live_jobs (store k j' m) + (if State (Info j) = RUNNING then 1 else 0) =
     live_jobs m + (if State (Info j') = RUNNING then 1 else 0)"
  by (induction m) (auto simp: live_jobs_def split: if_splits)

lemma live_pos: "lookup m k = Some j \<Longrightarrow> State (Info j) = RUNNING \<Longrightarrow> 0 < live_jobs m"
  by (induction m) (auto simp: live_jobs_def split: if_splits)

lemma length_store_old: "lookup m k = Some j \<Longrightarrow> length (store k j' m) = length m"
  by (induction m) (auto split: if_splits)

lemma length_store_new: "lookup m k = None \<Longrightarrow> length (store k j' m) = Suc (length m)"
  by (induction m) (auto split: if_splits)

lemma names_store_old:
  "lookup m k = Some j \<Longrightarrow> Owner j' = Owner j \<Longrightarrow> Key j' = Key j \<Longrightarrow>
     map (\<lambda>(_, j). (Owner j, Key j)) (store k j' m) = map (\<lambda>(_, j). (Owner j, Key j)) m"
  by (induction m) (auto split: if_splits)

lemma names_store_new:
  "lookup m k = None \<Longrightarrow>
     map (\<lambda>(_, j). (Owner j, Key j)) (store k j' m) = map (\<lambda>(_, j). (Owner j, Key j)) m @ [(Owner j', Key j')]"
  by (induction m) (auto split: if_splits)

text \<open>Replacing a job by what its worker, a writer or a cancellation made of it.\<close>

lemma jobs_ok_replace:
  assumes "jobs_ok m" "lookup (jobs m) k = Some j" "same_job j j'" "jobs m' = store k j' (jobs m)"
    and "running m' + (if State (Info j) = RUNNING then 1 else 0) = running m + (if State (Info j') = RUNNING then 1 else 0)"
    and "State (Info j) \<noteq> RUNNING \<longrightarrow> State (Info j') \<noteq> RUNNING"
  shows "jobs_ok m'"
proof -
  have "running m' = live_jobs (jobs m')"
    using live_store_old[OF assms(2), of j'] assms(1,4,5) by (simp add: jobs_ok_def)
  moreover have "running m' \<le> running m" using assms(5,6) by (auto split: if_splits)
  ultimately show ?thesis
    using assms(1-4) length_store_old[OF assms(2)] names_store_old[OF assms(2), of j'] by (simp add: jobs_ok_def same_job_def)
qed

lemma save_job_jobs: "save_job w j m = (ok, m') \<Longrightarrow> jobs m' = jobs m \<and> running m' = running m \<and> logs m' = logs m \<and>
    closing m' = closing m \<and> stopped m' = stopped m"
  by (auto simp: save_job_def split: if_splits)

text \<open>One operation: either the jobs stay, one job is replaced by itself changed, or one is added.\<close>

lemma Start_cases:
  "snd (Start E r actor S req m) = m \<or>
   (\<exists>j. snd (Start E r actor S req m) = snd (save_job (save_works S) j m)) \<or>
   (\<exists>j name digest k. find_key actor k m = None \<and> running m < maxConcurrent \<and> length (jobs m) < maxJobs \<and>
      j = new_job S actor name k digest \<and> jobs (snd (Start E r actor S req m)) = store (fresh_id S) j (jobs m) \<and>
      running (snd (Start E r actor S req m)) = running m + 1 \<and> fst (Start E r actor S req m) = Inr (Info j) \<and>
      start_checks E r actor S req = Inr (name, digest) \<and>
      k = (if IdempotencyKey req = [] then fresh_key S else IdempotencyKey req))"
proof (cases "start_checks E r actor S req")
  case (Inl e)
  then show ?thesis by (simp add: Start_def)
next
  case (Inr nd)
  obtain name digest where nd: "nd = (name, digest)" by (cases nd)
  define k where "k = (if IdempotencyKey req = [] then fresh_key S else IdempotencyKey req)"
  define j where "j = new_job S actor name k digest"
  obtain ok m1 where save: "save_job (save_works S) j m = (ok, m1)" by fastforce
  note m1 = save_job_jobs[OF save]
  have start: "Start E r actor S req m =
      (if closing m then (Inl Unavailable, m) else if stopped m then (Inl ServerStopped, m)
       else (case find_key actor k m of
          Some j \<Rightarrow> if Digest j \<noteq> digest then (Inl AlreadyExists, m) else (Inr (Info j), m)
        | None \<Rightarrow> if running m \<ge> maxConcurrent then (Inl FourRunning, m) else if length (jobs m) \<ge> maxJobs then (Inl HistoryFull, m)
           else if \<not> ok then (Inl SaveFailed, m1)
           else (Inr (Info j), m1\<lparr>jobs := store (JobId (Info j)) j (jobs m1), running := running m1 + 1\<rparr>)))"
    using save by (simp add: Start_def Inr nd k_def[symmetric] j_def[symmetric] split: option.splits bool.splits)
  have id: "JobId (Info j) = fresh_id S" by (simp add: j_def new_job_def)
  show ?thesis
  proof (cases "closing m \<or> stopped m \<or> find_key actor k m \<noteq> None \<or> running m \<ge> maxConcurrent \<or> length (jobs m) \<ge> maxJobs")
    case True
    then have "snd (Start E r actor S req m) = m" by (auto simp: start split: option.splits)
    then show ?thesis by (rule disjI1)
  next
    case False
    then have go: "Start E r actor S req m = (if \<not> ok then (Inl SaveFailed, m1)
           else (Inr (Info j), m1\<lparr>jobs := store (JobId (Info j)) j (jobs m1), running := running m1 + 1\<rparr>))"
      unfolding start by simp
    show ?thesis
    proof (cases ok)
      case True
      show ?thesis
        by (intro disjI2 exI[of _ j] exI[of _ name] exI[of _ digest] exI[of _ k])
          (use False True m1 id in \<open>simp add: go Inr nd k_def[symmetric] j_def[symmetric]\<close>)
    next
      case no: False
      have "snd (Start E r actor S req m) = snd (save_job (save_works S) j m)" using save no by (simp add: go)
      then show ?thesis by blast
    qed
  qed
qed

lemma find_key_None: "find_key actor k m = None \<Longrightarrow> (TokenID actor, k) \<notin> set (map (\<lambda>(_, j). (Owner j, Key j)) (jobs m))"
  by (force simp: find_key_def find_None_iff)

lemma jobs_ok_Start:
  assumes "jobs_ok m" "lookup (jobs m) (fresh_id S) = None"
  shows "jobs_ok (snd (Start E r actor S req m))"
  using Start_cases[of E r actor S req m]
proof (elim disjE exE conjE)
  assume "snd (Start E r actor S req m) = m"
  then show ?thesis using assms by simp
next
  fix j assume st: "snd (Start E r actor S req m) = snd (save_job (save_works S) j m)"
  obtain ok m1 where save: "save_job (save_works S) j m = (ok, m1)" by fastforce
  have "jobs m1 = jobs m" "running m1 = running m" using save_job_jobs[OF save] by blast+
  then show ?thesis using assms(1) unfolding st save jobs_ok_def by simp
next
  fix j name digest k
  assume new: "find_key actor k m = None" "running m < maxConcurrent" "length (jobs m) < maxJobs"
    "j = new_job S actor name k digest" "jobs (snd (Start E r actor S req m)) = store (fresh_id S) j (jobs m)"
    "running (snd (Start E r actor S req m)) = running m + 1"
  define m' where "m' = snd (Start E r actor S req m)"
  have j: "State (Info j) = RUNNING" "Owner j = TokenID actor" "Key j = k" by (simp_all add: new(4) new_job_def)
  have m': "jobs m' = store (fresh_id S) j (jobs m)" "running m' = running m + 1" using new(5,6) by (simp_all only: m'_def)
  have names: "distinct (map (\<lambda>(_, j). (Owner j, Key j)) (jobs m'))"
    unfolding m'(1) names_store_new[OF assms(2)] j
    using assms(1) find_key_None[OF new(1)] unfolding jobs_ok_def by (simp only: distinct_append) simp
  have "running m' = live_jobs (jobs m')" unfolding m' live_store_new[OF assms(2)] using j(1) assms(1) by (simp add: jobs_ok_def)
  moreover have "keys_ok (jobs m')" using assms(1) by (simp add: m'(1) jobs_ok_def keys_ok_store)
  moreover have "length (jobs m') \<le> maxJobs" using new(3) by (simp add: m'(1) length_store_new[OF assms(2)])
  moreover have "running m' \<le> maxConcurrent" using new(2) by (simp add: m'(2))
  ultimately have "jobs_ok m'" using names unfolding jobs_ok_def by blast
  then show ?thesis by (simp only: m'_def)
qed

text \<open>Every other operation leaves the jobs as they are, marks them all cancelled, or moves one running job on.\<close>

definition moves_job :: "manager \<Rightarrow> manager \<Rightarrow> string \<Rightarrow> job \<Rightarrow> job \<Rightarrow> bool" where
  "moves_job m m' k j j' \<longleftrightarrow> lookup (jobs m) k = Some j \<and> State (Info j) = RUNNING \<and> same_job j j' \<and>
     jobs m' = store k j' (jobs m) \<and> running m' = (if State (Info j') = RUNNING then running m else running m - 1)"

lemma write_output_moves:
  "jobs (write_output E k ios data m) = jobs m \<and> running (write_output E k ios data m) = running m \<or>
   (\<exists>j j'. moves_job m (write_output E k ios data m) k j j')"
proof (cases "lookup (jobs m) k")
  case None
  then show ?thesis by (simp add: write_output_def)
next
  case (Some j)
  obtain ok j' log where w: "Write E ios data j (logs m k) = (ok, j', log)" by (cases "Write E ios data j (logs m k)")
  have "same_job j j'" "State (Info j') = State (Info j)" using write_same[of j E ios "chunks data" "logs m k"] w by (simp_all add: Write_def)
  then show ?thesis
    by (cases "State (Info j) = RUNNING") (auto simp: write_output_def Some w moves_job_def)
qed

lemma write_progress_moves:
  "jobs (write_progress E k io t p lp m) = jobs m \<and> running (write_progress E k io t p lp m) = running m \<or>
   (\<exists>j j'. moves_job m (write_progress E k io t p lp m) k j j')"
proof (cases "lookup (jobs m) k")
  case None
  then show ?thesis by (simp add: write_progress_def)
next
  case (Some j)
  obtain ok j' log where w: "Report E io t p lp j (logs m k) = (ok, j', log)" by (cases "Report E io t p lp j (logs m k)")
  have "same_job j j'" "State (Info j') = State (Info j)" using Report_same[of j E io t p lp "logs m k"] w by simp_all
  then show ?thesis
    by (cases "State (Info j) = RUNNING") (auto simp: write_progress_def Some w moves_job_def)
qed

lemma fail_job_same: "same_job j (fail_job j)" "State (Info (fail_job j)) \<noteq> RUNNING"
  by (simp_all add: fail_job_def same_job_def)

lemma Finish_moves:
  "jobs (Finish E k failed io saves t m) = jobs m \<and> running (Finish E k failed io saves t m) = running m \<or>
   (\<exists>j j'. moves_job m (Finish E k failed io saves t m) k j j')"
proof (cases "lookup (jobs m) k")
  case None
  then show ?thesis by (simp add: Finish_def)
next
  case (Some j)
  show ?thesis
  proof (cases "State (Info j) = RUNNING")
    case True
    obtain j1 log where w: "finish_job E failed io t j (logs m k) = (j1, log)" by fastforce
    obtain ok m1 where s: "save_job saves j1 (m\<lparr>logs := (logs m)(k := log)\<rparr>) = (ok, m1)" by fastforce
    have m1: "jobs m1 = jobs m" "running m1 = running m" using save_job_jobs[OF s] by simp_all
    define j2 where "j2 = (if ok then j1 else fail_job j1)"
    have "same_job j j1" "State (Info j1) \<noteq> RUNNING" using finish_same[of j E failed io t "logs m k"] w by simp_all
    then have "same_job j j2" "State (Info j2) \<noteq> RUNNING" using fail_job_same same_job_trans by (auto simp: j2_def)
    moreover have "Finish E k failed io saves t m = m1\<lparr>jobs := store k j2 (jobs m1), running := running m1 - 1\<rparr>"
      using s by (simp add: Finish_def Some True w Let_def j2_def)
    ultimately have "moves_job m (Finish E k failed io saves t m) k j j2" by (simp add: moves_job_def Some True m1)
    then show ?thesis by blast
  qed (simp add: Finish_def Some)
qed

lemma Cancel_moves:
  "jobs (snd (Cancel actor k saves m)) = jobs m \<and> running (snd (Cancel actor k saves m)) = running m \<or>
   (\<exists>j j'. moves_job m (snd (Cancel actor k saves m)) k j j')"
proof (cases "owned actor k m")
  case None
  then show ?thesis by (simp add: Cancel_def)
next
  case (Some j)
  have l: "lookup (jobs m) k = Some j" using Some by (auto simp: owned_def split: option.splits if_splits)
  define j1 where "j1 = j\<lparr>Info := (Info j)\<lparr>CancelRequested := True\<rparr>\<rparr>"
  obtain ok m1 where s: "save_job saves j1 m = (ok, m1)" by fastforce
  have m1: "jobs m1 = jobs m" "running m1 = running m" using save_job_jobs[OF s] by simp_all
  have j1: "same_job j j1" "State (Info j1) = State (Info j)" by (simp_all add: j1_def same_job_def)
  show ?thesis
  proof (cases "State (Info j) = RUNNING")
    case True
    define j2 where "j2 = (if ok then j1\<lparr>Cancelled := True\<rparr> else j1)"
    have "same_job j j2" "State (Info j2) = RUNNING" using j1 True by (simp_all add: j2_def same_job_def)
    moreover have "snd (Cancel actor k saves m) = m1\<lparr>jobs := store k j2 (jobs m1)\<rparr>"
      using s by (simp add: Cancel_def Some True Let_def j1_def[symmetric] j2_def)
    ultimately have "moves_job m (snd (Cancel actor k saves m)) k j j2" by (simp add: moves_job_def l True m1)
    then show ?thesis by blast
  qed (simp add: Cancel_def Some)
qed

lemma Close_jobs: "jobs (Close m) = map_vals (\<lambda>_ j. j\<lparr>Cancelled := True\<rparr>) (jobs m)" "running (Close m) = running m"
  by (simp_all add: Close_def)

lemma step_cases:
  obtains (Starting) actor S req where "op = StartOp actor S req"
    | (Closing) "op = CloseOp"
    | (Quiet) "jobs (job_step E r op m) = jobs m" "running (job_step E r op m) = running m"
    | (Moving) k j j' where "moves_job m (job_step E r op m) k j j'"
proof (cases op)
  case (OutputOp k ios data)
  then show ?thesis using write_output_moves[of E k ios data m] Quiet Moving by auto
next
  case (ProgressOp k io t p lp)
  then show ?thesis using write_progress_moves[of E k io t p lp m] Quiet Moving by auto
next
  case (FinishOp k failed io saves t)
  then show ?thesis using Finish_moves[of E k failed io saves t m] Quiet Moving by auto
next
  case (CancelOp actor k saves)
  then show ?thesis using Cancel_moves[of actor k saves m] Quiet Moving by auto
qed (auto intro: that)

lemma jobs_ok_moves: "moves_job m m' k j j' \<Longrightarrow> jobs_ok m \<Longrightarrow> jobs_ok m'"
proof -
  assume mv: "moves_job m m' k j j'" and ok: "jobs_ok m"
  have "0 < running m" using mv ok live_pos by (auto simp: moves_job_def jobs_ok_def)
  then show ?thesis using mv ok by (intro jobs_ok_replace[of m k j j' m']) (auto simp: moves_job_def)
qed

lemma live_map_vals: "(\<And>k j. State (Info (f k j)) = State (Info j)) \<Longrightarrow> live_jobs (map_vals f m) = live_jobs m"
  by (induction m) (auto simp: live_jobs_def map_vals_def)

lemma names_map_vals:
  "(\<And>k j. Owner (f k j) = Owner j \<and> Key (f k j) = Key j) \<Longrightarrow>
     map (\<lambda>(_, j). (Owner j, Key j)) (map_vals f m) = map (\<lambda>(_, j). (Owner j, Key j)) m"
  by (induction m) (auto simp: map_vals_def)

lemma jobs_ok_Close: "jobs_ok m \<Longrightarrow> jobs_ok (Close m)"
proof -
  have "length (map_vals (\<lambda>_ j. j\<lparr>Cancelled := True\<rparr>) (jobs m)) = length (jobs m)" by (simp add: map_vals_def)
  moreover have "live_jobs (map_vals (\<lambda>_ j. j\<lparr>Cancelled := True\<rparr>) (jobs m)) = live_jobs (jobs m)" by (rule live_map_vals) simp
  moreover have "map (\<lambda>(_, j). (Owner j, Key j)) (map_vals (\<lambda>_ j. j\<lparr>Cancelled := True\<rparr>) (jobs m)) = map (\<lambda>(_, j). (Owner j, Key j)) (jobs m)"
    by (rule names_map_vals) simp
  ultimately show "jobs_ok m \<Longrightarrow> jobs_ok (Close m)" unfolding jobs_ok_def Close_jobs by (elim conjE) (simp add: keys_ok_map_vals)
qed

lemma jobs_ok_step: "jobs_ok m \<Longrightarrow> fresh_op op m \<Longrightarrow> jobs_ok (job_step E r op m)"
proof (cases rule: step_cases[where op = op and E = E and r = r and m = m])
  case (Starting actor S req)
  then show "jobs_ok m \<Longrightarrow> fresh_op op m \<Longrightarrow> jobs_ok (job_step E r op m)" by (simp add: jobs_ok_Start)
next
  case Closing
  then show "jobs_ok m \<Longrightarrow> fresh_op op m \<Longrightarrow> jobs_ok (job_step E r op m)" by (simp add: jobs_ok_Close)
next
  case Quiet
  then show "jobs_ok m \<Longrightarrow> fresh_op op m \<Longrightarrow> jobs_ok (job_step E r op m)" by (simp add: jobs_ok_def)
next
  case (Moving k j j')
  then show "jobs_ok m \<Longrightarrow> fresh_op op m \<Longrightarrow> jobs_ok (job_step E r op m)" by (rule jobs_ok_moves)
qed

lemma jobs_ok_steps: "job_steps E r m m' \<Longrightarrow> jobs_ok m \<Longrightarrow> jobs_ok m'"
  by (induction rule: job_steps.induct) (auto intro: jobs_ok_step)

text \<open>
  C30: whatever is started, written, ended, cancelled or closed, in any order: the counter of running jobs
  is exact, at most four jobs run and ten thousand are kept, and no client has two jobs with one
  idempotency key.
\<close>

theorem job_limits:
  assumes "job_steps E r no_jobs m"
  shows "running m = length (filter (\<lambda>(_, j). State (Info j) = RUNNING) (jobs m)) \<and> running m \<le> 4 \<and>
    length (jobs m) \<le> 10000 \<and> distinct (map (\<lambda>(_, j). (Owner j, Key j)) (jobs m))"
proof -
  have "jobs_ok no_jobs" by (simp add: jobs_ok_def no_jobs_def live_jobs_def keys_ok_def)
  then have "jobs_ok m" by (rule jobs_ok_steps[OF assms])
  then show ?thesis by (simp add: jobs_ok_def live_jobs_def maxConcurrent_def maxJobs_def)
qed

text \<open>A job found under its id is found again after any step, and ends only once.\<close>

lemma lookup_moves:
  assumes "moves_job m m' k j j'" "lookup (jobs m) i = Some x"
  shows "\<exists>y. lookup (jobs m') i = Some y \<and> same_job x y \<and> (State (Info x) \<noteq> RUNNING \<longrightarrow> Info y = Info x \<and> WriteError y = WriteError x)"
  using assms by (cases "i = k") (auto simp: moves_job_def)

lemma lookup_Start:
  assumes "lookup (jobs m) (fresh_id S) = None" "lookup (jobs m) i = Some x"
  shows "lookup (jobs (snd (Start E r actor S req m))) i = Some x"
  using Start_cases[of E r actor S req m]
proof (elim disjE exE conjE)
  assume "snd (Start E r actor S req m) = m"
  then show ?thesis using assms by simp
next
  fix j assume st: "snd (Start E r actor S req m) = snd (save_job (save_works S) j m)"
  obtain ok m1 where save: "save_job (save_works S) j m = (ok, m1)" by fastforce
  have "jobs m1 = jobs m" using save_job_jobs[OF save] by blast
  then show ?thesis using assms(2) unfolding st save by simp
next
  fix j name digest k
  assume "jobs (snd (Start E r actor S req m)) = store (fresh_id S) j (jobs m)"
  then show ?thesis using assms by (metis lookup_store option.distinct(1))
qed

lemma lookup_step:
  assumes "fresh_op op m" "lookup (jobs m) i = Some x"
  shows "\<exists>y. lookup (jobs (job_step E r op m)) i = Some y \<and> same_job x y \<and> (State (Info x) \<noteq> RUNNING \<longrightarrow> Info y = Info x \<and> WriteError y = WriteError x)"
proof (cases rule: step_cases[where op = op and E = E and r = r and m = m])
  case (Starting actor S req)
  then show ?thesis using assms lookup_Start[of m S i x E r actor req] by simp
next
  case Closing
  then show ?thesis using assms by (simp add: Close_jobs same_job_def)
next
  case Quiet
  then show ?thesis using assms by simp
next
  case (Moving k j j')
  then show ?thesis by (rule lookup_moves[OF _ assms(2)])
qed

lemma lookup_steps:
  assumes "job_steps E r m m'" "lookup (jobs m) i = Some x"
  shows "\<exists>y. lookup (jobs m') i = Some y \<and> same_job x y \<and> (State (Info x) \<noteq> RUNNING \<longrightarrow> Info y = Info x \<and> WriteError y = WriteError x)"
  using assms
proof (induction rule: job_steps.induct)
  case (stay m)
  then show ?case by simp
next
  case (more m m' op)
  then obtain y where y: "lookup (jobs m') i = Some y" "same_job x y" "State (Info x) \<noteq> RUNNING \<longrightarrow> Info y = Info x \<and> WriteError y = WriteError x" by blast
  obtain z where z: "lookup (jobs (job_step E r op m')) i = Some z" "same_job y z" "State (Info y) \<noteq> RUNNING \<longrightarrow> Info z = Info y \<and> WriteError z = WriteError y"
    using lookup_step[OF more.hyps(2) y(1)] by blast
  show ?case using z y same_job_trans[OF y(2) z(2)] by auto
qed

text \<open>
  the result of an ended job is final: whatever happens afterwards, asking for the job gives the same
  answer to every client.
\<close>

theorem ended_jobs_stay:
  assumes "job_steps E r m m'" "Get someone i m = Inr info" "State info \<noteq> RUNNING"
  shows "Get actor i m' = Get actor i m"
proof -
  obtain x where x: "lookup (jobs m) i = Some x" "Info x = info"
    using assms(2) by (auto simp: Get_def owned_def split: option.splits if_splits)
  obtain y where y: "lookup (jobs m') i = Some y" "same_job x y" "Info y = Info x" "WriteError y = WriteError x"
    using lookup_steps[OF assms(1) x(1)] assms(3) x(2) by blast
  then show ?thesis by (simp add: Get_def owned_def x(1) same_job_def)
qed

definition ended_job :: job where
  "ended_job = sample_job\<lparr>Info := (Info sample_job)\<lparr>State := SUCCEEDED\<rparr>\<rparr>"

definition some_admin :: token where
  "some_admin = \<lparr>TokenID = ''t'', TokenName = ''n'', Scopes = [''admin''], Expires = 0, Hash = ''h'', Revoked = False\<rparr>"

lemma ended_jobs_stay_witness:
  "Get some_admin ''J'' (Close (no_jobs\<lparr>jobs := [(''J'', ended_job)]\<rparr>)) = Get some_admin ''J'' (no_jobs\<lparr>jobs := [(''J'', ended_job)]\<rparr>)"
  using ended_jobs_stay[OF more[OF stay, of CloseOp "no_jobs\<lparr>jobs := [(''J'', ended_job)]\<rparr>" sample_jobs "NewRegistry :: nat registry"],
      of some_admin "''J''" "Info ended_job" some_admin]
  by (simp add: Get_def owned_def ended_job_def sample_job_def sample_info_def some_admin_def Allows_def)

text \<open>A start that is answered with a job leaves that job under its owner, key and digest.\<close>

lemma Start_answer:
  assumes "Start E r actor S req m = (Inr info, m1)" "IdempotencyKey req \<noteq> []" "keys_ok (jobs m)"
  shows "\<exists>name digest i x. start_checks E r actor S req = Inr (name, digest) \<and> lookup (jobs m1) i = Some x \<and>
    Info x = info \<and> Owner x = TokenID actor \<and> Key x = IdempotencyKey req \<and> Digest x = digest"
proof -
  obtain name digest where checks: "start_checks E r actor S req = Inr (name, digest)"
    using assms(1) by (auto simp: Start_def split: sum.splits)
  show ?thesis
  proof (cases "find_key actor (IdempotencyKey req) m")
    case (Some j)
    then have "j \<in> snd ` set (jobs m)" "Owner j = TokenID actor" "Key j = IdempotencyKey req"
      by (auto simp: find_key_def find_Some_iff in_set_conv_nth image_iff) (metis nth_map nth_mem snd_conv)+
    moreover then obtain i where "lookup (jobs m) i = Some j" using assms(3) by (auto simp: lookup_in_set[symmetric])
    moreover have "Digest j = digest" "Info j = info" "m1 = m"
      using assms(1,2) Some by (auto simp: Start_def checks Let_def split: if_splits)
    ultimately show ?thesis using checks by blast
  next
    case None
    define j where "j = new_job S actor name (IdempotencyKey req) digest"
    obtain ok m2 where save: "save_job (save_works S) j m = (ok, m2)" by fastforce
    have "m1 = m2\<lparr>jobs := store (JobId (Info j)) j (jobs m2), running := running m2 + 1\<rparr> \<and> info = Info j"
      using assms(1,2) None save unfolding Start_def checks by (auto simp: Let_def j_def[symmetric] split: if_splits bool.splits)
    note answer = this
    have "lookup (jobs m1) (JobId (Info j)) = Some j" using answer by simp
    then show ?thesis using checks answer by (fastforce simp: j_def new_job_def)
  qed
qed

lemma find_key_unique:
  assumes "jobs_ok m" "lookup (jobs m) i = Some y" "Owner y = TokenID actor" "Key y = k"
  shows "find_key actor k m = Some y"
proof -
  let ?f = "\<lambda>(i :: string, j). (Owner j, Key j)"
  have inj: "inj_on ?f (set (jobs m))" using assms(1) by (simp add: jobs_ok_def distinct_map)
  have y: "(i, y) \<in> set (jobs m)" using assms(1,2) by (simp add: jobs_ok_def lookup_in_set)
  then have "find_key actor k m \<noteq> None" using assms(3,4) image_eqI[of y snd "(i, y)" "set (jobs m)"]
    by (auto simp: find_key_def find_None_iff)
  then obtain z where z: "find_key actor k m = Some z" by blast
  then have "z \<in> snd ` set (jobs m)" "Owner z = TokenID actor" "Key z = k"
    by (auto simp: find_key_def find_Some_iff in_set_conv_nth image_iff) (metis nth_map nth_mem snd_conv)+
  then obtain i' where i': "(i', z) \<in> set (jobs m)" by auto
  have "?f (i', z) = ?f (i, y)" using \<open>Owner z = _\<close> \<open>Key z = k\<close> assms(3,4) by simp
  then have "(i', z) = (i, y)" by (rule inj_onD[OF inj _ i' y])
  then show ?thesis using z by simp
qed

text \<open>
  a start is idempotent: the same client sending the same command with the same key again, after
  anything else happened in between, gets the job it already started, and nothing changes.
\<close>

theorem Start_idempotent:
  assumes "job_steps E r no_jobs m" "fresh_op (StartOp actor S req) m" "IdempotencyKey req \<noteq> []"
    and "Start E r actor S req m = (Inr info, m1)" "job_steps E r m1 m2" "\<not> closing m2" "\<not> stopped m2"
    and "start_checks E r actor S' req' = start_checks E r actor S req" "IdempotencyKey req' = IdempotencyKey req"
  shows "\<exists>info'. Start E r actor S' req' m2 = (Inr info', m2) \<and> JobId info' = JobId info"
proof -
  have "jobs_ok no_jobs" by (simp add: jobs_ok_def no_jobs_def live_jobs_def keys_ok_def)
  then have ok: "jobs_ok m" by (rule jobs_ok_steps[OF assms(1)])
  then have "jobs_ok m1" using jobs_ok_step[OF ok assms(2), of E r] assms(4) by simp
  then have ok2: "jobs_ok m2" by (rule jobs_ok_steps[OF assms(5)])
  obtain name digest i x where x: "start_checks E r actor S req = Inr (name, digest)" "lookup (jobs m1) i = Some x"
      "Info x = info" "Owner x = TokenID actor" "Key x = IdempotencyKey req" "Digest x = digest"
    using Start_answer[OF assms(4,3)] ok by (auto simp: jobs_ok_def)
  obtain y where y: "lookup (jobs m2) i = Some y" "same_job x y" using lookup_steps[OF assms(5) x(2)] by blast
  have "find_key actor (IdempotencyKey req) m2 = Some y"
    by (rule find_key_unique[OF ok2 y(1)]) (use y(2) x in \<open>simp_all add: same_job_def\<close>)
  then have "Start E r actor S' req' m2 = (Inr (Info y), m2)"
    using y(2) x assms(3,6-9) by (simp add: Start_def Let_def same_job_def)
  then show ?thesis using y(2) x(3) by (auto simp: same_job_def)
qed

definition status_command :: "nat command" where
  "status_command = \<lparr>Name = ''status'', Aliases = [], Synopsis = [], Secret = False, SecretArgs = False, Run = (\<lambda>args n. (None, n))\<rparr>"

definition sample_start :: start_env where
  "sample_start = \<lparr>fresh_id = ''J'', fresh_key = ''r'', now = 1, save_works = True, actor_active = True\<rparr>"

definition sample_request :: start_request where
  "sample_request = \<lparr>Arguments = [''status''], IdempotencyKey = ''k''\<rparr>"

lemma sample_checks:
  "start_checks sample_jobs (Register status_command NewRegistry) some_admin S sample_request = Inr (''status'', ''status'') \<longleftrightarrow> actor_active S"
  by (simp add: start_checks_def sample_request_def sample_jobs_def Format_def needs_quote_def has_space_def starts_space_def
      space_runes_def has_prefix_def Lookup_def Register_def NewRegistry_def status_command_def Authorize_def token_policy_def
      Allows_def some_admin_def)

lemma job_limits_witness:
  "(let m = job_step sample_jobs (Register status_command NewRegistry) (StartOp some_admin sample_start sample_request) no_jobs in
     running m = 1 \<and> length (filter (\<lambda>(_, j). State (Info j) = RUNNING) (jobs m)) = 1 \<and> length (jobs m) \<le> 10000)"
proof -
  have fresh: "fresh_op (StartOp some_admin sample_start sample_request) no_jobs" by (simp add: no_jobs_def)
  have checks: "start_checks sample_jobs (Register status_command NewRegistry) some_admin sample_start sample_request = Inr (''status'', ''status'')"
    using sample_checks by (simp add: sample_start_def)
  then have "running (job_step sample_jobs (Register status_command NewRegistry) (StartOp some_admin sample_start sample_request) no_jobs) = 1"
    by (simp add: Start_def Let_def no_jobs_def sample_request_def find_key_def maxConcurrent_def maxJobs_def save_job_def
        sample_start_def new_job_def)
  then show ?thesis using job_limits[OF more[OF stay fresh], of sample_jobs "Register status_command NewRegistry"] by (simp add: Let_def)
qed

lemma Start_idempotent_witness:
  "\<exists>info m1 info' m2. Start sample_jobs (Register status_command NewRegistry) some_admin sample_start sample_request no_jobs = (Inr info, m1) \<and>
     Start sample_jobs (Register status_command NewRegistry) some_admin sample_start sample_request m1 = (Inr info', m2) \<and>
     JobId info' = JobId info"
proof -
  define j where "j = new_job sample_start some_admin ''status'' ''k'' ''status''"
  have checks: "start_checks sample_jobs (Register status_command NewRegistry) some_admin sample_start sample_request = Inr (''status'', ''status'')"
    using sample_checks by (simp add: sample_start_def)
  let ?m = "no_jobs\<lparr>files := (\<lambda>_. None)(''J'' \<mapsto> saved_of j), jobs := [(''J'', j)], running := 1\<rparr>"
  have first: "Start sample_jobs (Register status_command NewRegistry) some_admin sample_start sample_request no_jobs = (Inr (Info j), ?m)"
    using checks by (simp add: Start_def Let_def no_jobs_def sample_request_def find_key_def maxConcurrent_def maxJobs_def save_job_def
        j_def sample_start_def new_job_def)
  have "fresh_op (StartOp some_admin sample_start sample_request) no_jobs" by (simp add: no_jobs_def)
  moreover have "IdempotencyKey sample_request \<noteq> []" by (simp add: sample_request_def)
  ultimately show ?thesis
    using first Start_idempotent[OF stay _ _ first stay _ _ refl refl] by (auto simp: no_jobs_def)
qed

end
