(* ===== verification/Features.thy ===== *)
theory Features
  imports PathPolicy
begin

text \<open>
  Optional parts of a build (\<open>src/server/internal/manifest/features.go\<close> and the types of
  \<open>settings.go\<close>): groups of options that a player switches on and off, each option with files, arguments
  and further groups of its own. The code checks a feature model before it publishes a build.

  Groups and options contain each other, so the Go structs are two mutually recursive datatypes with the
  fields as selectors. \<open>visit\<close> is the depth-first search for cycles of requirements; its recursion ends
  because every call but one into a leaf makes one more address active. The theorems characterise what
  is accepted: the checks of the tree by a declarative predicate, the search by acyclicity.
\<close>

section \<open>The feature model\<close>

datatype selection = SELECTION_UNSPECIFIED | SELECTION_SINGLE | SELECTION_MULTI

record meta_spec =
  SpecIcon :: string
  SpecBadge :: string
  SpecRequires :: "string list"
  SpecIncompatible :: "string list"

datatype option_spec = OptionSpec
    (SpecOptionId: string) (SpecOptionTitle: string) (SpecOptionDescription: string) (SpecDefaultEnabled: bool)
    (SpecFiles: "string list") (SpecGroups: "group_spec list") (SpecMeta: "meta_spec option")
    (SpecJvmArgs: "string list") (SpecGameArgs: "string list") (SpecClasspath: "string list")
  and group_spec = GroupSpec
    (SpecGroupId: string) (SpecGroupTitle: string) (SpecGroupDescription: string) (SpecSelection: string)
    (SpecRequired: bool) (SpecOptions: "option_spec list")

record option_meta =
  Icon :: string
  Badge :: string
  AddedSize :: "64 word"
  Requires :: "string list"
  IncompatibleWith :: "string list"

datatype feature_option = FeatureOption
    (OptionId: string) (OptionTitle: string) (OptionDescription: string) (DefaultEnabled: bool)
    (OptionFiles: "string list") (OptionGroups: "feature_group list") (Meta: "option_meta option")
    (OptionJvmArgs: "string list") (OptionGameArgs: "string list") (OptionClasspath: "string list")
  and feature_group = FeatureGroup
    (GroupId: string) (GroupTitle: string) (GroupDescription: string) (Selection: selection)
    (GroupRequired: bool) (Options: "feature_option list")

definition selectionFromString :: "(string \<Rightarrow> string) \<Rightarrow> string \<Rightarrow> selection" where
  "selectionFromString lower s =
     (let k = to_lower lower (trim_space s) in
      if k = ''single'' then SELECTION_SINGLE else if k = ''multi'' then SELECTION_MULTI else SELECTION_UNSPECIFIED)"

definition metaFromSpec :: "meta_spec \<Rightarrow> option_meta" where
  "metaFromSpec m = \<lparr>Icon = SpecIcon m, Badge = SpecBadge m, AddedSize = 0, Requires = SpecRequires m, IncompatibleWith = SpecIncompatible m\<rparr>"

fun optionFromSpec :: "(string \<Rightarrow> string) \<Rightarrow> option_spec \<Rightarrow> feature_option"
  and groupFromSpec :: "(string \<Rightarrow> string) \<Rightarrow> group_spec \<Rightarrow> feature_group" where
  "optionFromSpec lower (OptionSpec i t d e fs gs m js as cs) =
     FeatureOption i t d e fs (map (groupFromSpec lower) gs) (map_option metaFromSpec m) js as cs"
| "groupFromSpec lower (GroupSpec i t d s r opts) =
     FeatureGroup i t d (selectionFromString lower s) r (map (optionFromSpec lower) opts)"

definition featureModelFromSpec :: "(string \<Rightarrow> string) \<Rightarrow> group_spec list option \<Rightarrow> feature_group list option" where
  "featureModelFromSpec lower spec =
     (case spec of None \<Rightarrow> None | Some groups \<Rightarrow> if groups = [] then None else Some (map (groupFromSpec lower) groups))"

section \<open>Launch arguments\<close>

datatype feature_error =
    GroupWithoutId | GroupTwice string | NoSelection string | NoOptions string
  | OptionWithoutId string | OptionTwice string string
  | NoSuchFile string string string | UserWritableFile string string string | ManyDefaults string
  | NotAnOption string | ReservedJvmArg string | ValueMissing string | ReservedGameArg string
  | EmptyClasspath | BadClasspath string | ClimbingClasspath string | ForeignClasspath string
  | RefersToItself string | NoSuchOption string string | RequirementCycle string

definition reservedJvmArgs :: "string list" where
  "reservedJvmArgs =
     [''-cp'', ''-classpath'', ''--class-path'', ''-Djava.class.path'', ''-Djava.library.path'',
      ''-Dorg.lwjgl.system.SharedLibraryExtractPath'', ''-Dminecraft.launcher.brand'', ''-Dminecraft.launcher.version'',
      ''-Dauthlibinjector.side'', ''-Dauthlibinjector.yggdrasil.prefetched'']"

definition reservedGameArgs :: "string list" where
  "reservedGameArgs =
     [''--gameDir'', ''--assetsDir'', ''--assetIndex'', ''--accessToken'', ''--uuid'', ''--username'', ''--version'',
      ''--versionType'', ''--userType'', ''--clientId'', ''--xuid'']"

definition valuedJvmArgs :: "string list" where
  "valuedJvmArgs =
     [''--add-opens'', ''--add-exports'', ''--add-reads'', ''--add-modules'', ''--patch-module'',
      ''--enable-native-access'', ''--limit-modules'']"

text \<open>The part of an argument before the first separator, if anything comes before it.\<close>

definition arg_key :: "char list \<Rightarrow> string \<Rightarrow> string" where
  "arg_key seps arg = (let k = takeWhile (\<lambda>c. c \<notin> set seps) arg in if k = [] then arg else k)"

fun check_jvm :: "bool \<Rightarrow> string \<Rightarrow> string list \<Rightarrow> feature_error option" where
  "check_jvm expects previous [] = (if expects then Some (ValueMissing previous) else None)"
| "check_jvm expects previous (arg # args) =
     (if expects then check_jvm False arg args
      else if \<not> has_prefix arg ''-'' then Some (NotAnOption arg)
      else if arg_key ''=:'' arg \<in> set reservedJvmArgs then Some (ReservedJvmArg (arg_key ''=:'' arg))
      else check_jvm (arg \<in> set valuedJvmArgs) arg args)"

definition checkJvmArgs :: "string list \<Rightarrow> feature_error option" where
  "checkJvmArgs args = check_jvm False [] args"

definition checkGameArgs :: "string list \<Rightarrow> feature_error option" where
  "checkGameArgs args =
     first_err (\<lambda>arg. if arg_key ''='' arg \<in> set reservedGameArgs then Some (ReservedGameArg (arg_key ''='' arg)) else None) args"

definition validateClasspathEntry :: "string \<Rightarrow> feature_error option" where
  "validateClasspathEntry entry =
     (if entry = [] then Some EmptyClasspath
      else if list_ex (\<lambda>c. c \<in> {CHR '':'', CHR '';'', CHR 0x5C}) entry \<or> has_prefix entry ''/'' then Some (BadClasspath entry)
      else if ''..'' \<in> set (split_on CHR ''/'' entry) then Some (ClimbingClasspath entry)
      else None)"

fun or_else :: "'e option \<Rightarrow> 'e option \<Rightarrow> 'e option" where
  "or_else (Some e) f = Some e"
| "or_else None f = f"

definition validateBuildArgs :: "string list \<Rightarrow> string list \<Rightarrow> string list \<Rightarrow> feature_error option" where
  "validateBuildArgs jvm game cp =
     or_else (checkJvmArgs jvm) (or_else (checkGameArgs game) (first_err validateClasspathEntry cp))"

type_synonym policies = "string \<Rightarrow> file_policy option"

definition validateLaunchArgs :: "policies \<Rightarrow> feature_option \<Rightarrow> feature_error option" where
  "validateLaunchArgs P opt =
     or_else (checkJvmArgs (OptionJvmArgs opt)) (or_else (checkGameArgs (OptionGameArgs opt))
       (first_err (\<lambda>entry. or_else (validateClasspathEntry entry) (if P entry = None then Some (ForeignClasspath entry) else None))
          (OptionClasspath opt)))"

section \<open>Checks of the tree\<close>

definition check_file :: "policies \<Rightarrow> string \<Rightarrow> string \<Rightarrow> string \<Rightarrow> feature_error option" where
  "check_file P g opt file =
     (case P file of
        None \<Rightarrow> Some (NoSuchFile g opt file)
      | Some policy \<Rightarrow> if policy = FILE_POLICY_USER_WRITABLE then Some (UserWritableFile g opt file) else None)"

text \<open>The two nested loops of \<open>validateGroups\<close>, with the ids seen so far and the count of defaults.\<close>

fun validateGroups :: "policies \<Rightarrow> string list \<Rightarrow> feature_group list \<Rightarrow> feature_error option"
  and validate_options :: "policies \<Rightarrow> string \<Rightarrow> string list \<Rightarrow> nat \<Rightarrow> feature_option list \<Rightarrow> (feature_error, nat) result" where
  "validateGroups P seen [] = None"
| "validateGroups P seen (FeatureGroup g t d sel req opts # gs) =
     (if g = [] then Some GroupWithoutId
      else if g \<in> set seen then Some (GroupTwice g)
      else if sel = SELECTION_UNSPECIFIED then Some (NoSelection g)
      else if opts = [] then Some (NoOptions g)
      else case validate_options P g [] 0 opts of
        Inl e \<Rightarrow> Some e
      | Inr defaults \<Rightarrow>
          if sel = SELECTION_SINGLE \<and> defaults > 1 then Some (ManyDefaults g) else validateGroups P (g # seen) gs)"
| "validate_options P g seen defaults [] = Inr defaults"
| "validate_options P g seen defaults (FeatureOption i t d e fs gs m js as cs # opts) =
     (if i = [] then Inl (OptionWithoutId g)
      else if i \<in> set seen then Inl (OptionTwice g i)
      else case first_err (check_file P g i) fs of Some err \<Rightarrow> Inl err | None \<Rightarrow>
        (case validateLaunchArgs P (FeatureOption i t d e fs gs m js as cs) of Some err \<Rightarrow> Inl err | None \<Rightarrow>
          (case validateGroups P [] gs of Some err \<Rightarrow> Inl err | None \<Rightarrow>
             validate_options P g (i # seen) (if e then defaults + 1 else defaults) opts)))"

definition group_address :: "string \<Rightarrow> string \<Rightarrow> string" where
  "group_address parent g = (if parent = [] then g else parent @ ''/'' @ g)"

definition option_address :: "string \<Rightarrow> string \<Rightarrow> string \<Rightarrow> string" where
  "option_address parent g opt = group_address parent g @ ''#'' @ opt"

text \<open>All options below some groups with their addresses, in the order of the tree.\<close>

fun options_at :: "string \<Rightarrow> feature_group list \<Rightarrow> (string \<times> feature_option) list"
  and options_in :: "string \<Rightarrow> string \<Rightarrow> feature_option list \<Rightarrow> (string \<times> feature_option) list" where
  "options_at parent [] = []"
| "options_at parent (FeatureGroup g t d sel req opts # gs) = options_in parent g opts @ options_at parent gs"
| "options_in parent g [] = []"
| "options_in parent g (FeatureOption i t d e fs gs m js as cs # opts) =
     (option_address parent g i, FeatureOption i t d e fs gs m js as cs) #
     options_at (option_address parent g i) gs @ options_in parent g opts"

definition collectOptionAddresses :: "feature_group list \<Rightarrow> string list" where
  "collectOptionAddresses groups = map fst (options_at [] groups)"

definition check_reference :: "string list \<Rightarrow> string \<Rightarrow> string \<Rightarrow> feature_error option" where
  "check_reference known address ref =
     (if ref = address then Some (RefersToItself address)
      else if ref \<notin> set known then Some (NoSuchOption address ref) else None)"

definition validateConstraints :: "string list \<Rightarrow> feature_group list \<Rightarrow> feature_error option" where
  "validateConstraints known groups =
     first_err (\<lambda>(address, opt).
         case Meta opt of None \<Rightarrow> None
         | Some m \<Rightarrow> first_err (check_reference known address) (Requires m @ IncompatibleWith m))
       (options_at [] groups)"

section \<open>Cycles of requirements\<close>

type_synonym dependencies = "(string, string list) amap"

definition dependencies_of :: "feature_group list \<Rightarrow> dependencies" where
  "dependencies_of groups =
     fold (\<lambda>(address, opt) m. case Meta opt of None \<Rightarrow> m | Some x \<Rightarrow> store address (Requires x) m) (options_at [] groups) []"

definition requires :: "dependencies \<Rightarrow> string \<Rightarrow> string list" where
  "requires deps a = (case lookup deps a of None \<Rightarrow> [] | Some rs \<Rightarrow> rs)"

text \<open>The addresses with requirements that are not on the active path bound the depth of the search.\<close>

definition inactive :: "dependencies \<Rightarrow> string list \<Rightarrow> nat" where
  "inactive deps active = card (dom (lookup deps) - set active)"

lemma inactive_less: "a \<notin> set active \<Longrightarrow> requires deps a \<noteq> [] \<Longrightarrow> inactive deps (a # active) < inactive deps active"
  unfolding inactive_def by (rule psubset_card_mono) (auto simp: requires_def finite_dom_map_of split: option.splits)

lemma inactive_le: "inactive deps (a # active) \<le> inactive deps active"
  unfolding inactive_def by (rule card_mono) (auto simp: finite_dom_map_of)

text \<open>\<open>visit\<close> with the active path and the visited addresses; \<open>Inl\<close> is the address that closes a cycle.\<close>

function visit :: "dependencies \<Rightarrow> string list \<Rightarrow> string list \<Rightarrow> string \<Rightarrow> (string, string list) result"
  and visit_list :: "dependencies \<Rightarrow> string list \<Rightarrow> string list \<Rightarrow> string list \<Rightarrow> (string, string list) result" where
  "visit deps active visited a =
     (if a \<in> set active then Inl a
      else if a \<in> set visited then Inr visited
      else case visit_list deps (a # active) visited (requires deps a) of
        Inl e \<Rightarrow> Inl e
      | Inr visited \<Rightarrow> Inr (a # visited))"
| "visit_list deps active visited [] = Inr visited"
| "visit_list deps active visited (a # as) =
     (case visit deps active visited a of Inl e \<Rightarrow> Inl e | Inr visited \<Rightarrow> visit_list deps active visited as)"
  by pat_completeness auto

termination
proof (relation "inv_image (less_than <*lex*> less_than)
    (\<lambda>x. case x of Inl (deps, active, visited, a) \<Rightarrow> (inactive deps active, 1)
       | Inr (deps, active, visited, as) \<Rightarrow> (inactive deps active, 2 * length as))", goal_cases)
  case 1
  then show ?case by auto
next
  case (2 deps active visited a)
  then show ?case using inactive_less[of a active deps] inactive_le[of deps a active]
    by (cases "requires deps a = []") auto
qed auto

declare visit.simps [simp del]

text \<open>The range over the map visits the addresses in some order; \<open>order\<close> is that order.\<close>

definition validateRequirementCycles :: "string list \<Rightarrow> feature_group list \<Rightarrow> feature_error option" where
  "validateRequirementCycles order groups =
     (case visit_list (dependencies_of groups) [] [] order of Inl a \<Rightarrow> Some (RequirementCycle a) | Inr _ \<Rightarrow> None)"

definition validateFeatures :: "string list \<Rightarrow> policies \<Rightarrow> feature_group list option \<Rightarrow> feature_error option" where
  "validateFeatures order P model =
     (case model of
        None \<Rightarrow> None
      | Some groups \<Rightarrow>
          or_else (validateGroups P [] groups)
            (or_else (validateConstraints (collectOptionAddresses groups) groups) (validateRequirementCycles order groups)))"

section \<open>Added sizes\<close>

definition added_size :: "(string \<Rightarrow> 64 word) \<Rightarrow> string list \<Rightarrow> 64 word" where
  "added_size sizes fs = sum_list (map sizes fs)"

fun computeAddedSizes :: "(string \<Rightarrow> 64 word) \<Rightarrow> feature_group \<Rightarrow> feature_group"
  and size_option :: "(string \<Rightarrow> 64 word) \<Rightarrow> feature_option \<Rightarrow> feature_option" where
  "computeAddedSizes sizes (FeatureGroup g t d sel req opts) = FeatureGroup g t d sel req (map (size_option sizes) opts)"
| "size_option sizes (FeatureOption i t d e fs gs m js as cs) =
     FeatureOption i t d e fs (map (computeAddedSizes sizes) gs)
       (Some ((case m of None \<Rightarrow> \<lparr>Icon = [], Badge = [], AddedSize = 0, Requires = [], IncompatibleWith = []\<rparr> | Some m \<Rightarrow> m)
          \<lparr>AddedSize := added_size sizes fs\<rparr>)) js as cs"

section \<open>What the checks of the tree accept\<close>

fun wf_group :: "policies \<Rightarrow> feature_group \<Rightarrow> bool"
  and wf_option :: "policies \<Rightarrow> feature_option \<Rightarrow> bool" where
  "wf_group P (FeatureGroup g t d sel req opts) \<longleftrightarrow>
     g \<noteq> [] \<and> sel \<noteq> SELECTION_UNSPECIFIED \<and> opts \<noteq> [] \<and> distinct (map OptionId opts) \<and>
     (sel = SELECTION_SINGLE \<longrightarrow> length (filter DefaultEnabled opts) \<le> 1) \<and> (\<forall>opt \<in> set opts. wf_option P opt)"
| "wf_option P (FeatureOption i t d e fs gs m js as cs) \<longleftrightarrow>
     i \<noteq> [] \<and> (\<forall>f \<in> set fs. P f \<noteq> None \<and> P f \<noteq> Some FILE_POLICY_USER_WRITABLE) \<and>
     validateLaunchArgs P (FeatureOption i t d e fs gs m js as cs) = None \<and>
     distinct (map GroupId gs) \<and> (\<forall>g \<in> set gs. wf_group P g)"

lemma check_file_None: "check_file P g i f = None \<longleftrightarrow> P f \<noteq> None \<and> P f \<noteq> Some FILE_POLICY_USER_WRITABLE"
  by (auto simp: check_file_def split: option.splits)

lemma or_else_None [simp]: "or_else a b = None \<longleftrightarrow> a = None \<and> b = None"
  by (cases a) simp_all

lemma validate_iff:
  "validateGroups P seen gs = None \<longleftrightarrow>
     distinct (map GroupId gs) \<and> GroupId ` set gs \<inter> set seen = {} \<and> (\<forall>g \<in> set gs. wf_group P g)"
  "validate_options P g seen' n opts = Inr k \<longleftrightarrow>
     distinct (map OptionId opts) \<and> OptionId ` set opts \<inter> set seen' = {} \<and> (\<forall>opt \<in> set opts. wf_option P opt) \<and>
     k = n + length (filter DefaultEnabled opts)"
proof (induction P seen gs and P g seen' n opts arbitrary: and k rule: validateGroups_validate_options.induct)
  case (2 P seen g t d sel req opts gs)
  show ?case
  proof (cases "g = [] \<or> g \<in> set seen \<or> sel = SELECTION_UNSPECIFIED \<or> opts = []")
    case True
    then show ?thesis by auto
  next
    case False
    then have opts: "validate_options P g [] 0 opts = Inr k \<longleftrightarrow>
        distinct (map OptionId opts) \<and> (\<forall>opt \<in> set opts. wf_option P opt) \<and> k = length (filter DefaultEnabled opts)" for k
      using "2.IH"(1) by simp
    show ?thesis
    proof (cases "validate_options P g [] 0 opts")
      case (Inl e)
      then show ?thesis using opts False by auto
    next
      case (Inr k)
      then have k: "distinct (map OptionId opts)" "\<forall>opt \<in> set opts. wf_option P opt" "k = length (filter DefaultEnabled opts)"
        using opts by blast+
      show ?thesis
      proof (cases "sel = SELECTION_SINGLE \<and> k > 1")
        case True
        then show ?thesis using False Inr k by auto
      next
        case ok: False
        have rest: "validateGroups P (g # seen) gs = None \<longleftrightarrow>
            distinct (map GroupId gs) \<and> GroupId ` set gs \<inter> set (g # seen) = {} \<and> (\<forall>g \<in> set gs. wf_group P g)"
          using "2.IH"(2) False Inr ok by auto
        have step: "validateGroups P seen (FeatureGroup g t d sel req opts # gs) = validateGroups P (g # seen) gs"
          using False Inr ok by auto
        show ?thesis unfolding step rest using False ok k by auto
      qed
    qed
  qed
next
  case (4 P g seen n i t d e fs gs m js as cs opts)
  let ?o = "FeatureOption i t d e fs gs m js as cs"
  show ?case
  proof (cases "i = [] \<or> i \<in> set seen \<or> first_err (check_file P g i) fs \<noteq> None \<or> validateLaunchArgs P ?o \<noteq> None")
    case True
    then show ?thesis by (auto simp: check_file_None split: option.splits)
  next
    case False
    then have checks: "first_err (check_file P g i) fs = None" "validateLaunchArgs P ?o = None" by blast+
    have groups: "validateGroups P [] gs = None \<longleftrightarrow> distinct (map GroupId gs) \<and> (\<forall>g \<in> set gs. wf_group P g)"
      using "4.IH"(1) False by simp
    show ?thesis
    proof (cases "validateGroups P [] gs")
      case None
      have rest: "validate_options P g (i # seen) (if e then n + 1 else n) opts = Inr k \<longleftrightarrow>
          distinct (map OptionId opts) \<and> OptionId ` set opts \<inter> set (i # seen) = {} \<and> (\<forall>opt \<in> set opts. wf_option P opt) \<and>
          k = (if e then n + 1 else n) + length (filter DefaultEnabled opts)"
        using "4.IH"(2) False None by simp
      have step: "validate_options P g seen n (?o # opts) = validate_options P g (i # seen) (if e then n + 1 else n) opts"
        unfolding validate_options.simps checks None using False by simp
      have "wf_option P ?o" using False None groups by (auto simp: check_file_None)
      then show ?thesis unfolding step rest using False by auto
    next
      case (Some err)
      have "validate_options P g seen n (?o # opts) = Inl err"
        unfolding validate_options.simps checks Some using False by simp
      moreover have "\<not> wf_option P ?o" using Some groups by auto
      ultimately show ?thesis by auto
    qed
  qed
qed auto

section \<open>What the search for cycles accepts\<close>

definition requirement :: "dependencies \<Rightarrow> (string \<times> string) set" where
  "requirement deps = {(a, b). b \<in> set (requires deps a)}"

text \<open>The visited addresses are in topological order, the newest first.\<close>

fun topological :: "dependencies \<Rightarrow> string list \<Rightarrow> bool" where
  "topological deps [] \<longleftrightarrow> True"
| "topological deps (v # vs) \<longleftrightarrow> set (requires deps v) \<subseteq> set vs \<and> v \<notin> set vs \<and> topological deps vs"

lemma visit_ok:
  "visit deps active visited a = Inr vs \<Longrightarrow> topological deps visited \<Longrightarrow> set active \<inter> set visited = {} \<Longrightarrow>
     topological deps vs \<and> insert a (set visited) \<subseteq> set vs \<and> set active \<inter> set vs = {}"
  "visit_list deps active visited as = Inr vs \<Longrightarrow> topological deps visited \<Longrightarrow> set active \<inter> set visited = {} \<Longrightarrow>
     topological deps vs \<and> set as \<union> set visited \<subseteq> set vs \<and> set active \<inter> set vs = {}"
proof (induction deps active visited a and deps active visited as arbitrary: vs and vs rule: visit_visit_list.induct)
  case (1 deps active visited a)
  show ?case
  proof (cases "a \<in> set active \<or> a \<in> set visited")
    case True
    then show ?thesis using "1.prems" by (auto simp: visit.simps[of deps active visited a] split: if_splits)
  next
    case False
    then obtain vs' where vs': "visit_list deps (a # active) visited (requires deps a) = Inr vs'" "vs = a # vs'"
      using "1.prems"(1) by (auto simp: visit.simps[of deps active visited a] split: sum.splits)
    have "topological deps vs' \<and> set (requires deps a) \<union> set visited \<subseteq> set vs' \<and> set (a # active) \<inter> set vs' = {}"
      by (rule "1.IH"[OF _ _ vs'(1) "1.prems"(2)]) (use False "1.prems"(3) in auto)
    then show ?thesis using False vs'(2) by auto
  qed
next
  case (3 deps active visited a as)
  obtain v1 where v1: "visit deps active visited a = Inr v1" "visit_list deps active v1 as = Inr vs"
    using "3.prems"(1) by (auto split: sum.splits)
  have one: "topological deps v1 \<and> insert a (set visited) \<subseteq> set v1 \<and> set active \<inter> set v1 = {}"
    by (rule "3.IH"(1)[OF v1(1) "3.prems"(2,3)])
  have "topological deps vs \<and> set as \<union> set v1 \<subseteq> set vs \<and> set active \<inter> set vs = {}"
    by (rule "3.IH"(2)[OF v1]) (use one in auto)
  then show ?case using one by auto
qed auto

lemma topological_acyclic:
  assumes "topological deps vs" "\<And>a. requires deps a \<noteq> [] \<Longrightarrow> a \<in> set vs"
  shows "acyclic (requirement deps)"
proof -
  define rank where "rank a = length (dropWhile (\<lambda>v. v \<noteq> a) vs)" for a
  have less: "topological deps us \<Longrightarrow> a \<in> set us \<Longrightarrow> b \<in> set (requires deps a) \<Longrightarrow>
      length (dropWhile (\<lambda>v. v \<noteq> b) us) < length (dropWhile (\<lambda>v. v \<noteq> a) us)" for us a b
  proof (induction us)
    case (Cons u us)
    show ?case
    proof (cases "u = a")
      case True
      then have "b \<in> set us" "b \<noteq> u" using Cons.prems by auto
      then show ?thesis using True length_dropWhile_le[of "\<lambda>v. v \<noteq> b" us] by simp
    next
      case False
      then have "a \<in> set us" "topological deps us" using Cons.prems by auto
      moreover have "b \<in> set us" using calculation Cons.prems(3) by (induction us) auto
      ultimately show ?thesis using Cons.IH Cons.prems False by auto
    qed
  qed simp
  have "(requirement deps)\<inverse> \<subseteq> measure rank"
  proof
    fix x assume "x \<in> (requirement deps)\<inverse>"
    then obtain a b where x: "x = (b, a)" "b \<in> set (requires deps a)" by (auto simp: requirement_def)
    then have "a \<in> set vs" using assms(2) by force
    then show "x \<in> measure rank" using less[OF assms(1) _ x(2)] by (simp add: x(1) rank_def)
  qed
  then have "wf ((requirement deps)\<inverse>)" by (rule wf_subset[OF wf_measure])
  then show ?thesis using wf_acyclic acyclic_converse by blast
qed

fun chain :: "dependencies \<Rightarrow> string list \<Rightarrow> bool" where
  "chain deps [] \<longleftrightarrow> True"
| "chain deps (x # xs) \<longleftrightarrow> (xs = [] \<or> x \<in> set (requires deps (hd xs))) \<and> chain deps xs"

lemma chain_reach: "chain deps active \<Longrightarrow> x \<in> set active \<Longrightarrow> (x, hd active) \<in> (requirement deps)\<^sup>*"
proof (induction active)
  case (Cons y ys)
  show ?case
  proof (cases "x = y")
    case False
    then have "x \<in> set ys" using Cons.prems(2) by simp
    then have "(x, hd ys) \<in> (requirement deps)\<^sup>*" "(hd ys, y) \<in> requirement deps"
      using Cons by (auto simp: requirement_def)
    then show ?thesis by (simp add: rtrancl.rtrancl_into_rtrancl)
  qed simp
qed simp

lemma visit_cycle:
  "visit deps active visited a = Inl c \<Longrightarrow> chain deps active \<Longrightarrow> active = [] \<or> a \<in> set (requires deps (hd active)) \<Longrightarrow>
     (c, c) \<in> (requirement deps)\<^sup>+"
  "visit_list deps active visited as = Inl c \<Longrightarrow> chain deps active \<Longrightarrow> active = [] \<or> set as \<subseteq> set (requires deps (hd active)) \<Longrightarrow>
     (c, c) \<in> (requirement deps)\<^sup>+"
proof (induction deps active visited a and deps active visited as rule: visit_visit_list.induct)
  case (1 deps active visited a)
  show ?case
  proof (cases "a \<in> set active")
    case True
    then have "c = a" using "1.prems"(1) by (simp add: visit.simps[of deps active visited a])
    moreover have "(a, hd active) \<in> (requirement deps)\<^sup>*" by (rule chain_reach[OF "1.prems"(2) True])
    moreover have "(hd active, a) \<in> requirement deps" using "1.prems"(3) True by (auto simp: requirement_def)
    ultimately show ?thesis by (simp add: rtrancl_into_trancl1)
  next
    case False
    then have new: "a \<notin> set visited" "visit_list deps (a # active) visited (requires deps a) = Inl c"
      using "1.prems"(1) by (auto simp: visit.simps[of deps active visited a] split: if_splits sum.splits)
    show ?thesis by (rule "1.IH"[OF False new]) (use "1.prems" in auto)
  qed
next
  case (3 deps active visited a as)
  show ?case
  proof (cases "visit deps active visited a")
    case (Inl e)
    then show ?thesis using "3.IH"(1)[of ] "3.prems" by auto
  next
    case (Inr v1)
    then show ?thesis using "3.IH"(2)[OF Inr] "3.prems" by auto
  qed
qed auto

lemma cycles_iff:
  assumes "set order = dom (lookup (dependencies_of groups))"
  shows "validateRequirementCycles order groups = None \<longleftrightarrow> acyclic (requirement (dependencies_of groups))"
proof (cases "visit_list (dependencies_of groups) [] [] order")
  case (Inl c)
  then have "(c, c) \<in> (requirement (dependencies_of groups))\<^sup>+" using visit_cycle(2)[OF Inl] by simp
  then show ?thesis by (auto simp: validateRequirementCycles_def Inl acyclic_def)
next
  case (Inr vs)
  then have vs: "topological (dependencies_of groups) vs" "set order \<subseteq> set vs" using visit_ok(2)[OF Inr] by simp_all
  have "a \<in> set vs" if "requires (dependencies_of groups) a \<noteq> []" for a
    using that vs(2) assms by (auto simp: requires_def split: option.splits)
  then show ?thesis using topological_acyclic[OF vs(1)] by (simp add: validateRequirementCycles_def Inr)
qed

text \<open>
  C38: A feature model is accepted exactly when it is well formed: ids are there and unique among
  siblings, every group has options and a kind of selection, a single choice has at most one default,
  every file of an option is in the build and not for the player to change, its arguments are safe,
  every reference names another existing option, and the requirements have no cycle; whatever the
  order in which the map of requirements is searched.
\<close>

theorem features_accepted:
  assumes "set order = dom (lookup (dependencies_of groups))"
  shows "validateFeatures order P (Some groups) = None \<longleftrightarrow>
    distinct (map GroupId groups) \<and> (\<forall>g \<in> set groups. wf_group P g) \<and>
    (\<forall>(address, opt) \<in> set (options_at [] groups). \<forall>m. Meta opt = Some m \<longrightarrow>
       (\<forall>ref \<in> set (Requires m) \<union> set (IncompatibleWith m). ref \<noteq> address \<and> ref \<in> fst ` set (options_at [] groups))) \<and>
    acyclic {(a, b). b \<in> set (requires (dependencies_of groups) a)}"
proof -
  have one: "(case Meta opt of None \<Rightarrow> None | Some m \<Rightarrow> first_err (check_reference known a) (Requires m @ IncompatibleWith m)) = None \<longleftrightarrow>
      (\<forall>m. Meta opt = Some m \<longrightarrow> (\<forall>ref \<in> set (Requires m) \<union> set (IncompatibleWith m). ref \<noteq> a \<and> ref \<in> set known))" for opt a known
    by (auto simp: check_reference_def split: option.splits if_splits)
  have "validateConstraints (collectOptionAddresses groups) groups = None \<longleftrightarrow>
    (\<forall>(address, opt) \<in> set (options_at [] groups). \<forall>m. Meta opt = Some m \<longrightarrow>
       (\<forall>ref \<in> set (Requires m) \<union> set (IncompatibleWith m). ref \<noteq> address \<and> ref \<in> fst ` set (options_at [] groups)))"
    unfolding validateConstraints_def first_err_None case_prod_unfold one collectOptionAddresses_def set_map ..
  then show ?thesis
    using validate_iff(1)[of P "[]" groups] cycles_iff[OF assms]
    by (simp add: validateFeatures_def requirement_def)
qed

definition sample_groups :: "feature_group list" where
  "sample_groups = [FeatureGroup ''g'' [] [] SELECTION_SINGLE False
     [FeatureOption ''a'' [] [] True [''mods/a.jar''] [] (Some \<lparr>Icon = [], Badge = [], AddedSize = 0, Requires = [''g#b''], IncompatibleWith = []\<rparr>) [] [] [],
      FeatureOption ''b'' [] [] False [] [] (Some \<lparr>Icon = [], Badge = [], AddedSize = 0, Requires = [], IncompatibleWith = []\<rparr>) [''-Xmx2G''] [] []]]"

lemma features_accepted_witness:
  "validateFeatures [''g#b'', ''g#a''] (\<lambda>f. if f = ''mods/a.jar'' then Some FILE_POLICY_UNSPECIFIED else None) (Some sample_groups) = None \<and>
   acyclic {(a, b). b \<in> set (requires (dependencies_of sample_groups) a)}"
proof -
  let ?P = "\<lambda>f. if f = ''mods/a.jar'' then Some FILE_POLICY_UNSPECIFIED else None"
  have ok: "validateFeatures [''g#b'', ''g#a''] ?P (Some sample_groups) = None" by code_simp
  have deps: "dependencies_of sample_groups = [(''g#a'', [''g#b'']), (''g#b'', [])]" by code_simp
  have "set [''g#b'', ''g#a''] = dom (lookup (dependencies_of sample_groups))" unfolding deps by (auto split: if_splits)
  from features_accepted[OF this, of ?P] show ?thesis using ok by blast
qed

end
