(* ===== verification/Storage.thy ===== *)
theory Storage
  imports SafePath
begin

text \<open>
  The package \<open>storage\<close>: the content-addressed store \<open>CAS\<close> (\<open>cas.go\<close>), the contract of a backend
  (\<open>storage.go\<close>) and the file-system backend (\<open>fs.go\<close>). The files of a build live there under the hash
  of their content.

  The state \<open>'b\<close> of a backend is whatever it keeps. A file on disk may change while it is published,
  so \<open>cas_PutFile\<close> takes the contents of its first read and of the one that stores it. The hash functions are parameters; a
  key is cut out of the hexadecimal hash by fixed positions, and the panic on a hash that is too short
  is the error \<open>KeyPanic\<close>. The file-system backend writes a temporary file and renames it, so a call
  either changes one object whole or nothing; its state holds a script of the disk's failures.
\<close>

section \<open>Hashes and keys\<close>

datatype hash_algo = HASH_ALGO_UNSPECIFIED | HASH_ALGO_BLAKE3 | HASH_ALGO_SHA256 | HASH_ALGO_SHA1 | HASH_ALGO_OTHER int

record hash =
  Algo :: hash_algo
  Value :: string

record object_ref =
  RefHash :: "hash option"
  RefSize :: "64 word"

record hashes =
  blake3 :: "string \<Rightarrow> string"
  sha256_sum :: "string \<Rightarrow> string"

definition hex_digit :: "nat \<Rightarrow> char" where
  "hex_digit n = ''0123456789abcdef'' ! n"

definition hex_byte :: "char \<Rightarrow> string" where
  "hex_byte c = [hex_digit (of_char c div 16), hex_digit (of_char c mod 16)]"

definition hex_encode :: "string \<Rightarrow> string" where
  "hex_encode s = concat (map hex_byte s)"

fun algoName :: "hash_algo \<Rightarrow> string" where
  "algoName HASH_ALGO_BLAKE3 = ''blake3''"
| "algoName HASH_ALGO_SHA256 = ''sha256''"
| "algoName HASH_ALGO_SHA1 = ''sha1''"
| "algoName _ = ''unknown''"

text \<open>\<open>None\<close> is the panic of the slices on fewer than two bytes.\<close>

definition ObjectKey :: "hash_algo \<Rightarrow> string \<Rightarrow> string option" where
  "ObjectKey algo v =
     (let encoded = hex_encode v in
      if length encoded < 4 then None
      else Some (algoName algo @ ''/'' @ take 2 encoded @ ''/'' @ take 2 (drop 2 encoded) @ ''/'' @ encoded))"

fun newHasher :: "hashes \<Rightarrow> hash_algo \<Rightarrow> (string \<Rightarrow> string) option" where
  "newHasher H HASH_ALGO_BLAKE3 = Some (blake3 H)"
| "newHasher H HASH_ALGO_SHA256 = Some (sha256_sum H)"
| "newHasher H _ = None"

section \<open>Backends\<close>

datatype location = LocationInternal string | LocationURL string

datatype backend_error = BackendFailed string | ObjectMismatch

record 'b backend =
  b_put :: "string \<Rightarrow> string \<Rightarrow> 'b \<Rightarrow> backend_error option \<times> 'b"
  b_get :: "string \<Rightarrow> 'b \<Rightarrow> (backend_error, string) result \<times> 'b"
  b_stat :: "string \<Rightarrow> 'b \<Rightarrow> (backend_error, nat option) result \<times> 'b"
  b_delete :: "string \<Rightarrow> 'b \<Rightarrow> backend_error option \<times> 'b"
  b_locate :: "string \<Rightarrow> 'b \<Rightarrow> (backend_error, location) result \<times> 'b"
  b_file_source :: "(string \<Rightarrow> string option \<Rightarrow> (string \<Rightarrow> backend_error option) \<Rightarrow> 'b \<Rightarrow> backend_error option \<times> 'b) option"
  b_locate_named :: "(string \<Rightarrow> string \<Rightarrow> 'b \<Rightarrow> (backend_error, location) result \<times> 'b) option"

definition LocateNamed :: "'b backend \<Rightarrow> string \<Rightarrow> string \<Rightarrow> 'b \<Rightarrow> (backend_error, location) result \<times> 'b" where
  "LocateNamed B key filename w =
     (case b_locate_named B of
        Some named \<Rightarrow> if filename \<noteq> [] then named key filename w else b_locate B key w
      | None \<Rightarrow> b_locate B key w)"

text \<open>The registry of backends by name; an absent configuration is an empty object.\<close>

datatype build_error = NoSuchBackend string "string list" | FactoryError string

definition BackendNames :: "(string, 'f) amap \<Rightarrow> string list" where
  "BackendNames factories = sort (map fst factories)"

definition BuildBackend ::
    "(string, string \<Rightarrow> (string, 'b backend) result) amap \<Rightarrow> string \<Rightarrow> string \<Rightarrow> (build_error, 'b backend) result" where
  "BuildBackend factories name config =
     (case lookup factories name of
        None \<Rightarrow> Inl (NoSuchBackend name (BackendNames factories))
      | Some factory \<Rightarrow>
          (case factory (if config = [] then ''{}'' else config) of
             Inl e \<Rightarrow> Inl (FactoryError e)
           | Inr B \<Rightarrow> Inr B))"

section \<open>The content-addressed store\<close>

record 'b cas =
  backend_of :: "'b backend"
  cas_algo :: hash_algo

definition NewCAS :: "'b backend \<Rightarrow> hash_algo \<Rightarrow> 'b cas" where
  "NewCAS B algo = \<lparr>backend_of = B, cas_algo = (if algo = HASH_ALGO_UNSPECIFIED then HASH_ALGO_BLAKE3 else algo)\<rparr>"

datatype cas_error = UnknownAlgo | ReadError string | Backend backend_error | KeyPanic
  | ChangedWhilePublished "backend_error option"

definition objectRef :: "hash_algo \<Rightarrow> string \<Rightarrow> nat \<Rightarrow> object_ref" where
  "objectRef algo v n = \<lparr>RefHash = Some \<lparr>Algo = algo, Value = v\<rparr>, RefSize = of_nat n\<rparr>"

definition exists_object :: "'b cas \<Rightarrow> string \<Rightarrow> 'b \<Rightarrow> (backend_error, bool) result \<times> 'b" where
  "exists_object c key w =
     (case b_stat (backend_of c) key w of
        (Inl e, w) \<Rightarrow> (Inl e, w)
      | (Inr found, w) \<Rightarrow> (Inr (found \<noteq> None), w))"

text \<open>\<open>Put\<close> from a reader: the staged bytes, or the error of staging them.\<close>

definition cas_Put :: "hashes \<Rightarrow> 'b cas \<Rightarrow> (string, string) result \<Rightarrow> 'b \<Rightarrow> (cas_error, object_ref) result \<times> 'b" where
  "cas_Put H c staged w =
     (case newHasher H (cas_algo c) of
        None \<Rightarrow> (Inl UnknownAlgo, w)
      | Some h \<Rightarrow>
          (case staged of
             Inl e \<Rightarrow> (Inl (ReadError e), w)
           | Inr data \<Rightarrow>
               (case ObjectKey (cas_algo c) (h data) of
                  None \<Rightarrow> (Inl KeyPanic, w)
                | Some key \<Rightarrow>
                    (case exists_object c key w of
                       (Inl e, w) \<Rightarrow> (Inl (Backend e), w)
                     | (Inr True, w) \<Rightarrow> (Inr (objectRef (cas_algo c) (h data) (length data)), w)
                     | (Inr False, w) \<Rightarrow>
                         (case b_put (backend_of c) key data w of
                            (Some e, w) \<Rightarrow> (Inl (Backend e), w)
                          | (None, w) \<Rightarrow> (Inr (objectRef (cas_algo c) (h data) (length data)), w))))))"

definition matches_sum :: "(string \<Rightarrow> string) \<Rightarrow> string \<Rightarrow> nat \<Rightarrow> string \<Rightarrow> backend_error option" where
  "matches_sum h v n data = (if length data \<noteq> n \<or> h data \<noteq> v then Some ObjectMismatch else None)"

text \<open>\<open>streamFile\<close>: the backend takes what is read now; a different hash deletes the object again.\<close>

definition streamFile ::
    "(string \<Rightarrow> string) \<Rightarrow> 'b cas \<Rightarrow> string \<Rightarrow> string option \<Rightarrow> string \<Rightarrow> 'b \<Rightarrow> cas_error option \<times> 'b" where
  "streamFile h c key reread v w =
     (case reread of
        None \<Rightarrow> (Some (ReadError ''open''), w)
      | Some data \<Rightarrow>
          (case b_put (backend_of c) key data w of
             (Some e, w) \<Rightarrow> (Some (Backend e), w)
           | (None, w) \<Rightarrow>
               if h data = v then (None, w)
               else (case b_delete (backend_of c) key w of (e, w) \<Rightarrow> (Some (ChangedWhilePublished e), w))))"

definition storeFile ::
    "(string \<Rightarrow> string) \<Rightarrow> 'b cas \<Rightarrow> string \<Rightarrow> string option \<Rightarrow> string \<Rightarrow> nat \<Rightarrow> 'b \<Rightarrow> cas_error option \<times> 'b" where
  "storeFile h c key reread v n w =
     (case b_file_source (backend_of c) of
        None \<Rightarrow> streamFile h c key reread v w
      | Some put_from_file \<Rightarrow>
          (case put_from_file key reread (matches_sum h v n) w of
             (None, w) \<Rightarrow> (None, w)
           | (Some ObjectMismatch, w) \<Rightarrow> (Some (ChangedWhilePublished None), w)
           | (Some e, w) \<Rightarrow> (Some (Backend e), w)))"

definition cas_PutFile ::
    "hashes \<Rightarrow> 'b cas \<Rightarrow> string option \<Rightarrow> string option \<Rightarrow> 'b \<Rightarrow> (cas_error, object_ref) result \<times> 'b" where
  "cas_PutFile H c first reread w =
     (case newHasher H (cas_algo c) of
        None \<Rightarrow> (Inl UnknownAlgo, w)
      | Some h \<Rightarrow>
          (case first of
             None \<Rightarrow> (Inl (ReadError ''open''), w)
           | Some data \<Rightarrow>
               (case ObjectKey (cas_algo c) (h data) of
                  None \<Rightarrow> (Inl KeyPanic, w)
                | Some key \<Rightarrow>
                    (case exists_object c key w of
                       (Inl e, w) \<Rightarrow> (Inl (Backend e), w)
                     | (Inr True, w) \<Rightarrow> (Inr (objectRef (cas_algo c) (h data) (length data)), w)
                     | (Inr False, w) \<Rightarrow>
                         (case storeFile h c key reread (h data) (length data) w of
                            (Some e, w) \<Rightarrow> (Inl e, w)
                          | (None, w) \<Rightarrow> (Inr (objectRef (cas_algo c) (h data) (length data)), w))))))"

definition cas_Get :: "'b cas \<Rightarrow> hash \<Rightarrow> 'b \<Rightarrow> (cas_error, string) result \<times> 'b" where
  "cas_Get c ref w =
     (case ObjectKey (Algo ref) (Value ref) of
        None \<Rightarrow> (Inl KeyPanic, w)
      | Some key \<Rightarrow> (case b_get (backend_of c) key w of (Inl e, w) \<Rightarrow> (Inl (Backend e), w) | (Inr d, w) \<Rightarrow> (Inr d, w)))"

definition cas_Locate :: "'b cas \<Rightarrow> hash \<Rightarrow> 'b \<Rightarrow> (cas_error, location) result \<times> 'b" where
  "cas_Locate c ref w =
     (case ObjectKey (Algo ref) (Value ref) of
        None \<Rightarrow> (Inl KeyPanic, w)
      | Some key \<Rightarrow> (case b_locate (backend_of c) key w of (Inl e, w) \<Rightarrow> (Inl (Backend e), w) | (Inr l, w) \<Rightarrow> (Inr l, w)))"

section \<open>The file-system backend\<close>

text \<open>The files below the root by path, and whether each of the next calls of the disk fails.\<close>

record fs_state =
  file_at :: "string \<Rightarrow> string option"
  faults :: "bool list"

record fs_config =
  fs_root :: string
  xaccelPrefix :: string

definition fault :: "fs_state \<Rightarrow> bool \<times> fs_state" where
  "fault w = (case faults w of [] \<Rightarrow> (False, w) | f # fs \<Rightarrow> (f, w\<lparr>faults := fs\<rparr>))"

text \<open>\<open>newFS\<close> on the decoded configuration; \<open>made\<close> is whether the root could be created.\<close>

definition newFS :: "fs_config option \<Rightarrow> bool \<Rightarrow> (string, fs_config) result" where
  "newFS cfg made =
     (case cfg of
        None \<Rightarrow> Inl ''json''
      | Some cfg \<Rightarrow>
          if fs_root cfg = [] then Inl ''no root''
          else if \<not> made then Inl ''mkdir''
          else Inr (cfg\<lparr>xaccelPrefix := (if xaccelPrefix cfg = [] then ''/_objects'' else xaccelPrefix cfg)\<rparr>))"

definition resolve :: "fs_config \<Rightarrow> string \<Rightarrow> string" where
  "resolve b key = path_join [fs_root b, key]"

definition stage :: "fs_config \<Rightarrow> string \<Rightarrow> (backend_error, string) result \<Rightarrow> fs_state \<Rightarrow> backend_error option \<times> fs_state" where
  "stage b key written w =
     (case fault w of
        (True, w) \<Rightarrow> (Some (BackendFailed ''disk''), w)
      | (False, w) \<Rightarrow>
          (case written of
             Inl e \<Rightarrow> (Some e, w)
           | Inr data \<Rightarrow> (None, w\<lparr>file_at := (file_at w)(resolve b key \<mapsto> data)\<rparr>)))"

definition fs_Put :: "fs_config \<Rightarrow> string \<Rightarrow> string \<Rightarrow> fs_state \<Rightarrow> backend_error option \<times> fs_state" where
  "fs_Put b key data w = stage b key (Inr data) w"

definition fs_PutFromFile ::
    "fs_config \<Rightarrow> string \<Rightarrow> string option \<Rightarrow> (string \<Rightarrow> backend_error option) \<Rightarrow> fs_state \<Rightarrow> backend_error option \<times> fs_state" where
  "fs_PutFromFile b key src verify w =
     stage b key
       (case src of
          None \<Rightarrow> Inl (BackendFailed ''open'')
        | Some data \<Rightarrow> (case verify data of Some e \<Rightarrow> Inl e | None \<Rightarrow> Inr data)) w"

definition fs_Get :: "fs_config \<Rightarrow> string \<Rightarrow> fs_state \<Rightarrow> (backend_error, string) result \<times> fs_state" where
  "fs_Get b key w =
     (case fault w of
        (True, w) \<Rightarrow> (Inl (BackendFailed ''disk''), w)
      | (False, w) \<Rightarrow> (case file_at w (resolve b key) of None \<Rightarrow> (Inl (BackendFailed ''open''), w) | Some d \<Rightarrow> (Inr d, w)))"

definition fs_Stat :: "fs_config \<Rightarrow> string \<Rightarrow> fs_state \<Rightarrow> (backend_error, nat option) result \<times> fs_state" where
  "fs_Stat b key w =
     (case fault w of
        (True, w) \<Rightarrow> (Inl (BackendFailed ''disk''), w)
      | (False, w) \<Rightarrow> (Inr (map_option length (file_at w (resolve b key))), w))"

definition fs_Delete :: "fs_config \<Rightarrow> string \<Rightarrow> fs_state \<Rightarrow> backend_error option \<times> fs_state" where
  "fs_Delete b key w =
     (case fault w of
        (True, w) \<Rightarrow> (Some (BackendFailed ''disk''), w)
      | (False, w) \<Rightarrow> (None, w\<lparr>file_at := (file_at w)(resolve b key := None)\<rparr>))"

definition fs_Locate :: "fs_config \<Rightarrow> string \<Rightarrow> fs_state \<Rightarrow> (backend_error, location) result \<times> fs_state" where
  "fs_Locate b key w = (Inr (LocationInternal (path_join [xaccelPrefix b, key])), w)"

definition fs_backend :: "fs_config \<Rightarrow> fs_state backend" where
  "fs_backend b = \<lparr>b_put = fs_Put b, b_get = fs_Get b, b_stat = fs_Stat b, b_delete = fs_Delete b, b_locate = fs_Locate b,
     b_file_source = Some (fs_PutFromFile b), b_locate_named = None\<rparr>"

section \<open>Keys\<close>

lemma hex_digit_plain: "n < 16 \<Longrightarrow> hex_digit n \<noteq> CHR ''/'' \<and> hex_digit n \<noteq> CHR ''.''"
proof -
  have "list_all (\<lambda>n. hex_digit n \<noteq> CHR ''/'' \<and> hex_digit n \<noteq> CHR ''.'') [0..<16]" by code_simp
  then show "n < 16 \<Longrightarrow> ?thesis" by (simp add: list_all_iff)
qed

lemma hex_digit_inj: "m < 16 \<Longrightarrow> n < 16 \<Longrightarrow> hex_digit m = hex_digit n \<Longrightarrow> m = n"
proof -
  have "distinct (map hex_digit [0..<16])" by code_simp
  then have "inj_on hex_digit {0..<16}" by (simp add: distinct_map)
  then show "m < 16 \<Longrightarrow> n < 16 \<Longrightarrow> hex_digit m = hex_digit n \<Longrightarrow> m = n" by (auto dest: inj_onD)
qed

lemma hex_parts: "of_char c div 16 < (16 :: nat)" "of_char c mod 16 < (16 :: nat)"
  by (rule less_mult_imp_div_less) (simp_all add: nat_of_char_less_256)

lemma hex_byte_inj: "hex_byte c = hex_byte d \<Longrightarrow> c = d"
proof -
  assume "hex_byte c = hex_byte d"
  then have "of_char c div 16 = (of_char d div 16 :: nat)" "of_char c mod 16 = (of_char d mod 16 :: nat)"
    using hex_digit_inj hex_parts by (auto simp: hex_byte_def)
  then have "of_char c = (of_char d :: nat)" by (metis div_mult_mod_eq)
  then show "c = d" by simp
qed

lemma hex_encode_inj: "hex_encode s = hex_encode t \<Longrightarrow> s = t"
proof (induction s arbitrary: t)
  case Nil
  then show ?case by (cases t) (simp_all add: hex_encode_def hex_byte_def)
next
  case (Cons c s)
  then obtain d t' where t: "t = d # t'" by (cases t) (simp_all add: hex_encode_def hex_byte_def)
  have "hex_byte c = hex_byte d" "hex_encode s = hex_encode t'" using Cons.prems by (simp_all add: t hex_encode_def hex_byte_def)
  then show ?case using Cons.IH hex_byte_inj t by blast
qed

lemma length_hex [simp]: "length (hex_encode s) = 2 * length s"
  by (induction s) (simp_all add: hex_encode_def hex_byte_def)

lemma hex_plain: "c \<in> set (hex_encode s) \<Longrightarrow> c \<noteq> CHR ''/'' \<and> c \<noteq> CHR ''.''"
proof -
  assume "c \<in> set (hex_encode s)"
  then obtain b where "c = hex_digit (of_char b div 16) \<or> c = hex_digit (of_char b mod 16)"
    by (auto simp: hex_encode_def hex_byte_def)
  then show ?thesis using hex_digit_plain[OF hex_parts(1)[of b]] hex_digit_plain[OF hex_parts(2)[of b]] by (elim disjE) simp_all
qed

lemma algoName_plain: "c \<in> set (algoName a) \<Longrightarrow> c \<noteq> CHR ''/'' \<and> c \<noteq> CHR ''.''"
  by (cases a) auto

definition object_key :: "string \<Rightarrow> bool" where
  "object_key k \<longleftrightarrow> (\<exists>a v. ObjectKey a v = Some k)"

lemma ObjectKey_segments:
  assumes "ObjectKey a v = Some k"
  shows "split_on CHR ''/'' k = [algoName a, take 2 (hex_encode v), take 2 (drop 2 (hex_encode v)), hex_encode v]"
proof -
  let ?e = "hex_encode v"
  have k: "k = algoName a @ CHR ''/'' # (take 2 ?e @ CHR ''/'' # (take 2 (drop 2 ?e) @ CHR ''/'' # ?e))"
    using assms by (auto simp: ObjectKey_def Let_def split: if_splits)
  have "CHR ''/'' \<notin> set (algoName a)" using algoName_plain by blast
  moreover have "CHR ''/'' \<notin> set ?e" using hex_plain by blast
  moreover have "CHR ''/'' \<notin> set (take 2 ?e)" using hex_plain in_set_takeD by fastforce
  moreover have "CHR ''/'' \<notin> set (take 2 (drop 2 ?e))" using hex_plain in_set_takeD in_set_dropD by fastforce
  ultimately show ?thesis unfolding k by (simp add: split_on_append split_on_id)
qed

lemma ObjectKey_inj:
  assumes "ObjectKey a v = Some k" "ObjectKey a' v' = Some k" "newHasher H a = Some h" "newHasher H a' = Some h'"
  shows "a' = a \<and> v' = v"
proof -
  have "algoName a = algoName a'" "hex_encode v = hex_encode v'"
    using ObjectKey_segments[OF assms(1)] ObjectKey_segments[OF assms(2)] by simp_all
  then show ?thesis using assms(3,4) hex_encode_inj by (cases a; cases a') auto
qed

lemma object_key_plain:
  assumes "object_key k"
  shows "\<exists>ps. ps \<noteq> [] \<and> (\<forall>p \<in> set ps. plain_seg p) \<and> k = join_with CHR ''/'' ps"
proof -
  obtain a v where k: "ObjectKey a v = Some k" using assms by (auto simp: object_key_def)
  let ?e = "hex_encode v"
  have len: "4 \<le> length ?e" using k by (auto simp: ObjectKey_def Let_def split: if_splits)
  have dot: "plain_seg s" if "s \<noteq> []" "set s \<subseteq> set ?e" for s
    using that hex_plain by (cases s) (auto simp: plain_seg_def)
  have ne: "?e \<noteq> []" "take 2 ?e \<noteq> []" "take 2 (drop 2 ?e) \<noteq> []" using len by (cases ?e; force)+
  have "plain_seg (algoName a)" by (cases a) (simp_all add: plain_seg_def)
  moreover have "plain_seg ?e" by (rule dot[OF ne(1)]) simp
  moreover have "plain_seg (take 2 ?e)" by (rule dot[OF ne(2)]) (rule set_take_subset)
  moreover have "plain_seg (take 2 (drop 2 ?e))"
    by (rule dot[OF ne(3)]) (meson order_trans set_drop_subset set_take_subset)
  ultimately have "\<forall>p \<in> set (split_on CHR ''/'' k). plain_seg p" unfolding ObjectKey_segments[OF k] by simp
  then show ?thesis by (intro exI[of _ "split_on CHR ''/'' k"]) simp
qed

text \<open>No two objects share a path, whatever the root.\<close>

lemma resolve_inj:
  assumes "object_key k" "object_key k'" "resolve b k = resolve b k'"
  shows "k = k'"
proof -
  obtain ps where ps: "ps \<noteq> []" "\<forall>p \<in> set ps. plain_seg p" "k = join_with CHR ''/'' ps"
    using object_key_plain[OF assms(1)] by blast
  obtain qs where qs: "qs \<noteq> []" "\<forall>p \<in> set qs. plain_seg p" "k' = join_with CHR ''/'' qs"
    using object_key_plain[OF assms(2)] by blast
  have ne: "k \<noteq> []" "k' \<noteq> []" using ps qs join_ne by (metis plain_seg_def)+
  show ?thesis
  proof (cases "fs_root b = []")
    case True
    then show ?thesis using assms(3) ps qs ne Clean_plain by (simp add: resolve_def path_join_def Let_def)
  next
    case False
    then have "resolve b k = Clean (fs_root b @ CHR ''/'' # k)" "resolve b k' = Clean (fs_root b @ CHR ''/'' # k')"
      using ne by (simp_all add: resolve_def path_join_def Let_def join_Cons)
    then show ?thesis using assms(3) Clean_append[OF False ps(1,2)] Clean_append[OF False qs(1,2)]
      by (simp add: ps(3) qs(3) split: if_splits)
  qed
qed

section \<open>What a backend promises, and what the store makes of it\<close>

text \<open>Every object has the hash its key names.\<close>

definition sound_objects :: "hashes \<Rightarrow> (string \<Rightarrow> string option) \<Rightarrow> bool" where
  "sound_objects H m \<longleftrightarrow>
     (\<forall>a v k d h. newHasher H a = Some h \<longrightarrow> ObjectKey a v = Some k \<longrightarrow> m k = Some d \<longrightarrow> h d = v)"

lemma sound_keep: "sound_objects H m \<Longrightarrow> (\<And>k. object_key k \<Longrightarrow> m' k = m k) \<Longrightarrow> sound_objects H m'"
  unfolding sound_objects_def object_key_def by metis

lemma sound_add:
  assumes "sound_objects H m" "newHasher H a = Some h" "ObjectKey a (h d) = Some k"
    and "\<And>k'. object_key k' \<Longrightarrow> m' k' = (if k' = k then Some d else m k')"
  shows "sound_objects H m'"
  unfolding sound_objects_def
proof (intro allI impI)
  fix a' v' k' d' h'
  assume k': "newHasher H a' = Some h'" "ObjectKey a' v' = Some k'" "m' k' = Some d'"
  have key: "object_key k'" using k'(2) by (auto simp: object_key_def)
  show "h' d' = v'"
  proof (cases "k' = k")
    case True
    then have "a' = a \<and> v' = h d" using ObjectKey_inj assms(2,3) k'(1,2) by metis
    moreover have "d' = d" using assms(4)[OF key] k'(3) True by simp
    ultimately show ?thesis using assms(2) k'(1) by simp
  next
    case False
    then show ?thesis using assms(1) assms(4)[OF key] k' unfolding sound_objects_def by auto
  qed
qed

text \<open>A later state that lost nothing and changed nothing.\<close>

definition keeps_objects :: "(string \<Rightarrow> string option) \<Rightarrow> (string \<Rightarrow> string option) \<Rightarrow> bool" where
  "keeps_objects m m' \<longleftrightarrow> (\<forall>k d. object_key k \<longrightarrow> m k = Some d \<longrightarrow> m' k = Some d)"

lemma keeps_refl: "(\<And>k. object_key k \<Longrightarrow> m' k = m k) \<Longrightarrow> keeps_objects m m'"
  by (simp add: keeps_objects_def)

lemma keeps_trans: "keeps_objects a b \<Longrightarrow> keeps_objects b c \<Longrightarrow> keeps_objects a c"
  by (auto simp: keeps_objects_def)

locale object_store =
  fixes B :: "'b backend"
    and view :: "'b \<Rightarrow> string \<Rightarrow> string option"
  assumes put_view: "object_key k \<Longrightarrow> b_put B k d w = (e, w') \<Longrightarrow> object_key k' \<Longrightarrow>
      view w' k' = (if e = None \<and> k' = k then Some d else view w k')"
    and stat_view: "object_key k \<Longrightarrow> b_stat B k w = (s, w') \<Longrightarrow> object_key k' \<Longrightarrow> view w' k' = view w k'"
    and stat_found: "object_key k \<Longrightarrow> b_stat B k w = (Inr found, w') \<Longrightarrow> found = map_option length (view w k)"
    and get_view: "object_key k \<Longrightarrow> b_get B k w = (r, w') \<Longrightarrow> object_key k' \<Longrightarrow> view w' k' = view w k'"
    and get_found: "object_key k \<Longrightarrow> b_get B k w = (Inr d, w') \<Longrightarrow> view w k = Some d"
    and delete_view: "object_key k \<Longrightarrow> b_delete B k w = (e, w') \<Longrightarrow> object_key k' \<Longrightarrow>
      view w' k' = (if e = None \<and> k' = k then None else view w k')"
    and file_view: "b_file_source B = Some p \<Longrightarrow> object_key k \<Longrightarrow> p k src verify w = (e, w') \<Longrightarrow> object_key k' \<Longrightarrow>
      view w' k' = (if e = None \<and> k' = k then src else view w k')"
    and file_verified: "b_file_source B = Some p \<Longrightarrow> object_key k \<Longrightarrow> p k src verify w = (None, w') \<Longrightarrow>
      \<exists>d. src = Some d \<and> verify d = None"
begin

lemma exists_view: "backend_of c = B \<Longrightarrow> object_key k \<Longrightarrow> exists_object c k w = (r, w') \<Longrightarrow> object_key k' \<Longrightarrow> view w' k' = view w k'"
  using stat_view by (fastforce simp: exists_object_def split: sum.splits prod.splits)

lemma exists_found: "backend_of c = B \<Longrightarrow> object_key k \<Longrightarrow> exists_object c k w = (Inr b, w') \<Longrightarrow> b \<longleftrightarrow> view w k \<noteq> None"
  using stat_found[of k w] by (auto simp: exists_object_def split: sum.splits prod.splits)

lemma stored_file:
  assumes "backend_of c = B" "object_key k" "storeFile h c k reread v n w = (e, w')" "view w k = None"
    and "\<And>b. e \<noteq> Some (ChangedWhilePublished (Some b))"
  shows "(e = None \<longrightarrow> (\<exists>d. h d = v \<and> (\<forall>k'. object_key k' \<longrightarrow> view w' k' = (if k' = k then Some d else view w k')))) \<and>
    (e \<noteq> None \<longrightarrow> (\<forall>k'. object_key k' \<longrightarrow> view w' k' = view w k'))"
proof (cases "b_file_source B")
  case (Some p)
  obtain e1 where p: "p k reread (matches_sum h v n) w = (e1, w')" and
      e: "e = (case e1 of None \<Rightarrow> None | Some ObjectMismatch \<Rightarrow> Some (ChangedWhilePublished None) | Some b \<Rightarrow> Some (Backend b))"
    using assms(3) by (auto simp: storeFile_def assms(1) Some split: prod.splits option.splits backend_error.splits)
  note view' = file_view[OF Some assms(2) p]
  show ?thesis
  proof (cases e1)
    case None
    then obtain d where d: "reread = Some d" "matches_sum h v n d = None" using file_verified[OF Some assms(2)] p by blast
    then have "h d = v" by (auto simp: matches_sum_def split: if_splits)
    then show ?thesis using view' None d(1) e by auto
  next
    case (Some b)
    then have "e \<noteq> None" using e by (auto split: backend_error.splits)
    then show ?thesis using view' Some by auto
  qed
next
  case None
  show ?thesis
  proof (cases reread)
    case None
    then show ?thesis using assms(3) \<open>b_file_source B = None\<close> by (auto simp: storeFile_def streamFile_def assms(1))
  next
    case (Some d)
    obtain e1 w1 where put: "b_put B k d w = (e1, w1)" by fastforce
    note view1 = put_view[OF assms(2) put]
    show ?thesis
    proof (cases e1)
      case (Some b)
      then show ?thesis using assms(3) \<open>reread = Some d\<close> None put view1 by (auto simp: storeFile_def streamFile_def assms(1))
    next
      case ok: None
      show ?thesis
      proof (cases "h d = v")
        case True
        then show ?thesis using assms(3) Some None put view1 ok by (auto simp: storeFile_def streamFile_def assms(1))
      next
        case False
        obtain e2 w2 where del: "b_delete B k w1 = (e2, w2)" by fastforce
        have "e = Some (ChangedWhilePublished e2)" "w' = w2"
          using assms(3) Some None put ok False del by (auto simp: storeFile_def streamFile_def assms(1))
        moreover then have "e2 = None" using assms(5) by (cases e2) auto
        ultimately show ?thesis using delete_view[OF assms(2) del] view1 ok assms(4) by auto
      qed
    qed
  qed
qed

text \<open>Publishing from a file, whatever happened to the file in between.\<close>

definition published :: "hashes \<Rightarrow> 'b cas \<Rightarrow> string \<Rightarrow> object_ref \<Rightarrow> 'b \<Rightarrow> bool" where
  "published H c data ref w \<longleftrightarrow>
     (\<exists>h k d. newHasher H (cas_algo c) = Some h \<and> ref = objectRef (cas_algo c) (h data) (length data) \<and>
        ObjectKey (cas_algo c) (h data) = Some k \<and> view w k = Some d \<and> h d = h data)"

definition keeps :: "hashes \<Rightarrow> 'b \<Rightarrow> 'b \<Rightarrow> bool" where
  "keeps H w w' \<longleftrightarrow> sound_objects H (view w') \<and> keeps_objects (view w) (view w')"

lemma keeps_same: "sound_objects H (view w) \<Longrightarrow> (\<And>k. object_key k \<Longrightarrow> view w' k = view w k) \<Longrightarrow> keeps H w w'"
  unfolding keeps_def using sound_keep keeps_refl by blast

lemma keeps_more: "keeps H w w1 \<Longrightarrow> keeps H w1 w2 \<Longrightarrow> keeps H w w2"
  unfolding keeps_def using keeps_trans by blast

lemma keeps_added:
  assumes "sound_objects H (view w)" "newHasher H a = Some h" "ObjectKey a (h d) = Some k" "view w k = None"
    and "\<And>k'. object_key k' \<Longrightarrow> view w' k' = (if k' = k then Some d else view w k')"
  shows "keeps H w w'"
  unfolding keeps_def using sound_add[OF assms(1-3,5)] assms(4,5) by (auto simp: keeps_objects_def)

lemma storeFile_objects:
  assumes "backend_of c = B" "newHasher H (cas_algo c) = Some h" "ObjectKey (cas_algo c) (h data) = Some k"
    and "sound_objects H (view w)" "view w k = None" "storeFile h c k reread (h data) (length data) w = (e, w')"
    and "\<And>b. e \<noteq> Some (ChangedWhilePublished (Some b))"
  shows "keeps H w w' \<and> (e = None \<longrightarrow> published H c data (objectRef (cas_algo c) (h data) (length data)) w')"
proof -
  have ok: "object_key k" using assms(3) by (auto simp: object_key_def)
  note stored = stored_file[OF assms(1) ok assms(6,5,7)]
  show ?thesis
  proof (cases e)
    case None
    then obtain d where d: "h d = h data" "\<And>k'. object_key k' \<Longrightarrow> view w' k' = (if k' = k then Some d else view w k')"
      using stored by blast
    have "keeps H w w'" by (rule keeps_added[OF assms(4,2) _ assms(5) d(2)]) (use assms(3) d(1) in simp)
    then show ?thesis using assms(2,3) d ok by (auto simp: published_def)
  next
    case (Some b)
    then show ?thesis using stored keeps_same[OF assms(4)] by blast
  qed
qed

lemma PutFile_objects:
  assumes "backend_of c = B" "cas_PutFile H c first reread w = (r, w')" "sound_objects H (view w)"
    and "\<And>b. r \<noteq> Inl (ChangedWhilePublished (Some b))"
  shows "keeps H w w' \<and> (\<forall>ref. r = Inr ref \<longrightarrow> (\<exists>data. first = Some data \<and> published H c data ref w'))"
proof (cases "\<exists>h data k. newHasher H (cas_algo c) = Some h \<and> first = Some data \<and> ObjectKey (cas_algo c) (h data) = Some k")
  case False
  then have "w' = w" "\<And>ref. r \<noteq> Inr ref" using assms(2) by (auto simp: cas_PutFile_def split: option.splits)
  then show ?thesis using keeps_same[OF assms(3)] by simp
next
  case True
  then obtain h data k where h: "newHasher H (cas_algo c) = Some h" and data: "first = Some data"
    and k: "ObjectKey (cas_algo c) (h data) = Some k" by blast
  then have ok: "object_key k" by (auto simp: object_key_def)
  obtain x w1 where ex: "exists_object c k w = (x, w1)" by fastforce
  note view1 = exists_view[OF assms(1) ok ex]
  have keep1: "keeps H w w1" by (rule keeps_same[OF assms(3) view1])
  then have sound1: "sound_objects H (view w1)" by (simp add: keeps_def)
  consider (failed) b where "x = Inl b" | (there) "x = Inr True" | (absent) "x = Inr False" by (cases x) auto
  then show ?thesis
  proof cases
    case failed
    then show ?thesis using assms(2) h data k ex keep1 by (auto simp: cas_PutFile_def)
  next
    case there
    then obtain d where d: "view w k = Some d" using exists_found[OF assms(1) ok, of w True w1] ex by auto
    then have "h d = h data" using assms(3) h k unfolding sound_objects_def by blast
    then show ?thesis using assms(2) h data k ex keep1 there d view1[OF ok] by (auto simp: cas_PutFile_def published_def)
  next
    case absent
    then have none: "view w1 k = None" using exists_found[OF assms(1) ok, of w False w1] ex view1[OF ok] by auto
    obtain e w2 where st: "storeFile h c k reread (h data) (length data) w1 = (e, w2)" by fastforce
    have r: "r = (case e of Some e \<Rightarrow> Inl e | None \<Rightarrow> Inr (objectRef (cas_algo c) (h data) (length data)))" "w' = w2"
      using assms(2) h data k ex absent st by (auto simp: cas_PutFile_def split: option.splits)
    have "e \<noteq> Some (ChangedWhilePublished (Some b))" for b using assms(4) r(1) by (cases e) auto
    then have "keeps H w1 w2 \<and> (e = None \<longrightarrow> published H c data (objectRef (cas_algo c) (h data) (length data)) w2)"
      by (rule storeFile_objects[OF assms(1) h k sound1 none st])
    then show ?thesis using keep1 keeps_more r data by (cases e) auto
  qed
qed

text \<open>Publishing from a reader: the hash and the bytes are those of one staged copy.\<close>

lemma Put_objects:
  assumes "backend_of c = B" "cas_Put H c staged w = (r, w')" "sound_objects H (view w)"
  shows "keeps H w w' \<and> (\<forall>ref. r = Inr ref \<longrightarrow> (\<exists>data. staged = Inr data \<and> published H c data ref w'))"
proof (cases "\<exists>h data k. newHasher H (cas_algo c) = Some h \<and> staged = Inr data \<and> ObjectKey (cas_algo c) (h data) = Some k")
  case False
  then have "w' = w" "\<And>ref. r \<noteq> Inr ref" using assms(2) by (auto simp: cas_Put_def split: option.splits sum.splits)
  then show ?thesis using keeps_same[OF assms(3)] by simp
next
  case True
  then obtain h data k where h: "newHasher H (cas_algo c) = Some h" and data: "staged = Inr data"
    and k: "ObjectKey (cas_algo c) (h data) = Some k" by blast
  then have ok: "object_key k" by (auto simp: object_key_def)
  obtain x w1 where ex: "exists_object c k w = (x, w1)" by fastforce
  note view1 = exists_view[OF assms(1) ok ex]
  have keep1: "keeps H w w1" by (rule keeps_same[OF assms(3) view1])
  then have sound1: "sound_objects H (view w1)" by (simp add: keeps_def)
  consider (failed) b where "x = Inl b" | (there) "x = Inr True" | (absent) "x = Inr False" by (cases x) auto
  then show ?thesis
  proof cases
    case failed
    then show ?thesis using assms(2) h data k ex keep1 by (auto simp: cas_Put_def)
  next
    case there
    then obtain d where d: "view w k = Some d" using exists_found[OF assms(1) ok, of w True w1] ex by auto
    then have "h d = h data" using assms(3) h k unfolding sound_objects_def by blast
    then show ?thesis using assms(2) h data k ex keep1 there d view1[OF ok] by (auto simp: cas_Put_def published_def)
  next
    case absent
    then have none: "view w1 k = None" using exists_found[OF assms(1) ok, of w False w1] ex view1[OF ok] by auto
    obtain e w2 where put: "b_put B k data w1 = (e, w2)" by fastforce
    note view2 = put_view[OF ok put]
    show ?thesis
    proof (cases e)
      case None
      then have "keeps H w1 w2" by (intro keeps_added[OF sound1 h k none]) (use view2 in simp)
      then show ?thesis using assms(1,2) h data k ex absent put None keep1 keeps_more view2[OF ok]
        by (auto simp: cas_Put_def published_def)
    next
      case (Some b)
      then have "keeps H w1 w2" by (intro keeps_same[OF sound1]) (use view2 in simp)
      then show ?thesis using assms(1,2) h data k ex absent put Some keep1 keeps_more by (auto simp: cas_Put_def)
    qed
  qed
qed

text \<open>What was published is still there after anything that keeps objects, and is read back.\<close>

lemma published_Get:
  assumes "backend_of c = B" "published H c data ref w" "keeps H w w'" "RefHash ref = Some hsh"
    and "cas_Get c hsh w' = (Inr got, w'')" "newHasher H (cas_algo c) = Some h"
  shows "h got = h data"
proof -
  obtain k d where k: "ObjectKey (cas_algo c) (h data) = Some k" "view w k = Some d" "h d = h data"
      "ref = objectRef (cas_algo c) (h data) (length data)"
    using assms(2,6) by (auto simp: published_def)
  have hsh: "hsh = \<lparr>Algo = cas_algo c, Value = h data\<rparr>" using assms(4) k(4) by (simp add: objectRef_def)
  have ok: "object_key k" using k(1) by (auto simp: object_key_def)
  have "view w' k = Some d" using assms(3) k(2) ok by (auto simp: keeps_def keeps_objects_def)
  moreover have "view w' k = Some got"
    using assms(1,5) k(1) get_found[OF ok] by (auto simp: cas_Get_def hsh split: sum.splits prod.splits)
  ultimately show ?thesis using k(3) by simp
qed

end

section \<open>The file system keeps the contract\<close>

definition fs_view :: "fs_config \<Rightarrow> fs_state \<Rightarrow> string \<Rightarrow> string option" where
  "fs_view b w k = file_at w (resolve b k)"

lemma fault_view: "fault w = (f, w') \<Longrightarrow> file_at w' = file_at w"
  by (auto simp: fault_def split: list.splits)

lemma stage_view:
  assumes "object_key k" "stage b k written w = (e, w')" "object_key k'"
  shows "fs_view b w' k' = (if e = None \<and> k' = k then (case written of Inl _ \<Rightarrow> None | Inr d \<Rightarrow> Some d) else fs_view b w k')"
proof -
  obtain f w1 where f: "fault w = (f, w1)" by fastforce
  have "resolve b k' = resolve b k \<longleftrightarrow> k' = k" using resolve_inj[OF assms(1,3), of b] by auto
  then show ?thesis using assms(2) f fault_view[OF f] by (auto simp: stage_def fs_view_def split: bool.splits sum.splits)
qed

lemma fs_file_view:
  assumes "object_key k" "fs_PutFromFile b k src verify w = (e, w')" "object_key k'"
  shows "fs_view b w' k' = (if e = None \<and> k' = k then src else fs_view b w k') \<and> (e = None \<longrightarrow> (\<exists>d. src = Some d \<and> verify d = None))"
proof -
  define written where "written = (case src of None \<Rightarrow> Inl (BackendFailed ''open'')
      | Some data \<Rightarrow> (case verify data of Some e \<Rightarrow> Inl e | None \<Rightarrow> Inr data))"
  have st: "stage b k written w = (e, w')" using assms(2) by (simp add: fs_PutFromFile_def written_def)
  have "e = None \<Longrightarrow> \<exists>d. written = Inr d" using st by (auto simp: stage_def split: prod.splits bool.splits sum.splits)
  then show ?thesis using stage_view[OF assms(1) st assms(3)]
    by (cases e) (auto simp: written_def split: option.splits)
qed

interpretation fs: object_store "fs_backend b" "fs_view b" for b
proof unfold_locales
  fix k d w e w' k'
  assume "object_key k" "b_put (fs_backend b) k d w = (e, w')" "object_key k'"
  then show "fs_view b w' k' = (if e = None \<and> k' = k then Some d else fs_view b w k')"
    using stage_view[of k b "Inr d" w e w' k'] by (simp add: fs_backend_def fs_Put_def)
next
  fix k w r w' k'
  assume "b_stat (fs_backend b) k w = (r, w')"
  then show "fs_view b w' k' = fs_view b w k'"
    using fault_view by (auto simp: fs_backend_def fs_Stat_def fs_view_def split: prod.splits bool.splits)
next
  fix k w found w'
  assume "b_stat (fs_backend b) k w = (Inr found, w')"
  then show "found = map_option length (fs_view b w k)"
    using fault_view by (auto simp: fs_backend_def fs_Stat_def fs_view_def split: prod.splits bool.splits)
next
  fix k w r w' k'
  assume "b_get (fs_backend b) k w = (r, w')"
  then show "fs_view b w' k' = fs_view b w k'"
    using fault_view by (auto simp: fs_backend_def fs_Get_def fs_view_def split: prod.splits bool.splits option.splits)
next
  fix k w d w'
  assume "b_get (fs_backend b) k w = (Inr d, w')"
  then show "fs_view b w k = Some d"
    using fault_view by (auto simp: fs_backend_def fs_Get_def fs_view_def split: prod.splits bool.splits option.splits)
next
  fix k w e w' k'
  assume k: "object_key k" "object_key k'" and del: "b_delete (fs_backend b) k w = (e, w')"
  have "resolve b k' = resolve b k \<longleftrightarrow> k' = k" using resolve_inj[OF k, of b] by auto
  then show "fs_view b w' k' = (if e = None \<and> k' = k then None else fs_view b w k')"
    using del fault_view by (auto simp: fs_backend_def fs_Delete_def fs_view_def split: prod.splits bool.splits)
next
  fix p k src verify w e w' k'
  assume "b_file_source (fs_backend b) = Some p" "object_key k" "p k src verify w = (e, w')" "object_key k'"
  then show "fs_view b w' k' = (if e = None \<and> k' = k then src else fs_view b w k')"
    using fs_file_view[of k b src verify w e w' k'] by (simp add: fs_backend_def)
next
  fix p k src verify w w'
  assume "b_file_source (fs_backend b) = Some p" "object_key k" "p k src verify w = (None, w')"
  then show "\<exists>d. src = Some d \<and> verify d = None"
    using fs_file_view[of k b src verify w None w' k] by (simp add: fs_backend_def)
qed

section \<open>Runs of a store on the file system\<close>

datatype cas_op = PutOp "(string, string) result" | PutFileOp "string option" "string option"

fun cas_step :: "hashes \<Rightarrow> fs_state cas \<Rightarrow> cas_op \<Rightarrow> fs_state \<Rightarrow> fs_state" where
  "cas_step H c (PutOp staged) w = snd (cas_Put H c staged w)"
| "cas_step H c (PutFileOp first reread) w = snd (cas_PutFile H c first reread w)"

definition cas_run :: "hashes \<Rightarrow> fs_state cas \<Rightarrow> cas_op list \<Rightarrow> fs_state \<Rightarrow> fs_state" where
  "cas_run H c ops w = fold (cas_step H c) ops w"

lemma fs_no_cleanup:
  assumes "backend_of c = fs_backend b" "cas_PutFile H c first reread w = (r, w')"
  shows "r \<noteq> Inl (ChangedWhilePublished (Some e))"
proof
  assume "r = Inl (ChangedWhilePublished (Some e))"
  then obtain h k v n w1 where "storeFile h c k reread v n w1 = (Some (ChangedWhilePublished (Some e)), w')"
    using assms(2) by (auto simp: cas_PutFile_def split: option.splits prod.splits sum.splits bool.splits)
  then show False by (auto simp: storeFile_def assms(1) fs_backend_def split: prod.splits option.splits backend_error.splits)
qed

lemma cas_step_keeps:
  assumes "backend_of c = fs_backend b" "sound_objects H (fs_view b w)"
  shows "fs.keeps b H w (cas_step H c op w)"
proof (cases op)
  case (PutOp staged)
  obtain r w' where r: "cas_Put H c staged w = (r, w')" by fastforce
  show ?thesis using fs.Put_objects[OF assms(1) r assms(2)] by (simp add: PutOp r)
next
  case (PutFileOp first reread)
  obtain r w' where r: "cas_PutFile H c first reread w = (r, w')" by fastforce
  show ?thesis using fs.PutFile_objects[OF assms(1) r assms(2) fs_no_cleanup[OF assms(1) r]] by (simp add: PutFileOp r)
qed

lemma cas_run_keeps:
  assumes "backend_of c = fs_backend b" "sound_objects H (fs_view b w)"
  shows "fs.keeps b H w (cas_run H c ops w)"
  using assms(2)
proof (induction ops arbitrary: w)
  case Nil
  then show ?case using fs.keeps_same by (simp add: cas_run_def)
next
  case (Cons op ops)
  have step: "fs.keeps b H w (cas_step H c op w)" by (rule cas_step_keeps[OF assms(1) Cons.prems])
  then have "fs.keeps b H (cas_step H c op w) (cas_run H c ops (cas_step H c op w))"
    using Cons.IH by (simp add: fs.keeps_def)
  then show ?case using fs.keeps_more[OF step] by (simp add: cas_run_def)
qed

definition empty_disk :: "bool list \<Rightarrow> fs_state" where
  "empty_disk fs = \<lparr>file_at = (\<lambda>_. None), faults = fs\<rparr>"

lemma empty_sound: "sound_objects H (fs_view b (empty_disk fs))"
  by (simp add: sound_objects_def fs_view_def empty_disk_def)

text \<open>
  C37: Whatever is published to the file-system store, from readers and from files that change while
  they are published, and whichever calls of the disk fail: every object that exists has exactly the
  hash that its key names.
\<close>

theorem objects_keep_their_hash:
  assumes "newHasher H a = Some h" "ObjectKey a v = Some k"
    and "file_at (cas_run H (NewCAS (fs_backend b) algo) ops (empty_disk fs)) (resolve b k) = Some d"
  shows "h d = v"
proof -
  have "fs.keeps b H (empty_disk fs) (cas_run H (NewCAS (fs_backend b) algo) ops (empty_disk fs))"
    by (rule cas_run_keeps[OF _ empty_sound]) (simp add: NewCAS_def)
  then show ?thesis using assms by (auto simp: fs.keeps_def sound_objects_def fs_view_def)
qed

definition plain_hashes :: hashes where
  "plain_hashes = \<lparr>blake3 = (\<lambda>s. take 2 (s @ ''xx'')), sha256_sum = (\<lambda>s. take 2 (s @ ''xx''))\<rparr>"

definition var_objects :: fs_config where
  "var_objects = \<lparr>fs_root = ''/o'', xaccelPrefix = ''/_objects''\<rparr>"

lemma objects_keep_their_hash_witness:
  "\<exists>k. ObjectKey HASH_ALGO_BLAKE3 ''ab'' = Some k \<and>
     file_at (cas_run plain_hashes (NewCAS (fs_backend var_objects) HASH_ALGO_UNSPECIFIED)
        [PutFileOp (Some ''zz'') (Some ''yy''), PutFileOp (Some ''ab!'') (Some ''ab!'')] (empty_disk [])) (resolve var_objects k) = Some ''ab!'' \<and>
     blake3 plain_hashes ''ab!'' = ''ab''"
proof -
  let ?k = "''blake3/61/62/6162''"
  have key: "ObjectKey HASH_ALGO_BLAKE3 ''ab'' = Some ?k" by code_simp
  have run: "file_at (cas_run plain_hashes (NewCAS (fs_backend var_objects) HASH_ALGO_UNSPECIFIED)
        [PutFileOp (Some ''zz'') (Some ''yy''), PutFileOp (Some ''ab!'') (Some ''ab!'')] (empty_disk [])) (resolve var_objects ?k) = Some ''ab!''"
    by code_simp
  show ?thesis using key run objects_keep_their_hash[OF _ key run, of "blake3 plain_hashes"] by simp
qed

text \<open>
  Once \<open>PutFile\<close> has answered with a reference, the object is there for good: after any further
  publishing, reading the reference answers content with the hash of the file as it was first read,
  unless the disk fails at that moment.
\<close>

theorem published_file_stays:
  assumes "newHasher H algo = Some h" "sound_objects H (fs_view b w)"
    and "cas_PutFile H (NewCAS (fs_backend b) algo) (Some data) reread w = (Inr ref, w1)" "RefHash ref = Some hsh"
    and "cas_Get (NewCAS (fs_backend b) algo) hsh (cas_run H (NewCAS (fs_backend b) algo) ops w1) = (got, w2)"
  shows "(\<exists>d. got = Inr d \<and> h d = h data) \<or> got = Inl (Backend (BackendFailed ''disk''))"
proof -
  let ?c = "NewCAS (fs_backend b) algo"
  have c: "backend_of ?c = fs_backend b" "cas_algo ?c = algo" using assms(1) by (cases algo; simp add: NewCAS_def)+
  have pub: "fs.keeps b H w w1" "fs.published b H ?c data ref w1"
    using fs.PutFile_objects[OF c(1) assms(3,2) fs_no_cleanup[OF c(1) assms(3)]] by auto
  have run: "fs.keeps b H w1 (cas_run H ?c ops w1)"
    by (rule cas_run_keeps[OF c(1)]) (use pub(1) in \<open>simp add: fs.keeps_def\<close>)
  obtain k d where k: "ObjectKey algo (h data) = Some k" "fs_view b w1 k = Some d" "ref = objectRef algo (h data) (length data)"
    using pub(2) assms(1) by (auto simp: fs.published_def c(2))
  then have "fs_view b (cas_run H ?c ops w1) k = Some d"
    using run by (auto simp: fs.keeps_def keeps_objects_def object_key_def)
  moreover have "hsh = \<lparr>Algo = algo, Value = h data\<rparr>" using assms(4) k(3) by (simp add: objectRef_def)
  moreover have "b_get (fs_backend b) = fs_Get b" by (simp add: fs_backend_def)
  ultimately have "(\<exists>d. got = Inr d) \<or> got = Inl (Backend (BackendFailed ''disk''))"
    using assms(5) k(1) fault_view
    by (auto simp: cas_Get_def c fs_Get_def fs_view_def split: prod.splits bool.splits option.splits)
  then show ?thesis using fs.published_Get[OF c(1) pub(2) run assms(4)] assms(1,5) by (auto simp: c(2))
qed

lemma published_file_stays_witness:
  "\<exists>ref w1 hsh d. cas_PutFile plain_hashes (NewCAS (fs_backend var_objects) HASH_ALGO_SHA256) (Some ''ab!'') (Some ''ab!'') (empty_disk []) = (Inr ref, w1) \<and>
     RefHash ref = Some hsh \<and> fst (cas_Get (NewCAS (fs_backend var_objects) HASH_ALGO_SHA256) hsh w1) = Inr d \<and> sha256_sum plain_hashes d = sha256_sum plain_hashes ''ab!''"
proof -
  let ?c = "NewCAS (fs_backend var_objects) HASH_ALGO_SHA256"
  let ?p = "cas_PutFile plain_hashes ?c (Some ''ab!'') (Some ''ab!'') (empty_disk [])"
  let ?h = "\<lparr>Algo = HASH_ALGO_SHA256, Value = ''ab''\<rparr>"
  have fst: "fst ?p = Inr \<lparr>RefHash = Some ?h, RefSize = 3\<rparr>" by code_simp
  then have put: "?p = (Inr \<lparr>RefHash = Some ?h, RefSize = 3\<rparr>, snd ?p)" by (simp add: prod_eq_iff)
  have get: "fst (cas_Get ?c ?h (snd ?p)) = Inr ''ab!''" by code_simp
  have "(\<exists>d. fst (cas_Get ?c ?h (snd ?p)) = Inr d \<and> sha256_sum plain_hashes d = sha256_sum plain_hashes ''ab!'') \<or>
      fst (cas_Get ?c ?h (snd ?p)) = Inl (Backend (BackendFailed ''disk''))"
    by (rule published_file_stays[OF _ empty_sound put, of _ ?h "[]" _ "snd (cas_Get ?c ?h (snd ?p))"]) (simp_all add: cas_run_def)
  then obtain d where d: "fst (cas_Get ?c ?h (snd ?p)) = Inr d" "sha256_sum plain_hashes d = sha256_sum plain_hashes ''ab!''"
    using get by auto
  show ?thesis
  proof (intro exI conjI)
    show "cas_PutFile plain_hashes ?c (Some ''ab!'') (Some ''ab!'') (empty_disk []) = (Inr \<lparr>RefHash = Some ?h, RefSize = 3\<rparr>, snd ?p)"
      by (rule put)
  qed (use d get in simp_all)
qed

end
