(* ===== verification/Platform.thy ===== *)
theory Platform
  imports GoStrings
begin

text \<open>
  The package \<open>platform\<close> (\<open>src/server/internal/platform/platform.go\<close>): the names of the systems a build
  or a launcher is published for. A value of the protobuf enum is an integer on the wire; a number
  without a name is \<open>PLATFORM_OTHER\<close>. The theorem says that the names parse back.
\<close>

datatype platform =
    PLATFORM_UNSPECIFIED | PLATFORM_WINDOWS_X64 | PLATFORM_WINDOWS_X86 | PLATFORM_WINDOWS_ARM64
  | PLATFORM_LINUX | PLATFORM_LINUX_I386 | PLATFORM_MAC_OS | PLATFORM_MAC_OS_ARM64 | PLATFORM_LINUX_ARM64
  | PLATFORM_OTHER int

text \<open>The table \<open>Platform_name\<close> that is generated from the enum.\<close>

fun platform_name :: "platform \<Rightarrow> string option" where
  "platform_name PLATFORM_UNSPECIFIED = Some ''PLATFORM_UNSPECIFIED''"
| "platform_name PLATFORM_WINDOWS_X64 = Some ''PLATFORM_WINDOWS_X64''"
| "platform_name PLATFORM_WINDOWS_X86 = Some ''PLATFORM_WINDOWS_X86''"
| "platform_name PLATFORM_WINDOWS_ARM64 = Some ''PLATFORM_WINDOWS_ARM64''"
| "platform_name PLATFORM_LINUX = Some ''PLATFORM_LINUX''"
| "platform_name PLATFORM_LINUX_I386 = Some ''PLATFORM_LINUX_I386''"
| "platform_name PLATFORM_MAC_OS = Some ''PLATFORM_MAC_OS''"
| "platform_name PLATFORM_MAC_OS_ARM64 = Some ''PLATFORM_MAC_OS_ARM64''"
| "platform_name PLATFORM_LINUX_ARM64 = Some ''PLATFORM_LINUX_ARM64''"
| "platform_name (PLATFORM_OTHER n) = None"

definition named_platforms :: "platform list" where
  "named_platforms = [PLATFORM_UNSPECIFIED, PLATFORM_WINDOWS_X64, PLATFORM_WINDOWS_X86, PLATFORM_WINDOWS_ARM64,
     PLATFORM_LINUX, PLATFORM_LINUX_I386, PLATFORM_MAC_OS, PLATFORM_MAC_OS_ARM64, PLATFORM_LINUX_ARM64]"

fun number :: "platform \<Rightarrow> int" where
  "number PLATFORM_UNSPECIFIED = 0"
| "number PLATFORM_WINDOWS_X64 = 1"
| "number PLATFORM_WINDOWS_X86 = 2"
| "number PLATFORM_WINDOWS_ARM64 = 3"
| "number PLATFORM_LINUX = 4"
| "number PLATFORM_LINUX_I386 = 5"
| "number PLATFORM_MAC_OS = 6"
| "number PLATFORM_MAC_OS_ARM64 = 7"
| "number PLATFORM_LINUX_ARM64 = 8"
| "number (PLATFORM_OTHER n) = n"

definition Key :: "platform \<Rightarrow> string \<times> bool" where
  "Key p =
     (case platform_name p of
        None \<Rightarrow> ([], False)
      | Some name \<Rightarrow>
          if p = PLATFORM_UNSPECIFIED then ([], False)
          else (map (\<lambda>c. if c = CHR ''_'' then CHR ''-'' else c) (map ascii_lower (trim_prefix name ''PLATFORM_'')), True))"

text \<open>\<open>Parse\<close> ranges over the table in any order; no two names of it have the same key.\<close>

definition Parse :: "(string \<Rightarrow> string) \<Rightarrow> string \<Rightarrow> platform \<times> bool" where
  "Parse lower k =
     (let want = to_lower lower (trim_space k) in
      case List.find (\<lambda>p. Key p = (want, True)) named_platforms of
        Some p \<Rightarrow> (p, True)
      | None \<Rightarrow> (PLATFORM_UNSPECIFIED, False))"

definition Game :: "platform list" where
  "Game = [PLATFORM_WINDOWS_X64, PLATFORM_WINDOWS_X86, PLATFORM_WINDOWS_ARM64, PLATFORM_LINUX, PLATFORM_LINUX_I386,
     PLATFORM_MAC_OS, PLATFORM_MAC_OS_ARM64]"

definition Keys :: "platform list \<Rightarrow> string list" where
  "Keys ps = map (fst \<circ> Key) (filter (snd \<circ> Key) ps)"

fun Mojang :: "platform \<Rightarrow> (string \<times> string) option" where
  "Mojang PLATFORM_WINDOWS_X64 = Some (''windows'', ''x86_64'')"
| "Mojang PLATFORM_WINDOWS_X86 = Some (''windows'', ''x86'')"
| "Mojang PLATFORM_WINDOWS_ARM64 = Some (''windows'', ''arm64'')"
| "Mojang PLATFORM_LINUX = Some (''linux'', ''x86_64'')"
| "Mojang PLATFORM_LINUX_I386 = Some (''linux'', ''x86'')"
| "Mojang PLATFORM_MAC_OS = Some (''osx'', ''x86_64'')"
| "Mojang PLATFORM_MAC_OS_ARM64 = Some (''osx'', ''arm64'')"
| "Mojang p = None"

definition FromRuntime :: "string \<Rightarrow> string \<Rightarrow> platform" where
  "FromRuntime goos goarch =
     (if goos = ''windows'' then
        if goarch = ''386'' then PLATFORM_WINDOWS_X86
        else if goarch = ''arm64'' then PLATFORM_WINDOWS_ARM64 else PLATFORM_WINDOWS_X64
      else if goos = ''darwin'' then
        if goarch = ''arm64'' then PLATFORM_MAC_OS_ARM64 else PLATFORM_MAC_OS
      else
        if goarch = ''386'' then PLATFORM_LINUX_I386
        else if goarch = ''arm64'' then PLATFORM_LINUX_ARM64 else PLATFORM_LINUX)"

text \<open>The keys are distinct, lower-case and without a separator of paths or file names.\<close>

lemma Key_simps [simp, code]:
  "Key PLATFORM_UNSPECIFIED = ([], False)"
  "Key PLATFORM_WINDOWS_X64 = (''windows-x64'', True)"
  "Key PLATFORM_WINDOWS_X86 = (''windows-x86'', True)"
  "Key PLATFORM_WINDOWS_ARM64 = (''windows-arm64'', True)"
  "Key PLATFORM_LINUX = (''linux'', True)"
  "Key PLATFORM_LINUX_I386 = (''linux-i386'', True)"
  "Key PLATFORM_MAC_OS = (''mac-os'', True)"
  "Key PLATFORM_MAC_OS_ARM64 = (''mac-os-arm64'', True)"
  "Key PLATFORM_LINUX_ARM64 = (''linux-arm64'', True)"
  by code_simp+

lemma Key_other [simp, code]: "Key (PLATFORM_OTHER n) = ([], False)"
  by (simp add: Key_def)

lemma Key_inj: "Key p = (k, True) \<Longrightarrow> Key q = (k, True) \<Longrightarrow> p = q"
  by (cases p; cases q) auto

lemma Key_named: "Key p = (k, True) \<Longrightarrow> p \<in> set named_platforms"
  by (cases p) (auto simp: named_platforms_def)

lemma Parse_Key: "Key p = (k, True) \<Longrightarrow> to_lower lower (trim_space s) = k \<Longrightarrow> Parse lower s = (p, True)"
proof -
  assume p: "Key p = (k, True)" and s: "to_lower lower (trim_space s) = k"
  have "List.find (\<lambda>q. Key q = (k, True)) named_platforms \<noteq> None"
    using p Key_named[OF p] by (auto simp: find_None_iff)
  then obtain q where q: "List.find (\<lambda>q. Key q = (k, True)) named_platforms = Some q" by blast
  then have "Key q = (k, True)" by (auto simp: find_Some_iff)
  then have "q = p" using p by (rule Key_inj)
  then show "Parse lower s = (p, True)" using q by (simp add: Parse_def s)
qed

lemma Key_plain: "Key p = (k, True) \<Longrightarrow> k \<noteq> [] \<and> list_all (\<lambda>c. c \<noteq> CHR ''.'' \<and> c \<noteq> CHR ''/'') k"
  by (cases p) auto

end
