(* ===== verification/Manifest.thy ===== *)
theory Manifest
  imports Features Storage Platform
begin

text \<open>
  The manifest of a build (package \<open>manifest\<close>: \<open>build.go\<close>, \<open>settings.go\<close>, \<open>settings_validate.go\<close>,
  \<open>launchprofile.go\<close>, \<open>sign.go\<close>): the walk over the shared and the platform directory, which puts every
  file into the content-addressed store, the checks, and the canonical form that is signed.

  A directory is a tree with its entries in the order of the walk. A file carries what its two reads
  see, as \<open>cas_PutFile\<close> needs them; a directory that cannot be listed has no entries at all. The roots are
  clean paths, as \<open>filepath.Join\<close> makes them, so the directory \<open>platforms\<close> below the shared root is
  recognised. The JSON decoder, the protobuf encoder and the signature are parameters: a settings or
  profile file is missing, unreadable, corrupt or a value, and the profile is read twice, before the walk and
  after it. The progress report is not modelled.
\<close>

section \<open>Settings and launch profile\<close>

record settings =
  UserWritable :: "string list"
  Enforced :: "string list"
  ServerAddress :: string
  Loader :: string
  Install :: string
  Compat :: string
  CompatFiles :: "string list"
  JvmArgs :: "string list"
  GameArgs :: "string list"
  Classpath :: "string list"
  ClasspathExclude :: "string list"
  MainClass :: string
  FeatureGroups :: "group_spec list option"

definition no_settings :: settings where
  "no_settings = \<lparr>UserWritable = [], Enforced = [], ServerAddress = [], Loader = [], Install = [], Compat = [], CompatFiles = [],
     JvmArgs = [], GameArgs = [], Classpath = [], ClasspathExclude = [], MainClass = [], FeatureGroups = None\<rparr>"

definition DefaultUserWritable :: "string list" where
  "DefaultUserWritable =
     [''options.txt'', ''optionsof.txt'', ''optionsshaders.txt'', ''servers.dat'', ''servers.dat_old'', ''usercache.json'',
      ''config/'', ''saves/'', ''screenshots/'', ''logs/'', ''crash-reports/'', ''resourcepacks/'', ''shaderpacks/'',
      ''schematics/'', ''backups/'', ''journeymap/'', ''.fabric/'', ''.bobby/'']"

datatype 'a json_file = NoFile | Unreadable | Corrupt | Json 'a

datatype manifest_error = SettingsError | ProfileError | WalkError string | LinkInBuild string | PublishError cas_error
  | CriticalWritable "string list" | FeatureFault feature_error

definition LoadSettings :: "settings json_file \<Rightarrow> (manifest_error, settings) result" where
  "LoadSettings f =
     (case f of NoFile \<Rightarrow> Inr no_settings | Unreadable \<Rightarrow> Inl SettingsError | Corrupt \<Rightarrow> Inl SettingsError | Json s \<Rightarrow> Inr s)"

text \<open>\<open>EnsureDefaultSettings\<close>: the file after it; \<open>written\<close> is whether the disk took it.\<close>

definition EnsureDefaultSettings :: "bool \<Rightarrow> settings json_file \<Rightarrow> bool \<times> settings json_file" where
  "EnsureDefaultSettings written f =
     (case f of
        NoFile \<Rightarrow> (written, if written then Json (no_settings\<lparr>UserWritable := DefaultUserWritable\<rparr>) else NoFile)
      | _ \<Rightarrow> (True, f))"

text \<open>
  \<open>UpdateSettings\<close> on the fields of the JSON objects: the fields of the settings before and after, as the
  encoder writes them, and those of the file, which may have fields the settings do not know.
\<close>

definition update_fields ::
    "(string, string) amap \<Rightarrow> (string, string) amap \<Rightarrow> (string, string) amap \<Rightarrow> (string, string) amap" where
  "update_fields old_fields new_fields original =
     fold (\<lambda>(k, _) m. if lookup new_fields k = None then remove k m else m) old_fields
       (fold (\<lambda>(k, v) m. if lookup old_fields k = Some v then m else store k v m) new_fields original)"

record launch_profile =
  ProfileMainClass :: string
  JavaMajor :: int
  MinecraftVersion :: string
  VersionID :: string
  ProfileClasspath :: "string list"
  ExtraLibraries :: "string list"
  Natives :: "string list"

definition no_profile :: launch_profile where
  "no_profile = \<lparr>ProfileMainClass = [], JavaMajor = 0, MinecraftVersion = [], VersionID = [], ProfileClasspath = [],
     ExtraLibraries = [], Natives = []\<rparr>"

definition readLaunchProfile :: "launch_profile json_file \<Rightarrow> (manifest_error, launch_profile) result" where
  "readLaunchProfile f =
     (case f of NoFile \<Rightarrow> Inr no_profile | Unreadable \<Rightarrow> Inl ProfileError | Corrupt \<Rightarrow> Inl ProfileError | Json p \<Rightarrow> Inr p)"

definition minecraftVersionOf :: "launch_profile \<Rightarrow> string" where
  "minecraftVersionOf p = (if MinecraftVersion p \<noteq> [] then MinecraftVersion p else VersionID p)"

text \<open>\<open>None\<close> is the nil map: every library is taken.\<close>

definition neededLibraries :: "launch_profile \<Rightarrow> settings \<Rightarrow> string list option" where
  "neededLibraries p s =
     (let needed = ProfileClasspath p @ ExtraLibraries p @ Natives p @ Classpath s in
      if needed = [] then None else Some needed)"

section \<open>Policies\<close>

record manifest_file =
  Path :: string
  Object :: "object_ref option"
  Executable :: bool
  Policy :: file_policy

definition launchCriticalPrefixes :: "string list" where
  "launchCriticalPrefixes = [''mods/'', ''libraries/'', ''versions/'', ''runtime/'', ''assets/'']"

definition launch_critical :: "string \<Rightarrow> bool" where
  "launch_critical p \<longleftrightarrow> (has_suffix p ''.jar'' \<and> CHR ''/'' \<notin> set p) \<or> list_ex (has_prefix p) launchCriticalPrefixes"

definition validatePolicies :: "manifest_file list \<Rightarrow> manifest_error option" where
  "validatePolicies files =
     (let offenders = map Path (filter (\<lambda>f. Policy f = FILE_POLICY_USER_WRITABLE \<and> launch_critical (Path f)) files) in
      if offenders = [] then None else Some (CriticalWritable offenders))"

definition policy_of :: "settings \<Rightarrow> string \<Rightarrow> file_policy" where
  "policy_of s p =
     (case Resolve p (UserWritable s) (Enforced s) of Some policy \<Rightarrow> policy | None \<Rightarrow> FILE_POLICY_UNSPECIFIED)"

section \<open>The walk\<close>

datatype node =
    Dir string "node list option"
  | File string bool "string option" "string option"
  | Link string
  | NoInfo string

definition internalDir :: string where "internalDir = ''.laminara''"
definition platformsDirName :: string where "platformsDirName = ''platforms''"
definition librariesDir :: string where "librariesDir = ''libraries''"
definition SettingsFileName :: string where "SettingsFileName = ''laminara.settings.json''"

record 'b builder =
  b_hashes :: hashes
  b_cas :: "'b cas"
  b_settings :: settings
  b_needed :: "string list option"

type_synonym collected = "(string, manifest_file) amap"

definition below :: "string \<Rightarrow> string \<Rightarrow> string" where
  "below r name = (if r = [] then name else r @ ''/'' @ name)"

definition unneeded :: "bool \<Rightarrow> string list option \<Rightarrow> string \<Rightarrow> bool" where
  "unneeded skipShared needed p \<longleftrightarrow>
     skipShared \<and> has_prefix p (librariesDir @ ''/'') \<and> (case needed of None \<Rightarrow> False | Some ps \<Rightarrow> p \<notin> set ps)"

text \<open>\<open>depth\<close> 0 is the root, 1 an entry of the root; \<open>r\<close> is the path below the root.\<close>

fun take_node :: "'b builder \<Rightarrow> bool \<Rightarrow> nat \<Rightarrow> string \<Rightarrow> node \<Rightarrow> collected \<Rightarrow> 'b \<Rightarrow> (manifest_error, collected) result \<times> 'b"
  and take_list :: "'b builder \<Rightarrow> bool \<Rightarrow> nat \<Rightarrow> string \<Rightarrow> node list \<Rightarrow> collected \<Rightarrow> 'b \<Rightarrow> (manifest_error, collected) result \<times> 'b" where
  "take_node C skipShared depth r (Dir name entries) col w =
     (if name = internalDir then (Inr col, w)
      else if skipShared \<and> depth = 1 \<and> name = platformsDirName then (Inr col, w)
      else (case entries of
          None \<Rightarrow> (Inl (WalkError (below r name)), w)
        | Some ns \<Rightarrow> take_list C skipShared (depth + 1) (if depth = 0 then [] else below r name) ns col w))"
| "take_node C skipShared depth r (Link name) col w =
     (if name = SettingsFileName then (Inr col, w) else (Inl (LinkInBuild (below r name)), w))"
| "take_node C skipShared depth r (NoInfo name) col w =
     (if name = SettingsFileName \<or> unneeded skipShared (b_needed C) (below r name) then (Inr col, w)
      else (Inl (WalkError (below r name)), w))"
| "take_node C skipShared depth r (File name exe first reread) col w =
     (if name = SettingsFileName \<or> unneeded skipShared (b_needed C) (below r name) then (Inr col, w)
      else (case cas_PutFile (b_hashes C) (b_cas C) first reread w of
          (Inl e, w) \<Rightarrow> (Inl (PublishError e), w)
        | (Inr ref, w) \<Rightarrow>
            (Inr (store (below r name)
               \<lparr>Path = below r name, Object = Some ref, Executable = exe, Policy = policy_of (b_settings C) (below r name)\<rparr> col), w)))"
| "take_list C skipShared depth r [] col w = (Inr col, w)"
| "take_list C skipShared depth r (n # ns) col w =
     (case take_node C skipShared depth r n col w of
        (Inl e, w) \<Rightarrow> (Inl e, w)
      | (Inr col, w) \<Rightarrow> take_list C skipShared depth r ns col w)"

section \<open>The build\<close>

record manifest =
  SchemaVersion :: nat
  Modpack :: string
  BuildVersion :: string
  ManifestMinecraft :: string
  ManifestJava :: "32 word"
  GeneratedAt :: instant
  Files :: "manifest_file list"
  TotalSize :: "64 word"
  ManifestWritable :: "string list"
  ManifestEnforced :: "string list"
  ManifestAddress :: string
  ManifestLoader :: string
  ManifestFeatures :: "feature_group list option"
  ManifestPlatform :: platform
  ManifestJvmArgs :: "string list"
  ManifestGameArgs :: "string list"
  ManifestClasspath :: "string list"
  ManifestExclude :: "string list"
  ManifestMain :: string

record manifest_env =
  lower_rest :: "string \<Rightarrow> string"
  search_order :: "feature_group list \<Rightarrow> string list"

text \<open>The directories of one platform; the platform directory may be the shared one.\<close>

record sources =
  Shared :: node
  PlatformRoot :: "node option"

definition object_size :: "manifest_file \<Rightarrow> 64 word" where
  "object_size f = (case Object f of None \<Rightarrow> 0 | Some ref \<Rightarrow> RefSize ref)"

definition file_policies :: "manifest_file list \<Rightarrow> policies" where
  "file_policies files p = map_option Policy (List.find (\<lambda>f. Path f = p) files)"

definition file_sizes :: "manifest_file list \<Rightarrow> string \<Rightarrow> 64 word" where
  "file_sizes files p = (case List.find (\<lambda>f. Path f = p) files of None \<Rightarrow> 0 | Some f \<Rightarrow> object_size f)"

text \<open>The checks after the walk, and the manifest.\<close>

definition checked_features ::
    "manifest_env \<Rightarrow> settings \<Rightarrow> manifest_file list \<Rightarrow> (manifest_error, feature_group list option) result" where
  "checked_features E s files =
     (case featureModelFromSpec (lower_rest E) (FeatureGroups s) of
        None \<Rightarrow> Inr None
      | Some groups \<Rightarrow>
          (case validateFeatures (search_order E groups) (file_policies files) (Some groups) of
             Some e \<Rightarrow> Inl (FeatureFault e)
           | None \<Rightarrow> Inr (Some (map (computeAddedSizes (file_sizes files)) groups))))"

definition finish_manifest ::
    "manifest_env \<Rightarrow> settings \<Rightarrow> launch_profile json_file \<Rightarrow> string \<Rightarrow> string \<Rightarrow> platform \<Rightarrow> instant \<Rightarrow> manifest_file list \<Rightarrow>
     (manifest_error, manifest) result" where
  "finish_manifest E s profile_later modpack version p t files =
     (case validatePolicies files of
        Some e \<Rightarrow> Inl e
      | None \<Rightarrow>
          bind_res (checked_features E s files)
            (\<lambda>model.
               case validateBuildArgs (JvmArgs s) (GameArgs s) (Classpath s) of
                 Some e \<Rightarrow> Inl (FeatureFault e)
               | None \<Rightarrow>
                   bind_res (readLaunchProfile profile_later) (\<lambda>profile.
                     Inr \<lparr>SchemaVersion = 1, Modpack = modpack, BuildVersion = version, ManifestMinecraft = minecraftVersionOf profile,
                       ManifestJava = of_int (JavaMajor profile), GeneratedAt = t, Files = files,
                       TotalSize = sum_list (map object_size files), ManifestWritable = UserWritable s,
                       ManifestEnforced = Enforced s, ManifestAddress = ServerAddress s, ManifestLoader = Loader s,
                       ManifestFeatures = model, ManifestPlatform = p, ManifestJvmArgs = JvmArgs s,
                       ManifestGameArgs = GameArgs s, ManifestClasspath = Classpath s, ManifestExclude = ClasspathExclude s,
                       ManifestMain = MainClass s\<rparr>)))"

text \<open>The profile is read before the walk, for the libraries it needs, and again at the end.\<close>

definition BuildPlatform ::
    "manifest_env \<Rightarrow> hashes \<Rightarrow> 'b cas \<Rightarrow> sources \<Rightarrow> settings json_file \<Rightarrow> launch_profile json_file \<Rightarrow> launch_profile json_file \<Rightarrow>
     string \<Rightarrow> string \<Rightarrow> platform \<Rightarrow> instant \<Rightarrow> 'b \<Rightarrow> (manifest_error, manifest) result \<times> 'b" where
  "BuildPlatform E H c src settings_file profile_file profile_later modpack version p t w =
     (case LoadSettings settings_file of
        Inl e \<Rightarrow> (Inl e, w)
      | Inr s \<Rightarrow>
          (case readLaunchProfile profile_file of
             Inl e \<Rightarrow> (Inl e, w)
           | Inr profile \<Rightarrow>
               (let C = \<lparr>b_hashes = H, b_cas = c, b_settings = s, b_needed = neededLibraries profile s\<rparr> in
                case take_node C True 0 [] (Shared src) [] w of
                  (Inl e, w) \<Rightarrow> (Inl e, w)
                | (Inr col, w) \<Rightarrow>
                    (case (case PlatformRoot src of None \<Rightarrow> (Inr col, w) | Some n \<Rightarrow> take_node C False 0 [] n col w) of
                       (Inl e, w) \<Rightarrow> (Inl e, w)
                     | (Inr col, w) \<Rightarrow> (finish_manifest E s profile_later modpack version p t (map snd col), w)))))"

text \<open>\<open>Canonical\<close> sorts the files by path; the encoding itself is deterministic.\<close>

definition canonical_files :: "manifest \<Rightarrow> manifest" where
  "canonical_files m = m\<lparr>Files := sort_key Path (Files m)\<rparr>"

definition Canonical :: "(manifest \<Rightarrow> (string, string) result) \<Rightarrow> manifest \<Rightarrow> (string, string) result" where
  "Canonical marshal m = marshal (canonical_files m)"

definition Sign :: "(manifest \<Rightarrow> (string, string) result) \<Rightarrow> (string \<Rightarrow> string) \<Rightarrow> manifest \<Rightarrow> (string, string \<times> string) result" where
  "Sign marshal sign m = bind_res (Canonical marshal m) (\<lambda>c. Inr (c, sign c))"

section \<open>Settings that are changed while the server runs\<close>

text \<open>The walk of \<open>ValidateSettings\<close>: only the policies of the paths.\<close>

fun policy_node :: "settings \<Rightarrow> bool \<Rightarrow> nat \<Rightarrow> string \<Rightarrow> node \<Rightarrow> (string, file_policy) amap \<Rightarrow> (manifest_error, (string, file_policy) amap) result"
  and policy_list :: "settings \<Rightarrow> bool \<Rightarrow> nat \<Rightarrow> string \<Rightarrow> node list \<Rightarrow> (string, file_policy) amap \<Rightarrow> (manifest_error, (string, file_policy) amap) result" where
  "policy_node s skipShared depth r (Dir name entries) m =
     (if name = internalDir \<or> (skipShared \<and> depth = 1 \<and> name = platformsDirName) then Inr m
      else (case entries of
          None \<Rightarrow> Inl (WalkError (below r name))
        | Some ns \<Rightarrow> policy_list s skipShared (depth + 1) (if depth = 0 then [] else below r name) ns m))"
| "policy_node s skipShared depth r (Link name) m =
     (if name = SettingsFileName then Inr m else Inl (LinkInBuild (below r name)))"
| "policy_node s skipShared depth r (NoInfo name) m =
     (if name = SettingsFileName then Inr m else Inr (store (below r name) (policy_of s (below r name)) m))"
| "policy_node s skipShared depth r (File name exe first reread) m =
     (if name = SettingsFileName then Inr m else Inr (store (below r name) (policy_of s (below r name)) m))"
| "policy_list s skipShared depth r [] m = Inr m"
| "policy_list s skipShared depth r (n # ns) m =
     bind_res (policy_node s skipShared depth r n m) (policy_list s skipShared depth r ns)"

definition validate_source :: "manifest_env \<Rightarrow> settings \<Rightarrow> sources \<Rightarrow> manifest_error option" where
  "validate_source E s src =
     (case bind_res (policy_node s True 0 [] (Shared src) [])
         (\<lambda>m. case PlatformRoot src of None \<Rightarrow> Inr m | Some n \<Rightarrow> policy_node s False 0 [] n m) of
        Inl e \<Rightarrow> Some e
      | Inr m \<Rightarrow>
          (case validatePolicies (map (\<lambda>(p, rule). \<lparr>Path = p, Object = None, Executable = False, Policy = rule\<rparr>) m) of
             Some e \<Rightarrow> Some e
           | None \<Rightarrow>
               (case featureModelFromSpec (lower_rest E) (FeatureGroups s) of
                  None \<Rightarrow> None
                | Some groups \<Rightarrow> map_option FeatureFault (validateFeatures (search_order E groups) (lookup m) (Some groups)))))"

definition ValidateSettings :: "manifest_env \<Rightarrow> sources list \<Rightarrow> settings \<Rightarrow> manifest_error option" where
  "ValidateSettings E srcs s =
     (case validateBuildArgs (JvmArgs s) (GameArgs s) (Classpath s) of
        Some e \<Rightarrow> Some (FeatureFault e)
      | None \<Rightarrow>
          if srcs = [] then
            (case featureModelFromSpec (lower_rest E) (FeatureGroups s) of
               None \<Rightarrow> None
             | Some groups \<Rightarrow> map_option FeatureFault (validateFeatures (search_order E groups) (\<lambda>_. None) (Some groups)))
          else first_err (validate_source E s) srcs)"

section \<open>What a manifest lists\<close>

text \<open>Names of a file system have no slash and are not empty.\<close>

fun plain_node :: "node \<Rightarrow> bool" where
  "plain_node (Dir name entries) \<longleftrightarrow> name \<noteq> [] \<and> CHR ''/'' \<notin> set name \<and> (\<forall>ns. entries = Some ns \<longrightarrow> (\<forall>n \<in> set ns. plain_node n))"
| "plain_node (File name exe first reread) \<longleftrightarrow> name \<noteq> [] \<and> CHR ''/'' \<notin> set name"
| "plain_node (Link name) \<longleftrightarrow> name \<noteq> [] \<and> CHR ''/'' \<notin> set name"
| "plain_node (NoInfo name) \<longleftrightarrow> name \<noteq> [] \<and> CHR ''/'' \<notin> set name"

text \<open>A directory the walk is in: the root, or a path without the internal directory.\<close>

definition open_dir :: "string \<Rightarrow> bool" where
  "open_dir r \<longleftrightarrow> r = [] \<or> internalDir \<notin> set (split_on CHR ''/'' r)"

definition publishable :: "string \<Rightarrow> bool" where
  "publishable p \<longleftrightarrow> internalDir \<notin> set (butlast (split_on CHR ''/'' p)) \<and> last (split_on CHR ''/'' p) \<noteq> SettingsFileName"

lemma below_split: "CHR ''/'' \<notin> set name \<Longrightarrow> r \<noteq> [] \<Longrightarrow> split_on CHR ''/'' (below r name) = split_on CHR ''/'' r @ [name]"
  using split_on_append2[of "CHR ''/''" r name] by (simp add: below_def split_on_id)

lemma open_dir_below: "open_dir r \<Longrightarrow> CHR ''/'' \<notin> set name \<Longrightarrow> name \<noteq> internalDir \<Longrightarrow> open_dir (below r name)"
  by (cases "r = []") (auto simp: open_dir_def below_split, auto simp: below_def split_on_id)

lemma publishable_below: "open_dir r \<Longrightarrow> CHR ''/'' \<notin> set name \<Longrightarrow> name \<noteq> SettingsFileName \<Longrightarrow> publishable (below r name)"
  by (cases "r = []") (auto simp: open_dir_def publishable_def below_split, auto simp: below_def split_on_id)

text \<open>The object of a file is in the store under the hash the manifest names.\<close>

definition stored_object :: "hashes \<Rightarrow> fs_config \<Rightarrow> fs_state \<Rightarrow> manifest_file \<Rightarrow> bool" where
  "stored_object H b w f \<longleftrightarrow>
     (\<exists>ref x h k d. Object f = Some ref \<and> RefHash ref = Some x \<and> newHasher H (Algo x) = Some h \<and>
        ObjectKey (Algo x) (Value x) = Some k \<and> file_at w (resolve b k) = Some d \<and> h d = Value x)"

lemma stored_keeps: "fs.keeps b H w w' \<Longrightarrow> stored_object H b w f \<Longrightarrow> stored_object H b w' f"
  unfolding stored_object_def fs.keeps_def keeps_objects_def fs_view_def object_key_def by metis

definition walked :: "fs_config \<Rightarrow> fs_state builder \<Rightarrow> collected \<Rightarrow> fs_state \<Rightarrow> bool" where
  "walked b C col w \<longleftrightarrow>
     keys_ok col \<and> sound_objects (b_hashes C) (fs_view b w) \<and>
     (\<forall>(p, f) \<in> set col. Path f = p \<and> publishable p \<and> Policy f = policy_of (b_settings C) p \<and> stored_object (b_hashes C) b w f)"

lemma set_store: "set (store k v m) \<subseteq> insert (k, v) (set m)"
  by (induction m) auto

lemma walked_store:
  assumes "walked b C col w" "fs.keeps b (b_hashes C) w w'" "Path f = p" "publishable p" "Policy f = policy_of (b_settings C) p"
    and "stored_object (b_hashes C) b w' f"
  shows "walked b C (store p f col) w'"
proof -
  have "\<forall>(q, g) \<in> set col. Path g = q \<and> publishable q \<and> Policy g = policy_of (b_settings C) q \<and> stored_object (b_hashes C) b w' g"
    using assms(1) stored_keeps[OF assms(2)] unfolding walked_def by blast
  then have "\<forall>(q, g) \<in> set (store p f col). Path g = q \<and> publishable q \<and> Policy g = policy_of (b_settings C) q \<and> stored_object (b_hashes C) b w' g"
    using set_store[of p f col] assms(3-6) by blast
  then show ?thesis using assms(1,2) by (simp add: walked_def fs.keeps_def)
qed

lemma published_stored:
  assumes "fs.published b H c data ref w"
  shows "stored_object H b w \<lparr>Path = p, Object = Some ref, Executable = x, Policy = q\<rparr>"
proof -
  obtain h k d where "newHasher H (cas_algo c) = Some h" "ref = objectRef (cas_algo c) (h data) (length data)"
      "ObjectKey (cas_algo c) (h data) = Some k" "fs_view b w k = Some d" "h d = h data"
    using assms by (auto simp: fs.published_def)
  then show ?thesis by (auto simp: stored_object_def objectRef_def fs_view_def)
qed

lemma take_walked:
  assumes "backend_of (b_cas C) = fs_backend b"
  shows "take_node C skip depth r n col w = (Inr col', w') \<Longrightarrow> plain_node n \<Longrightarrow> open_dir r \<Longrightarrow> (depth = 0 \<longrightarrow> r = []) \<Longrightarrow>
      walked b C col w \<Longrightarrow> walked b C col' w'"
    and "take_list C skip depth r ns col w = (Inr col', w') \<Longrightarrow> (\<forall>n \<in> set ns. plain_node n) \<Longrightarrow> open_dir r \<Longrightarrow> (depth = 0 \<longrightarrow> r = []) \<Longrightarrow>
      walked b C col w \<Longrightarrow> walked b C col' w'"
  using assms
proof (induction C skip depth r n col w and C skip depth r ns col w arbitrary: col' w' and col' w' rule: take_node_take_list.induct)
  case (1 C skip depth r name entries col w)
  show ?case
  proof (cases "name = internalDir \<or> (skip \<and> depth = 1 \<and> name = platformsDirName)")
    case True
    then show ?thesis using "1.prems" by (auto split: if_splits)
  next
    case False
    then obtain ns where ns: "entries = Some ns"
        "take_list C skip (depth + 1) (if depth = 0 then [] else below r name) ns col w = (Inr col', w')"
      using "1.prems"(1) by (auto split: option.splits)
    have "open_dir (if depth = 0 then [] else below r name)"
      using open_dir_below[of r name] "1.prems"(2,3) False by (auto simp: open_dir_def)
    then show ?thesis using "1.IH"[OF _ _ ns(1) ns(2)] False "1.prems"(2,5,6) ns(1) by auto
  qed
next
  case (4 C skip depth r name exe first reread col w)
  show ?case
  proof (cases "name = SettingsFileName \<or> unneeded skip (b_needed C) (below r name)")
    case True
    then show ?thesis using "4.prems" by auto
  next
    case False
    let ?p = "below r name"
    let ?f = "\<lambda>ref. \<lparr>Path = ?p, Object = Some ref, Executable = exe, Policy = policy_of (b_settings C) ?p\<rparr>"
    obtain ref where put: "cas_PutFile (b_hashes C) (b_cas C) first reread w = (Inr ref, w')" and col': "col' = store ?p (?f ref) col"
      using "4.prems"(1) False by (auto split: prod.splits sum.splits)
    have "sound_objects (b_hashes C) (fs_view b w)" using "4.prems"(5) by (simp add: walked_def)
    from fs.PutFile_objects[OF "4.prems"(6) put this] obtain data where
      keep: "fs.keeps b (b_hashes C) w w'" and pub: "fs.published b (b_hashes C) (b_cas C) data ref w'"
      by auto
    have "publishable ?p" using publishable_below "4.prems"(2,3) False by simp
    then show ?thesis unfolding col'
      by (intro walked_store[OF "4.prems"(5) keep]) (simp_all add: published_stored[OF pub])
  qed
next
  case (6 C skip depth r n ns col w)
  obtain col1 w1 where one: "take_node C skip depth r n col w = (Inr col1, w1)" "take_list C skip depth r ns col1 w1 = (Inr col', w')"
    using "6.prems"(1) by (auto split: prod.splits sum.splits)
  have "walked b C col1 w1" by (rule "6.IH"(1)[OF one(1)]) (use "6.prems" in auto)
  then show ?case using "6.IH"(2)[OF one(1)[symmetric] _ one(2)] "6.prems" by auto
qed (auto split: if_splits)

lemma finish_parts:
  assumes "finish_manifest E s profile_later modpack version p t files = Inr m"
  shows "Files m = files" "validatePolicies files = None" "ManifestFeatures m = None \<or>
     (\<exists>groups. validateFeatures (search_order E groups) (file_policies files) (Some groups) = None \<and>
        ManifestFeatures m = Some (map (computeAddedSizes (file_sizes files)) groups))"
  using assms by (auto simp: finish_manifest_def checked_features_def res_simps split: option.splits sum.splits)

lemma build_walked:
  assumes "BuildPlatform E H c src sf pf pf' modpack version p t w = (Inr m, w')" "backend_of c = fs_backend b"
    and "sound_objects H (fs_view b w)" "plain_node (Shared src)" "\<forall>n. PlatformRoot src = Some n \<longrightarrow> plain_node n"
  shows "\<exists>s profile col. LoadSettings sf = Inr s \<and> readLaunchProfile pf = Inr profile \<and>
    walked b \<lparr>b_hashes = H, b_cas = c, b_settings = s, b_needed = neededLibraries profile s\<rparr> col w' \<and>
    finish_manifest E s pf' modpack version p t (map snd col) = Inr m"
proof -
  obtain s where s: "LoadSettings sf = Inr s" using assms(1) by (auto simp: BuildPlatform_def split: sum.splits)
  obtain profile where profile: "readLaunchProfile pf = Inr profile"
    using assms(1) by (auto simp: BuildPlatform_def s split: sum.splits)
  define C where "C = \<lparr>b_hashes = H, b_cas = c, b_settings = s, b_needed = neededLibraries profile s\<rparr>"
  obtain r1 w1 where one: "take_node C True 0 [] (Shared src) [] w = (r1, w1)" by fastforce
  obtain col1 where r1: "r1 = Inr col1" using assms(1) one by (cases r1) (auto simp: BuildPlatform_def s profile C_def)
  define two where "two = (case PlatformRoot src of None \<Rightarrow> (Inr col1, w1) | Some n \<Rightarrow> take_node C False 0 [] n col1 w1)"
  have all: "(case two of (Inl e, w) \<Rightarrow> (Inl e, w) | (Inr col, w) \<Rightarrow> (finish_manifest E s pf' modpack version p t (map snd col), w)) = (Inr m, w')"
    using assms(1) one unfolding two_def C_def by (simp add: BuildPlatform_def s profile r1)
  then obtain col where col: "two = (Inr col, w')" "finish_manifest E s pf' modpack version p t (map snd col) = Inr m"
    by (auto split: prod.splits sum.splits)
  have "walked b C [] w" using assms(3) by (simp add: walked_def C_def)
  then have w1: "walked b C col1 w1"
    using take_walked(1)[OF _ one[unfolded r1] assms(4)] assms(2) by (simp add: C_def open_dir_def)
  have "walked b C col w'"
  proof (cases "PlatformRoot src")
    case None
    then show ?thesis using col(1) w1 by (simp add: two_def)
  next
    case (Some n)
    then show ?thesis using take_walked(1)[of C b False 0 "[]" n col1 w1 col w'] col(1) w1 assms(2,5)
      by (simp add: two_def C_def open_dir_def)
  qed
  then show ?thesis using s profile col(2) by (auto simp: C_def)
qed

text \<open>
  C39: A manifest that is built over the store on the file system can be downloaded: when every object the
  store had before had the hash of its key, every file the manifest lists has its object in the store,
  with exactly the hash the manifest names, even when files changed while the build was read. The
  hypothesis is needed, since \<open>PutFile\<close> trusts an object that is there without reading it; that the
  store keeps it is \<open>objects_keep_their_hash\<close>.
\<close>

theorem manifest_objects_are_stored:
  assumes "BuildPlatform E H (NewCAS (fs_backend b) algo) src sf pf pf' modpack version p t w = (Inr m, w')"
    and "sound_objects H (fs_view b w)" "plain_node (Shared src)" "\<forall>n. PlatformRoot src = Some n \<longrightarrow> plain_node n" "f \<in> set (Files m)"
  shows "\<exists>ref x h k d. Object f = Some ref \<and> RefHash ref = Some x \<and> newHasher H (Algo x) = Some h \<and>
    ObjectKey (Algo x) (Value x) = Some k \<and> file_at w' (resolve b k) = Some d \<and> h d = Value x"
proof -
  have "backend_of (NewCAS (fs_backend b) algo) = fs_backend b" by (simp add: NewCAS_def)
  from build_walked[OF assms(1) this assms(2-4)] obtain s profile col where
    col: "walked b \<lparr>b_hashes = H, b_cas = NewCAS (fs_backend b) algo, b_settings = s, b_needed = neededLibraries profile s\<rparr> col w'"
    and fin: "finish_manifest E s pf' modpack version p t (map snd col) = Inr m" by blast
  have "f \<in> snd ` set col" using assms(5) finish_parts(1)[OF fin] by simp
  then show ?thesis using col by (auto simp: walked_def stored_object_def)
qed

text \<open>
  What a manifest lists: each path once, no file below a directory \<open>.laminara\<close> and no settings file,
  every file under the policy that \<open>Resolve\<close> gives its path, and no file the game cannot start without
  left for the player to change.
\<close>

theorem manifest_paths:
  assumes "BuildPlatform E H (NewCAS (fs_backend b) algo) src sf pf pf' modpack version p t w = (Inr m, w')"
    and "sound_objects H (fs_view b w)" "plain_node (Shared src)" "\<forall>n. PlatformRoot src = Some n \<longrightarrow> plain_node n"
  shows "distinct (map Path (Files m)) \<and> (\<exists>s. LoadSettings sf = Inr s \<and>
    (\<forall>f \<in> set (Files m). internalDir \<notin> set (butlast (split_on CHR ''/'' (Path f))) \<and>
       last (split_on CHR ''/'' (Path f)) \<noteq> SettingsFileName \<and> Policy f = policy_of s (Path f) \<and>
       (launch_critical (Path f) \<longrightarrow> Policy f \<noteq> FILE_POLICY_USER_WRITABLE)))"
proof -
  have "backend_of (NewCAS (fs_backend b) algo) = fs_backend b" by (simp add: NewCAS_def)
  from build_walked[OF assms(1) this assms(2-4)] obtain s profile col where s: "LoadSettings sf = Inr s" and
    col: "walked b \<lparr>b_hashes = H, b_cas = NewCAS (fs_backend b) algo, b_settings = s, b_needed = neededLibraries profile s\<rparr> col w'"
    and fin: "finish_manifest E s pf' modpack version p t (map snd col) = Inr m" by blast
  have files: "Files m = map snd col" by (rule finish_parts(1)[OF fin])
  have paths: "map Path (map snd col) = map fst col" using col by (auto simp: walked_def)
  have "distinct (map Path (Files m))" unfolding files paths using col by (simp add: walked_def keys_ok_def)
  moreover have "\<forall>f \<in> set (Files m). publishable (Path f) \<and> Policy f = policy_of s (Path f)"
    using col by (auto simp: files walked_def)
  moreover have "\<forall>f \<in> set (Files m). launch_critical (Path f) \<longrightarrow> Policy f \<noteq> FILE_POLICY_USER_WRITABLE"
    using finish_parts(2)[OF fin] unfolding files by (auto simp: validatePolicies_def Let_def filter_empty_conv split: if_splits)
  ultimately show ?thesis using s by (auto simp: publishable_def)
qed

definition sample_tree :: node where
  "sample_tree = Dir ''pack'' (Some
     [Dir ''.laminara'' (Some [File ''key'' False (Some ''secret'') (Some ''secret'')]),
      Dir ''mods'' (Some [File ''a.jar'' False (Some ''aa'') (Some ''aa'')]),
      File ''laminara.settings.json'' False (Some ''{}'') (Some ''{}'')])"

definition sample_manifest_env :: manifest_env where
  "sample_manifest_env = \<lparr>lower_rest = (\<lambda>s. s), search_order = (\<lambda>gs. map fst (dependencies_of gs))\<rparr>"

definition sample_built :: "manifest \<times> fs_state" where
  "sample_built = (case BuildPlatform sample_manifest_env plain_hashes (NewCAS (fs_backend var_objects) HASH_ALGO_BLAKE3)
      \<lparr>Shared = sample_tree, PlatformRoot = None\<rparr> NoFile NoFile NoFile ''pack'' ''1'' PLATFORM_LINUX 0 (empty_disk []) of
    (Inr m, w) \<Rightarrow> (m, w) | _ \<Rightarrow> undefined)"

lemma sample_builds:
  "BuildPlatform sample_manifest_env plain_hashes (NewCAS (fs_backend var_objects) HASH_ALGO_BLAKE3)
     \<lparr>Shared = sample_tree, PlatformRoot = None\<rparr> NoFile NoFile NoFile ''pack'' ''1'' PLATFORM_LINUX 0 (empty_disk []) = (Inr (fst sample_built), snd sample_built)"
proof -
  have "isl (fst (BuildPlatform sample_manifest_env plain_hashes (NewCAS (fs_backend var_objects) HASH_ALGO_BLAKE3)
     \<lparr>Shared = sample_tree, PlatformRoot = None\<rparr> NoFile NoFile NoFile ''pack'' ''1'' PLATFORM_LINUX 0 (empty_disk []))) = False"
    by code_simp
  then show ?thesis unfolding sample_built_def by (auto split: prod.splits sum.splits)
qed

lemma sample_plain: "plain_node sample_tree"
  by (simp add: sample_tree_def)

lemma manifest_objects_are_stored_witness:
  "map Path (Files (fst sample_built)) = [''mods/a.jar''] \<and>
   (\<exists>k d. ObjectKey HASH_ALGO_BLAKE3 ''aa'' = Some k \<and> file_at (snd sample_built) (resolve var_objects k) = Some d \<and> blake3 plain_hashes d = ''aa'')"
proof -
  let ?f = "\<lparr>Path = ''mods/a.jar'', Object = Some \<lparr>RefHash = Some \<lparr>Algo = HASH_ALGO_BLAKE3, Value = ''aa''\<rparr>, RefSize = 2\<rparr>, Executable = False, Policy = FILE_POLICY_UNSPECIFIED\<rparr>"
  have files: "Files (fst sample_built) = [?f]" by code_simp
  then have "?f \<in> set (Files (fst sample_built))" by simp
  from manifest_objects_are_stored[OF sample_builds empty_sound _ _ this] show ?thesis
    using files sample_plain by auto
qed

lemma manifest_paths_witness:
  "distinct (map Path (Files (fst sample_built))) \<and> map Policy (Files (fst sample_built)) = [policy_of no_settings ''mods/a.jar'']"
proof -
  have "LoadSettings NoFile = Inr no_settings" by (simp add: LoadSettings_def)
  moreover have "map Path (Files (fst sample_built)) = [''mods/a.jar'']" by code_simp
  ultimately show ?thesis using manifest_paths[OF sample_builds empty_sound] sample_plain by (auto simp: map_eq_Cons_conv)
qed

section \<open>Settings that were accepted can be published\<close>

text \<open>The files that the options of a group name, for the player or for the class path.\<close>

fun named_files :: "feature_group \<Rightarrow> string list"
  and option_named :: "feature_option \<Rightarrow> string list" where
  "named_files (FeatureGroup g t d sel req opts) = concat (map option_named opts)"
| "option_named (FeatureOption i t d e fs gs m js as cs) = fs @ cs @ concat (map named_files gs)"

lemma first_err_same: "(\<And>x. x \<in> set xs \<Longrightarrow> f x = None \<longleftrightarrow> g x = None) \<Longrightarrow> first_err f xs = None \<longleftrightarrow> first_err g xs = None"
  by (simp add: first_err_None)

lemma launch_args_same:
  "(\<forall>f \<in> set (OptionClasspath opt). P f = Q f) \<Longrightarrow> validateLaunchArgs P opt = None \<longleftrightarrow> validateLaunchArgs Q opt = None"
  unfolding validateLaunchArgs_def or_else_None by (intro arg_cong2[of _ _ _ _ "(\<and>)"] refl first_err_same) auto

lemma wf_same:
  "(\<forall>f \<in> set (named_files g). P f = Q f) \<Longrightarrow> wf_group P g \<longleftrightarrow> wf_group Q g"
  "(\<forall>f \<in> set (option_named opt). P f = Q f) \<Longrightarrow> wf_option P opt \<longleftrightarrow> wf_option Q opt"
proof (induction g and opt rule: named_files_option_named.induct)
  case (1 g t d sel req opts)
  then have "\<forall>opt \<in> set opts. wf_option P opt \<longleftrightarrow> wf_option Q opt" by auto
  then show ?case by auto
next
  case (2 i t d e fs gs m js as cs)
  then have "\<forall>g \<in> set gs. wf_group P g \<longleftrightarrow> wf_group Q g" "\<forall>f \<in> set fs. P f = Q f" by auto
  moreover have "validateLaunchArgs P (FeatureOption i t d e fs gs m js as cs) = None \<longleftrightarrow>
      validateLaunchArgs Q (FeatureOption i t d e fs gs m js as cs) = None"
    by (rule launch_args_same) (use 2 in auto)
  ultimately show ?case by simp
qed

lemma features_same:
  assumes "validateFeatures order P (Some groups) = None" "\<forall>g \<in> set groups. \<forall>f \<in> set (named_files g). P f = Q f"
  shows "validateFeatures order Q (Some groups) = None"
proof -
  have "\<forall>g \<in> set groups. wf_group P g \<longleftrightarrow> wf_group Q g" using wf_same(1) assms(2) by blast
  then show ?thesis using assms(1) by (simp add: validateFeatures_def validate_iff(1))
qed

definition from_outside :: "manifest_error \<Rightarrow> bool" where
  "from_outside e \<longleftrightarrow> (\<exists>x. e = PublishError x) \<or> (\<exists>p. e = WalkError p)"

text \<open>
  What a build has taken against what the check has seen: the same policies, and all but libraries that
  the build does not need.
\<close>

definition follows :: "settings \<Rightarrow> string list option \<Rightarrow> collected \<Rightarrow> (string, file_policy) amap \<Rightarrow> bool" where
  "follows s needed col m \<longleftrightarrow> (\<forall>(p, f) \<in> set col. Path f = p \<and> Policy f = policy_of s p) \<and> (\<forall>(p, rule) \<in> set m. rule = policy_of s p) \<and>
     fst ` set col \<subseteq> fst ` set m \<and> (\<forall>p \<in> fst ` set m. p \<in> fst ` set col \<or> unneeded True needed p)"

lemma keys_store: "fst ` set (store k v m) = insert k (fst ` set m)"
  using AList.dom_update[of k v m] by (simp add: dom_map_of_conv_image_fst)

lemma follows_both:
  assumes "follows s needed col m" "Path f = p" "Policy f = policy_of s p"
  shows "follows s needed (store p f col) (store p (policy_of s p) m)"
proof -
  have "\<forall>(q, g) \<in> set (store p f col). Path g = q \<and> Policy g = policy_of s q"
    using assms set_store[of p f col] unfolding follows_def by blast
  moreover have "\<forall>(q, rule) \<in> set (store p (policy_of s p) m). rule = policy_of s q"
    using assms(1) set_store[of p "policy_of s p" m] unfolding follows_def by blast
  ultimately show ?thesis using assms(1) unfolding follows_def keys_store by blast
qed

lemma follows_seen:
  assumes "follows s needed col m" "unneeded True needed p"
  shows "follows s needed col (store p (policy_of s p) m)"
proof -
  have "\<forall>(q, rule) \<in> set (store p (policy_of s p) m). rule = policy_of s q"
    using assms(1) set_store[of p "policy_of s p" m] unfolding follows_def by blast
  then show ?thesis using assms unfolding follows_def keys_store by blast
qed

definition agrees :: "settings \<Rightarrow> string list option \<Rightarrow> (manifest_error, collected) result \<Rightarrow>
    (manifest_error, (string, file_policy) amap) result \<Rightarrow> bool" where
  "agrees s needed res pol \<longleftrightarrow>
     (case res of Inr col \<Rightarrow> \<exists>m. pol = Inr m \<and> follows s needed col m | Inl e \<Rightarrow> from_outside e \<or> pol = Inl e)"

lemma agrees_simps [simp]:
  "agrees s needed (Inr col) pol \<longleftrightarrow> (\<exists>m. pol = Inr m \<and> follows s needed col m)"
  "agrees s needed (Inl e) pol \<longleftrightarrow> from_outside e \<or> pol = Inl e"
  by (simp_all add: agrees_def)

lemma unneeded_True: "unneeded skip needed p \<Longrightarrow> unneeded True needed p"
  by (simp add: unneeded_def)

text \<open>The walk of a build against the walk of the check.\<close>

lemma take_policies:
  "follows (b_settings C) (b_needed C) col m \<Longrightarrow>
     agrees (b_settings C) (b_needed C) (fst (take_node C skip depth r n col w)) (policy_node (b_settings C) skip depth r n m)"
  "follows (b_settings C) (b_needed C) col m \<Longrightarrow>
     agrees (b_settings C) (b_needed C) (fst (take_list C skip depth r ns col w)) (policy_list (b_settings C) skip depth r ns m)"
proof (induction C skip depth r n col w and C skip depth r ns col w arbitrary: m and m rule: take_node_take_list.induct)
  case (1 C skip depth r name entries col w)
  then show ?case by (cases entries) (auto simp: from_outside_def)
next
  case (3 C skip depth r name col w)
  then show ?case by (auto simp: from_outside_def intro: follows_seen unneeded_True)
next
  case (4 C skip depth r name exe first reread col w)
  let ?p = "below r name"
  show ?case
  proof (cases "name = SettingsFileName \<or> unneeded skip (b_needed C) ?p")
    case True
    then show ?thesis using 4 by (auto intro: follows_seen unneeded_True)
  next
    case False
    then show ?thesis using 4 by (auto simp: from_outside_def intro: follows_both split: prod.splits sum.splits)
  qed
next
  case (6 C skip depth r n ns col w)
  obtain r1 w1 where one: "take_node C skip depth r n col w = (r1, w1)" by fastforce
  note IH = "6.IH"(1)[OF "6.prems", unfolded one fst_conv]
  show ?case
  proof (cases r1)
    case (Inl e)
    then show ?thesis using IH one by auto
  next
    case (Inr col1)
    then obtain m1 where "policy_node (b_settings C) skip depth r n m = Inr m1" "follows (b_settings C) (b_needed C) col1 m1"
      using IH by auto
    then show ?thesis using "6.IH"(2)[OF one[symmetric] Inr, of m1] one Inr by simp
  qed
qed auto

definition both_walks ::
    "'b builder \<Rightarrow> sources \<Rightarrow> 'b \<Rightarrow> (manifest_error, collected) result \<times> 'b" where
  "both_walks C src w =
     (case take_node C True 0 [] (Shared src) [] w of
        (Inl e, w) \<Rightarrow> (Inl e, w)
      | (Inr col, w) \<Rightarrow> (case PlatformRoot src of None \<Rightarrow> (Inr col, w) | Some n \<Rightarrow> take_node C False 0 [] n col w))"

definition both_policies :: "settings \<Rightarrow> sources \<Rightarrow> (manifest_error, (string, file_policy) amap) result" where
  "both_policies s src =
     bind_res (policy_node s True 0 [] (Shared src) [])
       (\<lambda>m. case PlatformRoot src of None \<Rightarrow> Inr m | Some n \<Rightarrow> policy_node s False 0 [] n m)"

lemma walks_agree:
  assumes "both_walks C src w = (res, w')"
  shows "agrees (b_settings C) (b_needed C) res (both_policies (b_settings C) src)"
proof -
  obtain r1 w1 where one: "take_node C True 0 [] (Shared src) [] w = (r1, w1)" by fastforce
  have "follows (b_settings C) (b_needed C) [] []" by (simp add: follows_def)
  note first = take_policies(1)[OF this, of True 0 "[]" "Shared src" w, unfolded one fst_conv]
  show ?thesis
  proof (cases r1)
    case (Inl e1)
    then show ?thesis using first assms by (auto simp: both_walks_def both_policies_def one)
  next
    case (Inr col1)
    then obtain m1 where m1: "policy_node (b_settings C) True 0 [] (Shared src) [] = Inr m1" "follows (b_settings C) (b_needed C) col1 m1"
      using first by auto
    show ?thesis
    proof (cases "PlatformRoot src")
      case None
      then show ?thesis using m1 Inr assms by (auto simp: both_walks_def both_policies_def one)
    next
      case (Some n)
      then have "take_node C False 0 [] n col1 w1 = (res, w')" using assms Inr by (simp add: both_walks_def one)
      then show ?thesis using take_policies(1)[OF m1(2), of False 0 "[]" n w1] m1(1) Some by (simp add: both_policies_def)
    qed
  qed
qed

lemma follows_policy: "follows s needed col m \<Longrightarrow> (q, rule) \<in> set m \<Longrightarrow> rule = policy_of s q"
  unfolding follows_def by blast

lemma follows_lookup: "follows s needed col m \<Longrightarrow> lookup m p = (if p \<in> fst ` set m then Some (policy_of s p) else None)"
proof (cases "lookup m p")
  case None
  then show ?thesis by (simp add: lookup_None_iff)
next
  case (Some rule)
  then have rule: "(p, rule) \<in> set m" by (rule map_of_SomeD)
  then have "p \<in> fst ` set m" by (rule image_eqI[rotated]) simp
  moreover assume "follows s needed col m"
  ultimately show ?thesis using follows_policy[OF _ rule] Some by simp
qed

lemma follows_found: "follows s needed col m \<Longrightarrow> file_policies (map snd col) p = (if p \<in> fst ` set col then Some (policy_of s p) else None)"
proof -
  assume f: "follows s needed col m"
  then have own: "\<forall>(q, f) \<in> set col. Path f = q \<and> Policy f = policy_of s q" unfolding follows_def by blast
  then show ?thesis
  proof (induction col)
    case (Cons x col)
    obtain q f where x: "x = (q, f)" by (cases x)
    then have "Path f = q" "Policy f = policy_of s q" and IH: "file_policies (map snd col) p = (if p \<in> fst ` set col then Some (policy_of s p) else None)"
      using Cons by simp_all
    then show ?case by (cases "q = p") (simp_all add: x file_policies_def)
  qed (simp add: file_policies_def)
qed

lemma validated_finish:
  assumes "validate_source E s src = None" "both_policies s src = Inr m" "follows s needed col m"
    and "validateBuildArgs (JvmArgs s) (GameArgs s) (Classpath s) = None" "readLaunchProfile pf' = Inr launch"
    and "\<And>groups g f. featureModelFromSpec (lower_rest E) (FeatureGroups s) = Some groups \<Longrightarrow> g \<in> set groups \<Longrightarrow> f \<in> set (named_files g) \<Longrightarrow>
      \<not> unneeded True needed f"
  shows "\<exists>man. finish_manifest E s pf' modpack version p t (map snd col) = Inr man"
proof -
  let ?files = "map (\<lambda>(p, rule). \<lparr>Path = p, Object = None, Executable = False, Policy = rule\<rparr>) m"
  have ok: "validatePolicies ?files = None"
    and feat: "featureModelFromSpec (lower_rest E) (FeatureGroups s) = Some groups \<Longrightarrow>
      validateFeatures (search_order E groups) (lookup m) (Some groups) = None" for groups
    using assms(1,2) unfolding validate_source_def both_policies_def[symmetric] by (auto split: option.splits)
  have "\<not> (policy_of s q = FILE_POLICY_USER_WRITABLE \<and> launch_critical q)" if "q \<in> fst ` set m" for q
  proof -
    from that obtain x where "x \<in> set m" "fst x = q" by blast
    then have rule: "(q, snd x) \<in> set m" by (metis prod.collapse)
    then have "snd x = policy_of s q" by (rule follows_policy[OF assms(3)])
    moreover have "\<not> (snd x = FILE_POLICY_USER_WRITABLE \<and> launch_critical q)"
      using ok rule by (auto simp: validatePolicies_def Let_def filter_empty_conv split: if_splits)
    ultimately show ?thesis by simp
  qed
  then have "validatePolicies (map snd col) = None"
    using assms(3) unfolding follows_def by (fastforce simp: validatePolicies_def Let_def filter_empty_conv)
  moreover have "validateFeatures (search_order E groups) (file_policies (map snd col)) (Some groups) = None"
    if "featureModelFromSpec (lower_rest E) (FeatureGroups s) = Some groups" for groups
  proof (rule features_same[OF feat[OF that]], intro ballI)
    fix g f assume "g \<in> set groups" "f \<in> set (named_files g)"
    then have "\<not> unneeded True needed f" using assms(6) that by blast
    then have "f \<in> fst ` set m \<longleftrightarrow> f \<in> fst ` set col" using assms(3) unfolding follows_def by blast
    then show "lookup m f = file_policies (map snd col) f" using follows_lookup[OF assms(3)] follows_found[OF assms(3)] by simp
  qed
  ultimately show ?thesis using assms(4,5) by (auto simp: finish_manifest_def checked_features_def split: option.splits)
qed

text \<open>
  C40: Settings that were accepted while the server runs can be published: a build of the same tree with
  them fails only when a file or directory cannot be read or stored, as long as the launch profile can be
  read and every library that an option of the settings names is one the build needs; the libraries that no
  option names may be needed or left out.
\<close>

theorem accepted_settings_publish:
  assumes "ValidateSettings E srcs s = None" "src \<in> set srcs" "LoadSettings sf = Inr s"
    and "readLaunchProfile pf = Inr profile" "readLaunchProfile pf' = Inr launch"
    and "\<forall>groups. featureModelFromSpec (lower_rest E) (FeatureGroups s) = Some groups \<longrightarrow>
      (\<forall>g \<in> set groups. \<forall>f \<in> set (named_files g). has_prefix f ''libraries/'' \<longrightarrow>
        (case neededLibraries profile s of None \<Rightarrow> True | Some needed \<Rightarrow> f \<in> set needed))"
    and "BuildPlatform E H c src sf pf pf' modpack version p t w = (Inl e, w')"
  shows "(\<exists>x. e = PublishError x) \<or> (\<exists>p. e = WalkError p)"
proof -
  let ?needed = "neededLibraries profile s"
  define C where "C = \<lparr>b_hashes = H, b_cas = c, b_settings = s, b_needed = ?needed\<rparr>"
  have args: "validateBuildArgs (JvmArgs s) (GameArgs s) (Classpath s) = None" and valid: "validate_source E s src = None"
    using assms(1,2) by (auto simp: ValidateSettings_def split: option.splits if_splits)
  obtain res w1 where walks: "both_walks C src w = (res, w1)" by fastforce
  have agree: "agrees s ?needed res (both_policies s src)" using walks_agree[OF walks] by (simp add: C_def)
  have failed: "e = e1" if "res = Inl e1" for e1
    using assms(7) walks that unfolding both_walks_def C_def
    by (auto simp: BuildPlatform_def assms(3-5) split: prod.splits sum.splits option.splits)
  have finished: "finish_manifest E s pf' modpack version p t (map snd col) = Inl e" if "res = Inr col" for col
    using assms(7) walks that unfolding both_walks_def C_def
    by (auto simp: BuildPlatform_def assms(3-5) split: prod.splits sum.splits option.splits)
  have named: "\<not> unneeded True ?needed f" if "featureModelFromSpec (lower_rest E) (FeatureGroups s) = Some groups" "g \<in> set groups"
      "f \<in> set (named_files g)" for groups g f
    using assms(6) that by (auto simp: unneeded_def librariesDir_def split: option.splits)
  show ?thesis
  proof (cases res)
    case (Inl e1)
    have "both_policies s src \<noteq> Inl e1" using valid by (auto simp: validate_source_def both_policies_def)
    then have "from_outside e1" using agree Inl by simp
    then show ?thesis using failed[OF Inl] by (simp add: from_outside_def)
  next
    case (Inr col)
    have "\<exists>m. both_policies s src = Inr m \<and> follows s ?needed col m" using agree unfolding Inr agrees_simps .
    then obtain m where "both_policies s src = Inr m" "follows s ?needed col m" by blast
    from validated_finish[OF valid this args assms(5) named]
    obtain man where "finish_manifest E s pf' modpack version p t (map snd col) = Inr man" ..
    then show ?thesis using finished[OF Inr] by (simp only: sum.simps)
  qed
qed

text \<open>
  A pack with two libraries, of which the profile needs one and an option names that one; the disk refuses
  the first write.
\<close>

definition library_profile :: launch_profile where
  "library_profile = no_profile\<lparr>ProfileClasspath := [''libraries/base.jar'']\<rparr>"

definition base_library :: settings where
  "base_library = no_settings\<lparr>FeatureGroups := Some [GroupSpec ''g'' [] [] ''multi'' False
     [OptionSpec ''o'' [] [] False [''libraries/base.jar''] [] None [] [] []]]\<rparr>"

definition two_libraries :: sources where
  "two_libraries = \<lparr>Shared = Dir ''pack'' (Some [Dir ''libraries'' (Some
     [File ''base.jar'' False (Some ''b'') (Some ''b''), File ''extra.jar'' False (Some ''e'') (Some ''e'')])]), PlatformRoot = None\<rparr>"

definition library_build :: "bool list \<Rightarrow> (manifest_error, manifest) result \<times> fs_state" where
  "library_build flips = BuildPlatform sample_manifest_env plain_hashes (NewCAS (fs_backend var_objects) HASH_ALGO_BLAKE3)
     two_libraries (Json base_library) (Json library_profile) (Json library_profile) ''pack'' ''1'' PLATFORM_LINUX 0 (empty_disk flips)"

lemma accepted_settings_publish_witness:
  "(\<exists>man. fst (library_build []) = Inr man \<and> map Path (Files man) = [''libraries/base.jar'']) \<and>
   (\<exists>e. fst (library_build [True]) = Inl e \<and> ((\<exists>x. e = PublishError x) \<or> (\<exists>p. e = WalkError p)))"
proof
  have "map_option (\<lambda>man. map Path (Files man)) (case fst (library_build []) of Inl e \<Rightarrow> None | Inr man \<Rightarrow> Some man) = Some [''libraries/base.jar'']"
    by code_simp
  then show "\<exists>man. fst (library_build []) = Inr man \<and> map Path (Files man) = [''libraries/base.jar'']" by (auto split: sum.splits)
  have failed: "fst (library_build [True]) = Inl (PublishError (Backend (BackendFailed ''disk'')))" by code_simp
  then have fails: "BuildPlatform sample_manifest_env plain_hashes (NewCAS (fs_backend var_objects) HASH_ALGO_BLAKE3)
      two_libraries (Json base_library) (Json library_profile) (Json library_profile) ''pack'' ''1'' PLATFORM_LINUX 0 (empty_disk [True]) =
      (Inl (PublishError (Backend (BackendFailed ''disk''))), snd (library_build [True]))"
    by (simp add: library_build_def prod_eq_iff)
  have valid: "ValidateSettings sample_manifest_env [two_libraries] base_library = None" by code_simp
  have "list_all (\<lambda>g. named_files g = [''libraries/base.jar'']) (the (featureModelFromSpec (lower_rest sample_manifest_env) (FeatureGroups base_library)))"
    by code_simp
  then have names: "\<forall>groups. featureModelFromSpec (lower_rest sample_manifest_env) (FeatureGroups base_library) = Some groups \<longrightarrow>
      (\<forall>g \<in> set groups. \<forall>f \<in> set (named_files g). has_prefix f ''libraries/'' \<longrightarrow>
        (case neededLibraries library_profile base_library of None \<Rightarrow> True | Some needed \<Rightarrow> f \<in> set needed))"
    by (auto simp: list_all_iff neededLibraries_def library_profile_def no_profile_def)
  show "\<exists>e. fst (library_build [True]) = Inl e \<and> ((\<exists>x. e = PublishError x) \<or> (\<exists>p. e = WalkError p))"
    using accepted_settings_publish[OF valid _ _ _ _ names fails] failed by (simp add: LoadSettings_def readLaunchProfile_def)
qed

text \<open>
  With a profile that names its libraries the two walks differ: the check accepts an option with a
  library that no profile needs, and the build leaves that library out and fails.
\<close>

definition extra_library :: settings where
  "extra_library = no_settings\<lparr>FeatureGroups := Some [GroupSpec ''g'' [] [] ''multi'' False
     [OptionSpec ''o'' [] [] False [''libraries/extra.jar''] [] None [] [] []]]\<rparr>"

definition library_tree :: sources where
  "library_tree = \<lparr>Shared = Dir ''pack'' (Some [Dir ''libraries'' (Some [File ''extra.jar'' False (Some ''e'') (Some ''e'')])]), PlatformRoot = None\<rparr>"

lemma accepted_settings_can_fail_to_build:
  "ValidateSettings sample_manifest_env [library_tree] extra_library = None"
  "fst (BuildPlatform sample_manifest_env plain_hashes (NewCAS (fs_backend var_objects) HASH_ALGO_BLAKE3) library_tree
     (Json extra_library) (Json library_profile) (Json library_profile) ''pack'' ''1'' PLATFORM_LINUX 0 (empty_disk [])) =
   Inl (FeatureFault (NoSuchFile ''g'' ''o'' ''libraries/extra.jar''))"
  by code_simp+

end
