(* ===== verification/Releases.thy ===== *)
theory Releases
  imports Manifest
begin

text \<open>
  Publications of a build on disk (package \<open>catalog\<close>: \<open>releases.go\<close>, \<open>rollback.go\<close> and the file names of
  \<open>catalog.go\<close>). Every publication is a directory of its own with an inventory; the file \<open>current.json\<close>
  points to the one that is served and to those kept for a rollback.

  The state is the directory of builds: per build the pointer file and the publications, each a map from
  file names to contents, where \<open>None\<close> is a file that cannot be read. A call of the disk may fail; the
  script \<open>disk_faults\<close> says which of the next ones do, and a crash is a script that fails from then on,
  since nothing is written after an error. A write of a file is atomic, as \<open>atomicfile.Write\<close> renames a
  temporary file. The JSON codecs, the protobuf decoder and SHA-256 are parameters; the ids that
  \<open>rand.Text\<close> draws are arguments.
\<close>

section \<open>Names\<close>

definition safeComponent :: "string \<Rightarrow> bool" where
  "safeComponent s \<longleftrightarrow> s \<noteq> [] \<and> s \<noteq> ''.'' \<and> s \<noteq> ''..'' \<and>
     list_all (\<lambda>c. c \<noteq> CHR ''/'' \<and> c \<noteq> CHR 0x5C \<and> c \<noteq> CHR '':'' \<and> c \<noteq> CHR 0x00) s"

definition manifestExt :: string where "manifestExt = ''.manifest''"
definition signatureExt :: string where "signatureExt = ''.manifest.sig''"

definition ManifestName :: "string \<Rightarrow> platform \<Rightarrow> string" where
  "ManifestName build p = (case Key p of (k, ok) \<Rightarrow> if ok then build @ ''.'' @ k @ manifestExt else build @ manifestExt)"

definition SignaturePath :: "string \<Rightarrow> string" where
  "SignaturePath m = fst (cut_suffix m manifestExt) @ signatureExt"

text \<open>The names \<open>buildsvc\<close> accepts for a build.\<close>

definition safeName :: "string \<Rightarrow> bool" where
  "safeName name \<longleftrightarrow> name \<noteq> [] \<and> \<not> has_prefix name ''.'' \<and>
     list_all (\<lambda>c. c \<noteq> CHR ''/'' \<and> c \<noteq> CHR 0x5C \<and> c \<noteq> CHR '':'') name \<and>
     list_all (\<lambda>p. \<not> (snd (Key p) \<and> has_suffix name (CHR ''.'' # fst (Key p)))) Game"

section \<open>The directory of builds\<close>

record release_pointer =
  PointerVersion :: int
  Current :: string
  Retained :: "string list"
  SettingsRevision :: string
  Workspace :: string
  InputDigest :: string
  SourceRevision :: string
  WorkspaceDigest :: string

type_synonym dir_files = "(string, string option) amap"

record builds_dir =
  top_files :: dir_files
  build_dirs :: "string list"
  current_of :: "string \<Rightarrow> string option option"
  release_of :: "string \<Rightarrow> string \<Rightarrow> dir_files option"
  disk_faults :: "bool list"

record release_env =
  encode_pointer :: "release_pointer \<Rightarrow> string"
  decode_pointer :: "string \<Rightarrow> release_pointer option"
  encode_inventory :: "(string, string) amap \<Rightarrow> string"
  decode_inventory :: "string \<Rightarrow> (string, string) amap option"
  decode_manifest :: "string \<Rightarrow> manifest option"
  digest :: "string \<Rightarrow> string"

datatype release_error = NotExist | ReadFailed | WriteFailed | BadBuildName | BadJson | BadPointer | BadHistory
  | EmptyInventory | BadInventoryName | DamagedRelease | ExtraManifest | NothingToPublish | BadReleaseFile string
  | NotInHistory | BadMetadata

definition read_file :: "dir_files \<Rightarrow> string \<Rightarrow> (release_error, string) result" where
  "read_file fs name = (case lookup fs name of None \<Rightarrow> Inl NotExist | Some None \<Rightarrow> Inl ReadFailed | Some (Some d) \<Rightarrow> Inr d)"

definition ReadRelease :: "release_env \<Rightarrow> builds_dir \<Rightarrow> string \<Rightarrow> (release_error, release_pointer) result" where
  "ReadRelease E d build =
     (if \<not> safeComponent build then Inl BadBuildName
      else case current_of d build of
        None \<Rightarrow> Inl NotExist
      | Some None \<Rightarrow> Inl ReadFailed
      | Some (Some data) \<Rightarrow>
          (case decode_pointer E data of
             None \<Rightarrow> Inl BadJson
           | Some p \<Rightarrow>
               if PointerVersion p \<noteq> 1 \<or> \<not> safeComponent (Current p) \<or> (Workspace p \<noteq> [] \<and> \<not> safeComponent (Workspace p))
               then Inl BadPointer
               else if list_all safeComponent (Retained p) \<and> distinct (Current p # Retained p) then Inr p
               else Inl BadHistory))"

definition check_inventory :: "release_env \<Rightarrow> dir_files \<Rightarrow> string \<times> string \<Rightarrow> release_error option" where
  "check_inventory E fs entry =
     (case entry of (name, expected) \<Rightarrow>
        if \<not> safeComponent name then Some BadInventoryName
        else case read_file fs name of
          Inl e \<Rightarrow> Some e
        | Inr data \<Rightarrow> if digest E data \<noteq> expected then Some DamagedRelease else None)"

definition VerifyRelease :: "release_env \<Rightarrow> dir_files \<Rightarrow> release_error option" where
  "VerifyRelease E fs =
     (case lookup fs ''inventory.json'' of
        None \<Rightarrow> None
      | Some None \<Rightarrow> Some ReadFailed
      | Some (Some data) \<Rightarrow>
          (case decode_inventory E data of
             None \<Rightarrow> Some BadJson
           | Some inventory \<Rightarrow>
               if inventory = [] then Some EmptyInventory
               else (case first_err (check_inventory E fs) inventory of
                   Some e \<Rightarrow> Some e
                 | None \<Rightarrow>
                     if list_ex (\<lambda>(name, _). has_suffix name manifestExt \<and>
                          (case lookup inventory name of None \<Rightarrow> True | Some s \<Rightarrow> s = [])) fs
                     then Some ExtraManifest else None)))"

section \<open>Writing\<close>

definition disk_fault :: "builds_dir \<Rightarrow> bool \<times> builds_dir" where
  "disk_fault d = (case disk_faults d of [] \<Rightarrow> (False, d) | f # fs \<Rightarrow> (f, d\<lparr>disk_faults := fs\<rparr>))"

definition put_file :: "string \<Rightarrow> string \<Rightarrow> string \<Rightarrow> string \<Rightarrow> builds_dir \<Rightarrow> bool \<times> builds_dir" where
  "put_file build ident name data d =
     (case disk_fault d of
        (True, d) \<Rightarrow> (False, d)
      | (False, d) \<Rightarrow>
          (True, d\<lparr>release_of := (release_of d)(build := (release_of d build)(ident :=
             map_option (store name (Some data)) (release_of d build ident)))\<rparr>))"

fun put_files :: "string \<Rightarrow> string \<Rightarrow> (string \<times> string) list \<Rightarrow> builds_dir \<Rightarrow> bool \<times> builds_dir" where
  "put_files build ident [] d = (True, d)"
| "put_files build ident ((name, data) # rest) d =
     (case put_file build ident name data d of
        (False, d) \<Rightarrow> (False, d)
      | (True, d) \<Rightarrow> put_files build ident rest d)"

record release_file =
  FileName :: string
  CanonicalBytes :: string
  Signature :: string

definition release_entries :: "release_file list \<Rightarrow> (string \<times> string) list" where
  "release_entries files = concat (map (\<lambda>f. [(FileName f, CanonicalBytes f), (SignaturePath (FileName f), Signature f)]) files)"

definition inventory_of :: "release_env \<Rightarrow> release_file list \<Rightarrow> (string, string) amap" where
  "inventory_of E files = fold (\<lambda>(n, d). store n (digest E d)) (release_entries files) []"

text \<open>\<open>writeRelease\<close> in the directory \<open>ident\<close>; the two syncs may fail without a change.\<close>

definition writeRelease :: "release_env \<Rightarrow> string \<Rightarrow> string \<Rightarrow> release_file list \<Rightarrow> builds_dir \<Rightarrow> bool \<times> builds_dir" where
  "writeRelease E build ident files d =
     (case disk_fault d of
        (True, d) \<Rightarrow> (False, d)
      | (False, d) \<Rightarrow>
          if release_of d build ident \<noteq> None then (False, d)
          else
            (case put_files build ident (release_entries files @ [(''inventory.json'', encode_inventory E (inventory_of E files))])
                    (d\<lparr>release_of := (release_of d)(build := (release_of d build)(ident \<mapsto> []))\<rparr>) of
               (False, d) \<Rightarrow> (False, d)
             | (True, d) \<Rightarrow>
                 (case disk_fault d of
                    (True, d) \<Rightarrow> (False, d)
                  | (False, d) \<Rightarrow> (case disk_fault d of (f, d) \<Rightarrow> (\<not> f, d)))))"

definition writeReleaseMetadata :: "release_env \<Rightarrow> string \<Rightarrow> release_pointer \<Rightarrow> builds_dir \<Rightarrow> bool \<times> builds_dir" where
  "writeReleaseMetadata E build p d =
     (case put_file build (Current p) ''release.json'' (encode_pointer E p) d of
        (False, d) \<Rightarrow> (False, d)
      | (True, d) \<Rightarrow> (case disk_fault d of (f, d) \<Rightarrow> (\<not> f, d)))"

text \<open>The manifests of the old layout, beside the directories of the builds.\<close>

fun legacy_files :: "builds_dir \<Rightarrow> string \<Rightarrow> platform list \<Rightarrow> (release_error, release_file list) result" where
  "legacy_files d build [] = Inr []"
| "legacy_files d build (p # ps) =
     (case read_file (top_files d) (ManifestName build p) of
        Inl e \<Rightarrow> if e = NotExist then legacy_files d build ps else Inl e
      | Inr data \<Rightarrow>
          (case read_file (top_files d) (SignaturePath (ManifestName build p)) of
             Inl e \<Rightarrow> Inl e
           | Inr sig \<Rightarrow>
               (case legacy_files d build ps of
                  Inl e \<Rightarrow> Inl e
                | Inr fs \<Rightarrow> Inr (\<lparr>FileName = ManifestName build p, CanonicalBytes = data, Signature = sig\<rparr> # fs))))"

definition legacyRelease :: "builds_dir \<Rightarrow> string \<Rightarrow> (release_error, release_file list) result" where
  "legacyRelease d build = legacy_files d build (PLATFORM_UNSPECIFIED # Game)"

fun check_files :: "release_env \<Rightarrow> string \<Rightarrow> string list \<Rightarrow> release_file list \<Rightarrow> release_error option" where
  "check_files E build seen [] = None"
| "check_files E build seen (f # fs) =
     (case decode_manifest E (CanonicalBytes f) of
        None \<Rightarrow> Some BadJson
      | Some m \<Rightarrow>
          if Modpack m \<noteq> build \<or> FileName f \<noteq> ManifestName build (ManifestPlatform m) \<or> Signature f = [] \<or> FileName f \<in> set seen
          then Some (BadReleaseFile (FileName f))
          else check_files E build (FileName f # seen) fs)"

text \<open>What is retained by a first or a later publication, after the old layout was taken over.\<close>

definition retain :: "release_env \<Rightarrow> string \<Rightarrow> string \<Rightarrow> builds_dir \<Rightarrow> (release_error, string list) result \<times> builds_dir" where
  "retain E build legacy_id d =
     (case ReadRelease E d build of
        Inr p \<Rightarrow> (Inr (Current p # Retained p), d)
      | Inl e \<Rightarrow>
          if e \<noteq> NotExist then (Inl e, d)
          else (case legacyRelease d build of
              Inl e \<Rightarrow> (Inl e, d)
            | Inr legacy \<Rightarrow>
                if legacy = [] then (Inr [], d)
                else (case writeRelease E build legacy_id legacy d of
                    (False, d) \<Rightarrow> (Inl WriteFailed, d)
                  | (True, d) \<Rightarrow>
                      (case writeReleaseMetadata E build \<lparr>PointerVersion = 1, Current = legacy_id, Retained = [], SettingsRevision = [],
                            Workspace = [], InputDigest = [], SourceRevision = [], WorkspaceDigest = []\<rparr> d of
                         (False, d) \<Rightarrow> (Inl WriteFailed, d)
                       | (True, d) \<Rightarrow> (Inr [legacy_id], d)))))"

text \<open>The three directories of a build are made one after the other; only the first shows in the model.\<close>

definition make_dirs :: "string \<Rightarrow> builds_dir \<Rightarrow> bool \<times> builds_dir" where
  "make_dirs build d =
     (case disk_fault d of
        (True, d) \<Rightarrow> (False, d)
      | (False, d) \<Rightarrow> (case disk_fault (d\<lparr>build_dirs := List.insert build (build_dirs d)\<rparr>) of (f, d) \<Rightarrow> (\<not> f, d)))"

definition put_current :: "release_env \<Rightarrow> string \<Rightarrow> release_pointer \<Rightarrow> builds_dir \<Rightarrow> bool \<times> builds_dir" where
  "put_current E build p d =
     (case disk_fault d of
        (True, d) \<Rightarrow> (False, d)
      | (False, d) \<Rightarrow> (True, d\<lparr>current_of := (current_of d)(build \<mapsto> Some (encode_pointer E p))\<rparr>))"

definition PublishRelease ::
    "release_env \<Rightarrow> string \<Rightarrow> string \<Rightarrow> string \<Rightarrow> release_file list \<Rightarrow> release_pointer \<Rightarrow> builds_dir \<Rightarrow> release_error option \<times> builds_dir" where
  "PublishRelease E build legacy_id new_id files metadata d =
     (if \<not> safeComponent build \<or> files = [] then (Some NothingToPublish, d)
      else case check_files E build [] files of Some e \<Rightarrow> (Some e, d) | None \<Rightarrow>
        (case make_dirs build d of
           (False, d) \<Rightarrow> (Some WriteFailed, d)
         | (True, d) \<Rightarrow>
             (case retain E build legacy_id d of
                (Inl e, d) \<Rightarrow> (Some e, d)
              | (Inr retained, d) \<Rightarrow>
                  (case writeRelease E build new_id files d of
                     (False, d) \<Rightarrow> (Some WriteFailed, d)
                   | (True, d) \<Rightarrow>
                       (let p = metadata\<lparr>PointerVersion := 1, Current := new_id, Retained := retained\<rparr> in
                        case writeReleaseMetadata E build p d of
                          (False, d) \<Rightarrow> (Some WriteFailed, d)
                        | (True, d) \<Rightarrow>
                            (case put_current E build p d of
                               (False, d) \<Rightarrow> (Some WriteFailed, d)
                             | (True, d) \<Rightarrow> (case disk_fault d of (f, d) \<Rightarrow> (if f then Some WriteFailed else None, d))))))))"

text \<open>\<open>publishRelease\<close> without metadata keeps the workspace of the previous publication.\<close>

definition plain_metadata :: "release_env \<Rightarrow> string \<Rightarrow> string \<Rightarrow> builds_dir \<Rightarrow> release_pointer" where
  "plain_metadata E build revision d =
     \<lparr>PointerVersion = 0, Current = [], Retained = [], SettingsRevision = revision,
      Workspace = (case ReadRelease E d build of Inr p \<Rightarrow> Workspace p | Inl _ \<Rightarrow> []),
      InputDigest = [], SourceRevision = [], WorkspaceDigest = []\<rparr>"

definition RollbackRelease :: "release_env \<Rightarrow> string \<Rightarrow> string \<Rightarrow> builds_dir \<Rightarrow> release_error option \<times> builds_dir" where
  "RollbackRelease E build ident d =
     (case ReadRelease E d build of
        Inl e \<Rightarrow> (Some e, d)
      | Inr current \<Rightarrow>
          if ident \<notin> set (Retained current) then (Some NotInHistory, d)
          else (case release_of d build ident of
              None \<Rightarrow> (Some NotExist, d)
            | Some fs \<Rightarrow>
                (case VerifyRelease E fs of Some e \<Rightarrow> (Some e, d) | None \<Rightarrow>
                  (case read_file fs ''release.json'' of
                     Inl e \<Rightarrow> (Some e, d)
                   | Inr data \<Rightarrow>
                       (case decode_pointer E data of
                          None \<Rightarrow> (Some BadJson, d)
                        | Some previous \<Rightarrow>
                            if Current previous \<noteq> ident \<or> PointerVersion previous \<noteq> 1 \<or>
                               (Workspace previous \<noteq> [] \<and> \<not> safeComponent (Workspace previous))
                            then (Some BadMetadata, d)
                            else
                              (case put_current E build (previous\<lparr>Retained := Current current # filter (\<lambda>r. r \<noteq> ident) (Retained current)\<rparr>) d of
                                 (False, d) \<Rightarrow> (Some WriteFailed, d)
                               | (True, d) \<Rightarrow> (None, d)))))))"

section \<open>Names are safe and do not collide\<close>

lemma suffix_append [simp]: "has_suffix (a @ b) b"
  by (auto simp: has_suffix_iff)

lemma ManifestName_eq: "ManifestName build p = build @ (if snd (Key p) then ''.'' @ fst (Key p) else []) @ manifestExt"
  by (simp add: ManifestName_def split: prod.splits)

lemma ManifestName_suffix: "has_suffix (ManifestName build p) manifestExt"
  using suffix_append[of "build @ (if snd (Key p) then ''.'' @ fst (Key p) else [])" manifestExt] by (simp add: ManifestName_eq)

lemma safe_ManifestName: "safeComponent build \<Longrightarrow> safeComponent (ManifestName build p)"
  by (cases p) (auto simp: ManifestName_eq safeComponent_def manifestExt_def append_eq_Cons_conv)

lemma SignaturePath_ext: "SignaturePath (a @ manifestExt) = a @ signatureExt"
  by (simp add: SignaturePath_def cut_suffix_def has_suffix_def)

lemma SignaturePath_name: "SignaturePath (ManifestName build p) = build @ (if snd (Key p) then ''.'' @ fst (Key p) else []) @ signatureExt"
  using SignaturePath_ext[of "build @ (if snd (Key p) then ''.'' @ fst (Key p) else [])"] by (simp add: ManifestName_eq)

lemma safe_SignaturePath: "safeComponent build \<Longrightarrow> safeComponent (SignaturePath (ManifestName build p))"
  by (cases p) (auto simp: SignaturePath_name safeComponent_def signatureExt_def append_eq_Cons_conv)

lemma signature_no_manifest: "\<not> has_suffix (a @ signatureExt) manifestExt"
  by (auto simp: has_suffix_def manifestExt_def signatureExt_def)

lemma SignaturePath_inj: "SignaturePath (ManifestName b p) = SignaturePath (ManifestName b q) \<Longrightarrow> ManifestName b p = ManifestName b q"
  by (simp add: SignaturePath_name) (simp add: ManifestName_eq)

text \<open>The last dot of a name splits it in one way.\<close>

lemma last_dot:
  assumes "x @ CHR ''.'' # s = y @ CHR ''.'' # t" "CHR ''.'' \<notin> set s" "CHR ''.'' \<notin> set t"
  shows "x = y \<and> s = t"
proof -
  have r: "rev s @ CHR ''.'' # rev x = rev t @ CHR ''.'' # rev y" using arg_cong[OF assms(1), of rev] by simp
  have "takeWhile (\<lambda>c. c \<noteq> CHR ''.'') (rev s @ CHR ''.'' # rev x) = rev s" "takeWhile (\<lambda>c. c \<noteq> CHR ''.'') (rev t @ CHR ''.'' # rev y) = rev t"
    using assms(2,3) by (subst takeWhile_append2; auto)+
  then show ?thesis using r assms(1) by simp
qed

lemma game_key: "p \<in> set (PLATFORM_UNSPECIFIED # Game) \<Longrightarrow> p = PLATFORM_UNSPECIFIED \<or> snd (Key p)"
  by (auto simp: Game_def)

text \<open>
  Two builds never write the same file: for names that the build commands accept, the file name of a
  manifest determines the build and the platform.
\<close>

theorem manifest_names_apart:
  assumes "safeName a" "safeName b" "p \<in> set (PLATFORM_UNSPECIFIED # Game)" "q \<in> set (PLATFORM_UNSPECIFIED # Game)"
    and "ManifestName a p = ManifestName b q"
  shows "a = b \<and> p = q"
proof -
  define tag where "tag p = (if snd (Key p) then CHR ''.'' # fst (Key p) else [])" for p
  have eq: "a @ tag p = b @ tag q" using assms(5) by (simp add: ManifestName_eq tag_def split: if_splits)
  have no: "\<not> has_suffix a (tag r)" "\<not> has_suffix b (tag r)" if "r \<in> set Game" for r
  proof -
    have "snd (Key r)" using that by (auto simp: Game_def)
    then show "\<not> has_suffix a (tag r)" "\<not> has_suffix b (tag r)"
      using assms(1,2) that unfolding safeName_def list_all_iff tag_def by simp_all
  qed
  have keys: "p = q" if "tag p = tag q"
    using that assms(3,4) by (auto simp: tag_def Game_def)
  have plain: "CHR ''.'' \<notin> set (fst (Key r))" for r by (cases r) auto
  show ?thesis
  proof (cases "snd (Key p) = snd (Key q)")
    case True
    then have "a = b \<and> tag p = tag q" using eq last_dot[of a "fst (Key p)" b "fst (Key q)"] plain by (auto simp: tag_def)
    then show ?thesis using keys by simp
  next
    case False
    then have "has_suffix a (tag q) \<and> q \<in> set Game \<or> has_suffix b (tag p) \<and> p \<in> set Game"
    proof (cases "snd (Key p)")
      case True
      then have "b = a @ tag p" "p \<in> set Game" using eq False assms(3) by (simp_all add: tag_def) (cases p; simp)
      then show ?thesis by simp
    next
      case no_p: False
      then have "a = b @ tag q" "q \<in> set Game" using eq False assms(4) by (simp_all add: tag_def) (cases q; simp)
      then show ?thesis by simp
    qed
    then show ?thesis using no by blast
  qed
qed

lemma manifest_names_apart_witness:
  "ManifestName ''pack'' PLATFORM_LINUX = ''pack.linux.manifest'' \<and> \<not> safeName ''pack.linux'' \<and>
   ManifestName ''pack'' PLATFORM_LINUX \<noteq> ManifestName ''other'' PLATFORM_LINUX"
proof -
  have names: "safeName ''pack''" "safeName ''other''" "\<not> safeName ''pack.linux''"
    "ManifestName ''pack'' PLATFORM_LINUX = ''pack.linux.manifest''" by code_simp+
  then show ?thesis using manifest_names_apart[of "''pack''" "''other''" PLATFORM_LINUX PLATFORM_LINUX] by (auto simp: Game_def)
qed

end
