(* ===== verification/Tokens.thy ===== *)
theory Tokens
  imports Main
begin

text \<open>
  A reversible text for a list of strings, from which the examples of other theories build the codecs that their theorems ask
  for: a string is escaped byte by byte and ended by a dot.
\<close>

fun plain_tokens :: "string \<Rightarrow> string \<Rightarrow> string list" where
  "plain_tokens cur [] = []"
| "plain_tokens cur (m # r) = (if m = CHR ''.'' then cur # plain_tokens [] r
     else case r of [] \<Rightarrow> [] | c # r \<Rightarrow> plain_tokens (cur @ [c]) r)"

definition plain_encode :: "string list \<Rightarrow> string" where
  "plain_encode ss = concat (map (\<lambda>s. concat (map (\<lambda>c. [CHR ''x'', c]) s) @ ''.'') ss)"

lemma plain_tokens_string: "plain_tokens cur (concat (map (\<lambda>c. [CHR ''x'', c]) s) @ CHR ''.'' # r) = (cur @ s) # plain_tokens [] r"
  by (induction s arbitrary: cur) auto

lemma plain_tokens_encode: "plain_tokens [] (plain_encode ss) = ss"
  by (induction ss) (simp_all add: plain_encode_def plain_tokens_string)

text \<open>An integer is the two lengths whose difference it is.\<close>

definition plain_int :: "int \<Rightarrow> string list" where
  "plain_int n = [replicate (nat n) CHR ''i'', replicate (nat (- n)) CHR ''i'']"

definition int_of_plain :: "string \<Rightarrow> string \<Rightarrow> int" where
  "int_of_plain a b = int (length a) - int (length b)"

lemma plain_int_round: "case plain_int n of [a, b] \<Rightarrow> int_of_plain a b = n | _ \<Rightarrow> False"
  by (simp add: plain_int_def int_of_plain_def)

end
