(* ===== verification/ReleaseRuns.thy ===== *)
theory ReleaseRuns
  imports Releases Tokens
begin

text \<open>
  What the publications keep through any sequence of publishes and rollbacks, each cut off by a crash at
  any point (package \<open>catalog\<close>): the pointer of a build can always be read, every publication it names
  is complete, and a rollback to a retained one succeeds. The theory holds the hypotheses on the JSON
  codecs, the invariant, frame lemmas for the writes and the runs.
\<close>

section \<open>Hypotheses on the codecs\<close>

text \<open>
  \<open>T\<close> stands for the strings JSON keeps, which are the valid UTF-8 strings: closed under concatenation and
  including ASCII. A pointer and an inventory of such strings are read back as they were written.
\<close>

definition pointer_text :: "(string \<Rightarrow> bool) \<Rightarrow> release_pointer \<Rightarrow> bool" where
  "pointer_text T p \<longleftrightarrow> T (Current p) \<and> list_all T (Retained p) \<and> T (SettingsRevision p) \<and> T (Workspace p) \<and>
     T (InputDigest p) \<and> T (SourceRevision p) \<and> T (WorkspaceDigest p)"

definition codec_ok :: "(string \<Rightarrow> bool) \<Rightarrow> release_env \<Rightarrow> bool" where
  "codec_ok T E \<longleftrightarrow>
     (\<forall>a b. T a \<longrightarrow> T b \<longrightarrow> T (a @ b)) \<and> (\<forall>s. list_all (\<lambda>c. (of_char c :: nat) < 128) s \<longrightarrow> T s) \<and>
     (\<forall>p. pointer_text T p \<longrightarrow> decode_pointer E (encode_pointer E p) = Some p) \<and>
     (\<forall>m. keys_ok m \<longrightarrow> list_all (\<lambda>(n, s). T n \<and> T s) m \<longrightarrow> decode_inventory E (encode_inventory E m) = Some m) \<and>
     (\<forall>x. digest E x \<noteq> [] \<and> T (digest E x))"

lemma codec_text: "codec_ok T E \<Longrightarrow> T a \<Longrightarrow> T b \<Longrightarrow> T (a @ b)"
  and codec_ascii: "codec_ok T E \<Longrightarrow> list_all (\<lambda>c. (of_char c :: nat) < 128) s \<Longrightarrow> T s"
  and codec_pointer: "codec_ok T E \<Longrightarrow> pointer_text T p \<Longrightarrow> decode_pointer E (encode_pointer E p) = Some p"
  and codec_inventory: "codec_ok T E \<Longrightarrow> keys_ok m \<Longrightarrow> list_all (\<lambda>(n, s). T n \<and> T s) m \<Longrightarrow> decode_inventory E (encode_inventory E m) = Some m"
  and codec_digest: "codec_ok T E \<Longrightarrow> digest E x \<noteq> [] \<and> T (digest E x)"
  by (simp_all add: codec_ok_def)

section \<open>Frames of the writes\<close>

text \<open>Only the publication \<open>i\<close> of the build \<open>b\<close> may differ.\<close>

definition only_release :: "string \<Rightarrow> string \<Rightarrow> builds_dir \<Rightarrow> builds_dir \<Rightarrow> bool" where
  "only_release b i d d' \<longleftrightarrow> current_of d' = current_of d \<and> top_files d' = top_files d \<and>
     (\<forall>b' i'. (b', i') \<noteq> (b, i) \<longrightarrow> release_of d' b' i' = release_of d b' i')"

lemma only_release_refl [simp]: "only_release b i d d"
  by (simp add: only_release_def)

lemma only_release_trans: "only_release b i d d' \<Longrightarrow> only_release b i d' d'' \<Longrightarrow> only_release b i d d''"
  by (simp add: only_release_def)

lemma only_current: "only_release b i d d' \<Longrightarrow> current_of d' = current_of d"
  by (simp add: only_release_def)

lemma only_other: "only_release b i d d' \<Longrightarrow> (b', i') \<noteq> (b, i) \<Longrightarrow> release_of d' b' i' = release_of d b' i'"
  by (auto simp: only_release_def)

lemma disk_fault_frame:
  "disk_fault d = (f, d') \<Longrightarrow> current_of d' = current_of d \<and> release_of d' = release_of d \<and> top_files d' = top_files d"
  by (auto simp: disk_fault_def split: list.splits)

lemma put_file_frame: "put_file b i n x d = (ok, d') \<Longrightarrow> only_release b i d d'"
  by (auto simp: put_file_def only_release_def split: prod.splits bool.splits dest!: disk_fault_frame)

lemma put_file_done:
  "put_file b i n x d = (True, d') \<Longrightarrow> release_of d' b i = map_option (store n (Some x)) (release_of d b i)"
  by (auto simp: put_file_def split: prod.splits bool.splits dest!: disk_fault_frame)

lemma put_files_frame: "put_files b i es d = (ok, d') \<Longrightarrow> only_release b i d d'"
  by (induction b i es d rule: put_files.induct)
     (auto split: prod.splits bool.splits dest!: put_file_frame intro: only_release_trans)

definition put_all :: "(string \<times> string) list \<Rightarrow> dir_files \<Rightarrow> dir_files" where
  "put_all es fs = fold (\<lambda>(n, x). store n (Some x)) es fs"

lemma put_all_simps [simp]: "put_all [] fs = fs" "put_all ((n, x) # es) fs = put_all es (store n (Some x) fs)"
  "put_all (es @ es') fs = put_all es' (put_all es fs)"
  by (simp_all add: put_all_def)

lemma put_files_done:
  "put_files b i es d = (True, d') \<Longrightarrow> release_of d b i = Some fs \<Longrightarrow> release_of d' b i = Some (put_all es fs)"
proof (induction es arbitrary: d fs)
  case (Cons e es)
  obtain n x where e: "e = (n, x)" by (cases e)
  then obtain d1 where d1: "put_file b i n x d = (True, d1)" "put_files b i es d1 = (True, d')"
    using Cons.prems by (auto split: prod.splits bool.splits)
  then show ?case using Cons.IH[OF d1(2)] put_file_done[OF d1(1)] Cons.prems(2) e by simp
qed simp

lemma writeRelease_frame: "writeRelease E b i files d = (ok, d') \<Longrightarrow> only_release b i d d'"
  by (auto simp: writeRelease_def only_release_def split: prod.splits bool.splits if_splits
      dest!: disk_fault_frame put_files_frame)

lemma writeRelease_keeps:
  "writeRelease E b i files d = (ok, d') \<Longrightarrow> release_of d b' i' = Some fs \<Longrightarrow> release_of d' b' i' = Some fs"
proof (cases "(b', i') = (b, i)")
  case True
  assume "writeRelease E b i files d = (ok, d')" "release_of d b' i' = Some fs"
  then show ?thesis using True by (auto simp: writeRelease_def split: prod.splits bool.splits dest!: disk_fault_frame)
qed (metis only_other writeRelease_frame)

definition release_contents :: "release_env \<Rightarrow> release_file list \<Rightarrow> dir_files" where
  "release_contents E files = put_all (release_entries files @ [(''inventory.json'', encode_inventory E (inventory_of E files))]) []"

lemma writeRelease_done:
  "writeRelease E b i files d = (True, d') \<Longrightarrow> release_of d b i = None \<and> release_of d' b i = Some (release_contents E files)"
  by (auto simp: writeRelease_def release_contents_def split: prod.splits bool.splits if_splits
      dest!: disk_fault_frame dest: put_files_done[where fs = "[]"])

lemma writeReleaseMetadata_frame: "writeReleaseMetadata E b p d = (ok, d') \<Longrightarrow> only_release b (Current p) d d'"
  by (auto simp: writeReleaseMetadata_def only_release_def split: prod.splits bool.splits
      dest!: disk_fault_frame put_file_frame)

lemma writeReleaseMetadata_done:
  "writeReleaseMetadata E b p d = (True, d') \<Longrightarrow>
   release_of d' b (Current p) = map_option (store ''release.json'' (Some (encode_pointer E p))) (release_of d b (Current p))"
  by (auto simp: writeReleaseMetadata_def split: prod.splits bool.splits dest!: disk_fault_frame put_file_done)

lemma make_dirs_frame: "make_dirs b d = (ok, d') \<Longrightarrow> only_release b i d d' \<and> release_of d' = release_of d"
  by (auto simp: make_dirs_def only_release_def split: prod.splits bool.splits dest!: disk_fault_frame)

lemma put_current_frame:
  "put_current E b p d = (ok, d') \<Longrightarrow> release_of d' = release_of d \<and> top_files d' = top_files d \<and>
     current_of d' = (if ok then (current_of d)(b \<mapsto> Some (encode_pointer E p)) else current_of d)"
  by (auto simp: put_current_def split: prod.splits bool.splits dest!: disk_fault_frame)

section \<open>Complete publications\<close>

definition good_name :: "(string \<Rightarrow> bool) \<Rightarrow> string \<Rightarrow> bool" where
  "good_name T n \<longleftrightarrow> safeComponent n \<and> T n \<and> (has_suffix n manifestExt \<or> has_suffix n signatureExt)"

lemma good_name_reserved: "good_name T n \<Longrightarrow> n \<noteq> ''inventory.json'' \<and> n \<noteq> ''release.json''"
  by (auto simp: good_name_def has_suffix_def manifestExt_def signatureExt_def)

lemma key_ascii: "list_all (\<lambda>c. (of_char c :: nat) < 128) (fst (Key p))"
  by (cases p) auto

lemma good_names:
  assumes "codec_ok T E" "safeComponent b" "T b"
  shows "good_name T (ManifestName b p)" "good_name T (SignaturePath (ManifestName b p))"
proof -
  have ascii: "T ((if snd (Key p) then ''.'' @ fst (Key p) else []) @ manifestExt)"
    "T ((if snd (Key p) then ''.'' @ fst (Key p) else []) @ signatureExt)"
    using key_ascii[of p] by (auto intro!: codec_ascii[OF assms(1)] simp: manifestExt_def signatureExt_def)
  show "good_name T (ManifestName b p)"
    using codec_text[OF assms(1,3) ascii(1)] safe_ManifestName[OF assms(2)] ManifestName_suffix
    by (simp add: good_name_def) (simp add: ManifestName_eq)
  show "good_name T (SignaturePath (ManifestName b p))"
    using codec_text[OF assms(1,3) ascii(2)] safe_SignaturePath[OF assms(2)]
      suffix_append[of "b @ (if snd (Key p) then ''.'' @ fst (Key p) else [])" signatureExt]
    by (simp add: good_name_def) (simp add: SignaturePath_name)
qed

text \<open>The inventory mirrors the files.\<close>

definition mirror :: "(string \<Rightarrow> bool) \<Rightarrow> release_env \<Rightarrow> (string, string) amap \<Rightarrow> dir_files \<Rightarrow> bool" where
  "mirror T E listing fs \<longleftrightarrow> keys_ok listing \<and> (\<forall>n. lookup listing n \<noteq> None \<longrightarrow> good_name T n) \<and>
     (\<forall>n. lookup listing n = (case lookup fs n of Some (Some x) \<Rightarrow> Some (digest E x) | _ \<Rightarrow> None)) \<and> (\<forall>n. lookup fs n \<noteq> Some None)"

lemma mirror_store:
  "mirror T E listing fs \<Longrightarrow> good_name T n \<Longrightarrow> mirror T E (store n (digest E x) listing) (store n (Some x) fs)"
  by (simp add: mirror_def)

lemma mirror_all:
  "mirror T E listing fs \<Longrightarrow> \<forall>(n, x) \<in> set es. good_name T n \<Longrightarrow>
   mirror T E (fold (\<lambda>(n, x). store n (digest E x)) es listing) (put_all es fs)"
proof (induction es arbitrary: listing fs)
  case (Cons e es)
  obtain n x where e: "e = (n, x)" by (cases e)
  then have "mirror T E (store n (digest E x) listing) (store n (Some x) fs)"
    using Cons.prems by (intro mirror_store) auto
  then show ?case using Cons.IH Cons.prems(2) e by simp
qed simp

definition complete :: "(string \<Rightarrow> bool) \<Rightarrow> release_env \<Rightarrow> string \<Rightarrow> dir_files \<Rightarrow> bool" where
  "complete T E i fs \<longleftrightarrow>
     (\<exists>listing base p. mirror T E listing base \<and> listing \<noteq> [] \<and>
        (\<forall>n. lookup fs n = (if n = ''release.json'' then Some (Some (encode_pointer E p))
                           else if n = ''inventory.json'' then Some (Some (encode_inventory E listing)) else lookup base n)) \<and>
        pointer_text T p \<and> PointerVersion p = 1 \<and> Current p = i \<and> (Workspace p \<noteq> [] \<longrightarrow> safeComponent (Workspace p)))"

lemma complete_verifies:
  assumes E: "codec_ok T E" and c: "complete T E i fs"
  shows "VerifyRelease E fs = None"
proof -
  obtain listing base p where m: "mirror T E listing base" "listing \<noteq> []"
    and fs: "\<And>n. lookup fs n = (if n = ''release.json'' then Some (Some (encode_pointer E p))
                           else if n = ''inventory.json'' then Some (Some (encode_inventory E listing)) else lookup base n)"
    using c unfolding complete_def by auto
  have names: "good_name T n" if "lookup listing n = Some s" for n s using m(1) that unfolding mirror_def by auto
  have keys: "keys_ok listing" using m(1) by (simp add: mirror_def)
  have entry: "good_name T n \<and> T s \<and> (\<exists>x. lookup fs n = Some (Some x) \<and> digest E x = s)" if "(n, s) \<in> set listing" for n s
  proof -
    have l: "lookup listing n = Some s" using that keys by (simp add: lookup_in_set)
    then obtain x where x: "lookup base n = Some (Some x)" "digest E x = s"
      using m(1) unfolding mirror_def by (auto split: option.splits)
    show ?thesis using names[OF l] x fs[of n] good_name_reserved[OF names[OF l]] codec_digest[OF E, of x] by auto
  qed
  have dec: "decode_inventory E (encode_inventory E listing) = Some listing"
    using entry by (intro codec_inventory[OF E keys]) (auto simp: list_all_iff good_name_def)
  have "check_inventory E fs (n, s) = None" if "(n, s) \<in> set listing" for n s
  proof -
    from entry[OF that] obtain x where "good_name T n" "lookup fs n = Some (Some x)" "digest E x = s" by blast
    then show ?thesis by (simp add: check_inventory_def read_file_def good_name_def)
  qed
  then have check: "first_err (check_inventory E fs) listing = None" by (auto simp only: first_err_None)
  have extra: "case lookup listing n of None \<Rightarrow> False | Some s \<Rightarrow> s \<noteq> []" if "n \<in> fst ` set fs" "has_suffix n manifestExt" for n
  proof -
    have "lookup fs n \<noteq> None" using that(1) by (simp add: lookup_None_iff)
    moreover have "n \<noteq> ''release.json''" "n \<noteq> ''inventory.json''" using that(2) by (auto simp: has_suffix_def manifestExt_def)
    ultimately obtain x where "lookup base n = Some (Some x)" using fs[of n] m(1) unfolding mirror_def
      by (metis option.exhaust)
    then have "lookup listing n = Some (digest E x)" using m(1) by (simp add: mirror_def)
    then show ?thesis using codec_digest[OF E] by simp
  qed
  have "\<not> list_ex (\<lambda>(name, _). has_suffix name manifestExt \<and>
                          (case lookup listing name of None \<Rightarrow> True | Some s \<Rightarrow> s = [])) fs"
    using extra by (force simp: list_ex_iff split: option.splits)
  then show ?thesis using fs[of "''inventory.json''"] dec m(2) check by (simp add: VerifyRelease_def del: first_err_None)
qed

lemma complete_pointer:
  assumes "codec_ok T E" "complete T E i fs"
  obtains p where "read_file fs ''release.json'' = Inr (encode_pointer E p)" "decode_pointer E (encode_pointer E p) = Some p"
    "pointer_text T p" "PointerVersion p = 1" "Current p = i" "Workspace p \<noteq> [] \<longrightarrow> safeComponent (Workspace p)"
proof -
  obtain p where p: "lookup fs ''release.json'' = Some (Some (encode_pointer E p))" "pointer_text T p" "PointerVersion p = 1"
    "Current p = i" "Workspace p \<noteq> [] \<longrightarrow> safeComponent (Workspace p)"
    using assms(2) unfolding complete_def by (metis (no_types, lifting))
  show thesis using that[OF _ codec_pointer[OF assms(1) p(2)] p(2-5)] p(1) by (simp add: read_file_def)
qed

lemma fold_store_nonempty: "m \<noteq> [] \<Longrightarrow> fold (\<lambda>(n, x). store n (f x)) es m \<noteq> []"
proof (induction es arbitrary: m)
  case (Cons e es)
  have "store (fst e) (f (snd e)) m \<noteq> []" by (cases m) (simp_all split: prod.splits)
  from Cons.IH[OF this] show ?case by (simp add: case_prod_unfold)
qed simp

definition named_by :: "string \<Rightarrow> release_file list \<Rightarrow> bool" where
  "named_by b files \<longleftrightarrow> files \<noteq> [] \<and> (\<forall>f \<in> set files. \<exists>p. FileName f = ManifestName b p)"

lemma written_is_complete:
  assumes E: "codec_ok T E" and b: "safeComponent b" "T b" and files: "named_by b files"
    and p: "pointer_text T p" "PointerVersion p = 1" "Workspace p \<noteq> [] \<longrightarrow> safeComponent (Workspace p)"
  shows "complete T E (Current p) (store ''release.json'' (Some (encode_pointer E p)) (release_contents E files))"
proof -
  have good: "\<forall>(n, x) \<in> set (release_entries files). good_name T n"
    using files good_names[OF E b] unfolding named_by_def release_entries_def by fastforce
  have m: "mirror T E (inventory_of E files) (put_all (release_entries files) [])"
    unfolding inventory_of_def by (rule mirror_all[OF _ good]) (simp add: mirror_def)
  have "release_entries files \<noteq> []" using files by (cases files) (auto simp: named_by_def release_entries_def)
  then obtain e es where es: "release_entries files = e # es" by (cases "release_entries files") auto
  then have "inventory_of E files \<noteq> []"
    by (cases e) (auto simp: inventory_of_def intro!: fold_store_nonempty)
  then show ?thesis using m p unfolding complete_def release_contents_def
    by (intro exI[of _ "inventory_of E files"] exI[of _ "put_all (release_entries files) []"] exI[of _ p]) auto
qed

section \<open>The invariant of a build\<close>

definition served :: "(string \<Rightarrow> dir_files \<Rightarrow> bool) \<Rightarrow> (string \<Rightarrow> bool) \<Rightarrow> release_env \<Rightarrow> builds_dir \<Rightarrow> string \<Rightarrow> release_pointer \<Rightarrow> bool" where
  "served S T E d b p \<longleftrightarrow> current_of d b = Some (Some (encode_pointer E p)) \<and> pointer_text T p \<and> PointerVersion p = 1 \<and>
     safeComponent b \<and> (Workspace p \<noteq> [] \<longrightarrow> safeComponent (Workspace p)) \<and> list_all safeComponent (Current p # Retained p) \<and>
     distinct (Current p # Retained p) \<and>
     (\<forall>i \<in> set (Current p # Retained p). \<exists>fs. release_of d b i = Some fs \<and> complete T E i fs \<and> S b fs)"

text \<open>
  A property \<open>S\<close> of the files of a publication may be carried along, when what is published has it and what
  is taken over from the old layout.
\<close>

definition good_contents :: "(string \<Rightarrow> dir_files \<Rightarrow> bool) \<Rightarrow> release_env \<Rightarrow> builds_dir \<Rightarrow> bool" where
  "good_contents S E d \<longleftrightarrow>
     (\<forall>b fs x. fs \<noteq> [] \<longrightarrow> check_files E b [] fs = None \<or> legacyRelease d b = Inr fs \<longrightarrow> S b (store ''release.json'' x (release_contents E fs)))"

lemma legacy_cong: "top_files d' = top_files d \<Longrightarrow> legacyRelease d' b = legacyRelease d b"
proof -
  assume top: "top_files d' = top_files d"
  have "legacy_files d' b ps = legacy_files d b ps" for ps by (induction ps) (simp_all add: top split: sum.splits)
  then show ?thesis unfolding legacyRelease_def .
qed

lemma good_contents_cong: "top_files d' = top_files d \<Longrightarrow> good_contents S E d' = good_contents S E d"
  by (simp add: good_contents_def legacy_cong[of d' d])

definition release_inv :: "(string \<Rightarrow> dir_files \<Rightarrow> bool) \<Rightarrow> (string \<Rightarrow> bool) \<Rightarrow> release_env \<Rightarrow> builds_dir \<Rightarrow> bool" where
  "release_inv S T E d \<longleftrightarrow> good_contents S E d \<and> (\<forall>b. current_of d b = None \<or> (\<exists>p. served S T E d b p))"

lemma served_read: "codec_ok T E \<Longrightarrow> served S T E d b p \<Longrightarrow> ReadRelease E d b = Inr p"
  using codec_pointer[of T E p] by (auto simp: served_def ReadRelease_def)

lemma read_served:
  assumes "codec_ok T E" "release_inv S T E d" "ReadRelease E d b = Inr p"
  shows "served S T E d b p"
proof -
  have "current_of d b \<noteq> None" using assms(3) by (cases "current_of d b") (auto simp: ReadRelease_def split: if_splits)
  then obtain q where "served S T E d b q" using assms(2) unfolding release_inv_def by metis
  then show ?thesis using served_read[OF assms(1)] assms(3) by fastforce
qed

lemma read_missing: "codec_ok T E \<Longrightarrow> release_inv S T E d \<Longrightarrow> ReadRelease E d b = Inl NotExist \<Longrightarrow> current_of d b = None"
  using served_read[where S = S and b = b] unfolding release_inv_def by fastforce

text \<open>A write that keeps the pointers and the publications already there keeps the invariant.\<close>

definition extends :: "builds_dir \<Rightarrow> builds_dir \<Rightarrow> bool" where
  "extends d d' \<longleftrightarrow> top_files d' = top_files d \<and> (\<forall>b i fs. release_of d b i = Some fs \<longrightarrow> release_of d' b i = Some fs)"

lemma extends_refl [simp]: "extends d d"
  by (simp add: extends_def)

lemma extends_trans [trans]: "extends d d' \<Longrightarrow> extends d' d'' \<Longrightarrow> extends d d''"
  by (simp add: extends_def)

lemma extends_same: "release_of d' = release_of d \<Longrightarrow> top_files d' = top_files d \<Longrightarrow> extends d d'"
  by (simp add: extends_def)

lemma served_release:
  assumes "served S T E d b p" "i \<in> set (Current p # Retained p)"
  shows "\<exists>fs. release_of d b i = Some fs \<and> complete T E i fs \<and> S b fs"
  using assms(1) unfolding served_def by (elim conjE) (erule bspec[OF _ assms(2)])

lemma served_extends:
  assumes "served S T E d b p" "current_of d' b = current_of d b" "extends d d'"
  shows "served S T E d' b p"
proof -
  have all: "\<forall>i \<in> set (Current p # Retained p). \<exists>fs. release_of d' b i = Some fs \<and> complete T E i fs \<and> S b fs"
  proof
    fix i assume "i \<in> set (Current p # Retained p)"
    from served_release[OF assms(1) this] obtain fs where "release_of d b i = Some fs" "complete T E i fs \<and> S b fs" by (elim exE conjE) simp
    then show "\<exists>fs. release_of d' b i = Some fs \<and> complete T E i fs \<and> S b fs" using assms(3) by (auto simp: extends_def)
  qed
  show ?thesis using assms(1) unfolding served_def assms(2) by (elim conjE) (intro conjI all; assumption)
qed

lemma extends_good: "extends d d' \<Longrightarrow> good_contents S E d' = good_contents S E d"
  by (rule good_contents_cong) (simp add: extends_def)

lemma inv_extends:
  assumes "release_inv S T E d" "current_of d' = current_of d" "extends d d'"
  shows "release_inv S T E d'"
proof -
  have "current_of d' b = None \<or> (\<exists>p. served S T E d' b p)" for b
    using assms(1,2) served_extends[OF _ _ assms(3)] unfolding release_inv_def by metis
  then show ?thesis using assms(1) extends_good[OF assms(3)] by (simp add: release_inv_def)
qed

lemma inv_published:
  assumes "release_inv S T E d" "extends d d'" "current_of d' = (current_of d)(b \<mapsto> Some (encode_pointer E p))" "served S T E d' b p"
  shows "release_inv S T E d'"
proof -
  have "current_of d' b' = None \<or> (\<exists>p. served S T E d' b' p)" for b'
  proof (cases "b' = b")
    case True
    then show ?thesis using assms(4) by blast
  next
    case False
    then have same: "current_of d' b' = current_of d b'" using assms(3) by simp
    show ?thesis using assms(1) same served_extends[OF _ same assms(2)] unfolding release_inv_def by metis
  qed
  then show ?thesis using assms(1) extends_good[OF assms(2)] by (simp add: release_inv_def)
qed

lemma only_top: "only_release b i d d' \<Longrightarrow> top_files d' = top_files d"
  by (simp add: only_release_def)

lemma writeRelease_extends: "writeRelease E b i files d = (ok, d') \<Longrightarrow> extends d d' \<and> current_of d' = current_of d"
  using writeRelease_keeps only_current[OF writeRelease_frame] only_top[OF writeRelease_frame] by (simp add: extends_def)

text \<open>A publication and its metadata, written one after the other.\<close>

lemma published_pair:
  assumes "writeRelease E b (Current p) files d = (True, d1)" "writeReleaseMetadata E b p d1 = (ok, d2)"
  shows "extends d d2 \<and> current_of d2 = current_of d"
    "ok \<Longrightarrow> release_of d2 b (Current p) = Some (store ''release.json'' (Some (encode_pointer E p)) (release_contents E files))"
proof -
  have fresh: "release_of d b (Current p) = None" "release_of d1 b (Current p) = Some (release_contents E files)"
    using writeRelease_done[OF assms(1)] by auto
  have "release_of d2 b' i' = Some fs" if "release_of d b' i' = Some fs" for b' i' fs
  proof -
    have "(b', i') \<noteq> (b, Current p)" using that fresh(1) by auto
    then show ?thesis using writeRelease_keeps[OF assms(1) that] only_other[OF writeReleaseMetadata_frame[OF assms(2)]] by simp
  qed
  then show "extends d d2 \<and> current_of d2 = current_of d"
    using only_current[OF writeReleaseMetadata_frame[OF assms(2)]] only_top[OF writeReleaseMetadata_frame[OF assms(2)]] writeRelease_extends[OF assms(1)] by (simp add: extends_def)
  show "release_of d2 b (Current p) = Some (store ''release.json'' (Some (encode_pointer E p)) (release_contents E files))" if ok
    using writeReleaseMetadata_done[of E b p d1 d2] assms(2) that fresh(2) by simp
qed

section \<open>Publishing\<close>

definition metadata_ok :: "(string \<Rightarrow> bool) \<Rightarrow> release_pointer \<Rightarrow> bool" where
  "metadata_ok T m \<longleftrightarrow> T (SettingsRevision m) \<and> T (Workspace m) \<and> T (InputDigest m) \<and> T (SourceRevision m) \<and>
     T (WorkspaceDigest m) \<and> (Workspace m \<noteq> [] \<longrightarrow> safeComponent (Workspace m))"

lemma legacy_named: "legacy_files d b ps = Inr fs \<Longrightarrow> f \<in> set fs \<Longrightarrow> \<exists>p. FileName f = ManifestName b p"
  by (induction ps arbitrary: fs) (force split: sum.splits if_splits)+

lemma checked_named: "check_files E b seen fs = None \<Longrightarrow> f \<in> set fs \<Longrightarrow> \<exists>p. FileName f = ManifestName b p"
  by (induction E b seen fs rule: check_files.induct) (auto split: option.splits if_splits)

definition all_complete :: "(string \<Rightarrow> dir_files \<Rightarrow> bool) \<Rightarrow> (string \<Rightarrow> bool) \<Rightarrow> release_env \<Rightarrow> builds_dir \<Rightarrow> string \<Rightarrow> string list \<Rightarrow> bool" where
  "all_complete S T E d b ids \<longleftrightarrow> list_all safeComponent ids \<and> list_all T ids \<and> distinct ids \<and>
     (\<forall>i \<in> set ids. \<exists>fs. release_of d b i = Some fs \<and> complete T E i fs \<and> S b fs)"

lemma all_complete_extends: "all_complete S T E d b ids \<Longrightarrow> extends d d' \<Longrightarrow> all_complete S T E d' b ids"
  unfolding all_complete_def extends_def by metis

lemma served_all_complete: "served S T E d b p \<Longrightarrow> all_complete S T E d b (Current p # Retained p)"
  by (simp add: served_def all_complete_def pointer_text_def)

lemma all_complete_served:
  "all_complete S T E d b (Current p # Retained p) \<Longrightarrow> metadata_ok T p \<Longrightarrow> PointerVersion p = 1 \<Longrightarrow> safeComponent b \<Longrightarrow>
   current_of d b = Some (Some (encode_pointer E p)) \<Longrightarrow> served S T E d b p"
  by (simp add: served_def all_complete_def pointer_text_def metadata_ok_def)

lemma metadata_pointer_text: "metadata_ok T p \<Longrightarrow> T (Current p) \<Longrightarrow> list_all T (Retained p) \<Longrightarrow> pointer_text T p"
  by (simp add: metadata_ok_def pointer_text_def)

text \<open>A new publication is complete once its files and its metadata are written.\<close>

definition suited :: "(string \<Rightarrow> dir_files \<Rightarrow> bool) \<Rightarrow> release_env \<Rightarrow> string \<Rightarrow> release_file list \<Rightarrow> bool" where
  "suited S E b files \<longleftrightarrow> named_by b files \<and> (\<forall>x. S b (store ''release.json'' x (release_contents E files)))"

lemma legacy_suited: "release_inv S T E d \<Longrightarrow> legacyRelease d b = Inr fs \<Longrightarrow> fs \<noteq> [] \<Longrightarrow> suited S E b fs"
  using legacy_named unfolding suited_def named_by_def legacyRelease_def release_inv_def good_contents_def by metis

lemma checked_suited: "release_inv S T E d \<Longrightarrow> files \<noteq> [] \<Longrightarrow> check_files E b [] files = None \<Longrightarrow> suited S E b files"
  using checked_named unfolding suited_def named_by_def release_inv_def good_contents_def by metis

lemma published_complete:
  assumes E: "codec_ok T E" and b: "safeComponent b" "T b" and files: "suited S E b files"
    and p: "metadata_ok T p" "PointerVersion p = 1" "safeComponent (Current p)" "T (Current p)" "all_complete S T E d b (Retained p)"
    and w: "writeRelease E b (Current p) files d = (True, d1)" "writeReleaseMetadata E b p d1 = (True, d2)"
  shows "all_complete S T E d2 b (Current p # Retained p)"
proof -
  have txts: "pointer_text T p" using p metadata_pointer_text by (simp add: all_complete_def)
  have "Current p \<notin> set (Retained p)" using p(5) writeRelease_done[OF w(1)] unfolding all_complete_def by force
  moreover have "complete T E (Current p) (store ''release.json'' (Some (encode_pointer E p)) (release_contents E files))"
    using written_is_complete[OF E b _ txts p(2)] files p(1) by (simp add: metadata_ok_def suited_def)
  ultimately show ?thesis
    using p published_pair[OF w] all_complete_extends[OF p(5), of d2] files unfolding all_complete_def suited_def by auto
qed

lemma first_publication: "metadata_ok T p \<Longrightarrow> Retained p = [] \<Longrightarrow> all_complete S T E d b (Retained p)"
  by (simp add: all_complete_def)

text \<open>What stays as it was after a write that does not touch the pointers.\<close>

definition spares :: "builds_dir \<Rightarrow> builds_dir \<Rightarrow> bool" where
  "spares d d' \<longleftrightarrow> extends d d' \<and> current_of d' = current_of d"

lemma spares_refl [simp]: "spares d d"
  by (simp add: spares_def)

lemma spares_trans [trans]: "spares d d' \<Longrightarrow> spares d' d'' \<Longrightarrow> spares d d''"
  by (auto simp: spares_def intro: extends_trans)

lemma disk_fault_keeps: "disk_fault d = (f, d') \<Longrightarrow> spares d d'"
  by (auto simp: spares_def dest!: disk_fault_frame intro!: extends_same)

lemma writeRelease_keep: "writeRelease E b i files d = (ok, d') \<Longrightarrow> spares d d'"
  using writeRelease_extends by (simp add: spares_def)

lemma make_dirs_keeps: "make_dirs b d = (ok, d') \<Longrightarrow> spares d d'"
  using make_dirs_frame[of b d ok d' undefined] only_current[of b undefined d d'] only_top[of b undefined d d'] by (auto simp: spares_def intro!: extends_same)

definition legacy_pointer :: "string \<Rightarrow> release_pointer" where
  "legacy_pointer l = \<lparr>PointerVersion = 1, Current = l, Retained = [], SettingsRevision = [], Workspace = [], InputDigest = [],
    SourceRevision = [], WorkspaceDigest = []\<rparr>"

lemma retain_legacy:
  assumes E: "codec_ok T E" and b: "safeComponent b" "T b" and l: "safeComponent l" "T l"
    and named: "suited S E b fs" and w: "writeRelease E b l fs d = (True, d1)" "writeReleaseMetadata E b (legacy_pointer l) d1 = (ok, d2)"
  shows "spares d d2 \<and> (ok \<longrightarrow> all_complete S T E d2 b [l])"
proof -
  have p: "metadata_ok T (legacy_pointer l)" using codec_ascii[OF E, of "[]"] by (simp add: metadata_ok_def legacy_pointer_def)
  have w': "writeRelease E b (Current (legacy_pointer l)) fs d = (True, d1)" using w(1) by (simp add: legacy_pointer_def)
  show ?thesis using published_pair(1)[OF w' w(2)] published_complete[OF E b named p _ _ _ _ w', of d2] l w(2)
    by (cases ok) (auto simp: spares_def legacy_pointer_def all_complete_def)
qed

lemma retain_ok:
  assumes E: "codec_ok T E" and inv: "release_inv S T E d" and b: "safeComponent b" "T b" and l: "safeComponent l" "T l"
    and r: "retain E b l d = (r, d')"
  shows "spares d d' \<and> (\<forall>ids. r = Inr ids \<longrightarrow> all_complete S T E d' b ids) \<and>
    (\<forall>p. ReadRelease E d b = Inr p \<longrightarrow> r = Inr (Current p # Retained p))"
proof (cases "ReadRelease E d b")
  case (Inr q)
  then show ?thesis using r served_all_complete[OF read_served[OF E inv Inr]] by (auto simp: retain_def)
next
  case (Inl e)
  show ?thesis
  proof (cases "\<exists>fs d1. e = NotExist \<and> legacyRelease d b = Inr fs \<and> fs \<noteq> [] \<and> writeRelease E b l fs d = (True, d1)")
    case True
    then obtain fs d1 where e: "e = NotExist" "legacyRelease d b = Inr fs" "fs \<noteq> []" and w: "writeRelease E b l fs d = (True, d1)"
      by auto
    obtain ok d2 where m: "writeReleaseMetadata E b (legacy_pointer l) d1 = (ok, d2)" by fastforce
    have named: "suited S E b fs" using legacy_suited[OF inv e(2,3)] .
    show ?thesis using r Inl e w m retain_legacy[OF E b l named w m] by (cases ok) (auto simp: retain_def legacy_pointer_def)
  next
    case False
    then show ?thesis using r Inl
      by (auto simp: retain_def all_complete_def split: sum.splits if_splits prod.splits bool.splits dest: writeRelease_keep)
  qed
qed

definition moved :: "(string \<Rightarrow> dir_files \<Rightarrow> bool) \<Rightarrow> (string \<Rightarrow> bool) \<Rightarrow> release_env \<Rightarrow> string \<Rightarrow> string \<Rightarrow> builds_dir \<Rightarrow> builds_dir \<Rightarrow> bool" where
  "moved S T E b i d d' \<longleftrightarrow> extends d d' \<and>
     (\<exists>p. current_of d' = (current_of d)(b \<mapsto> Some (encode_pointer E p)) \<and> served S T E d' b p \<and> Current p = i)"

lemma moved_inv: "release_inv S T E d \<Longrightarrow> moved S T E b i d d' \<Longrightarrow> release_inv S T E d'"
  unfolding moved_def using inv_published by metis

lemma moved_read: "codec_ok T E \<Longrightarrow> moved S T E b i d d' \<Longrightarrow> \<exists>p. ReadRelease E d' b = Inr p \<and> Current p = i"
  unfolding moved_def using served_read by metis

lemma moved_keeps: "spares d d1 \<Longrightarrow> moved S T E b i d1 d' \<Longrightarrow> moved S T E b i d d'"
  unfolding moved_def spares_def using extends_trans by metis

lemma ReadRelease_cong: "current_of d' b = current_of d b \<Longrightarrow> ReadRelease E d' b = ReadRelease E d b"
  by (simp add: ReadRelease_def)

lemma put_current_moved:
  assumes w: "put_current E b p d = (ok, d')" and c: "all_complete S T E d b (Current p # Retained p)"
    and p: "metadata_ok T p" "PointerVersion p = 1" and b: "safeComponent b"
  shows "if ok then moved S T E b (Current p) d d' else spares d d'"
proof -
  have f: "release_of d' = release_of d" "current_of d' = (if ok then (current_of d)(b \<mapsto> Some (encode_pointer E p)) else current_of d)"
    using put_current_frame[OF w] by auto
  note top = conjunct1[OF conjunct2[OF put_current_frame[OF w]]]
  have c': "all_complete S T E d' b (Current p # Retained p)" using all_complete_extends[OF c extends_same[OF f(1) top]] .
  show ?thesis
  proof (cases ok)
    case True
    then show ?thesis using f all_complete_served[OF c' p b] extends_same[OF f(1) top] by (auto simp: moved_def)
  next
    case False
    then show ?thesis using f extends_same[OF f(1) top] by (simp add: spares_def)
  qed
qed

lemma publish_new:
  assumes E: "codec_ok T E" and b: "safeComponent b" "T b" and files: "suited S E b files"
    and p: "metadata_ok T p" "PointerVersion p = 1" "safeComponent (Current p)" "T (Current p)" "all_complete S T E d b (Retained p)"
    and w: "writeRelease E b (Current p) files d = (True, d1)" "writeReleaseMetadata E b p d1 = (ok1, d2)"
    and c: "ok1 \<Longrightarrow> put_current E b p d2 = (ok, d')"
  shows "spares d d2" "ok1 \<Longrightarrow> if ok then moved S T E b (Current p) d d' else spares d d'"
proof -
  show k: "spares d d2" using published_pair(1)[OF w] by (simp add: spares_def)
  show "if ok then moved S T E b (Current p) d d' else spares d d'" if ok1
    using put_current_moved[OF c[OF that] published_complete[OF E b files p w(1)] p(1,2) b(1)] w(2) that
      moved_keeps[OF k] spares_trans[OF k] by (auto split: if_splits)
qed

lemma publish_effect:
  assumes E: "codec_ok T E" and inv: "release_inv S T E d" and ids: "T b" "safeComponent l" "T l" "safeComponent n" "T n"
    and m: "metadata_ok T meta" and run: "PublishRelease E b l n files meta d = (e, d')"
  shows "e \<noteq> None \<and> spares d d' \<or> moved S T E b n d d'"
proof (cases "safeComponent b \<and> files \<noteq> [] \<and> check_files E b [] files = None")
  case False
  then have "e \<noteq> None \<and> d' = d" using run
    by (cases "check_files E b [] files") (auto simp: PublishRelease_def split: if_splits dest: sym)
  then show ?thesis by simp
next
  case True
  then have b: "safeComponent b" "T b" and named: "suited S E b files" using ids True checked_suited[OF inv] by auto
  obtain okd d0 where d0: "make_dirs b d = (okd, d0)" by fastforce
  note k0 = make_dirs_keeps[OF d0]
  obtain r d1 where d1: "retain E b l d0 = (r, d1)" by fastforce
  have inv0: "release_inv S T E d0" using k0 inv_extends[OF inv] by (simp add: spares_def)
  note k1 = retain_ok[OF E inv0 b ids(2,3) d1]
  have k01: "spares d d1" using k0 k1 spares_trans by blast
  show ?thesis
  proof (cases "okd \<and> (\<exists>ids. r = Inr ids)")
    case False
    then show ?thesis using run True d0 d1 k0 k01 by (cases r; cases okd) (auto simp: PublishRelease_def)
  next
    case okd: True
    then obtain ids' where ids': "r = Inr ids'" by blast
    define p where "p = meta\<lparr>PointerVersion := 1, Current := n, Retained := ids'\<rparr>"
    have p: "metadata_ok T p" "PointerVersion p = 1" "safeComponent (Current p)" "T (Current p)" "all_complete S T E d1 b (Retained p)"
      using m ids k1 ids' by (simp_all add: p_def metadata_ok_def)
    have n: "Current p = n" by (simp add: p_def)
    obtain ok2 d2 where d2: "writeRelease E b n files d1 = (ok2, d2)" by fastforce
    obtain ok3 d3 where d3: "writeReleaseMetadata E b p d2 = (ok3, d3)" by fastforce
    obtain ok4 d4 where d4: "put_current E b p d3 = (ok4, d4)" by fastforce
    obtain f5 d5 where d5: "disk_fault d4 = (f5, d5)" by fastforce
    have run': "(e, d') = (if \<not> ok2 then (Some WriteFailed, d2) else if \<not> ok3 then (Some WriteFailed, d3)
        else if \<not> ok4 then (Some WriteFailed, d4) else (if f5 then Some WriteFailed else None, d5))"
      using run True okd d0 d1 ids' d2 d3 d4 d5 by (simp add: PublishRelease_def Let_def p_def[symmetric] split: bool.splits) (auto split: if_splits)
    show ?thesis
    proof (cases ok2)
      case False
      then show ?thesis using run' spares_trans[OF k01 writeRelease_keep[OF d2]] by simp
    next
      case ok2: True
      have w: "writeRelease E b (Current p) files d1 = (True, d2)" using d2 ok2 n by simp
      note new = publish_new[OF E b named p w d3 d4]
      have last: "extends d4 d5 \<and> current_of d5 = current_of d4" using disk_fault_keeps[OF d5] by (simp add: spares_def)
      have "moved S T E b n d d5" if ok3 ok4
      proof -
        have "moved S T E b n d d4" using new(2) that n moved_keeps[OF k01] by simp
        then show ?thesis unfolding moved_def using last served_extends extends_trans by metis
      qed
      then show ?thesis using run' ok2 new spares_trans[OF k01] by (auto split: if_splits)
    qed
  qed
qed

section \<open>Rolling back\<close>

lemma rollback_step:
  assumes E: "codec_ok T E" and s: "served S T E d b c" and i: "i \<in> set (Retained c)"
  obtains p where "metadata_ok T p" "PointerVersion p = 1" "Current p = i"
    "Retained p = Current c # filter (\<lambda>r. r \<noteq> i) (Retained c)" "all_complete S T E d b (Current p # Retained p)"
    "RollbackRelease E b i d = (case put_current E b p d of (False, d) \<Rightarrow> (Some WriteFailed, d) | (True, d) \<Rightarrow> (None, d))"
proof -
  obtain fs where fs: "release_of d b i = Some fs" "complete T E i fs" using s i by (auto simp: served_def)
  obtain q where q: "read_file fs ''release.json'' = Inr (encode_pointer E q)" "decode_pointer E (encode_pointer E q) = Some q"
    "pointer_text T q" "PointerVersion q = 1" "Current q = i" "Workspace q \<noteq> [] \<longrightarrow> safeComponent (Workspace q)"
    using complete_pointer[OF E fs(2)] by metis
  define p where "p = q\<lparr>Retained := Current c # filter (\<lambda>r. r \<noteq> i) (Retained c)\<rparr>"
  have all: "all_complete S T E d b (Current p # Retained p)"
    using served_all_complete[OF s] i q(5) by (auto simp: p_def all_complete_def list_all_iff)
  have run: "RollbackRelease E b i d = (case put_current E b p d of (False, d) \<Rightarrow> (Some WriteFailed, d) | (True, d) \<Rightarrow> (None, d))"
    unfolding RollbackRelease_def served_read[OF E s] using i fs(1) complete_verifies[OF E fs(2)] q by (auto simp: p_def)
  show thesis using q(3-6) all run by (intro that[of p]) (auto simp: p_def metadata_ok_def pointer_text_def)
qed

lemma rollback_effect:
  assumes E: "codec_ok T E" and inv: "release_inv S T E d" and run: "RollbackRelease E b i d = (e, d')"
  shows "e \<noteq> None \<and> spares d d' \<or> moved S T E b i d d'"
proof (cases "ReadRelease E d b")
  case (Inl err)
  then show ?thesis using run by (auto simp: RollbackRelease_def)
next
  case (Inr c)
  note s = read_served[OF E inv Inr]
  show ?thesis
  proof (cases "i \<in> set (Retained c)")
    case False
    then show ?thesis using run Inr by (auto simp: RollbackRelease_def)
  next
    case True
    obtain p where p: "metadata_ok T p" "PointerVersion p = 1" "Current p = i" "all_complete S T E d b (Current p # Retained p)"
      "RollbackRelease E b i d = (case put_current E b p d of (False, d) \<Rightarrow> (Some WriteFailed, d) | (True, d) \<Rightarrow> (None, d))"
      using rollback_step[OF E s True] by blast
    obtain ok d1 where d1: "put_current E b p d = (ok, d1)" by fastforce
    have "safeComponent b" using s by (simp add: served_def)
    note effect = put_current_moved[OF d1 p(4,1,2) this]
    have "(e, d') = (if ok then (None, d1) else (Some WriteFailed, d1))" using run p(5) d1 by (cases ok) auto
    then show ?thesis using effect p(3) by (simp split: if_splits)
  qed
qed

section \<open>Runs\<close>

text \<open>
  Each operation of a run has the script of its disk: a script that fails from some point on is a crash
  there. The two publications draw new ids, which an earlier operation may even have drawn before.
\<close>

datatype release_op = OpPublish string string string "release_file list" release_pointer "bool list" | OpRollback string string "bool list"

fun release_step :: "release_env \<Rightarrow> release_op \<Rightarrow> builds_dir \<Rightarrow> builds_dir" where
  "release_step E (OpPublish b l n files meta script) d = snd (PublishRelease E b l n files meta (d\<lparr>disk_faults := script\<rparr>))"
| "release_step E (OpRollback b i script) d = snd (RollbackRelease E b i (d\<lparr>disk_faults := script\<rparr>))"

definition release_run :: "release_env \<Rightarrow> release_op list \<Rightarrow> builds_dir \<Rightarrow> builds_dir" where
  "release_run E ops d = fold (release_step E) ops d"

definition no_releases :: "dir_files \<Rightarrow> builds_dir" where
  "no_releases files = \<lparr>top_files = files, build_dirs = [], current_of = (\<lambda>_. None), release_of = (\<lambda>_ _. None), disk_faults = []\<rparr>"

fun op_ok :: "(string \<Rightarrow> bool) \<Rightarrow> release_op \<Rightarrow> bool" where
  "op_ok T (OpPublish b l n files meta script) \<longleftrightarrow> T b \<and> safeComponent l \<and> T l \<and> safeComponent n \<and> T n \<and> metadata_ok T meta"
| "op_ok T (OpRollback b i script) \<longleftrightarrow> True"

lemma good_contents_faults [simp]: "good_contents S E (d\<lparr>disk_faults := fs\<rparr>) = good_contents S E d"
  by (rule good_contents_cong) simp

lemma faults_same [simp]:
  "ReadRelease E (d\<lparr>disk_faults := fs\<rparr>) b = ReadRelease E d b" "served S T E (d\<lparr>disk_faults := fs\<rparr>) b p = served S T E d b p"
  "release_inv S T E (d\<lparr>disk_faults := fs\<rparr>) = release_inv S T E d" "spares (d\<lparr>disk_faults := fs\<rparr>) d' = spares d d'"
  "moved S T E b i (d\<lparr>disk_faults := fs\<rparr>) d' = moved S T E b i d d'"
  by (simp_all add: ReadRelease_def served_def release_inv_def spares_def moved_def extends_def)

lemma effect_inv: "release_inv S T E d \<Longrightarrow> P \<and> spares d d' \<or> moved S T E b i d d' \<Longrightarrow> release_inv S T E d'"
  using moved_inv inv_extends unfolding spares_def by metis

lemma step_inv:
  assumes E: "codec_ok T E" and ok: "op_ok T opn" and inv: "release_inv S T E d"
  shows "release_inv S T E (release_step E opn d)"
proof (cases opn)
  case (OpPublish b l n files meta script)
  let ?d = "d\<lparr>disk_faults := script\<rparr>"
  obtain e d' where run: "PublishRelease E b l n files meta ?d = (e, d')" by fastforce
  have ids: "T b" "safeComponent l" "T l" "safeComponent n" "T n" "metadata_ok T meta" using ok OpPublish by simp_all
  have inv': "release_inv S T E ?d" using inv by simp
  show ?thesis using effect_inv[OF inv' publish_effect[OF E inv' ids run]] run OpPublish by simp
next
  case (OpRollback b i script)
  let ?d = "d\<lparr>disk_faults := script\<rparr>"
  obtain e d' where run: "RollbackRelease E b i ?d = (e, d')" by fastforce
  have inv': "release_inv S T E ?d" using inv by simp
  show ?thesis using effect_inv[OF inv' rollback_effect[OF E inv' run]] run OpRollback by simp
qed

lemma run_inv:
  assumes "codec_ok T E" "list_all (op_ok T) ops" "good_contents S E (no_releases files)"
  shows "release_inv S T E (release_run E ops (no_releases files))"
proof -
  have "release_inv S T E (fold (release_step E) ops d)" if "release_inv S T E d" for d
    using that assms(2) step_inv[OF assms(1)] by (induction ops arbitrary: d) auto
  then show ?thesis using assms(3) by (simp add: release_run_def release_inv_def no_releases_def)
qed

abbreviation any_files :: "string \<Rightarrow> dir_files \<Rightarrow> bool" where
  "any_files \<equiv> \<lambda>_ _. True"

lemma any_run_inv: "codec_ok T E \<Longrightarrow> list_all (op_ok T) ops \<Longrightarrow> release_inv any_files T E (release_run E ops (no_releases files))"
  by (rule run_inv) (simp_all add: good_contents_def)

section \<open>Properties\<close>

text \<open>
  C4: Whatever is published and rolled back, and wherever the disk fails or the process dies, the pointer of
  every build that has one can be read, and the publication it serves and all those it keeps for a
  rollback exist and match their inventories.
\<close>

theorem releases_stay_whole:
  assumes "codec_ok T E" "list_all (op_ok T) ops" "d = release_run E ops (no_releases files)"
  shows "current_of d b = None \<or>
    (\<exists>p. ReadRelease E d b = Inr p \<and>
       (\<forall>i \<in> set (Current p # Retained p). \<exists>fs. release_of d b i = Some fs \<and> VerifyRelease E fs = None))"
proof -
  have "release_inv any_files T E d" using any_run_inv[OF assms(1,2)] assms(3) by simp
  then show ?thesis
    using served_read[OF assms(1)] complete_verifies[OF assms(1)] unfolding release_inv_def served_def by metis
qed

text \<open>
  C5: A publication is atomic: after any publish, whatever fails, the pointer of the build still says what
  it said and an error is returned, or it names the new publication; the publications that were there are
  unchanged, to the byte, and so is every other build.
\<close>

theorem publish_is_atomic:
  assumes "codec_ok T E" "list_all (op_ok T) ops" "d = release_run E ops (no_releases files)"
    and "op_ok T (OpPublish b l n fs meta script)"
    and "PublishRelease E b l n fs meta (d\<lparr>disk_faults := script\<rparr>) = (e, d')"
  shows "(e \<noteq> None \<and> ReadRelease E d' b = ReadRelease E d b \<or> (\<exists>p. ReadRelease E d' b = Inr p \<and> Current p = n)) \<and>
    (\<forall>b' i r. release_of d b' i = Some r \<longrightarrow> release_of d' b' i = Some r) \<and>
    (\<forall>b'. b' \<noteq> b \<longrightarrow> ReadRelease E d' b' = ReadRelease E d b')"
proof -
  have inv: "release_inv any_files T E (d\<lparr>disk_faults := script\<rparr>)" using any_run_inv[OF assms(1,2)] assms(3) by simp
  have ids: "T b" "safeComponent l" "T l" "safeComponent n" "T n" "metadata_ok T meta" using assms(4) by simp_all
  consider "e \<noteq> None" "spares d d'" | "moved any_files T E b n d d'" using publish_effect[OF assms(1) inv ids assms(5)] by auto
  then show ?thesis
  proof cases
    case 1
    then show ?thesis using ReadRelease_cong[of d' _ d E] by (simp add: spares_def extends_def)
  next
    case 2
    moreover have "ReadRelease E d' b' = ReadRelease E d b'" if "b' \<noteq> b" for b'
      using 2 that by (intro ReadRelease_cong) (auto simp: moved_def)
    ultimately show ?thesis using moved_read[OF assms(1) 2] by (auto simp: moved_def extends_def)
  qed
qed

text \<open>
  C6: A rollback to any publication in the history of a build succeeds when the disk does: it is served
  afterwards, and the one that was served takes its place in the history, so that none is lost.
\<close>

theorem rollback_returns:
  assumes "codec_ok T E" "list_all (op_ok T) ops" "d = release_run E ops (no_releases files)"
    and "ReadRelease E d b = Inr p" "i \<in> set (Retained p)" "script = [] \<or> \<not> hd script"
  shows "\<exists>d' q. RollbackRelease E b i (d\<lparr>disk_faults := script\<rparr>) = (None, d') \<and> ReadRelease E d' b = Inr q \<and> Current q = i \<and>
    set (Current q # Retained q) = set (Current p # Retained p) \<and> Current p \<in> set (Retained q)"
proof -
  let ?d = "d\<lparr>disk_faults := script\<rparr>"
  have inv: "release_inv any_files T E d" using any_run_inv[OF assms(1,2)] assms(3) by simp
  then have s: "served any_files T E ?d b p" using read_served[OF assms(1) inv assms(4)] by simp
  obtain q where q: "metadata_ok T q" "PointerVersion q = 1" "Current q = i"
    "Retained q = Current p # filter (\<lambda>r. r \<noteq> i) (Retained p)" "all_complete any_files T E ?d b (Current q # Retained q)"
    "RollbackRelease E b i ?d = (case put_current E b q ?d of (False, d) \<Rightarrow> (Some WriteFailed, d) | (True, d) \<Rightarrow> (None, d))"
    using rollback_step[OF assms(1) s assms(5)] by blast
  obtain d' where w: "put_current E b q ?d = (True, d')"
    using assms(6) by (cases script) (auto simp: put_current_def disk_fault_def)
  have b: "safeComponent b" using s by (simp add: served_def)
  have f: "release_of d' = release_of ?d" "current_of d' = (current_of ?d)(b \<mapsto> Some (encode_pointer E q))"
    using put_current_frame[OF w] by auto
  note top = conjunct1[OF conjunct2[OF put_current_frame[OF w]]]
  have "served any_files T E d' b q"
    using all_complete_served[OF all_complete_extends[OF q(5) extends_same[OF f(1) top]] q(1,2) b] f(2) by simp
  then have "ReadRelease E d' b = Inr q" by (rule served_read[OF assms(1)])
  moreover have "RollbackRelease E b i ?d = (None, d')" unfolding q(6) w by simp
  moreover have "set (Current q # Retained q) = set (Current p # Retained p)" "Current p \<in> set (Retained q)"
    using q(3,4) assms(5) by auto
  ultimately show ?thesis using q(3) by blast
qed

subsection \<open>A codec that meets the hypotheses\<close>

text \<open>A pointer is the list of its fields, written as \<open>Tokens\<close> does.\<close>

fun plain_pairs :: "string list \<Rightarrow> (string \<times> string) list" where
  "plain_pairs (a # b # r) = (a, b) # plain_pairs r"
| "plain_pairs _ = []"

definition plain_pointer :: "string list \<Rightarrow> release_pointer option" where
  "plain_pointer ss = (case ss of v # w # c # s # wk # i # sr # wd # r \<Rightarrow>
     Some \<lparr>PointerVersion = int (length v) - int (length w), Current = c, Retained = r, SettingsRevision = s, Workspace = wk,
       InputDigest = i, SourceRevision = sr, WorkspaceDigest = wd\<rparr> | _ \<Rightarrow> None)"

definition plain_codec :: release_env where
  "plain_codec = \<lparr>
     encode_pointer = (\<lambda>p. plain_encode ([replicate (nat (PointerVersion p)) CHR ''i'', replicate (nat (- PointerVersion p)) CHR ''i'',
       Current p, SettingsRevision p, Workspace p, InputDigest p, SourceRevision p, WorkspaceDigest p] @ Retained p)),
     decode_pointer = (\<lambda>s. plain_pointer (plain_tokens [] s)),
     encode_inventory = (\<lambda>m. plain_encode (concat (map (\<lambda>(a, b). [a, b]) m))),
     decode_inventory = (\<lambda>s. Some (plain_pairs (plain_tokens [] s))),
     decode_manifest = (\<lambda>s. Some \<lparr>SchemaVersion = 1, Modpack = s, BuildVersion = [], ManifestMinecraft = [], ManifestJava = 0,
       GeneratedAt = 0, Files = [], TotalSize = 0, ManifestWritable = [], ManifestEnforced = [], ManifestAddress = [],
       ManifestLoader = [], ManifestFeatures = None, ManifestPlatform = PLATFORM_UNSPECIFIED,
       ManifestJvmArgs = [], ManifestGameArgs = [], ManifestClasspath = [], ManifestExclude = [], ManifestMain = []\<rparr>),
     digest = (\<lambda>s. CHR ''h'' # s)\<rparr>"

lemma plain_pairs_list: "plain_pairs (concat (map (\<lambda>(a, b). [a, b]) m)) = m"
  by (induction m) auto

lemma plain_codec_ok: "codec_ok (\<lambda>_. True) plain_codec"
  unfolding codec_ok_def
  by (simp add: plain_codec_def plain_tokens_encode plain_pairs_list) (auto simp: plain_pointer_def)

definition plain_meta :: release_pointer where
  "plain_meta = \<lparr>PointerVersion = 0, Current = [], Retained = [], SettingsRevision = [], Workspace = [], InputDigest = [],
    SourceRevision = [], WorkspaceDigest = []\<rparr>"

definition plain_publish :: "string \<Rightarrow> bool list \<Rightarrow> release_op" where
  "plain_publish i script = OpPublish ''p'' ''L'' i [\<lparr>FileName = ''p.manifest'', CanonicalBytes = ''p'', Signature = ''s''\<rparr>] plain_meta script"

definition plain_run :: "string list \<Rightarrow> builds_dir" where
  "plain_run ids = release_run plain_codec (map (\<lambda>i. plain_publish i []) ids) (no_releases [])"

lemma plain_ops_ok: "list_all (op_ok (\<lambda>_. True)) (map (\<lambda>i. plain_publish i []) [''A'', ''B''])"
  "list_all (op_ok (\<lambda>_. True)) (map (\<lambda>i. plain_publish i []) [])" "op_ok (\<lambda>_. True) (plain_publish ''C'' (replicate 6 False @ [True]))"
  by code_simp+

lemma plain_run_read:
  "(case ReadRelease plain_codec (plain_run [''A'', ''B'']) ''p'' of Inr p \<Rightarrow> Current p = ''B'' \<and> Retained p = [''A''] | Inl _ \<Rightarrow> False)"
  by code_simp

lemma releases_stay_whole_witness:
  "\<exists>fs. release_of (plain_run [''A'', ''B'']) ''p'' ''A'' = Some fs \<and> VerifyRelease plain_codec fs = None"
proof -
  obtain p where p: "ReadRelease plain_codec (plain_run [''A'', ''B'']) ''p'' = Inr p" "Retained p = [''A'']"
    using plain_run_read by (auto split: sum.splits)
  have "current_of (plain_run [''A'', ''B'']) ''p'' \<noteq> None" using p(1) unfolding ReadRelease_def
    by (cases "current_of (plain_run [''A'', ''B'']) ''p''") (auto split: if_splits)
  then show ?thesis using releases_stay_whole[OF plain_codec_ok plain_ops_ok(1) plain_run_def, of "''p''"] p by auto
qed

definition plain_crash :: "release_error option \<times> builds_dir" where
  "plain_crash = (case plain_publish ''C'' (replicate 6 False @ [True]) of
     OpPublish b l n files meta script \<Rightarrow> PublishRelease plain_codec b l n files meta (plain_run []\<lparr>disk_faults := script\<rparr>))"

lemma publish_is_atomic_witness:
  "fst plain_crash = Some WriteFailed \<and> ReadRelease plain_codec (snd plain_crash) ''other'' = ReadRelease plain_codec (plain_run []) ''other''"
proof -
  have "ReadRelease plain_codec (snd plain_crash) ''other'' = ReadRelease plain_codec (plain_run []) ''other''"
    using publish_is_atomic[OF plain_codec_ok plain_ops_ok(2) plain_run_def plain_ops_ok(3)[unfolded plain_publish_def],
      of "fst plain_crash" "snd plain_crash"] by (simp add: plain_crash_def plain_publish_def)
  moreover have "fst plain_crash = Some WriteFailed" by code_simp
  ultimately show ?thesis by simp
qed

lemma rollback_returns_witness:
  "\<exists>d' q. RollbackRelease plain_codec ''p'' ''A'' (plain_run [''A'', ''B'']\<lparr>disk_faults := []\<rparr>) = (None, d') \<and>
     ReadRelease plain_codec d' ''p'' = Inr q \<and> Current q = ''A''"
proof -
  obtain p where p: "ReadRelease plain_codec (plain_run [''A'', ''B'']) ''p'' = Inr p" "Retained p = [''A'']"
    using plain_run_read by (auto split: sum.splits)
  then show ?thesis using rollback_returns[OF plain_codec_ok plain_ops_ok(1) plain_run_def p(1), of "''A''" "[]"] by auto
qed

end
