(* ===== verification/CatalogRuns.thy ===== *)
theory CatalogRuns
  imports Catalog
begin

text \<open>
  Publishing and the catalogue together: whatever is published, rolled back or cut off by a crash, the
  catalogue can index the directory, and every build that has a pointer is served from it. The hypothesis
  is that the files of the old layout, where there are any, are what they say; the last section shows what
  happens without it.
\<close>

section \<open>Publications the catalogue accepts\<close>

definition indexable :: "release_env \<Rightarrow> string \<Rightarrow> dir_files \<Rightarrow> bool" where
  "indexable E b fs \<longleftrightarrow> manifest_names fs \<noteq> [] \<and> (\<forall>n \<in> set (manifest_names fs). check_manifest E b fs n = None)"

definition sound_files :: "release_env \<Rightarrow> string \<Rightarrow> release_file list \<Rightarrow> bool" where
  "sound_files E b files \<longleftrightarrow> files \<noteq> [] \<and> distinct (map FileName files) \<and>
     (\<forall>f \<in> set files. Signature f \<noteq> [] \<and> (\<exists>m. decode_manifest E (CanonicalBytes f) = Some m \<and> Modpack m = b \<and>
        FileName f = ManifestName b (ManifestPlatform m)))"

lemma lookup_put_all:
  "distinct (map fst es) \<Longrightarrow> lookup (put_all es fs) n = (case lookup es n of None \<Rightarrow> lookup fs n | Some x \<Rightarrow> Some (Some x))"
proof (induction es arbitrary: fs)
  case (Cons e es)
  obtain k x where e: "e = (k, x)" by (cases e)
  then have "lookup es k = None" using Cons.prems by (simp add: lookup_None_iff)
  then show ?case using Cons by (auto simp: e split: option.splits)
qed simp

lemma entries_names: "fst ` set (release_entries files) = FileName ` set files \<union> (SignaturePath \<circ> FileName) ` set files"
  by (auto simp: release_entries_def image_iff)

lemma distinct_entries:
  assumes "distinct (map FileName files)" "\<forall>f \<in> set files. \<exists>p. FileName f = ManifestName b p"
  shows "distinct (map fst (release_entries files))"
  using assms
proof (induction files)
  case (Cons f files)
  have apart: "SignaturePath (ManifestName b p) \<noteq> ManifestName b q" for p q
    using signature_no_manifest[of "b @ (if snd (Key p) then ''.'' @ fst (Key p) else [])"] ManifestName_suffix[of b q]
    by (auto simp: SignaturePath_name)
  obtain p where p: "FileName f = ManifestName b p" using Cons.prems(2) by auto
  have new: "FileName f \<notin> FileName ` set files" using Cons.prems(1) by auto
  have "FileName f \<noteq> FileName g \<and> FileName f \<noteq> SignaturePath (FileName g) \<and> SignaturePath (FileName f) \<noteq> FileName g \<and>
    SignaturePath (FileName f) \<noteq> SignaturePath (FileName g)" if g: "g \<in> set files" for g
  proof -
    obtain q where q: "FileName g = ManifestName b q" using Cons.prems(2) g by auto
    have "FileName f \<noteq> FileName g" using new g by (metis image_eqI)
    then show ?thesis using p q apart[of p q] apart[of q p] SignaturePath_inj[of b p q] by metis
  qed
  then have "FileName f \<notin> fst ` set (release_entries files)" "SignaturePath (FileName f) \<notin> fst ` set (release_entries files)"
    unfolding entries_names by auto
  moreover have "release_entries (f # files) = (FileName f, CanonicalBytes f) # (SignaturePath (FileName f), Signature f) # release_entries files"
    by (simp add: release_entries_def)
  moreover have "FileName f \<noteq> SignaturePath (FileName f)" using p apart[of p p] by metis
  ultimately show ?case using Cons by simp
qed (simp add: release_entries_def)

lemma sound_indexable:
  assumes "sound_files E b files"
  shows "indexable E b (store ''release.json'' x (release_contents E files))"
proof -
  let ?fs = "store ''release.json'' x (release_contents E files)"
  have names: "\<forall>f \<in> set files. \<exists>p. FileName f = ManifestName b p" using assms unfolding sound_files_def by blast
  note dist = distinct_entries[OF conjunct1[OF conjunct2[OF assms[unfolded sound_files_def]]] names]
  have other: "lookup ?fs n = map_option Some (lookup (release_entries files) n)"
    if "n \<noteq> ''release.json''" "n \<noteq> ''inventory.json''" for n
    using that lookup_put_all[OF dist, of "[]" n] by (auto simp: release_contents_def split: option.splits)
  have content: "lookup ?fs (FileName f) = Some (Some (CanonicalBytes f)) \<and> lookup ?fs (SignaturePath (FileName f)) = Some (Some (Signature f))"
    if f: "f \<in> set files" for f
  proof -
    have in_entries: "(FileName f, CanonicalBytes f) \<in> set (release_entries files)" "(SignaturePath (FileName f), Signature f) \<in> set (release_entries files)"
      using f by (auto simp: release_entries_def)
    obtain p where p: "FileName f = ManifestName b p" using names f by auto
    have "has_suffix (FileName f) manifestExt" "has_suffix (SignaturePath (FileName f)) signatureExt"
      using ManifestName_suffix suffix_append[of "b @ (if snd (Key p) then ''.'' @ fst (Key p) else [])" signatureExt]
      by (simp_all add: p SignaturePath_name)
    then have "FileName f \<noteq> ''release.json'' \<and> FileName f \<noteq> ''inventory.json'' \<and> SignaturePath (FileName f) \<noteq> ''release.json'' \<and>
      SignaturePath (FileName f) \<noteq> ''inventory.json''"
      by (auto simp: has_suffix_def manifestExt_def signatureExt_def)
    then show ?thesis using other map_of_is_SomeI[OF dist in_entries(1)] map_of_is_SomeI[OF dist in_entries(2)] by simp
  qed
  have only: "n \<in> FileName ` set files" if "n \<in> set (manifest_names ?fs)" for n
  proof -
    have n: "n \<in> fst ` set ?fs" "has_suffix n manifestExt" using that by (auto simp: manifest_names_def)
    have "lookup ?fs n \<noteq> None" using n(1) unfolding lookup_None_iff by simp
    moreover have "n \<noteq> ''release.json''" "n \<noteq> ''inventory.json''" using n(2) by (auto simp: has_suffix_def manifestExt_def)
    ultimately have "lookup (release_entries files) n \<noteq> None" using other[of n] by auto
    then have "n \<in> fst ` set (release_entries files)" by (simp add: lookup_None_iff)
    moreover have "n \<noteq> SignaturePath (FileName g)" if "g \<in> set files" for g
      using names that n(2) signature_no_manifest by (metis SignaturePath_name append.assoc)
    ultimately show ?thesis unfolding entries_names by auto
  qed
  have "check_manifest E b ?fs n = None" if n: "n \<in> set (manifest_names ?fs)" for n
  proof -
    obtain f where f: "f \<in> set files" "n = FileName f" using only[OF n] by auto
    then show ?thesis using content[OF f(1)] assms unfolding sound_files_def by (fastforce simp: check_manifest_def read_file_def)
  qed
  moreover obtain f where f: "f \<in> set files" using assms by (cases files) (auto simp: sound_files_def)
  moreover have "FileName f \<in> set (manifest_names ?fs)"
  proof -
    have "FileName f \<in> fst ` set ?fs" using conjunct1[OF content[OF f]] lookup_None_iff by (metis option.distinct(1))
    moreover have "has_suffix (FileName f) manifestExt" using names f ManifestName_suffix by metis
    ultimately show ?thesis by (simp add: manifest_names_def)
  qed
  ultimately show ?thesis by (auto simp: indexable_def)
qed

lemma checked_sound: "check_files E b seen fs = None \<Longrightarrow> distinct (map FileName fs) \<and> set seen \<inter> FileName ` set fs = {} \<and>
    (\<forall>f \<in> set fs. Signature f \<noteq> [] \<and> (\<exists>m. decode_manifest E (CanonicalBytes f) = Some m \<and> Modpack m = b \<and>
        FileName f = ManifestName b (ManifestPlatform m)))"
  by (induction E b seen fs rule: check_files.induct) (auto split: option.splits if_splits)

text \<open>The files of the old layout, under the name of a build that the commands accept.\<close>

definition legacy_sound :: "release_env \<Rightarrow> dir_files \<Rightarrow> bool" where
  "legacy_sound E files \<longleftrightarrow>
     (\<forall>b p data. safeName b \<longrightarrow> p \<in> set (PLATFORM_UNSPECIFIED # Game) \<longrightarrow> read_file files (ManifestName b p) = Inr data \<longrightarrow>
        (\<exists>m. decode_manifest E data = Some m \<and> Modpack m = b \<and> ManifestName b p = ManifestName b (ManifestPlatform m)) \<and>
        (\<forall>sig. read_file files (SignaturePath (ManifestName b p)) = Inr sig \<longrightarrow> sig \<noteq> []))"

lemma legacy_names: "distinct (map (ManifestName b) (PLATFORM_UNSPECIFIED # Game))"
  by (simp add: ManifestName_eq Game_def manifestExt_def)

lemma legacy_files_sound:
  assumes "legacy_sound E (top_files d)" "safeName b"
  shows "legacy_files d b ps = Inr fs \<Longrightarrow> set ps \<subseteq> set (PLATFORM_UNSPECIFIED # Game) \<Longrightarrow> distinct (map (ManifestName b) ps) \<Longrightarrow>
    distinct (map FileName fs) \<and> FileName ` set fs \<subseteq> ManifestName b ` set ps \<and>
    (\<forall>f \<in> set fs. Signature f \<noteq> [] \<and> (\<exists>m. decode_manifest E (CanonicalBytes f) = Some m \<and> Modpack m = b \<and>
        FileName f = ManifestName b (ManifestPlatform m)))"
proof (induction ps arbitrary: fs)
  case (Cons p ps)
  show ?case
  proof (cases "read_file (top_files d) (ManifestName b p)")
    case (Inl e)
    then show ?thesis using Cons by (auto split: if_splits)
  next
    case (Inr data)
    then obtain sig rest where r: "read_file (top_files d) (SignaturePath (ManifestName b p)) = Inr sig" "legacy_files d b ps = Inr rest"
      "fs = \<lparr>FileName = ManifestName b p, CanonicalBytes = data, Signature = sig\<rparr> # rest"
      using Cons.prems(1) by (auto split: sum.splits)
    have sound: "(\<exists>m. decode_manifest E data = Some m \<and> Modpack m = b \<and> ManifestName b p = ManifestName b (ManifestPlatform m)) \<and> sig \<noteq> []"
      using assms Inr r(1) Cons.prems(2) unfolding legacy_sound_def by auto
    have sub: "set ps \<subseteq> set (PLATFORM_UNSPECIFIED # Game)" "distinct (map (ManifestName b) ps)" using Cons.prems by auto
    show ?thesis using Cons.IH[OF r(2) sub] sound r(3) Cons.prems(3) by auto
  qed
qed simp

lemma sound_good_contents:
  assumes "legacy_sound E (top_files d)"
  shows "good_contents (\<lambda>b fs. safeName b \<longrightarrow> indexable E b fs) E d"
proof -
  have "sound_files E b fs" if "safeName b" "fs \<noteq> []" "check_files E b [] fs = None \<or> legacyRelease d b = Inr fs" for b fs
    using that checked_sound[of E b "[]" fs] legacy_files_sound[OF assms that(1) _ _ legacy_names, of fs]
    unfolding sound_files_def legacyRelease_def by auto
  then show ?thesis using sound_indexable unfolding good_contents_def by blast
qed

section \<open>Which builds have a directory and a pointer\<close>

lemma build_dirs_kept:
  "disk_fault d = (f, d') \<Longrightarrow> build_dirs d' = build_dirs d"
  by (auto simp: disk_fault_def split: list.splits)

lemma put_file_dirs: "put_file b i n x d = (ok, d') \<Longrightarrow> build_dirs d' = build_dirs d"
  by (auto simp: put_file_def split: prod.splits bool.splits dest!: build_dirs_kept)

lemma put_files_dirs: "put_files b i es d = (ok, d') \<Longrightarrow> build_dirs d' = build_dirs d"
  by (induction b i es d rule: put_files.induct) (auto split: prod.splits bool.splits dest!: put_file_dirs)

lemma writeRelease_dirs: "writeRelease E b i files d = (ok, d') \<Longrightarrow> build_dirs d' = build_dirs d"
  by (auto simp: writeRelease_def split: prod.splits bool.splits if_splits dest!: build_dirs_kept put_files_dirs)

lemma metadata_dirs: "writeReleaseMetadata E b p d = (ok, d') \<Longrightarrow> build_dirs d' = build_dirs d"
  by (auto simp: writeReleaseMetadata_def split: prod.splits bool.splits dest!: build_dirs_kept put_file_dirs)

lemma put_current_dirs: "put_current E b p d = (ok, d') \<Longrightarrow> build_dirs d' = build_dirs d"
  by (auto simp: put_current_def split: prod.splits bool.splits dest!: build_dirs_kept)

lemma retain_dirs: "retain E b l d = (r, d') \<Longrightarrow> build_dirs d' = build_dirs d"
  by (auto simp: retain_def split: prod.splits bool.splits sum.splits if_splits dest!: writeRelease_dirs metadata_dirs)

lemma make_dirs_dirs: "make_dirs b d = (ok, d') \<Longrightarrow> set (build_dirs d) \<subseteq> set (build_dirs d') \<and> set (build_dirs d') \<subseteq> insert b (set (build_dirs d)) \<and>
    (ok \<longrightarrow> b \<in> set (build_dirs d'))"
  by (auto simp: make_dirs_def split: prod.splits bool.splits dest!: build_dirs_kept)

text \<open>\<open>N\<close> holds of every build with a directory, and every build with a pointer has one.\<close>

definition named_dirs :: "(string \<Rightarrow> bool) \<Rightarrow> builds_dir \<Rightarrow> bool" where
  "named_dirs N d \<longleftrightarrow> (\<forall>b \<in> set (build_dirs d). N b \<and> safeComponent b) \<and> (\<forall>b. current_of d b \<noteq> None \<longrightarrow> b \<in> set (build_dirs d))"

lemma named_dirs_keep: "named_dirs N d \<Longrightarrow> build_dirs d' = build_dirs d \<Longrightarrow> current_of d' = current_of d \<Longrightarrow> named_dirs N d'"
  by (simp add: named_dirs_def)

lemma named_dirs_make: "named_dirs N d \<Longrightarrow> N b \<Longrightarrow> safeComponent b \<Longrightarrow> make_dirs b d = (ok, d') \<Longrightarrow> named_dirs N d' \<and> (ok \<longrightarrow> b \<in> set (build_dirs d'))"
  using make_dirs_dirs[of b d ok d'] make_dirs_keeps[of b d ok d'] by (auto simp: named_dirs_def spares_def)

lemma named_dirs_put: "named_dirs N d \<Longrightarrow> b \<in> set (build_dirs d) \<Longrightarrow> put_current E b p d = (ok, d') \<Longrightarrow> named_dirs N d'"
  using put_current_dirs[of E b p d ok d'] put_current_frame[of E b p d ok d'] by (auto simp: named_dirs_def split: if_splits)

lemma named_dirs_fault: "named_dirs N d \<Longrightarrow> disk_fault d = (f, d') \<Longrightarrow> named_dirs N d'"
  using named_dirs_keep[of N d d'] disk_fault_frame[of d f d'] build_dirs_kept[of d f d'] by simp

lemma named_dirs_write: "named_dirs N d \<Longrightarrow> writeRelease E b i files d = (ok, d') \<Longrightarrow> named_dirs N d'"
  using named_dirs_keep[of N d d'] writeRelease_dirs[of E b i files d ok d'] writeRelease_extends[of E b i files d ok d'] by simp

lemma named_dirs_metadata: "named_dirs N d \<Longrightarrow> writeReleaseMetadata E b p d = (ok, d') \<Longrightarrow> named_dirs N d'"
  using named_dirs_keep[of N d d'] metadata_dirs[of E b p d ok d'] only_current[OF writeReleaseMetadata_frame[of E b p d ok d']] by simp

lemma named_dirs_retain: "named_dirs N d \<Longrightarrow> retain E b l d = (r, d') \<Longrightarrow> named_dirs N d'"
  by (auto simp: retain_def split: prod.splits bool.splits sum.splits if_splits dest: named_dirs_write named_dirs_metadata)

lemma named_dirs_publish:
  assumes "named_dirs N d" "N b" "PublishRelease E b l n files meta d = (e, d')"
  shows "named_dirs N d'"
proof (cases "safeComponent b \<and> files \<noteq> [] \<and> check_files E b [] files = None")
  case False
  then have "d' = d" using assms(3) by (cases "check_files E b [] files") (auto simp: PublishRelease_def split: if_splits)
  then show ?thesis using assms(1) by simp
next
  case True
  obtain okd d0 where d0: "make_dirs b d = (okd, d0)" by fastforce
  obtain r d1 where d1: "retain E b l d0 = (r, d1)" by fastforce
  note n0 = named_dirs_make[OF assms(1,2) conjunct1[OF True] d0]
  have n1: "named_dirs N d1" "build_dirs d1 = build_dirs d0" using named_dirs_retain[OF conjunct1[OF n0] d1] retain_dirs[OF d1] by auto
  show ?thesis
  proof (cases "okd \<and> (\<exists>ids. r = Inr ids)")
    case False
    then show ?thesis using assms(3) True d0 d1 n0 n1 by (cases r; cases okd) (auto simp: PublishRelease_def)
  next
    case okd: True
    then obtain ids where ids: "r = Inr ids" by blast
    define p where "p = meta\<lparr>PointerVersion := 1, Current := n, Retained := ids\<rparr>"
    obtain ok2 d2 where d2: "writeRelease E b n files d1 = (ok2, d2)" by fastforce
    obtain ok3 d3 where d3: "writeReleaseMetadata E b p d2 = (ok3, d3)" by fastforce
    obtain ok4 d4 where d4: "put_current E b p d3 = (ok4, d4)" by fastforce
    obtain f5 d5 where d5: "disk_fault d4 = (f5, d5)" by fastforce
    have n3: "named_dirs N d2" "named_dirs N d3" using named_dirs_write[OF n1(1) d2] named_dirs_metadata[OF _ d3] by auto
    have "b \<in> set (build_dirs d3)" using n0 okd n1(2) writeRelease_dirs[OF d2] metadata_dirs[OF d3] by simp
    from named_dirs_put[OF n3(2) this d4] have n5: "named_dirs N d4" "named_dirs N d5" using named_dirs_fault[OF _ d5] by auto
    show ?thesis using n3 n5 assms(3) True okd d0 d1 ids d2 d3 d4 d5
      by (cases ok2; cases ok3; cases ok4) (auto simp: PublishRelease_def Let_def p_def[symmetric])
  qed
qed

lemma named_dirs_rollback:
  assumes "named_dirs N d" "RollbackRelease E b i d = (e, d')"
  shows "named_dirs N d'"
proof (cases "d' = d")
  case False
  then obtain p ok where p: "put_current E b p d = (ok, d')" "current_of d b \<noteq> None"
    using assms(2) unfolding RollbackRelease_def ReadRelease_def
    by (auto split: sum.splits option.splits if_splits prod.splits bool.splits)
  then have "b \<in> set (build_dirs d)" using assms(1) by (simp add: named_dirs_def)
  then show ?thesis using named_dirs_put[OF assms(1) _ p(1)] by simp
qed (use assms in simp)

fun op_build_ok :: "release_op \<Rightarrow> bool" where
  "op_build_ok (OpPublish b l n files meta script) \<longleftrightarrow> safeName b"
| "op_build_ok (OpRollback b i script) \<longleftrightarrow> True"

lemma named_dirs_script [simp]: "named_dirs N (d\<lparr>disk_faults := fs\<rparr>) = named_dirs N d"
  by (simp add: named_dirs_def)

lemma named_dirs_step: "op_build_ok opn \<Longrightarrow> named_dirs safeName d \<Longrightarrow> named_dirs safeName (release_step E opn d)"
proof (cases opn)
  case (OpPublish b l n files meta script)
  assume "op_build_ok opn" "named_dirs safeName d"
  then show ?thesis
    using named_dirs_publish[of safeName "d\<lparr>disk_faults := script\<rparr>" b E l n files meta _ "release_step E opn d"] OpPublish
    by (simp add: prod_eq_iff)
next
  case (OpRollback b i script)
  assume "named_dirs safeName d"
  then show ?thesis
    using named_dirs_rollback[of safeName "d\<lparr>disk_faults := script\<rparr>" E b i _ "release_step E opn d"] OpRollback
    by (simp add: prod_eq_iff)
qed

lemma named_dirs_run: "list_all op_build_ok ops \<Longrightarrow> named_dirs safeName (release_run E ops (no_releases files))"
proof -
  assume ok: "list_all op_build_ok ops"
  have "named_dirs safeName (fold (release_step E) ops d)" if "named_dirs safeName d" for d
    using that ok named_dirs_step by (induction ops arbitrary: d) auto
  moreover have "named_dirs safeName (no_releases files)" by (simp add: named_dirs_def no_releases_def)
  ultimately show ?thesis unfolding release_run_def by blast
qed

section \<open>The index of a reachable directory\<close>

lemma index_complete:
  assumes "codec_ok T E" "release_of d b i = Some fs" "complete T E i fs" "indexable E b fs"
  shows "\<exists>st. index_release E d b act i = Inr (map (\<lambda>n. \<lparr>IndexedPlace = InRelease b i n, Active = act\<rparr>) (manifest_names fs), st) \<and>
    manifest_names fs \<noteq> []"
proof -
  have "first_err (check_manifest E b fs) (manifest_names fs) = None" using assms(4) by (simp add: indexable_def)
  then show ?thesis using assms(2,4) complete_verifies[OF assms(1,3)] by (simp add: index_release_def indexable_def del: first_err_None)
qed

lemma index_ids_total:
  assumes "codec_ok T E" "\<forall>i \<in> set ids. \<exists>fs. release_of d b i = Some fs \<and> complete T E i fs \<and> indexable E b fs"
  shows "\<exists>es st. index_ids E d b act ids = Inr (es, st) \<and>
    (ids \<noteq> [] \<longrightarrow> (\<exists>e \<in> set es. Active e = act \<and> (\<exists>n. IndexedPlace e = InRelease b (hd ids) n)))"
  using assms(2)
proof (induction ids arbitrary: act)
  case (Cons i ids)
  obtain fs where fs: "release_of d b i = Some fs" "complete T E i fs" "indexable E b fs" using Cons.prems by auto
  obtain st where st: "index_release E d b act i = Inr (map (\<lambda>n. \<lparr>IndexedPlace = InRelease b i n, Active = act\<rparr>) (manifest_names fs), st)"
    "manifest_names fs \<noteq> []" using index_complete[OF assms(1) fs] by auto
  obtain es' st' where rest: "index_ids E d b False ids = Inr (es', st')" using Cons by fastforce
  obtain n ns where "manifest_names fs = n # ns" using st(2) by (cases "manifest_names fs") auto
  then show ?case using st(1) rest by auto
qed simp

lemma index_builds_total:
  assumes "codec_ok T E" "release_inv (\<lambda>b fs. safeName b \<longrightarrow> indexable E b fs) T E d" "\<forall>b \<in> set bs. safeName b \<and> safeComponent b"
  shows "\<exists>managed es st. index_builds E d bs = Inr (managed, es, st) \<and>
    (\<forall>b \<in> set bs. \<forall>p. ReadRelease E d b = Inr p \<longrightarrow> (\<exists>e \<in> set es. Active e \<and> (\<exists>n. IndexedPlace e = InRelease b (Current p) n)))"
  using assms(3)
proof (induction bs)
  case (Cons b bs)
  then obtain managed es st where rest: "index_builds E d bs = Inr (managed, es, st)"
    "\<forall>b \<in> set bs. \<forall>p. ReadRelease E d b = Inr p \<longrightarrow> (\<exists>e \<in> set es. Active e \<and> (\<exists>n. IndexedPlace e = InRelease b (Current p) n))" by auto
  have b: "safeName b" "safeComponent b" using Cons.prems by auto
  show ?case
  proof (cases "current_of d b")
    case None
    then have "ReadRelease E d b = Inl NotExist" using b by (simp add: ReadRelease_def)
    then show ?thesis using rest by simp
  next
    case (Some c)
    then obtain p where p: "served (\<lambda>b fs. safeName b \<longrightarrow> indexable E b fs) T E d b p" using assms(2) unfolding release_inv_def by (metis option.distinct(1))
    have all: "\<forall>i \<in> set (Current p # Retained p). \<exists>fs. release_of d b i = Some fs \<and> complete T E i fs \<and> indexable E b fs"
      using p b(1) by (simp add: served_def)
    obtain es' st' where ids: "index_ids E d b True (Current p # Retained p) = Inr (es', st')"
      "\<exists>e \<in> set es'. Active e \<and> (\<exists>n. IndexedPlace e = InRelease b (Current p) n)"
      using index_ids_total[OF assms(1) all, of True] by auto
    have "index_builds E d (b # bs) = Inr (b # managed, es' @ es, st' @ st)"
      using served_read[OF assms(1) p] rest(1) ids(1) by simp
    then show ?thesis using rest(2) ids(2) served_read[OF assms(1) p] by fastforce
  qed
qed simp

text \<open>
  C7: Start from a directory without releases in which every manifest of the old layout names its build and
  has a signature. Whatever is published and rolled back, one command at a time, under names that the commands
  accept, and wherever the disk fails or the process dies, the catalogue can read the directory afterwards if
  it can be listed, and the index holds a served manifest of the current publication of every build that has
  one. Without the condition on the old manifests this is false: \<open>nameless_manifest_blocks_catalog\<close> below.
\<close>

theorem catalog_never_stuck:
  assumes "codec_ok T E" "list_all (op_ok T) ops" "list_all op_build_ok ops" "legacy_sound E files"
    and "d = release_run E ops (no_releases files)" "view_dir v = d" "\<not> view_unlistable v"
  shows "\<exists>st es. index_dir E v = Inr (st, es) \<and>
    (\<forall>b p. ReadRelease E d b = Inr p \<longrightarrow> (\<exists>e \<in> set es. Active e \<and> (\<exists>n. IndexedPlace e = InRelease b (Current p) n)))"
proof -
  have "good_contents (\<lambda>b fs. safeName b \<longrightarrow> indexable E b fs) E (no_releases files)"
    using sound_good_contents[of E "no_releases files"] assms(4) by (simp add: no_releases_def)
  then have inv: "release_inv (\<lambda>b fs. safeName b \<longrightarrow> indexable E b fs) T E d" using run_inv[OF assms(1,2)] assms(5) by simp
  have dirs: "named_dirs safeName d" using named_dirs_run[OF assms(3)] assms(5) by simp
  then have ok: "\<forall>b \<in> set (sort (build_dirs d)). safeName b \<and> safeComponent b" by (simp add: named_dirs_def)
  obtain managed es st where total: "index_builds E d (sort (build_dirs d)) = Inr (managed, es, st)"
    "\<forall>b \<in> set (sort (build_dirs d)). \<forall>p. ReadRelease E d b = Inr p \<longrightarrow> (\<exists>e \<in> set es. Active e \<and> (\<exists>n. IndexedPlace e = InRelease b (Current p) n))"
    using index_builds_total[OF assms(1) inv ok] by blast
  have has: "b \<in> set (sort (build_dirs d))" if "ReadRelease E d b = Inr p" for b p
    using that dirs by (cases "current_of d b") (auto simp: ReadRelease_def named_dirs_def split: if_splits)
  show ?thesis using total has assms(6,7) by (fastforce simp: index_dir_def Let_def)
qed

definition plain_view :: "dir_files \<Rightarrow> release_op list \<Rightarrow> catalog_view" where
  "plain_view files ops = \<lparr>view_dir = release_run plain_codec ops (no_releases files), view_unlistable = False, view_stat = (\<lambda>_. Inl [])\<rparr>"

lemma catalog_never_stuck_witness:
  "\<exists>st es e i n. index_dir plain_codec (plain_view [] [plain_publish ''A'' []]) = Inr (st, es) \<and>
     e \<in> set es \<and> Active e \<and> IndexedPlace e = InRelease ''p'' i n"
proof -
  let ?d = "release_run plain_codec [plain_publish ''A'' []] (no_releases [])"
  have ops: "list_all (op_ok (\<lambda>_. True)) [plain_publish ''A'' []]" "list_all op_build_ok [plain_publish ''A'' []]" by code_simp+
  have legacy: "legacy_sound plain_codec []" by (simp add: legacy_sound_def read_file_def)
  have view: "view_dir (plain_view [] [plain_publish ''A'' []]) = ?d" "\<not> view_unlistable (plain_view [] [plain_publish ''A'' []])"
    by (simp_all add: plain_view_def)
  have "isl (ReadRelease plain_codec ?d ''p'') = False" by code_simp
  then obtain p where p: "ReadRelease plain_codec ?d ''p'' = Inr p" by (cases "ReadRelease plain_codec ?d ''p''") auto
  from catalog_never_stuck[OF plain_codec_ok ops legacy refl view] p show ?thesis by blast
qed

text \<open>
  The hypothesis on the old layout is needed. A manifest of the old layout that does not name its build is
  listed under its file name; once the build is published, the copy kept for a rollback is refused, and
  with it the whole directory.
\<close>

lemma nameless_manifest_blocks_catalog:
  "(case index_dir plain_codec (plain_view [(''p.manifest'', Some []), (''p.manifest.sig'', Some ''s'')] []) of
      Inr (st, es) \<Rightarrow> map_option List (collect plain_codec (no_releases [(''p.manifest'', Some []), (''p.manifest.sig'', Some ''s'')]) st es)
    | Inl _ \<Rightarrow> None) = Some [''p''] \<and>
   index_dir plain_codec (plain_view [(''p.manifest'', Some []), (''p.manifest.sig'', Some ''s'')] [plain_publish ''A'' []]) = Inl DamagedRelease"
proof
  show "(case index_dir plain_codec (plain_view [(''p.manifest'', Some []), (''p.manifest.sig'', Some ''s'')] []) of
      Inr (st, es) \<Rightarrow> map_option List (collect plain_codec (no_releases [(''p.manifest'', Some []), (''p.manifest.sig'', Some ''s'')]) st es)
    | Inl _ \<Rightarrow> None) = Some [''p'']" by code_simp
  show "index_dir plain_codec (plain_view [(''p.manifest'', Some []), (''p.manifest.sig'', Some ''s'')] [plain_publish ''A'' []]) = Inl DamagedRelease"
    by code_simp
qed

end
