(* ===== verification/Sessions.thy ===== *)
theory Sessions
  imports GoStrings
begin

unbundle bit_operations_syntax

text \<open>
  \<open>internal/auth\<close>: accounts, tokens and sessions. \<open>service\<close> with \<open>Login\<close>, \<open>Refresh\<close>,
  \<open>ValidateAccess\<close> and \<open>Logout\<close> models \<open>Service\<close> over a session store, which is the record
  of operations of the interface \<open>SessionStore\<close>; \<open>memory_store\<close> models \<open>MemorySessionStore\<close>
  and \<open>redis_store\<close> the store of \<open>internal/auth/redisstore\<close>. Each operation calls the store once, but
  \<open>Refresh\<close> twice, and the runs \<open>auth_run\<close> interleave these calls. Parameters, in \<open>auth_env\<close>: parsing
  and printing a UUID (package \<open>google/uuid\<close>), and the hash of a secret (SHA-256 in hexadecimal).
  Random secrets and fresh session ids are arguments.
\<close>

section \<open>Identities\<close>

type_synonym uuid = "8 word list"

record identity =
  subject :: string
  username :: string
  iuuid :: uuid

record credentials =
  cusername :: string
  cpassword :: string
  ctwofactor :: string

text \<open>\<open>OfflineUUID\<close> with MD5 as a parameter: the version and variant bits are set by hand.\<close>

definition OfflineUUID :: "(string \<Rightarrow> 8 word list) \<Rightarrow> string \<Rightarrow> uuid" where
  "OfflineUUID md5 name =
     (let sum = md5 (''OfflinePlayer:'' @ name);
          raw = sum[6 := (sum ! 6 AND 0x0f) OR 0x30]
      in raw[8 := (raw ! 8 AND 0x3f) OR 0x80])"

section \<open>Tokens\<close>

record auth_env =
  uuid_parse :: "string \<Rightarrow> uuid option"
  uuid_string :: "uuid \<Rightarrow> string"
  hash_secret :: "string \<Rightarrow> string"

text \<open>The token and its hash, for a secret that is already encoded.\<close>

definition newToken :: "auth_env \<Rightarrow> uuid \<Rightarrow> string \<Rightarrow> string \<times> string" where
  "newToken E sessionID encoded = (uuid_string E sessionID @ ''.'' @ encoded, hash_secret E encoded)"

definition parseToken :: "auth_env \<Rightarrow> string \<Rightarrow> (uuid \<times> string) option" where
  "parseToken E token =
     (case cut_at CHR ''.'' token of (head, secret, ok) \<Rightarrow>
        if \<not> ok \<or> secret = [] then None
        else (case uuid_parse E head of None \<Rightarrow> None | Some sessionID \<Rightarrow> Some (sessionID, secret)))"

definition secretMatchesHash :: "auth_env \<Rightarrow> string \<Rightarrow> string \<Rightarrow> bool" where
  "secretMatchesHash E secret hash \<longleftrightarrow> hash_secret E secret = hash"

section \<open>Sessions and their stores\<close>

record session =
  sid :: uuid
  sidentity :: identity
  access_hash :: string
  access_expires :: instant
  refresh_hash :: string
  expires_at :: instant
  revoked :: bool

datatype store_error = ErrSessionNotFound | StoreError string

record 's session_store =
  Create :: "session \<Rightarrow> 's \<Rightarrow> store_error option \<times> 's"
  Get :: "uuid \<Rightarrow> 's \<Rightarrow> (store_error + session) \<times> 's"
  Update :: "session \<Rightarrow> 's \<Rightarrow> store_error option \<times> 's"
  Revoke :: "uuid \<Rightarrow> 's \<Rightarrow> store_error option \<times> 's"

type_synonym memory_sessions = "uuid \<Rightarrow> session option"

definition memory_create :: "session \<Rightarrow> memory_sessions \<Rightarrow> store_error option \<times> memory_sessions" where
  "memory_create s m = (None, m(sid s \<mapsto> s))"

definition memory_get :: "uuid \<Rightarrow> memory_sessions \<Rightarrow> (store_error + session) \<times> memory_sessions" where
  "memory_get i m = (case m i of None \<Rightarrow> Inl ErrSessionNotFound | Some s \<Rightarrow> Inr s, m)"

definition memory_update :: "session \<Rightarrow> memory_sessions \<Rightarrow> store_error option \<times> memory_sessions" where
  "memory_update s m =
     (case m (sid s) of None \<Rightarrow> (Some ErrSessionNotFound, m) | Some _ \<Rightarrow> (None, m(sid s \<mapsto> s)))"

definition memory_revoke :: "uuid \<Rightarrow> memory_sessions \<Rightarrow> store_error option \<times> memory_sessions" where
  "memory_revoke i m =
     (case m i of
        None \<Rightarrow> (Some ErrSessionNotFound, m)
      | Some s \<Rightarrow> (None, m(i \<mapsto> s\<lparr>revoked := True\<rparr>)))"

definition memory_store :: "memory_sessions session_store" where
  "memory_store =
     \<lparr>Create = memory_create, Get = memory_get, Update = memory_update, Revoke = memory_revoke\<rparr>"

text \<open>
  The store in Redis, over the commands it issues: \<open>kv_set\<close> is \<open>SET\<close> with a time to live, \<open>kv_get\<close>
  is \<open>GET\<close> (no value is Redis's nil), \<open>kv_set_xx\<close> is \<open>SET\<close> with \<open>XX\<close> and \<open>KEEPTTL\<close>,
  which answers whether the key existed; \<open>enc\<close> and \<open>dec\<close> are the JSON form of a session.
\<close>

record 'w redis_kv =
  kv_set :: "string \<Rightarrow> string \<Rightarrow> nanos \<Rightarrow> 'w \<Rightarrow> (string option) \<times> 'w"
  kv_get :: "string \<Rightarrow> 'w \<Rightarrow> (string + string option) \<times> 'w"
  kv_set_xx :: "string \<Rightarrow> string \<Rightarrow> 'w \<Rightarrow> (string + bool) \<times> 'w"
  enc :: "session \<Rightarrow> string"
  dec :: "string \<Rightarrow> string + session"

definition sessionKey :: "auth_env \<Rightarrow> uuid \<Rightarrow> string" where
  "sessionKey E i = ''laminara:session:'' @ uuid_string E i"

definition redis_create ::
    "auth_env \<Rightarrow> 'w redis_kv \<Rightarrow> nanos \<Rightarrow> session \<Rightarrow> 'w \<Rightarrow> store_error option \<times> 'w" where
  "redis_create E K ttl s w =
     (case kv_set K (sessionKey E (sid s)) (enc K s) ttl w of (e, w) \<Rightarrow> (map_option StoreError e, w))"

definition redis_get ::
    "auth_env \<Rightarrow> 'w redis_kv \<Rightarrow> uuid \<Rightarrow> 'w \<Rightarrow> (store_error + session) \<times> 'w" where
  "redis_get E K i w =
     (case kv_get K (sessionKey E i) w of
        (Inl e, w) \<Rightarrow> (Inl (StoreError e), w)
      | (Inr None, w) \<Rightarrow> (Inl ErrSessionNotFound, w)
      | (Inr (Some data), w) \<Rightarrow> (case dec K data of Inl e \<Rightarrow> Inl (StoreError e) | Inr s \<Rightarrow> Inr s, w))"

definition redis_update ::
    "auth_env \<Rightarrow> 'w redis_kv \<Rightarrow> session \<Rightarrow> 'w \<Rightarrow> store_error option \<times> 'w" where
  "redis_update E K s w =
     (case kv_set_xx K (sessionKey E (sid s)) (enc K s) w of
        (Inl e, w) \<Rightarrow> (Some (StoreError e), w)
      | (Inr existed, w) \<Rightarrow> (if existed then None else Some ErrSessionNotFound, w))"

definition redis_revoke ::
    "auth_env \<Rightarrow> 'w redis_kv \<Rightarrow> uuid \<Rightarrow> 'w \<Rightarrow> store_error option \<times> 'w" where
  "redis_revoke E K i w =
     (case redis_get E K i w of
        (Inl e, w) \<Rightarrow> (Some e, w)
      | (Inr s, w) \<Rightarrow> redis_update E K (s\<lparr>revoked := True\<rparr>) w)"

definition redis_store :: "auth_env \<Rightarrow> 'w redis_kv \<Rightarrow> nanos \<Rightarrow> 'w session_store" where
  "redis_store E K ttl =
     \<lparr>Create = redis_create E K ttl, Get = redis_get E K, Update = redis_update E K, Revoke = redis_revoke E K\<rparr>"

section \<open>The service\<close>

datatype provider_error = PInvalidCredentials | PTwoFactorRequired | POther string

datatype auth_error =
    ErrInvalidCredentials
  | ErrTwoFactorRequired
  | ErrInvalidToken
  | ErrSourceUnavailable string
  | ErrSessionsUnavailable string
  | ErrRandom string

record auth_config =
  AccessTTL :: nanos
  RefreshTTL :: nanos

definition DefaultConfig :: auth_config where
  "DefaultConfig = \<lparr>AccessTTL = 15 * minute, RefreshTTL = 30 * 24 * hour\<rparr>"

record tokens =
  taccess :: string
  taccess_expires :: instant
  trefresh :: string
  trefresh_expires :: instant

text \<open>\<open>authenticate\<close> is the account provider; \<open>random\<close> results are arguments of the operations.\<close>

record 's service =
  authenticate :: "credentials \<Rightarrow> provider_error + identity"
  sessions :: "'s session_store"
  cfg :: auth_config

type_synonym random = "string + string"

fun store_text :: "store_error \<Rightarrow> string" where
  "store_text ErrSessionNotFound = ''session not found''"
| "store_text (StoreError e) = e"

definition sessionFailure :: "store_error \<Rightarrow> auth_error" where
  "sessionFailure err =
     (if err = ErrSessionNotFound then ErrInvalidToken else ErrSessionsUnavailable (store_text err))"

definition issued_session :: "auth_env \<Rightarrow> 's service \<Rightarrow> instant \<Rightarrow> uuid \<Rightarrow> string \<Rightarrow> string \<Rightarrow> identity \<Rightarrow> session" where
  "issued_session E S now sessionID a r ident =
     \<lparr>sid = sessionID, sidentity = ident, access_hash = snd (newToken E sessionID a),
      access_expires = now + AccessTTL (cfg S), refresh_hash = snd (newToken E sessionID r),
      expires_at = now + RefreshTTL (cfg S), revoked = False\<rparr>"

definition tokens_of :: "auth_env \<Rightarrow> uuid \<Rightarrow> string \<Rightarrow> string \<Rightarrow> session \<Rightarrow> tokens" where
  "tokens_of E sessionID a r session =
     \<lparr>taccess = fst (newToken E sessionID a), taccess_expires = access_expires session,
      trefresh = fst (newToken E sessionID r), trefresh_expires = expires_at session\<rparr>"

definition issue ::
    "auth_env \<Rightarrow> 's service \<Rightarrow> instant \<Rightarrow> uuid \<Rightarrow> random \<Rightarrow> random \<Rightarrow> identity \<Rightarrow> 's \<Rightarrow> (auth_error + tokens) \<times> 's" where
  "issue E S now sessionID r1 r2 ident w =
     (case (r1, r2) of
        (Inl e, _) \<Rightarrow> (Inl (ErrRandom e), w)
      | (Inr a, Inl e) \<Rightarrow> (Inl (ErrRandom e), w)
      | (Inr a, Inr r) \<Rightarrow>
          (let session = issued_session E S now sessionID a r ident in
           case Create (sessions S) session w of
             (Some e, w) \<Rightarrow> (Inl (ErrSessionsUnavailable (store_text e)), w)
           | (None, w) \<Rightarrow> (Inr (tokens_of E sessionID a r session), w)))"

definition Login ::
    "auth_env \<Rightarrow> 's service \<Rightarrow> instant \<Rightarrow> uuid \<Rightarrow> random \<Rightarrow> random \<Rightarrow> credentials \<Rightarrow> 's \<Rightarrow> (auth_error + tokens) \<times> 's" where
  "Login E S now sessionID r1 r2 creds w =
     (case authenticate S creds of
        Inl PInvalidCredentials \<Rightarrow> (Inl ErrInvalidCredentials, w)
      | Inl PTwoFactorRequired \<Rightarrow> (Inl ErrTwoFactorRequired, w)
      | Inl (POther e) \<Rightarrow> (Inl (ErrSourceUnavailable e), w)
      | Inr ident \<Rightarrow> issue E S now sessionID r1 r2 ident w)"

text \<open>
  \<open>Refresh\<close> calls the store twice, and only each call is atomic. \<open>refresh_look\<close> is the first call with
  the checks that follow, and what it leaves to do; \<open>refresh_check\<close> is the part up to the checked
  session, \<open>refresh_commit\<close> the part from there, for the same \<open>now\<close>.
\<close>

datatype refresh_next = RefreshFails auth_error | RefreshRevokes uuid | RefreshRenews uuid session

definition refresh_look ::
    "auth_env \<Rightarrow> 's service \<Rightarrow> instant \<Rightarrow> string \<Rightarrow> 's \<Rightarrow> refresh_next \<times> 's" where
  "refresh_look E S now refreshToken w =
     (case parseToken E refreshToken of
        None \<Rightarrow> (RefreshFails ErrInvalidToken, w)
      | Some (sessionID, secret) \<Rightarrow>
          (case Get (sessions S) sessionID w of
             (Inl err, w) \<Rightarrow> (RefreshFails (sessionFailure err), w)
           | (Inr session, w) \<Rightarrow>
               if revoked session \<or> now > expires_at session then (RefreshFails ErrInvalidToken, w)
               else if \<not> secretMatchesHash E secret (refresh_hash session) then (RefreshRevokes sessionID, w)
               else (RefreshRenews sessionID session, w)))"

definition refresh_check ::
    "auth_env \<Rightarrow> 's service \<Rightarrow> instant \<Rightarrow> string \<Rightarrow> 's \<Rightarrow> (auth_error + session) \<times> 's" where
  "refresh_check E S now refreshToken w =
     (case refresh_look E S now refreshToken w of
        (RefreshFails e, w) \<Rightarrow> (Inl e, w)
      | (RefreshRevokes sessionID, w) \<Rightarrow> (Inl ErrInvalidToken, snd (Revoke (sessions S) sessionID w))
      | (RefreshRenews sessionID session, w) \<Rightarrow> (Inr session, w))"

definition refreshed_session :: "auth_env \<Rightarrow> 's service \<Rightarrow> instant \<Rightarrow> uuid \<Rightarrow> string \<Rightarrow> string \<Rightarrow> session \<Rightarrow> session" where
  "refreshed_session E S now sessionID a r session =
     session\<lparr>access_hash := snd (newToken E sessionID a), access_expires := now + AccessTTL (cfg S),
       refresh_hash := snd (newToken E sessionID r)\<rparr>"

definition refresh_commit ::
    "auth_env \<Rightarrow> 's service \<Rightarrow> instant \<Rightarrow> uuid \<Rightarrow> random \<Rightarrow> random \<Rightarrow> session \<Rightarrow> 's \<Rightarrow> (auth_error + tokens) \<times> 's" where
  "refresh_commit E S now sessionID r1 r2 session w =
     (case (r1, r2) of
        (Inl e, _) \<Rightarrow> (Inl (ErrRandom e), w)
      | (Inr a, Inl e) \<Rightarrow> (Inl (ErrRandom e), w)
      | (Inr a, Inr r) \<Rightarrow>
          (let session = refreshed_session E S now sessionID a r session in
           case Update (sessions S) session w of
             (Some e, w) \<Rightarrow> (Inl (sessionFailure e), w)
           | (None, w) \<Rightarrow> (Inr (tokens_of E sessionID a r session), w)))"

definition Refresh ::
    "auth_env \<Rightarrow> 's service \<Rightarrow> instant \<Rightarrow> random \<Rightarrow> random \<Rightarrow> string \<Rightarrow> 's \<Rightarrow> (auth_error + tokens) \<times> 's" where
  "Refresh E S now r1 r2 refreshToken w =
     (case refresh_check E S now refreshToken w of
        (Inl err, w) \<Rightarrow> (Inl err, w)
      | (Inr session, w) \<Rightarrow>
          (case parseToken E refreshToken of
             None \<Rightarrow> (Inl ErrInvalidToken, w)
           | Some (sessionID, _) \<Rightarrow> refresh_commit E S now sessionID r1 r2 session w))"

definition ValidateAccess ::
    "auth_env \<Rightarrow> 's service \<Rightarrow> instant \<Rightarrow> string \<Rightarrow> 's \<Rightarrow> (auth_error + identity) \<times> 's" where
  "ValidateAccess E S now accessToken w =
     (case parseToken E accessToken of
        None \<Rightarrow> (Inl ErrInvalidToken, w)
      | Some (sessionID, secret) \<Rightarrow>
          (case Get (sessions S) sessionID w of
             (Inl err, w) \<Rightarrow> (Inl (sessionFailure err), w)
           | (Inr session, w) \<Rightarrow>
               if revoked session \<or> now > access_expires session then (Inl ErrInvalidToken, w)
               else if \<not> secretMatchesHash E secret (access_hash session) then (Inl ErrInvalidToken, w)
               else (Inr (sidentity session), w)))"

definition Logout ::
    "auth_env \<Rightarrow> 's service \<Rightarrow> string \<Rightarrow> 's \<Rightarrow> (auth_error + store_error) option \<times> 's" where
  "Logout E S token w =
     (case parseToken E token of
        None \<Rightarrow> (Some (Inl ErrInvalidToken), w)
      | Some (sessionID, _) \<Rightarrow>
          (case Revoke (sessions S) sessionID w of (e, w) \<Rightarrow> (map_option Inr e, w)))"

section \<open>The contract of a session store\<close>

text \<open>
  \<open>sess\<close> is what the store holds. An operation that reports success has its effect on the one
  session it names; one that reports an error, and every read, changes nothing.
\<close>

locale session_store =
  fixes St :: "'s session_store"
    and sess :: "'s \<Rightarrow> uuid \<Rightarrow> session option"
  assumes create_law: "sess (snd (Create St s w)) =
      (if fst (Create St s w) = None then (sess w)(sid s \<mapsto> s) else sess w)"
    and get_frame: "sess (snd (Get St i w)) = sess w"
    and get_found: "fst (Get St i w) = Inr s \<Longrightarrow> sess w i = Some s"
    and get_missing: "fst (Get St i w) = Inl ErrSessionNotFound \<Longrightarrow> sess w i = None"
    and update_law: "sess (snd (Update St s w)) =
      (if fst (Update St s w) = None then (sess w)(sid s \<mapsto> s) else sess w)"
    and update_exists: "fst (Update St s w) = None \<Longrightarrow> sess w (sid s) \<noteq> None"
    and revoke_law: "sess (snd (Revoke St i w)) =
      (if fst (Revoke St i w) = None then (sess w)(i := map_option (revoked_update (\<lambda>_. True)) (sess w i))
       else sess w)"

text \<open>A store that answers: every operation fails only where the session is missing.\<close>

locale answering_store = session_store +
  assumes get_answers: "fst (Get St i w) = (case sess w i of None \<Rightarrow> Inl ErrSessionNotFound | Some s \<Rightarrow> Inr s)"
    and create_answers: "fst (Create St s w) = None"
    and update_answers: "fst (Update St s w) = (if sess w (sid s) = None then Some ErrSessionNotFound else None)"
    and revoke_answers: "fst (Revoke St i w) = (if sess w i = None then Some ErrSessionNotFound else None)"

text \<open>Sessions are filed under their own id: what the code keeps by creating and updating.\<close>

definition filed :: "(uuid \<Rightarrow> session option) \<Rightarrow> bool" where
  "filed m \<longleftrightarrow> (\<forall>i s. m i = Some s \<longrightarrow> sid s = i)"

lemma filedD: "filed m \<Longrightarrow> m i = Some s \<Longrightarrow> sid s = i"
  by (simp add: filed_def)

definition dead :: "(uuid \<Rightarrow> session option) \<Rightarrow> uuid \<Rightarrow> bool" where
  "dead m i \<longleftrightarrow> (case m i of None \<Rightarrow> True | Some s \<Rightarrow> revoked s)"

definition env_ok :: "auth_env \<Rightarrow> bool" where
  "env_ok E \<longleftrightarrow> (\<forall>i. uuid_parse E (uuid_string E i) = Some i \<and> CHR ''.'' \<notin> set (uuid_string E i))"

lemma parse_newToken:
  "env_ok E \<Longrightarrow> secret \<noteq> [] \<Longrightarrow> parseToken E (fst (newToken E i secret)) = Some (i, secret)"
  by (simp add: env_ok_def parseToken_def newToken_def cut_found)

lemma snd_newToken [simp]: "snd (newToken E i secret) = hash_secret E secret"
  by (simp add: newToken_def)

text \<open>One call of the service, with the fresh id and the random secrets it would draw.\<close>

datatype call =
    CLogin uuid random random credentials
  | CRefresh random random string
  | CValidate string
  | CLogout string

fun call_step :: "auth_env \<Rightarrow> 's service \<Rightarrow> instant \<times> call \<Rightarrow> 's \<Rightarrow> 's" where
  "call_step E S (now, CLogin i r1 r2 creds) w = snd (Login E S now i r1 r2 creds w)"
| "call_step E S (now, CRefresh r1 r2 tok) w = snd (Refresh E S now r1 r2 tok w)"
| "call_step E S (now, CValidate tok) w = snd (ValidateAccess E S now tok w)"
| "call_step E S (now, CLogout tok) w = snd (Logout E S tok w)"

fun call_run :: "auth_env \<Rightarrow> 's service \<Rightarrow> (instant \<times> call) list \<Rightarrow> 's \<Rightarrow> 's" where
  "call_run E S [] w = w"
| "call_run E S (c # cs) w = call_run E S cs (call_step E S c w)"

text \<open>
  Calls that meet in the store. A login, a validation and a logout call it once; a refresh may stop after
  its first call, while others go on, and continues by the number it was given. The state is the store
  and the refreshes under way, with the time they read.
\<close>

datatype auth_event =
    WholeCall "instant \<times> call"
  | RefreshLook nat instant string
  | RefreshStore nat random random

type_synonym refreshes = "nat \<Rightarrow> (instant \<times> refresh_next) option"

fun auth_step :: "auth_env \<Rightarrow> 's service \<Rightarrow> auth_event \<Rightarrow> 's \<times> refreshes \<Rightarrow> 's \<times> refreshes" where
  "auth_step E S (WholeCall c) (w, p) = (call_step E S c w, p)"
| "auth_step E S (RefreshLook k now tok) (w, p) =
     (case refresh_look E S now tok w of (r, w) \<Rightarrow> (w, p(k \<mapsto> (now, r))))"
| "auth_step E S (RefreshStore k r1 r2) (w, p) =
     (case p k of
        None \<Rightarrow> (w, p)
      | Some (now, r) \<Rightarrow>
          (case r of
             RefreshFails e \<Rightarrow> w
           | RefreshRevokes i \<Rightarrow> snd (Revoke (sessions S) i w)
           | RefreshRenews i s \<Rightarrow> snd (refresh_commit E S now i r1 r2 s w), p(k := None)))"

definition auth_run :: "auth_env \<Rightarrow> 's service \<Rightarrow> auth_event list \<Rightarrow> 's \<times> refreshes \<Rightarrow> 's \<times> refreshes" where
  "auth_run E S evs wp = fold (auth_step E S) evs wp"

text \<open>A refresh in two steps with nothing in between is the refresh.\<close>

lemma refresh_in_steps:
  "fst (auth_run E S [RefreshLook k now tok, RefreshStore k r1 r2] (w, p)) = snd (Refresh E S now r1 r2 tok w)"
  by (auto simp: auth_run_def Refresh_def refresh_check_def refresh_look_def split: option.splits sum.splits prod.splits)

fun logs_in_as :: "uuid \<Rightarrow> instant \<times> call \<Rightarrow> bool" where
  "logs_in_as i (now, CLogin j r1 r2 creds) \<longleftrightarrow> j = i"
| "logs_in_as i (now, _) \<longleftrightarrow> False"

definition draws_id :: "uuid \<Rightarrow> auth_event \<Rightarrow> bool" where
  "draws_id i ev = (case ev of WholeCall c \<Rightarrow> logs_in_as i c | _ \<Rightarrow> False)"

text \<open>No refresh of the session is under way; those under way write back what they read.\<close>

definition none_renewing :: "uuid \<Rightarrow> refreshes \<Rightarrow> bool" where
  "none_renewing i p \<longleftrightarrow> (\<forall>k now j s. p k = Some (now, RefreshRenews j s) \<longrightarrow> sid s = j \<and> j \<noteq> i)"

context session_store
begin

lemma issue_dead:
  assumes S: "sessions S = St" and fd: "filed (sess w)"
  shows "filed (sess (snd (issue E S now i r1 r2 ident w))) \<and>
    (j \<noteq> i \<longrightarrow> sess (snd (issue E S now i r1 r2 ident w)) j = sess w j)"
proof (cases "\<exists>a r. r1 = Inr a \<and> r2 = Inr r")
  case True
  then obtain a r where r: "r1 = Inr a" "r2 = Inr r" by blast
  let ?s = "issued_session E S now i a r ident"
  have st: "snd (issue E S now i r1 r2 ident w) = snd (Create St ?s w)"
    by (simp add: issue_def r S Let_def split: prod.splits option.splits)
  have "sid ?s = i" by (simp add: issued_session_def)
  then show ?thesis using fd create_law[of ?s w] by (auto simp: st filed_def)
next
  case False
  then have "snd (issue E S now i r1 r2 ident w) = w"
    by (cases r1; cases r2) (simp_all add: issue_def)
  then show ?thesis using fd by simp
qed

lemma Login_dead:
  "sessions S = St \<Longrightarrow> filed (sess w) \<Longrightarrow> filed (sess (snd (Login E S now i r1 r2 creds w))) \<and>
    (j \<noteq> i \<longrightarrow> sess (snd (Login E S now i r1 r2 creds w)) j = sess w j)"
  using issue_dead by (simp add: Login_def split: sum.splits provider_error.splits)

lemma revoke_dead:
  "filed (sess w) \<Longrightarrow> filed (sess (snd (Revoke St i w))) \<and>
     (dead (sess w) j \<longrightarrow> dead (sess (snd (Revoke St i w))) j)"
  using revoke_law[of i w] by (auto simp: filed_def dead_def split: option.splits)

lemma refresh_check_ok:
  assumes S: "sessions S = St" and ok: "refresh_check E S now tok w = (Inr s, w')"
  shows "\<exists>i secret. parseToken E tok = Some (i, secret) \<and> sess w i = Some s \<and> \<not> revoked s \<and>
    now \<le> expires_at s \<and> hash_secret E secret = refresh_hash s \<and> sess w' = sess w"
proof -
  obtain i secret where p: "parseToken E tok = Some (i, secret)"
    using ok by (auto simp: refresh_check_def refresh_look_def split: option.splits)
  obtain g w1 where g: "Get St i w = (g, w1)" by (cases "Get St i w")
  obtain s' where gs: "g = Inr s'" using ok p g S by (cases g) (auto simp: refresh_check_def refresh_look_def)
  have "sess w i = Some s'" "sess w1 = sess w" using get_found[of i w s'] get_frame[of i w] g gs by simp_all
  then show ?thesis using ok p g gs S
    by (auto simp: refresh_check_def refresh_look_def secretMatchesHash_def split: if_splits)
qed

lemma refresh_check_dead:
  assumes S: "sessions S = St" and fd: "filed (sess w)"
  shows "filed (sess (snd (refresh_check E S now tok w))) \<and>
    (dead (sess w) j \<longrightarrow> dead (sess (snd (refresh_check E S now tok w))) j)"
proof (cases "parseToken E tok")
  case None
  then show ?thesis using fd by (simp add: refresh_check_def refresh_look_def)
next
  case (Some p)
  obtain i secret where p: "p = (i, secret)" by (cases p)
  obtain g w1 where g: "Get St i w = (g, w1)" by (cases "Get St i w")
  have fr: "sess w1 = sess w" using get_frame[of i w] g by simp
  show ?thesis using fd Some p g S fr revoke_dead[of w1 i j]
    by (simp add: refresh_check_def refresh_look_def split: sum.splits)
qed

lemma refresh_commit_dead:
  assumes S: "sessions S = St" and fd: "filed (sess w)" and here: "sess w i = Some s" and alive: "\<not> revoked s"
  shows "filed (sess (snd (refresh_commit E S now i r1 r2 s w))) \<and>
    (dead (sess w) j \<longrightarrow> dead (sess (snd (refresh_commit E S now i r1 r2 s w))) j)"
proof (cases "\<exists>a r. r1 = Inr a \<and> r2 = Inr r")
  case True
  then obtain a r where r: "r1 = Inr a" "r2 = Inr r" by blast
  let ?s = "refreshed_session E S now i a r s"
  have st: "snd (refresh_commit E S now i r1 r2 s w) = snd (Update St ?s w)"
    by (simp add: refresh_commit_def r S Let_def split: prod.splits option.splits)
  have "sid ?s = i" using filedD[OF fd here] by (simp add: refreshed_session_def)
  then show ?thesis using fd here alive update_law[of ?s w] by (auto simp: st filed_def dead_def)
next
  case False
  then have "snd (refresh_commit E S now i r1 r2 s w) = w"
    by (cases r1; cases r2) (simp_all add: refresh_commit_def)
  then show ?thesis using fd by simp
qed

lemma Refresh_dead:
  assumes S: "sessions S = St" and fd: "filed (sess w)"
  shows "filed (sess (snd (Refresh E S now r1 r2 tok w))) \<and>
    (dead (sess w) j \<longrightarrow> dead (sess (snd (Refresh E S now r1 r2 tok w))) j)"
proof -
  obtain c w1 where c: "refresh_check E S now tok w = (c, w1)" by (cases "refresh_check E S now tok w")
  have chk: "filed (sess w1) \<and> (dead (sess w) j \<longrightarrow> dead (sess w1) j)"
    using refresh_check_dead[OF S fd, of E now tok j] c by simp
  show ?thesis
  proof (cases c)
    case (Inl e)
    then show ?thesis using chk c by (simp add: Refresh_def)
  next
    case (Inr s)
    obtain i secret where p: "parseToken E tok = Some (i, secret)" "sess w i = Some s" "\<not> revoked s" "sess w1 = sess w"
      using refresh_check_ok[OF S c[unfolded Inr]] by blast
    then show ?thesis using chk c Inr refresh_commit_dead[OF S, of w1 i s E now r1 r2 j]
      by (simp add: Refresh_def)
  qed
qed

lemma ValidateAccess_frame:
  "sessions S = St \<Longrightarrow> sess (snd (ValidateAccess E S now tok w)) = sess w"
  using get_frame by (auto simp: ValidateAccess_def split: option.splits prod.splits sum.splits) (metis snd_conv)+

lemma Logout_dead:
  "sessions S = St \<Longrightarrow> filed (sess w) \<Longrightarrow> filed (sess (snd (Logout E S tok w))) \<and>
     (dead (sess w) j \<longrightarrow> dead (sess (snd (Logout E S tok w))) j)"
proof (cases "parseToken E tok")
  case None
  then show "sessions S = St \<Longrightarrow> filed (sess w) \<Longrightarrow> ?thesis" by (simp add: Logout_def)
next
  case (Some p)
  assume S: "sessions S = St" and fd: "filed (sess w)"
  obtain i secret where p: "p = (i, secret)" by (cases p)
  have "snd (Logout E S tok w) = snd (Revoke St i w)"
    using Some p S by (simp add: Logout_def split: prod.splits)
  then show ?thesis using revoke_dead[OF fd, of i j] by simp
qed

lemma call_step_dead:
  assumes S: "sessions S = St" and fd: "filed (sess w)"
  shows "filed (sess (call_step E S c w)) \<and>
    (\<not> logs_in_as j c \<longrightarrow> dead (sess w) j \<longrightarrow> dead (sess (call_step E S c w)) j)"
proof (cases "(j, c)" rule: logs_in_as.cases)
  case (1 i now k r1 r2 creds)
  then show ?thesis using Login_dead[OF S fd, of E now k r1 r2 creds j] by (auto simp: dead_def)
qed (use Refresh_dead[OF S fd] ValidateAccess_frame[OF S] Logout_dead[OF S fd] fd in auto)

lemma call_run_dead:
  "sessions S = St \<Longrightarrow> filed (sess w) \<Longrightarrow> dead (sess w) j \<Longrightarrow> \<forall>c \<in> set cs. \<not> logs_in_as j c \<Longrightarrow>
     dead (sess (call_run E S cs w)) j"
  by (induction cs arbitrary: w) (use call_step_dead in auto)

lemma refresh_look_dead:
  assumes S: "sessions S = St" and fd: "filed (sess w)" and dd: "dead (sess w) i"
  shows "sess (snd (refresh_look E S now tok w)) = sess w \<and>
    (\<forall>j s. fst (refresh_look E S now tok w) = RefreshRenews j s \<longrightarrow> sid s = j \<and> j \<noteq> i)"
proof (cases "parseToken E tok")
  case (Some p)
  obtain j secret where p: "p = (j, secret)" by (cases p)
  obtain g w1 where g: "Get St j w = (g, w1)" by (cases "Get St j w")
  have frame: "sess w1 = sess w" using get_frame[of j w] g by simp
  show ?thesis
  proof (cases g)
    case (Inr s)
    then have here: "sess w j = Some s" using get_found[of j w s] g by simp
    then have "sid s = j" "revoked s \<or> j \<noteq> i" using filedD[OF fd] dd by (auto simp: dead_def)
    then show ?thesis using Some p g S frame Inr by (auto simp: refresh_look_def)
  qed (use Some p g S frame in \<open>simp add: refresh_look_def\<close>)
qed (simp add: refresh_look_def)

lemma refresh_commit_other:
  assumes S: "sessions S = St" and fd: "filed (sess w)" and s: "sid s = i" "i \<noteq> j"
  shows "filed (sess (snd (refresh_commit E S now i r1 r2 s w))) \<and>
    sess (snd (refresh_commit E S now i r1 r2 s w)) j = sess w j"
proof (cases "\<exists>a r. r1 = Inr a \<and> r2 = Inr r")
  case True
  then obtain a r where r: "r1 = Inr a" "r2 = Inr r" by blast
  let ?s = "refreshed_session E S now i a r s"
  have st: "snd (refresh_commit E S now i r1 r2 s w) = snd (Update St ?s w)"
    by (simp add: refresh_commit_def r S Let_def split: prod.splits option.splits)
  have "sid ?s = i" using s(1) by (simp add: refreshed_session_def)
  then show ?thesis using fd s(2) update_law[of ?s w] by (auto simp: st filed_def)
next
  case False
  then have "snd (refresh_commit E S now i r1 r2 s w) = w" by (cases r1; cases r2) (simp_all add: refresh_commit_def)
  then show ?thesis using fd by simp
qed

lemma auth_step_dead:
  assumes S: "sessions S = St" and fd: "filed (sess w)" and dd: "dead (sess w) i" and p: "none_renewing i p"
    and ev: "\<not> draws_id i ev"
  shows "filed (sess (fst (auth_step E S ev (w, p)))) \<and> dead (sess (fst (auth_step E S ev (w, p)))) i \<and>
    none_renewing i (snd (auth_step E S ev (w, p)))"
proof (cases ev)
  case (WholeCall c)
  then show ?thesis using call_step_dead[OF S fd, of E c i] dd p ev by (simp add: draws_id_def)
next
  case (RefreshLook k now tok)
  obtain r w1 where l: "refresh_look E S now tok w = (r, w1)" by fastforce
  then show ?thesis using refresh_look_dead[OF S fd dd, of E now tok] fd dd p RefreshLook by (auto simp: none_renewing_def)
next
  case (RefreshStore k r1 r2)
  have rest: "none_renewing i (p(k := None))" using p by (auto simp: none_renewing_def)
  show ?thesis
  proof (cases "p k")
    case None
    then show ?thesis using RefreshStore fd dd p by simp
  next
    case (Some nr)
    obtain now r where nr: "nr = (now, r)" by fastforce
    show ?thesis
    proof (cases r)
      case (RefreshFails e)
      then show ?thesis using RefreshStore Some nr fd dd rest by simp
    next
      case (RefreshRevokes j)
      then show ?thesis using RefreshStore Some nr fd dd rest revoke_dead[OF fd, of j i] S by simp
    next
      case (RefreshRenews j s)
      then have "sid s = j" "j \<noteq> i" using p Some nr by (auto simp: none_renewing_def)
      then show ?thesis using refresh_commit_other[OF S fd, of s j i] RefreshStore RefreshRenews Some nr dd rest by (simp add: dead_def)
    qed
  qed
qed

lemma auth_step_filed:
  assumes S: "sessions S = St" and fd: "filed (sess w)"
    and p: "\<forall>k now j s. p k = Some (now, RefreshRenews j s) \<longrightarrow> sid s = j"
  shows "filed (sess (fst (auth_step E S ev (w, p)))) \<and>
    (\<forall>k now j s. snd (auth_step E S ev (w, p)) k = Some (now, RefreshRenews j s) \<longrightarrow> sid s = j)"
proof (cases ev)
  case (WholeCall c)
  then show ?thesis using call_step_dead[OF S fd, of E c] p by simp
next
  case (RefreshLook k now tok)
  obtain r w1 where l: "refresh_look E S now tok w = (r, w1)" by fastforce
  have "sess w1 = sess w \<and> (\<forall>j s. r = RefreshRenews j s \<longrightarrow> sid s = j)"
  proof (cases "parseToken E tok")
    case (Some x)
    obtain j secret where x: "x = (j, secret)" by (cases x)
    obtain g w2 where g: "Get St j w = (g, w2)" by fastforce
    have "sess w2 = sess w" "\<And>s. g = Inr s \<Longrightarrow> sid s = j"
      using get_frame[of j w] get_found[of j w] g filedD[OF fd] by auto
    then show ?thesis using l Some x g S by (cases g) (auto simp: refresh_look_def split: if_splits)
  qed (use l in \<open>auto simp: refresh_look_def\<close>)
  then show ?thesis using RefreshLook l fd p by auto
next
  case (RefreshStore k r1 r2)
  show ?thesis
  proof (cases "p k")
    case (Some nr)
    obtain now r where nr: "nr = (now, r)" by fastforce
    show ?thesis
    proof (cases r)
      case (RefreshRevokes j)
      then show ?thesis using RefreshStore Some nr fd p revoke_dead[OF fd, of j] S by simp
    next
      case (RefreshRenews j s)
      then have "sid s = j" using p Some nr by auto
      then show ?thesis using refresh_commit_other[OF S fd, of s j "j @ [0]"] RefreshStore RefreshRenews Some nr p by simp
    qed (use RefreshStore Some nr fd p in simp)
  qed (use RefreshStore fd p in simp)
qed

lemma auth_run_dead:
  assumes S: "sessions S = St"
  shows "filed (sess w) \<Longrightarrow> dead (sess w) i \<Longrightarrow> none_renewing i p \<Longrightarrow> \<forall>ev \<in> set evs. \<not> draws_id i ev \<Longrightarrow>
    filed (sess (fst (auth_run E S evs (w, p)))) \<and> dead (sess (fst (auth_run E S evs (w, p)))) i \<and>
    none_renewing i (snd (auth_run E S evs (w, p)))"
proof (induction evs arbitrary: w p)
  case (Cons ev evs)
  obtain w1 p1 where st: "auth_step E S ev (w, p) = (w1, p1)" by fastforce
  show ?case using auth_step_dead[OF S Cons.prems(1-3), of ev E] Cons.IH[of w1 p1] Cons.prems(4) st by (simp add: auth_run_def)
qed (simp add: auth_run_def)

lemma Validate_dead:
  assumes S: "sessions S = St" and dd: "dead (sess w) i" and p: "parseToken E tok = Some (i, secret)"
  shows "\<exists>e. fst (ValidateAccess E S now tok w) = Inl e"
proof -
  obtain g w1 where g: "Get St i w = (g, w1)" by (cases "Get St i w")
  then show ?thesis using dd p S get_found[of i w]
    by (cases g) (auto simp: ValidateAccess_def dead_def)
qed

lemma Refresh_of_dead:
  assumes S: "sessions S = St" and dd: "dead (sess w) i" and p: "parseToken E tok = Some (i, secret)"
  shows "\<exists>e. fst (Refresh E S now r1 r2 tok w) = Inl e"
proof (cases "refresh_check E S now tok w")
  case (Pair c w1)
  show ?thesis
  proof (cases c)
    case (Inl e)
    then show ?thesis using Pair by (simp add: Refresh_def)
  next
    case (Inr s)
    then show ?thesis using refresh_check_ok[OF S] Pair p dd by (fastforce simp: dead_def)
  qed
qed

end

text \<open>What a store that answers adds: the service's positive results.\<close>

context answering_store
begin

lemma Validate_result:
  assumes S: "sessions S = St" and p: "parseToken E tok = Some (i, secret)"
  shows "fst (ValidateAccess E S now tok w) =
    (case sess w i of
       None \<Rightarrow> Inl ErrInvalidToken
     | Some s \<Rightarrow> if revoked s \<or> now > access_expires s \<or> hash_secret E secret \<noteq> access_hash s
         then Inl ErrInvalidToken else Inr (sidentity s))"
proof -
  obtain g w1 where g: "Get St i w = (g, w1)" by (cases "Get St i w")
  then show ?thesis using p S get_answers[of i w]
    by (auto simp: ValidateAccess_def secretMatchesHash_def sessionFailure_def split: option.splits)
qed

lemma Login_result:
  assumes S: "sessions S = St" and a: "authenticate S creds = Inr ident"
  shows "\<exists>w'. Login E S now i (Inr a) (Inr r) creds w =
      (Inr (tokens_of E i a r (issued_session E S now i a r ident)), w') \<and>
    sess w' = (sess w)(i \<mapsto> issued_session E S now i a r ident)"
proof -
  let ?s = "issued_session E S now i a r ident"
  obtain c w1 where c: "Create St ?s w = (c, w1)" by (cases "Create St ?s w")
  have "c = None" "sess w1 = (sess w)(i \<mapsto> ?s)"
    using create_answers[of ?s w] create_law[of ?s w] c by (simp_all add: issued_session_def)
  then show ?thesis using c a S by (simp add: Login_def issue_def)
qed

lemma Refresh_accepts:
  assumes S: "sessions S = St" and p: "parseToken E tok = Some (i, secret)"
    and here: "sess w i = Some s" and ok: "\<not> revoked s" "now \<le> expires_at s" "hash_secret E secret = refresh_hash s"
    and fd: "filed (sess w)"
  shows "\<exists>w'. Refresh E S now (Inr a) (Inr r) tok w =
      (Inr (tokens_of E i a r (refreshed_session E S now i a r s)), w') \<and>
    sess w' = (sess w)(i \<mapsto> refreshed_session E S now i a r s)"
proof -
  let ?s = "refreshed_session E S now i a r s"
  obtain g w1 where g: "Get St i w = (g, w1)" by (cases "Get St i w")
  have gs: "g = Inr s" "sess w1 = sess w" using get_answers[of i w] get_frame[of i w] g here by simp_all
  have sid: "sid ?s = i" using filedD[OF fd here] by (simp add: refreshed_session_def)
  obtain u w2 where u: "Update St ?s w1 = (u, w2)" by (cases "Update St ?s w1")
  have "u = None" "sess w2 = (sess w)(i \<mapsto> ?s)"
    using update_answers[of ?s w1] update_law[of ?s w1] u here gs(2) sid by simp_all
  then show ?thesis using g gs u p S ok
    by (simp add: Refresh_def refresh_check_def refresh_look_def refresh_commit_def secretMatchesHash_def)
qed

lemma Refresh_replay:
  assumes S: "sessions S = St" and p: "parseToken E tok = Some (i, secret)"
    and here: "sess w i = Some s" and wrong: "hash_secret E secret \<noteq> refresh_hash s"
    and live: "\<not> revoked s" "now \<le> expires_at s"
  shows "\<exists>w'. Refresh E S now r1 r2 tok w = (Inl ErrInvalidToken, w') \<and> dead (sess w') i"
proof -
  obtain g w1 where g: "Get St i w = (g, w1)" by (cases "Get St i w")
  have gs: "g = Inr s" "sess w1 = sess w" using get_answers[of i w] get_frame[of i w] g here by simp_all
  obtain u w2 where u: "Revoke St i w1 = (u, w2)" by (cases "Revoke St i w1")
  have "sess w2 i = Some (s\<lparr>revoked := True\<rparr>)"
    using revoke_answers[of i w1] revoke_law[of i w1] u here gs(2) by simp
  then show ?thesis using g gs u p S wrong live
    by (simp add: Refresh_def refresh_check_def refresh_look_def secretMatchesHash_def dead_def)
qed

end

section \<open>The store in memory meets the contract\<close>

lemmas memory_ops = memory_store_def memory_create_def memory_get_def memory_update_def memory_revoke_def

interpretation ms: answering_store memory_store "\<lambda>m. m"
  by unfold_locales (auto simp: memory_ops split: option.splits)

section \<open>A sample environment\<close>

text \<open>
  A concrete environment for the witnesses: a UUID is printed as two letters per byte, and the hash
  is the identity.
\<close>

definition byte_letters :: "8 word \<Rightarrow> string" where
  "byte_letters w = [char_of (unat w div 16 + 0x41), char_of (unat w mod 16 + 0x41)]"

fun letters_bytes :: "string \<Rightarrow> uuid" where
  "letters_bytes (a # b # s) = of_nat (16 * (of_char a - 0x41) + (of_char b - 0x41)) # letters_bytes s"
| "letters_bytes s = []"

lemma letters_bytes_round: "letters_bytes (concat (map byte_letters u)) = u"
proof (induction u)
  case Nil
  then show ?case by simp
next
  case (Cons w u)
  have w: "unat w < 256" using unsigned_less[of w] by simp
  then have "unat w div 16 < 16" by simp
  with Cons show ?case by (simp add: byte_letters_def)
qed

lemma byte_letters_no_dot: "CHR ''.'' \<notin> set (byte_letters w)"
proof -
  have w: "unat w < 256" using unsigned_less[of w] by simp
  have "CHR ''.'' \<noteq> char_of (n + 0x41 :: nat)" if "n < 16" for n
  proof
    assume "CHR ''.'' = char_of (n + 0x41 :: nat)"
    then have "(of_char CHR ''.'' :: nat) = of_char (char_of (n + 0x41 :: nat) :: char)" by simp
    then show False using that by simp
  qed
  then show ?thesis using w by (simp add: byte_letters_def)
qed

definition sample_env :: auth_env where
  "sample_env = \<lparr>uuid_parse = (\<lambda>s. Some (letters_bytes s)),
     uuid_string = (\<lambda>u. concat (map byte_letters u)), hash_secret = (\<lambda>s. s)\<rparr>"

definition sample_service :: "memory_sessions service" where
  "sample_service = \<lparr>authenticate = (\<lambda>c. Inr \<lparr>subject = cusername c, username = cusername c, iuuid = []\<rparr>),
     sessions = memory_store, cfg = DefaultConfig\<rparr>"

definition sample_creds :: credentials where
  "sample_creds = \<lparr>cusername = ''amy'', cpassword = ''pw'', ctwofactor = []\<rparr>"

lemma sample_env_ok: "env_ok sample_env"
  using byte_letters_no_dot by (auto simp: env_ok_def sample_env_def letters_bytes_round)

lemma sample_simps [simp]:
  "sessions sample_service = memory_store"
  "hash_secret sample_env s = s"
  "AccessTTL (cfg sample_service) = 15 * minute"
  "RefreshTTL (cfg sample_service) = 720 * hour"
  "authenticate sample_service sample_creds = Inr \<lparr>subject = ''amy'', username = ''amy'', iuuid = []\<rparr>"
  by (simp_all add: sample_service_def sample_env_def DefaultConfig_def sample_creds_def)

text \<open>The state after one login under the session id 0, with the secrets \<open>a\<close> and \<open>r\<close>.\<close>

definition sample_session :: session where
  "sample_session = issued_session sample_env sample_service 0 [0] ''a'' ''r''
     \<lparr>subject = ''amy'', username = ''amy'', iuuid = []\<rparr>"

lemma sample_session_simps [simp]:
  "sid sample_session = [0]" "revoked sample_session = False" "refresh_hash sample_session = ''r''"
  "expires_at sample_session = 720 * hour" "access_hash sample_session = ''a''"
  "sidentity sample_session = \<lparr>subject = ''amy'', username = ''amy'', iuuid = []\<rparr>"
  by (simp_all add: sample_session_def issued_session_def)

lemma sample_parse: "parseToken sample_env (''AA.'' @ secret) = (if secret = [] then None else Some ([0], secret))"
  by (simp add: parseToken_def sample_env_def)

section \<open>Properties\<close>

text \<open>
  C2: a session in memory that is revoked or gone, and of which no refresh is under way, stays so through
  every sequence of logins, refreshes, validations and logouts that does not draw its id again, also when
  refreshes stop between their two calls of the store and others go on meanwhile; and no access token or
  refresh token of it is accepted afterwards, at any time.
\<close>

theorem revoked_session_stays_dead:
  assumes "sessions S = memory_store" and "filed m" and "dead m i" and "none_renewing i p"
    and "\<forall>ev \<in> set evs. \<not> draws_id i ev" and "parseToken E tok = Some (i, secret)"
  shows "(\<exists>e. fst (ValidateAccess E S now tok (fst (auth_run E S evs (m, p)))) = Inl e) \<and>
    (\<exists>e. fst (Refresh E S now r1 r2 tok (fst (auth_run E S evs (m, p)))) = Inl e)"
proof -
  have "dead (fst (auth_run E S evs (m, p))) i" using ms.auth_run_dead[OF assms(1-5)] by blast
  then show ?thesis using ms.Validate_dead[OF assms(1) _ assms(6)] ms.Refresh_of_dead[OF assms(1) _ assms(6)] by blast
qed

text \<open>The token is presented twice, once in two steps around the other.\<close>

theorem revoked_session_stays_dead_witness:
  "\<exists>e. fst (ValidateAccess sample_env sample_service 5 ''AA.a''
     (fst (auth_run sample_env sample_service
        [WholeCall (1, CLogout ''AA.a''), RefreshLook 0 2 ''AA.r'', WholeCall (3, CRefresh (Inr ''b'') (Inr ''c'') ''AA.r''),
         RefreshStore 0 (Inr ''d'') (Inr ''e'')]
       ([[0] \<mapsto> sample_session\<lparr>revoked := True\<rparr>], \<lambda>_. None)))) = Inl e"
  using revoked_session_stays_dead [of sample_service "[[0] \<mapsto> sample_session\<lparr>revoked := True\<rparr>]" "[0]" "\<lambda>_. None"
      "[WholeCall (1, CLogout ''AA.a''), RefreshLook 0 2 ''AA.r'', WholeCall (3, CRefresh (Inr ''b'') (Inr ''c'') ''AA.r''),
         RefreshStore 0 (Inr ''d'') (Inr ''e'')]" sample_env "''AA.a''" "''a''" 5]
    sample_parse[of "''a''"]
  by (simp add: filed_def dead_def none_renewing_def draws_id_def)

text \<open>
  after a login the access token it returned is accepted as the account's identity until the
  access lifetime has passed, and rejected from then on.
\<close>

theorem login_then_validate:
  assumes "sessions S = memory_store" and "env_ok E" and "authenticate S creds = Inr ident" and "a \<noteq> []"
    and "Login E S now i (Inr a) (Inr r) creds m = (Inr t, m')"
  shows "fst (ValidateAccess E S now' (taccess t) m') =
    (if now' \<le> now + AccessTTL (cfg S) then Inr ident else Inl ErrInvalidToken)"
proof -
  have t: "t = tokens_of E i a r (issued_session E S now i a r ident)"
    "m' = m(i \<mapsto> issued_session E S now i a r ident)"
    using ms.Login_result[OF assms(1,3), of E now i a r m] assms(5) by auto
  have "parseToken E (taccess t) = Some (i, a)"
    using parse_newToken[OF assms(2,4)] by (simp add: t tokens_of_def)
  then show ?thesis using ms.Validate_result[OF assms(1)] t by (simp add: issued_session_def)
qed

theorem login_then_validate_witness:
  "\<exists>t m'. Login sample_env sample_service 0 [0] (Inr ''a'') (Inr ''r'') sample_creds Map.empty = (Inr t, m') \<and>
     fst (ValidateAccess sample_env sample_service 7 (taccess t) m') =
       Inr \<lparr>subject = ''amy'', username = ''amy'', iuuid = []\<rparr>"
proof -
  obtain t m' where l: "Login sample_env sample_service 0 [0] (Inr ''a'') (Inr ''r'') sample_creds Map.empty = (Inr t, m')"
    using ms.Login_result[of sample_service sample_creds "\<lparr>subject = ''amy'', username = ''amy'', iuuid = []\<rparr>"
        sample_env 0 "[0]" "''a''" "''r''" Map.empty] by auto
  then show ?thesis
    using login_then_validate [OF _ sample_env_ok _ _ l, of "\<lparr>subject = ''amy'', username = ''amy'', iuuid = []\<rparr>" 7]
    by (simp add: minute_def second_def)
qed



text \<open>
  the two calls that \<open>Refresh\<close> makes to the store are not one step. A logout of the same session
  between them reports success and is undone: the refresh then succeeds, and the access token that it
  returns is accepted.
\<close>

theorem logout_lost_in_refresh:
  assumes "sessions S = memory_store" and "filed m" and "env_ok E" and "a \<noteq> []" and "0 \<le> AccessTTL (cfg S)"
    and "parseToken E tok = Some (i, secret)" and "parseToken E other = Some (i, secret')"
    and "refresh_check E S now tok m = (Inr s, m1)"
  shows "fst (Logout E S other m1) = None \<and> dead (snd (Logout E S other m1)) i \<and>
    (\<exists>t m3. refresh_commit E S now i (Inr a) (Inr r) s (snd (Logout E S other m1)) = (Inr t, m3) \<and>
       fst (ValidateAccess E S now (taccess t) m3) = Inr (sidentity s))"
proof -
  have s: "m i = Some s" "\<not> revoked s" "m1 = m" using ms.refresh_check_ok[OF assms(1,8)] assms(6) by auto
  have sid: "sid s = i" using filedD[OF assms(2) s(1)] .
  have lo: "Logout E S other m1 = (None, m(i \<mapsto> s\<lparr>revoked := True\<rparr>))"
    using s assms(1,7) by (simp add: Logout_def memory_ops)
  let ?s = "refreshed_session E S now i a r s"
  have rc: "refresh_commit E S now i (Inr a) (Inr r) s (m(i \<mapsto> s\<lparr>revoked := True\<rparr>)) =
      (Inr (tokens_of E i a r ?s), m(i \<mapsto> ?s))"
    using sid assms(1) by (simp add: refresh_commit_def memory_ops refreshed_session_def Let_def)
  have "parseToken E (taccess (tokens_of E i a r ?s)) = Some (i, a)"
    using parse_newToken[OF assms(3,4)] by (simp add: tokens_of_def)
  then have "fst (ValidateAccess E S now (taccess (tokens_of E i a r ?s)) (m(i \<mapsto> ?s))) = Inr (sidentity s)"
    using ms.Validate_result[OF assms(1)] s(2) assms(5) by (simp add: refreshed_session_def)
  then show ?thesis using lo rc by (simp add: dead_def)
qed

theorem logout_lost_in_refresh_witness:
  "refresh_check sample_env sample_service 1 ''AA.r'' [[0] \<mapsto> sample_session] = (Inr sample_session, [[0] \<mapsto> sample_session]) \<and>
   dead (snd (Logout sample_env sample_service ''AA.a'' [[0] \<mapsto> sample_session])) [0] \<and>
   (\<exists>t m3. refresh_commit sample_env sample_service 1 [0] (Inr ''b'') (Inr ''q'') sample_session
       (snd (Logout sample_env sample_service ''AA.a'' [[0] \<mapsto> sample_session])) = (Inr t, m3) \<and>
     fst (ValidateAccess sample_env sample_service 1 (taccess t) m3) = Inr (sidentity sample_session))"
proof -
  have p: "parseToken sample_env ''AA.r'' = Some ([0], ''r'')" "parseToken sample_env ''AA.a'' = Some ([0], ''a'')"
    using sample_parse[of "''r''"] sample_parse[of "''a''"] by simp_all
  have f: "filed [[0] \<mapsto> sample_session]" by (simp add: filed_def)
  have c: "refresh_check sample_env sample_service 1 ''AA.r'' [[0] \<mapsto> sample_session] =
      (Inr sample_session, [[0] \<mapsto> sample_session])"
    using p by (simp add: refresh_check_def refresh_look_def memory_ops secretMatchesHash_def hour_def minute_def second_def)
  show ?thesis
    using logout_lost_in_refresh [OF _ f sample_env_ok _ _ p(1,2) c, of "''b''" "''q''"] c
    by (simp add: minute_def second_def)
qed

text \<open>
  the offline UUID of a name is a UUID of version 3 and of the standard variant, and otherwise the
  MD5 sum of the name with its prefix.
\<close>

theorem OfflineUUID_version:
  assumes "length (md5 (''OfflinePlayer:'' @ name)) = 16"
  shows "OfflineUUID md5 name ! 6 AND 0xf0 = 0x30 \<and> OfflineUUID md5 name ! 8 AND 0xc0 = 0x80 \<and>
    OfflineUUID md5 name ! 6 AND 0x0f = md5 (''OfflinePlayer:'' @ name) ! 6 AND 0x0f \<and>
    (\<forall>k. k \<noteq> 6 \<longrightarrow> k \<noteq> 8 \<longrightarrow> OfflineUUID md5 name ! k = md5 (''OfflinePlayer:'' @ name) ! k) \<and>
    length (OfflineUUID md5 name) = 16"
proof -
  have "((x AND 0x0f) OR 0x30) AND 0xf0 = (0x30 :: 8 word)" "((x AND 0x3f) OR 0x80) AND 0xc0 = (0x80 :: 8 word)"
    "((x AND 0x0f) OR 0x30) AND 0x0f = x AND (0x0f :: 8 word)" for x
    by (simp_all add: bit.conj_disj_distrib2 and.assoc)
  then show ?thesis using assms by (simp add: OfflineUUID_def Let_def)
qed

theorem OfflineUUID_version_witness:
  "OfflineUUID (\<lambda>_. replicate 16 0xff) ''amy'' ! 6 AND 0xf0 = 0x30"
  using OfflineUUID_version [of "\<lambda>_. replicate 16 0xff" "''amy''"] by simp

end
