(* ===== verification/Access.thy ===== *)
theory Access
  imports GoStrings
begin

text \<open>
  \<open>internal/access\<close>: who may use which build. Rosters (\<open>roster.go\<close>), rules and decisions
  (\<open>access.go\<close>), the file source with its cache (\<open>file.go\<close>) and the HTTP source with its cache
  (\<open>http.go\<close>). Parameters, in \<open>access_env\<close>: the pattern matcher \<open>path.Match\<close>, the JSON decoder and
  the lower-casing outside ASCII. A source answers with a bool and an error, as in Go.
\<close>

section \<open>Rosters\<close>

record subject =
  SubjectId :: string
  Username :: string
  UUID :: string

definition Anonymous :: "subject \<Rightarrow> bool" where
  "Anonymous s \<longleftrightarrow> SubjectId s = [] \<and> Username s = [] \<and> UUID s = []"

type_synonym members = "string \<Rightarrow> bool"

record roster =
  global :: "string list"
  perBuild :: "(string, string list) amap"

text \<open>What the JSON decoder gives: a raw value of the field \<open>builds\<close> stays encoded.\<close>

record roster_document =
  Users :: "string list"
  UUIDs :: "string list"
  Members :: "string list"
  Builds :: "(string, string) amap"

record access_env =
  path_match :: "string \<Rightarrow> string \<Rightarrow> bool option"
  json_strings :: "string \<Rightarrow> string list option"
  json_document :: "string \<Rightarrow> roster_document option"
  json_allowed :: "string \<Rightarrow> bool option option"
  lower_other :: "string \<Rightarrow> string"

definition normalizeMember :: "access_env \<Rightarrow> string \<Rightarrow> string" where
  "normalizeMember E v = to_lower (lower_other E) (filter (\<lambda>c. c \<noteq> CHR ''-'') (trim_space v))"

text \<open>A set of names, as the list of its elements.\<close>

definition memberSet :: "access_env \<Rightarrow> string list list \<Rightarrow> string list" where
  "memberSet E values = filter (\<lambda>n. n \<noteq> []) (map (normalizeMember E) (concat values))"

definition document_members :: "access_env \<Rightarrow> roster_document \<Rightarrow> string list" where
  "document_members E doc = memberSet E [Users doc, UUIDs doc, Members doc]"

definition parseMembers :: "access_env \<Rightarrow> string \<Rightarrow> string list option" where
  "parseMembers E raw =
     (case json_strings E raw of
        Some names \<Rightarrow> Some (memberSet E [names])
      | None \<Rightarrow> map_option (document_members E) (json_document E raw))"

text \<open>
  \<open>bufio.Scanner\<close>: lines without their end, a carriage return before the end dropped; the scan stops
  at a line of 65536 bytes or more. The part after a final line feed is no line.
\<close>

definition drop_cr :: "string \<Rightarrow> string" where
  "drop_cr line = (if line \<noteq> [] \<and> last line = CHR 0x0D then butlast line else line)"

definition scan_lines :: "string \<Rightarrow> string list" where
  "scan_lines data =
     (let parts = split_on CHR 0x0A data;
          lines = (if last parts = [] then butlast parts else parts)
      in map drop_cr (takeWhile (\<lambda>l. length l < 65536) lines))"

definition before_hash :: "string \<Rightarrow> string" where
  "before_hash line = fst (cut_at CHR ''#'' line)"

definition parseRosterLines :: "access_env \<Rightarrow> string \<Rightarrow> roster" where
  "parseRosterLines E data =
     \<lparr>global = filter (\<lambda>n. n \<noteq> []) (map (\<lambda>l. normalizeMember E (before_hash l)) (scan_lines data)), perBuild = []\<rparr>"

fun parse_builds :: "access_env \<Rightarrow> (string, string) amap \<Rightarrow> (string, string list) amap option" where
  "parse_builds E [] = Some []"
| "parse_builds E ((build, raw) # rest) =
     (case parseMembers E raw of
        None \<Rightarrow> None
      | Some m \<Rightarrow> map_option (store build m) (parse_builds E rest))"

definition ParseRoster :: "access_env \<Rightarrow> string \<Rightarrow> roster option" where
  "ParseRoster E data =
     (case trim_space data of
        [] \<Rightarrow> Some \<lparr>global = [], perBuild = []\<rparr>
      | c # s \<Rightarrow>
          if c \<noteq> CHR ''{'' \<and> c \<noteq> CHR ''['' then Some (parseRosterLines E (c # s))
          else if c = CHR ''['' then map_option (\<lambda>m. \<lparr>global = m, perBuild = []\<rparr>) (parseMembers E (c # s))
          else (case json_document E (c # s) of
            None \<Rightarrow> None
          | Some doc \<Rightarrow>
              map_option (\<lambda>bs. \<lparr>global = document_members E doc, perBuild = bs\<rparr>) (parse_builds E (Builds doc))))"

definition Contains :: "access_env \<Rightarrow> roster option \<Rightarrow> string \<Rightarrow> subject \<Rightarrow> bool" where
  "Contains E r build s =
     (case r of
        None \<Rightarrow> False
      | Some r \<Rightarrow>
          let members = (case lookup (perBuild r) build of Some scoped \<Rightarrow> scoped | None \<Rightarrow> global r) in
          if members = [] then False
          else list_ex (\<lambda>c. c \<noteq> [] \<and> normalizeMember E c \<in> set members) [Username s, UUID s, SubjectId s])"

section \<open>Rules and decisions\<close>

record decision =
  Allowed :: bool
  Hidden :: bool
  Reason :: string

definition allow :: decision where
  "allow = \<lparr>Allowed = True, Hidden = False, Reason = []\<rparr>"

text \<open>The messages are short words here; the code's are Russian sentences.\<close>

definition defaultDeniedReason :: string where "defaultDeniedReason = ''granted by hand''"
definition sourceDownReason :: string where "sourceDownReason = ''access not checked''"

record rule_config =
  RuleBuilds :: "string list"
  Source :: string
  Visibility :: string
  Message :: string

record 'c access_config =
  Sources :: "(string, 'c) amap"
  Rules :: "rule_config list"
  PublicObjects :: bool

text \<open>A source: its answer and its next state.\<close>

type_synonym answer = "bool \<times> string option"
type_synonym 's source = "string \<Rightarrow> subject \<Rightarrow> 's \<Rightarrow> answer \<times> 's"

record 's rule =
  patterns :: "string list"
  rule_source :: string
  allows :: "'s source"
  hidden :: bool
  message :: string

record 's controller =
  rules :: "'s rule list"
  publicObjects :: bool

datatype rule_fault = NoSuchSource nat string | NoBuilds nat | BadVisibility nat string | BlankBuild nat
  | BadPattern nat string

definition pattern_fault :: "access_env \<Rightarrow> nat \<Rightarrow> string \<Rightarrow> rule_fault option" where
  "pattern_fault E i p =
     (if trim_space p = [] then Some (BlankBuild i)
      else if path_match E p [] = None then Some (BadPattern i p)
      else None)"

definition rule_fault :: "access_env \<Rightarrow> 'c access_config \<Rightarrow> nat \<times> rule_config \<Rightarrow> rule_fault option" where
  "rule_fault E c ir =
     (let (i, r) = ir; v = to_lower (lower_other E) (Visibility r) in
      if lookup (Sources c) (Source r) = None then Some (NoSuchSource i (Source r))
      else if RuleBuilds r = [] then Some (NoBuilds i)
      else if v \<notin> {[], ''listed'', ''hidden''} then Some (BadVisibility i (Visibility r))
      else first_err (pattern_fault E i) (RuleBuilds r))"

definition ValidateRules :: "access_env \<Rightarrow> 'c access_config option \<Rightarrow> rule_fault option" where
  "ValidateRules E c =
     (case c of None \<Rightarrow> None | Some c \<Rightarrow> first_err (rule_fault E c) (enumerate 0 (Rules c)))"

datatype new_error = RuleError rule_fault | SourceError string string

fun build_sources ::
    "('c \<Rightarrow> string + 's source) \<Rightarrow> (string, 'c) amap \<Rightarrow> (new_error, (string, 's source) amap) result" where
  "build_sources build [] = Inr []"
| "build_sources build ((name, c) # rest) =
     (case build c of
        Inl e \<Rightarrow> Inl (SourceError name e)
      | Inr s \<Rightarrow> bind_res (build_sources build rest) (\<lambda>m. Inr (store name s m)))"

definition build_rule :: "access_env \<Rightarrow> (string, 's source) amap \<Rightarrow> rule_config \<Rightarrow> 's rule" where
  "build_rule E sources rc =
     \<lparr>patterns = RuleBuilds rc, rule_source = Source rc, allows = the (lookup sources (Source rc)),
      hidden = (to_lower (lower_other E) (Visibility rc) = ''hidden''),
      message = (if Message rc = [] then defaultDeniedReason else Message rc)\<rparr>"

definition New ::
    "access_env \<Rightarrow> ('c \<Rightarrow> string + 's source) \<Rightarrow> 'c access_config option \<Rightarrow> (new_error, 's controller option) result" where
  "New E build c =
     (case c of
        None \<Rightarrow> Inr None
      | Some c \<Rightarrow>
          (case ValidateRules E (Some c) of
             Some e \<Rightarrow> Inl (RuleError e)
           | None \<Rightarrow>
               bind_res (build_sources build (Sources c))
                 (\<lambda>sources. Inr (Some \<lparr>rules = map (build_rule E sources) (Rules c), publicObjects = PublicObjects c\<rparr>))))"

definition matches :: "access_env \<Rightarrow> 's rule \<Rightarrow> string \<Rightarrow> bool" where
  "matches E r build = list_ex (\<lambda>p. path_match E p build = Some True) (patterns r)"

definition Guarded :: "'s controller option \<Rightarrow> bool" where
  "Guarded c = (case c of None \<Rightarrow> False | Some c \<Rightarrow> rules c \<noteq> [] \<and> \<not> publicObjects c)"

fun decide_rules :: "access_env \<Rightarrow> 's rule list \<Rightarrow> string \<Rightarrow> subject \<Rightarrow> 's \<Rightarrow> decision \<times> 's" where
  "decide_rules E [] build s w = (allow, w)"
| "decide_rules E (r # rs) build s w =
     (if \<not> matches E r build then decide_rules E rs build s w
      else if Anonymous s then (\<lparr>Allowed = False, Hidden = hidden r, Reason = message r\<rparr>, w)
      else case allows r build s w of
        ((_, Some err), w) \<Rightarrow> (\<lparr>Allowed = False, Hidden = hidden r, Reason = sourceDownReason\<rparr>, w)
      | ((allowed, None), w) \<Rightarrow>
          (if \<not> allowed then \<lparr>Allowed = False, Hidden = hidden r, Reason = message r\<rparr> else allow, w))"

definition Decide :: "access_env \<Rightarrow> 's controller option \<Rightarrow> string \<Rightarrow> subject \<Rightarrow> 's \<Rightarrow> decision \<times> 's" where
  "Decide E c build s w = (case c of None \<Rightarrow> (allow, w) | Some c \<Rightarrow> decide_rules E (rules c) build s w)"

text \<open>\<open>Memo\<close> remembers the decisions of one request.\<close>

type_synonym memo = "string \<Rightarrow> decision option"

definition memo_decide ::
    "access_env \<Rightarrow> 's controller option \<Rightarrow> subject \<Rightarrow> string \<Rightarrow> memo \<times> 's \<Rightarrow> decision \<times> memo \<times> 's" where
  "memo_decide E c s build st =
     (case st of (m, w) \<Rightarrow>
       (case m build of
          Some d \<Rightarrow> (d, m, w)
        | None \<Rightarrow> (case Decide E c build s w of (d, w) \<Rightarrow> (d, m(build \<mapsto> d), w))))"

definition Describe :: "'s controller option \<Rightarrow> (string list \<times> string \<times> bool \<times> string) list" where
  "Describe c = (case c of None \<Rightarrow> [] | Some c \<Rightarrow> map (\<lambda>r. (patterns r, rule_source r, hidden r, message r)) (rules c))"

section \<open>The file source\<close>

definition fileStatInterval :: nanos where "fileStatInterval = 2 * second"

record file_source =
  cached :: "roster option"
  stamp :: string
  checked :: instant

definition new_file_source :: file_source where
  "new_file_source = \<lparr>cached = None, stamp = [], checked = zero_time\<rparr>"

text \<open>What the file system shows to one call: the answer of \<open>Stat\<close> and, later, the content.\<close>

datatype stat_result = NotExist | StatError string | Stat int int

record file_view =
  file_stat :: stat_result
  file_data :: "string + string"

datatype load_error = LoadNotExist | LoadStat string | LoadRead string | LoadParse

definition load ::
    "access_env \<Rightarrow> instant \<Rightarrow> file_view \<Rightarrow> file_source \<Rightarrow> (load_error, roster) result \<times> file_source" where
  "load E now v f =
     (case cached f of
        Some r \<Rightarrow>
          if now - checked f < fileStatInterval then (Inr r, f)
          else let f = f\<lparr>checked := now\<rparr> in
            (case file_stat v of
               NotExist \<Rightarrow> (Inr r, f)
             | StatError e \<Rightarrow> (Inl (LoadStat e), f)
             | Stat mtime len \<Rightarrow>
                 let st = itoa mtime @ '':'' @ itoa len in
                 if st = stamp f then (Inr r, f)
                 else (case file_data v of
                   Inl e \<Rightarrow> (Inl (LoadRead e), f)
                 | Inr data \<Rightarrow>
                     (case ParseRoster E data of
                        None \<Rightarrow> (Inl LoadParse, f)
                      | Some r \<Rightarrow> (Inr r, f\<lparr>cached := Some r, stamp := st\<rparr>))))
      | None \<Rightarrow>
          let f = f\<lparr>checked := now\<rparr> in
            (case file_stat v of
               NotExist \<Rightarrow> (Inl LoadNotExist, f)
             | StatError e \<Rightarrow> (Inl (LoadStat e), f)
             | Stat mtime len \<Rightarrow>
                 (case file_data v of
                    Inl e \<Rightarrow> (Inl (LoadRead e), f)
                  | Inr data \<Rightarrow>
                      (case ParseRoster E data of
                         None \<Rightarrow> (Inl LoadParse, f)
                       | Some r \<Rightarrow> (Inr r, f\<lparr>cached := Some r, stamp := itoa mtime @ '':'' @ itoa len\<rparr>)))))"

definition file_allows ::
    "access_env \<Rightarrow> instant \<Rightarrow> file_view \<Rightarrow> string \<Rightarrow> subject \<Rightarrow> file_source \<Rightarrow> (load_error, bool) result \<times> file_source" where
  "file_allows E now v build s f =
     (case load E now v f of
        (Inl e, f) \<Rightarrow> (Inl e, f)
      | (Inr r, f) \<Rightarrow> (Inr (Contains E (Some r) build s), f))"

definition file_reload :: "file_source \<Rightarrow> file_source" where
  "file_reload f = f\<lparr>cached := None, stamp := [], checked := zero_time\<rparr>"

section \<open>The HTTP source\<close>

definition errorCacheTTL :: nanos where "errorCacheTTL = 10 * second"
definition maxCachedEntries :: nat where "maxCachedEntries = 50000"

record http_source =
  check :: bool
  ttl :: nanos
  failOpen :: bool

text \<open>
  Entries are shared by reference: the map points into a heap, so that a request keeps its entry
  when the map drops it. \<open>ready\<close> is the closing of the entry's channel.
\<close>

record http_entry =
  ready :: bool
  fetched :: instant
  eroster :: "roster option"
  eallowed :: bool
  eerr :: "string option"

record http_state =
  entries :: "(string, nat) amap"
  heap :: "nat \<Rightarrow> http_entry"
  fresh :: nat

definition live :: "http_source \<Rightarrow> instant \<Rightarrow> http_entry \<Rightarrow> bool" where
  "live h now e \<longleftrightarrow> now - fetched e < (if eerr e \<noteq> None then min (ttl h) errorCacheTTL else ttl h)"

definition evictLocked :: "http_source \<Rightarrow> instant \<Rightarrow> http_state \<Rightarrow> http_state" where
  "evictLocked h now st =
     (let kept = keep_if (\<lambda>_ p. \<not> (ready (heap st p) \<and> \<not> live h now (heap st p))) (entries st) in
      if length kept < maxCachedEntries then st\<lparr>entries := kept\<rparr>
      else st\<lparr>entries := keep_if (\<lambda>_ p. \<not> ready (heap st p)) kept\<rparr>)"

definition empty_entry :: http_entry where
  "empty_entry = \<lparr>ready = False, fetched = zero_time, eroster = None, eallowed = False, eerr = None\<rparr>"

definition new_entry :: "http_source \<Rightarrow> instant \<Rightarrow> string \<Rightarrow> http_state \<Rightarrow> nat \<times> http_state" where
  "new_entry h now k st =
     (let st = (if length (entries st) \<ge> maxCachedEntries then evictLocked h now st else st);
          p = fresh st
      in (p, st\<lparr>entries := store k p (entries st), heap := (heap st)(p := empty_entry), fresh := p + 1\<rparr>))"

definition entryFor :: "http_source \<Rightarrow> instant \<Rightarrow> string \<Rightarrow> http_state \<Rightarrow> (nat \<times> bool) \<times> http_state" where
  "entryFor h now k st =
     (case lookup (entries st) k of
        Some p \<Rightarrow>
          if \<not> ready (heap st p) \<or> live h now (heap st p) then ((p, True), st)
          else (case new_entry h now k st of (p, st) \<Rightarrow> ((p, False), st))
      | None \<Rightarrow> (case new_entry h now k st of (p, st) \<Rightarrow> ((p, False), st)))"

text \<open>\<open>once.Do\<close>: only the first fill of an entry has an effect.\<close>

definition fill :: "nat \<Rightarrow> roster option \<times> bool \<times> string option \<Rightarrow> instant \<Rightarrow> http_state \<Rightarrow> http_state" where
  "fill p answer now st =
     (if ready (heap st p) then st
      else (case answer of (r, a, e) \<Rightarrow>
        st\<lparr>heap := (heap st)(p := \<lparr>ready = True, fetched = now, eroster = r, eallowed = a, eerr = e\<rparr>)\<rparr>))"

definition cache_key :: "http_source \<Rightarrow> string \<Rightarrow> subject \<Rightarrow> string" where
  "cache_key h build s =
     (if check h then join_with CHR 0x00 [build, SubjectId s, Username s, UUID s] else build)"

text \<open>The answer once the entry is ready, or the context of the request has ended first.\<close>

definition http_answer :: "access_env \<Rightarrow> http_source \<Rightarrow> string \<Rightarrow> subject \<Rightarrow> string option \<Rightarrow> http_entry \<Rightarrow> answer" where
  "http_answer E h build s cancelled e =
     (case cancelled of
        Some err \<Rightarrow> (failOpen h, Some err)
      | None \<Rightarrow>
          (case eerr e of
             Some err \<Rightarrow> if failOpen h then (True, None) else (False, Some err)
           | None \<Rightarrow> if check h then (eallowed e, None) else (Contains E (eroster e) build s, None)))"

datatype http_response = Unreachable string | Response int string

definition parseCheckResponse :: "access_env \<Rightarrow> string \<Rightarrow> (string, bool) result" where
  "parseCheckResponse E body =
     (let trimmed = trim_space body in
      if trimmed = [] then Inl ''empty answer''
      else (case json_allowed E trimmed of
        None \<Rightarrow> Inl ''not json''
      | Some None \<Rightarrow> Inl ''no field''
      | Some (Some b) \<Rightarrow> Inr b))"

definition maxRosterBytes :: nat where "maxRosterBytes = 8388608"

text \<open>What a fetch leaves in the entry, from the answer of the server.\<close>

definition fetch :: "access_env \<Rightarrow> http_source \<Rightarrow> http_response \<Rightarrow> roster option \<times> bool \<times> string option" where
  "fetch E h resp =
     (case resp of
        Unreachable e \<Rightarrow> (None, False, Some e)
      | Response status body \<Rightarrow>
          if check h \<and> status = 403 then (None, False, None)
          else if status < 200 \<or> status \<ge> 300 then (None, False, Some ''status'')
          else let body = take maxRosterBytes body in
            if check h then
              (case parseCheckResponse E body of Inl e \<Rightarrow> (None, False, Some e) | Inr a \<Rightarrow> (None, a, None))
            else (case ParseRoster E body of None \<Rightarrow> (None, False, Some ''roster'') | Some r \<Rightarrow> (Some r, False, None)))"

text \<open>One request on its own: it finds or makes its entry, fills it if it made it, and answers.\<close>

definition http_allows ::
    "access_env \<Rightarrow> http_source \<Rightarrow> instant \<Rightarrow> instant \<Rightarrow> http_response \<Rightarrow> string option \<Rightarrow> http_state source" where
  "http_allows E h now done_at resp cancelled build s st =
     (let ((p, found), st) = entryFor h now (cache_key h build s) st;
          st = (if found then st else fill p (fetch E h resp) done_at st)
      in (http_answer E h build s cancelled (heap st p), st))"

definition http_reload :: "http_state \<Rightarrow> http_state" where
  "http_reload st = st\<lparr>entries := []\<rparr>"

section \<open>Decisions\<close>

lemma decide_rules_allowed:
  "Allowed (fst (decide_rules E rs build s w)) \<longleftrightarrow>
     (case List.find (\<lambda>r. matches E r build) rs of
        None \<Rightarrow> True
      | Some r \<Rightarrow> \<not> Anonymous s \<and> fst (allows r build s w) = (True, None))"
  by (induction rs) (auto simp: allow_def split: prod.splits option.splits)

lemma build_sources_lookup:
  "build_sources build cs = Inr m \<Longrightarrow>
     (case lookup cs name of
        None \<Rightarrow> lookup m name = None
      | Some c \<Rightarrow> \<exists>s. build c = Inr s \<and> lookup m name = Some s)"
  by (induction build cs arbitrary: m rule: build_sources.induct)
    (auto simp: res_simps split: sum.splits option.splits if_splits)

lemma ValidateRules_source:
  assumes "ValidateRules E (Some c) = None" "r \<in> set (Rules c)"
  shows "lookup (Sources c) (Source r) \<noteq> None"
proof -
  obtain i where "(i, r) \<in> set (enumerate 0 (Rules c))" using assms(2)
    by (metis (no_types, lifting) in_set_conv_nth length_enumerate nth_enumerate_eq)
  then have "rule_fault E c (i, r) = None" using assms(1) by (auto simp: ValidateRules_def)
  then show ?thesis by (auto simp: rule_fault_def Let_def split: if_splits)
qed

lemma find_map: "List.find P (map f xs) = map_option f (List.find (\<lambda>x. P (f x)) xs)"
  by (induction xs) auto

definition rule_applies :: "access_env \<Rightarrow> string \<Rightarrow> rule_config \<Rightarrow> bool" where
  "rule_applies E build rc = list_ex (\<lambda>p. path_match E p build = Some True) (RuleBuilds rc)"

text \<open>
  C33: Access fails closed. A controller built from a configuration allows a build exactly when no
  rule of the configuration matches it, or the player is signed in and the source named by the first
  matching rule answers yes without an error: an error, an anonymous player and a source that says no
  all close the build, and later rules never open it again.
\<close>

theorem Decide_fails_closed:
  assumes "New E build (Some cfg) = Inr (Some c)"
  shows "Allowed (fst (Decide E (Some c) b s w)) \<longleftrightarrow>
     (case List.find (rule_applies E b) (Rules cfg) of
        None \<Rightarrow> True
      | Some rc \<Rightarrow> \<not> Anonymous s \<and>
          (\<exists>sc source. lookup (Sources cfg) (Source rc) = Some sc \<and> build sc = Inr source \<and> fst (source b s w) = (True, None)))"
proof -
  obtain m where m: "build_sources build (Sources cfg) = Inr m" and valid: "ValidateRules E (Some cfg) = None"
    and rules: "rules c = map (build_rule E m) (Rules cfg)"
    using assms by (auto simp: New_def res_simps split: option.splits)
  have find: "List.find (\<lambda>r. matches E r b) (rules c) = map_option (build_rule E m) (List.find (rule_applies E b) (Rules cfg))"
    by (simp add: rules find_map matches_def build_rule_def rule_applies_def[abs_def])
  show ?thesis
  proof (cases "List.find (rule_applies E b) (Rules cfg)")
    case None
    then show ?thesis by (simp add: Decide_def decide_rules_allowed find)
  next
    case (Some rc)
    then have "rc \<in> set (Rules cfg)" by (auto simp: find_Some_iff)
    then obtain sc where sc: "lookup (Sources cfg) (Source rc) = Some sc" using ValidateRules_source[OF valid] by blast
    then obtain src where "build sc = Inr src" "lookup m (Source rc) = Some src"
      using build_sources_lookup[OF m, of "Source rc"] by auto
    then show ?thesis using Some sc by (simp add: Decide_def decide_rules_allowed find build_rule_def)
  qed
qed

definition sample_access :: access_env where
  "sample_access = \<lparr>path_match = (\<lambda>p s. Some (p = s)), json_strings = (\<lambda>_. None), json_document = (\<lambda>_. None),
     json_allowed = (\<lambda>_. None), lower_other = (\<lambda>s. s)\<rparr>"

definition sample_access_config :: "unit access_config" where
  "sample_access_config = \<lparr>Sources = [(''friends'', ())],
     Rules = [\<lparr>RuleBuilds = [''beta''], Source = ''friends'', Visibility = ''hidden'', Message = []\<rparr>], PublicObjects = False\<rparr>"

definition sample_player :: "string \<Rightarrow> subject" where
  "sample_player n = \<lparr>SubjectId = n, Username = n, UUID = []\<rparr>"

lemma Decide_fails_closed_witness:
  "\<not> Allowed (fst (Decide sample_access (Some \<lparr>rules = [build_rule sample_access
      [(''friends'', \<lambda>b s w. ((True, Some ''down''), w))] (hd (Rules sample_access_config))], publicObjects = False\<rparr>)
      ''beta'' (sample_player ''amy'') ()))"
proof -
  have lower: "to_lower u ''hidden'' = ''hidden''" for u
    by (simp add: to_lower_def is_ascii_def ascii_lower_def)
  have trim: "trim_space ''beta'' = ''beta''" by (rule trim_space_id) (simp add: solid_def)
  have new: "New sample_access (\<lambda>_. Inr (\<lambda>b s w. ((True, Some ''down''), w))) (Some sample_access_config) =
      Inr (Some \<lparr>rules = [build_rule sample_access
        [(''friends'', \<lambda>b s w. ((True, Some ''down''), w))] (hd (Rules sample_access_config))], publicObjects = False\<rparr>)"
    by (simp add: New_def sample_access_config_def ValidateRules_def rule_fault_def pattern_fault_def sample_access_def lower trim)
  show ?thesis using Decide_fails_closed[OF new, of "''beta''" "sample_player ''amy''" "()"]
    by (auto simp: sample_access_config_def rule_applies_def sample_access_def)
qed

text \<open>
  A fetch error lets a player in when the source is configured to fail open, but a request whose
  own context ends first is refused all the same: the source answers yes together with an error, and
  \<open>Decide\<close> closes the build on any error.
\<close>

theorem fail_open_lost_on_cancel:
  assumes "matches E r build" "\<not> Anonymous s" "failOpen h" "ready e" "eerr e \<noteq> None"
    and "allows r = (\<lambda>b s c. (http_answer E h b s c e, c))"
  shows "Allowed (fst (decide_rules E (r # rs) build s None)) \<and> \<not> Allowed (fst (decide_rules E (r # rs) build s (Some err)))"
  using assms by (auto simp: http_answer_def allow_def)

lemma fail_open_lost_on_cancel_witness:
  "\<not> Allowed (fst (decide_rules sample_access [\<lparr>patterns = [''beta''], rule_source = ''web'',
     allows = (\<lambda>b s c. (http_answer sample_access \<lparr>check = True, ttl = 5, failOpen = True\<rparr> b s c
       (empty_entry\<lparr>ready := True, eerr := Some ''down''\<rparr>), c)), hidden = False, message = []\<rparr>] ''beta'' (sample_player ''amy'')
     (Some ''cancelled'')))"
  using fail_open_lost_on_cancel[of sample_access "\<lparr>patterns = [''beta''], rule_source = ''web'',
     allows = (\<lambda>b s c. (http_answer sample_access \<lparr>check = True, ttl = 5, failOpen = True\<rparr> b s c
       (empty_entry\<lparr>ready := True, eerr := Some ''down''\<rparr>), c)), hidden = False, message = []\<rparr>" "''beta''" "sample_player ''amy''"
     "\<lparr>check = True, ttl = 5, failOpen = True\<rparr>" "empty_entry\<lparr>ready := True, eerr := Some ''down''\<rparr>" "[]" "''cancelled''"]
  by (simp add: matches_def sample_access_def sample_player_def Anonymous_def)

text \<open>
  After a roster file is replaced by one that does not parse, the source refuses the first check
  with an error and answers the next ones, for two seconds, from the old roster: the same file state
  gives both answers.
\<close>

theorem broken_roster_flaps:
  assumes "cached f = Some r" "now - checked f \<ge> fileStatInterval" "file_stat v = Stat mtime len"
    and "itoa mtime @ '':'' @ itoa len \<noteq> stamp f" "file_data v = Inr data" "ParseRoster E data = None"
    and "0 \<le> later" "later < fileStatInterval"
  shows "fst (file_allows E now v build s f) = Inl LoadParse \<and>
    fst (file_allows E (now + later) v build s (snd (file_allows E now v build s f))) = Inr (Contains E (Some r) build s)"
  using assms by (simp add: file_allows_def load_def Let_def)

lemma broken_roster_flaps_witness:
  "let f = \<lparr>cached = Some \<lparr>global = [''amy''], perBuild = []\<rparr>, stamp = [], checked = 0\<rparr>;
       v = \<lparr>file_stat = Stat 7 1, file_data = Inr ''{''\<rparr>
   in fst (file_allows sample_access (3 * second) v ''beta'' (sample_player ''amy'') f) = Inl LoadParse"
proof -
  have trim: "trim_space ''{'' = ''{''" by (rule trim_space_id) (simp add: solid_def)
  show ?thesis
    using broken_roster_flaps[of "\<lparr>cached = Some \<lparr>global = [''amy''], perBuild = []\<rparr>, stamp = [], checked = 0\<rparr>"
        "\<lparr>global = [''amy''], perBuild = []\<rparr>" "3 * second" "\<lparr>file_stat = Stat 7 1, file_data = Inr ''{''\<rparr>" 7 1 "''{''" sample_access 0
        "''beta''" "sample_player ''amy''"]
    by (simp add: fileStatInterval_def second_def ParseRoster_def trim sample_access_def)
qed

text \<open>
  A roster does not tell apart names that differ in dashes: a list with the one name \<open>amy\<close>
  admits the player \<open>a-my\<close>, who is another account.
\<close>

theorem roster_ignores_dashes:
  "Contains E (ParseRoster E ''amy'') build \<lparr>SubjectId = ''a-my'', Username = ''a-my'', UUID = []\<rparr>"
proof -
  have trim: "trim_space ''amy'' = ''amy''" "trim_space ''a-my'' = ''a-my''"
    by (rule trim_space_id, simp add: solid_def)+
  have "to_lower u ''amy'' = ''amy''" for u by (simp add: to_lower_def is_ascii_def ascii_lower_def)
  then show ?thesis
    by (simp add: ParseRoster_def trim parseRosterLines_def scan_lines_def drop_cr_def before_hash_def
        normalizeMember_def Contains_def)
qed

end
