(* ===== verification/HwidMatch.thy ===== *)
theory HwidMatch
  imports Prelude "HOL-Library.Product_Lexorder" "HOL-Library.Multiset"
begin

text \<open>
  \<open>internal/hwid\<close>, first part: the data of the machine recognition (\<open>hwid.go\<close>) and the matching of
  a report against the known machines (\<open>match.go\<close>). Enumerations of the wire protocol are open
  32-bit integers, named by the constants of \<open>machine.proto\<close>. The scoring loop is shown equal to a
  closed form that does not mention an order; \<open>Resolve\<close> is described by the candidates it ranks.
\<close>

section \<open>Data\<close>

type_synonym signal_kind = int
type_synonym ban_scope = int
type_synonym collector_flag = int

definition PLATFORM_KEY :: signal_kind where "PLATFORM_KEY = 1"
definition SMBIOS_UUID :: signal_kind where "SMBIOS_UUID = 2"
definition BOARD_SERIAL :: signal_kind where "BOARD_SERIAL = 3"
definition PLATFORM_UUID :: signal_kind where "PLATFORM_UUID = 4"
definition PLATFORM_SERIAL :: signal_kind where "PLATFORM_SERIAL = 5"
definition MACHINE_ID :: signal_kind where "MACHINE_ID = 6"
definition DISK_SERIAL :: signal_kind where "DISK_SERIAL = 7"
definition OS_INSTALL_ID :: signal_kind where "OS_INSTALL_ID = 8"
definition MAC_ADDRESS :: signal_kind where "MAC_ADDRESS = 9"
definition VOLUME_ID :: signal_kind where "VOLUME_ID = 10"
definition GPU :: signal_kind where "GPU = 11"
definition CPU :: signal_kind where "CPU = 12"
definition MEMORY_SIZE :: signal_kind where "MEMORY_SIZE = 13"
definition HOSTNAME :: signal_kind where "HOSTNAME = 14"

lemmas kind_defs = PLATFORM_KEY_def SMBIOS_UUID_def BOARD_SERIAL_def PLATFORM_UUID_def
  PLATFORM_SERIAL_def MACHINE_ID_def DISK_SERIAL_def OS_INSTALL_ID_def MAC_ADDRESS_def
  VOLUME_ID_def GPU_def CPU_def MEMORY_SIZE_def HOSTNAME_def

definition SCOPE_UNSPECIFIED :: ban_scope where "SCOPE_UNSPECIFIED = 0"
definition SCOPE_ACCOUNT :: ban_scope where "SCOPE_ACCOUNT = 1"
definition SCOPE_MACHINE :: ban_scope where "SCOPE_MACHINE = 2"
definition SCOPE_CLUSTER :: ban_scope where "SCOPE_CLUSTER = 3"

lemmas scope_defs = SCOPE_UNSPECIFIED_def SCOPE_ACCOUNT_def SCOPE_MACHINE_def SCOPE_CLUSTER_def

definition FLAG_UNSPECIFIED :: collector_flag where "FLAG_UNSPECIFIED = 0"
definition FLAG_VIRTUAL_MACHINE :: collector_flag where "FLAG_VIRTUAL_MACHINE = 1"
definition FLAG_PLATFORM_KEY_FALLBACK :: collector_flag where "FLAG_PLATFORM_KEY_FALLBACK = 3"

record signal =
  Kind :: signal_kind
  Digest :: string
  Confidence :: nat

record machine =
  ID :: string
  ClusterID :: string
  Platform :: string
  Flags :: "string list"
  Trusted :: bool
  FirstSeen :: instant
  LastSeen :: instant
  LastIP :: string

text \<open>The zero time is the value of \<open>ExpiresAt\<close> of a ban without an end.\<close>

record ban =
  Reference :: string
  Scope :: ban_scope
  Target :: string
  Reason :: string
  By :: string
  CreatedAt :: instant
  ExpiresAt :: instant
  Lifted :: bool

definition Active :: "ban \<Rightarrow> instant \<Rightarrow> bool" where
  "Active b now \<longleftrightarrow> \<not> Lifted b \<and> (ExpiresAt b = zero_time \<or> now < ExpiresAt b)"

record account =
  Subject :: string
  Username :: string
  SeenAt :: instant

definition hasFlag :: "collector_flag list \<Rightarrow> collector_flag \<Rightarrow> bool" where
  "hasFlag flags want = list_ex (\<lambda>f. f = want) flags"

text \<open>The names of the flags come from generated code: a parameter.\<close>

definition flagNames :: "(collector_flag \<Rightarrow> string) \<Rightarrow> collector_flag list \<Rightarrow> string list" where
  "flagNames flag_name flags = map flag_name (filter (\<lambda>f. f \<noteq> FLAG_UNSPECIFIED) flags)"

section \<open>Configuration\<close>

record hwid_config =
  Mode :: string
  Backend :: string
  RequireReport :: bool
  RequireChallenge :: "bool option"
  RequireLauncher :: bool
  RequireHardwareKey :: bool
  MinScore :: int
  MinKinds :: int
  ClusterScore :: int
  FanOutLimit :: int
  MaxClusterSize :: int
  VMPolicy :: string
  HardwareBanTTL :: nanos
  TicketTTL :: nanos
  ChallengeTTL :: nanos
  Retention :: nanos
  IPRetention :: nanos

definition ModeOff :: string where "ModeOff = ''off''"
definition ModeObserve :: string where "ModeObserve = ''observe''"
definition ModeEnforce :: string where "ModeEnforce = ''enforce''"

definition or_int :: "int \<Rightarrow> int \<Rightarrow> int" where
  "or_int v d = (if v = 0 then d else v)"

definition or_string :: "string \<Rightarrow> string \<Rightarrow> string" where
  "or_string v d = (if v = [] then d else v)"

definition withDefaults :: "hwid_config \<Rightarrow> hwid_config" where
  "withDefaults c =
     (let mode = or_string (Mode c) ModeObserve in
      c \<lparr>Mode := mode,
         Backend := or_string (Backend c) ''memory'',
         MinScore := or_int (MinScore c) 45,
         MinKinds := or_int (MinKinds c) 2,
         ClusterScore := or_int (ClusterScore c) 25,
         FanOutLimit := or_int (FanOutLimit c) 25,
         MaxClusterSize := or_int (MaxClusterSize c) 8,
         VMPolicy := or_string (VMPolicy c) ''flag'',
         HardwareBanTTL := or_int (HardwareBanTTL c) (90 * 24 * hour),
         TicketTTL := or_int (TicketTTL c) (10 * minute),
         ChallengeTTL := or_int (ChallengeTTL c) (2 * minute),
         Retention := or_int (Retention c) (180 * 24 * hour),
         IPRetention := or_int (IPRetention c) (30 * 24 * hour),
         RequireChallenge := (case RequireChallenge c of None \<Rightarrow> Some (mode = ModeEnforce) | Some b \<Rightarrow> Some b)\<rparr>)"

datatype config_error = BadMode string | BadVMPolicy string | ScoresSwapped int int

definition validate_config :: "hwid_config \<Rightarrow> config_error option" where
  "validate_config c =
     (if Mode c \<notin> {ModeOff, ModeObserve, ModeEnforce} then Some (BadMode (Mode c))
      else if VMPolicy c \<notin> {''allow'', ''flag'', ''deny''} then Some (BadVMPolicy (VMPolicy c))
      else if MinScore c < ClusterScore c then Some (ScoresSwapped (MinScore c) (ClusterScore c))
      else None)"

section \<open>Scores\<close>

definition weightAnchor :: int where "weightAnchor = 40"
definition weightStrong :: int where "weightStrong = 15"
definition weightWeak :: int where "weightWeak = 5"

definition anchorWeight :: "bool \<Rightarrow> int" where
  "anchorWeight virtual = (if virtual then weightAnchor div 2 else weightAnchor)"

definition weightOf :: "signal_kind \<Rightarrow> bool \<Rightarrow> bool \<Rightarrow> int" where
  "weightOf kind virtual keyFallback =
     (if kind = PLATFORM_KEY then (if keyFallback then weightStrong else anchorWeight virtual)
      else if kind = SMBIOS_UUID \<or> kind = PLATFORM_UUID then anchorWeight virtual
      else if kind \<in> {BOARD_SERIAL, DISK_SERIAL, MACHINE_ID, PLATFORM_SERIAL, OS_INSTALL_ID} then weightStrong
      else if kind \<in> {MAC_ADDRESS, VOLUME_ID, GPU, CPU, MEMORY_SIZE, HOSTNAME} then weightWeak
      else 0)"

definition countCap :: "signal_kind \<Rightarrow> nat" where
  "countCap kind = (if kind = DISK_SERIAL \<or> kind = MAC_ADDRESS then 2 else 1)"

record candidate =
  Machine :: machine
  Matched :: "signal list"

text \<open>The state of the loop in \<open>score\<close>: the uses of each kind, the total, the kinds counted.\<close>

record score_state =
  uses :: "signal_kind \<Rightarrow> nat"
  total :: int
  kinds :: "signal_kind list"

definition score_one :: "(string \<Rightarrow> int) \<Rightarrow> int \<Rightarrow> bool \<Rightarrow> bool \<Rightarrow> signal \<Rightarrow> score_state \<Rightarrow> score_state" where
  "score_one fanOut limit virtual keyFallback sig st =
     (if limit > 0 \<and> fanOut (Digest sig) > limit then st
      else let weight = weightOf (Kind sig) virtual keyFallback in
        if weight = 0 then st
        else if uses st (Kind sig) \<ge> countCap (Kind sig) then st
        else \<lparr>uses = (uses st)(Kind sig := uses st (Kind sig) + 1), total = total st + weight,
              kinds = List.insert (Kind sig) (kinds st)\<rparr>)"

definition score ::
    "candidate \<Rightarrow> (string \<Rightarrow> int) \<Rightarrow> int \<Rightarrow> bool \<Rightarrow> bool \<Rightarrow> int \<times> int" where
  "score c fanOut limit virtual keyFallback =
     (let matched = sort_key (\<lambda>s. - weightOf (Kind s) virtual keyFallback) (Matched c);
          st = fold (score_one fanOut limit virtual keyFallback) matched \<lparr>uses = (\<lambda>_. 0), total = 0, kinds = []\<rparr>
      in (total st, int (length (kinds st))))"

section \<open>Resolution\<close>

record resolution =
  MachineID :: string
  ResCluster :: string
  Score :: int
  Kinds :: int
  SameMachine :: bool
  SameCluster :: bool
  MergeClusters :: "string list"

definition no_resolution :: resolution where
  "no_resolution = \<lparr>MachineID = [], ResCluster = [], Score = 0, Kinds = 0, SameMachine = False,
     SameCluster = False, MergeClusters = []\<rparr>"

type_synonym scored = "candidate \<times> int \<times> int"

text \<open>The comparison of the stable sort: higher score first, then the machine seen first.\<close>

definition rank :: "scored \<Rightarrow> int \<times> instant" where
  "rank e = (- fst (snd e), FirstSeen (Machine (fst e)))"

fun merge_loop :: "int \<Rightarrow> string list \<Rightarrow> scored list \<Rightarrow> string list" where
  "merge_loop least seen [] = []"
| "merge_loop least seen (e # es) =
     (if fst (snd e) < least then []
      else let cluster = ClusterID (Machine (fst e)) in
        if cluster \<in> set seen then merge_loop least seen es
        else cluster # merge_loop least (cluster # seen) es)"

definition ranking ::
    "candidate list \<Rightarrow> (string \<Rightarrow> int) \<Rightarrow> hwid_config \<Rightarrow> bool \<Rightarrow> bool \<Rightarrow> scored list" where
  "ranking candidates fanOut cfg virtual keyFallback =
     sort_key rank (filter (\<lambda>e. fst (snd e) \<noteq> 0)
       (map (\<lambda>c. (c, score c fanOut (FanOutLimit cfg) virtual keyFallback)) candidates))"

definition Resolve ::
    "candidate list \<Rightarrow> (string \<Rightarrow> int) \<Rightarrow> hwid_config \<Rightarrow> bool \<Rightarrow> bool \<Rightarrow> resolution" where
  "Resolve candidates fanOut cfg virtual keyFallback =
     (case ranking candidates fanOut cfg virtual keyFallback of
        [] \<Rightarrow> no_resolution
      | (best, sc, ks) # rest \<Rightarrow>
          let found = no_resolution \<lparr>Score := sc, Kinds := ks\<rparr>;
              merges = merge_loop (ClusterScore cfg) [ClusterID (Machine best)] rest
          in if sc \<ge> MinScore cfg \<and> ks \<ge> MinKinds cfg then
               found \<lparr>SameMachine := True, MachineID := ID (Machine best),
                      ResCluster := ClusterID (Machine best), MergeClusters := merges\<rparr>
             else if sc \<ge> ClusterScore cfg then
               found \<lparr>SameCluster := True, ResCluster := ClusterID (Machine best), MergeClusters := merges\<rparr>
             else found)"

section \<open>The score does not depend on the order\<close>

text \<open>
  What the score means: each kind contributes its weight once per matched signal that is not shared
  by too many machines, up to the cap of the kind.
\<close>

definition eligible :: "(string \<Rightarrow> int) \<Rightarrow> int \<Rightarrow> bool \<Rightarrow> bool \<Rightarrow> signal \<Rightarrow> bool" where
  "eligible fanOut limit virtual keyFallback s \<longleftrightarrow>
     \<not> (limit > 0 \<and> fanOut (Digest s) > limit) \<and> weightOf (Kind s) virtual keyFallback \<noteq> 0"

definition tally :: "(signal \<Rightarrow> bool) \<Rightarrow> signal list \<Rightarrow> signal_kind \<Rightarrow> nat" where
  "tally P xs k = length (filter (\<lambda>s. P s \<and> Kind s = k) xs)"

definition score_spec ::
    "candidate \<Rightarrow> (string \<Rightarrow> int) \<Rightarrow> int \<Rightarrow> bool \<Rightarrow> bool \<Rightarrow> int \<times> int" where
  "score_spec c fanOut limit virtual keyFallback =
     (let ok = eligible fanOut limit virtual keyFallback;
          K = Kind ` set (filter ok (Matched c))
      in (\<Sum>k\<in>K. weightOf k virtual keyFallback * int (min (countCap k) (tally ok (Matched c) k)), int (card K)))"

lemma countCap_pos: "0 < countCap k"
  by (simp add: countCap_def)

lemma weightOf_nonneg: "0 \<le> weightOf k virtual keyFallback"
  by (simp add: weightOf_def anchorWeight_def weightAnchor_def weightStrong_def weightWeak_def)

lemma tally_sort: "tally P (sort_key f xs) k = tally P xs k"
proof -
  have "mset (filter Q (sort_key f xs)) = mset (filter Q xs)" for Q
    by (metis mset_filter mset_sort)
  then show ?thesis unfolding tally_def by (metis size_mset)
qed

lemma tally_snoc: "tally P (xs @ [x]) k = tally P xs k + (if P x \<and> Kind x = k then 1 else 0)"
  by (simp add: tally_def)

lemma tally_pos: "0 < tally P xs k \<longleftrightarrow> k \<in> Kind ` set (filter P xs)"
  by (auto simp: tally_def filter_empty_conv)

definition score_inv ::
    "(signal \<Rightarrow> bool) \<Rightarrow> (signal_kind \<Rightarrow> int) \<Rightarrow> signal list \<Rightarrow> score_state \<Rightarrow> bool" where
  "score_inv P w xs st \<longleftrightarrow>
     uses st = (\<lambda>k. min (countCap k) (tally P xs k)) \<and> distinct (kinds st) \<and>
     set (kinds st) = Kind ` set (filter P xs) \<and>
     total st = (\<Sum>k\<in>set (kinds st). w k * int (uses st k))"

lemma sum_bump:
  fixes w :: "'a \<Rightarrow> int"
  assumes "finite A" "a \<notin> A \<Longrightarrow> f a = 0"
  shows "(\<Sum>k\<in>insert a A. w k * int ((f(a := f a + 1)) k)) = (\<Sum>k\<in>A. w k * int (f k)) + w a"
proof -
  have eq: "(\<Sum>k\<in>insert a A. w k * int ((f(a := f a + 1)) k)) =
      w a * int (f a + 1) + (\<Sum>k\<in>A - {a}. w k * int (f k))"
    using assms(1) by (subst sum.insert_remove) (auto intro!: sum.cong arg_cong2[where f = "(+)"])
  show ?thesis
  proof (cases "a \<in> A")
    case True
    then have "(\<Sum>k\<in>A. w k * int (f k)) = w a * int (f a) + (\<Sum>k\<in>A - {a}. w k * int (f k))"
      using assms(1) by (rule sum.remove[rotated])
    then show ?thesis unfolding eq by (simp add: algebra_simps)
  next
    case False
    then show ?thesis unfolding eq using assms by simp
  qed
qed

lemma score_one_inv:
  assumes inv: "score_inv (eligible fanOut limit v f) (\<lambda>k. weightOf k v f) xs st"
  shows "score_inv (eligible fanOut limit v f) (\<lambda>k. weightOf k v f) (xs @ [s]) (score_one fanOut limit v f s st)"
proof (cases "eligible fanOut limit v f s")
  case False
  then have "score_one fanOut limit v f s st = st"
    by (auto simp: score_one_def eligible_def Let_def)
  then show ?thesis using inv False by (simp add: score_inv_def tally_snoc)
next
  case el: True
  let ?P = "eligible fanOut limit v f" and ?k = "Kind s"
  have uses: "uses st = (\<lambda>k. min (countCap k) (tally ?P xs k))"
    and kinds: "distinct (kinds st)" "set (kinds st) = Kind ` set (filter ?P xs)"
    and total: "total st = (\<Sum>k\<in>set (kinds st). weightOf k v f * int (uses st k))"
    using inv by (simp_all add: score_inv_def)
  show ?thesis
  proof (cases "uses st ?k \<ge> countCap ?k")
    case True
    then have same: "score_one fanOut limit v f s st = st" using el
      by (auto simp: score_one_def eligible_def Let_def)
    have big: "countCap ?k \<le> tally ?P xs ?k" using True by (simp add: uses)
    then have "?k \<in> set (kinds st)" using countCap_pos[of ?k] kinds(2) tally_pos[of ?P xs ?k] by auto
    then have "set (kinds st) = Kind ` set (filter ?P (xs @ [s]))" using kinds(2) el by auto
    moreover have "uses st = (\<lambda>k. min (countCap k) (tally ?P (xs @ [s]) k))"
      using big by (auto simp: uses tally_snoc fun_eq_iff)
    ultimately show ?thesis using same kinds(1) total by (simp add: score_inv_def)
  next
    case False
    let ?st = "score_one fanOut limit v f s st"
    have step: "uses ?st = (uses st)(?k := uses st ?k + 1)" "total ?st = total st + weightOf ?k v f"
      "kinds ?st = List.insert ?k (kinds st)"
      using False el by (auto simp: score_one_def eligible_def Let_def)
    have small: "tally ?P xs ?k < countCap ?k" using False by (simp add: uses)
    have zero: "?k \<notin> set (kinds st) \<Longrightarrow> uses st ?k = 0"
      using kinds(2) tally_pos[of ?P xs ?k] by (simp add: uses)
    have "uses ?st = (\<lambda>k. min (countCap k) (tally ?P (xs @ [s]) k))"
      using el small unfolding step uses by (auto simp: tally_snoc fun_eq_iff)
    moreover have "set (kinds ?st) = Kind ` set (filter ?P (xs @ [s]))"
      using kinds(2) el by (simp add: step)
    moreover have "total ?st = (\<Sum>k\<in>set (kinds ?st). weightOf k v f * int (uses ?st k))"
      using sum_bump[of "set (kinds st)" ?k "uses st" "\<lambda>k. weightOf k v f"] zero
      by (simp add: step total)
    ultimately show ?thesis using kinds(1) by (simp add: score_inv_def step)
  qed
qed

lemma score_fold_inv:
  "score_inv (eligible fanOut limit v f) (\<lambda>k. weightOf k v f) xs
     (fold (score_one fanOut limit v f) xs \<lparr>uses = (\<lambda>_. 0), total = 0, kinds = []\<rparr>)"
proof (induction xs rule: rev_induct)
  case Nil
  then show ?case by (simp add: score_inv_def tally_def)
next
  case (snoc x xs)
  then show ?case using score_one_inv by simp
qed

lemma score_closed: "score c fanOut limit v f = score_spec c fanOut limit v f"
proof -
  let ?P = "eligible fanOut limit v f"
  let ?xs = "sort_key (\<lambda>s. - weightOf (Kind s) v f) (Matched c)"
  have "set (filter ?P ?xs) = set (filter ?P (Matched c))" by simp
  then show ?thesis using score_fold_inv[of fanOut limit v f ?xs]
    by (simp add: score_def score_spec_def score_inv_def Let_def tally_sort distinct_card[symmetric])
qed

text \<open>
  The score of a candidate is the order-free sum over the kinds of its eligible matched signals:
  the weight of the kind times the number of its eligible signals, capped, and the number of those
  kinds. The sorting and the order in which the store lists the signals have no influence.
\<close>

theorem score_closed_form:
  "score c fanOut limit virtual keyFallback = score_spec c fanOut limit virtual keyFallback"
  by (rule score_closed)

lemma score_nonneg: "0 \<le> fst (score c fanOut limit v f)"
  by (simp add: score_closed score_spec_def Let_def sum_nonneg weightOf_nonneg)

section \<open>What the resolution picks\<close>

lemma merge_loop_set:
  assumes "sorted (map (\<lambda>e. - fst (snd e)) es)"
  shows "set (merge_loop least seen es) =
    (\<lambda>e. ClusterID (Machine (fst e))) ` {e \<in> set es. least \<le> fst (snd e)} - set seen"
  using assms
proof (induction es arbitrary: seen)
  case Nil
  then show ?case by simp
next
  case (Cons e es)
  show ?case
  proof (cases "fst (snd e) < least")
    case True
    then have "\<forall>x \<in> set es. fst (snd x) < least" using Cons.prems by force
    then have "{x \<in> set (e # es). least \<le> fst (snd x)} = {}" using True by auto
    then show ?thesis using True unfolding merge_loop.simps by (simp only: if_True list.set image_empty empty_Diff)
  next
    case False
    have "{x \<in> set (e # es). least \<le> fst (snd x)} = insert e {x \<in> set es. least \<le> fst (snd x)}"
      using False by auto
    then show ?thesis using False Cons.IH[of seen] Cons.IH[of "ClusterID (Machine (fst e)) # seen"] Cons.prems
      by (auto simp: Let_def)
  qed
qed

lemma merge_loop_distinct: "distinct (merge_loop least seen es) \<and> set (merge_loop least seen es) \<inter> set seen = {}"
  by (induction least seen es rule: merge_loop.induct) (auto simp: Let_def)

lemma sorted_rank: "sorted (map rank es) \<Longrightarrow> sorted (map (\<lambda>e. - fst (snd e)) es)"
  by (induction es) (auto simp: rank_def less_eq_prod_def)

lemma ranking_sorted: "sorted (map rank (ranking cs fanOut cfg v f))"
  by (simp add: ranking_def)

lemma ranking_set:
  "set (ranking cs fanOut cfg v f) =
     {(c, score c fanOut (FanOutLimit cfg) v f) |c. c \<in> set cs \<and> fst (score c fanOut (FanOutLimit cfg) v f) \<noteq> 0}"
  by (auto simp: ranking_def)

definition points :: "(string \<Rightarrow> int) \<Rightarrow> hwid_config \<Rightarrow> bool \<Rightarrow> bool \<Rightarrow> candidate \<Rightarrow> int" where
  "points fanOut cfg v f c = fst (score c fanOut (FanOutLimit cfg) v f)"

text \<open>The sound results over a list of candidates, given their points.\<close>

definition sound_resolution :: "candidate list \<Rightarrow> (candidate \<Rightarrow> int) \<Rightarrow> hwid_config \<Rightarrow> resolution \<Rightarrow> bool" where
  "sound_resolution cs p cfg r \<longleftrightarrow>
     (\<forall>c \<in> set cs. p c \<le> Score r) \<and>
     (if SameMachine r \<or> SameCluster r then
        (\<exists>best \<in> set cs. p best = Score r \<and> ResCluster r = ClusterID (Machine best) \<and>
           (if SameMachine r then MachineID r = ID (Machine best) \<and> MinScore cfg \<le> Score r \<and> MinKinds cfg \<le> Kinds r
            else MachineID r = [] \<and> ClusterScore cfg \<le> Score r)) \<and>
        distinct (MergeClusters r) \<and>
        set (MergeClusters r) = (\<lambda>c. ClusterID (Machine c)) ` {c \<in> set cs. p c \<noteq> 0 \<and> ClusterScore cfg \<le> p c} - {ResCluster r}
      else MachineID r = [] \<and> ResCluster r = [] \<and> MergeClusters r = [])"

lemma ranking_points:
  "set (ranking cs fanOut cfg v f) \<supseteq> {e} \<Longrightarrow> fst e \<in> set cs \<and> fst (snd e) = points fanOut cfg v f (fst e) \<and> fst (snd e) \<noteq> 0"
  by (auto simp: ranking_def points_def)

lemma ranking_image:
  "(\<lambda>e. ClusterID (Machine (fst e))) ` {e \<in> set (ranking cs fanOut cfg v f). least \<le> fst (snd e)} =
     (\<lambda>c. ClusterID (Machine c)) ` {c \<in> set cs. points fanOut cfg v f c \<noteq> 0 \<and> least \<le> points fanOut cfg v f c}"
  by (force simp: ranking_def points_def image_iff)

text \<open>
  C26: \<open>Resolve\<close> is sound for every list of candidates: no candidate scores higher than the result;
  when it recognises the machine or the cluster, that is the one of a best candidate, whose score
  (and kinds, for the machine) reach the configured thresholds; the clusters to merge are, each
  once, exactly the other clusters of the candidates with at least \<open>ClusterScore\<close>; and a result that
  recognises nothing names no machine, no cluster and no merge.
\<close>

theorem Resolve_sound:
  "sound_resolution cs (points fanOut cfg v f) cfg (Resolve cs fanOut cfg v f)"
proof (cases "ranking cs fanOut cfg v f")
  case Nil
  have "\<forall>c \<in> set cs. points fanOut cfg v f c = 0"
    using ranking_set[of cs fanOut cfg v f] unfolding Nil points_def by auto
  then show ?thesis by (simp add: Resolve_def Nil no_resolution_def sound_resolution_def)
next
  case (Cons e rest)
  let ?p = "points fanOut cfg v f"
  obtain best s ks where e: "e = (best, s, ks)" by (cases e)
  have best: "best \<in> set cs" "s = ?p best" using ranking_points[of e cs fanOut cfg v f] Cons by (auto simp: e)
  have sorted: "sorted (map (\<lambda>e. - fst (snd e)) (e # rest))"
    using sorted_rank[OF ranking_sorted[of cs fanOut cfg v f]] by (simp add: Cons)
  have top: "?p c \<le> s" if "c \<in> set cs" for c
  proof (cases "?p c = 0")
    case True
    then show ?thesis using score_nonneg by (simp add: best points_def)
  next
    case False
    then have "(c, score c fanOut (FanOutLimit cfg) v f) \<in> set (e # rest)"
      using that by (simp add: Cons[symmetric] ranking_set points_def)
    then show ?thesis using sorted by (force simp: e points_def)
  qed
  let ?m = "merge_loop (ClusterScore cfg) [ClusterID (Machine best)] rest"
  have "set ?m = (\<lambda>e. ClusterID (Machine (fst e))) ` {x \<in> set rest. ClusterScore cfg \<le> fst (snd x)} - {ClusterID (Machine best)}"
    using merge_loop_set[of rest] sorted by simp
  also have "\<dots> = (\<lambda>e. ClusterID (Machine (fst e))) ` {x \<in> set (e # rest). ClusterScore cfg \<le> fst (snd x)} - {ClusterID (Machine best)}"
    by (auto simp: e)
  finally have merges: "set ?m = (\<lambda>c. ClusterID (Machine c)) ` {c \<in> set cs. ?p c \<noteq> 0 \<and> ClusterScore cfg \<le> ?p c} - {ClusterID (Machine best)}"
    by (simp only: Cons[symmetric] ranking_image)
  show ?thesis using best top merges merge_loop_distinct
    by (auto simp: Resolve_def Cons e Let_def no_resolution_def sound_resolution_def)
qed

end
