(* ===== verification/HwidStore.thy ===== *)
theory HwidStore
  imports HwidMatch
begin

text \<open>
  \<open>internal/hwid\<close>, third part: the interface \<open>Store\<close> (\<open>store.go\<close>) as a record of operations, the
  memory store (\<open>memory.go\<close>) operation by operation, and the contract \<open>hwid_store\<close> that the gate
  relies on, discharged for the memory store. The SQL store fills the same record and is not
  modelled. The operations hold the store's lock throughout, so each is one atomic step.
\<close>

section \<open>The interface\<close>

type_synonym store_error = string
type_synonym 'a answer = "(store_error, 'a) result"

record 's store_ops =
  Candidates :: "string list \<Rightarrow> 's \<Rightarrow> candidate list answer"
  FanOut :: "string list \<Rightarrow> 's \<Rightarrow> (string \<Rightarrow> int) answer"
  SaveMachine :: "machine \<Rightarrow> signal list \<Rightarrow> 's \<Rightarrow> store_error option \<times> 's"
  GetMachine :: "string \<Rightarrow> 's \<Rightarrow> machine option answer"
  MachinesOfCluster :: "string \<Rightarrow> 's \<Rightarrow> machine list answer"
  MachinesOfSubject :: "string \<Rightarrow> 's \<Rightarrow> machine list answer"
  MoveCluster :: "string \<Rightarrow> string \<Rightarrow> 's \<Rightarrow> store_error option \<times> 's"
  SetTrusted :: "string \<Rightarrow> bool \<Rightarrow> 's \<Rightarrow> store_error option \<times> 's"
  SeeAccount :: "string \<Rightarrow> account \<Rightarrow> 's \<Rightarrow> store_error option \<times> 's"
  AccountsOfMachine :: "string \<Rightarrow> 's \<Rightarrow> account list answer"
  AccountsOfCluster :: "string \<Rightarrow> 's \<Rightarrow> account list answer"
  SubjectsOfUsername :: "string \<Rightarrow> 's \<Rightarrow> string list answer"
  SaveBan :: "ban \<Rightarrow> 's \<Rightarrow> store_error option \<times> 's"
  ActiveBans :: "string list \<Rightarrow> instant \<Rightarrow> 's \<Rightarrow> ban list answer"
  BanByReference :: "string \<Rightarrow> 's \<Rightarrow> ban option answer"
  ListBans :: "bool \<Rightarrow> instant \<Rightarrow> 's \<Rightarrow> ban list answer"
  LiftBan :: "string \<Rightarrow> 's \<Rightarrow> store_error option \<times> 's"
  PruneStore :: "instant \<Rightarrow> instant \<Rightarrow> 's \<Rightarrow> int answer \<times> 's"

section \<open>The memory store\<close>

record memory_store =
  machines :: "(string, machine) amap"
  signals :: "string \<Rightarrow> signal list"
  accounts :: "(string, (string, account) amap) amap"
  bans :: "(string, ban) amap"

definition NewMemoryStore :: memory_store where
  "NewMemoryStore = \<lparr>machines = [], signals = (\<lambda>_. []), accounts = [], bans = []\<rparr>"

definition memory_Candidates :: "string list \<Rightarrow> memory_store \<Rightarrow> candidate list" where
  "memory_Candidates digests s =
     sort_key (\<lambda>c. ID (Machine c))
       (concat (map (\<lambda>(mid, m).
          let matched = filter (\<lambda>sig. Digest sig \<in> set digests) (signals s mid)
          in if matched \<noteq> [] then [\<lparr>Machine = m, Matched = matched\<rparr>] else []) (machines s)))"

definition memory_FanOut :: "string list \<Rightarrow> memory_store \<Rightarrow> string \<Rightarrow> int" where
  "memory_FanOut digests s d =
     (if d \<in> set digests
      then int (length (filter (\<lambda>(mid, _). d \<in> Digest ` set (signals s mid)) (machines s))) else 0)"

text \<open>The key of \<open>signalKey\<close>, the name of the kind, a zero byte and the digest, as a pair.\<close>

definition merge_signals :: "signal list \<Rightarrow> signal list \<Rightarrow> signal list" where
  "merge_signals old new =
     (let known = fold (\<lambda>sig. store (Kind sig, Digest sig) sig) (old @ new) []
      in sort_key (\<lambda>sig. (Kind sig, Digest sig)) (map snd known))"

definition memory_SaveMachine :: "machine \<Rightarrow> signal list \<Rightarrow> memory_store \<Rightarrow> memory_store" where
  "memory_SaveMachine m sigs s =
     (let m = (case lookup (machines s) (ID m) of
                 None \<Rightarrow> m
               | Some old \<Rightarrow> m\<lparr>FirstSeen := FirstSeen old, Trusted := Trusted old\<rparr>)
      in s\<lparr>machines := store (ID m) m (machines s),
           signals := (signals s)(ID m := merge_signals (signals s (ID m)) sigs)\<rparr>)"

definition memory_MachinesOfCluster :: "string \<Rightarrow> memory_store \<Rightarrow> machine list" where
  "memory_MachinesOfCluster cluster s =
     sort_key FirstSeen (filter (\<lambda>m. ClusterID m = cluster) (map snd (machines s)))"

definition memory_MachinesOfSubject :: "string \<Rightarrow> memory_store \<Rightarrow> machine list" where
  "memory_MachinesOfSubject subject s =
     sort_key (\<lambda>m. - LastSeen m)
       (concat (map (\<lambda>(mid, acc). if lookup acc subject = None then []
                                 else (case lookup (machines s) mid of None \<Rightarrow> [] | Some m \<Rightarrow> [m])) (accounts s)))"

definition memory_SubjectsOfUsername :: "(string \<Rightarrow> string \<Rightarrow> bool) \<Rightarrow> string \<Rightarrow> memory_store \<Rightarrow> string list" where
  "memory_SubjectsOfUsername equal_fold username s =
     sort (remdups (concat (map (\<lambda>(_, acc).
       map (\<lambda>(_, a). Subject a) (filter (\<lambda>(_, a). equal_fold (Username a) username) acc)) (accounts s))))"

definition memory_MoveCluster :: "string \<Rightarrow> string \<Rightarrow> memory_store \<Rightarrow> memory_store" where
  "memory_MoveCluster src dst s =
     s\<lparr>machines := map_vals (\<lambda>_ m. if ClusterID m = src then m\<lparr>ClusterID := dst\<rparr> else m) (machines s)\<rparr>"

definition memory_SetTrusted :: "string \<Rightarrow> bool \<Rightarrow> memory_store \<Rightarrow> memory_store" where
  "memory_SetTrusted mid t s =
     (case lookup (machines s) mid of
        None \<Rightarrow> s
      | Some m \<Rightarrow> s\<lparr>machines := store mid (m\<lparr>Trusted := t\<rparr>) (machines s)\<rparr>)"

definition memory_SeeAccount :: "string \<Rightarrow> account \<Rightarrow> memory_store \<Rightarrow> memory_store" where
  "memory_SeeAccount mid a s =
     (let acc = (case lookup (accounts s) mid of None \<Rightarrow> [] | Some acc \<Rightarrow> acc)
      in s\<lparr>accounts := store mid (store (Subject a) a acc) (accounts s)\<rparr>)"

definition sortedAccounts :: "(string, account) amap \<Rightarrow> account list" where
  "sortedAccounts acc = sort_key (\<lambda>a. - SeenAt a) (map snd acc)"

definition memory_AccountsOfMachine :: "string \<Rightarrow> memory_store \<Rightarrow> account list" where
  "memory_AccountsOfMachine mid s =
     sortedAccounts (case lookup (accounts s) mid of None \<Rightarrow> [] | Some acc \<Rightarrow> acc)"

definition newest :: "(string \<times> account) \<Rightarrow> (string, account) amap \<Rightarrow> (string, account) amap" where
  "newest e merged =
     (case lookup merged (fst e) of
        None \<Rightarrow> store (fst e) (snd e) merged
      | Some old \<Rightarrow> if SeenAt (snd e) > SeenAt old then store (fst e) (snd e) merged else merged)"

definition memory_AccountsOfCluster :: "string \<Rightarrow> memory_store \<Rightarrow> account list" where
  "memory_AccountsOfCluster cluster s =
     sortedAccounts (fold newest
       (concat (map (\<lambda>(mid, m). if ClusterID m \<noteq> cluster then []
          else (case lookup (accounts s) mid of None \<Rightarrow> [] | Some acc \<Rightarrow> acc)) (machines s))) [])"

definition memory_SaveBan :: "ban \<Rightarrow> memory_store \<Rightarrow> memory_store" where
  "memory_SaveBan b s = s\<lparr>bans := store (Reference b) b (bans s)\<rparr>"

definition memory_ActiveBans :: "string list \<Rightarrow> instant \<Rightarrow> memory_store \<Rightarrow> ban list" where
  "memory_ActiveBans targets now s =
     sort_key Scope (filter (\<lambda>b. Target b \<in> set targets \<and> Active b now) (map snd (bans s)))"

definition memory_ListBans :: "bool \<Rightarrow> instant \<Rightarrow> memory_store \<Rightarrow> ban list" where
  "memory_ListBans includeInactive now s =
     sort_key (\<lambda>b. - CreatedAt b) (filter (\<lambda>b. includeInactive \<or> Active b now) (map snd (bans s)))"

definition memory_LiftBan :: "string \<Rightarrow> memory_store \<Rightarrow> memory_store" where
  "memory_LiftBan reference s =
     (case lookup (bans s) reference of
        None \<Rightarrow> s
      | Some b \<Rightarrow> s\<lparr>bans := store reference (b\<lparr>Lifted := True\<rparr>) (bans s)\<rparr>)"

definition memory_Prune :: "instant \<Rightarrow> instant \<Rightarrow> memory_store \<Rightarrow> int \<times> memory_store" where
  "memory_Prune idleBefore ipBefore s =
     (let idle = (\<lambda>m. LastSeen m < idleBefore);
          gone = set (map fst (filter (\<lambda>(_, m). idle m) (machines s)))
      in (int (length (filter (\<lambda>(_, m). idle m) (machines s))),
          s\<lparr>machines := map_vals (\<lambda>_ m. if LastIP m \<noteq> [] \<and> LastSeen m < ipBefore then m\<lparr>LastIP := []\<rparr> else m)
                         (keep_if (\<lambda>_ m. \<not> idle m) (machines s)),
            signals := (\<lambda>mid. if mid \<in> gone then [] else signals s mid),
            accounts := keep_if (\<lambda>mid _. mid \<notin> gone) (accounts s)\<rparr>))"

definition memory_ops :: "(string \<Rightarrow> string \<Rightarrow> bool) \<Rightarrow> memory_store store_ops" where
  "memory_ops equal_fold = \<lparr>
     Candidates = (\<lambda>ds s. Inr (memory_Candidates ds s)),
     FanOut = (\<lambda>ds s. Inr (memory_FanOut ds s)),
     SaveMachine = (\<lambda>m sigs s. (None, memory_SaveMachine m sigs s)),
     GetMachine = (\<lambda>mid s. Inr (lookup (machines s) mid)),
     MachinesOfCluster = (\<lambda>c s. Inr (memory_MachinesOfCluster c s)),
     MachinesOfSubject = (\<lambda>u s. Inr (memory_MachinesOfSubject u s)),
     MoveCluster = (\<lambda>src dst s. (None, memory_MoveCluster src dst s)),
     SetTrusted = (\<lambda>mid t s. (None, memory_SetTrusted mid t s)),
     SeeAccount = (\<lambda>mid a s. (None, memory_SeeAccount mid a s)),
     AccountsOfMachine = (\<lambda>mid s. Inr (memory_AccountsOfMachine mid s)),
     AccountsOfCluster = (\<lambda>c s. Inr (memory_AccountsOfCluster c s)),
     SubjectsOfUsername = (\<lambda>u s. Inr (memory_SubjectsOfUsername equal_fold u s)),
     SaveBan = (\<lambda>b s. (None, memory_SaveBan b s)),
     ActiveBans = (\<lambda>ts now s. Inr (memory_ActiveBans ts now s)),
     BanByReference = (\<lambda>r s. Inr (lookup (bans s) r)),
     ListBans = (\<lambda>i now s. Inr (memory_ListBans i now s)),
     LiftBan = (\<lambda>r s. (None, memory_LiftBan r s)),
     PruneStore = (\<lambda>i p s. (let (n, s) = memory_Prune i p s in (Inr n, s)))\<rparr>"

lemma memory_ops_simps:
  "Candidates (memory_ops ef) ds s = Inr (memory_Candidates ds s)"
  "FanOut (memory_ops ef) ds s = Inr (memory_FanOut ds s)"
  "SaveMachine (memory_ops ef) m sigs s = (None, memory_SaveMachine m sigs s)"
  "MachinesOfCluster (memory_ops ef) c s = Inr (memory_MachinesOfCluster c s)"
  "MachinesOfSubject (memory_ops ef) u s = Inr (memory_MachinesOfSubject u s)"
  "MoveCluster (memory_ops ef) src dst s = (None, memory_MoveCluster src dst s)"
  "SeeAccount (memory_ops ef) i a s = (None, memory_SeeAccount i a s)"
  "ActiveBans (memory_ops ef) ts now s = Inr (memory_ActiveBans ts now s)"
  by (simp_all add: memory_ops_def)

section \<open>The invariant of the memory store\<close>

text \<open>Keys are distinct, machines and bans are filed under their own mid.\<close>

definition memory_ok :: "memory_store \<Rightarrow> bool" where
  "memory_ok s \<longleftrightarrow> keys_ok (machines s) \<and> keys_ok (accounts s) \<and> keys_ok (bans s) \<and>
     list_all (\<lambda>(mid, m). ID m = mid) (machines s) \<and> list_all (\<lambda>(mid, b). Reference b = mid) (bans s)"

lemma list_all_store: "list_all P m \<Longrightarrow> P (k, v) \<Longrightarrow> list_all P (store k v m)"
  by (induction m) auto

lemma list_all_keep_if: "list_all P m \<Longrightarrow> list_all P (keep_if Q m)"
  by (auto simp: keep_if_def list_all_iff)

lemma list_all_map_vals: "list_all P m \<Longrightarrow> (\<And>k v. P (k, v) \<Longrightarrow> P (k, f k v)) \<Longrightarrow> list_all P (map_vals f m)"
  by (auto simp: map_vals_def list_all_iff)

lemma memory_ok_new: "memory_ok NewMemoryStore"
  by (simp add: memory_ok_def NewMemoryStore_def)

lemma lookup_filed: "list_all (\<lambda>(mid, m). f m = mid) ms \<Longrightarrow> lookup ms k = Some m \<Longrightarrow> f m = k"
  by (auto simp: list_all_iff dest: map_of_SomeD)

lemma memory_ok_SaveMachine [inv_intros]: "memory_ok s \<Longrightarrow> memory_ok (memory_SaveMachine m sigs s)"
  by (auto simp: memory_ok_def memory_SaveMachine_def Let_def list_all_store split: option.splits)

lemma memory_ok_MoveCluster [inv_intros]: "memory_ok s \<Longrightarrow> memory_ok (memory_MoveCluster a b s)"
  by (auto simp: memory_ok_def memory_MoveCluster_def intro!: list_all_map_vals)

lemma memory_ok_SetTrusted [inv_intros]: "memory_ok s \<Longrightarrow> memory_ok (memory_SetTrusted i t s)"
  by (auto simp: memory_ok_def memory_SetTrusted_def intro!: list_all_store split: option.splits dest: lookup_filed)

lemma memory_ok_SeeAccount [inv_intros]: "memory_ok s \<Longrightarrow> memory_ok (memory_SeeAccount i a s)"
  by (auto simp: memory_ok_def memory_SeeAccount_def Let_def)

lemma memory_ok_SaveBan [inv_intros]: "memory_ok s \<Longrightarrow> memory_ok (memory_SaveBan b s)"
  by (auto simp: memory_ok_def memory_SaveBan_def list_all_store)

lemma memory_ok_LiftBan [inv_intros]: "memory_ok s \<Longrightarrow> memory_ok (memory_LiftBan r s)"
  by (auto simp: memory_ok_def memory_LiftBan_def intro!: list_all_store split: option.splits dest: lookup_filed)

lemma memory_ok_Prune [inv_intros]: "memory_ok s \<Longrightarrow> memory_ok (snd (memory_Prune a b s))"
  by (auto simp: memory_ok_def memory_Prune_def Let_def list_all_keep_if intro!: list_all_map_vals)

section \<open>The contract of a store\<close>

text \<open>
  What the gate relies on: \<open>ban_of\<close>, \<open>mach\<close> and \<open>seen\<close> are the bans by reference, the machines by id
  and the accounts seen on each machine; an operation that answers with an error promises only what
  it leaves alone.
\<close>

locale hwid_store =
  fixes S :: "'s store_ops"
    and ok :: "'s \<Rightarrow> bool"
    and ban_of :: "'s \<Rightarrow> string \<Rightarrow> ban option"
    and mach :: "'s \<Rightarrow> string \<Rightarrow> machine option"
    and seen :: "'s \<Rightarrow> string \<Rightarrow> string \<Rightarrow> bool"
  assumes active_bans: "ok w \<Longrightarrow> ActiveBans S ts now w = Inr bs \<Longrightarrow>
      set bs = {b. \<exists>r. ban_of w r = Some b \<and> Target b \<in> set ts \<and> Active b now}"
    and of_subject: "ok w \<Longrightarrow> MachinesOfSubject S u w = Inr ms \<Longrightarrow>
      set ms = {m. \<exists>i. seen w i u \<and> mach w i = Some m}"
    and filed: "ok w \<Longrightarrow> mach w i = Some m \<Longrightarrow> ID m = i"
    and save_machine: "SaveMachine S m sigs w = (None, w') \<Longrightarrow>
      \<exists>m'. mach w' = (mach w)(ID m \<mapsto> m') \<and> ID m' = ID m \<and> ClusterID m' = ClusterID m"
    and save_machine_frame: "ban_of (snd (SaveMachine S m sigs w)) = ban_of w"
    and see_account: "SeeAccount S i a w = (None, w') \<Longrightarrow>
      seen w' = (\<lambda>j u. seen w j u \<or> j = i \<and> u = Subject a)"
    and see_account_frame: "ban_of (snd (SeeAccount S i a w)) = ban_of w" "mach (snd (SeeAccount S i a w)) = mach w"
    and move_cluster_frame: "ban_of (snd (MoveCluster S x y w)) = ban_of w"
    and set_trusted_frame: "ban_of (snd (SetTrusted S i t w)) = ban_of w"
    and save_ban: "SaveBan S b w = (None, w') \<Longrightarrow> ban_of w' (Reference b) = Some b"
    and save_ban_frame: "r \<noteq> Reference b \<Longrightarrow> ban_of (snd (SaveBan S b w)) r = ban_of w r"
      "seen (snd (SaveBan S b w)) = seen w" "mach (snd (SaveBan S b w)) = mach w"
    and lift_ban_frame: "r' \<noteq> r \<Longrightarrow> ban_of (snd (LiftBan S r' w)) r = ban_of w r"
    and prune_frame: "ban_of (snd (PruneStore S before p w)) = ban_of w"
    and ok_mutators: "ok w \<Longrightarrow> ok (snd (SaveMachine S m sigs w))" "ok w \<Longrightarrow> ok (snd (SeeAccount S i a w))"
      "ok w \<Longrightarrow> ok (snd (MoveCluster S x y w))" "ok w \<Longrightarrow> ok (snd (SetTrusted S i t w))"
      "ok w \<Longrightarrow> ok (snd (SaveBan S b w))" "ok w \<Longrightarrow> ok (snd (LiftBan S r w))"
      "ok w \<Longrightarrow> ok (snd (PruneStore S before p w))"

definition memory_seen :: "memory_store \<Rightarrow> string \<Rightarrow> string \<Rightarrow> bool" where
  "memory_seen s i u \<longleftrightarrow> (\<exists>acc. lookup (accounts s) i = Some acc \<and> lookup acc u \<noteq> None)"

lemma memory_seen_SeeAccount:
  "memory_seen (memory_SeeAccount i a s) = (\<lambda>j u. memory_seen s j u \<or> j = i \<and> u = Subject a)"
  by (auto simp: memory_seen_def memory_SeeAccount_def Let_def fun_eq_iff split: option.splits)

lemma set_values: "keys_ok m \<Longrightarrow> v \<in> set (map snd m) \<longleftrightarrow> (\<exists>k. lookup m k = Some v)"
  by (force simp: keys_ok_def)

lemma memory_ActiveBans_set:
  "memory_ok s \<Longrightarrow> set (memory_ActiveBans ts now s) =
     {b. \<exists>r. lookup (bans s) r = Some b \<and> Target b \<in> set ts \<and> Active b now}"
  using set_values[of "bans s"] by (auto simp: memory_ActiveBans_def memory_ok_def)

lemma memory_MachinesOfSubject_set:
  "memory_ok s \<Longrightarrow> set (memory_MachinesOfSubject u s) =
     {m. \<exists>i. memory_seen s i u \<and> lookup (machines s) i = Some m}"
  by (force simp: memory_MachinesOfSubject_def memory_seen_def memory_ok_def lookup_in_set
      split: option.splits if_splits)

lemma memory_machine_filed: "memory_ok s \<Longrightarrow> lookup (machines s) i = Some m \<Longrightarrow> ID m = i"
  by (auto simp: memory_ok_def intro: lookup_filed)

lemma memory_SaveMachine_machines:
  "\<exists>m'. lookup (machines (memory_SaveMachine m sigs s)) = (lookup (machines s))(ID m \<mapsto> m') \<and>
     ID m' = ID m \<and> ClusterID m' = ClusterID m"
  by (cases "lookup (machines s) (ID m)")
    (force simp: memory_SaveMachine_def Let_def fun_eq_iff)+

lemmas memory_frames = memory_SaveMachine_def memory_SeeAccount_def memory_MoveCluster_def
  memory_SetTrusted_def memory_SaveBan_def memory_LiftBan_def memory_Prune_def Let_def

interpretation mem: hwid_store "memory_ops equal_fold" memory_ok "\<lambda>s. lookup (bans s)" "\<lambda>s. lookup (machines s)" memory_seen
  for equal_fold
  by unfold_locales
    (auto simp: memory_ops_def memory_ActiveBans_set memory_MachinesOfSubject_set memory_machine_filed
      memory_SaveMachine_machines memory_seen_SeeAccount inv_intros case_prod_unfold Let_def,
     auto simp: memory_frames memory_seen_def fun_eq_iff split: option.splits)

end
