(* ===== verification/Base64.thy ===== *)
theory Base64
  imports GoStrings
begin

text \<open>
  \<open>base64.RawURLEncoding\<close> of the Go library, as the machine tickets use it: encoding to the URL
  alphabet without padding, decoding that skips line breaks, and the round trip between them.
\<close>

section \<open>The alphabet\<close>

definition alphabet :: string where
  "alphabet = ''ABCDEFGHIJKLMNOPQRSTUVWXYZabcdefghijklmnopqrstuvwxyz0123456789-_''"

definition sextet_char :: "nat \<Rightarrow> char" where
  "sextet_char n = alphabet ! n"

text \<open>The position of a character in the alphabet.\<close>

fun index_of :: "char \<Rightarrow> string \<Rightarrow> nat option" where
  "index_of c [] = None"
| "index_of c (d # s) = (if c = d then Some 0 else map_option Suc (index_of c s))"

definition char_sextet :: "char \<Rightarrow> nat option" where
  "char_sextet c = index_of c alphabet"

lemma index_of_nth: "distinct s \<Longrightarrow> n < length s \<Longrightarrow> index_of (s ! n) s = Some n"
  by (induction s arbitrary: n) (auto simp: nth_Cons split: nat.splits)

lemma alphabet_length: "length alphabet = 64"
  by (simp add: alphabet_def)

lemma alphabet_distinct: "distinct alphabet"
  by (simp add: alphabet_def)

lemma char_sextet_char [simp]: "n < 64 \<Longrightarrow> char_sextet (sextet_char n) = Some n"
  by (simp add: char_sextet_def sextet_char_def index_of_nth alphabet_distinct alphabet_length)

lemma sextet_char_in: "n < 64 \<Longrightarrow> sextet_char n \<in> set alphabet"
  by (simp add: sextet_char_def alphabet_length)

section \<open>Encoding and decoding\<close>

abbreviation code_of :: "char \<Rightarrow> nat" where "code_of c \<equiv> of_char c"

fun encode64 :: "string \<Rightarrow> string" where
  "encode64 [] = []"
| "encode64 [a] = [sextet_char (code_of a div 4), sextet_char (code_of a mod 4 * 16)]"
| "encode64 [a, b] =
     [sextet_char (code_of a div 4), sextet_char (code_of a mod 4 * 16 + code_of b div 16),
      sextet_char (code_of b mod 16 * 4)]"
| "encode64 (a # b # c # s) =
     sextet_char (code_of a div 4) # sextet_char (code_of a mod 4 * 16 + code_of b div 16) #
     sextet_char (code_of b mod 16 * 4 + code_of c div 64) # sextet_char (code_of c mod 64) # encode64 s"

text \<open>The bits that a last short group leaves over are not checked: the encoding is not strict.\<close>

fun bytes_of_sextets :: "nat list \<Rightarrow> string option" where
  "bytes_of_sextets [] = Some []"
| "bytes_of_sextets [a] = None"
| "bytes_of_sextets [a, b] = Some [char_of (a * 4 + b div 16)]"
| "bytes_of_sextets [a, b, c] = Some [char_of (a * 4 + b div 16), char_of (b mod 16 * 16 + c div 4)]"
| "bytes_of_sextets (a # b # c # d # s) =
     map_option (\<lambda>r. char_of (a * 4 + b div 16) # char_of (b mod 16 * 16 + c div 4) # char_of (c mod 4 * 64 + d) # r)
       (bytes_of_sextets s)"

definition sextets :: "string \<Rightarrow> nat list option" where
  "sextets s = (if list_all (\<lambda>c. char_sextet c \<noteq> None) s then Some (map (\<lambda>c. the (char_sextet c)) s) else None)"

definition decode64 :: "string \<Rightarrow> string option" where
  "decode64 s =
     (case sextets (filter (\<lambda>c. c \<noteq> CHR 0x0A \<and> c \<noteq> CHR 0x0D) s) of
        None \<Rightarrow> None | Some ns \<Rightarrow> bytes_of_sextets ns)"

section \<open>The round trip\<close>

lemma char_parts [simp]:
  "code_of (c::char) div 4 < 64" "code_of (c::char) div 16 < 16" "code_of (c::char) div 64 < 4" "code_of (c::char) < 256"
proof -
  show "code_of c < 256" by simp
  then show "code_of c div 4 < 64" "code_of c div 16 < 16" "code_of c div 64 < 4" by linarith+
qed

lemma merge_parts [simp]:
  "code_of a mod 4 * 16 + code_of b div 16 < 64" "code_of b mod 16 * 4 + code_of c div 64 < 64"
  "code_of a mod 4 * 16 < 64" "code_of b mod 16 * 4 < 64"
proof -
  have "code_of a mod 4 < 4" "code_of b mod 16 < 16" by simp_all
  then show "code_of a mod 4 * 16 + code_of b div 16 < 64" "code_of b mod 16 * 4 + code_of c div 64 < 64"
    "code_of a mod 4 * 16 < 64" "code_of b mod 16 * 4 < 64"
    using char_parts(2)[of b] char_parts(3)[of c] by linarith+
qed

lemma rebuild:
  "code_of a div 4 * 4 + (code_of a mod 4 * 16 + code_of b div 16) div 16 = code_of a"
  "(code_of a mod 4 * 16 + code_of b div 16) mod 16 * 16 + (code_of b mod 16 * 4 + code_of c div 64) div 4 = code_of b"
  "(code_of b mod 16 * 4 + code_of c div 64) mod 4 * 64 + code_of c mod 64 = code_of c"
  "code_of a div 4 * 4 + code_of a mod 4 * 16 div 16 = code_of a"
  "(code_of a mod 4 * 16 + code_of b div 16) mod 16 * 16 + code_of b mod 16 * 4 div 4 = code_of b"
  using char_parts(2)[of b] char_parts(3)[of c] by simp_all

lemma sextets_Cons:
  "n < 64 \<Longrightarrow> sextets (sextet_char n # s) = map_option ((#) n) (sextets s)"
  by (simp add: sextets_def)

lemma sextets_Nil [simp]: "sextets [] = Some []"
  by (simp add: sextets_def)

lemma sextets_encode:
  "\<exists>ns. sextets (encode64 s) = Some ns \<and> bytes_of_sextets ns = Some s"
  by (induction s rule: encode64.induct) (auto simp: sextets_Cons rebuild)

lemma encode64_alphabet: "set (encode64 s) \<subseteq> set alphabet"
  by (induction s rule: encode64.induct) (auto simp: sextet_char_in)

lemma alphabet_chars: "c \<in> set alphabet \<Longrightarrow> c \<noteq> CHR 0x0A \<and> c \<noteq> CHR 0x0D \<and> c \<noteq> CHR ''.''"
  by (auto simp: alphabet_def)

lemma encode64_no_dot: "CHR ''.'' \<notin> set (encode64 s)"
  using encode64_alphabet[of s] alphabet_chars by blast

lemma decode64_encode64 [simp]: "decode64 (encode64 s) = Some s"
proof -
  have "filter (\<lambda>c. c \<noteq> CHR 0x0A \<and> c \<noteq> CHR 0x0D) (encode64 s) = encode64 s"
    using encode64_alphabet[of s] alphabet_chars by (intro filter_True ballI) blast
  then show ?thesis using sextets_encode[of s] by (auto simp: decode64_def)
qed

end
