(* ===== verification/HwidTicket.thy ===== *)
theory HwidTicket
  imports Base64
begin

text \<open>
  \<open>internal/hwid\<close>, second part: the machine tickets (\<open>ticket.go\<close>) and the signed form of a report
  (\<open>canonical.go\<close>). A ticket is shown to verify to exactly what was issued or to be refused; the
  signed form is shown injective. HMAC-SHA256 is a parameter.
\<close>

section \<open>Tickets\<close>

record tickets =
  secret :: string
  ttl :: nanos

record ticket_claims =
  ClaimSubject :: string
  ClaimMachine :: string
  ClaimCluster :: string
  Expires :: instant

datatype ticket_error = MalformedTicket | TicketSignature | TicketExpired

type_synonym mac = "string \<Rightarrow> string \<Rightarrow> string"

abbreviation NUL :: char where "NUL \<equiv> CHR 0x00"

definition sign_ticket :: "mac \<Rightarrow> tickets \<Rightarrow> string \<Rightarrow> string" where
  "sign_ticket hmac t encoded = encode64 (hmac (secret t) encoded)"

definition Issue :: "mac \<Rightarrow> tickets \<Rightarrow> ticket_claims \<Rightarrow> instant \<Rightarrow> string \<times> instant" where
  "Issue hmac t claims now =
     (let expires = now + ttl t;
          payload = join_with NUL [ClaimSubject claims, ClaimMachine claims, ClaimCluster claims, itoa (wrap64 expires)];
          encoded = encode64 payload
      in (encoded @ ''.'' @ sign_ticket hmac t encoded, expires))"

definition Verify :: "mac \<Rightarrow> tickets \<Rightarrow> string \<Rightarrow> instant \<Rightarrow> (ticket_error, ticket_claims) result" where
  "Verify hmac t ticket now =
     (let (encoded, signature, ok) = cut_at CHR ''.'' ticket in
      if \<not> ok then Inl MalformedTicket
      else if signature \<noteq> sign_ticket hmac t encoded then Inl TicketSignature
      else case decode64 encoded of
        None \<Rightarrow> Inl MalformedTicket
      | Some raw \<Rightarrow>
          (case split_on NUL raw of
             [subject, machine, cluster, nanos] \<Rightarrow>
               (case atoi nanos of
                  None \<Rightarrow> Inl MalformedTicket
                | Some expires \<Rightarrow>
                    if now > expires then Inl TicketExpired
                    else Inr \<lparr>ClaimSubject = subject, ClaimMachine = machine, ClaimCluster = cluster, Expires = expires\<rparr>)
           | _ \<Rightarrow> Inl MalformedTicket))"

lemma length_split_on: "length (split_on c s) = Suc (length (filter (\<lambda>d. d = c) s))"
  by (induction s) (auto split: list.splits)

lemma itoa_no_nul: "NUL \<notin> set (itoa n)"
  using itoa_chars by (fastforce simp: is_digit_def)

definition nul_free :: "ticket_claims \<Rightarrow> bool" where
  "nul_free c \<longleftrightarrow> list_all (\<lambda>s. NUL \<notin> set s) [ClaimSubject c, ClaimMachine c, ClaimCluster c]"

lemma payload_split:
  assumes "nul_free c"
  shows "split_on NUL (join_with NUL [ClaimSubject c, ClaimMachine c, ClaimCluster c, itoa n]) =
    [ClaimSubject c, ClaimMachine c, ClaimCluster c, itoa n]"
  using assms itoa_no_nul by (intro split_join) (auto simp: nul_free_def)

lemma payload_split_long:
  assumes "\<not> nul_free c"
  shows "length (split_on NUL (join_with NUL [ClaimSubject c, ClaimMachine c, ClaimCluster c, itoa n])) > 4"
proof -
  have "0 < length (filter (\<lambda>d. d = NUL) s)" if "NUL \<in> set s" for s using that by (auto simp: filter_empty_conv)
  then show ?thesis using assms by (force simp: length_split_on nul_free_def)
qed

lemma Verify_Issue:
  assumes "int64 (now + ttl t)"
  shows "Verify hmac t (fst (Issue hmac t claims now)) later =
    (if \<not> nul_free claims then Inl MalformedTicket
     else if later > now + ttl t then Inl TicketExpired
     else Inr (claims\<lparr>Expires := now + ttl t\<rparr>))"
proof -
  let ?raw = "join_with NUL [ClaimSubject claims, ClaimMachine claims, ClaimCluster claims, itoa (now + ttl t)]"
  have cut: "cut_at CHR ''.'' (encode64 ?raw @ CHR ''.'' # sign_ticket hmac t (encode64 ?raw)) =
      (encode64 ?raw, sign_ticket hmac t (encode64 ?raw), True)"
    by (rule cut_found) (rule encode64_no_dot)
  show ?thesis
  proof (cases "nul_free claims")
    case True
    show ?thesis using assms True cut payload_split[OF True, of "now + ttl t"]
      by (simp add: Verify_def Issue_def Let_def wrap64_id)
  next
    case False
    have "length (split_on NUL ?raw) > 4" by (rule payload_split_long[OF False])
    then show ?thesis using assms False cut
      by (auto simp: Verify_def Issue_def Let_def wrap64_id split: list.splits)
  qed
qed

lemma Verify_signed:
  "Verify hmac t ticket now = Inr claims \<Longrightarrow>
     (\<exists>encoded. ticket = encoded @ CHR ''.'' # sign_ticket hmac t encoded) \<and> now \<le> Expires claims"
  by (auto simp: Verify_def Let_def dest: cut_True split: prod.splits if_splits option.splits list.splits)

text \<open>
  C24: Every ticket a server issues verifies, under the same secret, to exactly the claims it was issued
  for, with their expiry, until that expiry and never after it; a ticket for claims that contain the
  separator byte is always refused, so no account name can forge the other fields.
\<close>

theorem ticket_roundtrip:
  assumes "int64 (now + ttl t)"
  shows "Verify hmac t (fst (Issue hmac t claims now)) later =
    (if \<not> nul_free claims then Inl MalformedTicket
     else if later > now + ttl t then Inl TicketExpired
     else Inr (claims\<lparr>Expires := now + ttl t\<rparr>))"
  using assms by (rule Verify_Issue)

definition sample_tickets :: tickets where
  "sample_tickets = \<lparr>secret = ''key'', ttl = 600\<rparr>"

definition sample_claims :: ticket_claims where
  "sample_claims = \<lparr>ClaimSubject = ''amy'', ClaimMachine = ''m1'', ClaimCluster = ''c1'', Expires = 0\<rparr>"

definition sample_mac :: mac where
  "sample_mac key msg = rev msg @ key"

lemma ticket_roundtrip_witness:
  "Verify sample_mac sample_tickets (fst (Issue sample_mac sample_tickets sample_claims 1000)) 1500 =
     Inr (sample_claims\<lparr>Expires := 1600\<rparr>)"
  using ticket_roundtrip[of 1000 sample_tickets sample_mac sample_claims 1500]
  by (simp add: sample_tickets_def sample_claims_def nul_free_def int64_def)

section \<open>The signed form of a report\<close>

type_synonym octets = "8 word list"

record wire_signal =
  WireKind :: int
  WireDigest :: octets
  WireConfidence :: "32 word"

record wire_report =
  SchemaVersion :: "32 word"
  Signals :: "wire_signal list"
  ReportFlags :: "int list"
  ReportPlatform :: int
  Nonce :: octets
  PlatformKeyPublic :: octets
  PlatformKeySignature :: octets
  CollectedAtUnixNanos :: int

definition canonicalDomain :: octets where
  "canonicalDomain = map (\<lambda>c. of_nat (of_char c)) (''laminara.machine.v1'' @ [NUL])"

definition writeU32 :: "32 word \<Rightarrow> octets" where
  "writeU32 w = map (\<lambda>i. ucast (drop_bit (8 * i) w)) [0 ..< 4]"

definition writeI32 :: "int \<Rightarrow> octets" where
  "writeI32 n = writeU32 (word_of_int n)"

definition writeI64 :: "int \<Rightarrow> octets" where
  "writeI64 n = map (\<lambda>i. ucast (drop_bit (8 * i) (word_of_int n :: 64 word))) [0 ..< 8]"

definition canonical_signal :: "wire_signal \<Rightarrow> octets" where
  "canonical_signal s = writeI32 (WireKind s) @ writeU32 (of_nat (length (WireDigest s))) @ WireDigest s"

definition Canonical :: "wire_report \<Rightarrow> octets" where
  "Canonical r =
     canonicalDomain @ writeU32 (SchemaVersion r) @
     writeU32 (of_nat (length (Signals r))) @ concat (map canonical_signal (Signals r)) @
     writeU32 (of_nat (length (ReportFlags r))) @ concat (map writeI32 (ReportFlags r)) @
     writeI32 (ReportPlatform r) @ writeI64 (CollectedAtUnixNanos r) @
     writeU32 (of_nat (length (Nonce r))) @ Nonce r"

text \<open>What the wire format guarantees of the numbers and lengths of a message.\<close>

definition int32 :: "int \<Rightarrow> bool" where
  "int32 n \<longleftrightarrow> - (2 ^ 31) \<le> n \<and> n < 2 ^ 31"

definition wire_ok :: "wire_report \<Rightarrow> bool" where
  "wire_ok r \<longleftrightarrow>
     length (Signals r) < 2 ^ 32 \<and> length (ReportFlags r) < 2 ^ 32 \<and> length (Nonce r) < 2 ^ 32 \<and>
     list_all (\<lambda>s. int32 (WireKind s) \<and> length (WireDigest s) < 2 ^ 32) (Signals r) \<and>
     list_all int32 (ReportFlags r) \<and> int32 (ReportPlatform r) \<and> int64 (CollectedAtUnixNanos r)"

text \<open>The part of a report that the signature covers.\<close>

definition signed_part :: "wire_report \<Rightarrow> wire_report" where
  "signed_part r = r\<lparr>Signals := map (\<lambda>s. s\<lparr>WireConfidence := 0\<rparr>) (Signals r),
     PlatformKeyPublic := [], PlatformKeySignature := []\<rparr>"

lemma byte_bit:
  "bit (ucast (drop_bit (8 * i) w) :: 8 word) j \<longleftrightarrow> j < 8 \<and> bit w (8 * i + j)" for w :: "'a::len word"
  by (simp add: bit_simps)

lemma split_bits:
  fixes v w :: "'a::len word"
  assumes eq: "map (\<lambda>i. ucast (drop_bit (8 * i) v) :: 8 word) [0 ..< n] = map (\<lambda>i. ucast (drop_bit (8 * i) w)) [0 ..< n]"
    and len: "LENGTH('a) \<le> 8 * n"
  shows "v = w"
proof (rule bit_word_eqI)
  fix k assume "k < LENGTH('a)"
  then have "k div 8 < n" using len by (simp add: less_mult_imp_div_less mult.commute)
  then have "ucast (drop_bit (8 * (k div 8)) v) = (ucast (drop_bit (8 * (k div 8)) w) :: 8 word)"
    using eq by (simp add: list_eq_iff_nth_eq)
  then have "bit (ucast (drop_bit (8 * (k div 8)) v) :: 8 word) (k mod 8) \<longleftrightarrow>
      bit (ucast (drop_bit (8 * (k div 8)) w) :: 8 word) (k mod 8)" by simp
  then show "bit v k \<longleftrightarrow> bit w k" by (simp add: byte_bit)
qed

lemma writeU32_inj: "writeU32 a @ x = writeU32 b @ y \<longleftrightarrow> a = b \<and> x = y"
  using split_bits[of a 4 b] by (auto simp: writeU32_def)

lemma int32_sint: "int32 a \<Longrightarrow> sint (word_of_int a :: 32 word) = a"
  by (simp add: int_word_sint int32_def)

lemma int32_word: "int32 a \<Longrightarrow> int32 b \<Longrightarrow> (word_of_int a :: 32 word) = word_of_int b \<longleftrightarrow> a = b"
  by (metis int32_sint)

lemma writeI32_inj: "int32 a \<Longrightarrow> int32 b \<Longrightarrow> writeI32 a @ x = writeI32 b @ y \<longleftrightarrow> a = b \<and> x = y"
  by (simp add: writeI32_def writeU32_inj int32_word)

lemma int64_sint: "int64 a \<Longrightarrow> sint (word_of_int a :: 64 word) = a"
  by (simp add: int_word_sint int64_def)

lemma int64_word: "int64 a \<Longrightarrow> int64 b \<Longrightarrow> (word_of_int a :: 64 word) = word_of_int b \<longleftrightarrow> a = b"
  by (metis int64_sint)

lemma writeI64_inj: "int64 a \<Longrightarrow> int64 b \<Longrightarrow> writeI64 a @ x = writeI64 b @ y \<longleftrightarrow> a = b \<and> x = y"
  using split_bits[of "word_of_int a :: 64 word" 8 "word_of_int b"] int64_word[of a b]
  by (auto simp: writeI64_def)

lemma length_word: "m < 2 ^ 32 \<Longrightarrow> n < 2 ^ 32 \<Longrightarrow> (of_nat m :: 32 word) = of_nat n \<longleftrightarrow> m = n"
  by (simp add: word_of_nat_eq_iff take_bit_nat_eq_self_iff take_bit_nat_eq_self)

lemma length_prefix_inj:
  "length a < 2 ^ 32 \<Longrightarrow> length b < 2 ^ 32 \<Longrightarrow>
     writeU32 (of_nat (length a)) @ a @ x = writeU32 (of_nat (length b)) @ b @ y \<longleftrightarrow> a = b \<and> x = y"
  by (auto simp: writeU32_inj length_word)

lemma canonical_signal_inj:
  "int32 (WireKind s) \<Longrightarrow> int32 (WireKind t) \<Longrightarrow> length (WireDigest s) < 2 ^ 32 \<Longrightarrow> length (WireDigest t) < 2 ^ 32 \<Longrightarrow>
     canonical_signal s @ x = canonical_signal t @ y \<longleftrightarrow>
     WireKind s = WireKind t \<and> WireDigest s = WireDigest t \<and> x = y"
  by (simp add: canonical_signal_def writeI32_inj length_prefix_inj)

text \<open>A list of items whose writer is injective before any rest, with its length known.\<close>

lemma concat_inj:
  assumes "\<And>a b x y. P a \<Longrightarrow> P b \<Longrightarrow> f a @ x = f b @ y \<Longrightarrow> g a = g b \<and> x = y"
    and "length as = length bs" "list_all P as" "list_all P bs"
    and "concat (map f as) @ x = concat (map f bs) @ y"
  shows "map g as = map g bs \<and> x = y"
  using assms(2-5)
proof (induction as bs rule: list_induct2)
  case Nil
  then show ?case by simp
next
  case (Cons a as b bs)
  have "g a = g b \<and> concat (map f as) @ x = concat (map f bs) @ y"
    using assms(1)[of a b] Cons.prems by simp
  then show ?case using Cons by simp
qed

text \<open>
  The signed form of a report determines everything it covers: two reports within the wire
  format's ranges have the same canonical bytes only if they agree on the schema version, the kinds
  and digests of all signals, the flags, the platform, the collection time and the nonce.
\<close>

theorem Canonical_injective:
  assumes ok: "wire_ok r" "wire_ok r'" and eq: "Canonical r = Canonical r'"
  shows "signed_part r = signed_part r'"
proof -
  let ?P = "\<lambda>s. int32 (WireKind s) \<and> length (WireDigest s) < 2 ^ 32"
  let ?tail = "\<lambda>r. writeI32 (ReportPlatform r) @ writeI64 (CollectedAtUnixNanos r) @ writeU32 (of_nat (length (Nonce r))) @ Nonce r"
  let ?flags = "\<lambda>r. writeU32 (of_nat (length (ReportFlags r))) @ concat (map writeI32 (ReportFlags r)) @ ?tail r"
  have head: "SchemaVersion r = SchemaVersion r'" "length (Signals r) = length (Signals r')"
    "concat (map canonical_signal (Signals r)) @ ?flags r = concat (map canonical_signal (Signals r')) @ ?flags r'"
    using eq ok by (simp_all add: Canonical_def writeU32_inj length_word wire_ok_def)
  have sigs: "map (\<lambda>s. (WireKind s, WireDigest s)) (Signals r) = map (\<lambda>s. (WireKind s, WireDigest s)) (Signals r') \<and> ?flags r = ?flags r'"
    by (rule concat_inj[where P = ?P and f = canonical_signal, OF _ head(2) _ _ head(3)])
      (use ok in \<open>auto simp: wire_ok_def canonical_signal_inj\<close>)
  then have flags: "length (ReportFlags r) = length (ReportFlags r')"
    "concat (map writeI32 (ReportFlags r)) @ ?tail r = concat (map writeI32 (ReportFlags r')) @ ?tail r'"
    using ok by (simp_all add: writeU32_inj length_word wire_ok_def)
  have "map (\<lambda>x. x) (ReportFlags r) = map (\<lambda>x. x) (ReportFlags r') \<and> ?tail r = ?tail r'"
    by (rule concat_inj[where P = int32 and f = writeI32, OF _ flags(1) _ _ flags(2)])
      (use ok in \<open>auto simp: wire_ok_def writeI32_inj\<close>)
  then have rest: "ReportFlags r = ReportFlags r'" "ReportPlatform r = ReportPlatform r'"
    "CollectedAtUnixNanos r = CollectedAtUnixNanos r'" "Nonce r = Nonce r'"
    using ok by (simp_all add: writeI32_inj writeI64_inj writeU32_inj wire_ok_def)
  have "map (\<lambda>s. s\<lparr>WireConfidence := 0\<rparr>) (Signals r) = map (\<lambda>s. s\<lparr>WireConfidence := 0\<rparr>) (Signals r')"
    using sigs by (auto simp: list_eq_iff_nth_eq)
  then show ?thesis using head rest by (simp add: signed_part_def)
qed

definition sample_report :: wire_report where
  "sample_report = \<lparr>SchemaVersion = 1, Signals = [\<lparr>WireKind = 6, WireDigest = replicate 16 7, WireConfidence = 100\<rparr>],
     ReportFlags = [1], ReportPlatform = 3, Nonce = [1, 2, 3], PlatformKeyPublic = [], PlatformKeySignature = [],
     CollectedAtUnixNanos = 0\<rparr>"

lemma Canonical_injective_witness:
  "signed_part (sample_report\<lparr>PlatformKeyPublic := [4]\<rparr>) = signed_part sample_report"
  by (rule Canonical_injective) (simp_all add: wire_ok_def sample_report_def int32_def int64_def Canonical_def)

end
