(* ===== verification/HwidGate.thy ===== *)
theory HwidGate
  imports HwidStore HwidTicket
begin

text \<open>
  \<open>internal/hwid\<close>, fourth part: the gate (\<open>gate.go\<close>) and the bans (\<open>ban.go\<close>) over any store. A
  nil gate is \<open>None\<close>. The state is the gate's map of challenges and the store; the readings of the
  clock, the random bytes and the fresh UUIDs of a request are arguments. \<open>Check\<close> and \<open>Ban\<close> are each one
  step from store to store, although the code makes many calls to the store in them and holds no lock
  over all of them: what follows about runs takes the requests one at a time. Parameters, in
  \<open>hwid_env\<close>: the parsing and checking of keys, SHA-256 and HMAC, the generated names of
  enumerations and the lower-casing of characters outside ASCII.
\<close>

section \<open>State and errors\<close>

datatype pub_key = Ed25519Key octets | EcdsaKey bool octets | OtherKey

record hwid_env =
  parse_key :: "octets \<Rightarrow> pub_key option"
  ed25519_verify :: "octets \<Rightarrow> octets \<Rightarrow> octets \<Rightarrow> bool"
  ecdsa_verify :: "octets \<Rightarrow> octets \<Rightarrow> octets \<Rightarrow> bool"
  sha256 :: "octets \<Rightarrow> octets"
  hmac_sha256 :: mac
  platform_name :: "int \<Rightarrow> string"
  flag_name :: "collector_flag \<Rightarrow> string"
  lower_other :: "string \<Rightarrow> string"

datatype report_fault = SchemaVersionFault | SignalCount nat | DigestSize nat | KindUnspecified | Skewed int
  | KeyUnparsable | SignatureMismatch | CurveUnsupported | KeyUnsupported

datatype gate_error = ReportRequired | ReportInvalid report_fault | ChallengeStale | VirtualMachine | SoftwareKey
  | Banned ban | StoreFailed store_error | RandomFailed | LauncherOnly | OtherAccount | TicketRefused ticket_error
  | HwidOff | NothingToBan | UnknownScope | NoSuchBan string

record gate =
  cfg :: hwid_config
  tickets_of :: tickets
  challenges :: "(octets, instant) amap"

definition digestBytes :: nat where "digestBytes = 16"
definition maxSignals :: nat where "maxSignals = 64"
definition reportSkew :: nanos where "reportSkew = 10 * minute"
definition maxChallenges :: nat where "maxChallenges = 100000"
definition ReportSchemaVersion :: "32 word" where "ReportSchemaVersion = 1"

text \<open>\<open>New\<close>: a missing configuration and the mode off give a nil gate.\<close>

datatype new_error = ConfigError config_error | NoStore | NoSecret

definition New ::
    "hwid_config option \<Rightarrow> (string \<Rightarrow> bool) \<Rightarrow> string option \<Rightarrow> (new_error, gate option) result" where
  "New c store_builds secret_file =
     (case c of
        None \<Rightarrow> Inr None
      | Some c \<Rightarrow>
          let resolved = withDefaults c in
          case validate_config resolved of
            Some e \<Rightarrow> Inl (ConfigError e)
          | None \<Rightarrow>
              if Mode resolved = ModeOff then Inr None
              else if \<not> store_builds (Backend resolved) then Inl NoStore
              else (case secret_file of
                None \<Rightarrow> Inl NoSecret
              | Some sec \<Rightarrow> Inr (Some \<lparr>cfg = resolved, tickets_of = \<lparr>secret = sec, ttl = TicketTTL resolved\<rparr>, challenges = []\<rparr>)))"

definition Enforcing :: "gate \<Rightarrow> bool" where
  "Enforcing g \<longleftrightarrow> Mode (cfg g) = ModeEnforce"

section \<open>Challenges\<close>

text \<open>The range loop that finds the earliest expiry; the zero time is its initial value.\<close>

definition oldest_expiry :: "(octets, instant) amap \<Rightarrow> instant" where
  "oldest_expiry m = fold (\<lambda>(_, e) old. if old = zero_time \<or> e < old then e else old) m zero_time"

definition quot_two :: "int \<Rightarrow> int" where
  "quot_two n = (if n < 0 then - (- n div 2) else n div 2)"

definition expireLocked :: "instant \<Rightarrow> gate \<Rightarrow> gate" where
  "expireLocked now g =
     (let live = keep_if (\<lambda>_ e. \<not> now > e) (challenges g) in
      if length live < maxChallenges then g\<lparr>challenges := live\<rparr>
      else let cutoff = oldest_expiry live + quot_two (ChallengeTTL (cfg g))
        in g\<lparr>challenges := keep_if (\<lambda>_ e. \<not> e < cutoff) live\<rparr>)"

text \<open>The nonce is absent when the random source fails; the clock is read twice when the map is full.\<close>

definition Challenge ::
    "octets option \<Rightarrow> instant \<Rightarrow> instant \<Rightarrow> gate option \<Rightarrow> (gate_error, octets \<times> instant) result \<times> gate option" where
  "Challenge nonce now now' gate =
     (case gate of
        None \<Rightarrow> (Inr ([], zero_time), None)
      | Some g \<Rightarrow>
          (case nonce of
             None \<Rightarrow> (Inl RandomFailed, Some g)
           | Some n \<Rightarrow>
               let expires = now + ChallengeTTL (cfg g);
                   g = (if length (challenges g) \<ge> maxChallenges then expireLocked now' g else g)
               in (Inr (n, expires), Some (g\<lparr>challenges := store n expires (challenges g)\<rparr>))))"

definition takeChallenge :: "octets \<Rightarrow> instant \<Rightarrow> gate \<Rightarrow> bool \<times> gate" where
  "takeChallenge nonce now g =
     (case lookup (challenges g) nonce of
        None \<Rightarrow> (False, g)
      | Some expires \<Rightarrow> (now < expires, g\<lparr>challenges := remove nonce (challenges g)\<rparr>))"

section \<open>Reports\<close>

definition verifySignature :: "hwid_env \<Rightarrow> wire_report \<Rightarrow> report_fault option" where
  "verifySignature E r =
     (case parse_key E (PlatformKeyPublic r) of
        None \<Rightarrow> Some KeyUnparsable
      | Some (Ed25519Key k) \<Rightarrow>
          if ed25519_verify E k (Canonical r) (PlatformKeySignature r) then None else Some SignatureMismatch
      | Some (EcdsaKey p256 k) \<Rightarrow>
          if \<not> p256 then Some CurveUnsupported
          else if ecdsa_verify E k (sha256 E (Canonical r)) (PlatformKeySignature r) then None
          else Some SignatureMismatch
      | Some OtherKey \<Rightarrow> Some KeyUnsupported)"

definition signal_fault :: "wire_signal \<Rightarrow> report_fault option" where
  "signal_fault s =
     (if length (WireDigest s) \<noteq> digestBytes then Some (DigestSize (length (WireDigest s)))
      else if WireKind s = 0 then Some KindUnspecified else None)"

definition report_problem :: "hwid_env \<Rightarrow> instant \<Rightarrow> wire_report \<Rightarrow> report_fault option" where
  "report_problem E now r =
     (if SchemaVersion r \<noteq> ReportSchemaVersion then Some SchemaVersionFault
      else if length (Signals r) = 0 \<or> length (Signals r) > maxSignals then Some (SignalCount (length (Signals r)))
      else case first_err signal_fault (Signals r) of
        Some e \<Rightarrow> Some e
      | None \<Rightarrow>
          let delta = now - CollectedAtUnixNanos r in
          if CollectedAtUnixNanos r \<noteq> 0 \<and> (delta > reportSkew \<or> delta < - reportSkew) then Some (Skewed delta)
          else if PlatformKeyPublic r \<noteq> [] then verifySignature E r
          else None)"

definition validate ::
    "hwid_env \<Rightarrow> instant \<Rightarrow> instant \<Rightarrow> wire_report \<Rightarrow> gate \<Rightarrow> gate_error option \<times> gate" where
  "validate E now now' r g =
     (case report_problem E now r of
        Some e \<Rightarrow> (Some (ReportInvalid e), g)
      | None \<Rightarrow>
          if RequireChallenge (cfg g) = Some True
          then (let (taken, g) = takeChallenge (Nonce r) now' g
                in (if taken then None else Some ChallengeStale, g))
          else (None, g))"

section \<open>Checks\<close>

record identity =
  IdSubject :: string
  IdUsername :: string

definition key :: "hwid_env \<Rightarrow> identity \<Rightarrow> string" where
  "key E i = (if IdSubject i \<noteq> [] then IdSubject i else to_lower (lower_other E) (IdUsername i))"

text \<open>\<open>hex.EncodeToString\<close>.\<close>

definition hex_digit :: "nat \<Rightarrow> char" where
  "hex_digit n = ''0123456789abcdef'' ! n"

definition to_hex :: "octets \<Rightarrow> string" where
  "to_hex bs = concat (map (\<lambda>b. [hex_digit (unat b div 16), hex_digit (unat b mod 16)]) bs)"

definition first_with_scope :: "ban list \<Rightarrow> ban_scope \<Rightarrow> ban option" where
  "first_with_scope bs sc = List.find (\<lambda>b. Scope b = sc) bs"

definition findBan ::
    "'s store_ops \<Rightarrow> instant \<Rightarrow> string \<Rightarrow> string \<Rightarrow> string \<Rightarrow> 's \<Rightarrow> (gate_error, ban option) result" where
  "findBan S now subject machineID clusterID w =
     (case ActiveBans S [subject, machineID, clusterID] now w of
        Inl e \<Rightarrow> Inl (StoreFailed e)
      | Inr bs \<Rightarrow>
          Inr (case first_with_scope bs SCOPE_ACCOUNT of Some b \<Rightarrow> Some b | None \<Rightarrow>
            (case first_with_scope bs SCOPE_MACHINE of Some b \<Rightarrow> Some b | None \<Rightarrow>
              first_with_scope bs SCOPE_CLUSTER)))"

definition CheckSubject ::
    "hwid_env \<Rightarrow> 's store_ops \<Rightarrow> instant \<Rightarrow> identity \<Rightarrow> gate option \<Rightarrow> 's \<Rightarrow> gate_error option" where
  "CheckSubject E S now i gate w =
     (case gate of
        None \<Rightarrow> None
      | Some g \<Rightarrow>
          if \<not> Enforcing g then None
          else (case MachinesOfSubject S (key E i) w of
            Inl e \<Rightarrow> Some (StoreFailed e)
          | Inr ms \<Rightarrow>
              let targets = key E i # map ID ms @ remdups (map ClusterID ms) in
              (case ActiveBans S targets now w of
                 Inl e \<Rightarrow> Some (StoreFailed e)
               | Inr [] \<Rightarrow> None
               | Inr (b # _) \<Rightarrow> Some (Banned b))))"

record verdict =
  MachineId :: string
  IsFirstSeen :: bool
  MachineTicket :: string
  TicketExpires :: instant

text \<open>The readings of the clock by one request, in the order the code makes them.\<close>

record readings =
  at_report :: instant
  at_challenge :: instant
  at_save :: instant
  at_bans :: instant

fun merge_clusters :: "'s store_ops \<Rightarrow> string \<Rightarrow> string list \<Rightarrow> 's \<Rightarrow> store_error option \<times> 's" where
  "merge_clusters S target [] w = (None, w)"
| "merge_clusters S target (c # cs) w =
     (case MoveCluster S c target w of
        (Some e, w) \<Rightarrow> (Some e, w)
      | (None, w) \<Rightarrow> merge_clusters S target cs w)"

text \<open>What follows the resolution: the machine is saved, the account is noted, the bans are read.\<close>

definition issue_verdict ::
    "hwid_env \<Rightarrow> readings \<Rightarrow> identity \<Rightarrow> resolution \<Rightarrow> machine \<Rightarrow> gate \<Rightarrow> verdict" where
  "issue_verdict E t i res m g =
     (let (ticket, expires) = Issue (hmac_sha256 E) (tickets_of g)
            \<lparr>ClaimSubject = key E i, ClaimMachine = ID m, ClaimCluster = ClusterID m, Expires = zero_time\<rparr> (at_save t)
      in \<lparr>MachineId = ID m, IsFirstSeen = (\<not> SameMachine res), MachineTicket = ticket, TicketExpires = expires\<rparr>)"

definition admit ::
    "hwid_env \<Rightarrow> 's store_ops \<Rightarrow> readings \<Rightarrow> string \<times> string \<Rightarrow> identity \<Rightarrow> wire_report \<Rightarrow> string \<Rightarrow>
     resolution \<Rightarrow> signal list \<Rightarrow> gate \<Rightarrow> 's \<Rightarrow> (gate_error, verdict) result \<times> 's" where
  "admit E S t uuids i r ip res sigs g w =
     (let m = \<lparr>ID = (if MachineID res = [] then fst uuids else MachineID res),
               ClusterID = (if ResCluster res = [] then snd uuids else ResCluster res),
               Platform = platform_name E (ReportPlatform r), Flags = flagNames (flag_name E) (ReportFlags r),
               Trusted = False, FirstSeen = at_save t, LastSeen = at_save t, LastIP = ip\<rparr>
      in case merge_clusters S (ClusterID m) (MergeClusters res) w of
        (Some e, w) \<Rightarrow> (Inl (StoreFailed e), w)
      | (None, w) \<Rightarrow>
        (case SaveMachine S m sigs w of
           (Some e, w) \<Rightarrow> (Inl (StoreFailed e), w)
         | (None, w) \<Rightarrow>
           (case SeeAccount S (ID m) \<lparr>Subject = IdSubject i, Username = IdUsername i, SeenAt = at_save t\<rparr> w of
              (Some e, w) \<Rightarrow> (Inl (StoreFailed e), w)
            | (None, w) \<Rightarrow>
              (case findBan S (at_bans t) (key E i) (ID m) (ClusterID m) w of
                 Inl e \<Rightarrow> (Inl e, w)
               | Inr b \<Rightarrow>
                   (case b of
                      Some b' \<Rightarrow> if Enforcing g then (Inl (Banned b'), w) else (Inr (issue_verdict E t i res m g), w)
                    | None \<Rightarrow> (Inr (issue_verdict E t i res m g), w))))))"

definition Check ::
    "hwid_env \<Rightarrow> 's store_ops \<Rightarrow> readings \<Rightarrow> string \<times> string \<Rightarrow> identity \<Rightarrow> wire_report option \<Rightarrow> string \<Rightarrow>
     gate option \<Rightarrow> 's \<Rightarrow> (gate_error, verdict option) result \<times> gate option \<times> 's" where
  "Check E S t uuids i report ip gate w =
     (case gate of
        None \<Rightarrow> (Inr None, None, w)
      | Some g \<Rightarrow>
        (case report of
           None \<Rightarrow>
             if RequireReport (cfg g) \<and> Enforcing g then (Inl ReportRequired, Some g, w)
             else (case CheckSubject E S (at_bans t) i (Some g) w of
               Some e \<Rightarrow> (Inl e, Some g, w)
             | None \<Rightarrow> (Inr None, Some g, w))
         | Some r \<Rightarrow>
           (case validate E (at_report t) (at_challenge t) r g of
              (Some e, g) \<Rightarrow> (if Enforcing g then Inl e else Inr None, Some g, w)
            | (None, g) \<Rightarrow>
              let virtual = hasFlag (ReportFlags r) FLAG_VIRTUAL_MACHINE;
                  keyFallback = hasFlag (ReportFlags r) FLAG_PLATFORM_KEY_FALLBACK;
                  sigs = map (\<lambda>s. \<lparr>Kind = WireKind s, Digest = to_hex (WireDigest s), Confidence = unat (WireConfidence s)\<rparr>)
                    (Signals r);
                  digests = map Digest sigs
              in if virtual \<and> VMPolicy (cfg g) = ''deny'' \<and> Enforcing g then (Inl VirtualMachine, Some g, w)
              else if RequireHardwareKey (cfg g) \<and> Enforcing g \<and> (keyFallback \<or> PlatformKeyPublic r = [])
                then (Inl SoftwareKey, Some g, w)
              else (case Candidates S digests w of
                Inl e \<Rightarrow> (Inl (StoreFailed e), Some g, w)
              | Inr candidates \<Rightarrow>
                (case FanOut S digests w of
                   Inl e \<Rightarrow> (Inl (StoreFailed e), Some g, w)
                 | Inr fanOut \<Rightarrow>
                   (case admit E S t uuids i r ip (Resolve candidates fanOut (cfg g) virtual keyFallback) sigs g w of
                      (Inl e, w) \<Rightarrow> (Inl e, Some g, w)
                    | (Inr v, w) \<Rightarrow> (Inr (Some v), Some g, w)))))))"

definition VerifyTicket ::
    "hwid_env \<Rightarrow> instant \<Rightarrow> string \<Rightarrow> identity \<Rightarrow> gate option \<Rightarrow> gate_error option" where
  "VerifyTicket E now ticket i gate =
     (case gate of
        None \<Rightarrow> None
      | Some g \<Rightarrow>
          if \<not> RequireLauncher (cfg g) then None
          else if ticket = [] then Some LauncherOnly
          else (case Verify (hmac_sha256 E) (tickets_of g) ticket now of
            Inl e \<Rightarrow> Some (TicketRefused e)
          | Inr claims \<Rightarrow> if ClaimSubject claims \<noteq> key E i then Some OtherAccount else None))"

definition SubjectOf :: "'s store_ops \<Rightarrow> string \<Rightarrow> gate option \<Rightarrow> 's \<Rightarrow> (gate_error, string) result" where
  "SubjectOf S player gate w =
     (case gate of
        None \<Rightarrow> Inr player
      | Some g \<Rightarrow>
          (case SubjectsOfUsername S player w of
             Inl e \<Rightarrow> Inl (StoreFailed e)
           | Inr [] \<Rightarrow> Inr player
           | Inr (u # _) \<Rightarrow> Inr u))"

text \<open>The number of a ban: eight hexadecimal digits, from random bytes or, when they fail, the clock.\<close>

definition upper_hex :: "nat \<Rightarrow> char" where
  "upper_hex n = ''0123456789ABCDEF'' ! n"

definition NewReference :: "octets option \<Rightarrow> string \<Rightarrow> string" where
  "NewReference raw clock_digits =
     (case raw of
        None \<Rightarrow> ''LM-'' @ clock_digits
      | Some bs \<Rightarrow> ''LM-'' @ concat (map (\<lambda>b. [upper_hex (unat b div 16), upper_hex (unat b mod 16)]) bs))"

section \<open>Bans\<close>

definition confirmThreshold :: nat where "confirmThreshold = 3"

record ban_request =
  ReqScope :: ban_scope
  ReqSubject :: string
  ReqUsername :: string
  ReqMachine :: string
  ReqCluster :: string
  ReqReason :: string
  ReqBy :: string
  TTL :: nanos
  Permanent :: bool
  Confirm :: bool

record ban_outcome =
  OutBan :: "ban option"
  OutScope :: ban_scope
  OutAccounts :: "account list"
  OutMachines :: nat
  NeedsConfirmation :: bool

definition targetFor :: "ban_scope \<Rightarrow> string \<Rightarrow> machine list \<Rightarrow> (gate_error, string) result" where
  "targetFor scope subject ms =
     (if scope = SCOPE_ACCOUNT then Inr subject
      else if scope = SCOPE_MACHINE then (case ms of [] \<Rightarrow> Inl NothingToBan | m # _ \<Rightarrow> Inr (ID m))
      else if scope = SCOPE_CLUSTER then (case ms of [] \<Rightarrow> Inl NothingToBan | m # _ \<Rightarrow> Inr (ClusterID m))
      else Inl UnknownScope)"

definition autoScope ::
    "'s store_ops \<Rightarrow> hwid_config \<Rightarrow> string \<Rightarrow> machine list \<Rightarrow> 's \<Rightarrow> ban_scope \<times> string" where
  "autoScope S c subject ms w =
     (case ms of
        [] \<Rightarrow> (SCOPE_ACCOUNT, subject)
      | m # _ \<Rightarrow>
          let cluster = ClusterID m in
          if list_ex (\<lambda>m. ClusterID m \<noteq> cluster \<or> Trusted m) ms then (SCOPE_ACCOUNT, subject)
          else (case MachinesOfCluster S cluster w of
            Inl _ \<Rightarrow> (SCOPE_ACCOUNT, subject)
          | Inr members \<Rightarrow>
              if int (length members) > MaxClusterSize c \<or> list_ex Trusted members then (SCOPE_ACCOUNT, subject)
              else (SCOPE_CLUSTER, cluster)))"

definition reach :: "'s store_ops \<Rightarrow> ban_scope \<Rightarrow> string \<Rightarrow> 's \<Rightarrow> (gate_error, account list \<times> nat) result" where
  "reach S scope target w =
     (if scope = SCOPE_MACHINE then
        (case AccountsOfMachine S target w of Inl e \<Rightarrow> Inl (StoreFailed e) | Inr acc \<Rightarrow> Inr (acc, 1))
      else if scope = SCOPE_CLUSTER then
        (case AccountsOfCluster S target w of
           Inl e \<Rightarrow> Inl (StoreFailed e)
         | Inr acc \<Rightarrow>
             (case MachinesOfCluster S target w of
                Inl e \<Rightarrow> Inl (StoreFailed e) | Inr ms \<Rightarrow> Inr (acc, length ms)))
      else Inr ([], 0))"

definition ban_expiry :: "hwid_config \<Rightarrow> ban_request \<Rightarrow> ban_scope \<Rightarrow> instant \<Rightarrow> instant" where
  "ban_expiry c req scope now =
     (if Permanent req then zero_time
      else if TTL req > 0 then now + TTL req
      else if scope \<noteq> SCOPE_ACCOUNT then now + HardwareBanTTL c
      else zero_time)"

definition choose_target ::
    "'s store_ops \<Rightarrow> hwid_config \<Rightarrow> ban_request \<Rightarrow> string \<Rightarrow> machine list \<Rightarrow> 's \<Rightarrow>
     (gate_error, ban_scope \<times> string) result" where
  "choose_target S c req subject ms w =
     (if ReqMachine req \<noteq> [] then Inr (SCOPE_MACHINE, ReqMachine req)
      else if ReqCluster req \<noteq> [] then Inr (SCOPE_CLUSTER, ReqCluster req)
      else if ReqScope req = SCOPE_UNSPECIFIED then Inr (autoScope S c subject ms w)
      else bind_res (targetFor (ReqScope req) subject ms) (\<lambda>target. Inr (ReqScope req, target)))"

definition Ban ::
    "hwid_env \<Rightarrow> 's store_ops \<Rightarrow> instant \<Rightarrow> string \<Rightarrow> ban_request \<Rightarrow> gate option \<Rightarrow> 's \<Rightarrow>
     (gate_error, ban_outcome) result \<times> 's" where
  "Ban E S now reference req gate w =
     (case gate of
        None \<Rightarrow> (Inl HwidOff, w)
      | Some g \<Rightarrow>
        let subject = key E \<lparr>IdSubject = ReqSubject req, IdUsername = ReqUsername req\<rparr> in
        case MachinesOfSubject S subject w of
          Inl e \<Rightarrow> (Inl (StoreFailed e), w)
        | Inr ms \<Rightarrow>
          (case choose_target S (cfg g) req subject ms w of
             Inl e \<Rightarrow> (Inl e, w)
           | Inr (scope, target) \<Rightarrow>
             if target = [] then (Inl NothingToBan, w)
             else (case reach S scope target w of
               Inl e \<Rightarrow> (Inl e, w)
             | Inr (acc, n) \<Rightarrow>
               if length acc > confirmThreshold \<and> \<not> Confirm req
               then (Inr \<lparr>OutBan = None, OutScope = scope, OutAccounts = acc, OutMachines = n, NeedsConfirmation = True\<rparr>, w)
               else
                 let b = \<lparr>Reference = reference, Scope = scope, Target = target, Reason = ReqReason req, By = ReqBy req,
                          CreatedAt = now, ExpiresAt = ban_expiry (cfg g) req scope now, Lifted = False\<rparr>
                 in (case SaveBan S b w of
                   (Some e, w) \<Rightarrow> (Inl (StoreFailed e), w)
                 | (None, w) \<Rightarrow>
                     (Inr \<lparr>OutBan = Some b, OutScope = scope, OutAccounts = acc, OutMachines = n, NeedsConfirmation = False\<rparr>, w)))))"

definition Unban :: "'s store_ops \<Rightarrow> string \<Rightarrow> gate option \<Rightarrow> 's \<Rightarrow> gate_error option \<times> 's" where
  "Unban S reference gate w =
     (case gate of
        None \<Rightarrow> (Some HwidOff, w)
      | Some g \<Rightarrow>
          (case BanByReference S reference w of
             Inl e \<Rightarrow> (Some (StoreFailed e), w)
           | Inr None \<Rightarrow> (Some (NoSuchBan reference), w)
           | Inr (Some b) \<Rightarrow> (case LiftBan S reference w of (e, w) \<Rightarrow> (map_option StoreFailed e, w))))"

definition Bans :: "'s store_ops \<Rightarrow> bool \<Rightarrow> instant \<Rightarrow> gate option \<Rightarrow> 's \<Rightarrow> (gate_error, ban list) result" where
  "Bans S includeInactive now gate w =
     (case gate of
        None \<Rightarrow> Inl HwidOff
      | Some g \<Rightarrow> (case ListBans S includeInactive now w of Inl e \<Rightarrow> Inl (StoreFailed e) | Inr bs \<Rightarrow> Inr bs))"

definition Prune :: "'s store_ops \<Rightarrow> instant \<Rightarrow> gate option \<Rightarrow> 's \<Rightarrow> (gate_error, int) result \<times> 's" where
  "Prune S now gate w =
     (case gate of
        None \<Rightarrow> (Inr 0, w)
      | Some g \<Rightarrow>
          (case PruneStore S (now - Retention (cfg g)) (now - IPRetention (cfg g)) w of
             (Inl e, w) \<Rightarrow> (Inl (StoreFailed e), w)
           | (Inr n, w) \<Rightarrow> (Inr n, w)))"

section \<open>Runs of the gate\<close>

text \<open>The operations of the gate that change a state, and the owner's switch of a machine's trust.\<close>

datatype hwid_op =
    CheckOp readings "string \<times> string" identity "wire_report option" string
  | ChallengeOp "octets option" instant instant
  | BanOp instant string ban_request
  | UnbanOp string
  | PruneOp instant
  | TrustOp string bool

fun hwid_step :: "hwid_env \<Rightarrow> 's store_ops \<Rightarrow> hwid_op \<Rightarrow> gate option \<times> 's \<Rightarrow> gate option \<times> 's" where
  "hwid_step E S (CheckOp t uuids i report ip) (gate, w) = snd (Check E S t uuids i report ip gate w)"
| "hwid_step E S (ChallengeOp nonce now now') (gate, w) = (snd (Challenge nonce now now' gate), w)"
| "hwid_step E S (BanOp now reference req) (gate, w) = (gate, snd (Ban E S now reference req gate w))"
| "hwid_step E S (UnbanOp reference) (gate, w) = (gate, snd (Unban S reference gate w))"
| "hwid_step E S (PruneOp now) (gate, w) = (gate, snd (Prune S now gate w))"
| "hwid_step E S (TrustOp mid t) (gate, w) = (gate, snd (SetTrusted S mid t w))"

definition hwid_run :: "hwid_env \<Rightarrow> 's store_ops \<Rightarrow> hwid_op list \<Rightarrow> gate option \<times> 's \<Rightarrow> gate option \<times> 's" where
  "hwid_run E S ops st = fold (hwid_step E S) ops st"

text \<open>The operation neither lifts the ban nor stores another one under the same number.\<close>

fun untouched :: "string \<Rightarrow> hwid_op \<Rightarrow> bool" where
  "untouched r (BanOp _ reference _) \<longleftrightarrow> reference \<noteq> r"
| "untouched r (UnbanOp reference) \<longleftrightarrow> reference \<noteq> r"
| "untouched r _ \<longleftrightarrow> True"

definition known_scope :: "ban \<Rightarrow> bool" where
  "known_scope b \<longleftrightarrow> Scope b \<in> {SCOPE_ACCOUNT, SCOPE_MACHINE, SCOPE_CLUSTER}"

definition enforcing_gate :: "gate option \<Rightarrow> bool" where
  "enforcing_gate gate \<longleftrightarrow> (case gate of None \<Rightarrow> False | Some g \<Rightarrow> Enforcing g)"

lemma cfg_takeChallenge [simp]: "cfg (snd (takeChallenge n now g)) = cfg g"
  by (simp add: takeChallenge_def split: option.splits)

lemma cfg_expireLocked [simp]: "cfg (expireLocked now g) = cfg g"
  by (simp add: expireLocked_def Let_def)

lemma cfg_validate: "validate E now now' r g = (e, g') \<Longrightarrow> cfg g' = cfg g"
  using cfg_takeChallenge[of "Nonce r" now' g]
  by (auto simp: validate_def Let_def case_prod_unfold split: option.splits if_splits)

lemma enforcing_Check: "enforcing_gate (fst (snd (Check E S t uuids i report ip gate w))) = enforcing_gate gate"
proof -
  have enf: "Enforcing g' = Enforcing g" if "validate E now now' r g = (e, g')" for now now' r g e g'
    using cfg_validate[OF that] by (simp add: Enforcing_def)
  show ?thesis
  proof (cases gate)
    case None
    then show ?thesis by (simp add: Check_def enforcing_gate_def)
  next
    case (Some g)
    show ?thesis
    proof (cases report)
      case None
      then show ?thesis by (simp add: Some Check_def split: option.split)
    next
      case r: (Some r)
      obtain e g' where v: "validate E (at_report t) (at_challenge t) r g = (e, g')" by (cases "validate E (at_report t) (at_challenge t) r g")
      have "fst (snd (Check E S t uuids i report ip gate w)) = Some g'"
        by (cases e) (simp_all add: Some r v Check_def Let_def split: sum.split prod.split)
      then show ?thesis using enf[OF v] by (simp add: Some enforcing_gate_def)
    qed
  qed
qed

lemma enforcing_Challenge: "enforcing_gate (snd (Challenge nonce now now' gate)) = enforcing_gate gate"
  by (auto simp: Challenge_def Let_def enforcing_gate_def Enforcing_def split: option.splits)

lemma enforcing_step: "enforcing_gate (fst (hwid_step E S op st)) = enforcing_gate (fst st)"
  by (cases st; cases op) (simp_all add: enforcing_Check enforcing_Challenge)

context hwid_store
begin

lemma merge_clusters_keep:
  "ban_of (snd (merge_clusters S target cs w)) = ban_of w \<and> (ok w \<longrightarrow> ok (snd (merge_clusters S target cs w)))"
proof (induction cs arbitrary: w)
  case Nil
  then show ?case by simp
next
  case (Cons c cs)
  obtain e w' where step: "MoveCluster S c target w = (e, w')" by fastforce
  have "ban_of w' = ban_of w" "ok w \<longrightarrow> ok w'"
    using move_cluster_frame[of c target w] ok_mutators(3)[of w c target] by (simp_all add: step)
  then show ?case using Cons.IH[of w'] by (simp add: step split: option.splits)
qed

lemma findBan_clear:
  assumes "ok w" "findBan S now a b c w = Inr None" "ban_of w r = Some x" "Active x now" "known_scope x"
  shows "Target x \<notin> {a, b, c}"
proof -
  obtain bs where bs: "ActiveBans S [a, b, c] now w = Inr bs"
    using assms(2) by (auto simp: findBan_def split: sum.splits)
  have none: "y \<in> set bs \<Longrightarrow> \<not> known_scope y" for y
    using assms(2) by (auto simp: findBan_def bs first_with_scope_def known_scope_def find_None_iff split: option.splits)
  show ?thesis using active_bans[OF assms(1) bs] none[of x] assms(3-5) by auto
qed

lemma admit_keep:
  "ban_of (snd (admit E S t uuids i r ip res sigs g w)) = ban_of w \<and>
   (ok w \<longrightarrow> ok (snd (admit E S t uuids i r ip res sigs g w)))"
proof -
  define m where "m = \<lparr>ID = (if MachineID res = [] then fst uuids else MachineID res),
               ClusterID = (if ResCluster res = [] then snd uuids else ResCluster res),
               Platform = platform_name E (ReportPlatform r), Flags = flagNames (flag_name E) (ReportFlags r),
               Trusted = False, FirstSeen = at_save t, LastSeen = at_save t, LastIP = ip\<rparr>"
  define a where "a = \<lparr>Subject = IdSubject i, Username = IdUsername i, SeenAt = at_save t\<rparr>"
  obtain e1 w1 where 1: "merge_clusters S (ClusterID m) (MergeClusters res) w = (e1, w1)" by fastforce
  obtain e2 w2 where 2: "SaveMachine S m sigs w1 = (e2, w2)" by fastforce
  obtain e3 w3 where 3: "SeeAccount S (ID m) a w2 = (e3, w3)" by fastforce
  have "snd (admit E S t uuids i r ip res sigs g w) \<in> {w1, w2, w3}"
    using 1 2 3 unfolding admit_def m_def[symmetric] a_def[symmetric] Let_def
    by (simp split: option.splits sum.splits)
  moreover have "ban_of w1 = ban_of w \<and> (ok w \<longrightarrow> ok w1)"
    using merge_clusters_keep[of "ClusterID m" "MergeClusters res" w] 1 by simp
  moreover have "ban_of w2 = ban_of w1 \<and> (ok w1 \<longrightarrow> ok w2)"
    using save_machine_frame[of m sigs w1] ok_mutators(1)[of w1 m sigs] 2 by simp
  moreover have "ban_of w3 = ban_of w2 \<and> (ok w2 \<longrightarrow> ok w3)"
    using see_account_frame(1)[of "ID m" a w2] ok_mutators(2)[of w2 "ID m" a] 3 by simp
  ultimately show ?thesis by auto
qed

lemma admit_verdict:
  assumes w: "ok w" and enf: "Enforcing g"
    and admit: "admit E S t uuids i r ip res sigs g w = (Inr v, w')"
  shows "\<exists>m. mach w' (MachineId v) = Some m \<and> seen w' (MachineId v) (IdSubject i) \<and>
    (\<forall>ref b. ban_of w ref = Some b \<longrightarrow> Active b (at_bans t) \<longrightarrow> known_scope b \<longrightarrow>
       Target b \<notin> {key E i, MachineId v, ClusterID m})"
proof -
  let ?m = "\<lparr>ID = (if MachineID res = [] then fst uuids else MachineID res),
               ClusterID = (if ResCluster res = [] then snd uuids else ResCluster res),
               Platform = platform_name E (ReportPlatform r), Flags = flagNames (flag_name E) (ReportFlags r),
               Trusted = False, FirstSeen = at_save t, LastSeen = at_save t, LastIP = ip\<rparr>"
  let ?a = "\<lparr>Subject = IdSubject i, Username = IdUsername i, SeenAt = at_save t\<rparr>"
  obtain w1 w2 where w1: "merge_clusters S (ClusterID ?m) (MergeClusters res) w = (None, w1)"
    and w2: "SaveMachine S ?m sigs w1 = (None, w2)"
    and w3: "SeeAccount S (ID ?m) ?a w2 = (None, w')"
    and none: "findBan S (at_bans t) (key E i) (ID ?m) (ClusterID ?m) w' = Inr None"
    and v: "v = issue_verdict E t i res ?m g"
    using admit enf by (auto simp: admit_def Let_def split: option.splits prod.splits sum.splits)
  have id: "MachineId v = ID ?m" by (simp add: v issue_verdict_def Let_def case_prod_unfold)
  have frames: "ban_of w1 = ban_of w" "ok w1" "ban_of w2 = ban_of w1" "ok w2" "ban_of w' = ban_of w2" "ok w'" "mach w' = mach w2"
    using merge_clusters_keep[of "ClusterID ?m" "MergeClusters res" w] w1 w
      save_machine_frame[of ?m sigs w1] ok_mutators(1)[of w1 ?m sigs] w2
      see_account_frame[of "ID ?m" ?a w2] ok_mutators(2)[of w2 "ID ?m" ?a] w3 by auto
  obtain m' where m': "mach w2 = (mach w1)(ID ?m \<mapsto> m')" "ClusterID m' = ClusterID ?m"
    using save_machine[OF w2] by auto
  have "seen w' (ID ?m) (IdSubject i)" using see_account[OF w3] by simp
  moreover have "Target b \<notin> {key E i, ID ?m, ClusterID ?m}"
    if "ban_of w ref = Some b" "Active b (at_bans t)" "known_scope b" for ref b
    by (rule findBan_clear[OF frames(6) none _ that(2,3)]) (use that(1) frames in simp)
  ultimately show ?thesis using m' frames(7) id by auto
qed

lemma CheckSubject_clear:
  assumes w: "ok w" and none: "CheckSubject E S now i (Some g) w = None" and enf: "Enforcing g"
    and b: "ban_of w r = Some b" "Active b now"
  shows "Target b \<noteq> key E i \<and> (\<forall>mid m. seen w mid (key E i) \<longrightarrow> mach w mid = Some m \<longrightarrow> Target b \<notin> {mid, ClusterID m})"
proof -
  obtain ms where ms: "MachinesOfSubject S (key E i) w = Inr ms"
    using none enf by (auto simp: CheckSubject_def split: sum.splits)
  let ?ts = "key E i # map ID ms @ remdups (map ClusterID ms)"
  have "ActiveBans S ?ts now w = Inr []"
    using none enf ms by (auto simp: CheckSubject_def Let_def split: sum.splits list.splits)
  from active_bans[OF w this] b have out: "Target b \<notin> set ?ts" by auto
  have "ID m \<in> set ?ts \<and> ClusterID m \<in> set ?ts" if "seen w mid (key E i)" "mach w mid = Some m" for mid m
    using of_subject[OF w ms] that by auto
  then show ?thesis using out filed[OF w] by fastforce
qed

end

end
