(* ===== verification/HwidBans.thy ===== *)
theory HwidBans
  imports HwidGate
begin

text \<open>
  What the machine recognition promises: a stored ban keeps its account, machine and cluster out
  until it is lifted or runs out, whatever happens in between; an automatic ban stays narrow; a
  challenge admits one report. And one promise it does not keep: a cluster ban does not follow the
  cluster when two clusters are merged. In the runs with the store a request is one step; two checks
  that meet in the middle are not covered. The two operations on challenges hold the gate's lock, so
  their runs are all interleavings.
\<close>

section \<open>A ban lasts\<close>

context hwid_store
begin

lemma CheckSubject_state: "Check E S t uuids i None ip gate w = (res, gate', w') \<Longrightarrow> w' = w"
  by (auto simp: Check_def split: option.splits if_splits)

lemma Check_keep:
  "ban_of (snd (snd (Check E S t uuids i report ip gate w))) = ban_of w \<and>
   (ok w \<longrightarrow> ok (snd (snd (Check E S t uuids i report ip gate w))))"
proof -
  have adm: "admit E S t uuids i r ip res sigs g w = (x, w') \<Longrightarrow> ban_of w' = ban_of w \<and> (ok w \<longrightarrow> ok w')"
    for r res sigs g x w'
    using admit_keep[of E t uuids i r ip res sigs g w] by simp
  show ?thesis
    by (auto simp: Check_def Let_def split: option.splits prod.splits sum.splits dest!: adm)
qed

lemma Ban_store:
  "snd (Ban E S now ref req gate w) = w \<or> (\<exists>b. Reference b = ref \<and> snd (Ban E S now ref req gate w) = snd (SaveBan S b w))"
proof -
  have saved: "SaveBan S b w = (e, x) \<Longrightarrow> Reference b = ref \<Longrightarrow>
      x = w \<or> (\<exists>b. Reference b = ref \<and> x = snd (SaveBan S b w))" for b e x
    by (metis snd_conv)
  show ?thesis
    by (auto simp: Ban_def Let_def split: option.splits prod.splits sum.splits dest!: saved)
qed

lemma Unban_store: "snd (Unban S ref gate w) = w \<or> snd (Unban S ref gate w) = snd (LiftBan S ref w)"
  by (auto simp: Unban_def split: option.splits prod.splits sum.splits)

lemma Prune_store: "snd (Prune S now gate w) = w \<or> (\<exists>a b. snd (Prune S now gate w) = snd (PruneStore S a b w))"
  by (auto simp: Prune_def split: option.splits prod.splits sum.splits) (metis snd_conv)+

lemma step_keep:
  assumes "ok (snd st)" "untouched ref op"
  shows "ok (snd (hwid_step E S op st)) \<and> ban_of (snd (hwid_step E S op st)) ref = ban_of (snd st) ref"
proof -
  obtain gate w where st: "st = (gate, w)" by (cases st)
  show ?thesis
  proof (cases op)
    case (CheckOp t uuids i report ip)
    then show ?thesis using assms Check_keep[of E t uuids i report ip gate w] by (simp add: st)
  next
    case (ChallengeOp nonce now now')
    then show ?thesis using assms by (simp add: st)
  next
    case (BanOp now reference req)
    then show ?thesis using assms Ban_store[of E now reference req gate w]
      by (auto simp: st save_ban_frame ok_mutators)
  next
    case (UnbanOp reference)
    then show ?thesis using assms Unban_store[of reference gate w]
      by (auto simp: st lift_ban_frame ok_mutators)
  next
    case (PruneOp now)
    then show ?thesis using assms Prune_store[of now gate w]
      by (auto simp: st prune_frame ok_mutators)
  next
    case (TrustOp mid t)
    then show ?thesis using assms by (simp add: st set_trusted_frame ok_mutators)
  qed
qed

lemma run_keep:
  assumes "ok (snd st)" "list_all (untouched ref) ops"
  shows "ok (snd (hwid_run E S ops st)) \<and> ban_of (snd (hwid_run E S ops st)) ref = ban_of (snd st) ref"
  using assms
proof (induction ops arbitrary: st)
  case Nil
  then show ?case by (simp add: hwid_run_def)
next
  case (Cons op ops)
  then show ?case using step_keep[of st ref op E] by (simp add: hwid_run_def)
qed

end

lemma enforcing_run: "enforcing_gate (fst (hwid_run E S ops st)) = enforcing_gate (fst st)"
  by (induction ops arbitrary: st) (simp_all add: hwid_run_def enforcing_step)

text \<open>The scope of a stored ban is one of the three that the check looks for.\<close>

lemma targetFor_scope: "targetFor sc u ms = Inr x \<Longrightarrow> sc \<in> {SCOPE_ACCOUNT, SCOPE_MACHINE, SCOPE_CLUSTER}"
  by (auto simp: targetFor_def split: if_splits)

lemma autoScope_scope: "autoScope S c u ms w = (sc, x) \<Longrightarrow> sc \<in> {SCOPE_ACCOUNT, SCOPE_MACHINE, SCOPE_CLUSTER}"
  by (auto simp: autoScope_def Let_def split: list.splits sum.splits if_splits)

lemma choose_target_scope:
  "choose_target S c req u ms w = Inr (sc, x) \<Longrightarrow> sc \<in> {SCOPE_ACCOUNT, SCOPE_MACHINE, SCOPE_CLUSTER}"
  by (auto simp: choose_target_def res_simps split: if_splits dest!: targetFor_scope autoScope_scope)

lemma Ban_saved:
  assumes "Ban E S now ref req gate w = (Inr out, w')" "OutBan out = Some b"
  shows "SaveBan S b w = (None, w') \<and> Reference b = ref \<and> known_scope b"
proof -
  obtain c u ms where "SaveBan S b w = (None, w')" "Reference b = ref"
    "choose_target S c req u ms w = Inr (Scope b, Target b)"
    using assms by (auto simp: Ban_def Let_def split: option.splits prod.splits sum.splits if_splits)
  then show ?thesis using choose_target_scope[of S c req u ms w "Scope b" "Target b"] by (simp add: known_scope_def)
qed

definition clear_of :: "ban \<Rightarrow> string \<Rightarrow> verdict option \<Rightarrow> (string \<Rightarrow> machine option) \<Rightarrow> (string \<Rightarrow> string \<Rightarrow> bool) \<Rightarrow> bool" where
  "clear_of b subject v mach seen \<longleftrightarrow>
     (case v of
        Some v \<Rightarrow> (\<exists>m. mach (MachineId v) = Some m \<and> Target b \<notin> {subject, MachineId v, ClusterID m})
      | None \<Rightarrow> Target b \<noteq> subject \<and>
          (\<forall>mid m. seen mid subject \<longrightarrow> mach mid = Some m \<longrightarrow> Target b \<notin> {mid, ClusterID m}))"

context hwid_store
begin

lemma Check_clear:
  assumes w: "ok w" and enf: "enforcing_gate gate"
    and b: "ban_of w r = Some b" "Active b (at_bans t)" "known_scope b"
    and check: "Check E S t uuids i report ip gate w = (Inr v, gate', w')"
  shows "clear_of b (key E i) v (mach w') (seen w')"
proof -
  obtain g where g: "gate = Some g" "Enforcing g"
    using enf by (auto simp: enforcing_gate_def split: option.splits)
  show ?thesis
  proof (cases report)
    case None
    then have "CheckSubject E S (at_bans t) i (Some g) w = None" "v = None" "w' = w"
      using check g by (auto simp: Check_def split: if_splits option.splits)
    then show ?thesis using CheckSubject_clear[OF w _ g(2) b(1,2), where E = E and i = i] by (simp add: clear_of_def)
  next
    case (Some rep)
    obtain e g1 where val: "validate E (at_report t) (at_challenge t) rep g = (e, g1)" by fastforce
    have enf1: "Enforcing g1" using cfg_validate[OF val] g(2) by (simp add: Enforcing_def)
    obtain v0 res sigs where v: "v = Some v0" and
      adm: "admit E S t uuids i rep ip res sigs g1 w = (Inr v0, w')"
      using check Some g val enf1
      by (auto simp: Check_def Let_def split: option.splits prod.splits sum.splits if_splits)
    show ?thesis using admit_verdict[OF w enf1 adm] b by (auto simp: v clear_of_def)
  qed
qed

lemma ban_holds:
  assumes w: "ok w0" and enf: "enforcing_gate gate"
    and ban: "Ban E S now r req gate w0 = (Inr out, w)" "OutBan out = Some b"
    and run: "list_all (untouched r) ops" "hwid_run E S ops (gate, w) = (gate1, w1)"
    and live: "Active b (at_bans t)"
    and check: "Check E S t uuids i report ip gate1 w1 = (Inr v, gate2, w2)"
  shows "clear_of b (key E i) v (mach w2) (seen w2)"
proof -
  have saved: "SaveBan S b w0 = (None, w)" "Reference b = r" "known_scope b"
    using Ban_saved[OF ban] by auto
  have "ok w" "ban_of w r = Some b"
    using ok_mutators(5)[OF w, of b] save_ban[OF saved(1)] saved by simp_all
  then have "ok w1" "ban_of w1 r = Some b" using run_keep[of "(gate, w)" r ops E] run by simp_all
  moreover have "enforcing_gate gate1" using enforcing_run[of E S ops "(gate, w)"] run enf by simp
  ultimately show ?thesis using Check_clear live saved(3) check by blast
qed

end


section \<open>Sample data\<close>

definition sample_hwid :: hwid_env where
  "sample_hwid = \<lparr>parse_key = (\<lambda>_. None), ed25519_verify = (\<lambda>_ _ _. False), ecdsa_verify = (\<lambda>_ _ _. False),
     sha256 = (\<lambda>m. m), hmac_sha256 = sample_mac, platform_name = (\<lambda>_. ''linux''), flag_name = (\<lambda>_. ''flag''),
     lower_other = (\<lambda>s. s)\<rparr>"

definition sample_config :: hwid_config where
  "sample_config = withDefaults \<lparr>Mode = ModeEnforce, Backend = [], RequireReport = False, RequireChallenge = Some False,
     RequireLauncher = False, RequireHardwareKey = False, MinScore = 0, MinKinds = 0, ClusterScore = 0, FanOutLimit = 0,
     MaxClusterSize = 0, VMPolicy = [], HardwareBanTTL = 0, TicketTTL = 0, ChallengeTTL = 0, Retention = 0, IPRetention = 0\<rparr>"

definition sample_gate :: gate where
  "sample_gate = \<lparr>cfg = sample_config, tickets_of = sample_tickets, challenges = []\<rparr>"

definition sample_readings :: "instant \<Rightarrow> readings" where
  "sample_readings t = \<lparr>at_report = t, at_challenge = t, at_save = t, at_bans = t\<rparr>"

definition sample_request :: ban_request where
  "sample_request = \<lparr>ReqScope = SCOPE_UNSPECIFIED, ReqSubject = ''bob'', ReqUsername = [], ReqMachine = [], ReqCluster = [],
     ReqReason = ''grief'', ReqBy = ''owner'', TTL = 0, Permanent = True, Confirm = False\<rparr>"

definition player :: "string \<Rightarrow> identity" where
  "player name = \<lparr>IdSubject = name, IdUsername = name\<rparr>"


section \<open>An automatic ban stays narrow\<close>

lemma memory_MachinesOfCluster_set:
  "memory_ok s \<Longrightarrow> set (memory_MachinesOfCluster c s) = {m. \<exists>i. lookup (machines s) i = Some m \<and> ClusterID m = c}"
  using set_values[of "machines s"] by (auto simp: memory_MachinesOfCluster_def memory_ok_def)

text \<open>
  A ban request that names no scope, machine or cluster widens to a whole cluster only when every
  machine the account was seen on lies in that cluster, no machine of the cluster is trusted, the
  cluster has at most \<open>MaxClusterSize\<close> machines, and the accounts it reaches are at most three or the
  owner has confirmed; and it never names a single machine.
\<close>

theorem automatic_ban_is_narrow:
  assumes "memory_ok w" "ReqMachine req = []" "ReqCluster req = []" "ReqScope req = SCOPE_UNSPECIFIED"
    and "Ban E (memory_ops ef) now r req (Some g) w = (Inr out, w')" "OutBan out = Some b"
  shows "Scope b = SCOPE_ACCOUNT \<and> Target b = key E \<lparr>IdSubject = ReqSubject req, IdUsername = ReqUsername req\<rparr> \<or>
    Scope b = SCOPE_CLUSTER \<and>
    (\<forall>mid m. memory_seen w mid (key E \<lparr>IdSubject = ReqSubject req, IdUsername = ReqUsername req\<rparr>) \<longrightarrow>
       lookup (machines w) mid = Some m \<longrightarrow> ClusterID m = Target b) \<and>
    (\<forall>mid m. lookup (machines w) mid = Some m \<longrightarrow> ClusterID m = Target b \<longrightarrow> \<not> Trusted m) \<and>
    int (length (memory_MachinesOfCluster (Target b) w)) \<le> MaxClusterSize (cfg g) \<and>
    (length (memory_AccountsOfCluster (Target b) w) \<le> 3 \<or> Confirm req)"
proof -
  let ?u = "key E \<lparr>IdSubject = ReqSubject req, IdUsername = ReqUsername req\<rparr>"
  let ?ms = "memory_MachinesOfSubject ?u w"
  have auto: "autoScope (memory_ops ef) (cfg g) ?u ?ms w = (Scope b, Target b)"
    and conf: "Scope b = SCOPE_CLUSTER \<Longrightarrow> length (memory_AccountsOfCluster (Target b) w) \<le> 3 \<or> Confirm req"
    using assms(2-6) by (auto simp: Ban_def Let_def memory_ops_def choose_target_def reach_def confirmThreshold_def scope_defs
        split: prod.splits sum.splits if_splits)
  show ?thesis
  proof (cases "Scope b = SCOPE_CLUSTER")
    case False
    then show ?thesis using auto by (auto simp: autoScope_def Let_def split: list.splits sum.splits if_splits)
  next
    case True
    have "\<forall>m \<in> set ?ms. ClusterID m = Target b" "int (length (memory_MachinesOfCluster (Target b) w)) \<le> MaxClusterSize (cfg g)"
      "\<forall>m \<in> set (memory_MachinesOfCluster (Target b) w). \<not> Trusted m"
      using auto True by (auto simp: autoScope_def Let_def memory_ops_def scope_defs list_ex_iff split: list.splits if_splits)
    then show ?thesis using True conf
      by (auto simp: memory_MachinesOfSubject_set[OF assms(1)] memory_MachinesOfCluster_set[OF assms(1)])
  qed
qed

definition unique_pc :: memory_store where
  "unique_pc = memory_SeeAccount ''m1'' \<lparr>Subject = ''bob'', Username = ''bob'', SeenAt = 5\<rparr>
     (memory_SaveMachine \<lparr>ID = ''m1'', ClusterID = ''c1'', Platform = [], Flags = [], Trusted = False, FirstSeen = 5,
        LastSeen = 5, LastIP = []\<rparr> [] NewMemoryStore)"

lemma automatic_ban_is_narrow_witness:
  "SCOPE_CLUSTER = SCOPE_CLUSTER \<and> int (length (memory_MachinesOfCluster ''c1'' unique_pc)) \<le> MaxClusterSize (cfg sample_gate)"
proof -
  let ?m = "\<lparr>ID = ''m1'', ClusterID = ''c1'', Platform = [], Flags = [], Trusted = False, FirstSeen = 5,
        LastSeen = 5, LastIP = []\<rparr>"
  let ?b = "\<lparr>Reference = ''LM-1'', Scope = SCOPE_CLUSTER, Target = ''c1'', Reason = ''grief'', By = ''owner'',
      CreatedAt = 7, ExpiresAt = zero_time, Lifted = False\<rparr>"
  let ?out = "\<lparr>OutBan = Some ?b, OutScope = SCOPE_CLUSTER, OutAccounts = memory_AccountsOfCluster ''c1'' unique_pc,
     OutMachines = 1, NeedsConfirmation = False\<rparr>"
  have pc: "machines unique_pc = [(''m1'', ?m)]"
    "accounts unique_pc = [(''m1'', [(''bob'', \<lparr>Subject = ''bob'', Username = ''bob'', SeenAt = 5\<rparr>)])]" "bans unique_pc = []"
    by (simp_all add: unique_pc_def memory_SeeAccount_def memory_SaveMachine_def NewMemoryStore_def Let_def)
  have "Ban sample_hwid (memory_ops (=)) 7 ''LM-1'' sample_request (Some sample_gate) unique_pc =
      (Inr ?out, memory_SaveBan ?b unique_pc)"
    by (simp add: Ban_def memory_ops_def memory_MachinesOfSubject_def pc choose_target_def sample_request_def
        autoScope_def memory_MachinesOfCluster_def reach_def scope_defs ban_expiry_def key_def sample_gate_def sample_config_def
        withDefaults_def or_int_def Let_def memory_AccountsOfCluster_def newest_def sortedAccounts_def confirmThreshold_def)
  from automatic_ban_is_narrow[OF _ _ _ _ this, of ?b]
  show ?thesis by (simp add: scope_defs sample_request_def memory_ok_def keys_ok_def pc)
qed


section \<open>A cluster ban does not follow a merge\<close>

lemma MoveCluster_lookup:
  "lookup (machines (memory_MoveCluster src dst s)) mid = Some m \<Longrightarrow>
     \<exists>m0. lookup (machines s) mid = Some m0 \<and> ClusterID m = (if ClusterID m0 = src then dst else ClusterID m0)"
  by (auto simp: memory_MoveCluster_def)

lemma MoveCluster_gone:
  "src \<noteq> dst \<Longrightarrow> lookup (machines (memory_MoveCluster src dst s)) mid = Some m \<Longrightarrow> ClusterID m \<noteq> src"
  by (drule MoveCluster_lookup) (auto split: if_splits)

lemma MoveCluster_absent:
  assumes "\<And>mid m. lookup (machines s) mid = Some m \<Longrightarrow> ClusterID m \<noteq> c" "c \<noteq> dst"
    and "lookup (machines (memory_MoveCluster src dst s)) mid = Some m"
  shows "ClusterID m \<noteq> c"
  using MoveCluster_lookup[OF assms(3)] assms(1)[of mid] assms(2) by (auto split: if_splits)

lemma merge_clusters_absent:
  assumes "\<And>mid m. lookup (machines s) mid = Some m \<Longrightarrow> ClusterID m \<noteq> c" "c \<noteq> dst"
    and "lookup (machines (snd (merge_clusters (memory_ops ef) dst cs s))) mid = Some m"
  shows "ClusterID m \<noteq> c"
  using assms
proof (induction cs arbitrary: s)
  case Nil
  then show ?case by simp
next
  case (Cons x cs)
  show ?case
  proof (rule Cons.IH[of "memory_MoveCluster x dst s"])
    show "ClusterID m \<noteq> c" if "lookup (machines (memory_MoveCluster x dst s)) mid = Some m" for mid m
      by (rule MoveCluster_absent[OF Cons.prems(1) Cons.prems(2) that])
  qed (use Cons.prems in \<open>auto simp: memory_ops_def\<close>)
qed

lemma merge_clusters_gone:
  assumes "c \<in> set cs" "c \<noteq> dst"
    and "lookup (machines (snd (merge_clusters (memory_ops ef) dst cs s))) mid = Some m"
  shows "ClusterID m \<noteq> c"
  using assms
proof (induction cs arbitrary: s)
  case Nil
  then show ?case by simp
next
  case (Cons x cs)
  have run: "lookup (machines (snd (merge_clusters (memory_ops ef) dst cs (memory_MoveCluster x dst s)))) mid = Some m"
    using Cons.prems(3) by (simp add: memory_ops_def)
  show ?case
  proof (cases "x = c")
    case True
    show ?thesis
      by (rule merge_clusters_absent[OF _ Cons.prems(2) run]) (use True Cons.prems(2) MoveCluster_gone in blast)
  next
    case False
    then show ?thesis using Cons.IH[OF _ Cons.prems(2) run] Cons.prems(1) by simp
  qed
qed

lemma merge_clusters_error: "fst (merge_clusters (memory_ops ef) dst cs s) = None"
  by (induction cs arbitrary: s) (simp_all add: memory_ops_def)

text \<open>
  Merging clusters loses cluster bans. When a check resolves a report to a machine and merges
  another cluster \<open>c\<close> into that machine's, the bans stay as they were, so a ban on \<open>c\<close> still stands,
  but no known machine is in \<open>c\<close> any more: no machine the ban was laid on is refused by it again.
\<close>

theorem merge_orphans_cluster_bans:
  assumes "memory_ok w" "c \<in> set (MergeClusters res)" "ResCluster res \<notin> {[], c}"
    and "snd (admit E (memory_ops ef) t uuids i r ip res sigs g w) = w'"
  shows "lookup (bans w') = lookup (bans w) \<and> memory_MachinesOfCluster c w' = [] \<and>
    (\<forall>mid m subject now b. lookup (machines w') mid = Some m \<longrightarrow> c \<notin> {subject, mid} \<longrightarrow>
       findBan (memory_ops ef) now subject mid (ClusterID m) w' = Inr (Some b) \<longrightarrow> Target b \<noteq> c)"
proof -
  have bans: "lookup (bans w') = lookup (bans w)" and ok: "memory_ok w'"
    using mem.admit_keep[where equal_fold = ef and E = E and t = t and uuids = uuids and i = i and r = r and ip = ip and
        res = res and sigs = sigs and g = g and w = w] assms(1,4) by auto
  obtain w1 where w1: "merge_clusters (memory_ops ef) (ResCluster res) (MergeClusters res) w = (None, w1)"
    using merge_clusters_error[of ef "ResCluster res" "MergeClusters res" w] by (cases "merge_clusters (memory_ops ef) (ResCluster res) (MergeClusters res) w") auto
  define m0 where "m0 = \<lparr>ID = (if MachineID res = [] then fst uuids else MachineID res),
               ClusterID = (if ResCluster res = [] then snd uuids else ResCluster res),
               Platform = platform_name E (ReportPlatform r), Flags = flagNames (flag_name E) (ReportFlags r),
               Trusted = False, FirstSeen = at_save t, LastSeen = at_save t, LastIP = ip\<rparr>"
  define a where "a = \<lparr>Subject = IdSubject i, Username = IdUsername i, SeenAt = at_save t\<rparr>"
  have c0: "ClusterID m0 = ResCluster res" using assms(3) by (simp add: m0_def)
  have w': "w' = memory_SeeAccount (ID m0) a (memory_SaveMachine m0 sigs w1)"
    unfolding assms(4)[symmetric] admit_def m0_def[symmetric] a_def[symmetric] Let_def c0
    by (simp add: w1 memory_ops_simps split: sum.splits option.splits)
  have gone: "ClusterID m \<noteq> c" if "lookup (machines w1) mid = Some m" for mid m
    using merge_clusters_gone[OF assms(2), of "ResCluster res"] w1 that assms(3) by (metis insertI1 insertI2 snd_conv)
  have away: "ClusterID m \<noteq> c" if look: "lookup (machines w') mid = Some m" for mid m
  proof -
    have "machines w' = machines (memory_SaveMachine m0 sigs w1)" by (simp add: w' memory_SeeAccount_def Let_def)
    then show ?thesis using memory_SaveMachine_machines[of m0 sigs w1] look gone[of mid m] c0 assms(3)
      by (auto split: if_splits)
  qed
  have none: "memory_MachinesOfCluster c w' = []"
  proof -
    have "set (memory_MachinesOfCluster c w') = {}"
      unfolding memory_MachinesOfCluster_set[OF ok, of c] using away by blast
    then show ?thesis by simp
  qed
  have "Target b \<noteq> c" if m: "lookup (machines w') mid = Some m" "c \<notin> {subject, mid}"
    and b: "findBan (memory_ops ef) now subject mid (ClusterID m) w' = Inr (Some b)" for mid m subject now b
  proof -
    have "b \<in> set (memory_ActiveBans [subject, mid, ClusterID m] now w')"
      using b by (auto simp: findBan_def memory_ops_def first_with_scope_def find_Some_iff split: option.splits)
    then show ?thesis using m away[OF m(1)] by (auto simp: memory_ActiveBans_set[OF ok])
  qed
  then show ?thesis using bans none by blast
qed

definition two_clusters :: memory_store where
  "two_clusters = NewMemoryStore\<lparr>
     machines := [(''m1'', \<lparr>ID = ''m1'', ClusterID = ''c1'', Platform = [], Flags = [], Trusted = False, FirstSeen = 5,
        LastSeen = 5, LastIP = []\<rparr>)],
     bans := [(''LM-1'', \<lparr>Reference = ''LM-1'', Scope = SCOPE_CLUSTER, Target = ''c1'', Reason = [], By = [],
        CreatedAt = 5, ExpiresAt = zero_time, Lifted = False\<rparr>)]\<rparr>"

lemma merge_orphans_cluster_bans_witness:
  "memory_MachinesOfCluster ''c1'' two_clusters \<noteq> [] \<and>
   (\<exists>w'. memory_MachinesOfCluster ''c1'' w' = [] \<and> lookup (bans w') ''LM-1'' = lookup (bans two_clusters) ''LM-1'')"
proof -
  let ?res = "no_resolution\<lparr>MachineID := ''m2'', ResCluster := ''c2'', SameMachine := True, MergeClusters := [''c1'']\<rparr>"
  let ?w = "snd (admit sample_hwid (memory_ops (=)) (sample_readings 7) (''m'', ''c'') (player ''amy'') sample_report
     ''ip'' ?res [] sample_gate two_clusters)"
  have ok: "memory_ok two_clusters"
    by (simp add: two_clusters_def memory_ok_def NewMemoryStore_def keys_ok_def)
  from merge_orphans_cluster_bans[OF ok, of "''c1''" ?res sample_hwid "(=)" "sample_readings 7" "(''m'', ''c'')" "player ''amy''"
      sample_report "''ip''" "[]" sample_gate ?w]
  have "memory_MachinesOfCluster ''c1'' ?w = []" "lookup (bans ?w) = lookup (bans two_clusters)" by (simp_all add: no_resolution_def)
  then have "memory_MachinesOfCluster ''c1'' ?w = [] \<and> lookup (bans ?w) ''LM-1'' = lookup (bans two_clusters) ''LM-1''" by simp
  then show ?thesis by (auto simp: two_clusters_def memory_MachinesOfCluster_def)
qed

section \<open>A challenge admits once\<close>

datatype challenge_op = IssueOp octets instant instant | TakeOp octets instant

fun challenge_step :: "challenge_op \<Rightarrow> gate \<Rightarrow> bool \<times> gate" where
  "challenge_step (IssueOp n now now') g = (False, the (snd (Challenge (Some n) now now' (Some g))))"
| "challenge_step (TakeOp n now) g = takeChallenge n now g"

fun taken :: "octets \<Rightarrow> challenge_op list \<Rightarrow> gate \<Rightarrow> nat" where
  "taken n [] g = 0"
| "taken n (op # ops) g =
     (case challenge_step op g of (ok, g) \<Rightarrow>
       (if ok \<and> (\<exists>now. op = TakeOp n now) then 1 else 0) + taken n ops g)"

definition issued :: "octets \<Rightarrow> challenge_op list \<Rightarrow> nat" where
  "issued n ops = length (filter (\<lambda>op. case op of IssueOp n' _ _ \<Rightarrow> n' = n | _ \<Rightarrow> False) ops)"

definition held :: "octets \<Rightarrow> gate \<Rightarrow> nat" where
  "held n g = (if lookup (challenges g) n = None then 0 else 1)"

lemma lookup_keep_None: "lookup m n = None \<Longrightarrow> lookup (keep_if P m) n = None"
  by (auto simp: lookup_None_iff keep_if_def)

lemma expireLocked_keys: "keys_ok (challenges g) \<Longrightarrow> keys_ok (challenges (expireLocked now g))"
  by (simp add: expireLocked_def Let_def)

lemma expireLocked_None: "lookup (challenges g) n = None \<Longrightarrow> lookup (challenges (expireLocked now g)) n = None"
  by (simp add: expireLocked_def Let_def lookup_keep_None)

lemma held_step:
  assumes "keys_ok (challenges g)"
  shows "keys_ok (challenges (snd (challenge_step op g))) \<and>
    (if fst (challenge_step op g) \<and> (\<exists>now. op = TakeOp n now) then 1 else 0) + held n (snd (challenge_step op g)) \<le>
      issued n [op] + held n g"
proof (cases op)
  case (IssueOp m now now')
  show ?thesis using assms expireLocked_keys[OF assms, of now'] expireLocked_None[of g n now']
    by (auto simp: IssueOp Challenge_def Let_def issued_def held_def)
next
  case (TakeOp m now)
  then show ?thesis using assms by (auto simp: takeChallenge_def issued_def held_def split: option.splits)
qed

lemma issued_Cons: "issued n (op # ops) = issued n [op] + issued n ops"
  by (simp add: issued_def)

lemma taken_le: "keys_ok (challenges g) \<Longrightarrow> taken n ops g \<le> issued n ops + held n g"
proof (induction ops arbitrary: g)
  case Nil
  then show ?case by simp
next
  case (Cons op ops)
  obtain b g' where step: "challenge_step op g = (b, g')" by fastforce
  have "keys_ok (challenges g')"
    "(if b \<and> (\<exists>now. op = TakeOp n now) then 1 else 0) + held n g' \<le> issued n [op] + held n g"
    using held_step[OF Cons.prems, of op n] by (simp_all add: step)
  moreover have "taken n ops g' \<le> issued n ops + held n g'" by (rule Cons.IH) fact
  ultimately show ?case unfolding issued_Cons[of n op ops] by (simp add: step)
qed

text \<open>
  C25: A challenge admits at most one report: over any run of issued and presented challenges, in any
  interleaving and with any clock, a nonce is accepted at most as many times as it was issued (a fresh
  gate holds none), so a recorded report cannot be replayed against a server that requires challenges.
\<close>

theorem challenge_single_use:
  assumes "challenges g = []"
  shows "taken n ops g \<le> issued n ops"
  using taken_le[of g n ops] assms by (simp add: held_def)

lemma challenge_single_use_witness:
  "taken [1] [IssueOp [1] 0 0, TakeOp [1] 5, TakeOp [1] 6] sample_gate \<le> issued [1] [IssueOp [1] 0 0, TakeOp [1] 5, TakeOp [1] 6]"
  by (rule challenge_single_use) (simp add: sample_gate_def)

text \<open>The map of challenges is bounded.\<close>

lemma oldest_fold:
  assumes "\<forall>(k, e) \<in> set m. zero_time < e" "m \<noteq> [] \<or> (\<exists>k e. (k, e) \<in> A \<and> e = old \<and> zero_time < e)"
    and "old = zero_time \<or> (\<exists>k. (k, old) \<in> A) \<and> zero_time < old"
  shows "\<exists>k. (k, fold (\<lambda>(_, e) old. if old = zero_time \<or> e < old then e else old) m old) \<in> set m \<union> A"
  using assms
proof (induction m arbitrary: old A)
  case Nil
  then show ?case by auto
next
  case (Cons x m)
  obtain k e where x: "x = (k, e)" by (cases x)
  have e: "zero_time < e" using Cons.prems(1) x by simp
  let ?old = "if old = zero_time \<or> e < old then e else old"
  have "\<exists>k'. (k', fold (\<lambda>(_, e) old. if old = zero_time \<or> e < old then e else old) m ?old) \<in> set m \<union> (insert (k, e) A)"
    by (rule Cons.IH) (use Cons.prems e x in auto)
  then show ?case using x by auto
qed

lemma expireLocked_room:
  assumes "2 \<le> ChallengeTTL (cfg g)" "list_all (\<lambda>(_, e). zero_time < e) (challenges g)"
    and "length (challenges g) \<le> maxChallenges"
  shows "length (challenges (expireLocked now g)) < maxChallenges"
proof -
  let ?live = "keep_if (\<lambda>_ e. \<not> now > e) (challenges g)"
  show ?thesis
  proof (cases "length ?live < maxChallenges")
    case True
    then show ?thesis by (simp add: expireLocked_def Let_def)
  next
    case False
    have ne: "?live \<noteq> []" using False by (auto simp: maxChallenges_def)
    have pos: "\<forall>(k, e) \<in> set ?live. zero_time < e"
      using assms(2) by (auto simp: list_all_iff keep_if_def)
    obtain k where k: "(k, oldest_expiry ?live) \<in> set ?live"
      using oldest_fold[OF pos, of "{}" zero_time] ne by (auto simp: oldest_expiry_def)
    let ?cut = "oldest_expiry ?live + quot_two (ChallengeTTL (cfg g))"
    have "oldest_expiry ?live < ?cut" using assms(1) by (simp add: quot_two_def)
    then have "length (keep_if (\<lambda>_ e. \<not> e < ?cut) ?live) < length ?live"
      unfolding keep_if_def[of _ ?live] using k by (intro length_filter_less) auto
    also have "\<dots> \<le> maxChallenges" using length_keep_if[of "\<lambda>_ e. \<not> now > e" "challenges g"] assms(3) by simp
    finally show ?thesis using False by (simp add: expireLocked_def Let_def)
  qed
qed

end
