(* ===== verification/RateLimit.thy ===== *)
theory RateLimit
  imports GoStrings
begin

text \<open>
  \<open>internal/ratelimit\<close>: the counters that slow down guessing. \<open>memory_limiter\<close> and its
  operations model \<open>MemoryLimiter\<close> (each runs under the limiter's mutex, so it is one atomic
  step), \<open>redis_limiter\<close> models \<open>RedisLimiter\<close> over the Redis commands it issues, which are
  the parameter \<open>R\<close>, and \<open>guard\<close> with \<open>SignInAllowed\<close>, \<open>SignInFailed\<close> and
  \<open>ChallengeAllowed\<close> models \<open>Guard\<close>. The locale \<open>limiter\<close> is the contract of a counter.
\<close>

section \<open>The limiter in memory\<close>

record window =
  wcount :: int
  resetAt :: instant

record memory_limiter =
  mlimit :: int
  mwindow :: nanos
  entries :: "(string, window) amap"

definition maxTrackedKeys :: nat where "maxTrackedKeys = 50000"

definition NewMemoryLimiter :: "int \<Rightarrow> nanos \<Rightarrow> memory_limiter" where
  "NewMemoryLimiter limit per = \<lparr>mlimit = limit, mwindow = per, entries = []\<rparr>"

definition memory_blocked :: "instant \<Rightarrow> string \<Rightarrow> memory_limiter \<Rightarrow> bool \<times> memory_limiter" where
  "memory_blocked now key l =
     (case lookup (entries l) key of
        None \<Rightarrow> (False, l)
      | Some entry \<Rightarrow>
          if now > resetAt entry then (False, l\<lparr>entries := remove key (entries l)\<rparr>)
          else (wcount entry \<ge> mlimit l, l))"

definition forget_expired :: "instant \<Rightarrow> memory_limiter \<Rightarrow> memory_limiter" where
  "forget_expired now l = l\<lparr>entries := keep_if (\<lambda>_ entry. \<not> now > resetAt entry) (entries l)\<rparr>"

definition memory_allow :: "instant \<Rightarrow> string \<Rightarrow> memory_limiter \<Rightarrow> bool \<times> memory_limiter" where
  "memory_allow now key l =
     (let fresh = (\<lambda>l. (mlimit l \<ge> 1,
            l\<lparr>entries := store key \<lparr>wcount = 1, resetAt = now + mwindow l\<rparr> (entries l)\<rparr>)) in
      case lookup (entries l) key of
        None \<Rightarrow> fresh (if length (entries l) \<ge> maxTrackedKeys then forget_expired now l else l)
      | Some entry \<Rightarrow>
          if now > resetAt entry then fresh l
          else let entry = entry\<lparr>wcount := wcount entry + 1\<rparr> in
            (wcount entry \<le> mlimit l, l\<lparr>entries := store key entry (entries l)\<rparr>))"

section \<open>The limiter in Redis\<close>

text \<open>
  The Redis commands, each with its error; \<open>'w\<close> is the server's state. \<open>r_set_nx\<close> is
  \<open>SET key value NX\<close> with a time to live, which answers whether the key was set.
\<close>

record 'w redis =
  r_get :: "string \<Rightarrow> 'w \<Rightarrow> (string + int option) \<times> 'w"
  r_set_nx :: "string \<Rightarrow> int \<Rightarrow> nanos \<Rightarrow> 'w \<Rightarrow> (string + bool) \<times> 'w"
  r_incr :: "string \<Rightarrow> 'w \<Rightarrow> (string + int) \<times> 'w"
  r_expire :: "string \<Rightarrow> nanos \<Rightarrow> 'w \<Rightarrow> (string + unit) \<times> 'w"
  r_ping :: "'w \<Rightarrow> (string + unit) \<times> 'w"

record redis_limiter =
  rlimit :: int
  rwindow :: nanos

definition redis_key :: "string \<Rightarrow> string" where
  "redis_key key = ''laminara:ratelimit:'' @ key"

definition redis_blocked ::
    "'w redis \<Rightarrow> string \<Rightarrow> redis_limiter \<Rightarrow> 'w \<Rightarrow> (string + bool) \<times> 'w" where
  "redis_blocked R key l w =
     (case r_get R (redis_key key) w of
        (Inl err, w) \<Rightarrow> (Inl err, w)
      | (Inr None, w) \<Rightarrow> (Inr False, w)
      | (Inr (Some count), w) \<Rightarrow> (Inr (count \<ge> rlimit l), w))"

definition redis_allow ::
    "'w redis \<Rightarrow> string \<Rightarrow> redis_limiter \<Rightarrow> 'w \<Rightarrow> (string + bool) \<times> 'w" where
  "redis_allow R key l w =
     (case r_set_nx R (redis_key key) 1 (rwindow l) w of
        (Inl err, w) \<Rightarrow> (Inl err, w)
      | (Inr True, w) \<Rightarrow> (Inr (rlimit l \<ge> 1), w)
      | (Inr False, w) \<Rightarrow>
          (case r_incr R (redis_key key) w of
             (Inl err, w) \<Rightarrow> (Inl err, w)
           | (Inr count, w) \<Rightarrow>
               if count = 1 then
                 (case r_expire R (redis_key key) (rwindow l) w of
                    (Inl err, w) \<Rightarrow> (Inl err, w)
                  | (Inr _, w) \<Rightarrow> (Inr (count \<le> rlimit l), w))
               else (Inr (count \<le> rlimit l), w)))"

section \<open>The interface Limiter\<close>

datatype limiter = Memory memory_limiter | Redis redis_limiter

definition Blocked ::
    "'w redis \<Rightarrow> instant \<Rightarrow> string \<Rightarrow> limiter \<Rightarrow> 'w \<Rightarrow> (string + bool) \<times> limiter \<times> 'w" where
  "Blocked R now key l w =
     (case l of
        Memory m \<Rightarrow> (case memory_blocked now key m of (b, m) \<Rightarrow> (Inr b, Memory m, w))
      | Redis r \<Rightarrow> (case redis_blocked R key r w of (b, w) \<Rightarrow> (b, Redis r, w)))"

definition Allow ::
    "'w redis \<Rightarrow> instant \<Rightarrow> string \<Rightarrow> limiter \<Rightarrow> 'w \<Rightarrow> (string + bool) \<times> limiter \<times> 'w" where
  "Allow R now key l w =
     (case l of
        Memory m \<Rightarrow> (case memory_allow now key m of (b, m) \<Rightarrow> (Inr b, Memory m, w))
      | Redis r \<Rightarrow> (case redis_allow R key r w of (b, w) \<Rightarrow> (b, Redis r, w)))"

section \<open>The guard\<close>

record bucket =
  blimit :: int
  bper :: nanos

text \<open>\<open>redisconf.Config\<close>, which the configuration embeds, with \<open>Set\<close> and \<open>WithFallbackAddr\<close>.\<close>

record redis_conf =
  addr :: string
  password :: string
  db :: int
  tls :: bool

definition redis_set :: "redis_conf \<Rightarrow> bool" where
  "redis_set c \<longleftrightarrow> trim_space (addr c) \<noteq> []"

definition WithFallbackAddr :: "string \<Rightarrow> redis_conf \<Rightarrow> redis_conf" where
  "WithFallbackAddr a c = (if trim_space (addr c) = [] then c\<lparr>addr := trim_space a\<rparr> else c)"

record config =
  disabled :: bool
  backend :: string
  credis :: redis_conf
  clogin :: bucket
  caccount :: bucket
  cchallenge :: bucket

record guard =
  glogin :: limiter
  gaccount :: limiter
  gchallenge :: limiter

definition DefaultLogin :: bucket where "DefaultLogin = \<lparr>blimit = 10, bper = 5 * minute\<rparr>"
definition DefaultAccount :: bucket where "DefaultAccount = \<lparr>blimit = 50, bper = 15 * minute\<rparr>"
definition DefaultChallenge :: bucket where "DefaultChallenge = \<lparr>blimit = 60, bper = minute\<rparr>"

definition orElse :: "bucket \<Rightarrow> int \<Rightarrow> nanos \<Rightarrow> bucket" where
  "orElse b limit per =
     (let b = (if blimit b \<le> 0 then b\<lparr>blimit := limit\<rparr> else b)
      in if bper b \<le> 0 then b\<lparr>bper := per\<rparr> else b)"

definition empty_config :: config where
  "empty_config = \<lparr>disabled = False, backend = [], credis = \<lparr>addr = [], password = [], db = 0, tls = False\<rparr>,
     clogin = \<lparr>blimit = 0, bper = 0\<rparr>, caccount = \<lparr>blimit = 0, bper = 0\<rparr>,
     cchallenge = \<lparr>blimit = 0, bper = 0\<rparr>\<rparr>"

datatype guard_error = RedisAddrEmpty | UnknownBackend string

definition build_guard :: "(bucket \<Rightarrow> limiter) \<Rightarrow> config \<Rightarrow> guard" where
  "build_guard build c =
     \<lparr>glogin = build (orElse (clogin c) (blimit DefaultLogin) (bper DefaultLogin)),
      gaccount = build (orElse (caccount c) (blimit DefaultAccount) (bper DefaultAccount)),
      gchallenge = build (orElse (cchallenge c) (blimit DefaultChallenge) (bper DefaultChallenge))\<rparr>"

definition New :: "(string \<Rightarrow> string) \<Rightarrow> config option \<Rightarrow> guard_error + guard option" where
  "New ulow cfg =
     (let resolved = (case cfg of None \<Rightarrow> empty_config | Some c \<Rightarrow> c);
          kind = to_lower ulow (backend resolved) in
      if disabled resolved then Inr None
      else if kind = [] \<or> kind = ''memory'' then
        Inr (Some (build_guard (\<lambda>b. Memory (NewMemoryLimiter (blimit b) (bper b))) resolved))
      else if kind = ''redis'' then
        (if \<not> redis_set (credis resolved) then Inl RedisAddrEmpty
         else Inr (Some (build_guard (\<lambda>b. Redis \<lparr>rlimit = blimit b, rwindow = bper b\<rparr>) resolved)))
      else Inl (UnknownBackend (backend resolved)))"

definition fold_name :: "(string \<Rightarrow> string) \<Rightarrow> string \<Rightarrow> string" where
  "fold_name ulow username = to_lower ulow (trim_space username)"

text \<open>
  A nil guard lets everyone in. A limiter that fails is skipped, so that a broken counter does
  not lock every player out; the second check runs only when the first did not block.
\<close>

definition SignInAllowed ::
    "'w redis \<Rightarrow> (string \<Rightarrow> string) \<Rightarrow> instant \<Rightarrow> string \<Rightarrow> string \<Rightarrow> guard option \<Rightarrow> 'w \<Rightarrow>
     bool \<times> guard option \<times> 'w" where
  "SignInAllowed R ulow now address username g w =
     (case g of
        None \<Rightarrow> (True, None, w)
      | Some g \<Rightarrow>
          (case Blocked R now (''login:'' @ address) (glogin g) w of (r, l, w) \<Rightarrow>
             let g = g\<lparr>glogin := l\<rparr> in
             if r = Inr True then (False, Some g, w)
             else (case Blocked R now (''account:'' @ fold_name ulow username) (gaccount g) w of (r, l, w) \<Rightarrow>
                     let g = g\<lparr>gaccount := l\<rparr> in
                     if r = Inr True then (False, Some g, w) else (True, Some g, w))))"

definition SignInFailed ::
    "'w redis \<Rightarrow> (string \<Rightarrow> string) \<Rightarrow> instant \<Rightarrow> string \<Rightarrow> string \<Rightarrow> guard option \<Rightarrow> 'w \<Rightarrow>
     guard option \<times> 'w" where
  "SignInFailed R ulow now address username g w =
     (case g of
        None \<Rightarrow> (None, w)
      | Some g \<Rightarrow>
          (case Allow R now (''login:'' @ address) (glogin g) w of (_, l, w) \<Rightarrow>
             (case Allow R now (''account:'' @ fold_name ulow username) (gaccount g) w of (_, a, w) \<Rightarrow>
                (Some (g\<lparr>glogin := l, gaccount := a\<rparr>), w))))"

definition ChallengeAllowed ::
    "'w redis \<Rightarrow> instant \<Rightarrow> string \<Rightarrow> guard option \<Rightarrow> 'w \<Rightarrow> bool \<times> guard option \<times> 'w" where
  "ChallengeAllowed R now address g w =
     (case g of
        None \<Rightarrow> (True, None, w)
      | Some g \<Rightarrow>
          (case Allow R now (''challenge:'' @ address) (gchallenge g) w of (r, l, w) \<Rightarrow>
             (case r of Inl _ \<Rightarrow> True | Inr allowed \<Rightarrow> allowed, Some (g\<lparr>gchallenge := l\<rparr>), w)))"

section \<open>The contract of a counter\<close>

text \<open>
  \<open>live l now k\<close> is the open window of the key: its attempts and the last instant that belongs to
  it. An attempt joins the open window or opens one that lasts a period; nothing else changes.
\<close>

locale attempt_counter =
  fixes allow :: "instant \<Rightarrow> string \<Rightarrow> 'l \<Rightarrow> bool \<times> 'l"
    and blocked :: "instant \<Rightarrow> string \<Rightarrow> 'l \<Rightarrow> bool \<times> 'l"
    and live :: "'l \<Rightarrow> instant \<Rightarrow> string \<Rightarrow> (int \<times> instant) option"
    and bound :: "'l \<Rightarrow> int"
    and period :: "'l \<Rightarrow> nanos"
    and invar :: "'l \<Rightarrow> bool"
  assumes live_later: "live l now k = Some (c, r) \<Longrightarrow> now \<le> now' \<Longrightarrow>
      live l now' k = (if now' > r then None else Some (c, r))"
    and live_gone: "live l now k = None \<Longrightarrow> now \<le> now' \<Longrightarrow> live l now' k = None"
    and live_pos: "invar l \<Longrightarrow> live l now k = Some (c, r) \<Longrightarrow> 1 \<le> c"
    and allow_open: "invar l \<Longrightarrow> live l now k = None \<Longrightarrow> now \<le> now' \<Longrightarrow>
      live (snd (allow now k l)) now' k =
        (if now' > now + period l then None else Some (1, now + period l))"
    and allow_join: "invar l \<Longrightarrow> live l now k = Some (c, r) \<Longrightarrow> now \<le> now' \<Longrightarrow>
      live (snd (allow now k l)) now' k = (if now' > r then None else Some (c + 1, r))"
    and allow_other: "invar l \<Longrightarrow> k' \<noteq> k \<Longrightarrow> now \<le> now' \<Longrightarrow>
      live (snd (allow now k l)) now' k' = live l now' k'"
    and allow_result: "invar l \<Longrightarrow> fst (allow now k l) \<longleftrightarrow>
      (case live l now k of None \<Rightarrow> 1 | Some (c, r) \<Rightarrow> c + 1) \<le> bound l"
    and blocked_result: "invar l \<Longrightarrow> fst (blocked now k l) \<longleftrightarrow>
      (case live l now k of None \<Rightarrow> False | Some (c, r) \<Rightarrow> bound l \<le> c)"
    and blocked_live: "invar l \<Longrightarrow> now \<le> now' \<Longrightarrow> live (snd (blocked now k l)) now' k' = live l now' k'"
    and bound_allow: "bound (snd (allow now k l)) = bound l"
    and period_allow: "period (snd (allow now k l)) = period l"
    and bound_blocked: "bound (snd (blocked now k l)) = bound l"
    and invar_allow: "invar l \<Longrightarrow> invar (snd (allow now k l))"
    and invar_blocked: "invar l \<Longrightarrow> invar (snd (blocked now k l))"

text \<open>A run of attempts, each with its instant and key, and how many of a key were allowed.\<close>

fun run_calls :: "(instant \<Rightarrow> string \<Rightarrow> 'l \<Rightarrow> bool \<times> 'l) \<Rightarrow> (instant \<times> string) list \<Rightarrow> 'l \<Rightarrow> 'l" where
  "run_calls allow [] l = l"
| "run_calls allow ((now, k) # calls) l = run_calls allow calls (snd (allow now k l))"

fun allowed_calls :: "(instant \<Rightarrow> string \<Rightarrow> 'l \<Rightarrow> bool \<times> 'l) \<Rightarrow> string \<Rightarrow> (instant \<times> string) list \<Rightarrow> 'l \<Rightarrow> int" where
  "allowed_calls allow key [] l = 0"
| "allowed_calls allow key ((now, k) # calls) l =
     (if k = key \<and> fst (allow now k l) then 1 else 0) + allowed_calls allow key calls (snd (allow now k l))"

fun ordered :: "instant \<Rightarrow> (instant \<times> string) list \<Rightarrow> instant \<Rightarrow> bool" where
  "ordered s [] e = (s \<le> e)"
| "ordered s ((now, k) # calls) e = (s \<le> now \<and> ordered now calls e)"

definition attempts_of :: "string \<Rightarrow> (instant \<times> string) list \<Rightarrow> int" where
  "attempts_of key calls = int (length (filter (\<lambda>(_, k). k = key) calls))"

lemma attempts_of_simps [simp]:
  "attempts_of key [] = 0"
  "attempts_of key ((now, k) # calls) = (if k = key then 1 else 0) + attempts_of key calls"
  by (simp_all add: attempts_of_def)

lemma attempts_of_nonneg: "0 \<le> attempts_of key calls"
  by (simp add: attempts_of_def)

lemma ordered_le: "ordered s calls e \<Longrightarrow> s \<le> e"
  by (induction s calls e rule: ordered.induct) auto

context attempt_counter
begin

lemma run_joins:
  "invar l \<Longrightarrow> ordered s calls e \<Longrightarrow> live l s key = Some (c, r) \<Longrightarrow> e \<le> r \<Longrightarrow>
     live (run_calls allow calls l) e key = Some (c + attempts_of key calls, r)"
proof (induction calls arbitrary: l s c)
  case Nil
  then show ?case using live_later by simp
next
  case (Cons call calls)
  obtain now k where call: "call = (now, k)" by (cases call)
  have ord: "s \<le> now" "ordered now calls e" "now \<le> r"
    using Cons.prems ordered_le[of now calls e] by (auto simp: call)
  have here: "live l now key = Some (c, r)" using live_later[OF Cons.prems(3) ord(1)] ord(3) by simp
  have "live (snd (allow now k l)) now key = Some (if k = key then c + 1 else c, r)"
    using allow_join[OF Cons.prems(1), of now k c r now] allow_other[OF Cons.prems(1), of key k now now] here ord(3)
    by (cases "k = key") auto
  then have "live (run_calls allow calls (snd (allow now k l))) e key =
      Some ((if k = key then c + 1 else c) + attempts_of key calls, r)"
    using Cons.prems ord invar_allow by (intro Cons.IH) auto
  then show ?case by (simp add: call)
qed

lemma run_opens:
  "invar l \<Longrightarrow> ordered s calls e \<Longrightarrow> live l s key = None \<Longrightarrow> e \<le> s + period l \<Longrightarrow> 0 < attempts_of key calls \<Longrightarrow>
     \<exists>r. live (run_calls allow calls l) e key = Some (attempts_of key calls, r)"
proof (induction calls arbitrary: l s)
  case Nil
  then show ?case by simp
next
  case (Cons call calls)
  obtain now k where call: "call = (now, k)" by (cases call)
  have ord: "s \<le> now" "ordered now calls e" "now \<le> e"
    using Cons.prems ordered_le[of now calls e] by (auto simp: call)
  have none: "live l now key = None" using live_gone[OF Cons.prems(3) ord(1)] .
  show ?case
  proof (cases "k = key")
    case True
    have "live (snd (allow now k l)) now key = Some (1, now + period l)"
      using allow_open[OF Cons.prems(1) none, of now] True Cons.prems(4) ord by auto
    from run_joins[OF invar_allow[OF Cons.prems(1)] ord(2) this] True Cons.prems(4) ord(1)
    show ?thesis by (simp add: call)
  next
    case False
    have "live (snd (allow now k l)) now key = None"
      using allow_other[OF Cons.prems(1)] False none by simp
    then show ?thesis
      using Cons.IH[of "snd (allow now k l)" now] Cons.prems ord False
      by (simp add: call invar_allow period_allow)
  qed
qed

lemma allowed_bounds:
  assumes "invar l" "ordered s calls e" "e \<le> t + period l" "t \<le> s"
  shows "(live l s key = None \<longrightarrow> allowed_calls allow key calls l \<le> max 0 (bound l)) \<and>
    (\<forall>c r. live l s key = Some (c, r) \<longrightarrow> e \<le> r \<longrightarrow> allowed_calls allow key calls l \<le> max 0 (bound l - c)) \<and>
    (\<forall>c r. live l s key = Some (c, r) \<longrightarrow> allowed_calls allow key calls l \<le> max 0 (bound l - c) + max 0 (bound l))"
  using assms
proof (induction calls arbitrary: l s)
  case Nil
  then show ?case by auto
next
  case (Cons call calls)
  obtain now k where call: "call = (now, k)" by (cases call)
  let ?l = "snd (allow now k l)"
  have ord: "s \<le> now" "ordered now calls e" "now \<le> e" "t \<le> now"
    using Cons.prems ordered_le[of now calls e] by (auto simp: call)
  have IH: "(live ?l now key = None \<longrightarrow> allowed_calls allow key calls ?l \<le> max 0 (bound l)) \<and>
    (\<forall>c r. live ?l now key = Some (c, r) \<longrightarrow> e \<le> r \<longrightarrow> allowed_calls allow key calls ?l \<le> max 0 (bound l - c)) \<and>
    (\<forall>c r. live ?l now key = Some (c, r) \<longrightarrow> allowed_calls allow key calls ?l \<le> max 0 (bound l - c) + max 0 (bound l))"
    using Cons.IH[of ?l now] Cons.prems ord by (simp add: invar_allow bound_allow period_allow)
  have open_now: "k = key \<Longrightarrow> live l now key = None \<Longrightarrow> live ?l now key = Some (1, now + period l)"
    using allow_open[OF Cons.prems(1), of now k now] Cons.prems(3) ord by (auto split: if_splits)
  have join_now: "k = key \<Longrightarrow> live l now key = Some (c, r) \<Longrightarrow> now \<le> r \<Longrightarrow> live ?l now key = Some (c + 1, r)" for c r
    using allow_join[OF Cons.prems(1), of now k c r now] by auto
  have other: "k \<noteq> key \<Longrightarrow> live ?l now key = live l now key"
    using allow_other[OF Cons.prems(1)] by auto
  have res: "fst (allow now k l) \<longleftrightarrow> (case live l now k of None \<Rightarrow> 1 | Some (c, r) \<Rightarrow> c + 1) \<le> bound l"
    using allow_result[OF Cons.prems(1)] .
  have cover: "e \<le> now + period l" using Cons.prems(3) ord by simp
  have fresh: "live l now key = None \<Longrightarrow> allowed_calls allow key (call # calls) l \<le> max 0 (bound l)"
    using IH open_now other res cover by (cases "k = key") (auto simp: call)
  have joined: "live l now key = Some (c, r) \<Longrightarrow> now \<le> r \<Longrightarrow>
      (e \<le> r \<longrightarrow> allowed_calls allow key (call # calls) l \<le> max 0 (bound l - c)) \<and>
      allowed_calls allow key (call # calls) l \<le> max 0 (bound l - c) + max 0 (bound l)" for c r
    using IH join_now[of c r] other res by (cases "k = key") (auto simp: call)
  show ?case
  proof (cases "live l s key")
    case None
    then show ?thesis using fresh live_gone[OF None ord(1)] by simp
  next
    case (Some cr)
    obtain c r where cr: "cr = (c, r)" by (cases cr)
    have later: "live l now key = (if now > r then None else Some (c, r))"
      using live_later[OF Some[unfolded cr] ord(1)] .
    show ?thesis
    proof (cases "now > r")
      case True
      then show ?thesis using fresh later Some cr ord(3) by (auto intro: order_trans)
    next
      case False
      then show ?thesis using joined[of c r] later Some cr by auto
    qed
  qed
qed

lemma allowed_twice_bound:
  assumes "invar l" "ordered s calls e" "e \<le> s + period l"
  shows "allowed_calls allow key calls l \<le> 2 * max 0 (bound l)"
proof (cases "live l s key")
  case None
  then show ?thesis using allowed_bounds[OF assms(1,2,3) order_refl, of key] by auto
next
  case (Some cr)
  obtain c r where cr: "cr = (c, r)" by (cases cr)
  have "1 \<le> c" using live_pos[OF assms(1)] Some cr by blast
  then show ?thesis using allowed_bounds[OF assms(1,2,3) order_refl, of key] Some cr by fastforce
qed

lemma blocked_after:
  assumes "invar l" "ordered s calls e" "live l s key = None" "e \<le> s + period l"
    and "0 < attempts_of key calls" "bound l \<le> attempts_of key calls"
  shows "fst (blocked e key (run_calls allow calls l))"
proof -
  have inv: "invar (run_calls allow calls l)" "bound (run_calls allow calls l) = bound l"
    using assms(1) by (induction calls arbitrary: l) (auto simp: invar_allow bound_allow)
  obtain r where "live (run_calls allow calls l) e key = Some (attempts_of key calls, r)"
    using run_opens[OF assms(1-5)] by blast
  then show ?thesis using blocked_result[OF inv(1)] inv(2) assms(6) by simp
qed

end

section \<open>The limiter in memory meets the contract\<close>

definition memory_live :: "memory_limiter \<Rightarrow> instant \<Rightarrow> string \<Rightarrow> (int \<times> instant) option" where
  "memory_live l now k =
     (case lookup (entries l) k of
        None \<Rightarrow> None
      | Some entry \<Rightarrow> if now > resetAt entry then None else Some (wcount entry, resetAt entry))"

definition memory_invar :: "memory_limiter \<Rightarrow> bool" where
  "memory_invar l \<longleftrightarrow> keys_ok (entries l) \<and> (\<forall>k e. lookup (entries l) k = Some e \<longrightarrow> 1 \<le> wcount e)"

lemma memory_invar_forget: "memory_invar l \<Longrightarrow> memory_invar (forget_expired now l)"
  by (auto simp: memory_invar_def forget_expired_def lookup_keep_if split: option.splits if_splits)

lemma memory_live_forget:
  "keys_ok (entries l) \<Longrightarrow> now \<le> now' \<Longrightarrow> memory_live (forget_expired now l) now' k = memory_live l now' k"
  by (auto simp: memory_live_def forget_expired_def lookup_keep_if split: option.splits)

lemma forget_params [simp]:
  "mlimit (forget_expired now l) = mlimit l" "mwindow (forget_expired now l) = mwindow l"
  by (simp_all add: forget_expired_def)

lemma lookup_forget_None:
  "keys_ok (entries l) \<Longrightarrow> lookup (entries l) k = None \<Longrightarrow> lookup (entries (forget_expired now l)) k = None"
  by (simp add: forget_expired_def lookup_keep_if)

interpretation mem: attempt_counter memory_allow memory_blocked memory_live mlimit mwindow memory_invar
proof unfold_locales
  fix l now k c r now' assume "memory_live l now k = Some (c, r)" "now \<le> now'"
  then show "memory_live l now' k = (if now' > r then None else Some (c, r))"
    by (auto simp: memory_live_def split: option.splits if_splits)
next
  fix l now k now' assume "memory_live l now k = None" "now \<le> now'"
  then show "memory_live l now' k = None" by (auto simp: memory_live_def split: option.splits if_splits)
next
  fix l now k c r assume "memory_invar l" "memory_live l now k = Some (c, r)"
  then show "1 \<le> c" by (auto simp: memory_live_def memory_invar_def split: option.splits if_splits)
next
  fix l now k now' assume "memory_invar l" "memory_live l now k = None" "now \<le> now'"
  then show "memory_live (snd (memory_allow now k l)) now' k =
      (if now' > now + mwindow l then None else Some (1, now + mwindow l))"
    by (auto simp: memory_live_def memory_allow_def Let_def split: option.splits if_splits)
next
  fix l now k c r now' assume "memory_invar l" "memory_live l now k = Some (c, r)" "now \<le> now'"
  then show "memory_live (snd (memory_allow now k l)) now' k = (if now' > r then None else Some (c + 1, r))"
    by (auto simp: memory_live_def memory_allow_def Let_def split: option.splits if_splits)
next
  fix l k' and k :: string and now now' :: instant
  assume inv: "memory_invar l" and "k' \<noteq> k" "now \<le> now'"
  then have "memory_live (forget_expired now l) now' k' = memory_live l now' k'"
    by (intro memory_live_forget) (simp_all add: memory_invar_def)
  then show "memory_live (snd (memory_allow now k l)) now' k' = memory_live l now' k'"
    using \<open>k' \<noteq> k\<close> by (auto simp: memory_live_def memory_allow_def Let_def split: option.splits)
next
  fix l now k assume "memory_invar l"
  show "fst (memory_allow now k l) \<longleftrightarrow>
      (case memory_live l now k of None \<Rightarrow> 1 | Some (c, r) \<Rightarrow> c + 1) \<le> mlimit l"
    by (auto simp: memory_live_def memory_allow_def Let_def split: option.splits)
next
  fix l now k assume "memory_invar l"
  show "fst (memory_blocked now k l) \<longleftrightarrow>
      (case memory_live l now k of None \<Rightarrow> False | Some (c, r) \<Rightarrow> mlimit l \<le> c)"
    by (auto simp: memory_live_def memory_blocked_def split: option.splits)
next
  fix l now now' k k' assume "memory_invar l" "now \<le> (now' :: instant)"
  then show "memory_live (snd (memory_blocked now k l)) now' k' = memory_live l now' k'"
    by (auto simp: memory_live_def memory_blocked_def split: option.splits)
next
  fix now k l assume inv: "memory_invar l"
  then have "memory_invar (forget_expired now l)" by (rule memory_invar_forget)
  then show "memory_invar (snd (memory_allow now k l))"
    using inv by (force simp: memory_allow_def memory_invar_def Let_def split: option.splits if_splits)
next
  fix now k l assume "memory_invar l"
  then show "memory_invar (snd (memory_blocked now k l))"
    by (auto simp: memory_blocked_def memory_invar_def split: option.splits if_splits)
qed (auto simp: memory_allow_def memory_blocked_def Let_def split: option.splits)

section \<open>The guard over limiters in memory\<close>

fun sign_in_failures ::
    "'w redis \<Rightarrow> (string \<Rightarrow> string) \<Rightarrow> (instant \<times> string \<times> string) list \<Rightarrow> guard option \<Rightarrow> 'w \<Rightarrow>
     guard option \<times> 'w" where
  "sign_in_failures R ulow [] g w = (g, w)"
| "sign_in_failures R ulow ((now, address, username) # fails) g w =
     (case SignInFailed R ulow now address username g w of (g, w) \<Rightarrow> sign_in_failures R ulow fails g w)"

definition login_calls :: "(instant \<times> string \<times> string) list \<Rightarrow> (instant \<times> string) list" where
  "login_calls fails = map (\<lambda>(now, address, _). (now, ''login:'' @ address)) fails"

definition account_calls :: "(string \<Rightarrow> string) \<Rightarrow> (instant \<times> string \<times> string) list \<Rightarrow> (instant \<times> string) list" where
  "account_calls ulow fails = map (\<lambda>(now, _, username). (now, ''account:'' @ fold_name ulow username)) fails"

lemma sign_in_failures_memory:
  "sign_in_failures R ulow fails (Some \<lparr>glogin = Memory l, gaccount = Memory a, gchallenge = c\<rparr>) w =
     (Some \<lparr>glogin = Memory (run_calls memory_allow (login_calls fails) l),
        gaccount = Memory (run_calls memory_allow (account_calls ulow fails) a), gchallenge = c\<rparr>, w)"
proof (induction fails arbitrary: l a)
  case Nil
  then show ?case by (simp add: login_calls_def account_calls_def)
next
  case (Cons f fails)
  obtain now address username where f: "f = (now, address, username)" by (cases f)
  then show ?case using Cons.IH
    by (simp add: SignInFailed_def Allow_def login_calls_def account_calls_def split: prod.splits)
qed

lemma SignInAllowed_memory:
  "fst (SignInAllowed R ulow now address username
      (Some \<lparr>glogin = Memory l, gaccount = Memory a, gchallenge = c\<rparr>) w) \<longleftrightarrow>
    \<not> fst (memory_blocked now (''login:'' @ address) l) \<and>
    \<not> fst (memory_blocked now (''account:'' @ fold_name ulow username) a)"
  by (auto simp: SignInAllowed_def Blocked_def Let_def split: prod.splits)

definition limiter_positive :: "limiter \<Rightarrow> bool" where
  "limiter_positive l = (case l of Memory m \<Rightarrow> 0 < mlimit m \<and> 0 < mwindow m | Redis r \<Rightarrow> 0 < rlimit r \<and> 0 < rwindow r)"

section \<open>Properties\<close>

text \<open>
  in any stretch of time no longer than the period, a key gets at most twice the limit of
  attempts allowed, whatever the other keys do and whatever the state at its start.
\<close>

theorem memory_allow_bound:
  assumes "memory_invar l" and "ordered s calls e" and "e \<le> s + mwindow l"
  shows "allowed_calls memory_allow key calls l \<le> 2 * max 0 (mlimit l)"
  using assms by (rule mem.allowed_twice_bound)

theorem memory_allow_bound_witness:
  "memory_invar (NewMemoryLimiter 1 10) \<and> ordered 0 [(0, ''a''), (5, ''a''), (9, ''b'')] 10 \<and>
   allowed_calls memory_allow ''a'' [(0, ''a''), (5, ''a''), (9, ''b'')] (NewMemoryLimiter 1 10) \<le> 2 * max 0 1"
proof -
  have inv: "memory_invar (NewMemoryLimiter 1 10)" by (simp add: memory_invar_def NewMemoryLimiter_def)
  have ord: "ordered 0 [(0, ''a''), (5, ''a''), (9, ''b'')] 10" by simp
  show ?thesis
    using memory_allow_bound [OF inv ord, of "''a''"] inv ord by (simp add: NewMemoryLimiter_def)
qed

text \<open>
  C29: as many failed sign-ins from one address as the limit, within one period that found the
  address without an open window, lock that address out until the end of the period, for every
  user name, whatever other failures are mixed in.
\<close>

theorem sign_in_lockout:
  assumes "memory_invar l" and "memory_live l start (''login:'' @ address) = None"
    and "ordered start (login_calls fails) now" and "now \<le> start + mwindow l"
    and "0 < mlimit l" and "mlimit l \<le> attempts_of (''login:'' @ address) (login_calls fails)"
  shows "\<not> fst (SignInAllowed R ulow now address username
    (fst (sign_in_failures R ulow fails (Some \<lparr>glogin = Memory l, gaccount = Memory a, gchallenge = c\<rparr>) w)) w')"
  using mem.blocked_after [OF assms(1,3,2,4)] assms(5,6)
  by (simp add: sign_in_failures_memory SignInAllowed_memory)

theorem sign_in_lockout_witness:
  "\<not> fst (SignInAllowed (undefined :: unit redis) (\<lambda>s. s) 7 ''1.2.3.4'' ''bob''
    (fst (sign_in_failures undefined (\<lambda>s. s) [(0, ''1.2.3.4'', ''amy''), (5, ''1.2.3.4'', ''bob'')]
      (Some \<lparr>glogin = Memory (NewMemoryLimiter 2 10), gaccount = Memory (NewMemoryLimiter 50 10),
        gchallenge = Memory (NewMemoryLimiter 60 10)\<rparr>) ())) ())"
  by (rule sign_in_lockout [where start = 0])
    (simp_all add: NewMemoryLimiter_def memory_invar_def memory_live_def login_calls_def)

text \<open>
  a player is turned away exactly when one of the two counters answers that it is full; a
  limiter that fails never blocks, and without a guard everyone passes.
\<close>

theorem SignInAllowed_fail_open:
  "fst (SignInAllowed R ulow now address username g w) \<longleftrightarrow>
     (case g of
        None \<Rightarrow> True
      | Some g \<Rightarrow>
          (case Blocked R now (''login:'' @ address) (glogin g) w of (r, l, w1) \<Rightarrow>
             r \<noteq> Inr True \<and>
             fst (Blocked R now (''account:'' @ fold_name ulow username) (gaccount g) w1) \<noteq> Inr True))"
  by (auto simp: SignInAllowed_def Let_def split: option.splits prod.splits)

text \<open>
  every guard that the configuration builds has positive limits and positive periods, whatever
  numbers the configuration holds, and an unknown back end is refused.
\<close>

theorem New_positive:
  "New ulow cfg = Inr (Some g) \<Longrightarrow>
     limiter_positive (glogin g) \<and> limiter_positive (gaccount g) \<and> limiter_positive (gchallenge g)"
proof -
  have pos: "0 < blimit (orElse b n p) \<and> 0 < bper (orElse b n p)" if "0 < n" "0 < p" for b n p
    using that by (auto simp: orElse_def Let_def)
  assume "New ulow cfg = Inr (Some g)"
  then show ?thesis
    by (auto simp: New_def Let_def build_guard_def limiter_positive_def NewMemoryLimiter_def DefaultLogin_def
        DefaultAccount_def DefaultChallenge_def minute_def second_def pos split: if_splits)
qed

theorem New_positive_witness:
  "\<exists>g. New (\<lambda>s. s) None = Inr (Some g) \<and> limiter_positive (glogin g)"
proof -
  obtain g where "New (\<lambda>s. s) None = Inr (Some g)"
    by (auto simp: New_def Let_def empty_config_def to_lower_def is_ascii_def)
  then show ?thesis using New_positive by blast
qed

end
