(* ===== verification/ClientAddr.thy ===== *)
theory ClientAddr
  imports GoStrings
begin

text \<open>
  The address of a client behind proxies (package \<open>clientaddr\<close>), on which the limits on signing in
  are counted. Addresses and networks are those of \<open>net/netip\<close>, a parameter; the headers of a request are a
  map from canonical names to their values.

  The theorem: behind trusted proxies, that append the address they see to \<open>X-Forwarded-For\<close>, no header
  the client sends changes the address.
\<close>

record ('a, 'n) addr_env =
  parse_addr :: "string \<Rightarrow> 'a option"
  parse_prefix :: "string \<Rightarrow> 'n option"
  host_prefix :: "'a \<Rightarrow> 'n"
  prefix_contains :: "'n \<Rightarrow> 'a \<Rightarrow> bool"
  unmap_addr :: "'a \<Rightarrow> 'a"
  split_host_port :: "string \<Rightarrow> string option"

definition default_networks :: "string list" where
  "default_networks = [''127.0.0.0/8'', ''::1/128'', ''10.0.0.0/8'', ''172.16.0.0/12'', ''192.168.0.0/16'', ''fc00::/7'']"

type_synonym 'n trust = "'n list"

fun trust_networks :: "('a, 'n) addr_env \<Rightarrow> string list \<Rightarrow> (string, 'n list) result" where
  "trust_networks A [] = Inr []"
| "trust_networks A (raw # rest) =
     (let txt = trim_space raw in
      if txt = [] then trust_networks A rest
      else case (if CHR ''/'' \<in> set txt then parse_prefix A txt else map_option (host_prefix A) (parse_addr A txt)) of
        None \<Rightarrow> Inl raw
      | Some n \<Rightarrow> (case trust_networks A rest of Inl e \<Rightarrow> Inl e | Inr ns \<Rightarrow> Inr (n # ns)))"

definition New :: "('a, 'n) addr_env \<Rightarrow> string list option \<Rightarrow> (string, 'n trust) result" where
  "New A cidrs = trust_networks A (case cidrs of None \<Rightarrow> default_networks | Some cs \<Rightarrow> cs)"

definition trusted :: "('a, 'n) addr_env \<Rightarrow> 'n trust option \<Rightarrow> string \<Rightarrow> bool" where
  "trusted A t address =
     (case t of
        None \<Rightarrow> False
      | Some ns \<Rightarrow>
          ns \<noteq> [] \<and>
          (case parse_addr A (trim_space address) of
             None \<Rightarrow> False
           | Some a \<Rightarrow> list_ex (\<lambda>n. prefix_contains A n (unmap_addr A a)) ns))"

type_synonym header = "string \<Rightarrow> string list"

definition header_get :: "header \<Rightarrow> string \<Rightarrow> string" where
  "header_get h name = (case h name of [] \<Rightarrow> [] | v # _ \<Rightarrow> v)"

definition forwarded :: "header \<Rightarrow> string list" where
  "forwarded h = filter (\<lambda>hop. hop \<noteq> []) (map trim_space (concat (map (split_on CHR '','') (h ''X-Forwarded-For''))))"

definition hostOf :: "('a, 'n) addr_env \<Rightarrow> string \<Rightarrow> string" where
  "hostOf A peer = (case split_host_port A peer of Some host \<Rightarrow> host | None \<Rightarrow> trim_space peer)"

definition Of :: "('a, 'n) addr_env \<Rightarrow> 'n trust option \<Rightarrow> header \<Rightarrow> string \<Rightarrow> string" where
  "Of A t h peer =
     (let direct = hostOf A peer in
      if \<not> trusted A t direct then direct
      else let hops = forwarded h in
        case List.find (\<lambda>hop. \<not> trusted A t hop) (rev hops) of
          Some hop \<Rightarrow> hop
        | None \<Rightarrow>
            if hops \<noteq> [] then hd hops
            else let real = trim_space (header_get h ''X-Real-Ip'') in
              if real \<noteq> [] \<and> parse_addr A real \<noteq> None then real else direct)"

section \<open>Forged headers\<close>

text \<open>What a proxy does to the values of \<open>X-Forwarded-For\<close> when it passes a request of \<open>address\<close> on.\<close>

definition append_hop :: "string \<Rightarrow> string list \<Rightarrow> string list" where
  "append_hop address vs = (if vs = [] then [address] else butlast vs @ [last vs @ '', '' @ address])"

definition plain_address :: "string \<Rightarrow> bool" where
  "plain_address a \<longleftrightarrow> a \<noteq> [] \<and> list_all (\<lambda>c. solid c \<and> c \<noteq> CHR '','') a"

lemma plain_trim: "plain_address a \<Longrightarrow> trim_space a = a \<and> trim_space (CHR '' '' # a) = a"
proof -
  assume a: "plain_address a"
  then have ends: "solid (hd a)" "solid (last a)" by (auto simp: plain_address_def list_all_iff)
  then have "trim_space a = a" by (intro trim_space_id) simp
  moreover have "strip_one space_runes (CHR '' '' # a) = Some a" by (simp add: space_runes_def has_prefix_def)
  then have "trim_left (CHR '' '' # a) = trim_left a"
    unfolding trim_left_def using strip_all.simps[of space_runes "CHR '' '' # a"] by simp
  ultimately show ?thesis by (simp add: trim_space_def)
qed

lemma plain_split: "plain_address a \<Longrightarrow> split_on CHR '','' a = [a] \<and> split_on CHR '','' (CHR '' '' # a) = [CHR '' '' # a]"
proof -
  assume "plain_address a"
  then have "CHR '','' \<notin> set a" by (auto simp: plain_address_def list_all_iff)
  then have "split_on CHR '','' a = [a]" by (induction a) auto
  then show ?thesis by simp
qed

definition hops_of :: "string list \<Rightarrow> string list" where
  "hops_of vs = filter (\<lambda>hop. hop \<noteq> []) (map trim_space (concat (map (split_on CHR '','') vs)))"

lemma hops_append: "plain_address a \<Longrightarrow> hops_of (append_hop a vs) = hops_of vs @ [a]"
proof -
  assume a: "plain_address a"
  note facts = plain_trim[OF a] plain_split[OF a]
  have ne: "a \<noteq> []" using a by (simp add: plain_address_def)
  show ?thesis
  proof (cases vs rule: rev_cases)
    case Nil
    then show ?thesis using facts ne by (simp add: hops_of_def append_hop_def)
  next
    case (snoc us v)
    then show ?thesis using facts ne split_on_append2[of "CHR '',''" v "CHR '' '' # a"]
      by (simp add: hops_of_def append_hop_def)
  qed
qed

definition pass_on :: "string list \<Rightarrow> string list \<Rightarrow> string list" where
  "pass_on addresses vs = fold append_hop addresses vs"

lemma hops_pass_on: "list_all plain_address as \<Longrightarrow> hops_of (pass_on as vs) = hops_of vs @ as"
  by (induction as arbitrary: vs) (simp_all add: pass_on_def hops_append)

text \<open>
  C13: A client cannot choose the address it is counted under. A request that comes directly from an address
  that is no trusted proxy has that address; one that came through trusted proxies has the address that
  the first of them saw. Whatever headers the client sent makes no difference.
\<close>

theorem client_cannot_forge_address:
  assumes "list_all plain_address (client # proxies)" "\<not> trusted A t client" "list_all (trusted A t) proxies"
    and "h ''X-Forwarded-For'' = pass_on (client # proxies) sent"
  shows "Of A t h peer = (if trusted A t (hostOf A peer) then client else hostOf A peer)"
proof (cases "trusted A t (hostOf A peer)")
  case False
  then show ?thesis by (simp add: Of_def Let_def)
next
  case True
  then have "forwarded h = hops_of sent @ client # proxies"
    using assms(1,4) by (simp add: forwarded_def hops_of_def[symmetric] hops_pass_on)
  then have hops: "rev (forwarded h) = rev proxies @ client # rev (hops_of sent)" by simp
  have "List.find (\<lambda>hop. \<not> trusted A t hop) (rev proxies @ x) = List.find (\<lambda>hop. \<not> trusted A t hop) x" for x
    using assms(3) by (induction proxies rule: rev_induct) auto
  then have "List.find (\<lambda>hop. \<not> trusted A t hop) (rev (forwarded h)) = Some client"
    unfolding hops using assms(2) by simp
  then show ?thesis using True by (simp add: Of_def Let_def)
qed

definition sample_addresses :: "(string, string) addr_env" where
  "sample_addresses = \<lparr>parse_addr = (\<lambda>s. if s = [] then None else Some s), parse_prefix = Some, host_prefix = (\<lambda>a. a),
     prefix_contains = (\<lambda>n a. n = a), unmap_addr = (\<lambda>a. a), split_host_port = Some\<rparr>"

lemma client_cannot_forge_address_witness:
  "Of sample_addresses (Some [''10.0.0.1'']) (\<lambda>n. if n = ''X-Forwarded-For'' then [''10.0.0.1, 5.5.5.5, 7.7.7.7''] else []) ''10.0.0.1'' = ''7.7.7.7''"
proof -
  have tr: "trim_space s = s" if "s \<in> {''10.0.0.1'', ''7.7.7.7''}" for s
    using that by (intro trim_space_id) (auto simp: solid_def)
  have t: "trusted sample_addresses (Some [''10.0.0.1'']) s \<longleftrightarrow> s = ''10.0.0.1''" if "s \<in> {''10.0.0.1'', ''7.7.7.7''}" for s
    using that tr[OF that] by (auto simp: trusted_def sample_addresses_def)
  have "list_all plain_address [''7.7.7.7'']" by (simp add: plain_address_def solid_def)
  then show ?thesis
    using client_cannot_forge_address[of "''7.7.7.7''" "[]" sample_addresses "Some [''10.0.0.1'']"
      "\<lambda>n. if n = ''X-Forwarded-For'' then [''10.0.0.1, 5.5.5.5, 7.7.7.7''] else []" "[''10.0.0.1, 5.5.5.5'']" "''10.0.0.1''"] t
    by (simp add: hostOf_def sample_addresses_def pass_on_def append_hop_def)
qed

end
