(* ===== verification/Version.thy ===== *)
theory Version
  imports GoStrings
begin

text \<open>
  \<open>internal/version\<close>: comparing versions, which decides whether a launcher or a server update is
  newer. \<open>Compare\<close>, \<open>IsNewer\<close>, \<open>NextPatch\<close> and \<open>IsValid\<close> are the exported functions,
  \<open>split_version\<close> and \<open>part\<close> their helpers.
\<close>

section \<open>The functions\<close>

definition split_version :: "string \<Rightarrow> string list \<times> string \<times> bool" where
  "split_version value =
     (let trimmed = trim_prefix (trim_space value) ''v'';
          trimmed = fst (cut_at CHR ''+'' trimmed);
          (core, pre, hasPre) = cut_at CHR ''-'' trimmed
      in (split_on CHR ''.'' core, pre, hasPre))"

definition part :: "string list \<Rightarrow> nat \<Rightarrow> int" where
  "part parts index =
     (if length parts \<le> index then 0 else (case atoi (parts ! index) of None \<Rightarrow> 0 | Some n \<Rightarrow> n))"

text \<open>The loop over the segments of both cores, from segment \<open>i\<close> with \<open>n\<close> segments left.\<close>

fun compare_core :: "string list \<Rightarrow> string list \<Rightarrow> nat \<Rightarrow> nat \<Rightarrow> int" where
  "compare_core l r i 0 = 0"
| "compare_core l r i (Suc n) =
     (let diff = wrap64 (part l i - part r i) in
      if diff \<noteq> 0 then (if diff < 0 then -1 else 1) else compare_core l r (i + 1) n)"

definition compare_pre :: "string \<Rightarrow> string \<Rightarrow> int" where
  "compare_pre l r =
     (if l = r then 0 else if l = [] then 1 else if r = [] then -1 else if l < r then -1 else 1)"

definition Compare :: "string \<Rightarrow> string \<Rightarrow> int" where
  "Compare left right =
     (let (leftCore, leftPre, _) = split_version left;
          (rightCore, rightPre, _) = split_version right;
          c = compare_core leftCore rightCore 0 (max (length leftCore) (length rightCore))
      in if c \<noteq> 0 then c else compare_pre leftPre rightPre)"

definition IsNewer :: "string \<Rightarrow> string \<Rightarrow> bool" where
  "IsNewer candidate current \<longleftrightarrow> Compare candidate current > 0"

definition NextPatch :: "string \<Rightarrow> string" where
  "NextPatch value =
     (let core = fst (split_version value) in
      itoa (part core 0) @ ''.'' @ itoa (part core 1) @ ''.'' @ itoa (wrap64 (part core 2 + 1)))"

definition IsValid :: "string \<Rightarrow> bool" where
  "IsValid value =
     (if CHR ''+'' \<in> set value then False
      else let (core, pre, hasPre) = split_version value in
        if length core \<noteq> 3 then False
        else if hasPre \<and> pre = [] then False
        else list_all (\<lambda>p. atoi p \<noteq> None) core)"

section \<open>Segments\<close>

lemma cut_fst_no_sep: "c \<notin> set (fst (cut_at c s))"
  by (induction s) (auto split: prod.splits)

lemma cut_fst_sub: "set (fst (cut_at c s)) \<subseteq> set s"
  by (induction s) (auto split: prod.splits)

lemma core_no_minus: "p \<in> set (fst (split_version v)) \<Longrightarrow> CHR ''-'' \<notin> set p"
proof -
  assume p: "p \<in> set (fst (split_version v))"
  obtain s where "fst (split_version v) = split_on CHR ''.'' (fst (cut_at CHR ''-'' s))"
    by (simp add: split_version_def Let_def case_prod_unfold)
  then show ?thesis using p split_on_sub cut_fst_no_sep by fastforce
qed

lemma part_range: "0 \<le> part (fst (split_version v)) i \<and> part (fst (split_version v)) i < 2 ^ 63"
proof (cases "i < length (fst (split_version v))")
  case True
  let ?p = "fst (split_version v) ! i"
  have "CHR ''-'' \<notin> set ?p" using True core_no_minus nth_mem by blast
  then show ?thesis using atoi_no_minus_nonneg[of ?p] atoi_int64[of ?p]
    by (auto simp: part_def int64_def split: option.splits)
qed (simp add: part_def)

section \<open>The order of the cores\<close>

definition core_less :: "(nat \<Rightarrow> int) \<Rightarrow> (nat \<Rightarrow> int) \<Rightarrow> bool" where
  "core_less f g \<longleftrightarrow> (\<exists>i. f i < g i \<and> (\<forall>j < i. f j = g j))"

lemma core_less_irrefl [simp]: "\<not> core_less f f"
  by (simp add: core_less_def)

lemma core_less_trans: "core_less f g \<Longrightarrow> core_less g h \<Longrightarrow> core_less f h"
proof -
  assume "core_less f g" "core_less g h"
  then obtain i j where i: "f i < g i" "\<forall>k < i. f k = g k" and j: "g j < h j" "\<forall>k < j. g k = h k"
    unfolding core_less_def by blast
  have "f (min i j) < h (min i j)" using i j
    by (metis less_trans linorder_neqE_nat min.absorb3 min.absorb4 min.idem)
  then show ?thesis unfolding core_less_def using i j by (intro exI[of _ "min i j"]) auto
qed

lemma core_less_total: "f \<noteq> g \<Longrightarrow> core_less f g \<or> core_less g f"
proof -
  assume "f \<noteq> g"
  then obtain i where "f i \<noteq> g i" by blast
  define k where "k = (LEAST i. f i \<noteq> g i)"
  have "f k \<noteq> g k" unfolding k_def using \<open>f i \<noteq> g i\<close> by (rule LeastI)
  moreover have "\<forall>j < k. f j = g j" unfolding k_def using not_less_Least by blast
  ultimately show ?thesis unfolding core_less_def by (metis linorder_neqE)
qed

lemma compare_core_correct:
  assumes "\<forall>j < i. part l j = part r j" "\<forall>j \<ge> i + n. part l j = part r j"
    and range: "\<forall>j. 0 \<le> part l j \<and> part l j < 2 ^ 63 \<and> 0 \<le> part r j \<and> part r j < 2 ^ 63"
  shows "compare_core l r i n =
    (if part l = part r then 0 else if core_less (part l) (part r) then -1 else 1)"
  using assms(1,2)
proof (induction n arbitrary: i)
  case 0
  then have "part l = part r" by (intro ext) (metis add.right_neutral linorder_not_less)
  then show ?case by simp
next
  case (Suc n)
  have "int64 (part l i - part r i)"
    using range[rule_format, of i] by (simp add: int64_def)
  then have w: "wrap64 (part l i - part r i) = part l i - part r i" by (rule wrap64_id)
  show ?case
  proof (cases "part l i" "part r i" rule: linorder_cases)
    case less
    then have "core_less (part l) (part r)" using Suc.prems(1) unfolding core_less_def by blast
    then show ?thesis using less w by (auto simp: Let_def)
  next
    case equal
    have "compare_core l r (Suc i) n =
      (if part l = part r then 0 else if core_less (part l) (part r) then -1 else 1)"
      using Suc.prems equal by (intro Suc.IH) (auto simp: less_Suc_eq)
    then show ?thesis using equal w by simp
  next
    case greater
    then have "core_less (part r) (part l)" using Suc.prems(1) unfolding core_less_def by metis
    then have "\<not> core_less (part l) (part r)" "part l \<noteq> part r"
      using core_less_trans[of "part r" "part l" "part r"] greater by auto
    then show ?thesis using greater w by (simp add: Let_def)
  qed
qed

text \<open>What a version is compared by: its core padded with zeros, then its pre-release.\<close>

definition vcore :: "string \<Rightarrow> nat \<Rightarrow> int" where
  "vcore v = part (fst (split_version v))"

definition vpre :: "string \<Rightarrow> string" where
  "vpre v = fst (snd (split_version v))"

lemma Compare_key:
  "Compare a b =
     (if core_less (vcore a) (vcore b) then -1 else if core_less (vcore b) (vcore a) then 1
      else compare_pre (vpre a) (vpre b))"
proof -
  let ?l = "fst (split_version a)" and ?r = "fst (split_version b)"
  have c: "compare_core ?l ?r 0 (max (length ?l) (length ?r)) =
    (if vcore a = vcore b then 0 else if core_less (vcore a) (vcore b) then -1 else 1)"
    unfolding vcore_def using part_range by (intro compare_core_correct) (auto simp: part_def)
  have "Compare a b = (let c = compare_core ?l ?r 0 (max (length ?l) (length ?r)) in
      if c \<noteq> 0 then c else compare_pre (vpre a) (vpre b))"
    by (simp add: Compare_def vpre_def Let_def split: prod.splits)
  then show ?thesis
    using c core_less_total[of "vcore a" "vcore b"] core_less_trans core_less_irrefl
    by (auto simp: Let_def dest: core_less_trans)
qed

lemma compare_pre_values: "compare_pre a b \<in> {-1, 0, 1}"
  by (simp add: compare_pre_def)

lemma compare_pre_sym: "compare_pre b a = - compare_pre a b"
  by (auto simp: compare_pre_def)

lemma compare_pre_trans: "compare_pre a b \<le> 0 \<Longrightarrow> compare_pre b c \<le> 0 \<Longrightarrow> compare_pre a c \<le> 0"
  by (auto simp: compare_pre_def split: if_splits)

lemma Compare_le_key:
  "Compare a b \<le> 0 \<longleftrightarrow>
     core_less (vcore a) (vcore b) \<or> vcore a = vcore b \<and> compare_pre (vpre a) (vpre b) \<le> 0"
  using core_less_total[of "vcore a" "vcore b"] core_less_trans[of "vcore a" "vcore b" "vcore a"]
  by (auto simp: Compare_key)

lemma NextPatch_split:
  assumes "part (fst (split_version v)) 2 < 2 ^ 63 - 1"
  shows "split_version (NextPatch v) =
    ([itoa (part (fst (split_version v)) 0), itoa (part (fst (split_version v)) 1),
      itoa (part (fst (split_version v)) 2 + 1)], [], False)"
proof -
  let ?p = "part (fst (split_version v))"
  let ?ps = "[itoa (?p 0), itoa (?p 1), itoa (?p 2 + 1)]"
  have nn: "0 \<le> ?p i" for i using part_range by blast
  have dig: "list_all is_digit (itoa n)" if "0 \<le> n" for n using that nat_digits_digits by (simp add: itoa_def)
  have "int64 (?p 2 + 1)" using nn[of 2] assms by (simp add: int64_def)
  then have np: "NextPatch v = join_with CHR ''.'' ?ps" by (simp add: NextPatch_def Let_def wrap64_id)
  have sub: "c \<in> set (NextPatch v) \<Longrightarrow> is_digit c \<or> c = CHR ''.''" for c
    using dig[of "?p 0"] dig[of "?p 1"] dig[of "?p 2 + 1"] nn[of 0] nn[of 1] nn[of 2]
    by (auto simp: np list_all_iff)
  have solid: "solid c" if "is_digit c \<or> c = CHR ''.''" for c
    using that by (auto simp: is_digit_def solid_def)
  have ne: "NextPatch v \<noteq> []" by (simp add: np)
  then have "trim_space (NextPatch v) = NextPatch v"
    using sub solid by (intro trim_space_id) (metis hd_in_set last_in_set)
  moreover have "\<not> has_prefix (NextPatch v) ''v''"
    using sub[of "CHR ''v''"] by (auto simp: has_prefix_iff is_digit_def)
  moreover have "cut_at CHR ''+'' (NextPatch v) = (NextPatch v, [], False)"
    using sub[of "CHR ''+''"] by (intro cut_not_found) (auto simp: is_digit_def)
  moreover have "cut_at CHR ''-'' (NextPatch v) = (NextPatch v, [], False)"
    using sub[of "CHR ''-''"] by (intro cut_not_found) (auto simp: is_digit_def)
  moreover have "split_on CHR ''.'' (NextPatch v) = ?ps"
    unfolding np using dig[of "?p 0"] dig[of "?p 1"] dig[of "?p 2 + 1"] nn[of 0] nn[of 1] nn[of 2]
    by (intro split_join) (auto simp: list_all_iff is_digit_def)
  ultimately show ?thesis by (simp add: split_version_def Let_def trim_prefix_def)
qed

lemma Compare_antisym: "Compare b a = - Compare a b"
  using core_less_trans[of "vcore a" "vcore b" "vcore a"] compare_pre_sym[of "vpre b" "vpre a"]
  by (auto simp: Compare_key)

lemma Compare_trans: "Compare a b \<le> 0 \<Longrightarrow> Compare b c \<le> 0 \<Longrightarrow> Compare a c \<le> 0"
  unfolding Compare_le_key using core_less_trans compare_pre_trans by metis

lemma IsNewer_trans: "IsNewer a b \<Longrightarrow> IsNewer b c \<Longrightarrow> IsNewer a c"
  using Compare_trans[of a c b] Compare_antisym[of c b] unfolding IsNewer_def by linarith

section \<open>Properties\<close>

text \<open>
  comparing is antisymmetric and transitive, so it orders all strings, valid versions or not:
  the reverse comparison has the opposite sign and "not newer" is transitive.
\<close>

theorem Compare_total_preorder:
  "Compare b a = - Compare a b \<and> (Compare a b \<le> 0 \<longrightarrow> Compare b c \<le> 0 \<longrightarrow> Compare a c \<le> 0)"
  using Compare_antisym Compare_trans by blast

theorem Compare_total_preorder_witness:
  "Compare ''1.2'' ''1.3'' \<le> 0 \<and> Compare ''1.3'' ''1.10'' \<le> 0 \<and> Compare ''1.2'' ''1.10'' \<le> 0"
proof -
  have t: "trim_space ''1.2'' = ''1.2''" "trim_space ''1.3'' = ''1.3''" "trim_space ''1.10'' = ''1.10''"
    by (rule trim_space_id; simp add: solid_def)+
  have "Compare ''1.2'' ''1.3'' \<le> 0" "Compare ''1.3'' ''1.10'' \<le> 0"
    by (simp_all add: Compare_def split_version_def t trim_prefix_def has_prefix_def part_def atoi_def
        digits_val_def digit_val_def is_digit_def int64_def wrap64_def numeral_2_eq_2)
  then show ?thesis using Compare_total_preorder [of "''1.3''" "''1.2''" "''1.10''"] by blast
qed

text \<open>
  the next patch version is newer than the version it was made from, whatever string that is,
  unless the patch number is the largest 64-bit integer.
\<close>

theorem NextPatch_newer:
  "part (fst (split_version v)) 2 < 2 ^ 63 - 1 \<Longrightarrow> IsNewer (NextPatch v) v"
proof -
  let ?p = "part (fst (split_version v))"
  assume lt: "?p 2 < 2 ^ 63 - 1"
  have r: "int64 (?p i)" for i using part_range[of v i] by (simp add: int64_def)
  have "int64 (?p 2 + 1)" using part_range[of v 2] lt by (simp add: int64_def)
  moreover have "part (itoa a # xs) 0 = a" if "int64 a" for a xs using that by (simp add: part_def)
  moreover have "part (x # xs) (Suc i) = part xs i" for x xs i by (simp add: part_def)
  ultimately have "vcore (NextPatch v) 0 = ?p 0" "vcore (NextPatch v) 1 = ?p 1" "vcore (NextPatch v) 2 = ?p 2 + 1"
    using r by (simp_all add: vcore_def NextPatch_split[OF lt] numeral_2_eq_2)
  then have "core_less (vcore v) (vcore (NextPatch v))"
    unfolding core_less_def vcore_def
    by (intro exI[of _ 2]) (auto simp: less_2_cases_iff)
  moreover from this have "\<not> core_less (vcore (NextPatch v)) (vcore v)"
    using core_less_trans core_less_irrefl by blast
  ultimately show ?thesis by (simp add: IsNewer_def Compare_key)
qed

theorem NextPatch_newer_witness:
  "part (fst (split_version ''1.2.3-rc1'')) 2 = 3 \<and> IsNewer (NextPatch ''1.2.3-rc1'') ''1.2.3-rc1''"
proof -
  have "trim_space ''1.2.3-rc1'' = ''1.2.3-rc1''" by (rule trim_space_id) (simp add: solid_def)
  then have "part (fst (split_version ''1.2.3-rc1'')) 2 = 3"
    by (simp add: split_version_def trim_prefix_def has_prefix_def part_def atoi_def digits_val_def
        digit_val_def is_digit_def int64_def)
  then show ?thesis using NextPatch_newer [of "''1.2.3-rc1''"] by simp
qed

end
