(* ===== verification/Launcher.thy ===== *)
theory Launcher
  imports Catalog Version "HOL-Library.Product_Lexorder"
begin

text \<open>
  The releases of the launcher itself (package \<open>launchersvc\<close>: \<open>launchersvc.go\<close>, \<open>releases.go\<close> and the version
  checks of \<open>build.go\<close>) and the choice of the file a browser downloads (\<open>api/download.go\<close>). The state is the
  directory of the launcher: the release file and its signature, and the directories of versions. Every
  write may fail; a file is replaced atomically. The protobuf codec and the signature are parameters, the
  store of objects is the one of theory \<open>Storage\<close>.

  The theorem: no sequence of publications, failing anywhere, makes the served version go back. A publication
  is one step: the code holds no lock while it compares the versions and writes the release, so two
  publications at once are not covered.
\<close>

section \<open>Strings\<close>

fun contains_str :: "string \<Rightarrow> string \<Rightarrow> bool" where
  "contains_str [] p = (p = [])"
| "contains_str (c # s) p = (has_prefix (c # s) p \<or> contains_str s p)"

section \<open>Releases\<close>

datatype artifact_kind = KIND_UNSPECIFIED | KIND_RAW_EXECUTABLE | KIND_APP_IMAGE | KIND_APP_BUNDLE_TAR_GZ | KIND_INSTALLER
  | KIND_OTHER int

fun kind_number :: "artifact_kind \<Rightarrow> int" where
  "kind_number KIND_UNSPECIFIED = 0"
| "kind_number KIND_RAW_EXECUTABLE = 1"
| "kind_number KIND_APP_IMAGE = 2"
| "kind_number KIND_APP_BUNDLE_TAR_GZ = 3"
| "kind_number KIND_INSTALLER = 4"
| "kind_number (KIND_OTHER n) = n"

fun kindName :: "artifact_kind \<Rightarrow> string" where
  "kindName KIND_UNSPECIFIED = ''unspecified''"
| "kindName KIND_RAW_EXECUTABLE = ''raw_executable''"
| "kindName KIND_APP_IMAGE = ''app_image''"
| "kindName KIND_APP_BUNDLE_TAR_GZ = ''app_bundle_tar_gz''"
| "kindName KIND_INSTALLER = ''installer''"
| "kindName (KIND_OTHER n) = []"

record launcher_artifact =
  ArtifactPlatform :: platform
  ArtifactKind :: artifact_kind
  ArtifactObject :: "object_ref option"
  ArtifactName :: string

record launcher_release =
  ReleaseSchema :: nat
  ReleaseVersion :: string
  ReleasedAt :: instant
  Artifacts :: "launcher_artifact list"

record launcher_env =
  lower_name :: "string \<Rightarrow> string"
  encode_release :: "launcher_release \<Rightarrow> string option"
  Decode :: "string \<Rightarrow> launcher_release option"
  sign_bytes :: "string \<Rightarrow> string"
  query_escape :: "string \<Rightarrow> string"

definition releaseFile :: string where "releaseFile = ''current.release''"
definition signatureFile :: string where "signatureFile = ''current.release.sig''"

section \<open>What the platform and the kind of a file are\<close>

definition name_platforms :: "platform list" where
  "name_platforms = [PLATFORM_WINDOWS_ARM64, PLATFORM_WINDOWS_X86, PLATFORM_WINDOWS_X64, PLATFORM_MAC_OS_ARM64, PLATFORM_MAC_OS,
     PLATFORM_LINUX_ARM64, PLATFORM_LINUX_I386, PLATFORM_LINUX]"

definition platformFromName :: "string \<Rightarrow> platform \<Rightarrow> platform" where
  "platformFromName lower fallback =
     (case List.find (\<lambda>p. snd (Key p) \<and> contains_str lower (fst (Key p))) name_platforms of
        Some p \<Rightarrow> p
      | None \<Rightarrow>
          if contains_str lower ''aarch64'' \<or> contains_str lower ''arm64''
          then (if fallback = PLATFORM_MAC_OS then PLATFORM_MAC_OS_ARM64
                else if fallback = PLATFORM_LINUX then PLATFORM_LINUX_ARM64
                else if fallback = PLATFORM_WINDOWS_X64 then PLATFORM_WINDOWS_ARM64 else fallback)
          else fallback)"

text \<open>A name has no slash, so \<open>filepath.Ext\<close> is empty exactly when it has no dot.\<close>

definition classify :: "launcher_env \<Rightarrow> string \<Rightarrow> (platform \<times> artifact_kind) option" where
  "classify E name =
     (let lower = to_lower (lower_name E) name in
      if has_suffix lower ''.appimage'' then Some (platformFromName lower PLATFORM_LINUX, KIND_APP_IMAGE)
      else if has_suffix lower ''.app.tar.gz'' then Some (platformFromName lower PLATFORM_MAC_OS, KIND_APP_BUNDLE_TAR_GZ)
      else if has_suffix lower ''.exe'' then
        (if contains_str lower ''setup'' \<or> contains_str lower ''installer''
         then Some (platformFromName lower PLATFORM_WINDOWS_X64, KIND_INSTALLER)
         else Some (platformFromName lower PLATFORM_WINDOWS_X64, KIND_RAW_EXECUTABLE))
      else if has_suffix lower ''.msi'' then Some (platformFromName lower PLATFORM_WINDOWS_X64, KIND_INSTALLER)
      else if has_suffix lower ''.dmg'' \<or> has_suffix lower ''.pkg'' then Some (platformFromName lower PLATFORM_MAC_OS, KIND_INSTALLER)
      else if has_suffix lower ''.deb'' \<or> has_suffix lower ''.rpm'' then Some (platformFromName lower PLATFORM_LINUX, KIND_INSTALLER)
      else if contains_str lower ''mac-os'' \<or> contains_str lower ''macos'' \<or> contains_str lower ''darwin''
        then Some (platformFromName lower PLATFORM_MAC_OS, KIND_RAW_EXECUTABLE)
      else if contains_str lower ''linux'' \<or> CHR ''.'' \<notin> set lower then Some (platformFromName lower PLATFORM_LINUX, KIND_RAW_EXECUTABLE)
      else None)"

section \<open>The directory and its reader\<close>

text \<open>A version directory lists its entries; a file has the contents of its first and of a second reading.\<close>

datatype launcher_entry = EntryDir | EntryFile "string option" "string option"

record launcher_dir =
  launcher_files :: dir_files
  release_stamp :: "(int \<times> int) option"
  versions_of :: "string \<Rightarrow> (string \<times> launcher_entry) list option"
  launcher_faults :: "bool list"

text \<open>The last pair read, with the stamp of the release file; \<open>None\<close> before the first.\<close>

record releases =
  releases_configured :: bool
  remembered :: "((string \<times> string) \<times> (int \<times> int)) option"

definition NewReleases :: "bool \<Rightarrow> releases" where
  "NewReleases c = \<lparr>releases_configured = c, remembered = None\<rparr>"

text \<open>\<open>Current\<close>: nothing published is the pair of empty strings.\<close>

definition read_pair :: "launcher_dir \<Rightarrow> (release_error, (string \<times> string) option) result" where
  "read_pair d =
     (case read_file (launcher_files d) releaseFile of
        Inl e \<Rightarrow> if e = NotExist then Inr None else Inl e
      | Inr canonical \<Rightarrow>
          (case read_file (launcher_files d) signatureFile of
             Inl e \<Rightarrow> if e = NotExist then Inr None else Inl e
           | Inr signature \<Rightarrow> Inr (Some (canonical, signature))))"

definition Current_release :: "launcher_dir \<Rightarrow> releases \<Rightarrow> (release_error, string \<times> string) result \<times> releases" where
  "Current_release d r =
     (if \<not> releases_configured r then (Inr ([], []), r)
      else if release_stamp d \<noteq> None \<and> map_option snd (remembered r) = release_stamp d
      then (Inr (fst (the (remembered r))), r)
      else (case read_pair d of
          Inl e \<Rightarrow> (Inl e, r)
        | Inr None \<Rightarrow> (Inr ([], []), r)
        | Inr (Some p) \<Rightarrow> (Inr p, case release_stamp d of None \<Rightarrow> r | Some st \<Rightarrow> r\<lparr>remembered := Some (p, st)\<rparr>)))"

definition All_releases :: "launcher_env \<Rightarrow> launcher_dir \<Rightarrow> releases \<Rightarrow> (release_error, launcher_release list) result \<times> releases" where
  "All_releases E d r =
     (case Current_release d r of
        (Inl e, r) \<Rightarrow> (Inl e, r)
      | (Inr (canonical, _), r) \<Rightarrow>
          (if canonical = [] then Inr []
           else (case Decode E canonical of None \<Rightarrow> Inl BadJson | Some rel \<Rightarrow> Inr [rel]), r))"

text \<open>The release that the checks of the commands see: they read the directory anew.\<close>

definition published_release :: "launcher_env \<Rightarrow> launcher_dir \<Rightarrow> (release_error, launcher_release option) result" where
  "published_release E d =
     (case fst (Current_release d (NewReleases True)) of
        Inl e \<Rightarrow> Inl e
      | Inr (canonical, _) \<Rightarrow>
          if canonical = [] then Inr None
          else (case Decode E canonical of None \<Rightarrow> Inl BadJson | Some rel \<Rightarrow> Inr (Some rel)))"

section \<open>Publishing\<close>

datatype launcher_error = BadVersion string | ReleaseFault release_error | NotNewer string | NoVersionDir | SlotTaken string
  | ObjectFault cas_error | NoArtifacts | SignFailed | LauncherWrite

definition write_launcher :: "string \<Rightarrow> string \<Rightarrow> launcher_dir \<Rightarrow> bool \<times> launcher_dir" where
  "write_launcher name data d =
     (case launcher_faults d of
        True # fs \<Rightarrow> (False, d\<lparr>launcher_faults := fs\<rparr>)
      | _ \<Rightarrow> (True, d\<lparr>launcher_files := store name (Some data) (launcher_files d), launcher_faults := tl (launcher_faults d)\<rparr>))"

definition slot_of :: "platform \<Rightarrow> artifact_kind \<Rightarrow> string" where
  "slot_of p k = fst (Key p) @ ''/'' @ kindName k"

fun take_artifacts ::
    "launcher_env \<Rightarrow> hashes \<Rightarrow> 'b cas \<Rightarrow> string list \<Rightarrow> (string \<times> launcher_entry) list \<Rightarrow> 'b \<Rightarrow>
     (launcher_error, launcher_artifact list) result \<times> 'b" where
  "take_artifacts E H c seen [] w = (Inr [], w)"
| "take_artifacts E H c seen ((name, EntryDir) # rest) w = take_artifacts E H c seen rest w"
| "take_artifacts E H c seen ((name, EntryFile first reread) # rest) w =
     (case classify E name of
        None \<Rightarrow> take_artifacts E H c seen rest w
      | Some (p, k) \<Rightarrow>
          if slot_of p k \<in> set seen then (Inl (SlotTaken (slot_of p k)), w)
          else (case cas_PutFile H c first reread w of
              (Inl e, w) \<Rightarrow> (Inl (ObjectFault e), w)
            | (Inr ref, w) \<Rightarrow>
                (case take_artifacts E H c (slot_of p k # seen) rest w of
                   (Inl e, w) \<Rightarrow> (Inl e, w)
                 | (Inr as, w) \<Rightarrow>
                     (Inr (\<lparr>ArtifactPlatform = p, ArtifactKind = k, ArtifactObject = Some ref, ArtifactName = name\<rparr> # as), w))))"

definition version_argument :: "string \<Rightarrow> string" where
  "version_argument s = trim_space (trim_prefix s ''v'')"

definition schemaVersion :: nat where "schemaVersion = 1"

text \<open>\<open>publish\<close> at a time, with the stamp that the release file has once it is written.\<close>

definition publish ::
    "launcher_env \<Rightarrow> hashes \<Rightarrow> 'b cas \<Rightarrow> instant \<Rightarrow> int \<times> int \<Rightarrow> string \<Rightarrow> launcher_dir \<Rightarrow> 'b \<Rightarrow> launcher_error option \<times> launcher_dir \<times> 'b" where
  "publish E H c t st argument d w =
     (let candidate = version_argument argument in
      if \<not> IsValid candidate then (Some (BadVersion candidate), d, w)
      else case published_release E d of
        Inl e \<Rightarrow> (Some (ReleaseFault e), d, w)
      | Inr current \<Rightarrow>
          (if (case current of None \<Rightarrow> False | Some rel \<Rightarrow> \<not> IsNewer candidate (ReleaseVersion rel))
           then (Some (NotNewer candidate), d, w)
           else case versions_of d candidate of
             None \<Rightarrow> (Some NoVersionDir, d, w)
           | Some entries \<Rightarrow>
               (case take_artifacts E H c [] entries w of
                  (Inl e, w) \<Rightarrow> (Some e, d, w)
                | (Inr as, w) \<Rightarrow>
                    if as = [] then (Some NoArtifacts, d, w)
                    else (case encode_release E \<lparr>ReleaseSchema = schemaVersion, ReleaseVersion = candidate, ReleasedAt = t,
                             Artifacts = sort_key (\<lambda>a. (number (ArtifactPlatform a), kind_number (ArtifactKind a))) as\<rparr> of
                        None \<Rightarrow> (Some SignFailed, d, w)
                      | Some canonical \<Rightarrow>
                          (case write_launcher signatureFile (sign_bytes E canonical) d of
                             (False, d) \<Rightarrow> (Some LauncherWrite, d, w)
                           | (True, d) \<Rightarrow>
                               (case write_launcher releaseFile canonical d of
                                  (False, d) \<Rightarrow> (Some LauncherWrite, d, w)
                                | (True, d) \<Rightarrow> (None, d\<lparr>release_stamp := Some st\<rparr>, w)))))))"

text \<open>\<open>roomFor\<close> of \<open>launcher build\<close>, and whether a server that starts rebuilds the launcher.\<close>

definition roomFor :: "launcher_env \<Rightarrow> string \<Rightarrow> launcher_dir \<Rightarrow> (string \<times> string) option + release_error" where
  "roomFor E candidate d =
     (case published_release E d of
        Inl e \<Rightarrow> Inr e
      | Inr None \<Rightarrow> Inl None
      | Inr (Some rel) \<Rightarrow>
          if IsNewer candidate (ReleaseVersion rel) then Inl None else Inl (Some (ReleaseVersion rel, NextPatch (ReleaseVersion rel))))"

definition catches_up :: "launcher_env \<Rightarrow> bool \<Rightarrow> string \<Rightarrow> launcher_dir \<Rightarrow> bool" where
  "catches_up E auto shipped d \<longleftrightarrow> auto \<and>
     (case published_release E d of Inr (Some rel) \<Rightarrow> IsNewer (trim_prefix shipped ''v'') (ReleaseVersion rel) | _ \<Rightarrow> False)"

section \<open>Downloads\<close>

definition artifactFor :: "launcher_release \<Rightarrow> platform \<Rightarrow> launcher_artifact option" where
  "artifactFor rel target =
     (case List.find (\<lambda>a. ArtifactPlatform a = target \<and> ArtifactKind a = KIND_RAW_EXECUTABLE) (Artifacts rel) of
        Some a \<Rightarrow> Some a
      | None \<Rightarrow> List.find (\<lambda>a. ArtifactPlatform a = target) (Artifacts rel))"

definition platformOfRequest :: "launcher_env \<Rightarrow> string \<Rightarrow> platform \<times> bool" where
  "platformOfRequest E user_agent =
     (let agent = to_lower (lower_name E) user_agent in
      if contains_str agent ''windows'' then Parse (lower_name E) ''windows-x64''
      else if contains_str agent ''mac os'' \<or> contains_str agent ''macintosh'' then
        (if contains_str agent ''arm'' then Parse (lower_name E) ''mac-os-arm64'' else Parse (lower_name E) ''mac-os'')
      else if contains_str agent ''linux'' \<and> \<not> contains_str agent ''android'' then Parse (lower_name E) ''linux''
      else (PLATFORM_UNSPECIFIED, False))"

definition downloadPrefix :: string where "downloadPrefix = ''/launcher''"

definition trim_slashes :: "string \<Rightarrow> string" where
  "trim_slashes s = rev (dropWhile (\<lambda>c. c = CHR ''/'') (rev (dropWhile (\<lambda>c. c = CHR ''/'') s)))"

datatype download = NotPublished | PlatformList "string list" | RedirectTo string | UnknownPlatform | NoArtifact | DownloadPanic

definition currentRelease :: "launcher_env \<Rightarrow> launcher_dir \<Rightarrow> releases option \<Rightarrow> launcher_release option \<times> releases option" where
  "currentRelease E d r =
     (case r of
        None \<Rightarrow> (None, None)
      | Some r \<Rightarrow>
          (case Current_release d r of
             (Inl e, r) \<Rightarrow> (None, Some r)
           | (Inr (canonical, _), r) \<Rightarrow> (if canonical = [] then None else Decode E canonical, Some r)))"

definition platform_lines :: "launcher_release \<Rightarrow> string list" where
  "platform_lines rel = map (\<lambda>a. downloadPrefix @ ''/'' @ fst (Key (ArtifactPlatform a))) (filter (\<lambda>a. snd (Key (ArtifactPlatform a))) (Artifacts rel))"

definition DownloadHandler ::
    "launcher_env \<Rightarrow> launcher_dir \<Rightarrow> string \<Rightarrow> string \<Rightarrow> releases option \<Rightarrow> download \<times> releases option" where
  "DownloadHandler E d path agent r =
     (case currentRelease E d r of
        (None, r) \<Rightarrow> (NotPublished, r)
      | (Some rel, r) \<Rightarrow>
          (let requested = trim_slashes (trim_prefix path downloadPrefix) in
           if requested = [] then
             (case platformOfRequest E agent of
                (target, False) \<Rightarrow> (PlatformList (platform_lines rel), r)
              | (target, True) \<Rightarrow> (RedirectTo (downloadPrefix @ ''/'' @ fst (Key target)), r))
           else (case Parse (lower_name E) requested of
               (target, False) \<Rightarrow> (UnknownPlatform, r)
             | (target, True) \<Rightarrow>
                 (case artifactFor rel target of
                    None \<Rightarrow> (NoArtifact, r)
                  | Some a \<Rightarrow>
                      (case Option.bind (ArtifactObject a) RefHash of
                         None \<Rightarrow> (NoArtifact, r)
                       | Some h \<Rightarrow>
                           (case ObjectKey (Algo h) (Value h) of
                              None \<Rightarrow> (DownloadPanic, r)
                            | Some k \<Rightarrow>
                                (RedirectTo (''/objects/'' @ k @
                                   (if ArtifactName a = [] then [] else ''?filename='' @ query_escape E (ArtifactName a))), r)))))))"

section \<open>The served version\<close>

lemma published_read:
  "published_release E d =
     (case read_pair d of
        Inl e \<Rightarrow> Inl e
      | Inr None \<Rightarrow> Inr None
      | Inr (Some (canonical, _)) \<Rightarrow>
          if canonical = [] then Inr None else (case Decode E canonical of None \<Rightarrow> Inl BadJson | Some rel \<Rightarrow> Inr (Some rel)))"
  by (auto simp: published_release_def Current_release_def NewReleases_def split: sum.splits option.splits)

definition release_codec :: "launcher_env \<Rightarrow> bool" where
  "release_codec E \<longleftrightarrow> (\<forall>rel c. encode_release E rel = Some c \<longrightarrow> c \<noteq> [] \<and> Decode E c = Some rel)"

lemma read_pair_write:
  assumes "read_pair d = Inr (Some (old, sig))" "write_launcher name data d = (ok, d')"
  shows "read_pair d' = Inr (Some (if ok \<and> name = releaseFile then data else old, if ok \<and> name = signatureFile then data else sig))"
proof -
  have "releaseFile \<noteq> signatureFile" by (simp add: releaseFile_def signatureFile_def)
  then show ?thesis using assms
    by (auto simp: read_pair_def write_launcher_def read_file_def split: list.splits bool.splits option.splits if_splits)
qed

lemma published_pair_of: "published_release E d = Inr (Some rel) \<Longrightarrow>
    \<exists>old sig. read_pair d = Inr (Some (old, sig)) \<and> old \<noteq> [] \<and> Decode E old = Some rel"
  by (auto simp: published_read split: sum.splits option.splits if_splits)

text \<open>What a publication does to a directory with a release: nothing, a new signature alone, or both files.\<close>

lemma publish_cases:
  assumes "release_codec E" "published_release E d = Inr (Some rel)" "publish E H c t st argument d w = (e, d', w')"
  shows "\<exists>rel'. published_release E d' = Inr (Some rel') \<and> (rel' = rel \<or> e = None \<and> IsNewer (ReleaseVersion rel') (ReleaseVersion rel))"
proof (cases "d' = d")
  case True
  then show ?thesis using assms(2) by blast
next
  case changed: False
  let ?v = "version_argument argument"
  obtain old sig where old: "read_pair d = Inr (Some (old, sig))" "old \<noteq> []" "Decode E old = Some rel"
    using published_pair_of[OF assms(2)] by blast
  have newer: "IsNewer ?v (ReleaseVersion rel)" and valid: "IsValid ?v"
    using assms(3) changed by (auto simp: publish_def Let_def assms(2) split: if_splits)
  obtain as canonical ok1 d1 ok2 d2 new where w: "encode_release E new = Some canonical" "ReleaseVersion new = ?v"
    "write_launcher signatureFile (sign_bytes E canonical) d = (ok1, d1)" "write_launcher releaseFile canonical d1 = (ok2, d2)"
    "(e, d') = (if \<not> ok1 then (Some LauncherWrite, d1) else if \<not> ok2 then (Some LauncherWrite, d2) else (None, d2\<lparr>release_stamp := Some st\<rparr>))"
    using assms(3) changed newer valid
    by (fastforce simp: publish_def Let_def assms(2) split: if_splits option.splits prod.splits sum.splits bool.splits)
  have "launcher_files (d2\<lparr>release_stamp := Some st\<rparr>) = launcher_files d2" by simp
  then have stamp: "read_pair (d2\<lparr>release_stamp := Some st\<rparr>) = read_pair d2" unfolding read_pair_def by (rule arg_cong)
  have c: "canonical \<noteq> []" "Decode E canonical = Some new" using assms(1) w(1) by (auto simp: release_codec_def)
  have files: "releaseFile \<noteq> signatureFile" by (simp add: releaseFile_def signatureFile_def)
  have r1: "read_pair d1 = Inr (Some (old, if ok1 then sign_bytes E canonical else sig))"
    using read_pair_write[OF old(1) w(3)] files by auto
  have r2: "read_pair d2 = Inr (Some (if ok2 then canonical else old, if ok1 then sign_bytes E canonical else sig))"
    using read_pair_write[OF r1 w(4)] files by auto
  show ?thesis using w(2,5) r1 r2 stamp old c newer by (auto simp: published_read split: if_splits)
qed

text \<open>A run: each publication finds some version directories and has its own faults.\<close>

record launcher_op =
  op_time :: instant
  op_stamp :: "int \<times> int"
  op_version :: string
  op_dirs :: "string \<Rightarrow> (string \<times> launcher_entry) list option"
  op_faults :: "bool list"

definition launcher_step :: "launcher_env \<Rightarrow> hashes \<Rightarrow> 'b cas \<Rightarrow> launcher_op \<Rightarrow> launcher_dir \<times> 'b \<Rightarrow> launcher_dir \<times> 'b" where
  "launcher_step E H c opn s =
     snd (publish E H c (op_time opn) (op_stamp opn) (op_version opn)
       ((fst s)\<lparr>versions_of := op_dirs opn, launcher_faults := op_faults opn\<rparr>) (snd s))"

definition launcher_run :: "launcher_env \<Rightarrow> hashes \<Rightarrow> 'b cas \<Rightarrow> launcher_op list \<Rightarrow> launcher_dir \<times> 'b \<Rightarrow> launcher_dir \<times> 'b" where
  "launcher_run E H c ops s = fold (launcher_step E H c) ops s"

lemma published_conditions: "published_release E (d\<lparr>versions_of := v, launcher_faults := fs\<rparr>) = published_release E d"
proof -
  have "launcher_files (d\<lparr>versions_of := v, launcher_faults := fs\<rparr>) = launcher_files d" by simp
  then have "read_pair (d\<lparr>versions_of := v, launcher_faults := fs\<rparr>) = read_pair d" unfolding read_pair_def by (rule arg_cong)
  then show ?thesis unfolding published_read by (rule arg_cong)
qed

text \<open>
  C12: Once a launcher is published, a readable release is published after any further publications, one
  after another, wherever they fail, and its version is the same or newer: the players are never downgraded.
\<close>

theorem launcher_never_downgrades:
  assumes "release_codec E" "published_release E (fst s) = Inr (Some rel)"
  shows "\<exists>rel'. published_release E (fst (launcher_run E H c ops s)) = Inr (Some rel') \<and>
    (rel' = rel \<or> IsNewer (ReleaseVersion rel') (ReleaseVersion rel))"
  using assms(2)
proof (induction ops arbitrary: s rel)
  case Nil
  then show ?case by (simp add: launcher_run_def)
next
  case (Cons opn ops)
  let ?d = "(fst s)\<lparr>versions_of := op_dirs opn, launcher_faults := op_faults opn\<rparr>"
  obtain e d' w' where step: "publish E H c (op_time opn) (op_stamp opn) (op_version opn) ?d (snd s) = (e, d', w')" by (metis prod_cases3)
  obtain r1 where r1: "published_release E d' = Inr (Some r1)" "r1 = rel \<or> IsNewer (ReleaseVersion r1) (ReleaseVersion rel)"
    using publish_cases[OF assms(1) _ step] Cons.prems by (auto simp: published_conditions)
  have run: "launcher_run E H c (opn # ops) s = launcher_run E H c ops (d', w')"
    by (simp add: launcher_run_def launcher_step_def step)
  show ?case using Cons.IH[of "(d', w')" r1] r1 IsNewer_trans unfolding run by fastforce
qed

lemma take_artifacts_error: "take_artifacts E H c seen entries w = (Inl e, w') \<Longrightarrow> e \<noteq> LauncherWrite"
proof (induction entries arbitrary: seen w w')
  case (Cons entry rest)
  obtain name en where entry: "entry = (name, en)" by (cases entry)
  show ?case
  proof (cases en)
    case EntryDir
    then show ?thesis using Cons entry by auto
  next
    case (EntryFile first reread)
    then show ?thesis using Cons.prems Cons.IH
      by (auto simp: entry split: option.splits prod.splits sum.splits if_splits)
  qed
qed simp

text \<open>
  The signature is written before the release, so a failure in between leaves the old release under the
  signature of the new one.
\<close>

lemma torn_launcher_publication:
  assumes "published_release E d = Inr (Some rel)" "read_pair d = Inr (Some (old, sig))" "launcher_faults d = [False, True]"
    and "publish E H c t st argument d w = (Some LauncherWrite, d', w')"
  shows "\<exists>new. read_pair d' = Inr (Some (old, sign_bytes E new))"
proof -
  obtain canonical where c: "snd (write_launcher releaseFile canonical (snd (write_launcher signatureFile (sign_bytes E canonical) d))) = d'"
    using assms(3,4)
    by (auto simp: publish_def Let_def assms(1) write_launcher_def split: if_splits option.splits prod.splits sum.splits bool.splits
        dest!: take_artifacts_error)
  obtain ok1 d1 where d1: "write_launcher signatureFile (sign_bytes E canonical) d = (ok1, d1)" by fastforce
  obtain ok2 d2 where d2: "write_launcher releaseFile canonical d1 = (ok2, d2)" by fastforce
  have ok: "ok1" "\<not> ok2" "d2 = d'" using c d1 d2 assms(3) by (auto simp: write_launcher_def)
  have files: "releaseFile \<noteq> signatureFile" by (simp add: releaseFile_def signatureFile_def)
  show ?thesis using read_pair_write[OF read_pair_write[OF assms(2) d1] d2] ok files by auto
qed

subsection \<open>A run\<close>

definition plain_artifact :: launcher_artifact where
  "plain_artifact = \<lparr>ArtifactPlatform = PLATFORM_LINUX, ArtifactKind = KIND_RAW_EXECUTABLE,
     ArtifactObject = Some (objectRef HASH_ALGO_BLAKE3 (blake3 plain_hashes ''data'') 4), ArtifactName = ''l''\<rparr>"

definition plain_release :: "string \<Rightarrow> launcher_release" where
  "plain_release v = \<lparr>ReleaseSchema = 1, ReleaseVersion = v, ReleasedAt = 0, Artifacts = [plain_artifact]\<rparr>"

definition plain_launcher :: launcher_env where
  "plain_launcher = \<lparr>lower_name = (\<lambda>s. s),
     encode_release = (\<lambda>rel. if rel = plain_release (ReleaseVersion rel) then Some (CHR ''v'' # ReleaseVersion rel) else None),
     Decode = (\<lambda>s. Some (plain_release (tl s))), sign_bytes = (\<lambda>s. s), query_escape = (\<lambda>s. s)\<rparr>"

definition plain_launcher_dir :: launcher_dir where
  "plain_launcher_dir = \<lparr>launcher_files = [(releaseFile, Some ''v1.0.0''), (signatureFile, Some ''v1.0.0'')], release_stamp = None,
     versions_of = (\<lambda>_. None), launcher_faults = []\<rparr>"

definition plain_launcher_op :: "bool list \<Rightarrow> launcher_op" where
  "plain_launcher_op script = \<lparr>op_time = 0, op_stamp = (0, 0), op_version = ''v1.0.1'',
     op_dirs = (\<lambda>_. Some [(''l'', EntryFile (Some ''data'') (Some ''data''))]), op_faults = script\<rparr>"

definition plain_launcher_end :: "launcher_dir \<times> fs_state" where
  "plain_launcher_end = launcher_run plain_launcher plain_hashes (NewCAS (fs_backend var_objects) HASH_ALGO_BLAKE3)
     [plain_launcher_op [False, True], plain_launcher_op []] (plain_launcher_dir, empty_disk [])"

lemma launcher_never_downgrades_witness:
  "published_release plain_launcher (fst plain_launcher_end) = Inr (Some (plain_release ''1.0.1''))"
proof -
  have codec: "release_codec plain_launcher" by (auto simp: release_codec_def plain_launcher_def plain_release_def split: if_splits)
  have start: "published_release plain_launcher (fst (plain_launcher_dir, empty_disk [])) = Inr (Some (plain_release ''1.0.0''))" by code_simp
  obtain rel where rel: "published_release plain_launcher (fst plain_launcher_end) = Inr (Some rel)"
    using launcher_never_downgrades[OF codec start, of plain_hashes "NewCAS (fs_backend var_objects) HASH_ALGO_BLAKE3"
      "[plain_launcher_op [False, True], plain_launcher_op []]"] unfolding plain_launcher_end_def by blast
  have "map_sum id (map_option ReleaseVersion) (published_release plain_launcher (fst plain_launcher_end)) = Inr (Some ''1.0.1'')" by code_simp
  then show ?thesis using rel by (auto simp: published_read plain_launcher_def plain_release_def split: sum.splits option.splits if_splits)
qed

end
