(* ===== verification/Api.thy ===== *)
theory Api
  imports Sessions Access HwidBans RateLimit ClientAddr Launcher
begin

text \<open>
  The requests of the launcher (package \<open>api\<close>: \<open>api.go\<close>, \<open>subject.go\<close>, \<open>machine.go\<close>), which put the other
  parts together: signing in passes the limits, the account source, the sessions and the machine gate; a
  manifest and an object pass the token of the session, the rules of access and the catalogue.

  The state is what the parts keep, in one record; the parts are operations of their own theories. The
  answer of a request is a value or a code with its cause; the texts of the messages are left out.

  The theorems: a sign-in that is refused leaves no session behind; a signed-out token is of no use fifteen
  seconds after the last answer about it was cached; and under rules of access an object is only handed out
  on behalf of a build that names it and that the player may use, or as a file of the launcher. The first and
  the last are about one request at a time. The second is about runs in which the three steps of
  \<open>subjectOf\<close> and the two of \<open>Refresh\<close> interleave with those of other requests. The positive results about
  sessions are for the store in memory.
\<close>

section \<open>The service\<close>

record cached_subject =
  cached_for :: Access.subject
  cached_until :: instant

record ('a, 'r, 's, 'h) api_state =
  auth_state :: 'a
  limits_state :: "guard option"
  limits_redis :: 'r
  sources_state :: 's
  machines_state :: "gate option"
  machines_store :: 'h
  tokens_state :: "(string, cached_subject) amap"

record ('a, 'r, 's, 'h, 'ip, 'net) api =
  api_auth :: auth_env
  api_service :: "'a service option"
  api_access :: access_env
  api_rules :: "'s controller option"
  api_redis :: "'r redis"
  api_fold :: "string \<Rightarrow> string"
  api_hwid :: hwid_env
  api_machines :: "'h store_ops"
  api_addr :: "('ip, 'net) addr_env"
  api_proxies :: "'net trust option"
  fingerprint :: "string \<Rightarrow> string"
  repair_utf8 :: "string \<Rightarrow> string"

datatype code = Unimplemented | ResourceExhausted | FailedPrecondition | Unavailable | Unauthenticated | PermissionDenied
  | NotFound | Unknown

datatype cause = SignInOff | TooManyAttempts | TwoFactorRequired | SignInUnavailable | AuthCause auth_error
  | MachineCause gate_error | StaleSession | AccessDenied string | NoSuchBuild | NoSuchPlatform | CatalogCause release_error

type_synonym rpc_error = "code \<times> cause"

section \<open>The cache of subjects\<close>

definition subjectTTL :: nanos where "subjectTTL = 15 * second"
definition maxCachedTokens :: nat where "maxCachedTokens = 10000"

text \<open>The range over the map ends once few enough entries are left; its order is an argument.\<close>

fun evict_tokens :: "nat \<Rightarrow> string list \<Rightarrow> (string, cached_subject) amap \<Rightarrow> (string, cached_subject) amap" where
  "evict_tokens target [] m = m"
| "evict_tokens target (k # ks) m = (if length m \<le> target then m else evict_tokens target ks (remove k m))"

definition token_get :: "string \<Rightarrow> instant \<Rightarrow> (string, cached_subject) amap \<Rightarrow> Access.subject option" where
  "token_get fp now m =
     (case lookup m fp of None \<Rightarrow> None | Some e \<Rightarrow> if now > cached_until e then None else Some (cached_for e))"

definition token_put :: "string list \<Rightarrow> string \<Rightarrow> instant \<Rightarrow> instant \<Rightarrow> Access.subject \<Rightarrow> (string, cached_subject) amap \<Rightarrow> (string, cached_subject) amap" where
  "token_put order fp evict_time now s m =
     (let m = (if length m \<ge> maxCachedTokens
               then evict_tokens (maxCachedTokens * 7 div 8) order (keep_if (\<lambda>_ e. \<not> evict_time > cached_until e) m)
               else m)
      in store fp \<lparr>cached_for = s, cached_until = now + subjectTTL\<rparr> m)"

definition bearerToken :: "header \<Rightarrow> string" where
  "bearerToken h =
     (let value = header_get h ''Authorization'' in
      if value = [] then []
      else if has_prefix value ''Bearer '' then trim_space (drop (length ''Bearer '') value) else [])"

datatype token_state = TokenAbsent | TokenValid | TokenStale | TokenUnknown

definition anonymous_subject :: Access.subject where
  "anonymous_subject = \<lparr>SubjectId = [], Access.subject.Username = [], UUID = []\<rparr>"

definition subject_of_identity :: "auth_env \<Rightarrow> Sessions.identity \<Rightarrow> Access.subject" where
  "subject_of_identity A i = \<lparr>SubjectId = subject i, Access.subject.Username = username i, UUID = uuid_string A (iuuid i)\<rparr>"

text \<open>The readings of the clock of one request: the cache, the session, the eviction and the entry.\<close>

record times =
  at_cache :: instant
  at_session :: instant
  at_evict :: instant
  at_store :: instant

text \<open>
  \<open>subjectOf\<close> holds the lock of the cache for the look into it, lets go of it for the call to the sessions,
  and takes it again to put the answer in: three steps, between which other requests may run.
\<close>

definition ask_cache ::
    "('a, 'r, 's, 'h, 'ip, 'net) api \<Rightarrow> instant \<Rightarrow> header \<Rightarrow> (string, cached_subject) amap \<Rightarrow> (Access.subject \<times> token_state, string) result" where
  "ask_cache P now h cache =
     (let token = bearerToken h in
      if token = [] then Inl (anonymous_subject, TokenAbsent)
      else case token_get (fingerprint P token) now cache of
        Some s \<Rightarrow> Inl (s, TokenValid)
      | None \<Rightarrow> Inr token)"

definition ask_session ::
    "('a, 'r, 's, 'h, 'ip, 'net) api \<Rightarrow> 'a service \<Rightarrow> instant \<Rightarrow> string \<Rightarrow> 'a \<Rightarrow> (Access.subject \<times> token_state, Access.subject) result \<times> 'a" where
  "ask_session P S now token w =
     (case ValidateAccess (api_auth P) S now token w of
        (Inl (ErrSessionsUnavailable e), w) \<Rightarrow> (Inl (anonymous_subject, TokenUnknown), w)
      | (Inl e, w) \<Rightarrow> (Inl (anonymous_subject, TokenStale), w)
      | (Inr i, w) \<Rightarrow> (Inr (subject_of_identity (api_auth P) i), w))"

definition ask_store ::
    "('a, 'r, 's, 'h, 'ip, 'net) api \<Rightarrow> string list \<Rightarrow> instant \<Rightarrow> instant \<Rightarrow> string \<Rightarrow> Access.subject \<Rightarrow> (string, cached_subject) amap \<Rightarrow>
     (string, cached_subject) amap" where
  "ask_store P order evict_time now token s cache = token_put order (fingerprint P token) evict_time now s cache"

definition subjectOf ::
    "('a, 'r, 's, 'h, 'ip, 'net) api \<Rightarrow> times \<Rightarrow> string list \<Rightarrow> header \<Rightarrow> ('a, 'r, 's, 'h) api_state \<Rightarrow>
     (Access.subject \<times> token_state) \<times> ('a, 'r, 's, 'h) api_state" where
  "subjectOf P t order h st =
     (case api_service P of
        None \<Rightarrow> ((anonymous_subject, TokenAbsent), st)
      | Some S \<Rightarrow>
          (case ask_cache P (at_cache t) h (tokens_state st) of
             Inl answer \<Rightarrow> (answer, st)
           | Inr token \<Rightarrow>
               (case ask_session P S (at_session t) token (auth_state st) of
                  (Inl answer, w) \<Rightarrow> (answer, st\<lparr>auth_state := w\<rparr>)
                | (Inr s, w) \<Rightarrow>
                    ((s, TokenValid), st\<lparr>auth_state := w,
                       tokens_state := ask_store P order (at_evict t) (at_store t) token s (tokens_state st)\<rparr>))))"

section \<open>Signing in\<close>

definition machineError :: "gate_error \<Rightarrow> rpc_error" where
  "machineError e =
     (case e of
        Banned b \<Rightarrow> (PermissionDenied, MachineCause e)
      | ReportRequired \<Rightarrow> (FailedPrecondition, MachineCause e)
      | ReportInvalid f \<Rightarrow> (FailedPrecondition, MachineCause e)
      | ChallengeStale \<Rightarrow> (FailedPrecondition, MachineCause e)
      | VirtualMachine \<Rightarrow> (FailedPrecondition, MachineCause e)
      | SoftwareKey \<Rightarrow> (FailedPrecondition, MachineCause e)
      | _ \<Rightarrow> (Unknown, MachineCause e))"

definition brokenPart :: "auth_error \<Rightarrow> bool" where
  "brokenPart e = (case e of ErrSourceUnavailable _ \<Rightarrow> True | ErrSessionsUnavailable _ \<Rightarrow> True | _ \<Rightarrow> False)"

text \<open>What one sign-in draws and when it reads the clock.\<close>

record login_draws =
  draw_session :: uuid
  draw_access :: random
  draw_refresh :: random
  draw_uuids :: "string \<times> string"
  time_limits :: instant
  time_login :: instant
  time_failed :: instant
  time_validate :: instant
  time_machine :: readings

definition machine_identity :: "Sessions.identity \<Rightarrow> HwidGate.identity" where
  "machine_identity i = \<lparr>IdSubject = subject i, IdUsername = username i\<rparr>"

text \<open>The part of \<open>Login\<close> after the password: the machine is checked, a refused one is signed out.\<close>

definition login_machine ::
    "('a, 'r, 's, 'h, 'ip, 'net) api \<Rightarrow> 'a service \<Rightarrow> login_draws \<Rightarrow> string \<Rightarrow> wire_report option \<Rightarrow> tokens \<Rightarrow> ('a, 'r, 's, 'h) api_state \<Rightarrow>
     (rpc_error, tokens \<times> verdict option) result \<times> ('a, 'r, 's, 'h) api_state" where
  "login_machine P S r address machine tok st =
     (case ValidateAccess (api_auth P) S (time_validate r) (taccess tok) (auth_state st) of
        (Inl e, w) \<Rightarrow> (Inl (Unknown, AuthCause e), st\<lparr>auth_state := w\<rparr>)
      | (Inr i, w) \<Rightarrow>
          (case HwidGate.Check (api_hwid P) (api_machines P) (time_machine r) (draw_uuids r) (machine_identity i) machine address
              (machines_state st) (machines_store st) of
             (Inr v, g, h) \<Rightarrow> (Inr (tok, v), st\<lparr>auth_state := w, machines_state := g, machines_store := h\<rparr>)
           | (Inl e, g, h) \<Rightarrow>
               (case Logout (api_auth P) S (taccess tok) w of
                  (_, w) \<Rightarrow> (Inl (machineError e), st\<lparr>auth_state := w, machines_state := g, machines_store := h\<rparr>))))"

definition api_Login ::
    "('a, 'r, 's, 'h, 'ip, 'net) api \<Rightarrow> login_draws \<Rightarrow> credentials \<Rightarrow> wire_report option \<Rightarrow> header \<Rightarrow> string \<Rightarrow> ('a, 'r, 's, 'h) api_state \<Rightarrow>
     (rpc_error, tokens \<times> verdict option) result \<times> ('a, 'r, 's, 'h) api_state" where
  "api_Login P r creds machine h peer st =
     (case api_service P of
        None \<Rightarrow> (Inl (Unimplemented, SignInOff), st)
      | Some S \<Rightarrow>
          (let address = Of (api_addr P) (api_proxies P) h peer in
           case SignInAllowed (api_redis P) (api_fold P) (time_limits r) address (cusername creds) (limits_state st) (limits_redis st) of
             (False, g, rw) \<Rightarrow> (Inl (ResourceExhausted, TooManyAttempts), st\<lparr>limits_state := g, limits_redis := rw\<rparr>)
           | (True, g, rw) \<Rightarrow>
               (let st = st\<lparr>limits_state := g, limits_redis := rw\<rparr> in
                case Login (api_auth P) S (time_login r) (draw_session r) (draw_access r) (draw_refresh r) creds (auth_state st) of
                  (Inl e, w) \<Rightarrow>
                    (let st = st\<lparr>auth_state := w\<rparr> in
                     if e = ErrTwoFactorRequired then (Inl (FailedPrecondition, TwoFactorRequired), st)
                     else if brokenPart e then (Inl (Unavailable, SignInUnavailable), st)
                     else (case SignInFailed (api_redis P) (api_fold P) (time_failed r) address (cusername creds) (limits_state st) (limits_redis st) of
                         (g, rw) \<Rightarrow> (Inl (Unauthenticated, AuthCause e), st\<lparr>limits_state := g, limits_redis := rw\<rparr>)))
                | (Inr tok, w) \<Rightarrow>
                    (let st = st\<lparr>auth_state := w\<rparr> in
                     if machines_state st = None then (Inr (tok, None), st)
                     else login_machine P S r address machine tok st))))"

definition api_Refresh ::
    "('a, 'r, 's, 'h, 'ip, 'net) api \<Rightarrow> instant \<Rightarrow> random \<Rightarrow> random \<Rightarrow> string \<Rightarrow> ('a, 'r, 's, 'h) api_state \<Rightarrow>
     (rpc_error, tokens) result \<times> ('a, 'r, 's, 'h) api_state" where
  "api_Refresh P t r1 r2 token st =
     (case api_service P of
        None \<Rightarrow> (Inl (Unimplemented, SignInOff), st)
      | Some S \<Rightarrow>
          (case Sessions.Refresh (api_auth P) S t r1 r2 token (auth_state st) of
             (Inl e, w) \<Rightarrow> (Inl (Unauthenticated, AuthCause e), st\<lparr>auth_state := w\<rparr>)
           | (Inr tok, w) \<Rightarrow> (Inr tok, st\<lparr>auth_state := w\<rparr>)))"

definition GetChallenge ::
    "('a, 'r, 's, 'h, 'ip, 'net) api \<Rightarrow> instant \<Rightarrow> instant \<Rightarrow> instant \<Rightarrow> octets option \<Rightarrow> header \<Rightarrow> string \<Rightarrow> ('a, 'r, 's, 'h) api_state \<Rightarrow>
     (rpc_error, octets \<times> instant) result \<times> ('a, 'r, 's, 'h) api_state" where
  "GetChallenge P t t1 t2 nonce h peer st =
     (case ChallengeAllowed (api_redis P) t (Of (api_addr P) (api_proxies P) h peer) (limits_state st) (limits_redis st) of
        (False, g, rw) \<Rightarrow> (Inl (ResourceExhausted, TooManyAttempts), st\<lparr>limits_state := g, limits_redis := rw\<rparr>)
      | (True, g, rw) \<Rightarrow>
          (let st = st\<lparr>limits_state := g, limits_redis := rw\<rparr> in
           if machines_state st = None then (Inr ([], 0), st)
           else (case HwidGate.Challenge nonce t1 t2 (machines_state st) of
               (Inl e, g) \<Rightarrow> (Inl (Unknown, MachineCause e), st\<lparr>machines_state := g\<rparr>)
             | (Inr c, g) \<Rightarrow> (Inr c, st\<lparr>machines_state := g\<rparr>))))"

definition ReportMachine ::
    "('a, 'r, 's, 'h, 'ip, 'net) api \<Rightarrow> times \<Rightarrow> string list \<Rightarrow> readings \<Rightarrow> string \<times> string \<Rightarrow> wire_report option \<Rightarrow> header \<Rightarrow> string \<Rightarrow>
     ('a, 'r, 's, 'h) api_state \<Rightarrow> (rpc_error, verdict option) result \<times> ('a, 'r, 's, 'h) api_state" where
  "ReportMachine P t order tm uuids machine h peer st =
     (case subjectOf P t order h st of
        ((s, state), st) \<Rightarrow>
          if state \<noteq> TokenValid then (Inl (Unauthenticated, StaleSession), st)
          else (case HwidGate.Check (api_hwid P) (api_machines P) tm uuids \<lparr>IdSubject = SubjectId s, IdUsername = Access.subject.Username s\<rparr> machine
                  (Of (api_addr P) (api_proxies P) h peer) (machines_state st) (machines_store st) of
              (Inl e, g, w) \<Rightarrow> (Inl (machineError e), st\<lparr>machines_state := g, machines_store := w\<rparr>)
            | (Inr v, g, w) \<Rightarrow> (Inr v, st\<lparr>machines_state := g, machines_store := w\<rparr>)))"

section \<open>Builds\<close>

record profile_summary =
  ProfileBuild :: summary
  Locked :: bool
  LockReason :: string

fun list_profiles ::
    "access_env \<Rightarrow> 's controller option \<Rightarrow> Access.subject \<Rightarrow> summary list \<Rightarrow> memo \<times> 's \<Rightarrow> profile_summary list \<times> memo \<times> 's" where
  "list_profiles A c s [] mw = ([], mw)"
| "list_profiles A c s (b # bs) mw =
     (case memo_decide A c s (SummaryName b) mw of
        (d, mw) \<Rightarrow>
          (case list_profiles A c s bs mw of
             (ps, mw) \<Rightarrow>
               (if \<not> Allowed d \<and> Hidden d then (ps, mw)
                else (\<lparr>ProfileBuild = b, Locked = \<not> Allowed d, LockReason = decision.Reason d\<rparr> # ps, mw))))"

text \<open>The snapshots are the ones the catalogue takes at that moment.\<close>

definition ListProfiles ::
    "('a, 'r, 's, 'h, 'ip, 'net) api \<Rightarrow> times \<Rightarrow> string list \<Rightarrow> snapshot \<Rightarrow> platform \<Rightarrow> header \<Rightarrow> ('a, 'r, 's, 'h) api_state \<Rightarrow>
     profile_summary list \<times> ('a, 'r, 's, 'h) api_state" where
  "ListProfiles P t order snap want h st =
     (case subjectOf P t order h st of
        ((s, _), st) \<Rightarrow>
          (case list_profiles (api_access P) (api_rules P) s (Summaries snap want) (\<lambda>_. None, sources_state st) of
             (ps, _, w) \<Rightarrow> (ps, st\<lparr>sources_state := w\<rparr>)))"

definition GetManifest ::
    "('a, 'r, 's, 'h, 'ip, 'net) api \<Rightarrow> times \<Rightarrow> string list \<Rightarrow> snapshot \<Rightarrow> string \<Rightarrow> platform \<Rightarrow> header \<Rightarrow> ('a, 'r, 's, 'h) api_state \<Rightarrow>
     (rpc_error, string \<times> string) result \<times> ('a, 'r, 's, 'h) api_state" where
  "GetManifest P t order snap profile want h st =
     (case subjectOf P t order h st of
        ((s, state), st) \<Rightarrow>
          if state = TokenUnknown then (Inl (Unavailable, SignInUnavailable), st)
          else if state = TokenStale then (Inl (Unauthenticated, StaleSession), st)
          else (case Decide (api_access P) (api_rules P) profile s (sources_state st) of
              (d, w) \<Rightarrow>
                (let st = st\<lparr>sources_state := w\<rparr> in
                 if \<not> Allowed d then
                   (if Hidden d then (Inl (NotFound, NoSuchBuild), st) else (Inl (PermissionDenied, AccessDenied (decision.Reason d)), st))
                 else (case Catalog.Get snap profile want of
                     Inl ErrNotFound \<Rightarrow> (Inl (NotFound, NoSuchBuild), st)
                   | Inl ErrPlatformUnavailable \<Rightarrow> (Inl (FailedPrecondition, NoSuchPlatform), st)
                   | Inl (SignatureError e) \<Rightarrow> (Inl (Unknown, CatalogCause e), st)
                   | Inr cs \<Rightarrow> (Inr cs, st)))))"

section \<open>Objects\<close>

fun allowed_owner ::
    "access_env \<Rightarrow> 's controller option \<Rightarrow> Access.subject \<Rightarrow> string list \<Rightarrow> memo \<times> 's \<Rightarrow> bool \<times> memo \<times> 's" where
  "allowed_owner A c s [] mw = (False, mw)"
| "allowed_owner A c s (b # bs) mw =
     (case memo_decide A c s b mw of (d, mw) \<Rightarrow> if Allowed d then (True, mw) else allowed_owner A c s bs mw)"

text \<open>\<open>None\<close> is the panic of \<open>ObjectKey\<close> on a hash of fewer than two bytes.\<close>

fun artifact_keys :: "string \<Rightarrow> launcher_artifact list \<Rightarrow> bool option" where
  "artifact_keys objkey [] = Some False"
| "artifact_keys objkey (a # as) =
     (case Option.bind (ArtifactObject a) RefHash of
        None \<Rightarrow> artifact_keys objkey as
      | Some h \<Rightarrow>
          (case ObjectKey (Algo h) (Value h) of
             None \<Rightarrow> None
           | Some k \<Rightarrow> if k = objkey then Some True else artifact_keys objkey as))"

definition isLauncherArtifact :: "launcher_env \<Rightarrow> launcher_dir \<Rightarrow> string \<Rightarrow> releases \<Rightarrow> bool option \<times> releases" where
  "isLauncherArtifact L d objkey r =
     (case All_releases L d r of
        (Inl e, r) \<Rightarrow> (Some False, r)
      | (Inr rels, r) \<Rightarrow> (artifact_keys objkey (concat (map Artifacts rels)), r))"

definition allowedObject ::
    "('a, 'r, 's, 'h, 'ip, 'net) api \<Rightarrow> launcher_env \<Rightarrow> launcher_dir \<Rightarrow> times \<Rightarrow> string list \<Rightarrow> snapshot \<Rightarrow> header \<Rightarrow> string \<Rightarrow>
     releases \<times> ('a, 'r, 's, 'h) api_state \<Rightarrow> (bool \<times> bool) option \<times> releases \<times> ('a, 'r, 's, 'h) api_state" where
  "allowedObject P L d t order snap h objkey rst =
     (case rst of (r, st) \<Rightarrow>
      if \<not> Guarded (api_rules P) then (Some (True, False), r, st)
      else case subjectOf P t order h st of
        ((s, state), st) \<Rightarrow>
          if state = TokenStale \<or> state = TokenUnknown then (Some (False, True), r, st)
          else (let owners = Owners snap objkey in
                case allowed_owner (api_access P) (api_rules P) s owners (\<lambda>_. None, sources_state st) of
                  (True, _, w) \<Rightarrow> (Some (True, False), r, st\<lparr>sources_state := w\<rparr>)
                | (False, _, w) \<Rightarrow>
                    (if owners = [] then
                       (case isLauncherArtifact L d objkey r of (b, r) \<Rightarrow> (map_option (\<lambda>b. (b, False)) b, r, st\<lparr>sources_state := w\<rparr>))
                     else (Some (False, False), r, st\<lparr>sources_state := w\<rparr>))))"

definition cachePolicy :: "('a, 'r, 's, 'h, 'ip, 'net) api \<Rightarrow> string" where
  "cachePolicy P = (if Guarded (api_rules P) then ''private, immutable, max-age=31536000'' else ''public, immutable, max-age=31536000'')"

text \<open>
  \<open>strings.Map\<close> goes by runes: bytes that are no UTF-8 become the replacement character, all bytes that are
  dropped are ASCII.
\<close>

definition sanitiseName :: "(string \<Rightarrow> string) \<Rightarrow> string \<Rightarrow> string" where
  "sanitiseName repair name =
     (let cleaned = filter (\<lambda>c. \<not> ((of_char c :: nat) < 0x20 \<or> c = CHR ''/'' \<or> c = CHR 0x5C \<or> c = CHR 0x22)) (repair name) in
      if cleaned = [] then ''laminara'' else cleaned)"

datatype object_answer = BadKey | Redirect string | Internal string "string option" string | Content string "string option" string
  | ObjectMissing | ObjectStale | ObjectPanic

text \<open>
  The answer for a key and the file name of the query; the attachment name is the part of the header
  before it is quoted. The object is read whole, seekable or not.
\<close>

definition serve_object ::
    "('a, 'r, 's, 'h, 'ip, 'net) api \<Rightarrow> 'b backend \<Rightarrow> bool \<Rightarrow> string \<Rightarrow> string \<Rightarrow> 'b \<Rightarrow> object_answer \<times> 'b" where
  "serve_object P B xAccel objkey query w =
     (if objkey = [] \<or> contains_str objkey ''..'' then (BadKey, w)
      else let filename = (if query = [] then [] else sanitiseName (repair_utf8 P) query);
               attachment = (if filename = [] then None else Some filename)
           in case LocateNamed B objkey filename w of
             (Inr (LocationURL url), w) \<Rightarrow> (Redirect url, w)
           | (l, w) \<Rightarrow>
               (case l of
                  Inr (LocationInternal p) \<Rightarrow>
                    if xAccel \<and> p \<noteq> [] then (Internal p attachment (cachePolicy P), w)
                    else (case b_get B objkey w of (Inl e, w) \<Rightarrow> (ObjectMissing, w) | (Inr data, w) \<Rightarrow> (Content data attachment (cachePolicy P), w))
                | _ \<Rightarrow> (case b_get B objkey w of (Inl e, w) \<Rightarrow> (ObjectMissing, w) | (Inr data, w) \<Rightarrow> (Content data attachment (cachePolicy P), w))))"

definition ObjectHandler ::
    "('a, 'r, 's, 'h, 'ip, 'net) api \<Rightarrow> launcher_env \<Rightarrow> launcher_dir \<Rightarrow> 'b backend \<Rightarrow> bool \<Rightarrow> times \<Rightarrow> string list \<Rightarrow> snapshot \<Rightarrow> header \<Rightarrow>
     string \<Rightarrow> string \<Rightarrow> releases \<times> ('a, 'r, 's, 'h) api_state \<Rightarrow> 'b \<Rightarrow> object_answer \<times> (releases \<times> ('a, 'r, 's, 'h) api_state) \<times> 'b" where
  "ObjectHandler P L d B xAccel t order snap h path query rst w =
     (case allowedObject P L d t order snap h (trim_prefix path ''/objects/'') rst of
        (None, rst) \<Rightarrow> (ObjectPanic, rst, w)
      | (Some (allowed, stale), rst) \<Rightarrow>
          if stale then (ObjectStale, rst, w)
          else if \<not> allowed then (ObjectMissing, rst, w)
          else (case serve_object P B xAccel (trim_prefix path ''/objects/'') query w of (a, w) \<Rightarrow> (a, rst, w)))"

section \<open>Sessions that have ended\<close>

text \<open>Every entry of the cache for a fingerprint ends by \<open>T\<close>.\<close>

definition ends_by :: "instant \<Rightarrow> string \<Rightarrow> (string, cached_subject) amap \<Rightarrow> bool" where
  "ends_by T fp m \<longleftrightarrow> (\<forall>e. (fp, e) \<in> set m \<longrightarrow> cached_until e \<le> T)"

lemma ends_by_mono: "ends_by T fp m \<Longrightarrow> set m' \<subseteq> set m \<Longrightarrow> ends_by T fp m'"
  by (auto simp: ends_by_def)

lemma remove_subset: "set (remove k m) \<subseteq> set m"
  by (auto simp: AList.delete_eq)

lemma evict_subset: "set (evict_tokens target ks m) \<subseteq> set m"
proof (induction ks arbitrary: m)
  case (Cons k ks)
  then show ?case using remove_subset[of k m] by (simp, metis subset_trans)
qed simp

lemma store_subset: "set (store k v m) \<subseteq> insert (k, v) (set m)"
  by (induction m) auto

lemma ends_by_store: "ends_by T fp m \<Longrightarrow> fp = fp' \<longrightarrow> cached_until e \<le> T \<Longrightarrow> ends_by T fp (store fp' e m)"
  using store_subset[of fp' e m] by (auto simp: ends_by_def)

lemma ends_by_put: "ends_by T fp m \<Longrightarrow> fp = fp' \<longrightarrow> t' + subjectTTL \<le> T \<Longrightarrow> ends_by T fp (token_put order fp' t t' s m)"
proof -
  assume m: "ends_by T fp m" and new: "fp = fp' \<longrightarrow> t' + subjectTTL \<le> T"
  have "ends_by T fp (evict_tokens k order (keep_if P m))" for k P
    using ends_by_mono[OF m] evict_subset keep_if_subset by (metis subset_trans)
  then show ?thesis using m new by (auto simp: token_put_def Let_def intro!: ends_by_store)
qed

lemma token_get_late: "ends_by T fp m \<Longrightarrow> now > T \<Longrightarrow> token_get fp now m = None"
  by (auto simp: token_get_def ends_by_def split: option.splits dest!: map_of_SomeD)

text \<open>
  Requests that meet: each step of a request in flight, known by a number, and the events of the sessions,
  in any order. A request in flight has its token and, once the sessions answered, its subject.
\<close>

datatype api_op =
    AskCache nat instant header
  | AskSession nat instant
  | AskStore nat "string list" instant instant
  | AuthEvent auth_event

type_synonym asks = "nat \<Rightarrow> (string \<times> Access.subject option) option"
type_synonym ('a, 'r, 's, 'h) api_run_state = "('a, 'r, 's, 'h) api_state \<times> asks \<times> refreshes"

fun api_step ::
    "('a, 'r, 's, 'h, 'ip, 'net) api \<Rightarrow> 'a service \<Rightarrow> api_op \<Rightarrow> ('a, 'r, 's, 'h) api_run_state \<Rightarrow> ('a, 'r, 's, 'h) api_run_state" where
  "api_step P S (AskCache k now h) (st, q, p) =
     (st, q(k := (case ask_cache P now h (tokens_state st) of Inl a \<Rightarrow> None | Inr token \<Rightarrow> Some (token, None))), p)"
| "api_step P S (AskSession k now) (st, q, p) =
     (case q k of
        Some (token, None) \<Rightarrow>
          (case ask_session P S now token (auth_state st) of
             (Inl a, w) \<Rightarrow> (st\<lparr>auth_state := w\<rparr>, q(k := None), p)
           | (Inr s, w) \<Rightarrow> (st\<lparr>auth_state := w\<rparr>, q(k := Some (token, Some s)), p))
      | _ \<Rightarrow> (st, q, p))"
| "api_step P S (AskStore k order evict_time now) (st, q, p) =
     (case q k of
        Some (token, Some s) \<Rightarrow> (st\<lparr>tokens_state := ask_store P order evict_time now token s (tokens_state st)\<rparr>, q(k := None), p)
      | _ \<Rightarrow> (st, q, p))"
| "api_step P S (AuthEvent ev) (st, q, p) =
     (case auth_step (api_auth P) S ev (auth_state st, p) of (w, p) \<Rightarrow> (st\<lparr>auth_state := w\<rparr>, q, p))"

definition api_run ::
    "('a, 'r, 's, 'h, 'ip, 'net) api \<Rightarrow> 'a service \<Rightarrow> api_op list \<Rightarrow> ('a, 'r, 's, 'h) api_run_state \<Rightarrow> ('a, 'r, 's, 'h) api_run_state" where
  "api_run P S ops x = fold (api_step P S) ops x"

text \<open>The three steps of a request with nothing in between are \<open>subjectOf\<close>.\<close>

lemma subjectOf_in_steps:
  assumes "api_service P = Some S"
  shows "fst (api_run P S [AskCache k (at_cache t) h, AskSession k (at_session t), AskStore k order (at_evict t) (at_store t)] (st, q, p)) =
    snd (subjectOf P t order h st)"
  using assms by (simp add: api_run_def subjectOf_def split: sum.splits prod.splits)

lemma memory_validate_frame: "sessions S = memory_store \<Longrightarrow> snd (ValidateAccess A S t tok m) = m"
  using ms.ValidateAccess_frame by blast

lemma ask_session_frame: "sessions S = memory_store \<Longrightarrow> snd (ask_session P S now tok m) = m"
  using memory_validate_frame[of S "api_auth P" now tok m] by (auto simp: ask_session_def split: prod.splits sum.splits auth_error.splits)

lemma ask_session_dead:
  assumes "sessions S = memory_store" "parseToken (api_auth P) tok = Some (i, sec)" "dead m i"
  shows "ask_session P S now tok m = (Inl (anonymous_subject, TokenStale), m)"
proof -
  have "fst (ValidateAccess (api_auth P) S now tok m) = Inl ErrInvalidToken"
    using ms.Validate_result[OF assms(1,2)] assms(3) by (auto simp: dead_def split: option.splits)
  then have "ValidateAccess (api_auth P) S now tok m = (Inl ErrInvalidToken, m)"
    using memory_validate_frame[OF assms(1)] by (metis prod.collapse)
  then show ?thesis by (simp add: ask_session_def)
qed

lemma ask_cache_token: "ask_cache P now h m = Inr token \<Longrightarrow> token = bearerToken h"
  by (auto simp: ask_cache_def Let_def split: if_splits option.splits)

text \<open>
  What holds before the session ends: nothing in the cache for a fingerprint ends later than fifteen seconds
  after the last entry was made, and no other token in flight has that fingerprint.
\<close>

definition op_distinct :: "('a, 'r, 's, 'h, 'ip, 'net) api \<Rightarrow> string \<Rightarrow> api_op \<Rightarrow> bool" where
  "op_distinct P tok opn \<longleftrightarrow> (case opn of AskCache k now h \<Rightarrow>
     fingerprint P (bearerToken h) = fingerprint P tok \<longrightarrow> bearerToken h = tok | _ \<Rightarrow> True)"

definition asks_distinct :: "('a, 'r, 's, 'h, 'ip, 'net) api \<Rightarrow> string \<Rightarrow> asks \<Rightarrow> bool" where
  "asks_distinct P tok q \<longleftrightarrow> (\<forall>k token x. q k = Some (token, x) \<longrightarrow> fingerprint P token = fingerprint P tok \<longrightarrow> token = tok)"

lemma asks_distinct_step:
  assumes "op_distinct P tok opn" "asks_distinct P tok q" "api_step P S opn (st, q, p) = (st', q', p')"
  shows "asks_distinct P tok q'"
proof (cases opn)
  case (AskCache k now h)
  have new: "token = tok" if "ask_cache P now h (tokens_state st) = Inr token" "fingerprint P token = fingerprint P tok" for token
    using that assms(1) AskCache ask_cache_token[of P now h "tokens_state st" token] by (simp add: op_distinct_def)
  have "q' = q(k := (case ask_cache P now h (tokens_state st) of Inl a \<Rightarrow> None | Inr token \<Rightarrow> Some (token, None)))"
    using assms(3) AskCache by auto
  then show ?thesis using assms(2) new unfolding asks_distinct_def by (auto split: sum.splits if_splits)
next
  case (AskSession k now)
  then show ?thesis using assms by (auto simp: asks_distinct_def split: option.splits prod.splits sum.splits if_splits; blast)
next
  case (AskStore k order evict_time now)
  then show ?thesis using assms by (auto simp: asks_distinct_def split: option.splits prod.splits if_splits; blast)
next
  case (AuthEvent ev)
  then show ?thesis using assms by (auto split: prod.splits)
qed

definition running :: "('a, 'r, 's, 'h, 'ip, 'net) api \<Rightarrow> instant \<Rightarrow> string \<Rightarrow> (memory_sessions, 'r, 's, 'h) api_run_state \<Rightarrow> bool" where
  "running P T tok x \<longleftrightarrow> (case x of (st, q, p) \<Rightarrow>
     ends_by (T + subjectTTL) (fingerprint P tok) (tokens_state st) \<and> filed (auth_state st) \<and> asks_distinct P tok q \<and>
     (\<forall>k now j s. p k = Some (now, RefreshRenews j s) \<longrightarrow> sid s = j))"

definition stores_by :: "instant \<Rightarrow> api_op \<Rightarrow> bool" where
  "stores_by T opn \<longleftrightarrow> (case opn of AskStore k order evict_time now \<Rightarrow> now \<le> T | _ \<Rightarrow> True)"

lemma running_step:
  assumes P: "sessions S = memory_store" and opn: "stores_by T opn" "op_distinct P tok opn" and x: "running P T tok x"
  shows "running P T tok (api_step P S opn x)"
proof -
  obtain st q p where q: "x = (st, q, p)" by (cases x)
  obtain st' q' p' where st': "api_step P S opn (st, q, p) = (st', q', p')" by (metis prod.collapse)
  have d: "asks_distinct P tok q'" using asks_distinct_step[OF opn(2) _ st'] x q by (simp add: running_def)
  show ?thesis
  proof (cases opn)
    case (AskCache k now h)
    then show ?thesis using x q st' d by (auto simp: running_def)
  next
    case (AskSession k now)
    then show ?thesis using x q st' d ask_session_frame[OF P, of P now _ "auth_state st"]
      by (auto simp: running_def split: option.splits prod.splits sum.splits) (metis snd_conv)+
  next
    case (AskStore k order evict_time now)
    then have "now \<le> T" using opn(1) by (simp add: stores_by_def)
    then show ?thesis using AskStore x q st' d
      by (auto simp: running_def ask_store_def split: option.splits prod.splits intro!: ends_by_put)
  next
    case (AuthEvent ev)
    then show ?thesis using x q st' d ms.auth_step_filed[OF P, of "auth_state st" p "api_auth P" ev]
      by (auto simp: running_def split: prod.splits)
  qed
qed

lemma running_run:
  assumes "sessions S = memory_store" "\<forall>opn \<in> set ops. stores_by T opn \<and> op_distinct P tok opn" "running P T tok x"
  shows "running P T tok (api_run P S ops x)"
  using assms(2,3) unfolding api_run_def
proof (induction ops arbitrary: x)
  case (Cons opn ops)
  then show ?case using running_step[OF assms(1), of T opn P tok x] by simp
qed simp

text \<open>
  A dead session stays dead, and only a request that the sessions had answered by then, of the numbers
  \<open>late\<close>, can still put the token into the cache.
\<close>

definition op_avoids :: "uuid \<Rightarrow> api_op \<Rightarrow> bool" where
  "op_avoids i opn \<longleftrightarrow> (case opn of AuthEvent ev \<Rightarrow> \<not> draws_id i ev | _ \<Rightarrow> True)"

definition answered :: "asks \<Rightarrow> nat set" where
  "answered q = {k. \<exists>token s. q k = Some (token, Some s)}"

definition late_stores_by :: "instant \<Rightarrow> nat set \<Rightarrow> api_op \<Rightarrow> bool" where
  "late_stores_by T late opn \<longleftrightarrow> (case opn of AskStore k order evict_time now \<Rightarrow> k \<in> late \<longrightarrow> now \<le> T | _ \<Rightarrow> True)"

definition gone ::
    "('a, 'r, 's, 'h, 'ip, 'net) api \<Rightarrow> instant \<Rightarrow> nat set \<Rightarrow> string \<Rightarrow> uuid \<Rightarrow> (memory_sessions, 'r, 's, 'h) api_run_state \<Rightarrow> bool" where
  "gone P T late tok i x \<longleftrightarrow> (case x of (st, q, p) \<Rightarrow>
     filed (auth_state st) \<and> dead (auth_state st) i \<and> none_renewing i p \<and> asks_distinct P tok q \<and>
     ends_by (T + subjectTTL) (fingerprint P tok) (tokens_state st) \<and> (\<forall>k s. q k = Some (tok, Some s) \<longrightarrow> k \<in> late))"

lemma gone_step:
  assumes P: "sessions S = memory_store" "parseToken (api_auth P) tok = Some (i, sec)"
    and opn: "op_avoids i opn" "op_distinct P tok opn" "late_stores_by T late opn" and x: "gone P T late tok i x"
  shows "gone P T late tok i (api_step P S opn x)"
proof -
  obtain st q p where q: "x = (st, q, p)" by (cases x)
  obtain st' q' p' where st': "api_step P S opn (st, q, p) = (st', q', p')" by (metis prod.collapse)
  have d: "asks_distinct P tok q'" using asks_distinct_step[OF opn(2) _ st'] x q by (simp add: gone_def)
  show ?thesis
  proof (cases opn)
    case (AskCache k now h)
    then show ?thesis using x q st' d by (auto simp: gone_def split: sum.splits if_splits)
  next
    case (AskSession k now)
    have stale: "ask_session P S now tok (auth_state st) = (Inl (anonymous_subject, TokenStale), auth_state st)"
      using ask_session_dead[OF P] x q by (simp add: gone_def)
    show ?thesis
    proof (cases "q k")
      case None
      then show ?thesis using AskSession x q by simp
    next
      case (Some a)
      obtain token s where a: "a = (token, s)" by fastforce
      obtain r w where r: "ask_session P S now token (auth_state st) = (r, w)" by fastforce
      have w: "w = auth_state st" using ask_session_frame[OF P(1), of P now token "auth_state st"] r by simp
      show ?thesis
      proof (cases "token = tok")
        case True
        then show ?thesis using AskSession Some a stale x q d st' by (cases s) (auto simp: gone_def split: if_splits)
      next
        case False
        then show ?thesis using AskSession Some a r w x q d st'
          by (cases s; cases r) (auto simp: gone_def split: if_splits)
      qed
    qed
  next
    case (AskStore k order evict_time now)
    show ?thesis
    proof (cases "\<exists>token s. q k = Some (token, Some s)")
      case True
      then obtain token s where s: "q k = Some (token, Some s)" by blast
      have "fingerprint P tok = fingerprint P token \<longrightarrow> now + subjectTTL \<le> T + subjectTTL"
      proof
        assume "fingerprint P tok = fingerprint P token"
        then have "token = tok" using x q s by (auto simp: gone_def asks_distinct_def)
        then have "k \<in> late" using x q s by (auto simp: gone_def)
        then show "now + subjectTTL \<le> T + subjectTTL" using opn(3) AskStore by (simp add: late_stores_by_def)
      qed
      then show ?thesis using AskStore s x q st' d by (auto simp: gone_def ask_store_def intro!: ends_by_put split: if_splits)
    next
      case False
      then show ?thesis using AskStore x q by (auto split: option.splits prod.splits)
    qed
  next
    case (AuthEvent ev)
    then show ?thesis using x q st' d opn(1) ms.auth_step_dead[OF P(1), of "auth_state st" i p ev "api_auth P"]
      by (auto simp: gone_def op_avoids_def split: prod.splits)
  qed
qed

lemma gone_run:
  assumes "sessions S = memory_store" "parseToken (api_auth P) tok = Some (i, sec)"
    and "\<forall>opn \<in> set ops. op_avoids i opn \<and> op_distinct P tok opn \<and> late_stores_by T late opn" "gone P T late tok i x"
  shows "gone P T late tok i (api_run P S ops x)"
  using assms(3,4) unfolding api_run_def
proof (induction ops arbitrary: x)
  case (Cons opn ops)
  then show ?case using gone_step[OF assms(1,2), of opn T late x] by simp
qed simp

lemma logout_dead:
  "sessions S = memory_store \<Longrightarrow> parseToken A tok = Some (i, sec) \<Longrightarrow> filed m \<Longrightarrow>
   filed (snd (Logout A S tok m)) \<and> dead (snd (Logout A S tok m)) i"
  by (auto simp: Logout_def memory_store_def memory_revoke_def dead_def filed_def split: option.splits prod.splits)

text \<open>
  C11: With sessions in memory, a cache that was empty when the server started, and tokens that differ in
  their fingerprints, a signed-out token is refused, although answers about tokens are cached and the steps of
  all requests and refreshes interleave. The run goes up to the sign-out, where no refresh of the session is
  under way, and on from it without drawing the id of the session again. Let \<open>T\<close> be a time by which every
  answer up to the sign-out has been put into the cache, and by which the requests that the sessions had
  answered at the sign-out put theirs. At every point after the sign-out the sessions refuse the token, and
  more than fifteen seconds after \<open>T\<close> the cache does not know it, so that a request that carries it is told
  to sign in again. That \<open>T\<close> can be after the sign-out is real: \<open>answer_is_cached_after_sign_out\<close> below.
\<close>

theorem signed_out_within_fifteen_seconds:
  assumes "api_service P = Some S" "sessions S = memory_store" "parseToken (api_auth P) tok = Some (i, sec)"
    and "filed (auth_state st)" "tokens_state st = []"
    and "api_run P S before (st, \<lambda>_. None, \<lambda>_. None) = (st1, q1, p1)" "none_renewing i p1"
    and "api_run P S after (api_step P S (AuthEvent (WholeCall (T', CLogout tok))) (st1, q1, p1)) = (st2, q2, p2)"
    and "\<forall>opn \<in> set before. stores_by T opn \<and> op_distinct P tok opn"
    and "\<forall>opn \<in> set after. op_avoids i opn \<and> op_distinct P tok opn \<and> late_stores_by T (answered q1) opn"
    and "bearerToken h = tok" "tok \<noteq> []"
  shows "ask_session P S now tok (auth_state st2) = (Inl (anonymous_subject, TokenStale), auth_state st2) \<and>
    (now > T + 15 * second \<longrightarrow> ask_cache P now h (tokens_state st2) = Inr tok) \<and>
    (at_cache t > T + 15 * second \<longrightarrow> fst (subjectOf P t order h st2) = (anonymous_subject, TokenStale))"
proof -
  have "running P T tok (st, \<lambda>_. None, \<lambda>_. None)" using assms(4,5) by (simp add: running_def ends_by_def asks_distinct_def)
  from running_run[OF assms(2,9) this] have st1: "running P T tok (st1, q1, p1)" by (simp add: assms(6))
  let ?x = "api_step P S (AuthEvent (WholeCall (T', CLogout tok))) (st1, q1, p1)"
  have "gone P T (answered q1) tok i ?x"
    using st1 logout_dead[OF assms(2,3), of "auth_state st1"] assms(7) by (auto simp: gone_def running_def answered_def)
  from gone_run[OF assms(2,3,10) this] have g: "gone P T (answered q1) tok i (st2, q2, p2)" unfolding assms(8) .
  have stale: "ask_session P S now tok (auth_state st2) = (Inl (anonymous_subject, TokenStale), auth_state st2)" for now
    using ask_session_dead[OF assms(2,3)] g by (simp add: gone_def)
  have late: "ask_cache P now h (tokens_state st2) = Inr tok" if "now > T + 15 * second" for now
    using token_get_late[of "T + subjectTTL" "fingerprint P tok" "tokens_state st2" now] g that assms(11,12)
    by (simp add: ask_cache_def gone_def subjectTTL_def)
  show ?thesis using stale late assms(1) by (simp add: subjectOf_def)
qed

text \<open>A service in which a name is its own password and a token its own fingerprint.\<close>

definition sample_rpc :: "(memory_sessions, unit, unit, memory_store, string, string) api" where
  "sample_rpc = \<lparr>api_auth = sample_env, api_service = Some sample_service,
     api_access = \<lparr>path_match = (\<lambda>p s. Some (p = s)), json_strings = (\<lambda>_. None), json_document = (\<lambda>_. None), json_allowed = (\<lambda>_. None),
       lower_other = (\<lambda>s. s)\<rparr>,
     api_rules = None,
     api_redis = \<lparr>r_get = \<lambda>_ w. (Inr None, w), r_set_nx = \<lambda>_ _ _ w. (Inr True, w), r_incr = \<lambda>_ w. (Inr 1, w),
       r_expire = \<lambda>_ _ w. (Inr (), w), r_ping = \<lambda>w. (Inr (), w)\<rparr>,
     api_fold = (\<lambda>s. s), api_hwid = sample_hwid, api_machines = memory_ops (=), api_addr = sample_addresses, api_proxies = None,
     fingerprint = (\<lambda>s. s), repair_utf8 = (\<lambda>s. s)\<rparr>"

definition sample_api_state :: "(memory_sessions, unit, unit, memory_store) api_state" where
  "sample_api_state = \<lparr>auth_state = [[0] \<mapsto> sample_session], limits_state = None, limits_redis = (), sources_state = (),
     machines_state = None, machines_store = NewMemoryStore, tokens_state = []\<rparr>"

definition bearer :: "string \<Rightarrow> header" where
  "bearer tok = (\<lambda>n. if n = ''Authorization'' then [''Bearer '' @ tok] else [])"

definition times_at :: "instant \<Rightarrow> times" where
  "times_at t = \<lparr>at_cache = t, at_session = t, at_evict = t, at_store = t\<rparr>"

lemma sample_rpc_simps [simp]:
  "api_auth sample_rpc = sample_env" "api_service sample_rpc = Some sample_service" "fingerprint sample_rpc s = s"
  "auth_state sample_api_state = [[0] \<mapsto> sample_session]" "tokens_state sample_api_state = []"
  by (simp_all add: sample_rpc_def sample_api_state_def)

lemma sample_filed: "filed [[0] \<mapsto> sample_session]"
  by (simp add: filed_def)

lemma bearer_sample: "bearerToken (bearer ''AA.a'') = ''AA.a''"
proof -
  have "trim_space ''AA.a'' = ''AA.a''" by (intro trim_space_id) (auto simp: solid_def)
  then show ?thesis by (simp add: bearerToken_def bearer_def header_get_def has_prefix_def)
qed

text \<open>
  One request has its answer from the sessions at 1, another player's token is asked about, the token is signed
  out at 2, the first request puts its answer into the cache at 3: the token is refused from sixteen seconds on.
\<close>

definition early_ops :: "api_op list" where
  "early_ops = [AskCache 0 1 (bearer ''AA.a''), AskSession 0 1]"

lemma early_state:
  "api_run sample_rpc sample_service early_ops (sample_api_state, \<lambda>_. None, \<lambda>_. None) =
     (sample_api_state, [0 \<mapsto> (''AA.a'', Some (subject_of_identity sample_env (sidentity sample_session)))], \<lambda>_. None)"
proof -
  have "parseToken sample_env ''AA.a'' = Some ([0], ''a'')" using sample_parse[of "''a''"] by simp
  then have "fst (ValidateAccess sample_env sample_service 1 ''AA.a'' [[0] \<mapsto> sample_session]) = Inr (sidentity sample_session)"
    using ms.Validate_result[of sample_service sample_env "''AA.a''" "[0]" "''a''" 1 "[[0] \<mapsto> sample_session]"]
    by (simp add: sample_session_def issued_session_def minute_def second_def)
  then have "ValidateAccess sample_env sample_service 1 ''AA.a'' [[0] \<mapsto> sample_session] = (Inr (sidentity sample_session), [[0] \<mapsto> sample_session])"
    using memory_validate_frame[of sample_service sample_env 1 "''AA.a''" "[[0] \<mapsto> sample_session]"] by (simp add: prod_eq_iff del: sample_session_simps)
  then show ?thesis
    by (simp add: api_run_def early_ops_def ask_cache_def ask_session_def bearer_sample token_get_def Let_def sample_api_state_def
        del: sample_session_simps)
qed

theorem signed_out_within_fifteen_seconds_witness:
  "\<exists>st2 q2 p2. api_run sample_rpc sample_service [AskStore 0 [] 3 3, AskCache 1 4 (bearer ''AA.a'')]
      (api_step sample_rpc sample_service (AuthEvent (WholeCall (2, CLogout ''AA.a'')))
        (api_run sample_rpc sample_service early_ops (sample_api_state, \<lambda>_. None, \<lambda>_. None))) = (st2, q2, p2) \<and>
    fst (subjectOf sample_rpc (times_at (16 * second)) [] (bearer ''AA.a'') st2) = (anonymous_subject, TokenStale)"
proof -
  let ?q = "[0 \<mapsto> (''AA.a'', Some (subject_of_identity sample_env (sidentity sample_session)))]"
  obtain st2 q2 p2 where run: "api_run sample_rpc sample_service [AskStore 0 [] 3 3, AskCache 1 4 (bearer ''AA.a'')]
      (api_step sample_rpc sample_service (AuthEvent (WholeCall (2, CLogout ''AA.a''))) (sample_api_state, ?q, \<lambda>_. None)) = (st2, q2, p2)"
    by (metis prod.collapse)
  have parse: "parseToken (api_auth sample_rpc) ''AA.a'' = Some ([0], ''a'')" using sample_parse[of "''a''"] by simp
  have before: "\<forall>opn \<in> set early_ops. stores_by 3 opn \<and> op_distinct sample_rpc ''AA.a'' opn"
    by (simp add: early_ops_def stores_by_def op_distinct_def)
  have after: "\<forall>opn \<in> set [AskStore 0 [] 3 3, AskCache 1 4 (bearer ''AA.a'')]. op_avoids [0] opn \<and>
      op_distinct sample_rpc ''AA.a'' opn \<and> late_stores_by 3 (answered ?q) opn"
    by (simp add: op_avoids_def op_distinct_def late_stores_by_def)
  have "fst (subjectOf sample_rpc (times_at (16 * second)) [] (bearer ''AA.a'') st2) = (anonymous_subject, TokenStale)"
    using signed_out_within_fifteen_seconds[OF sample_rpc_simps(2) _ parse _ _ early_state _ run before after bearer_sample]
      sample_filed by (simp add: none_renewing_def times_at_def second_def)
  then show ?thesis using run by (auto simp: early_state)
qed

text \<open>
  The bound counts from the entry, not from the sign-out: a request that the sessions answered before the
  sign-out and that puts its answer in an hour later makes the cache accept the token for another fifteen
  seconds.
\<close>

lemma answer_is_cached_after_sign_out:
  "\<exists>st2 q2 p2. api_run sample_rpc sample_service [AskStore 0 [] (60 * minute) (60 * minute)]
      (api_step sample_rpc sample_service (AuthEvent (WholeCall (2, CLogout ''AA.a'')))
        (api_run sample_rpc sample_service early_ops (sample_api_state, \<lambda>_. None, \<lambda>_. None))) = (st2, q2, p2) \<and>
    dead (auth_state st2) [0] \<and>
    ask_cache sample_rpc (60 * minute + 15 * second) (bearer ''AA.a'') (tokens_state st2) =
      Inl (subject_of_identity sample_env (sidentity sample_session), TokenValid)"
proof -
  have "dead (snd (Logout sample_env sample_service ''AA.a'' [[0] \<mapsto> sample_session])) [0]"
    using logout_dead[of sample_service sample_env "''AA.a''" "[0]" "''a''"] sample_parse[of "''a''"] sample_filed by simp
  then show ?thesis unfolding early_state
    by (simp add: api_run_def ask_store_def token_put_def ask_cache_def bearer_sample token_get_def subjectTTL_def
        maxCachedTokens_def Let_def minute_def second_def sample_api_state_def del: sample_session_simps)
qed

section \<open>Refused sign-ins\<close>

lemma Login_draws:
  assumes "sessions S = memory_store" "Login A S now i r1 r2 creds m = (res, m')"
  shows "case res of Inl e \<Rightarrow> m' = m
    | Inr tok \<Rightarrow> (\<exists>a r ident. r1 = Inr a \<and> tok = tokens_of A i a r (issued_session A S now i a r ident) \<and>
        m' = m(i \<mapsto> issued_session A S now i a r ident))"
proof (cases "authenticate S creds")
  case (Inl e)
  then show ?thesis using assms(2) by (auto simp: Login_def split: provider_error.splits)
next
  case (Inr ident)
  show ?thesis
  proof (cases "\<exists>a r. r1 = Inr a \<and> r2 = Inr r")
    case True
    then obtain a r where "r1 = Inr a" "r2 = Inr r" by blast
    then show ?thesis using ms.Login_result[OF assms(1) Inr, of A now i a r m] assms(2) by (auto; blast)
  next
    case False
    then show ?thesis using assms(2) Inr by (auto simp: Login_def issue_def split: sum.splits)
  qed
qed

lemma machine_refusal_signs_out:
  assumes "sessions S = memory_store" "env_ok (api_auth P)" "a \<noteq> []"
    and "tok = tokens_of (api_auth P) i a rs (issued_session (api_auth P) S now i a rs ident)"
    and "auth_state st = m(i \<mapsto> issued_session (api_auth P) S now i a rs ident)" "filed m"
    and "time_validate r \<le> now + AccessTTL (service.cfg S)"
    and "login_machine P S r address machine tok st = (Inl e, st')"
  shows "dead (auth_state st') i \<and> (\<forall>j. j \<noteq> i \<longrightarrow> auth_state st' j = m j)"
proof -
  have p: "parseToken (api_auth P) (taccess tok) = Some (i, a)"
    using parse_newToken[OF assms(2,3)] assms(4) by (simp add: tokens_of_def)
  have "fst (ValidateAccess (api_auth P) S (time_validate r) (taccess tok) (auth_state st)) = Inr ident"
    using ms.Validate_result[OF assms(1) p] assms(5,7) by (simp add: issued_session_def)
  then have v: "ValidateAccess (api_auth P) S (time_validate r) (taccess tok) (auth_state st) = (Inr ident, auth_state st)"
    using memory_validate_frame[OF assms(1), of "api_auth P" "time_validate r" "taccess tok" "auth_state st"] by (metis prod.collapse)
  have f: "filed (auth_state st)" using assms(5,6) by (simp add: filed_def issued_session_def)
  have "snd (Logout (api_auth P) S (taccess tok) (auth_state st)) j = auth_state st j" if "j \<noteq> i" for j
    using p assms(1) that by (auto simp: Logout_def memory_store_def memory_revoke_def split: option.splits prod.splits)
  moreover have "auth_state st' = snd (Logout (api_auth P) S (taccess tok) (auth_state st))"
    using assms(8) v by (auto simp: login_machine_def split: prod.splits sum.splits)
  ultimately show ?thesis using logout_dead[OF assms(1) p f] assms(5) by simp
qed

text \<open>
  C9: With sessions in memory, and an access time that is not over between the sign-in and the check of the
  machine, a sign-in that is refused, be it by the limits, the password, the account source or the machine
  gate, leaves no session behind: the sessions are those of before, or the one that was opened on the way is
  dead and all others are untouched. With a store that may fail this is false, as
  \<open>failing_store_keeps_refused_session\<close> shows below: a failed \<open>Logout\<close> is passed over.
\<close>

theorem refused_login_leaves_no_session:
  assumes "api_service P = Some S" "sessions S = memory_store" "env_ok (api_auth P)" "filed (auth_state st)"
    and "draw_access r \<noteq> Inr []" "time_validate r \<le> time_login r + AccessTTL (service.cfg S)"
    and "api_Login P r creds machine h peer st = (Inl e, st')"
  shows "auth_state st' = auth_state st \<or>
    (dead (auth_state st') (draw_session r) \<and> (\<forall>j. j \<noteq> draw_session r \<longrightarrow> auth_state st' j = auth_state st j))"
proof -
  obtain ok g rw where lim: "SignInAllowed (api_redis P) (api_fold P) (time_limits r) (Of (api_addr P) (api_proxies P) h peer)
      (cusername creds) (limits_state st) (limits_redis st) = (ok, g, rw)" by (metis prod.collapse)
  obtain res m where l: "Login (api_auth P) S (time_login r) (draw_session r) (draw_access r) (draw_refresh r) creds (auth_state st) = (res, m)"
    by fastforce
  note draws = Login_draws[OF assms(2) l]
  consider "\<not> ok" | (failed) x where ok "res = Inl x" | (passed) tok where ok "res = Inr tok" by (cases res) auto
  then show ?thesis
  proof cases
    case 1
    then show ?thesis using assms(1,7) lim by (auto simp: api_Login_def Let_def)
  next
    case failed
    then show ?thesis using assms(1,7) lim l draws by (auto simp: api_Login_def Let_def split: if_splits prod.splits)
  next
    case passed
    obtain a rs ident where a: "draw_access r = Inr a" "tok = tokens_of (api_auth P) (draw_session r) a rs
        (issued_session (api_auth P) S (time_login r) (draw_session r) a rs ident)"
      "m = (auth_state st)(draw_session r \<mapsto> issued_session (api_auth P) S (time_login r) (draw_session r) a rs ident)"
      using draws passed(2) by auto
    define st1 where "st1 = st\<lparr>limits_state := g, limits_redis := rw, auth_state := m\<rparr>"
    have "login_machine P S r (Of (api_addr P) (api_proxies P) h peer) machine tok st1 = (Inl e, st')"
      using assms(1,7) lim l passed by (auto simp: api_Login_def Let_def st1_def split: if_splits)
    moreover have "a \<noteq> []" using assms(5) a(1) by simp
    moreover have "auth_state st1 = (auth_state st)(draw_session r \<mapsto> issued_session (api_auth P) S (time_login r) (draw_session r) a rs ident)"
      by (simp add: st1_def a(3))
    ultimately show ?thesis using machine_refusal_signs_out[OF assms(2,3) _ a(2) _ assms(4,6)] by blast
  qed
qed

text \<open>A gate that wants a report refuses \<open>amy\<close>, who sends none.\<close>

definition strict_gate :: gate where
  "strict_gate = sample_gate\<lparr>cfg := sample_config\<lparr>RequireReport := True\<rparr>\<rparr>"

definition gated_state :: "(memory_sessions, unit, unit, memory_store) api_state" where
  "gated_state = sample_api_state\<lparr>auth_state := Map.empty, machines_state := Some strict_gate\<rparr>"

definition sample_draws :: login_draws where
  "sample_draws = \<lparr>draw_session = [0], draw_access = Inr ''a'', draw_refresh = Inr ''r'', draw_uuids = (''m'', ''c''),
     time_limits = 0, time_login = 0, time_failed = 1, time_validate = 1, time_machine = sample_readings 1\<rparr>"

lemma strict_check:
  "HwidGate.Check E S t uuids i None ip (Some strict_gate) w = (Inl ReportRequired, Some strict_gate, w)"
  by (simp add: Check_def strict_gate_def Enforcing_def sample_config_def withDefaults_def Let_def or_string_def ModeEnforce_def)

lemma gated_refusal:
  "\<exists>st'. api_Login sample_rpc sample_draws sample_creds None (\<lambda>_. []) ''ip'' gated_state =
     (Inl (FailedPrecondition, MachineCause ReportRequired), st')"
proof -
  let ?i = "\<lparr>subject = ''amy'', username = ''amy'', iuuid = []\<rparr>"
  let ?s = "issued_session sample_env sample_service 0 [0] ''a'' ''r'' ?i"
  let ?t = "tokens_of sample_env [0] ''a'' ''r'' ?s"
  have l: "Login sample_env sample_service 0 [0] (Inr ''a'') (Inr ''r'') sample_creds Map.empty = (Inr ?t, [[0] \<mapsto> ?s])"
    using ms.Login_result[of sample_service sample_creds ?i sample_env 0 "[0]" "''a''" "''r''" Map.empty] by simp
  have p: "parseToken sample_env (taccess ?t) = Some ([0], ''a'')"
    using parse_newToken[OF sample_env_ok, of "''a''" "[0]"] by (simp add: tokens_of_def)
  have "fst (ValidateAccess sample_env sample_service 1 (taccess ?t) [[0] \<mapsto> ?s]) = Inr ?i"
    using ms.Validate_result[OF _ p, of sample_service 1 "[[0] \<mapsto> ?s]"] by (simp add: issued_session_def minute_def second_def)
  then obtain w where v: "ValidateAccess sample_env sample_service 1 (taccess ?t) [[0] \<mapsto> ?s] = (Inr ?i, w)" by (metis prod.collapse)
  have limits: "SignInAllowed R f now address name None () = (True, None, ())" for R f now address name
    by (simp add: SignInAllowed_def)
  show ?thesis
    by (simp add: api_Login_def login_machine_def gated_state_def sample_api_state_def sample_draws_def limits l v strict_check
        machineError_def Let_def split: prod.splits)
qed

theorem refused_login_leaves_no_session_witness:
  "\<exists>st'. api_Login sample_rpc sample_draws sample_creds None (\<lambda>_. []) ''ip'' gated_state =
       (Inl (FailedPrecondition, MachineCause ReportRequired), st') \<and>
     (auth_state st' = Map.empty \<or> (dead (auth_state st') [0] \<and> (\<forall>j. j \<noteq> [0] \<longrightarrow> auth_state st' j = None)))"
proof -
  obtain st' where r: "api_Login sample_rpc sample_draws sample_creds None (\<lambda>_. []) ''ip'' gated_state =
      (Inl (FailedPrecondition, MachineCause ReportRequired), st')" using gated_refusal by blast
  have "filed Map.empty" by (simp add: filed_def)
  then show ?thesis
    using refused_login_leaves_no_session[OF _ _ _ _ _ _ r, of sample_service] r sample_env_ok
    by (simp add: gated_state_def sample_draws_def minute_def second_def)
qed

text \<open>
  A store of sessions that fails to revoke, as one in Redis may: the machine gate refuses the sign-in, the
  error of \<open>Logout\<close> is passed over, and the session that was opened on the way stays alive.
\<close>

definition stuck_service :: "memory_sessions service" where
  "stuck_service = sample_service\<lparr>sessions := memory_store\<lparr>Revoke := \<lambda>i m. (Some (StoreError ''down''), m)\<rparr>\<rparr>"

lemma failing_store_keeps_refused_session:
  "\<exists>st'. api_Login (sample_rpc\<lparr>api_service := Some stuck_service\<rparr>) sample_draws sample_creds None (\<lambda>_. []) ''ip'' gated_state =
       (Inl (FailedPrecondition, MachineCause ReportRequired), st') \<and> \<not> dead (auth_state st') [0]"
proof -
  let ?i = "\<lparr>subject = ''amy'', username = ''amy'', iuuid = []\<rparr>"
  let ?s = "issued_session sample_env sample_service 0 [0] ''a'' ''r'' ?i"
  let ?t = "tokens_of sample_env [0] ''a'' ''r'' ?s"
  have l: "Login sample_env stuck_service 0 [0] (Inr ''a'') (Inr ''r'') sample_creds Map.empty =
      Login sample_env sample_service 0 [0] (Inr ''a'') (Inr ''r'') sample_creds Map.empty"
    by (simp add: Login_def issue_def stuck_service_def issued_session_def split: sum.splits provider_error.splits)
  have r: "Login sample_env sample_service 0 [0] (Inr ''a'') (Inr ''r'') sample_creds Map.empty = (Inr ?t, [[0] \<mapsto> ?s])"
    using ms.Login_result[of sample_service sample_creds ?i sample_env 0 "[0]" "''a''" "''r''" Map.empty] by simp
  have p: "parseToken sample_env (taccess ?t) = Some ([0], ''a'')"
    using parse_newToken[OF sample_env_ok, of "''a''" "[0]"] by (simp add: tokens_of_def)
  have "fst (ValidateAccess sample_env sample_service 1 (taccess ?t) [[0] \<mapsto> ?s]) = Inr ?i"
    using ms.Validate_result[OF _ p, of sample_service 1 "[[0] \<mapsto> ?s]"] by (simp add: issued_session_def minute_def second_def)
  then have "ValidateAccess sample_env sample_service 1 (taccess ?t) [[0] \<mapsto> ?s] = (Inr ?i, [[0] \<mapsto> ?s])"
    using memory_validate_frame[of sample_service sample_env 1 "taccess ?t" "[[0] \<mapsto> ?s]"] by (simp add: prod_eq_iff)
  moreover have "ValidateAccess sample_env stuck_service 1 (taccess ?t) [[0] \<mapsto> ?s] = ValidateAccess sample_env sample_service 1 (taccess ?t) [[0] \<mapsto> ?s]"
    by (simp add: ValidateAccess_def p stuck_service_def)
  ultimately have v: "ValidateAccess sample_env stuck_service 1 (taccess ?t) [[0] \<mapsto> ?s] = (Inr ?i, [[0] \<mapsto> ?s])" by simp
  have o: "Logout sample_env stuck_service (taccess ?t) [[0] \<mapsto> ?s] = (Some (Inr (StoreError ''down'')), [[0] \<mapsto> ?s])"
    by (simp add: Logout_def p stuck_service_def)
  have limits: "SignInAllowed R f now address name None () = (True, None, ())" for R f now address name
    by (simp add: SignInAllowed_def)
  have alive: "\<not> dead [[0] \<mapsto> ?s] [0]" by (simp add: dead_def issued_session_def)
  show ?thesis using alive
    by (simp add: api_Login_def login_machine_def gated_state_def sample_api_state_def sample_draws_def limits l r v o strict_check
        machineError_def Let_def)
qed

section \<open>Objects and their builds\<close>

text \<open>The state of the access sources once they were asked about some builds in a row.\<close>

definition after_asking :: "access_env \<Rightarrow> 's controller option \<Rightarrow> Access.subject \<Rightarrow> string list \<Rightarrow> 's \<Rightarrow> 's" where
  "after_asking A c s bs w = fold (\<lambda>b w. snd (Decide A c b s w)) bs w"

lemma allowed_owner_exact:
  assumes "distinct bs" "\<forall>b \<in> set bs. m b = None"
  shows "fst (allowed_owner A c s bs (m, w)) \<longleftrightarrow>
    (\<exists>pre b post. bs = pre @ b # post \<and> Allowed (fst (Decide A c b s (after_asking A c s pre w))))"
  using assms
proof (induction bs arbitrary: m w)
  case (Cons b bs)
  obtain d w' where d: "Decide A c b s w = (d, w')" by fastforce
  have here: "memo_decide A c s b (m, w) = (d, m(b \<mapsto> d), w')" using Cons.prems(2) d by (simp add: memo_decide_def)
  show ?case
  proof (cases "Allowed d")
    case True
    then have "b # bs = [] @ b # bs \<and> Allowed (fst (Decide A c b s (after_asking A c s [] w)))" using d by (simp add: after_asking_def)
    then show ?thesis using True here by (simp only: allowed_owner.simps prod.case if_True fst_conv) blast
  next
    case False
    have IH: "fst (allowed_owner A c s bs (m(b \<mapsto> d), w')) \<longleftrightarrow>
        (\<exists>pre x post. bs = pre @ x # post \<and> Allowed (fst (Decide A c x s (after_asking A c s pre w'))))"
      by (rule Cons.IH) (use Cons.prems in auto)
    have split: "b # bs = pre @ x # post \<and> Allowed (fst (Decide A c x s (after_asking A c s pre w))) \<longleftrightarrow>
        (\<exists>rest. pre = b # rest \<and> bs = rest @ x # post \<and> Allowed (fst (Decide A c x s (after_asking A c s rest w'))))" for pre x post
      using False d by (cases pre) (auto simp: after_asking_def)
    show ?thesis using here False IH unfolding split by auto
  qed
qed simp

lemma owners_hold:
  assumes "collect E d dirst es = Some snap"
  shows "b \<in> set (Owners snap objkey) \<longleftrightarrow> b \<in> set (List snap) \<and> holds_entry E d (\<lambda>v. names_object (VariantManifest v) objkey) es b"
  using indexOwners_eq[OF collect_result(4)[OF assms] collect_names(2)[OF assms], of objkey] collect_owns[OF assms, of objkey b]
  by (simp add: Owners_def List_def)

lemma owners_distinct:
  assumes "collect E d dirst es = Some snap"
  shows "distinct (Owners snap objkey)"
  using indexOwners_eq[OF collect_result(4)[OF assms] collect_names(2)[OF assms], of objkey] collect_names(2)[OF assms]
  by (simp add: Owners_def)

text \<open>
  C10: Under rules of access an object is only given out to a request whose token is not stale, and only
  when a served build, or one kept for a rollback of a served build, names the object and the rules, asked
  by this request once it has asked about the owners before that build, let the player of the token use the
  build, or when no build names it and it is a file of a launcher release.
\<close>

theorem object_needs_an_owner:
  assumes "Guarded (api_rules P)" "collect E d dirst es = Some snap"
    and "subjectOf P t order h st = ((s, state), st')"
    and "allowedObject P L ld t order snap h objkey (r, st) = (Some (True, stale), rst)"
  shows "\<not> stale \<and> (state = TokenValid \<or> state = TokenAbsent) \<and>
    ((\<exists>b pre post. Owners snap objkey = pre @ b # post \<and> b \<in> set (List snap) \<and>
        holds_entry E d (\<lambda>v. names_object (VariantManifest v) objkey) es b \<and>
        Allowed (fst (Decide (api_access P) (api_rules P) b s
          (after_asking (api_access P) (api_rules P) s pre (sources_state st'))))) \<or>
     (Owners snap objkey = [] \<and> fst (isLauncherArtifact L ld objkey r) = Some True))"
proof -
  obtain ok m w where o: "allowed_owner (api_access P) (api_rules P) s (Owners snap objkey) (\<lambda>_. None, sources_state st') = (ok, m, w)"
    by (metis prod.collapse)
  have fresh: "state \<noteq> TokenStale" "state \<noteq> TokenUnknown" using assms(1,3,4) by (auto simp: allowedObject_def)
  then have st: "state = TokenValid \<or> state = TokenAbsent" by (cases state) simp_all
  show ?thesis
  proof (cases ok)
    case True
    then obtain pre b post where b: "Owners snap objkey = pre @ b # post"
      "Allowed (fst (Decide (api_access P) (api_rules P) b s (after_asking (api_access P) (api_rules P) s pre (sources_state st'))))"
      using allowed_owner_exact[OF owners_distinct[OF assms(2)], of objkey "\<lambda>_. None" "api_access P" "api_rules P" s "sources_state st'"] o
      by auto
    then have "b \<in> set (Owners snap objkey)" by simp
    moreover have "\<not> stale" using assms(1,3,4) fresh o True by (simp add: allowedObject_def Let_def)
    ultimately show ?thesis using owners_hold[OF assms(2)] st b by blast
  next
    case False
    then have "Owners snap objkey = [] \<and> \<not> stale \<and> fst (isLauncherArtifact L ld objkey r) = Some True"
      using assms(1,3,4) fresh o by (auto simp: allowedObject_def Let_def split: if_splits prod.splits)
    then show ?thesis using st by blast
  qed
qed

text \<open>Only \<open>amy\<close> may use the build \<open>pack\<close>.\<close>

definition guarded_rpc :: "(memory_sessions, unit, unit, memory_store, string, string) api" where
  "guarded_rpc = sample_rpc\<lparr>api_rules := Some \<lparr>rules = [\<lparr>patterns = [''pack''], rule_source = ''amy'',
     allows = (\<lambda>b s w. ((SubjectId s = ''amy'', None), w)), hidden = False, message = []\<rparr>], publicObjects = False\<rparr>\<rparr>"

lemma guarded_rpc_simps [simp]:
  "api_auth guarded_rpc = sample_env" "api_service guarded_rpc = Some sample_service" "fingerprint guarded_rpc s = s"
  "Guarded (api_rules guarded_rpc)"
  by (simp_all add: guarded_rpc_def Guarded_def)

definition amy :: Access.subject where
  "amy = subject_of_identity sample_env (sidentity sample_session)"

lemma guarded_subject:
  "\<exists>st. subjectOf guarded_rpc (times_at 1) [] (bearer ''AA.a'') sample_api_state = ((amy, TokenValid), st) \<and> sources_state st = ()"
proof -
  have "parseToken (api_auth guarded_rpc) ''AA.a'' = Some ([0], ''a'')" using sample_parse[of "''a''"] by simp
  then have "fst (ValidateAccess sample_env sample_service 1 ''AA.a'' [[0] \<mapsto> sample_session]) = Inr (sidentity sample_session)"
    using ms.Validate_result[of sample_service sample_env "''AA.a''" "[0]" "''a''" 1 "[[0] \<mapsto> sample_session]"]
    by (simp add: sample_session_def issued_session_def minute_def second_def)
  then obtain w where "ValidateAccess sample_env sample_service 1 ''AA.a'' [[0] \<mapsto> sample_session] = (Inr (sidentity sample_session), w)"
    by (metis prod.collapse)
  then show ?thesis
    by (simp add: subjectOf_def ask_cache_def ask_session_def bearer_sample times_at_def token_get_def Let_def amy_def del: sample_session_simps)
qed

lemma amy_allowed: "Decide (api_access guarded_rpc) (api_rules guarded_rpc) ''pack'' amy () = (allow, ())"
  by (simp add: guarded_rpc_def sample_rpc_def Decide_def matches_def amy_def subject_of_identity_def Anonymous_def)

lemma object_owners: "Owners object_snapshot ''sha256/61/62/61626364'' = [''pack'']"
  by code_simp

theorem object_needs_an_owner_witness:
  "\<exists>b pre post. Owners object_snapshot ''sha256/61/62/61626364'' = pre @ b # post \<and>
     holds_entry object_codec object_dir (\<lambda>v. names_object (VariantManifest v) ''sha256/61/62/61626364'') object_entries b \<and>
     Allowed (fst (Decide (api_access guarded_rpc) (api_rules guarded_rpc) b amy
       (after_asking (api_access guarded_rpc) (api_rules guarded_rpc) amy pre ())))"
proof -
  let ?o = "''sha256/61/62/61626364''"
  have "collect object_codec object_dir [] object_entries \<noteq> None" by code_simp
  then have c: "collect object_codec object_dir [] object_entries = Some object_snapshot" by (auto simp: object_snapshot_def)
  obtain st where sub: "subjectOf guarded_rpc (times_at 1) [] (bearer ''AA.a'') sample_api_state = ((amy, TokenValid), st)"
    "sources_state st = ()" using guarded_subject by blast
  have "allowed_owner (api_access guarded_rpc) (api_rules guarded_rpc) amy (Owners object_snapshot ?o) (\<lambda>_. None, ()) =
      (True, (\<lambda>_. None)(''pack'' \<mapsto> allow), ())"
    using amy_allowed by (simp add: object_owners memo_decide_def allow_def)
  then have "\<exists>rst. allowedObject guarded_rpc plain_launcher plain_launcher_dir (times_at 1) [] object_snapshot (bearer ''AA.a'') ?o
      (NewReleases True, sample_api_state) = (Some (True, False), rst)"
    using sub by (simp add: allowedObject_def Let_def)
  then obtain rst where "allowedObject guarded_rpc plain_launcher plain_launcher_dir (times_at 1) [] object_snapshot (bearer ''AA.a'') ?o
      (NewReleases True, sample_api_state) = (Some (True, False), rst)" by blast
  from object_needs_an_owner[OF guarded_rpc_simps(4) c sub(1) this] show ?thesis using object_owners sub(2) by (simp del: Cons_eq_append_conv) blast
qed

end
