(* ===== verification/Skin.thy ===== *)
theory Skin
  imports Storage
begin

text \<open>
  Skins (package \<open>skin\<close>) and the names of SQL fields (package \<open>sqlschema\<close>): the URL templates, the JSON and
  the SQL source with their answers, and the mirror that fetches images and hands them out under their hash.

  Parameters are the answers of the network and of the database, SHA-256 in hexadecimal, and the fold of
  letters that are not ASCII. \<open>url.PathEscape\<close> and \<open>strings.Replacer\<close> are written out.

  The theorems: a name put into a template stays inside its segment of the URL; the mirror never keeps more
  than its cap, and every image it hands out has the hash it is named by.
\<close>

section \<open>Names in SQL statements\<close>

definition identifier_start :: "char \<Rightarrow> bool" where
  "identifier_start c \<longleftrightarrow> (let n = (of_char c :: nat) in 65 \<le> n \<and> n \<le> 90 \<or> 97 \<le> n \<and> n \<le> 122 \<or> c = CHR ''_'')"

definition identifier_char :: "char \<Rightarrow> bool" where
  "identifier_char c \<longleftrightarrow> identifier_start c \<or> is_digit c"

definition sql_identifier :: "string \<Rightarrow> bool" where
  "sql_identifier s = (case s of [] \<Rightarrow> False | c # cs \<Rightarrow> identifier_start c \<and> list_all identifier_char cs)"

datatype sql_dialect = Postgres | MySQL | SQLite

definition Canonical_driver :: "string \<Rightarrow> sql_dialect option" where
  "Canonical_driver name =
     (if name \<in> {''postgres'', ''postgresql'', ''pgx''} then Some Postgres
      else if name \<in> {''mysql'', ''mariadb''} then Some MySQL
      else if name = ''sqlite'' then Some SQLite
      else None)"

text \<open>The driver, the quotation mark and the placeholder.\<close>

definition Dialect :: "string \<Rightarrow> (string \<times> char \<times> string) option" where
  "Dialect name =
     (case Canonical_driver name of
        None \<Rightarrow> None
      | Some Postgres \<Rightarrow> Some (''pgx'', CHR 0x22, ''$1'')
      | Some MySQL \<Rightarrow> Some (''mysql'', CHR 0x60, ''?'')
      | Some SQLite \<Rightarrow> Some (''sqlite'', CHR 0x22, ''?''))"

definition quote_name :: "char \<Rightarrow> string \<Rightarrow> string" where
  "quote_name q s = q # s @ [q]"

text \<open>What stands before and after the last dot.\<close>

definition split_last_dot :: "string \<Rightarrow> (string \<times> string) option" where
  "split_last_dot s =
     (let parts = split_on CHR ''.'' s in if length parts = 1 then None else Some (join_with CHR ''.'' (butlast parts), last parts))"

definition Field :: "string \<Rightarrow> string \<Rightarrow> (string \<times> string) option" where
  "Field default_table v =
     (let (table, column) = (case split_last_dot v of Some p \<Rightarrow> p | None \<Rightarrow> (default_table, v)) in
      if sql_identifier table \<and> sql_identifier column then Some (table, column) else None)"

section \<open>Templates\<close>

record textures =
  SkinURL :: string
  CapeURL :: string
  Slim :: bool

definition no_textures :: textures where
  "no_textures = \<lparr>SkinURL = [], CapeURL = [], Slim = False\<rparr>"

definition hex_upper :: "nat \<Rightarrow> char" where
  "hex_upper n = (if n < 10 then char_of (48 + n) else char_of (55 + n))"

text \<open>\<open>url.PathEscape\<close>: what may stand in a segment of a path as it is.\<close>

definition path_char :: "char \<Rightarrow> bool" where
  "path_char c \<longleftrightarrow> identifier_char c \<or> c \<in> set ''-.~$&+=:@''"

definition PathEscape :: "string \<Rightarrow> string" where
  "PathEscape s = concat (map (\<lambda>c. if path_char c then [c]
     else [CHR ''%'', hex_upper (of_char c div 16), hex_upper (of_char c mod 16)]) s)"

fun find_pair :: "(string \<times> string) list \<Rightarrow> string \<Rightarrow> (string \<times> string) option" where
  "find_pair [] s = None"
| "find_pair ((k, v) # ps) s = (if has_prefix s k then Some (k, v) else find_pair ps s)"

text \<open>\<open>strings.Replacer\<close> for non-empty keys: the first pair that fits at a place, then on behind it.\<close>

function replace_pairs :: "(string \<times> string) list \<Rightarrow> string \<Rightarrow> string" where
  "replace_pairs ps [] = []"
| "replace_pairs ps (c # s) =
     (case find_pair ps (c # s) of
        Some (k, v) \<Rightarrow> if k = [] then c # replace_pairs ps s else v @ replace_pairs ps (drop (length k) (c # s))
      | None \<Rightarrow> c # replace_pairs ps s)"
  by pat_completeness auto
termination
  by (relation "measure (\<lambda>(ps, s). length s)") auto

definition dashless :: "string \<Rightarrow> string" where
  "dashless s = filter (\<lambda>c. c \<noteq> CHR ''-'') s"

definition substitute :: "string \<Rightarrow> string \<Rightarrow> string \<Rightarrow> string" where
  "substitute template name uid =
     replace_pairs [(''%nickname%'', PathEscape name), (''%username%'', PathEscape name), (''%uuid%'', PathEscape uid),
       (''%hash%'', PathEscape (dashless uid))] template"

record template_provider =
  TemplateSkin :: string
  TemplateCape :: string
  TemplateSlim :: bool

definition template_textures :: "template_provider \<Rightarrow> string \<Rightarrow> string \<Rightarrow> textures" where
  "template_textures p name uid =
     (if TemplateSkin p = [] then \<lparr>SkinURL = [], CapeURL = [], Slim = TemplateSlim p\<rparr>
      else \<lparr>SkinURL = substitute (TemplateSkin p) name uid,
            CapeURL = (if TemplateCape p = [] then [] else substitute (TemplateCape p) name uid), Slim = TemplateSlim p\<rparr>)"

section \<open>The JSON source\<close>

record texture_ref =
  RefUrl :: string
  RefModel :: string

record skin_document =
  DocSkin :: texture_ref
  DocCape :: texture_ref
  DocModel :: string
  DocSkinUpper :: texture_ref
  DocCapeUpper :: texture_ref

definition document_textures :: "skin_document \<Rightarrow> textures" where
  "document_textures d =
     (let skin = (if RefUrl (DocSkin d) = [] then DocSkinUpper d else DocSkin d);
          cape = (if RefUrl (DocCape d) = [] then DocCapeUpper d else DocCape d);
          model = (if RefModel skin \<noteq> [] then RefModel skin else DocModel d)
      in \<lparr>SkinURL = RefUrl skin, CapeURL = RefUrl cape, Slim = (model = ''slim'')\<rparr>)"

record cached_textures =
  KeptTextures :: textures
  KeptAt :: instant

record json_provider =
  JsonUrl :: string
  JsonTtl :: nanos
  JsonCache :: "(string, cached_textures) amap"

definition json_cached :: "json_provider \<Rightarrow> instant \<Rightarrow> string \<Rightarrow> textures option" where
  "json_cached p now target =
     (if JsonTtl p \<le> 0 then None
      else (case lookup (JsonCache p) target of
          None \<Rightarrow> None
        | Some e \<Rightarrow> if now - KeptAt e > JsonTtl p then None else Some (KeptTextures e)))"

definition json_remember :: "instant \<Rightarrow> string \<Rightarrow> textures \<Rightarrow> json_provider \<Rightarrow> json_provider" where
  "json_remember now target t p =
     (if JsonTtl p \<le> 0 then p
      else p\<lparr>JsonCache := store target \<lparr>KeptTextures = t, KeptAt = now\<rparr>
         (if length (JsonCache p) > 4096 then [] else JsonCache p)\<rparr>)"

text \<open>What came back: a document, an answer with a status, or no answer.\<close>

datatype json_answer = GotDocument skin_document | GotStatus int | NoAnswer string

definition NothingThere :: "json_answer \<Rightarrow> bool" where
  "NothingThere a = (case a of GotStatus n \<Rightarrow> n = 400 \<or> n = 404 | _ \<Rightarrow> False)"

definition json_textures ::
    "(string \<Rightarrow> json_answer) \<Rightarrow> instant \<Rightarrow> instant \<Rightarrow> string \<Rightarrow> string \<Rightarrow> json_provider \<Rightarrow> (json_answer, textures) result \<times> json_provider" where
  "json_textures ask t1 t2 name uid p =
     (let target = substitute (JsonUrl p) name uid in
      case json_cached p t1 target of
        Some t \<Rightarrow> (Inr t, p)
      | None \<Rightarrow>
          (case ask target of
             GotDocument d \<Rightarrow> (Inr (document_textures d), json_remember t2 target (document_textures d) p)
           | a \<Rightarrow> if NothingThere a then (Inr no_textures, json_remember t2 target no_textures p) else (Inl a, p)))"

section \<open>The SQL source\<close>

record sql_fields =
  FieldUsername :: string
  FieldUUID :: string
  FieldSkin :: string
  FieldCape :: string
  FieldModel :: string

record sql_config =
  SqlDriver :: string
  SqlTable :: string
  SqlLookup :: string
  SqlFields :: sql_fields
  SqlQuery :: string
  SqlSlim :: bool

record sql_provider =
  Query :: string
  ByUUID :: bool
  DefaultSlim :: bool
  CapePos :: "nat option"
  ModelPos :: "nat option"

definition lookupByUUID :: "string \<Rightarrow> bool option" where
  "lookupByUUID name =
     (if name \<in> {[], ''username'', ''name''} then Some False else if name = ''uuid'' then Some True else None)"

text \<open>The optional columns, in order: each takes the next position.\<close>

definition add_column :: "char \<Rightarrow> string \<Rightarrow> string \<Rightarrow> string list \<Rightarrow> (nat option \<times> string list) option" where
  "add_column q table field columns =
     (if field = [] then Some (None, columns)
      else (case Field table field of None \<Rightarrow> None | Some (_, c) \<Rightarrow> Some (Some (length columns), columns @ [quote_name q c])))"

fun join_text :: "string \<Rightarrow> string list \<Rightarrow> string" where
  "join_text sep [] = []"
| "join_text sep [p] = p"
| "join_text sep (p # ps) = p @ sep @ join_text sep ps"

definition select_one :: "char \<Rightarrow> string \<Rightarrow> string list \<Rightarrow> string \<Rightarrow> string \<Rightarrow> string" where
  "select_one q place columns table column =
     ''SELECT '' @ join_text '', '' columns @ '' FROM '' @ quote_name q table @ '' WHERE '' @ quote_name q column @ '' = '' @ place @ '' LIMIT 1''"

definition newSQL :: "sql_config \<Rightarrow> sql_provider option" where
  "newSQL c =
     (case Dialect (SqlDriver c) of None \<Rightarrow> None | Some (_, q, place) \<Rightarrow>
      (case lookupByUUID (SqlLookup c) of None \<Rightarrow> None | Some by_uuid \<Rightarrow>
       if SqlQuery c \<noteq> [] then Some \<lparr>Query = SqlQuery c, ByUUID = by_uuid, DefaultSlim = SqlSlim c, CapePos = Some 1, ModelPos = Some 2\<rparr>
       else (case Field (SqlTable c) (if by_uuid then FieldUUID (SqlFields c) else FieldUsername (SqlFields c)) of
           None \<Rightarrow> None
         | Some (table, by_col) \<Rightarrow>
             if FieldSkin (SqlFields c) = [] then None
             else (case Field (SqlTable c) (FieldSkin (SqlFields c)) of None \<Rightarrow> None | Some (_, skin_col) \<Rightarrow>
               (case add_column q (SqlTable c) (FieldCape (SqlFields c)) [quote_name q skin_col] of None \<Rightarrow> None | Some (cape, columns) \<Rightarrow>
                (case add_column q (SqlTable c) (FieldModel (SqlFields c)) columns of None \<Rightarrow> None | Some (model, columns) \<Rightarrow>
                  Some \<lparr>Query = select_one q place columns table by_col, ByUUID = by_uuid, DefaultSlim = SqlSlim c,
                    CapePos = cape, ModelPos = model\<rparr>))))))"

text \<open>
  A row is its columns, a missing value \<open>None\<close>. \<open>row_of\<close> is the answer of the query for a key: an error, no row,
  or the first row.
\<close>

type_synonym sql_row = "string option list"

definition column_at :: "sql_row \<Rightarrow> nat option \<Rightarrow> string option" where
  "column_at row pos = (case pos of None \<Rightarrow> None | Some n \<Rightarrow> if n < length row then row ! n else None)"

definition text_at :: "sql_row \<Rightarrow> nat option \<Rightarrow> string" where
  "text_at row pos = (case column_at row pos of None \<Rightarrow> [] | Some s \<Rightarrow> s)"

definition sql_lookup ::
    "(string \<Rightarrow> string \<Rightarrow> bool) \<Rightarrow> (string \<Rightarrow> string \<Rightarrow> (string, sql_row option) result) \<Rightarrow> sql_provider \<Rightarrow> string \<Rightarrow> (string, textures) result" where
  "sql_lookup equal_fold row_of p k =
     (case row_of (Query p) k of
        Inl e \<Rightarrow> Inl e
      | Inr None \<Rightarrow> Inr \<lparr>SkinURL = [], CapeURL = [], Slim = DefaultSlim p\<rparr>
      | Inr (Some row) \<Rightarrow>
          if row = [] \<or> length row > 3 then Inl ''columns''
          else Inr \<lparr>SkinURL = text_at row (Some 0), CapeURL = text_at row (CapePos p),
            Slim = (case column_at row (ModelPos p) of
                None \<Rightarrow> DefaultSlim p
              | Some m \<Rightarrow> if m = [] then DefaultSlim p else equal_fold m ''slim'')\<rparr>)"

definition sql_textures ::
    "(string \<Rightarrow> string \<Rightarrow> bool) \<Rightarrow> (string \<Rightarrow> string \<Rightarrow> (string, sql_row option) result) \<Rightarrow> sql_provider \<Rightarrow> string \<Rightarrow> string \<Rightarrow> (string, textures) result" where
  "sql_textures equal_fold row_of p name uid =
     (if \<not> ByUUID p then sql_lookup equal_fold row_of p name
      else (case sql_lookup equal_fold row_of p uid of
          Inl e \<Rightarrow> Inl e
        | Inr t \<Rightarrow>
            if SkinURL t \<noteq> [] then Inr t
            else if dashless uid = uid then Inr t
            else sql_lookup equal_fold row_of p (dashless uid)))"

section \<open>The mirror\<close>

definition mirrorTTL :: nanos where "mirrorTTL = minute"
definition mirrorFileCap :: nat where "mirrorFileCap = 2 * 2 ^ 20"
definition mirrorTotalCap :: nat where "mirrorTotalCap = 64 * 2 ^ 20"
definition mirrorURLCap :: nat where "mirrorURLCap = 8192"

record mirrored_name =
  MirroredName :: string
  Fetched :: instant

record mirror =
  mirror_base :: string
  mirror_ttl :: nanos
  names :: "(string, mirrored_name) amap"
  kept :: "(string, string) amap"
  kept_order :: "string list"
  kept_bytes :: int

definition newMirror :: "string \<Rightarrow> nanos \<Rightarrow> mirror" where
  "newMirror b ttl = \<lparr>mirror_base = (if has_suffix b ''/'' then butlast b else b), mirror_ttl = ttl, names = [], kept = [],
     kept_order = [], kept_bytes = 0\<rparr>"

definition looksLikePNG :: "string \<Rightarrow> bool" where
  "looksLikePNG body \<longleftrightarrow> length body > 8 \<and> take 3 (drop 1 body) = ''PNG''"

definition remembered_name :: "instant \<Rightarrow> string \<Rightarrow> mirror \<Rightarrow> string option" where
  "remembered_name now raw m =
     (case lookup (names m) raw of
        None \<Rightarrow> None
      | Some e \<Rightarrow>
          if now - Fetched e > mirror_ttl m then None
          else if MirroredName e \<noteq> [] \<and> lookup (kept m) (MirroredName e) = None then None
          else Some (MirroredName e))"

definition lastKnown :: "string \<Rightarrow> mirror \<Rightarrow> string" where
  "lastKnown raw m =
     (case lookup (names m) raw of
        None \<Rightarrow> []
      | Some e \<Rightarrow> if MirroredName e = [] \<or> lookup (kept m) (MirroredName e) = None then [] else MirroredName e)"

definition remember :: "instant \<Rightarrow> string \<Rightarrow> string \<Rightarrow> mirror \<Rightarrow> mirror" where
  "remember now raw name m =
     m\<lparr>names := store raw \<lparr>MirroredName = name, Fetched = now\<rparr> (if length (names m) > mirrorURLCap then [] else names m)\<rparr>"

text \<open>The loop that drops the oldest images; a name that is not kept counts as empty.\<close>

fun drop_oldest :: "string list \<Rightarrow> int \<Rightarrow> (string, string) amap \<Rightarrow> string list \<times> int \<times> (string, string) amap" where
  "drop_oldest (o1 # o2 # os) n k =
     (if n > int mirrorTotalCap
      then drop_oldest (o2 # os) (n - (case lookup k o1 of None \<Rightarrow> 0 | Some b \<Rightarrow> int (length b))) (remove o1 k)
      else (o1 # o2 # os, n, k))"
| "drop_oldest [o1] n k = ([o1], n, k)"
| "drop_oldest [] n k = ([], n, k)"

definition keep :: "string \<Rightarrow> string \<Rightarrow> mirror \<Rightarrow> mirror" where
  "keep name body m =
     (if lookup (kept m) name \<noteq> None then m
      else (case drop_oldest (kept_order m @ [name]) (kept_bytes m + int (length body)) (store name body (kept m)) of
          (os, n, k) \<Rightarrow> m\<lparr>kept_order := os, kept_bytes := n, kept := k\<rparr>))"

definition image :: "string \<Rightarrow> mirror \<Rightarrow> string option" where
  "image name m = lookup (kept m) name"

text \<open>
  \<open>fetch\<close>: the body is read up to one byte more than the cap, \<open>None\<close> when reading fails.
\<close>

datatype image_answer = ImageFailed | ImageStatus int "string option"

definition fetch_image :: "(string \<Rightarrow> string) \<Rightarrow> image_answer \<Rightarrow> mirror \<Rightarrow> (string \<times> bool) \<times> mirror" where
  "fetch_image digest a m =
     (case a of
        ImageFailed \<Rightarrow> (([], False), m)
      | ImageStatus status body \<Rightarrow>
          if status \<noteq> 200 then (([], True), m)
          else (case body of
              None \<Rightarrow> (([], False), m)
            | Some b \<Rightarrow>
                let b = take (mirrorFileCap + 1) b in
                if length b > mirrorFileCap \<or> \<not> looksLikePNG b then (([], True), m)
                else ((digest b, True), keep (digest b) b m)))"

definition mirrored :: "(string \<Rightarrow> string) \<Rightarrow> instant \<Rightarrow> instant \<Rightarrow> image_answer \<Rightarrow> string \<Rightarrow> mirror \<Rightarrow> string \<times> mirror" where
  "mirrored digest t1 t2 a raw m =
     (if raw = [] \<or> mirror_base m = [] \<or> has_prefix raw (mirror_base m @ ''/'') then (raw, m)
      else (case remembered_name t1 raw m of
          Some name \<Rightarrow> (if name = [] then raw else mirror_base m @ ''/'' @ name, m)
        | None \<Rightarrow>
            (case fetch_image digest a m of ((fetched, answered), m) \<Rightarrow>
              let name = (if answered then fetched else lastKnown raw m);
                  m = remember t2 raw name m
              in (if name = [] then raw else mirror_base m @ ''/'' @ name, m))))"

definition mirror_textures ::
    "(string \<Rightarrow> string) \<Rightarrow> instant \<times> instant \<Rightarrow> instant \<times> instant \<Rightarrow> image_answer \<Rightarrow> image_answer \<Rightarrow> ('e, textures) result \<Rightarrow> mirror \<Rightarrow>
     ('e, textures) result \<times> mirror" where
  "mirror_textures digest ts tc a1 a2 inner m =
     (case inner of
        Inl e \<Rightarrow> (Inl e, m)
      | Inr t \<Rightarrow>
          (case mirrored digest (fst ts) (snd ts) a1 (SkinURL t) m of (skin, m) \<Rightarrow>
            (case mirrored digest (fst tc) (snd tc) a2 (CapeURL t) m of (cape, m) \<Rightarrow> (Inr (t\<lparr>SkinURL := skin, CapeURL := cape\<rparr>), m))))"

text \<open>The last element of the path of the request names the image.\<close>

fun drop_slashes :: "string \<Rightarrow> string" where
  "drop_slashes [] = []"
| "drop_slashes (c # s) = (if c = CHR ''/'' then drop_slashes s else c # s)"

definition path_base :: "string \<Rightarrow> string" where
  "path_base p =
     (if p = [] then ''.''
      else let s = rev (drop_slashes (rev p)) in if s = [] then ''/'' else last (split_on CHR ''/'' s))"

definition ServeImage :: "string \<Rightarrow> mirror \<Rightarrow> string option" where
  "ServeImage path m = image (path_base path) m"

section \<open>Names stay in their segment\<close>

definition url_mark :: "char \<Rightarrow> bool" where
  "url_mark c \<longleftrightarrow> c \<in> {CHR ''/'', CHR ''?'', CHR 0x23}"

lemma hex_upper_plain: "n < 16 \<Longrightarrow> \<not> url_mark (hex_upper n)"
proof -
  assume "n < 16"
  then have "n \<in> set [0..<16]" by simp
  moreover have "list_all (\<lambda>n. \<not> url_mark (hex_upper n)) [0..<16]" by code_simp
  ultimately show ?thesis by (simp add: list_all_iff)
qed

lemma path_char_plain: "path_char c \<Longrightarrow> \<not> url_mark c"
  by (auto simp: path_char_def identifier_char_def identifier_start_def is_digit_def url_mark_def)

lemma escaped_plain: "c \<in> set (if path_char d then [d] else [CHR ''%'', hex_upper (of_char d div 16), hex_upper (of_char d mod 16)]) \<Longrightarrow> \<not> url_mark c"
proof -
  have "(of_char d :: nat) div 16 < 16" "(of_char d :: nat) mod 16 < 16"
    using nat_of_char_less_256[of d] by (simp_all add: less_mult_imp_div_less)
  then have "\<not> url_mark (hex_upper (of_char d div 16))" "\<not> url_mark (hex_upper (of_char d mod 16))" "\<not> url_mark CHR ''%''"
    by (auto simp: hex_upper_plain, simp add: url_mark_def)
  then show "c \<in> set (if path_char d then [d] else [CHR ''%'', hex_upper (of_char d div 16), hex_upper (of_char d mod 16)]) \<Longrightarrow> \<not> url_mark c"
    using path_char_plain by (auto split: if_splits)
qed

lemma PathEscape_plain: "c \<in> set (PathEscape s) \<Longrightarrow> \<not> url_mark c"
  unfolding PathEscape_def set_concat set_map using escaped_plain by blast

lemma find_pair_in: "find_pair ps s = Some (k, v) \<Longrightarrow> (k, v) \<in> set ps \<and> (\<exists>r. s = k @ r)"
  by (induction ps) (auto simp: has_prefix_iff split: if_splits)

lemma replace_pairs_marks:
  assumes "\<forall>(k, v) \<in> set ps. filter url_mark k = [] \<and> filter url_mark v = []"
  shows "filter url_mark (replace_pairs ps s) = filter url_mark s"
  using assms
proof (induction ps s rule: replace_pairs.induct)
  case (2 ps c s)
  show ?case
  proof (cases "find_pair ps (c # s)")
    case None
    then show ?thesis using 2 by simp
  next
    case (Some kv)
    obtain k v where kv: "kv = (k, v)" by fastforce
    obtain r where r: "c # s = k @ r" using find_pair_in Some kv by blast
    have marks: "filter url_mark k = []" "filter url_mark v = []" using 2(4) find_pair_in Some kv by blast+
    show ?thesis
    proof (cases "k = []")
      case True
      then show ?thesis using 2(2)[OF Some kv[symmetric] True] 2(4) Some kv by simp
    next
      case False
      have "filter url_mark (replace_pairs ps r) = filter url_mark r"
        using 2(3)[OF Some kv[symmetric] False] 2(4) r by simp
      moreover have "filter url_mark (c # s) = filter url_mark r" unfolding r using marks by simp
      moreover have "replace_pairs ps (c # s) = v @ replace_pairs ps (drop (length k) (c # s))" using Some kv False by simp
      moreover have "drop (length k) (c # s) = r" unfolding r by simp
      ultimately show ?thesis using marks by (metis append_Nil filter_append)
    qed
  qed
qed simp

text \<open>
  A name or an id put into the template of a URL adds no slash, no question mark and no fragment: the URL
  has the same segments as its template.
\<close>

lemma names_stay_in_segment: "filter url_mark (substitute template name uid) = filter url_mark template"
proof -
  have "filter url_mark (PathEscape s) = []" for s using PathEscape_plain by (auto simp: filter_empty_conv)
  then show ?thesis unfolding substitute_def by (intro replace_pairs_marks) (auto simp: url_mark_def)
qed

text \<open>A name of two dots is not escaped, so it can name the directory above.\<close>

lemma dots_pass: "substitute ''/skins/%username%/skin.png'' ''..'' [] = ''/skins/../skin.png''"
  by code_simp

text \<open>The statement that the server puts together holds quoted identifiers and nothing else of the configuration.\<close>

lemma sql_query_shape:
  assumes "newSQL c = Some p" "SqlQuery c = []"
  shows "\<exists>q place cols table column. Query p = select_one q place (map (quote_name q) cols) table column \<and>
    list_all sql_identifier (table # column # cols)"
proof -
  have f: "Field t v = Some (a, b) \<Longrightarrow> sql_identifier a \<and> sql_identifier b" for t v a b
    by (auto simp: Field_def Let_def split: if_splits prod.splits option.splits)
  have add: "add_column q t v (map (quote_name q) cs) = Some (pos, cs') \<Longrightarrow> list_all sql_identifier cs \<Longrightarrow>
      \<exists>ds. cs' = map (quote_name q) ds \<and> list_all sql_identifier ds" for q t v cs pos cs'
  proof -
    assume a: "add_column q t v (map (quote_name q) cs) = Some (pos, cs')" and cs: "list_all sql_identifier cs"
    show ?thesis
    proof (cases "v = []")
      case True
      then show ?thesis using a cs by (auto simp: add_column_def)
    next
      case False
      then obtain tt d where d: "Field t v = Some (tt, d)" "cs' = map (quote_name q) (cs @ [d])"
        using a by (auto simp: add_column_def split: option.splits)
      then show ?thesis using cs f by (intro exI[of _ "cs @ [d]"]) simp
    qed
  qed
  obtain d q place field table column st skin cape cols model cols' where parts: "Dialect (SqlDriver c) = Some (d, q, place)"
    "Field (SqlTable c) field = Some (table, column)"
    "Field (SqlTable c) (FieldSkin (SqlFields c)) = Some (st, skin)"
    "add_column q (SqlTable c) (FieldCape (SqlFields c)) [quote_name q skin] = Some (cape, cols)"
    "add_column q (SqlTable c) (FieldModel (SqlFields c)) cols = Some (model, cols')"
    "Query p = select_one q place cols' table column"
    using assms by (auto simp: newSQL_def split: option.splits if_splits prod.splits)
  obtain ds where ds: "cols = map (quote_name q) ds" "list_all sql_identifier ds"
    using add[of q "SqlTable c" "FieldCape (SqlFields c)" "[skin]" cape cols] parts(4) f[OF parts(3)] by auto
  obtain es where "cols' = map (quote_name q) es" "list_all sql_identifier es"
    using add[of q "SqlTable c" "FieldModel (SqlFields c)" ds model cols'] parts(5) ds by auto
  then have "Query p = select_one q place (map (quote_name q) es) table column" "list_all sql_identifier (table # column # es)"
    using parts(6) f[OF parts(2)] by simp_all
  then show ?thesis by blast
qed

section \<open>The mirror stays small and true\<close>

definition total_bytes :: "(string, string) amap \<Rightarrow> int" where
  "total_bytes k = sum_list (map (\<lambda>p. int (length (snd p))) k)"

definition true_images :: "(string \<Rightarrow> string) \<Rightarrow> (string, string) amap \<Rightarrow> bool" where
  "true_images digest k \<longleftrightarrow> (\<forall>name body. lookup k name = Some body \<longrightarrow> name = digest body \<and> looksLikePNG body \<and> length body \<le> mirrorFileCap)"

definition kept_ok :: "(string \<Rightarrow> string) \<Rightarrow> string list \<Rightarrow> int \<Rightarrow> (string, string) amap \<Rightarrow> bool" where
  "kept_ok digest os n k \<longleftrightarrow> keys_ok k \<and> distinct os \<and> set os = fst ` set k \<and> n = total_bytes k \<and> true_images digest k"

definition mirror_ok :: "(string \<Rightarrow> string) \<Rightarrow> mirror \<Rightarrow> bool" where
  "mirror_ok digest m \<longleftrightarrow> kept_ok digest (kept_order m) (kept_bytes m) (kept m) \<and> kept_bytes m \<le> int mirrorTotalCap \<and>
     length (names m) \<le> mirrorURLCap + 1"

lemma keys_of_remove: "fst ` set (remove x k) = fst ` set k - {x}"
  using arg_cong[OF delete_keys[of x k], of set] by simp

lemma keys_of_store: "fst ` set (store x v k) = insert x (fst ` set k)"
  by (simp add: dom_update)

lemma total_remove: "keys_ok k \<Longrightarrow> lookup k o1 = Some b \<Longrightarrow> total_bytes (remove o1 k) = total_bytes k - int (length b)"
proof (induction k)
  case (Cons p k)
  obtain a v where p: "p = (a, v)" by fastforce
  show ?case
  proof (cases "a = o1")
    case True
    then have "remove o1 k = k" using Cons.prems p by (simp add: keys_ok_def delete_id)
    then show ?thesis using True Cons.prems p by (simp add: total_bytes_def)
  next
    case False
    then show ?thesis using Cons p by (simp add: total_bytes_def keys_ok_def)
  qed
qed simp

lemma total_store: "lookup k name = None \<Longrightarrow> total_bytes (store name b k) = total_bytes k + int (length b)"
  by (induction k) (auto simp: total_bytes_def)

lemma drop_oldest_keeps: "last os = name \<Longrightarrow> os \<noteq> [] \<Longrightarrow> lookup k name \<noteq> None \<Longrightarrow> distinct os \<Longrightarrow>
    lookup (snd (snd (drop_oldest os n k))) name = lookup k name"
proof (induction os n k rule: drop_oldest.induct)
  case (1 o1 o2 os n k)
  then have "name \<noteq> o1" using last_in_set[of "o2 # os"] by auto
  then show ?case using 1 by simp
qed simp_all

lemma drop_oldest_ok:
  assumes "kept_ok digest os n k" "os \<noteq> []"
  shows "case drop_oldest os n k of (os', n', k') \<Rightarrow> kept_ok digest os' n' k' \<and> n' \<le> int mirrorTotalCap"
  using assms
proof (induction os n k rule: drop_oldest.induct)
  case (1 o1 o2 os n k)
  show ?case
  proof (cases "n > int mirrorTotalCap")
    case True
    have k: "keys_ok k" "distinct (o1 # o2 # os)" "set (o1 # o2 # os) = fst ` set k" "n = total_bytes k" "true_images digest k"
      using "1.prems"(1) by (simp_all add: kept_ok_def)
    have "o1 \<in> fst ` set k" using k(3) by auto
    then obtain b where b: "lookup k o1 = Some b" by (metis lookup_None_iff not_Some_eq)
    have "fst ` set (remove o1 k) = set (o2 # os)" using k(2,3) unfolding keys_of_remove by auto
    moreover have "true_images digest (remove o1 k)" using k(5) by (simp add: true_images_def)
    ultimately have "kept_ok digest (o2 # os) (n - int (length b)) (remove o1 k)"
      using k b total_remove[OF k(1) b] by (simp add: kept_ok_def)
    then show ?thesis using "1.IH"[OF True] True b by simp
  next
    case False
    then show ?thesis using "1.prems" by simp
  qed
next
  case (2 o1 n k)
  then have k: "keys_ok k" "fst ` set k = {o1}" "n = total_bytes k" "true_images digest k" by (simp_all add: kept_ok_def)
  obtain a b k' where cons: "k = (a, b) # k'" using k(2) by (cases k) auto
  have "k' = []" using k(1,2) cons by (cases k') (auto simp: keys_ok_def)
  then have k1: "k = [(o1, b)]" using cons k(2) by simp
  then have "length b \<le> mirrorFileCap" using k(4) by (simp add: true_images_def)
  then show ?case using 2 k1 k(3) by (simp add: total_bytes_def mirrorFileCap_def mirrorTotalCap_def)
qed simp

lemma keep_ok:
  assumes "mirror_ok digest m" "looksLikePNG b" "length b \<le> mirrorFileCap"
  shows "mirror_ok digest (keep (digest b) b m) \<and> lookup (kept (keep (digest b) b m)) (digest b) \<noteq> None"
proof (cases "lookup (kept m) (digest b)")
  case (Some c)
  then show ?thesis using assms by (simp add: keep_def)
next
  case None
  let ?os = "kept_order m @ [digest b]" and ?n = "kept_bytes m + int (length b)" and ?k = "store (digest b) b (kept m)"
  have m: "kept_ok digest (kept_order m) (kept_bytes m) (kept m)" using assms(1) by (simp add: mirror_ok_def)
  then have "digest b \<notin> set (kept_order m)" using None by (simp add: kept_ok_def lookup_None_iff)
  moreover have "fst ` set ?k = insert (digest b) (fst ` set (kept m))" by (rule keys_of_store)
  moreover have "true_images digest ?k" using m assms(2,3) by (auto simp: kept_ok_def true_images_def)
  ultimately have ok: "kept_ok digest ?os ?n ?k" using m total_store[OF None] by (auto simp: kept_ok_def)
  obtain os n k where d: "drop_oldest ?os ?n ?k = (os, n, k)" by (metis prod.collapse)
  have "lookup k (digest b) = Some b" using drop_oldest_keeps[of ?os "digest b" ?k ?n] d ok by (simp add: kept_ok_def)
  moreover have "kept_ok digest os n k \<and> n \<le> int mirrorTotalCap" using drop_oldest_ok[OF ok] d by simp
  ultimately show ?thesis using assms(1) d None by (simp add: keep_def mirror_ok_def)
qed

lemma fetch_ok:
  assumes "mirror_ok digest m" "fetch_image digest a m = ((name, answered), m')"
  shows "mirror_ok digest m' \<and> mirror_base m' = mirror_base m \<and> (answered \<and> name \<noteq> [] \<longrightarrow> lookup (kept m') name \<noteq> None)"
proof -
  have base: "mirror_base (keep name b m) = mirror_base m" for name b by (simp add: keep_def split: prod.splits)
  show ?thesis
    using assms keep_ok[OF assms(1)] base by (auto simp: fetch_image_def Let_def split: image_answer.splits if_splits option.splits)
qed

lemma remember_ok: "mirror_ok digest m \<Longrightarrow> mirror_ok digest (remember t raw name m)"
  by (auto simp: mirror_ok_def remember_def mirrorURLCap_def length_store)

text \<open>
  The requests interleave between the fetch of an image and the note of its name, so each is a step.
\<close>

datatype mirror_op = FetchStep image_answer | RememberStep instant string string

fun mirror_step :: "(string \<Rightarrow> string) \<Rightarrow> mirror_op \<Rightarrow> mirror \<Rightarrow> mirror" where
  "mirror_step digest (FetchStep a) m = snd (fetch_image digest a m)"
| "mirror_step digest (RememberStep t raw name) m = remember t raw name m"

definition mirror_run :: "(string \<Rightarrow> string) \<Rightarrow> mirror_op list \<Rightarrow> mirror \<Rightarrow> mirror" where
  "mirror_run digest ops m = fold (mirror_step digest) ops m"

lemma mirror_step_ok: "mirror_ok digest m \<Longrightarrow> mirror_ok digest (mirror_step digest opn m)"
proof (cases opn)
  case (FetchStep a)
  assume "mirror_ok digest m"
  then show ?thesis using fetch_ok[of digest m a] FetchStep by (metis mirror_step.simps(1) prod.collapse)
qed (simp add: remember_ok)

lemma mirror_run_ok: "mirror_ok digest m \<Longrightarrow> mirror_ok digest (mirror_run digest ops m)"
  unfolding mirror_run_def by (induction ops arbitrary: m) (simp_all add: mirror_step_ok)

lemma newMirror_ok: "mirror_ok digest (newMirror b ttl)"
  by (simp add: mirror_ok_def kept_ok_def newMirror_def total_bytes_def true_images_def mirrorURLCap_def)

lemma mirrored_serves:
  assumes "mirror_ok digest m" "mirrored digest t1 t2 a raw m = (u, m')"
  shows "mirror_ok digest m' \<and> (u = raw \<or> (\<exists>name. u = mirror_base m @ ''/'' @ name \<and> image name m' \<noteq> None))"
proof -
  obtain name answered m1 where f: "fetch_image digest a m = ((name, answered), m1)" by (metis prod.collapse)
  note ok = fetch_ok[OF assms(1) f]
  have held: "remembered_name t1 raw m = Some n \<Longrightarrow> n \<noteq> [] \<Longrightarrow> lookup (kept m) n \<noteq> None" for n
    by (auto simp: remembered_name_def split: option.splits if_splits)
  have last: "lastKnown raw m1 \<noteq> [] \<Longrightarrow> lookup (kept m1) (lastKnown raw m1) \<noteq> None"
    by (auto simp: lastKnown_def split: option.splits if_splits)
  have rem: "mirror_ok digest (remember t2 raw n m1)" "kept (remember t2 raw n m1) = kept m1" "mirror_base (remember t2 raw n m1) = mirror_base m" for n
    using remember_ok ok by (simp_all add: remember_def)
  show ?thesis
    using assms ok held last rem f by (auto simp: mirrored_def image_def Let_def split: if_splits option.splits)
qed

text \<open>
  Whatever images are fetched and however the requests interleave, the mirror keeps at most 64 MiB of
  images and 8193 URLs, counts the bytes exactly, and every image it hands out is a PNG of at most 2 MiB
  whose hash is its name; and a link it puts into the place of a URL can be served at that moment.
\<close>

theorem mirror_stays_bounded:
  assumes "m = mirror_run digest ops (newMirror b ttl)" "mirrored digest t1 t2 a raw m = (u, m')"
  shows "kept_bytes m = total_bytes (kept m) \<and> total_bytes (kept m) \<le> int mirrorTotalCap \<and> length (names m) \<le> mirrorURLCap + 1 \<and>
    (\<forall>name body. image name m = Some body \<longrightarrow> name = digest body \<and> looksLikePNG body \<and> length body \<le> mirrorFileCap) \<and>
    (u = raw \<or> (\<exists>name. u = mirror_base m @ ''/'' @ name \<and> image name m' \<noteq> None))"
proof -
  have ok: "mirror_ok digest m" using mirror_run_ok newMirror_ok assms(1) by blast
  then show ?thesis using mirrored_serves[OF ok assms(2)] by (simp add: mirror_ok_def kept_ok_def true_images_def image_def)
qed

text \<open>A mirror that has fetched one small image.\<close>

definition sample_mirror :: mirror where
  "sample_mirror = mirror_run (\<lambda>b. ''d'') [FetchStep (ImageStatus 200 (Some ''-PNG-----''))] (newMirror ''https://m/'' mirrorTTL)"

lemma mirror_stays_bounded_witness:
  "image ''d'' sample_mirror = Some ''-PNG-----'' \<and> total_bytes (kept sample_mirror) = 9 \<and> int 9 \<le> int mirrorTotalCap \<and>
   (\<exists>name. fst (mirrored (\<lambda>b. ''d'') 1 1 (ImageStatus 200 (Some ''-PNG-----'')) ''u'' sample_mirror) = ''https://m'' @ ''/'' @ name \<and>
     image name (snd (mirrored (\<lambda>b. ''d'') 1 1 (ImageStatus 200 (Some ''-PNG-----'')) ''u'' sample_mirror)) \<noteq> None)"
proof -
  have m: "sample_mirror = \<lparr>mirror_base = ''https://m'', mirror_ttl = mirrorTTL, names = [], kept = [(''d'', ''-PNG-----'')],
      kept_order = [''d''], kept_bytes = 9\<rparr>"
    by (simp add: sample_mirror_def mirror_run_def newMirror_def fetch_image_def looksLikePNG_def keep_def mirrorFileCap_def has_suffix_def)
  have facts: "image ''d'' sample_mirror = Some ''-PNG-----''" "total_bytes (kept sample_mirror) = 9"
    "mirror_base sample_mirror = ''https://m''"
    "fst (mirrored (\<lambda>b. ''d'') 1 1 (ImageStatus 200 (Some ''-PNG-----'')) ''u'' sample_mirror) = ''https://m/d''"
    by (simp_all add: m image_def total_bytes_def mirrored_def has_prefix_def remembered_name_def fetch_image_def looksLikePNG_def keep_def
        mirrorFileCap_def Let_def remember_def)
  obtain u m' where u: "mirrored (\<lambda>b. ''d'') 1 1 (ImageStatus 200 (Some ''-PNG-----'')) ''u'' sample_mirror = (u, m')" by fastforce
  have "total_bytes (kept sample_mirror) \<le> int mirrorTotalCap" "u = ''u'' \<or> (\<exists>name. u = mirror_base sample_mirror @ ''/'' @ name \<and> image name m' \<noteq> None)"
    using mirror_stays_bounded[OF sample_mirror_def u] by blast+
  then show ?thesis using facts u by auto
qed

end
