(* ===== verification/Yggdrasil.thy ===== *)
theory Yggdrasil
  imports Api Skin
begin

text \<open>
  The sign-in of the game (package \<open>yggdrasil\<close>: \<open>server.go\<close>, \<open>store.go\<close>, \<open>redissessions.go\<close>, \<open>textures.go\<close>): a game
  client authenticates, tells the server of the game that it joins, and that server asks whether it did.

  The store keeps sessions in memory or in Redis, joins and profiles. Parameters are the codecs of JSON, the
  fold of \<open>strings.EqualFold\<close>, MD5, the RSA signature, base 64 and the commands of Redis. Random tokens and the readings
  of the clock are arguments; a body that does not decode is \<open>None\<close>.

  The theorems: a server of the game is only told that a player has joined when the player's password, ticket
  and machine were accepted before and the join came with a live token that goes back to that sign-in, and
  passed the bans; and a token that was renewed, given back or signed out is dead. They are about the store
  in memory and take the requests one at a time, where the code makes up to three calls to the store in one
  request, each under the lock.
\<close>

section \<open>The store\<close>

record game_session =
  clientToken :: string
  game_identity :: Sessions.identity
  game_expires :: instant

record join_record =
  join_identity :: Sessions.identity
  join_expires :: instant

text \<open>The commands of a transaction, which Redis runs in one step.\<close>

datatype redis_cmd = CmdSet string string nanos | CmdSAdd string string | CmdExpire string nanos | CmdDel string | CmdSRem string string

record 'w game_redis =
  q_exec :: "redis_cmd list \<Rightarrow> 'w \<Rightarrow> (string, unit) result \<times> 'w"
  q_get :: "string \<Rightarrow> 'w \<Rightarrow> (string, string option) result \<times> 'w"
  q_ttl :: "string \<Rightarrow> 'w \<Rightarrow> (string, nanos) result \<times> 'w"
  q_members :: "string \<Rightarrow> 'w \<Rightarrow> (string, string list) result \<times> 'w"

record ygg_env =
  encode_session :: "string \<Rightarrow> Sessions.identity \<Rightarrow> string"
  decode_session :: "string \<Rightarrow> (string \<times> Sessions.identity) option"
  encode_identity :: "Sessions.identity \<Rightarrow> string"
  decode_identity :: "string \<Rightarrow> Sessions.identity option"
  print_uuid :: "uuid \<Rightarrow> string"
  md5_of :: "string \<Rightarrow> 8 word list"
  equal_fold :: "string \<Rightarrow> string \<Rightarrow> bool"
  lower_name :: "string \<Rightarrow> string"

record 'w game_store =
  game_sessions :: "(string, game_session) amap"
  joins :: "(string, join_record) amap"
  profiles :: "string \<Rightarrow> Sessions.identity option"
  remote_state :: 'w

definition newStore :: "'w \<Rightarrow> 'w game_store" where
  "newStore w = \<lparr>game_sessions = [], joins = [], profiles = (\<lambda>_. None), remote_state = w\<rparr>"

definition maxLiveRecords :: nat where "maxLiveRecords = 20000"
definition tokenTTL :: nanos where "tokenTTL = 24 * hour"
definition joinTTL :: nanos where "joinTTL = 30 * second"
definition profileTTL :: nanos where "profileTTL = 30 * 24 * hour"

definition dashless_uuid :: "ygg_env \<Rightarrow> uuid \<Rightarrow> string" where
  "dashless_uuid Y u = dashless (print_uuid Y u)"

subsection \<open>In Redis\<close>

definition gameSessionKey :: "string \<Rightarrow> string" where "gameSessionKey t = ''laminara:ygg:session:'' @ t"
definition gameUserKey :: "ygg_env \<Rightarrow> string \<Rightarrow> string" where "gameUserKey Y n = ''laminara:ygg:user:'' @ lower_name Y n"
definition gameProfileKey :: "string \<Rightarrow> string" where "gameProfileKey u = ''laminara:ygg:profile:'' @ u"

definition redis_putProfile :: "ygg_env \<Rightarrow> 'w game_redis \<Rightarrow> string \<Rightarrow> Sessions.identity \<Rightarrow> 'w \<Rightarrow> (string, unit) result \<times> 'w" where
  "redis_putProfile Y R u i w = q_exec R [CmdSet (gameProfileKey u) (encode_identity Y i) profileTTL] w"

definition redis_getProfile :: "ygg_env \<Rightarrow> 'w game_redis \<Rightarrow> string \<Rightarrow> 'w \<Rightarrow> (string, Sessions.identity option) result \<times> 'w" where
  "redis_getProfile Y R u w =
     (case q_get R (gameProfileKey u) w of
        (Inl e, w) \<Rightarrow> (Inl e, w)
      | (Inr None, w) \<Rightarrow> (Inr None, w)
      | (Inr (Some data), w) \<Rightarrow> (case decode_identity Y data of None \<Rightarrow> (Inl ''json'', w) | Some i \<Rightarrow> (Inr (Some i), w)))"

definition redis_put :: "ygg_env \<Rightarrow> 'w game_redis \<Rightarrow> string \<Rightarrow> game_session \<Rightarrow> nanos \<Rightarrow> 'w \<Rightarrow> (string, unit) result \<times> 'w" where
  "redis_put Y R token s life w =
     (let user = gameUserKey Y (username (game_identity s)) in
      q_exec R [CmdSet (gameSessionKey token) (encode_session Y (clientToken s) (game_identity s)) life, CmdSAdd user token, CmdExpire user life] w)"

text \<open>The session and its remaining time are two calls.\<close>

definition redis_get :: "ygg_env \<Rightarrow> 'w game_redis \<Rightarrow> instant \<Rightarrow> string \<Rightarrow> 'w \<Rightarrow> (string, game_session option) result \<times> 'w" where
  "redis_get Y R now token w =
     (case q_get R (gameSessionKey token) w of
        (Inl e, w) \<Rightarrow> (Inl e, w)
      | (Inr None, w) \<Rightarrow> (Inr None, w)
      | (Inr (Some data), w) \<Rightarrow>
          (case decode_session Y data of
             None \<Rightarrow> (Inl ''json'', w)
           | Some (client, i) \<Rightarrow>
               (case q_ttl R (gameSessionKey token) w of
                  (Inl e, w) \<Rightarrow> (Inl e, w)
                | (Inr left, w) \<Rightarrow> (Inr (Some \<lparr>clientToken = client, game_identity = i, game_expires = now + left\<rparr>), w))))"

definition redis_remove :: "ygg_env \<Rightarrow> 'w game_redis \<Rightarrow> instant \<Rightarrow> string \<Rightarrow> 'w \<Rightarrow> (string, unit) result \<times> 'w" where
  "redis_remove Y R now token w =
     (case redis_get Y R now token w of
        (Inl e, w) \<Rightarrow> (Inl e, w)
      | (Inr found, w) \<Rightarrow>
          q_exec R (CmdDel (gameSessionKey token) #
            (case found of None \<Rightarrow> [] | Some s \<Rightarrow> [CmdSRem (gameUserKey Y (username (game_identity s))) token])) w)"

definition redis_rotate ::
    "ygg_env \<Rightarrow> 'w game_redis \<Rightarrow> instant \<Rightarrow> string \<Rightarrow> string \<Rightarrow> nanos \<Rightarrow> 'w \<Rightarrow> (string, game_session option) result \<times> 'w" where
  "redis_rotate Y R now old new life w =
     (case redis_get Y R now old w of
        (Inl e, w) \<Rightarrow> (Inl e, w)
      | (Inr None, w) \<Rightarrow> (Inr None, w)
      | (Inr (Some s), w) \<Rightarrow>
          (case redis_put Y R new s life w of
             (Inl e, w) \<Rightarrow> (Inl e, w)
           | (Inr _, w) \<Rightarrow>
               (case redis_remove Y R now old w of
                  (Inl e, w) \<Rightarrow> (Inl e, w)
                | (Inr _, w) \<Rightarrow> (Inr (Some (s\<lparr>game_expires := now + life\<rparr>)), w))))"

definition redis_removeUser :: "ygg_env \<Rightarrow> 'w game_redis \<Rightarrow> string \<Rightarrow> 'w \<Rightarrow> (string, unit) result \<times> 'w" where
  "redis_removeUser Y R name w =
     (case q_members R (gameUserKey Y name) w of
        (Inl e, w) \<Rightarrow> (Inl e, w)
      | (Inr tokens, w) \<Rightarrow> q_exec R (map (\<lambda>t. CmdDel (gameSessionKey t)) tokens @ [CmdDel (gameUserKey Y name)]) w)"

subsection \<open>The operations\<close>

definition sweepLocked :: "instant \<Rightarrow> 'w game_store \<Rightarrow> 'w game_store" where
  "sweepLocked now s =
     s\<lparr>game_sessions := keep_if (\<lambda>_ x. \<not> now > game_expires x) (game_sessions s),
       joins := keep_if (\<lambda>_ j. \<not> now > join_expires j) (joins s)\<rparr>"

definition putSession ::
    "ygg_env \<Rightarrow> 'w game_redis option \<Rightarrow> instant \<Rightarrow> instant \<Rightarrow> string \<Rightarrow> string \<Rightarrow> Sessions.identity \<Rightarrow> nanos \<Rightarrow> 'w game_store \<Rightarrow> 'w game_store" where
  "putSession Y R t sweep_time token client i life st =
     (let s = \<lparr>clientToken = client, game_identity = i, game_expires = t + life\<rparr> in
      case R of
        Some R \<Rightarrow> st\<lparr>remote_state := snd (redis_put Y R token s life (remote_state st))\<rparr>
      | None \<Rightarrow>
          (let st = (if length (game_sessions st) \<ge> maxLiveRecords then sweepLocked sweep_time st else st)
           in st\<lparr>game_sessions := store token s (game_sessions st)\<rparr>))"

definition session_of :: "ygg_env \<Rightarrow> 'w game_redis option \<Rightarrow> instant \<Rightarrow> string \<Rightarrow> 'w game_store \<Rightarrow> game_session option \<times> 'w game_store" where
  "session_of Y R now token st =
     (case R of
        Some R \<Rightarrow>
          (case redis_get Y R now token (remote_state st) of
             (Inl e, w) \<Rightarrow> (None, st\<lparr>remote_state := w\<rparr>)
           | (Inr s, w) \<Rightarrow> (s, st\<lparr>remote_state := w\<rparr>))
      | None \<Rightarrow>
          (case lookup (game_sessions st) token of
             None \<Rightarrow> (None, st)
           | Some s \<Rightarrow> if now > game_expires s then (None, st\<lparr>game_sessions := remove token (game_sessions st)\<rparr>) else (Some s, st)))"

definition rotateSession ::
    "ygg_env \<Rightarrow> 'w game_redis option \<Rightarrow> instant \<Rightarrow> string \<Rightarrow> string \<Rightarrow> nanos \<Rightarrow> 'w game_store \<Rightarrow> game_session option \<times> 'w game_store" where
  "rotateSession Y R now old new life st =
     (case R of
        Some R \<Rightarrow>
          (case redis_rotate Y R now old new life (remote_state st) of
             (Inl e, w) \<Rightarrow> (None, st\<lparr>remote_state := w\<rparr>)
           | (Inr s, w) \<Rightarrow> (s, st\<lparr>remote_state := w\<rparr>))
      | None \<Rightarrow>
          (case lookup (game_sessions st) old of
             None \<Rightarrow> (None, st)
           | Some s \<Rightarrow>
               (let s = s\<lparr>game_expires := now + life\<rparr>
                in (Some s, st\<lparr>game_sessions := store new s (remove old (game_sessions st))\<rparr>))))"

definition deleteSession :: "ygg_env \<Rightarrow> 'w game_redis option \<Rightarrow> instant \<Rightarrow> string \<Rightarrow> 'w game_store \<Rightarrow> 'w game_store" where
  "deleteSession Y R now token st =
     (case R of
        Some R \<Rightarrow> st\<lparr>remote_state := snd (redis_remove Y R now token (remote_state st))\<rparr>
      | None \<Rightarrow> st\<lparr>game_sessions := remove token (game_sessions st)\<rparr>)"

definition deleteUser :: "ygg_env \<Rightarrow> 'w game_redis option \<Rightarrow> string \<Rightarrow> 'w game_store \<Rightarrow> 'w game_store" where
  "deleteUser Y R name st =
     (case R of
        Some R \<Rightarrow> st\<lparr>remote_state := snd (redis_removeUser Y R name (remote_state st))\<rparr>
      | None \<Rightarrow> st\<lparr>game_sessions := keep_if (\<lambda>_ s. \<not> equal_fold Y (username (game_identity s)) name) (game_sessions st)\<rparr>)"

definition putJoin :: "instant \<Rightarrow> instant \<Rightarrow> string \<Rightarrow> Sessions.identity \<Rightarrow> nanos \<Rightarrow> 'w game_store \<Rightarrow> 'w game_store" where
  "putJoin sweep_time t serverID i life st =
     (let st = (if length (joins st) \<ge> maxLiveRecords then sweepLocked sweep_time st else st)
      in st\<lparr>joins := store serverID \<lparr>join_identity = i, join_expires = t + life\<rparr> (joins st)\<rparr>)"

definition join_of :: "instant \<Rightarrow> string \<Rightarrow> 'w game_store \<Rightarrow> Sessions.identity option \<times> 'w game_store" where
  "join_of now serverID st =
     (case lookup (joins st) serverID of
        None \<Rightarrow> (None, st)
      | Some j \<Rightarrow> if now > join_expires j then (None, st\<lparr>joins := remove serverID (joins st)\<rparr>) else (Some (join_identity j), st))"

definition rememberProfile :: "ygg_env \<Rightarrow> 'w game_redis option \<Rightarrow> Sessions.identity \<Rightarrow> 'w game_store \<Rightarrow> 'w game_store" where
  "rememberProfile Y R i st =
     (let k = dashless_uuid Y (iuuid i);
          st = st\<lparr>profiles := (profiles st)(k \<mapsto> i)\<rparr>
      in case R of None \<Rightarrow> st | Some R \<Rightarrow> st\<lparr>remote_state := snd (redis_putProfile Y R k i (remote_state st))\<rparr>)"

definition profile_of :: "ygg_env \<Rightarrow> 'w game_redis option \<Rightarrow> string \<Rightarrow> 'w game_store \<Rightarrow> Sessions.identity option \<times> 'w game_store" where
  "profile_of Y R u st =
     (case (profiles st u, R) of
        (Some i, _) \<Rightarrow> (Some i, st)
      | (None, None) \<Rightarrow> (None, st)
      | (None, Some R) \<Rightarrow>
          (case redis_getProfile Y R u (remote_state st) of
             (Inl e, w) \<Rightarrow> (None, st\<lparr>remote_state := w\<rparr>)
           | (Inr None, w) \<Rightarrow> (None, st\<lparr>remote_state := w\<rparr>)
           | (Inr (Some i), w) \<Rightarrow> (Some i, st\<lparr>remote_state := w, profiles := (profiles st)(u \<mapsto> i)\<rparr>)))"

section \<open>The server\<close>

record ('a, 'r, 'w, 'h, 'ip, 'net) ygg =
  ygg_codec :: ygg_env
  ygg_remote :: "'w game_redis option"
  ygg_service :: "'a service"
  ygg_hwid :: hwid_env
  ygg_machines :: "'h store_ops"
  ygg_redis :: "'r redis"
  ygg_fold :: "string \<Rightarrow> string"
  ygg_addr :: "('ip, 'net) addr_env"
  ygg_proxies :: "'net trust option"

record ('r, 'w, 'h) ygg_state =
  game_state :: "'w game_store"
  game_limits :: "guard option"
  game_limits_redis :: 'r
  gate_state :: "gate option"
  gate_store :: 'h

text \<open>The readings of the clock of one request, where it has them.\<close>

record game_times =
  when_limits :: instant
  when_failed :: instant
  when_ticket :: instant
  when_bans :: instant
  when_session :: instant
  when_sweep :: instant
  when_store :: instant

record sign_in =
  SignName :: string
  SignPassword :: string
  SignClient :: string
  SignCode :: string

datatype game_answer = BadRequest | TooManySignIns | NeedsCode | WrongPassword | MachineRefused gate_error | InvalidToken
  | NoContent | SignedIn string string Sessions.identity | Renewed string string Sessions.identity | NoProfile
  | GameProfile Sessions.identity | Names "(string \<times> string) list"

text \<open>
  The sign-in that \<open>authenticate\<close> and \<open>signout\<close> share: the limits, the account source, and the count of
  failures. An answer on the left ends the request.
\<close>

definition check_password ::
    "('a, 'r, 'w, 'h, 'ip, 'net) ygg \<Rightarrow> game_times \<Rightarrow> sign_in \<Rightarrow> header \<Rightarrow> string \<Rightarrow> ('r, 'w, 'h) ygg_state \<Rightarrow>
     (provider_error option, Sessions.identity) result \<times> ('r, 'w, 'h) ygg_state" where
  "check_password P t req h peer st =
     (let address = Of (ygg_addr P) (ygg_proxies P) h peer in
      case SignInAllowed (ygg_redis P) (ygg_fold P) (when_limits t) address (SignName req) (game_limits st) (game_limits_redis st) of
        (False, g, r) \<Rightarrow> (Inl None, st\<lparr>game_limits := g, game_limits_redis := r\<rparr>)
      | (True, g, r) \<Rightarrow>
          (let st = st\<lparr>game_limits := g, game_limits_redis := r\<rparr> in
           case Sessions.authenticate (ygg_service P) \<lparr>cusername = SignName req, cpassword = SignPassword req, ctwofactor = SignCode req\<rparr> of
             Inl e \<Rightarrow>
               (if e = PTwoFactorRequired then (Inl (Some e), st)
                else (case SignInFailed (ygg_redis P) (ygg_fold P) (when_failed t) address (SignName req) (game_limits st) (game_limits_redis st) of
                    (g, r) \<Rightarrow> (Inl (Some e), st\<lparr>game_limits := g, game_limits_redis := r\<rparr>)))
           | Inr i \<Rightarrow> (Inr i, st)))"

definition ygg_authenticate ::
    "('a, 'r, 'w, 'h, 'ip, 'net) ygg \<Rightarrow> game_times \<Rightarrow> string \<times> string \<Rightarrow> sign_in option \<Rightarrow> header \<Rightarrow> string \<Rightarrow> ('r, 'w, 'h) ygg_state \<Rightarrow>
     game_answer \<times> ('r, 'w, 'h) ygg_state" where
  "ygg_authenticate P t draws body h peer st =
     (case body of
        None \<Rightarrow> (BadRequest, st)
      | Some req \<Rightarrow>
          (case check_password P t req h peer st of
             (Inl None, st) \<Rightarrow> (TooManySignIns, st)
           | (Inl (Some e), st) \<Rightarrow> (if e = PTwoFactorRequired then NeedsCode else WrongPassword, st)
           | (Inr i, st) \<Rightarrow>
               (case VerifyTicket (ygg_hwid P) (when_ticket t) (header_get h ''Laminara-Machine-Ticket'') (machine_identity i) (gate_state st) of
                  Some e \<Rightarrow> (MachineRefused e, st)
                | None \<Rightarrow>
                    (case CheckSubject (ygg_hwid P) (ygg_machines P) (when_bans t) (machine_identity i) (gate_state st) (gate_store st) of
                       Some e \<Rightarrow> (MachineRefused e, st)
                     | None \<Rightarrow>
                         (let client = (if SignClient req = [] then fst draws else SignClient req);
                              token = snd draws;
                              g = rememberProfile (ygg_codec P) (ygg_remote P) i
                                (putSession (ygg_codec P) (ygg_remote P) (when_store t) (when_sweep t) token client i tokenTTL (game_state st))
                          in (SignedIn token client i, st\<lparr>game_state := g\<rparr>))))))"

definition ygg_refresh ::
    "('a, 'r, 'w, 'h, 'ip, 'net) ygg \<Rightarrow> game_times \<Rightarrow> string \<Rightarrow> (string \<times> string) option \<Rightarrow> ('r, 'w, 'h) ygg_state \<Rightarrow> game_answer \<times> ('r, 'w, 'h) ygg_state" where
  "ygg_refresh P t new body st =
     (case body of
        None \<Rightarrow> (BadRequest, st)
      | Some (token, client) \<Rightarrow>
          (case session_of (ygg_codec P) (ygg_remote P) (when_session t) token (game_state st) of
             (None, g) \<Rightarrow> (InvalidToken, st\<lparr>game_state := g\<rparr>)
           | (Some s, g) \<Rightarrow>
               if client \<noteq> [] \<and> client \<noteq> clientToken s then (InvalidToken, st\<lparr>game_state := g\<rparr>)
               else (case rotateSession (ygg_codec P) (ygg_remote P) (when_store t) token new tokenTTL g of
                   (None, g) \<Rightarrow> (InvalidToken, st\<lparr>game_state := g\<rparr>)
                 | (Some s, g) \<Rightarrow>
                     (Renewed new (clientToken s) (game_identity s),
                      st\<lparr>game_state := rememberProfile (ygg_codec P) (ygg_remote P) (game_identity s) g\<rparr>))))"

definition ygg_validate ::
    "('a, 'r, 'w, 'h, 'ip, 'net) ygg \<Rightarrow> game_times \<Rightarrow> (string \<times> string) option \<Rightarrow> ('r, 'w, 'h) ygg_state \<Rightarrow> game_answer \<times> ('r, 'w, 'h) ygg_state" where
  "ygg_validate P t body st =
     (case body of
        None \<Rightarrow> (BadRequest, st)
      | Some (token, client) \<Rightarrow>
          (case session_of (ygg_codec P) (ygg_remote P) (when_session t) token (game_state st) of
             (None, g) \<Rightarrow> (InvalidToken, st\<lparr>game_state := g\<rparr>)
           | (Some s, g) \<Rightarrow>
               (if client \<noteq> [] \<and> client \<noteq> clientToken s then InvalidToken else NoContent, st\<lparr>game_state := g\<rparr>)))"

definition ygg_invalidate ::
    "('a, 'r, 'w, 'h, 'ip, 'net) ygg \<Rightarrow> game_times \<Rightarrow> string option \<Rightarrow> ('r, 'w, 'h) ygg_state \<Rightarrow> game_answer \<times> ('r, 'w, 'h) ygg_state" where
  "ygg_invalidate P t body st =
     (case body of
        None \<Rightarrow> (BadRequest, st)
      | Some token \<Rightarrow> (NoContent, st\<lparr>game_state := deleteSession (ygg_codec P) (ygg_remote P) (when_session t) token (game_state st)\<rparr>))"

definition ygg_signout ::
    "('a, 'r, 'w, 'h, 'ip, 'net) ygg \<Rightarrow> game_times \<Rightarrow> sign_in option \<Rightarrow> header \<Rightarrow> string \<Rightarrow> ('r, 'w, 'h) ygg_state \<Rightarrow> game_answer \<times> ('r, 'w, 'h) ygg_state" where
  "ygg_signout P t body h peer st =
     (case body of
        None \<Rightarrow> (BadRequest, st)
      | Some req \<Rightarrow>
          (case check_password P t req h peer st of
             (Inl None, st) \<Rightarrow> (TooManySignIns, st)
           | (Inl (Some e), st) \<Rightarrow> (if e = PTwoFactorRequired then NeedsCode else WrongPassword, st)
           | (Inr i, st) \<Rightarrow> (NoContent, st\<lparr>game_state := deleteUser (ygg_codec P) (ygg_remote P) (SignName req) (game_state st)\<rparr>)))"

definition ygg_join ::
    "('a, 'r, 'w, 'h, 'ip, 'net) ygg \<Rightarrow> game_times \<Rightarrow> (string \<times> string) option \<Rightarrow> ('r, 'w, 'h) ygg_state \<Rightarrow> game_answer \<times> ('r, 'w, 'h) ygg_state" where
  "ygg_join P t body st =
     (case body of
        None \<Rightarrow> (BadRequest, st)
      | Some (token, serverID) \<Rightarrow>
          (case session_of (ygg_codec P) (ygg_remote P) (when_session t) token (game_state st) of
             (None, g) \<Rightarrow> (InvalidToken, st\<lparr>game_state := g\<rparr>)
           | (Some s, g) \<Rightarrow>
               (case CheckSubject (ygg_hwid P) (ygg_machines P) (when_bans t) (machine_identity (game_identity s)) (gate_state st) (gate_store st) of
                  Some e \<Rightarrow> (MachineRefused e, st\<lparr>game_state := g\<rparr>)
                | None \<Rightarrow>
                    (NoContent, st\<lparr>game_state := rememberProfile (ygg_codec P) (ygg_remote P) (game_identity s)
                       (putJoin (when_sweep t) (when_store t) serverID (game_identity s) joinTTL g)\<rparr>))))"

definition ygg_hasJoined ::
    "('a, 'r, 'w, 'h, 'ip, 'net) ygg \<Rightarrow> game_times \<Rightarrow> string \<Rightarrow> string \<Rightarrow> ('r, 'w, 'h) ygg_state \<Rightarrow> game_answer \<times> ('r, 'w, 'h) ygg_state" where
  "ygg_hasJoined P t name serverID st =
     (case join_of (when_session t) serverID (game_state st) of
        (None, g) \<Rightarrow> (NoProfile, st\<lparr>game_state := g\<rparr>)
      | (Some i, g) \<Rightarrow>
          (if \<not> equal_fold (ygg_codec P) (username i) name then NoProfile else GameProfile i, st\<lparr>game_state := g\<rparr>))"

definition ygg_getProfile ::
    "('a, 'r, 'w, 'h, 'ip, 'net) ygg \<Rightarrow> string \<Rightarrow> ('r, 'w, 'h) ygg_state \<Rightarrow> game_answer \<times> ('r, 'w, 'h) ygg_state" where
  "ygg_getProfile P u st =
     (case profile_of (ygg_codec P) (ygg_remote P) u (game_state st) of
        (None, g) \<Rightarrow> (NoProfile, st\<lparr>game_state := g\<rparr>)
      | (Some i, g) \<Rightarrow> (GameProfile i, st\<lparr>game_state := g\<rparr>))"

definition profilesByName :: "ygg_env \<Rightarrow> string list option \<Rightarrow> game_answer" where
  "profilesByName Y body =
     (case body of
        None \<Rightarrow> BadRequest
      | Some ns \<Rightarrow> Names (map (\<lambda>n. (dashless_uuid Y (OfflineUUID (md5_of Y) n), n)) ns))"

subsection \<open>The textures of a profile\<close>

record texture =
  TextureUrl :: string
  TextureModel :: "string option"

record texture_payload =
  Timestamp :: int
  ProfileID :: string
  ProfileName :: string
  PayloadTextures :: "(string \<times> texture) list"

record profile_property =
  PropertyValue :: string
  PropertySignature :: string

text \<open>A signature that fails leaves the property out.\<close>

definition texturesProperty ::
    "(texture_payload \<Rightarrow> string) \<Rightarrow> (string \<Rightarrow> string) \<Rightarrow> (string \<Rightarrow> string option) \<Rightarrow> instant \<Rightarrow> string \<Rightarrow> string \<Rightarrow> textures \<Rightarrow>
     profile_property option" where
  "texturesProperty encode base64 sign now uid name t =
     (let skin = (if SkinURL t = [] then [] else [(''SKIN'', \<lparr>TextureUrl = SkinURL t, TextureModel = (if Slim t then Some ''slim'' else None)\<rparr>)]);
          cape = (if CapeURL t = [] then [] else [(''CAPE'', \<lparr>TextureUrl = CapeURL t, TextureModel = None\<rparr>)]);
          v = base64 (encode \<lparr>Timestamp = now div 1000000, ProfileID = uid, ProfileName = name, PayloadTextures = skin @ cape\<rparr>)
      in map_option (\<lambda>s. \<lparr>PropertyValue = v, PropertySignature = base64 s\<rparr>) (sign v))"

definition writeProfile ::
    "(texture_payload \<Rightarrow> string) \<Rightarrow> (string \<Rightarrow> string) \<Rightarrow> (string \<Rightarrow> string option) \<Rightarrow> ygg_env \<Rightarrow> ('e, textures) result \<Rightarrow> instant \<Rightarrow>
     Sessions.identity \<Rightarrow> bool \<Rightarrow> string \<times> string \<times> profile_property list" where
  "writeProfile encode base64 sign Y skin now i withSign =
     (let uid = dashless_uuid Y (iuuid i) in
      (uid, username i,
       case skin of
         Inl e \<Rightarrow> []
       | Inr t \<Rightarrow>
           (case texturesProperty encode base64 sign now uid (username i) t of
              None \<Rightarrow> []
            | Some p \<Rightarrow> [if withSign then p else p\<lparr>PropertySignature := []\<rparr>])))"

section \<open>Runs\<close>

text \<open>
  The requests, and changes of the gate and its store by other parts of the server.
\<close>

datatype game_op =
    Authenticate game_times "string \<times> string" "sign_in option" header string
  | Renew game_times string "(string \<times> string) option"
  | Validate game_times "(string \<times> string) option"
  | Invalidate game_times "string option"
  | Signout game_times "sign_in option" header string
  | Join game_times "(string \<times> string) option"
  | HasJoined game_times string string
  | AskProfile string

fun game_step :: "('a, 'r, 'w, 'h, 'ip, 'net) ygg \<Rightarrow> game_op + (gate option \<times> 'h) \<Rightarrow> ('r, 'w, 'h) ygg_state \<Rightarrow> game_answer \<times> ('r, 'w, 'h) ygg_state" where
  "game_step P (Inl (Authenticate t draws body h peer)) st = ygg_authenticate P t draws body h peer st"
| "game_step P (Inl (Renew t new body)) st = ygg_refresh P t new body st"
| "game_step P (Inl (Validate t body)) st = ygg_validate P t body st"
| "game_step P (Inl (Invalidate t body)) st = ygg_invalidate P t body st"
| "game_step P (Inl (Signout t body h peer)) st = ygg_signout P t body h peer st"
| "game_step P (Inl (Join t body)) st = ygg_join P t body st"
| "game_step P (Inl (HasJoined t name serverID)) st = ygg_hasJoined P t name serverID st"
| "game_step P (Inl (AskProfile u)) st = ygg_getProfile P u st"
| "game_step P (Inr (g, w)) st = (NoContent, st\<lparr>gate_state := g, gate_store := w\<rparr>)"

definition game_run :: "('a, 'r, 'w, 'h, 'ip, 'net) ygg \<Rightarrow> (game_op + (gate option \<times> 'h)) list \<Rightarrow> ('r, 'w, 'h) ygg_state \<Rightarrow> ('r, 'w, 'h) ygg_state" where
  "game_run P ops st = fold (\<lambda>opn st. snd (game_step P opn st)) ops st"

lemma game_run_snoc: "game_run P (ops @ [opn]) st = snd (game_step P opn (game_run P ops st))"
  by (simp add: game_run_def)

lemma check_password_frame:
  "check_password P t req h peer st = (r, st') \<Longrightarrow> game_state st' = game_state st \<and> gate_state st' = gate_state st \<and> gate_store st' = gate_store st"
  by (auto simp: check_password_def Let_def split: prod.splits bool.splits sum.splits if_splits)

lemma check_password_Inr:
  "check_password P t req h peer st = (Inr i, st') \<Longrightarrow>
   Sessions.authenticate (ygg_service P) \<lparr>cusername = SignName req, cpassword = SignPassword req, ctwofactor = SignCode req\<rparr> = Inr i"
  by (auto simp: check_password_def Let_def split: prod.splits bool.splits sum.splits if_splits)

section \<open>Tokens that have ended\<close>

definition draws_token :: "string \<Rightarrow> game_op + (gate option \<times> 'h) \<Rightarrow> bool" where
  "draws_token tok opn = (case opn of Inl (Authenticate _ draws _ _ _) \<Rightarrow> snd draws = tok | Inl (Renew _ new _) \<Rightarrow> new = tok | _ \<Rightarrow> False)"

text \<open>A request that ends a token: the token given back, the token renewed, or its player signed out.\<close>

definition ends_token :: "('a, 'r, 'w, 'h, 'ip, 'net) ygg \<Rightarrow> string \<Rightarrow> game_op \<Rightarrow> ('r, 'w, 'h) ygg_state \<Rightarrow> bool" where
  "ends_token P tok opn st =
     (case opn of
        Invalidate t body \<Rightarrow> body = Some tok
      | Renew t new body \<Rightarrow> map_option fst body = Some tok \<and> new \<noteq> tok \<and>
          (case fst (game_step P (Inl opn) st) of Renewed _ _ _ \<Rightarrow> True | _ \<Rightarrow> False)
      | Signout t body h peer \<Rightarrow>
          (case body of
             None \<Rightarrow> False
           | Some req \<Rightarrow> fst (game_step P (Inl opn) st) = NoContent \<and>
               (case lookup (game_sessions (game_state st)) tok of
                  None \<Rightarrow> True
                | Some s \<Rightarrow> equal_fold (ygg_codec P) (username (game_identity s)) (SignName req)))
      | _ \<Rightarrow> False)"

definition token_gone :: "string \<Rightarrow> 'w game_store \<Rightarrow> bool" where
  "token_gone tok g \<longleftrightarrow> keys_ok (game_sessions g) \<and> lookup (game_sessions g) tok = None"

lemma gone_sweep: "token_gone tok g \<Longrightarrow> token_gone tok (sweepLocked t g)"
  by (simp add: token_gone_def sweepLocked_def lookup_keep_if)

lemma gone_ops:
  "token_gone tok g \<Longrightarrow> token \<noteq> tok \<Longrightarrow> token_gone tok (putSession Y None t st token c i life g)"
  "token_gone tok g \<Longrightarrow> token_gone tok (putJoin st t srv i life g)"
  "token_gone tok g \<Longrightarrow> token_gone tok (rememberProfile Y None i g)"
  "token_gone tok g \<Longrightarrow> token_gone tok (deleteSession Y None t token g)"
  "token_gone tok g \<Longrightarrow> token_gone tok (deleteUser Y None name g)"
  "token_gone tok g \<Longrightarrow> token_gone tok (snd (session_of Y None t token g))"
  "token_gone tok g \<Longrightarrow> new \<noteq> tok \<Longrightarrow> token_gone tok (snd (rotateSession Y None t old new life g))"
  "token_gone tok g \<Longrightarrow> token_gone tok (snd (join_of t srv g))"
  "token_gone tok g \<Longrightarrow> token_gone tok (snd (profile_of Y None u g))"
proof -
  assume g: "token_gone tok g"
  show "token \<noteq> tok \<Longrightarrow> token_gone tok (putSession Y None t st token c i life g)"
    using g gone_sweep[OF g, of st] by (simp add: putSession_def token_gone_def Let_def)
  show "token_gone tok (putJoin st t srv i life g)"
    using g gone_sweep[OF g, of st] by (simp add: putJoin_def token_gone_def Let_def)
  show "token_gone tok (deleteUser Y None name g)"
    using g by (simp add: deleteUser_def token_gone_def lookup_keep_if)
  show "token_gone tok (rememberProfile Y None i g)" "token_gone tok (deleteSession Y None t token g)"
    "token_gone tok (snd (session_of Y None t token g))" "token_gone tok (snd (join_of t srv g))"
    "token_gone tok (snd (profile_of Y None u g))" "new \<noteq> tok \<Longrightarrow> token_gone tok (snd (rotateSession Y None t old new life g))"
    using g by (auto simp: rememberProfile_def deleteSession_def session_of_def join_of_def profile_of_def rotateSession_def token_gone_def Let_def
        split: option.splits)
qed

lemma gone_game_step:
  assumes P: "ygg_remote P = None" and "\<not> draws_token tok opn" "token_gone tok (game_state st)"
  shows "token_gone tok (game_state (snd (game_step P opn st)))"
proof (cases opn)
  case (Inr w)
  then show ?thesis using assms(3) by (cases w) simp
next
  case (Inl g)
  have frame: "token_gone tok (game_state st')" if "check_password P t req h peer st = (r, st')" for t req h peer r st'
    using check_password_frame[OF that] assms(3) by simp
  have session: "token_gone tok g'" if "session_of Y None t token (game_state st) = (r, g')" for Y t token r g'
    using gone_ops(6)[OF assms(3), of Y t token] that by simp
  have rotate: "token_gone tok g2" if "rotateSession Y None t old new life g1 = (r, g2)" "token_gone tok g1" "new \<noteq> tok" for Y t old new life g1 r g2
    using gone_ops(7)[OF that(2,3), of Y t old life] that(1) by simp
  show ?thesis
  proof (cases g)
    case (Authenticate t draws body h peer)
    then show ?thesis using Inl P assms(2,3) frame
      by (auto simp: ygg_authenticate_def draws_token_def gone_ops Let_def split: option.splits prod.splits sum.splits)
  next
    case (Renew t new body)
    then show ?thesis using Inl P assms(2,3) session rotate
      by (fastforce simp: ygg_refresh_def draws_token_def gone_ops split: option.splits prod.splits)
  next
    case (Validate t body)
    then show ?thesis using Inl P assms(3) session by (auto simp: ygg_validate_def split: option.splits prod.splits)
  next
    case (Signout t body h peer)
    then show ?thesis using Inl P assms(3) frame
      by (auto simp: ygg_signout_def gone_ops split: option.splits prod.splits sum.splits)
  next
    case (Join t body)
    then show ?thesis using Inl P assms(3) session by (auto simp: ygg_join_def gone_ops split: option.splits prod.splits)
  next
    case (HasJoined t name srv)
    then show ?thesis using Inl gone_ops(8)[OF assms(3), of "when_session t" srv]
      by (auto simp: ygg_hasJoined_def split: option.splits prod.splits)
  next
    case (AskProfile u)
    then show ?thesis using Inl P gone_ops(9)[OF assms(3), of "ygg_codec P" u]
      by (auto simp: ygg_getProfile_def split: option.splits prod.splits)
  qed (use Inl P assms(3) in \<open>auto simp: ygg_invalidate_def gone_ops split: option.splits\<close>)
qed

lemma gone_game_run:
  assumes "ygg_remote P = None" "\<forall>opn \<in> set ops. \<not> draws_token tok opn" "token_gone tok (game_state st)"
  shows "token_gone tok (game_state (game_run P ops st))"
  using assms(2,3) gone_game_step[OF assms(1)] unfolding game_run_def by (induction ops arbitrary: st) auto

lemma ends_token_gone:
  assumes P: "ygg_remote P = None" and k: "keys_ok (game_sessions (game_state st))" and "ends_token P tok opn st"
  shows "token_gone tok (game_state (snd (game_step P (Inl opn) st)))"
proof (cases opn)
  case (Invalidate t body)
  then show ?thesis using assms by (simp add: ends_token_def ygg_invalidate_def deleteSession_def token_gone_def)
next
  case (Renew t new body)
  then obtain c where body: "body = Some (tok, c)" "new \<noteq> tok" using assms(3) by (auto simp: ends_token_def)
  obtain r g1 where s: "session_of (ygg_codec P) None (when_session t) tok (game_state st) = (r, g1)" by fastforce
  obtain r2 g2 where ro: "rotateSession (ygg_codec P) None (when_store t) tok new tokenTTL g1 = (r2, g2)" by fastforce
  have "keys_ok (game_sessions g1)" using s k by (auto simp: session_of_def split: option.splits if_splits)
  then have "token_gone tok g2" using ro body(2) by (auto simp: rotateSession_def token_gone_def Let_def split: option.splits)
  then show ?thesis using assms(1,3) Renew body s ro
    by (auto simp: ends_token_def ygg_refresh_def gone_ops split: option.splits if_splits)
next
  case (Signout t body h peer)
  then obtain req where body: "body = Some req" using assms(3) by (cases body) (auto simp: ends_token_def)
  obtain r st1 where c: "check_password P t req h peer st = (r, st1)" by fastforce
  obtain i where "r = Inr i" using assms(3) Signout body c
    by (cases r) (auto simp: ends_token_def ygg_signout_def split: option.splits if_splits)
  then show ?thesis using assms Signout body c check_password_frame[OF c]
    by (auto simp: ends_token_def ygg_signout_def deleteUser_def token_gone_def lookup_keep_if split: option.splits)
qed (use assms(3) in \<open>simp_all add: ends_token_def\<close>)

text \<open>
  C15: With the store in memory and requests one at a time, a token of the game that was given back, renewed,
  or whose player signed out with the password is dead for good: after any requests that do not draw it
  again it is not valid, cannot be renewed and cannot join a server. The store in Redis is left out for a
  reason: \<open>failing_redis_keeps_token\<close> below.
\<close>

theorem ended_game_tokens_stay_dead:
  assumes "ygg_remote P = None" "keys_ok (game_sessions (game_state st))" "ends_token P tok opn st"
    and "\<forall>opn \<in> set ops. \<not> draws_token tok opn"
  shows "(let st' = game_run P ops (snd (game_step P (Inl opn) st)) in
    fst (game_step P (Inl (Validate t (Some (tok, c)))) st') = InvalidToken \<and>
    fst (game_step P (Inl (Renew t new (Some (tok, c)))) st') = InvalidToken \<and>
    fst (game_step P (Inl (Join t (Some (tok, srv)))) st') = InvalidToken)"
proof -
  have "token_gone tok (game_state (game_run P ops (snd (game_step P (Inl opn) st))))"
    using gone_game_run[OF assms(1,4) ends_token_gone[OF assms(1-3)]] .
  then show ?thesis using assms(1)
    by (simp add: token_gone_def session_of_def ygg_validate_def ygg_refresh_def ygg_join_def Let_def)
qed

section \<open>Where the tokens come from\<close>

text \<open>
  A token is in the hands of a player by a sign-in with the password in which the ticket of the launcher and
  the bans let the player pass, or by renewing such a token while it was alive; and it stays so while no
  request ends it or draws it for another session.
\<close>

definition signs_in ::
    "('a, 'r, 'w, 'h, 'ip, 'net) ygg \<Rightarrow> ('r, 'w, 'h) ygg_state \<Rightarrow> game_op + (gate option \<times> 'h) \<Rightarrow> string \<Rightarrow> Sessions.identity \<Rightarrow> bool" where
  "signs_in P st opn tok i \<longleftrightarrow>
     (\<exists>t draws req h peer. opn = Inl (Authenticate t draws (Some req) h peer) \<and> snd draws = tok \<and>
        Sessions.authenticate (ygg_service P) \<lparr>cusername = SignName req, cpassword = SignPassword req, ctwofactor = SignCode req\<rparr> = Inr i \<and>
        VerifyTicket (ygg_hwid P) (when_ticket t) (header_get h ''Laminara-Machine-Ticket'') (machine_identity i) (gate_state st) = None \<and>
        CheckSubject (ygg_hwid P) (ygg_machines P) (when_bans t) (machine_identity i) (gate_state st) (gate_store st) = None)"

definition takes_token :: "('a, 'r, 'w, 'h, 'ip, 'net) ygg \<Rightarrow> string \<Rightarrow> game_op + (gate option \<times> 'h) \<Rightarrow> ('r, 'w, 'h) ygg_state \<Rightarrow> bool" where
  "takes_token P tok opn st =
     (case fst (game_step P opn st) of SignedIn t c i \<Rightarrow> t = tok | Renewed t c i \<Rightarrow> t = tok | _ \<Rightarrow> False)"

definition ends_now :: "('a, 'r, 'w, 'h, 'ip, 'net) ygg \<Rightarrow> string \<Rightarrow> game_op + (gate option \<times> 'h) \<Rightarrow> ('r, 'w, 'h) ygg_state \<Rightarrow> bool" where
  "ends_now P tok opn st = (case opn of Inl g \<Rightarrow> ends_token P tok g st | Inr w \<Rightarrow> False)"

inductive token_from ::
    "('a, 'r, 'w, 'h, 'ip, 'net) ygg \<Rightarrow> ('r, 'w, 'h) ygg_state \<Rightarrow> (game_op + (gate option \<times> 'h)) list \<Rightarrow> string \<Rightarrow> Sessions.identity \<Rightarrow> bool"
  for P :: "('a, 'r, 'w, 'h, 'ip, 'net) ygg" and st0 :: "('r, 'w, 'h) ygg_state" where
  signed: "fst (game_step P opn (game_run P ops st0)) = SignedIn tok c i \<Longrightarrow> signs_in P (game_run P ops st0) opn tok i \<Longrightarrow>
    token_from P st0 (ops @ [opn]) tok i"
| renewed: "token_from P st0 ops old i \<Longrightarrow> fst (game_step P (Inl (Renew t tok (Some (old, c)))) (game_run P ops st0)) = Renewed tok c' i \<Longrightarrow>
    token_from P st0 (ops @ [Inl (Renew t tok (Some (old, c)))]) tok i"
| kept: "token_from P st0 ops tok i \<Longrightarrow> \<not> takes_token P tok opn (game_run P ops st0) \<Longrightarrow> \<not> ends_now P tok opn (game_run P ops st0) \<Longrightarrow>
    token_from P st0 (ops @ [opn]) tok i"

text \<open>The operations of the store in memory that add no session.\<close>

definition fewer :: "'w game_store \<Rightarrow> 'w game_store \<Rightarrow> bool" where
  "fewer g g' \<longleftrightarrow> keys_ok (game_sessions g') \<and>
     (\<forall>tok s. lookup (game_sessions g') tok = Some s \<longrightarrow> lookup (game_sessions g) tok = Some s)"

lemma fewer_trans: "fewer g g1 \<Longrightarrow> fewer g1 g2 \<Longrightarrow> fewer g g2"
  by (simp add: fewer_def)

lemma fewer_ops:
  assumes "keys_ok (game_sessions g)"
  shows "fewer g g" "fewer g (sweepLocked t g)" "fewer g (putJoin st t srv i life g)" "fewer g (rememberProfile Y None i g)"
    "fewer g (deleteSession Y None t token g)" "fewer g (deleteUser Y None name g)" "fewer g (snd (session_of Y None t token g))"
    "fewer g (snd (join_of t srv g))" "fewer g (snd (profile_of Y None u g))"
  using assms
  by (auto simp: fewer_def sweepLocked_def putJoin_def rememberProfile_def deleteSession_def deleteUser_def session_of_def join_of_def
      profile_of_def lookup_keep_if Let_def split: option.splits if_splits)

lemma put_sessions:
  assumes "keys_ok (game_sessions g)" "g' = putSession Y None t st tok c i life g"
  shows "keys_ok (game_sessions g') \<and> (\<forall>k s. lookup (game_sessions g') k = Some s \<longrightarrow>
    (if k = tok then game_identity s = i else lookup (game_sessions g) k = Some s))"
proof -
  define g1 where "g1 = (if length (game_sessions g) \<ge> maxLiveRecords then sweepLocked st g else g)"
  have "fewer g g1" using fewer_ops(1)[OF assms(1)] fewer_ops(2)[OF assms(1), of st] by (simp add: g1_def)
  moreover have "game_sessions g' = store tok \<lparr>clientToken = c, game_identity = i, game_expires = t + life\<rparr> (game_sessions g1)"
    by (simp add: assms(2) putSession_def g1_def Let_def)
  ultimately show ?thesis by (auto simp: fewer_def)
qed

lemma rotate_sessions:
  assumes "keys_ok (game_sessions g)" "rotateSession Y None now old new life g = (Some s, g')"
  shows "keys_ok (game_sessions g') \<and> (\<exists>s0. lookup (game_sessions g) old = Some s0 \<and> game_identity s0 = game_identity s) \<and>
    (\<forall>k x. lookup (game_sessions g') k = Some x \<longrightarrow>
      (if k = new then game_identity x = game_identity s else lookup (game_sessions g) k = Some x))"
  using assms by (auto simp: rotateSession_def Let_def split: option.splits if_splits)

lemma session_of_live:
  "session_of Y None t tok g = (Some s, g') \<Longrightarrow> lookup (game_sessions g) tok = Some s \<and> t \<le> game_expires s \<and> g' = g"
  by (auto simp: session_of_def split: option.splits if_splits)

text \<open>Where a session comes from that is there after a request.\<close>

definition origin ::
    "('a, 'r, 'w, 'h, 'ip, 'net) ygg \<Rightarrow> game_op + (gate option \<times> 'h) \<Rightarrow> ('r, 'w, 'h) ygg_state \<Rightarrow> string \<Rightarrow> game_session \<Rightarrow> bool" where
  "origin P opn st tok s \<longleftrightarrow>
     (\<exists>c. fst (game_step P opn st) = SignedIn tok c (game_identity s) \<and> signs_in P st opn tok (game_identity s)) \<or>
     (\<exists>t old c c' s0. opn = Inl (Renew t tok (Some (old, c))) \<and> fst (game_step P opn st) = Renewed tok c' (game_identity s) \<and>
        lookup (game_sessions (game_state st)) old = Some s0 \<and> game_identity s0 = game_identity s) \<or>
     (lookup (game_sessions (game_state st)) tok = Some s \<and> \<not> takes_token P tok opn st)"

definition all_from :: "('a, 'r, 'w, 'h, 'ip, 'net) ygg \<Rightarrow> game_op + (gate option \<times> 'h) \<Rightarrow> ('r, 'w, 'h) ygg_state \<Rightarrow> bool" where
  "all_from P opn st \<longleftrightarrow> keys_ok (game_sessions (game_state (snd (game_step P opn st)))) \<and>
     (\<forall>tok s. lookup (game_sessions (game_state (snd (game_step P opn st)))) tok = Some s \<longrightarrow> origin P opn st tok s)"

lemma all_from_fewer:
  assumes "fewer (game_state st) (game_state (snd (game_step P opn st)))" "\<And>tok. \<not> takes_token P tok opn st"
  shows "all_from P opn st"
  using assms by (simp add: all_from_def fewer_def origin_def)

lemma authenticate_from:
  assumes P: "ygg_remote P = None" and k: "keys_ok (game_sessions (game_state st))"
  shows "all_from P (Inl (Authenticate t draws body h peer)) st"
proof -
  let ?op = "Inl (Authenticate t draws body h peer) :: game_op + (gate option \<times> 'h)"
  obtain a st' where step: "ygg_authenticate P t draws body h peer st = (a, st')" by fastforce
  show ?thesis
  proof (cases "\<exists>tok c i. a = SignedIn tok c i")
    case True
    then obtain tok c i where a: "a = SignedIn tok c i" by blast
    obtain req where body: "body = Some req" using step a by (cases body) (auto simp: ygg_authenticate_def)
    obtain r st1 where c: "check_password P t req h peer st = (r, st1)" by fastforce
    note frame = check_password_frame[OF c]
    have r: "r = Inr i" "tok = snd draws"
      and ok: "VerifyTicket (ygg_hwid P) (when_ticket t) (header_get h ''Laminara-Machine-Ticket'') (machine_identity i) (gate_state st) = None"
        "CheckSubject (ygg_hwid P) (ygg_machines P) (when_bans t) (machine_identity i) (gate_state st) (gate_store st) = None"
      and g: "\<exists>c. game_state st' = rememberProfile (ygg_codec P) None i
        (putSession (ygg_codec P) None (when_store t) (when_sweep t) (snd draws) c i tokenTTL (game_state st))"
      using step a body c frame P by (auto simp: ygg_authenticate_def Let_def split: sum.splits option.splits if_splits)
    have sign: "signs_in P st ?op tok i"
      unfolding signs_in_def using body r(2) ok check_password_Inr[OF c[unfolded r(1)]] by simp
    obtain c' where g': "game_state st' = rememberProfile (ygg_codec P) None i
        (putSession (ygg_codec P) None (when_store t) (when_sweep t) (snd draws) c' i tokenTTL (game_state st))" using g by blast
    have same: "game_sessions (rememberProfile Y None i x) = game_sessions x" for Y x by (simp add: rememberProfile_def Let_def)
    have s: "keys_ok (game_sessions (game_state st'))"
      "\<And>k s. lookup (game_sessions (game_state st')) k = Some s \<Longrightarrow>
        (if k = tok then game_identity s = i else lookup (game_sessions (game_state st)) k = Some s)"
      unfolding g' same r(2) using put_sessions[OF k refl] by blast+
    have "origin P ?op st k s" if "lookup (game_sessions (game_state st')) k = Some s" for k s
      using s(2)[OF that] sign by (auto simp: origin_def takes_token_def step a split: if_splits)
    then show ?thesis using s(1) by (simp add: all_from_def step)
  next
    case False
    have "game_state st' = game_state st"
    proof (cases body)
      case (Some req)
      obtain r st1 where c: "check_password P t req h peer st = (r, st1)" by fastforce
      show ?thesis using check_password_frame[OF c] step False Some c
        by (auto simp: ygg_authenticate_def Let_def split: sum.splits option.splits)
    qed (use step in \<open>simp add: ygg_authenticate_def\<close>)
    moreover have "\<not> takes_token P tok ?op st" for tok
      using False step by (auto simp: takes_token_def ygg_authenticate_def Let_def split: sum.splits option.splits prod.splits if_splits)
    ultimately show ?thesis using step fewer_ops(1)[OF k] by (intro all_from_fewer) simp_all
  qed
qed

lemma refresh_from:
  assumes P: "ygg_remote P = None" and k: "keys_ok (game_sessions (game_state st))"
  shows "all_from P (Inl (Renew t new body)) st"
proof (cases body)
  case None
  then show ?thesis using fewer_ops(1)[OF k] by (intro all_from_fewer) (simp_all add: ygg_refresh_def takes_token_def)
next
  case (Some tc)
  obtain token client where tc: "tc = (token, client)" by fastforce
  obtain r g1 where s: "session_of (ygg_codec P) None (when_session t) token (game_state st) = (r, g1)" by fastforce
  have g1: "fewer (game_state st) g1" using fewer_ops(7)[OF k, of "ygg_codec P" "when_session t" token] s by simp
  obtain r2 g2 where ro: "rotateSession (ygg_codec P) None (when_store t) token new tokenTTL g1 = (r2, g2)" by fastforce
  consider (none) "r = None" | (other) s1 where "r = Some s1" "client \<noteq> [] \<and> client \<noteq> clientToken s1"
    | (lost) s1 where "r = Some s1" "\<not> (client \<noteq> [] \<and> client \<noteq> clientToken s1)" "r2 = None"
    | (renewed) s1 s2 where "r = Some s1" "\<not> (client \<noteq> [] \<and> client \<noteq> clientToken s1)" "r2 = Some s2"
    by (cases r; cases r2) auto
  then show ?thesis
  proof cases
    case renewed
    have g: "g1 = game_state st" using session_of_live s renewed(1) by blast
    let ?st' = "st\<lparr>game_state := rememberProfile (ygg_codec P) None (game_identity s2) g2\<rparr>"
    have res: "ygg_refresh P t new (Some (token, client)) st = (Renewed new (clientToken s2) (game_identity s2), ?st')"
      using P s ro renewed by (simp add: ygg_refresh_def)
    have same: "game_sessions (game_state ?st') = game_sessions g2" by (simp add: rememberProfile_def Let_def)
    have sess: "keys_ok (game_sessions g2)" "\<exists>s0. lookup (game_sessions (game_state st)) token = Some s0 \<and> game_identity s0 = game_identity s2"
      "\<And>k x. lookup (game_sessions g2) k = Some x \<Longrightarrow>
        (if k = new then game_identity x = game_identity s2 else lookup (game_sessions (game_state st)) k = Some x)"
      using rotate_sessions[OF k ro[unfolded g renewed(3)]] by blast+
    have "origin P (Inl (Renew t new body)) st tok x" if "lookup (game_sessions g2) tok = Some x" for tok x
      unfolding Some tc using sess(2) sess(3)[OF that] by (auto simp: origin_def takes_token_def res split: if_splits)
    then show ?thesis using sess(1) same unfolding Some tc by (simp add: all_from_def res)
  next
    case lost
    then have "g2 = g1" using ro by (auto simp: rotateSession_def Let_def split: option.splits)
    then show ?thesis using P Some tc s ro lost g1 by (intro all_from_fewer) (simp_all add: ygg_refresh_def takes_token_def)
  qed (use P Some tc s ro g1 in \<open>auto intro!: all_from_fewer simp: ygg_refresh_def takes_token_def\<close>)
qed

lemma step_from:
  assumes P: "ygg_remote P = None" and k: "keys_ok (game_sessions (game_state st))"
  shows "all_from P opn st"
proof (cases opn)
  case (Inr w)
  then show ?thesis using fewer_ops(1)[OF k] by (cases w) (intro all_from_fewer; simp add: takes_token_def)
next
  case (Inl g)
  have frame: "fewer (game_state st) g'" if "check_password P t req h peer st = (r, st1)" "fewer (game_state st1) g'" for t req h peer r st1 g'
    using check_password_frame[OF that(1)] that(2) by simp
  have session: "fewer (game_state st) g'" if "session_of Y None t token (game_state st) = (r, g')" for Y t token r g'
    using fewer_ops(7)[OF k, of Y t token] that by simp
  show ?thesis
  proof (cases g)
    case (Authenticate t draws body h peer)
    then show ?thesis using authenticate_from[OF P k] Inl by simp
  next
    case (Renew t new body)
    then show ?thesis using refresh_from[OF P k] Inl by simp
  next
    case (Validate t body)
    then show ?thesis using Inl P session fewer_ops(1)[OF k]
      by (intro all_from_fewer) (auto simp: ygg_validate_def takes_token_def split: option.splits prod.splits)
  next
    case (Invalidate t body)
    then show ?thesis using Inl P fewer_ops(1,5)[OF k]
      by (intro all_from_fewer) (auto simp: ygg_invalidate_def takes_token_def split: option.splits)
  next
    case (Signout t body h peer)
    have "fewer (game_state st) (game_state (snd (ygg_signout P t body h peer st)))"
    proof (cases body)
      case (Some req)
      obtain r st1 where c: "check_password P t req h peer st = (r, st1)" by fastforce
      then show ?thesis using Some P check_password_frame[OF c] fewer_ops(1,6)[OF k]
        by (auto simp: ygg_signout_def split: sum.splits option.splits)
    qed (use fewer_ops(1)[OF k] in \<open>simp add: ygg_signout_def\<close>)
    then show ?thesis using Inl Signout
      by (intro all_from_fewer) (auto simp: ygg_signout_def takes_token_def split: option.splits prod.splits sum.splits)
  next
    case (Join t body)
    have "fewer (game_state st) (game_state (snd (ygg_join P t body st)))"
    proof (cases body)
      case (Some tc)
      obtain token srv where tc: "tc = (token, srv)" by fastforce
      obtain r g1 where s: "session_of (ygg_codec P) None (when_session t) token (game_state st) = (r, g1)" by fastforce
      have g1: "fewer (game_state st) g1" "keys_ok (game_sessions g1)" using session[OF s] by (simp_all add: fewer_def)
      have "fewer g1 (rememberProfile (ygg_codec P) None i (putJoin a b srv i life g1))" for a b i life
        using fewer_trans[OF fewer_ops(3)[OF g1(2)] fewer_ops(4)] fewer_ops(3)[OF g1(2)] by (simp add: fewer_def)
      then show ?thesis using Some tc s P fewer_trans[OF g1(1)] g1(1) by (auto simp: ygg_join_def split: option.splits)
    qed (use fewer_ops(1)[OF k] in \<open>simp add: ygg_join_def\<close>)
    then show ?thesis using Inl Join
      by (intro all_from_fewer) (auto simp: ygg_join_def takes_token_def split: option.splits prod.splits)
  next
    case (HasJoined t name srv)
    then show ?thesis using Inl fewer_ops(8)[OF k, of "when_session t" srv]
      by (intro all_from_fewer) (auto simp: ygg_hasJoined_def takes_token_def split: option.splits prod.splits)
  next
    case (AskProfile u)
    then show ?thesis using Inl P fewer_ops(9)[OF k, of "ygg_codec P" u]
      by (intro all_from_fewer) (auto simp: ygg_getProfile_def takes_token_def split: option.splits prod.splits)
  qed
qed

lemma tokens_are_from:
  assumes P: "ygg_remote P = None" and empty: "game_sessions (game_state st0) = []"
  shows "keys_ok (game_sessions (game_state (game_run P ops st0))) \<and>
    (\<forall>tok s. lookup (game_sessions (game_state (game_run P ops st0))) tok = Some s \<longrightarrow> token_from P st0 ops tok (game_identity s))"
proof (induction ops rule: rev_induct)
  case Nil
  then show ?case using empty by (simp add: game_run_def)
next
  case (snoc opn ops)
  let ?st = "game_run P ops st0"
  have k: "keys_ok (game_sessions (game_state ?st))"
    and before: "\<And>tok s. lookup (game_sessions (game_state ?st)) tok = Some s \<Longrightarrow> token_from P st0 ops tok (game_identity s)"
    using snoc by blast+
  have all: "keys_ok (game_sessions (game_state (game_run P (ops @ [opn]) st0)))"
    "\<And>tok s. lookup (game_sessions (game_state (game_run P (ops @ [opn]) st0))) tok = Some s \<Longrightarrow> origin P opn ?st tok s"
    using step_from[OF P k, of opn] by (simp_all add: all_from_def game_run_snoc)
  have "token_from P st0 (ops @ [opn]) tok (game_identity s)"
    if here: "lookup (game_sessions (game_state (game_run P (ops @ [opn]) st0))) tok = Some s" for tok s
    using all(2)[OF here] unfolding origin_def
  proof (elim disjE exE conjE)
    fix c assume "fst (game_step P opn ?st) = SignedIn tok c (game_identity s)" "signs_in P ?st opn tok (game_identity s)"
    then show ?thesis by (rule signed)
  next
    fix t old c c' s0 assume "opn = Inl (Renew t tok (Some (old, c)))" "fst (game_step P opn ?st) = Renewed tok c' (game_identity s)"
      "lookup (game_sessions (game_state ?st)) old = Some s0" "game_identity s0 = game_identity s"
    then show ?thesis using before[of old s0] by (auto intro: renewed)
  next
    assume old: "lookup (game_sessions (game_state ?st)) tok = Some s" "\<not> takes_token P tok opn ?st"
    have "\<not> ends_now P tok opn ?st"
    proof
      assume "ends_now P tok opn ?st"
      then obtain g where "opn = Inl g" "ends_token P tok g ?st" by (cases opn) (auto simp: ends_now_def)
      then show False using ends_token_gone[OF P k, of tok g] here by (simp add: token_gone_def game_run_snoc)
    qed
    then show ?thesis using old(2) before[OF old(1)] by (intro kept)
  qed
  then show ?case using all(1) by blast
qed

section \<open>Who has joined\<close>

definition accepted_join ::
    "('a, 'r, 'w, 'h, 'ip, 'net) ygg \<Rightarrow> ('r, 'w, 'h) ygg_state \<Rightarrow> (game_op + (gate option \<times> 'h)) list \<Rightarrow> string \<Rightarrow> Sessions.identity \<Rightarrow> instant \<Rightarrow> bool" where
  "accepted_join P st0 ops serverID i tm \<longleftrightarrow>
     (\<exists>pre t token s post. ops = pre @ Inl (Join t (Some (token, serverID))) # post \<and> tm = when_store t \<and>
        fst (session_of (ygg_codec P) (ygg_remote P) (when_session t) token (game_state (game_run P pre st0))) = Some s \<and> game_identity s = i \<and>
        CheckSubject (ygg_hwid P) (ygg_machines P) (when_bans t) (machine_identity i) (gate_state (game_run P pre st0))
          (gate_store (game_run P pre st0)) = None \<and>
        token_from P st0 pre token i)"

lemma accepted_more: "accepted_join P st0 ops srv i tm \<Longrightarrow> accepted_join P st0 (ops @ [opn]) srv i tm"
  unfolding accepted_join_def by (metis append_Cons append_assoc)

definition known_joins :: "(string \<Rightarrow> Sessions.identity \<Rightarrow> instant \<Rightarrow> bool) \<Rightarrow> 'w game_store \<Rightarrow> bool" where
  "known_joins J g \<longleftrightarrow> (\<forall>e \<in> set (joins g). J (fst e) (join_identity (snd e)) (join_expires (snd e) - joinTTL))"

lemma known_fewer: "known_joins J g \<Longrightarrow> set (joins g') \<subseteq> set (joins g) \<Longrightarrow> known_joins J g'"
  by (auto simp: known_joins_def)

lemma known_ops:
  assumes "known_joins J g"
  shows "known_joins J (sweepLocked t g)" "known_joins J (putSession Y None t st tok c i life g)"
    "known_joins J (rememberProfile Y None i g)" "known_joins J (deleteSession Y None t tok g)" "known_joins J (deleteUser Y None name g)"
    "known_joins J (snd (session_of Y None t tok g))" "known_joins J (snd (rotateSession Y None t old new life g))"
    "known_joins J (snd (join_of t srv g))" "known_joins J (snd (profile_of Y None u g))"
  by (auto intro!: known_fewer[OF assms] dest: subsetD[OF keep_if_subset] subsetD[OF remove_subset] simp: sweepLocked_def putSession_def rememberProfile_def deleteSession_def deleteUser_def
      session_of_def rotateSession_def join_of_def profile_of_def Let_def split: option.splits if_splits)

lemma known_putJoin:
  assumes "known_joins J g" "J srv i t"
  shows "known_joins J (putJoin st t srv i joinTTL g)"
  using known_ops(1)[OF assms(1), of st] assms store_subset[of srv "\<lparr>join_identity = i, join_expires = t + joinTTL\<rparr>"]
  by (fastforce simp: putJoin_def known_joins_def Let_def)

lemma known_join_of:
  assumes "join_of t srv g = (Some i, g')" "known_joins J g"
  shows "\<exists>tm. J srv i tm \<and> t \<le> tm + joinTTL"
proof -
  obtain j where j: "lookup (joins g) srv = Some j" "t \<le> join_expires j" "i = join_identity j"
    using assms(1) by (auto simp: join_of_def split: option.splits if_splits)
  have "(srv, j) \<in> set (joins g)" using j(1) by (rule map_of_SomeD)
  then show ?thesis using assms(2) j(2,3) by (intro exI[of _ "join_expires j - joinTTL"]) (auto simp: known_joins_def)
qed

lemma known_step:
  assumes P: "ygg_remote P = None" and known: "known_joins J (game_state st)"
    and join: "\<And>t token srv s. opn = Inl (Join t (Some (token, srv))) \<Longrightarrow>
      session_of (ygg_codec P) None (when_session t) token (game_state st) = (Some s, game_state st) \<Longrightarrow>
      CheckSubject (ygg_hwid P) (ygg_machines P) (when_bans t) (machine_identity (game_identity s)) (gate_state st) (gate_store st) = None \<Longrightarrow>
      J srv (game_identity s) (when_store t)"
  shows "known_joins J (game_state (snd (game_step P opn st)))"
proof (cases opn)
  case (Inr w)
  then show ?thesis using known by (cases w) simp
next
  case (Inl g)
  have frame: "known_joins J (game_state st')" if "check_password P t req h peer st = (r, st')" for t req h peer r st'
    using check_password_frame[OF that] known by simp
  have session: "known_joins J g'" if "session_of Y None t token (game_state st) = (r, g')" for Y t token r g'
    using known_ops(6)[OF known, of Y t token] that by simp
  have rotate: "known_joins J g2" if "rotateSession Y None t old new life g1 = (r, g2)" "known_joins J g1" for Y t old new life g1 r g2
    using known_ops(7)[OF that(2), of Y t old new life] that(1) by simp
  show ?thesis
  proof (cases g)
    case (Authenticate t draws body h peer)
    then show ?thesis using Inl P known frame
      by (auto simp: ygg_authenticate_def known_ops Let_def split: option.splits prod.splits sum.splits)
  next
    case (Renew t new body)
    then show ?thesis using Inl P known session rotate
      by (fastforce simp: ygg_refresh_def known_ops split: option.splits prod.splits)
  next
    case (Validate t body)
    then show ?thesis using Inl P known session by (auto simp: ygg_validate_def split: option.splits prod.splits)
  next
    case (Signout t body h peer)
    then show ?thesis using Inl P known frame
      by (auto simp: ygg_signout_def known_ops split: option.splits prod.splits sum.splits)
  next
    case (Join t body)
    show ?thesis
    proof (cases body)
      case (Some tc)
      obtain token srv where tc: "tc = (token, srv)" by fastforce
      obtain r g1 where s: "session_of (ygg_codec P) None (when_session t) token (game_state st) = (r, g1)" by fastforce
      have "J srv (game_identity s1) (when_store t)" if "r = Some s1"
          "CheckSubject (ygg_hwid P) (ygg_machines P) (when_bans t) (machine_identity (game_identity s1)) (gate_state st) (gate_store st) = None" for s1
        using join[of t token srv s1] session_of_live[of "ygg_codec P" "when_session t" token "game_state st"] Inl Join Some tc s that by simp
      then show ?thesis using Inl Join Some tc s P session[OF s]
        by (auto simp: ygg_join_def known_ops known_putJoin split: option.splits)
    qed (use Inl Join known in \<open>simp add: ygg_join_def\<close>)
  next
    case (HasJoined t name srv)
    then show ?thesis using Inl known_ops(8)[OF known, of "when_session t" srv]
      by (auto simp: ygg_hasJoined_def split: option.splits prod.splits)
  next
    case (AskProfile u)
    then show ?thesis using Inl P known_ops(9)[OF known, of "ygg_codec P" u]
      by (auto simp: ygg_getProfile_def split: option.splits prod.splits)
  qed (use Inl P known in \<open>auto simp: ygg_invalidate_def known_ops split: option.splits\<close>)
qed

lemma joins_are_accepted:
  assumes P: "ygg_remote P = None" and empty: "game_sessions (game_state st0) = []" "joins (game_state st0) = []"
  shows "known_joins (accepted_join P st0 ops) (game_state (game_run P ops st0))"
proof (induction ops rule: rev_induct)
  case Nil
  then show ?case using empty by (simp add: game_run_def known_joins_def)
next
  case (snoc opn ops)
  let ?st = "game_run P ops st0"
  have more: "known_joins (accepted_join P st0 (ops @ [opn])) (game_state ?st)"
    using snoc accepted_more unfolding known_joins_def by blast
  have "accepted_join P st0 (ops @ [opn]) srv (game_identity s) (when_store t)"
    if "opn = Inl (Join t (Some (token, srv)))"
      "session_of (ygg_codec P) None (when_session t) token (game_state ?st) = (Some s, game_state ?st)"
      "CheckSubject (ygg_hwid P) (ygg_machines P) (when_bans t) (machine_identity (game_identity s)) (gate_state ?st) (gate_store ?st) = None"
    for t token srv s
  proof -
    have "token_from P st0 ops token (game_identity s)"
      using tokens_are_from[OF P empty(1), of ops] session_of_live[OF that(2)] by blast
    then show ?thesis unfolding accepted_join_def using that P
      by (intro exI[of _ ops] exI[of _ t] exI[of _ token] exI[of _ s] exI[of _ "[]"]) simp
  qed
  from known_step[OF P more this] show ?case by (simp add: game_run_snoc)
qed

text \<open>
  C14: With the store in memory, empty at the start, and requests one at a time: when the server of a game is
  told that a player has joined, the name is the one it asked about, and within the last thirty seconds a
  request to join that very server came with a live token of the player, who was not banned then; and that
  very token goes back to a sign-in with the password, in which the ticket of the launcher and the bans let the
  player pass: it was drawn there, or renewed from a token that was, and no request has ended it or any token
  it was renewed from before it was used.
\<close>

theorem joined_players_signed_in:
  assumes "ygg_remote P = None" "game_sessions (game_state st0) = []" "joins (game_state st0) = []"
    and "fst (game_step P (Inl (HasJoined t name srv)) (game_run P ops st0)) = GameProfile i"
  shows "equal_fold (ygg_codec P) (username i) name \<and>
    (\<exists>tm. when_session t \<le> tm + 30 * second \<and> accepted_join P st0 ops srv i tm)"
proof -
  obtain r g1 where j: "join_of (when_session t) srv (game_state (game_run P ops st0)) = (r, g1)" by fastforce
  have r: "r = Some i" "equal_fold (ygg_codec P) (username i) name"
    using assms(4) j by (auto simp: ygg_hasJoined_def split: option.splits if_splits)
  then show ?thesis using known_join_of[OF j[unfolded r(1)] joins_are_accepted[OF assms(1-3), of ops]] by (auto simp: joinTTL_def)
qed

section \<open>A player that joins\<close>

definition sample_ygg :: "(memory_sessions, unit, unit, memory_store, string, string) ygg" where
  "sample_ygg = \<lparr>ygg_codec = \<lparr>encode_session = (\<lambda>c i. c), decode_session = (\<lambda>_. None), encode_identity = (\<lambda>i. username i),
       decode_identity = (\<lambda>_. None), print_uuid = (\<lambda>_. ''id''), md5_of = (\<lambda>_. []), equal_fold = (=), lower_name = (\<lambda>s. s)\<rparr>,
     ygg_remote = None, ygg_service = sample_service, ygg_hwid = sample_hwid, ygg_machines = memory_ops (=),
     ygg_redis = \<lparr>r_get = \<lambda>_ w. (Inr None, w), r_set_nx = \<lambda>_ _ _ w. (Inr True, w), r_incr = \<lambda>_ w. (Inr 1, w),
       r_expire = \<lambda>_ _ w. (Inr (), w), r_ping = \<lambda>w. (Inr (), w)\<rparr>,
     ygg_fold = (\<lambda>s. s), ygg_addr = sample_addresses, ygg_proxies = None\<rparr>"

definition empty_ygg :: "(unit, unit, memory_store) ygg_state" where
  "empty_ygg = \<lparr>game_state = newStore (), game_limits = None, game_limits_redis = (), gate_state = None, gate_store = NewMemoryStore\<rparr>"

definition game_time :: "instant \<Rightarrow> game_times" where
  "game_time t = \<lparr>when_limits = t, when_failed = t, when_ticket = t, when_bans = t, when_session = t, when_sweep = t, when_store = t\<rparr>"

definition amy_signs_in :: "game_op + (gate option \<times> memory_store)" where
  "amy_signs_in = Inl (Authenticate (game_time 1) (''c'', ''tok'')
     (Some \<lparr>SignName = ''amy'', SignPassword = ''pw'', SignClient = [], SignCode = []\<rparr>) (\<lambda>_. []) ''ip'')"

definition amy_joins :: "game_op + (gate option \<times> memory_store)" where
  "amy_joins = Inl (Join (game_time 2) (Some (''tok'', ''server'')))"

lemmas ygg_sample_defs = sample_ygg_def empty_ygg_def game_time_def amy_signs_in_def amy_joins_def newStore_def game_run_def

lemma sample_signed_in:
  "game_run sample_ygg [amy_signs_in] empty_ygg = empty_ygg\<lparr>game_state := \<lparr>game_sessions = [(''tok'',
     \<lparr>clientToken = ''c'', game_identity = \<lparr>subject = ''amy'', username = ''amy'', iuuid = []\<rparr>, game_expires = 1 + tokenTTL\<rparr>)],
     joins = [], profiles = [''id'' \<mapsto> \<lparr>subject = ''amy'', username = ''amy'', iuuid = []\<rparr>], remote_state = ()\<rparr>\<rparr>"
proof -
  have d: "dashless_uuid (ygg_codec sample_ygg) u = ''id''" for u by (simp add: dashless_uuid_def dashless_def sample_ygg_def)
  show ?thesis using d
    by (simp add: ygg_sample_defs ygg_authenticate_def check_password_def SignInAllowed_def sample_service_def VerifyTicket_def
        CheckSubject_def putSession_def rememberProfile_def Let_def maxLiveRecords_def)
qed

lemma joined_players_signed_in_witness:
  "\<exists>tm. accepted_join sample_ygg empty_ygg [amy_signs_in, amy_joins] ''server'' \<lparr>subject = ''amy'', username = ''amy'', iuuid = []\<rparr> tm \<and>
     3 \<le> tm + 30 * second"
proof -
  have two: "game_run sample_ygg [amy_signs_in, amy_joins] empty_ygg =
      snd (game_step sample_ygg amy_joins (game_run sample_ygg [amy_signs_in] empty_ygg))"
    by (simp add: game_run_def)
  have "fst (game_step sample_ygg (Inl (HasJoined (game_time 3) ''amy'' ''server'')) (game_run sample_ygg [amy_signs_in, amy_joins] empty_ygg)) =
      GameProfile \<lparr>subject = ''amy'', username = ''amy'', iuuid = []\<rparr>"
    unfolding two sample_signed_in
    by (simp add: ygg_sample_defs ygg_join_def ygg_hasJoined_def session_of_def CheckSubject_def putJoin_def rememberProfile_def join_of_def
        tokenTTL_def hour_def minute_def second_def joinTTL_def maxLiveRecords_def Let_def)
  from joined_players_signed_in[OF _ _ _ this] show ?thesis
    by (auto simp: sample_ygg_def empty_ygg_def newStore_def game_time_def)
qed

lemma ended_game_tokens_stay_dead_witness:
  "fst (game_step sample_ygg amy_joins (game_run sample_ygg [Inl (AskProfile ''id'')]
     (snd (game_step sample_ygg (Inl (Invalidate (game_time 2) (Some ''tok''))) (game_run sample_ygg [amy_signs_in] empty_ygg))))) = InvalidToken"
  using ended_game_tokens_stay_dead[of sample_ygg "game_run sample_ygg [amy_signs_in] empty_ygg" "''tok''"
      "Invalidate (game_time 2) (Some ''tok'')" "[Inl (AskProfile ''id'')]" "game_time 2" "[]" "[]" "''server''"]
  unfolding sample_signed_in
  by (simp add: sample_ygg_def ends_token_def draws_token_def Let_def keys_ok_def amy_joins_def)

text \<open>
  A store in Redis that answers reads and fails to write, as in a loss of its disk: the token that is given
  back is answered as gone, and is valid afterwards.
\<close>

definition stuck_redis :: "unit game_redis" where
  "stuck_redis = \<lparr>q_exec = (\<lambda>_ w. (Inl ''read only'', w)), q_get = (\<lambda>_ w. (Inr (Some ''amy''), w)),
     q_ttl = (\<lambda>_ w. (Inr hour, w)), q_members = (\<lambda>_ w. (Inr [''tok''], w))\<rparr>"

definition redis_ygg :: "(memory_sessions, unit, unit, memory_store, string, string) ygg" where
  "redis_ygg = sample_ygg\<lparr>ygg_remote := Some stuck_redis,
     ygg_codec := (ygg_codec sample_ygg)\<lparr>decode_session := (\<lambda>s. Some (''c'', \<lparr>subject = s, username = s, iuuid = []\<rparr>))\<rparr>\<rparr>"

lemma failing_redis_keeps_token:
  "fst (ygg_invalidate redis_ygg (game_time 2) (Some ''tok'') empty_ygg) = NoContent \<and>
   fst (ygg_validate redis_ygg (game_time 3) (Some (''tok'', [])) (snd (ygg_invalidate redis_ygg (game_time 2) (Some ''tok'') empty_ygg))) = NoContent"
  by (simp add: ygg_invalidate_def ygg_validate_def redis_ygg_def sample_ygg_def stuck_redis_def deleteSession_def redis_remove_def redis_get_def
      session_of_def empty_ygg_def newStore_def game_time_def)

end
