(* ===== verification/Accounts.thy ===== *)
theory Accounts
  imports Sessions Totp Skin "HOL-Library.Countable"
begin

text \<open>
  The account sources (packages \<open>auth/providers\<close> and \<open>auth/hash\<close>): schemes of password hashes, the JSON file
  of accounts with its administration, the SQL source and the HTTP source.

  Parameters are argon2id, bcrypt and the digests, the codec of JSON, parsing and printing a UUID, MD5, the
  rows of the database and the answer of the HTTP source. Salts are arguments.

  The file of accounts is held in memory as Go holds it: the list of records and the map of users point to
  the same objects, so the model keeps the objects in a list and lets both name them by index.

  The theorems: the file behaves as a map from names to passwords under every run of its operations, with the
  changes a failed write leaves in memory as a second map; a sign-in needs the stored password. The runs take
  one call at a time: in the code an operation reads the file before it takes the lock, so two operations
  may overlap there. Second factors are modelled and left out of the runs.
\<close>

section \<open>Password hashes\<close>

record hash_env =
  argon_compare :: "string \<Rightarrow> string \<Rightarrow> (string, bool) result"
  argon_create :: "string \<Rightarrow> string \<Rightarrow> (string, string) result"
  bcrypt_compare :: "string \<Rightarrow> string \<Rightarrow> (string, bool) result"
  bcrypt_generate :: "string \<Rightarrow> int \<Rightarrow> string \<Rightarrow> (string, string) result"
  md5_hex :: "string \<Rightarrow> string"
  sha256_hex :: "string \<Rightarrow> string"
  sha512_hex :: "string \<Rightarrow> string"
  lower_rest :: "string \<Rightarrow> string"

definition scheme_names :: "string list" where
  "scheme_names = [''argon2id'', ''bcrypt'', ''md5'', ''plain'', ''sha256'', ''sha512'']"

definition constantTimeHexEqual :: "hash_env \<Rightarrow> string \<Rightarrow> string \<Rightarrow> bool" where
  "constantTimeHexEqual H digest stored \<longleftrightarrow> digest = to_lower (lower_rest H) stored"

text \<open>\<open>None\<close>: no such scheme.\<close>

definition hash_verify :: "hash_env \<Rightarrow> string \<Rightarrow> (string \<Rightarrow> string \<Rightarrow> (string, bool) result) option" where
  "hash_verify H scheme =
     (if scheme = ''argon2id'' then Some (argon_compare H)
      else if scheme = ''bcrypt'' then Some (bcrypt_compare H)
      else if scheme = ''md5'' then Some (\<lambda>password stored. Inr (constantTimeHexEqual H (md5_hex H password) stored))
      else if scheme = ''plain'' then Some (\<lambda>password stored. Inr (password = stored))
      else if scheme = ''sha256'' then Some (\<lambda>password stored. Inr (constantTimeHexEqual H (sha256_hex H password) stored))
      else if scheme = ''sha512'' then Some (\<lambda>password stored. Inr (constantTimeHexEqual H (sha512_hex H password) stored))
      else None)"

definition bcrypt_default :: int where "bcrypt_default = 10"
definition bcrypt_min :: int where "bcrypt_min = 4"
definition bcrypt_max :: int where "bcrypt_max = 31"

definition AcceptsCost :: "string \<Rightarrow> bool" where
  "AcceptsCost scheme \<longleftrightarrow> scheme = ''bcrypt''"

definition HashCost :: "hash_env \<Rightarrow> string \<Rightarrow> int \<Rightarrow> string \<Rightarrow> (string, string) result" where
  "HashCost H password cost salt =
     (if cost < bcrypt_min \<or> cost > bcrypt_max then Inl ''cost'' else bcrypt_generate H password cost salt)"

definition ProduceCost :: "hash_env \<Rightarrow> string \<Rightarrow> string \<Rightarrow> int \<Rightarrow> string \<Rightarrow> (string, string) result" where
  "ProduceCost H scheme password cost salt =
     (if scheme \<notin> set scheme_names then Inl ''scheme''
      else if cost > 0 then (if AcceptsCost scheme then HashCost H password cost salt else Inl ''no cost'')
      else if scheme = ''argon2id'' then argon_create H password salt
      else if scheme = ''bcrypt'' then bcrypt_generate H password bcrypt_default salt
      else if scheme = ''md5'' then Inr (md5_hex H password)
      else if scheme = ''plain'' then Inr password
      else if scheme = ''sha256'' then Inr (sha256_hex H password)
      else Inr (sha512_hex H password))"

definition Weakness :: "string \<Rightarrow> bool" where
  "Weakness scheme \<longleftrightarrow> scheme \<in> {''plain'', ''md5'', ''sha256'', ''sha512''}"

subsection \<open>Recognising a hash\<close>

record detected =
  Scheme :: string
  Cost :: int
  Parameters :: string
  Supported :: bool

definition is_hex :: "char \<Rightarrow> bool" where
  "is_hex c \<longleftrightarrow> is_digit c \<or> c \<in> set ''abcdefABCDEF''"

definition detectHex :: "(string \<Rightarrow> string) \<Rightarrow> string \<Rightarrow> string option" where
  "detectHex lower stored =
     (let s = to_lower lower stored in
      if \<not> list_all is_hex s \<or> odd (length s) then None
      else if length s = 32 then Some ''md5''
      else if length s = 64 then Some ''sha256''
      else if length s = 128 then Some ''sha512''
      else None)"

definition detectArgon :: "string \<Rightarrow> detected option" where
  "detectArgon stored =
     (let parts = split_on CHR ''$'' stored in
      if length parts < 4 then None
      else Some \<lparr>Scheme = parts ! 1, Cost = 0,
        Parameters = (case List.find (\<lambda>p. has_prefix p ''m='') (drop 2 parts) of None \<Rightarrow> [] | Some p \<Rightarrow> p),
        Supported = (parts ! 1 = ''argon2id'')\<rparr>)"

definition detectBcrypt :: "string \<Rightarrow> detected option" where
  "detectBcrypt stored =
     (let parts = split_on CHR ''$'' stored in
      if length parts < 4 then None
      else if parts ! 1 \<notin> {''2'', ''2a'', ''2b'', ''2x'', ''2y''} then None
      else (case atoi (parts ! 2) of
          None \<Rightarrow> None
        | Some cost \<Rightarrow> Some \<lparr>Scheme = ''bcrypt'', Cost = cost, Parameters = [], Supported = True\<rparr>))"

definition Detect :: "(string \<Rightarrow> string) \<Rightarrow> string \<Rightarrow> detected option" where
  "Detect lower stored =
     (let t = trim_space stored in
      if t = [] then None
      else if has_prefix t ''$argon2'' then detectArgon t
      else if has_prefix t ''$2'' then detectBcrypt t
      else map_option (\<lambda>s. \<lparr>Scheme = s, Cost = 0, Parameters = [], Supported = True\<rparr>) (detectHex lower t))"

section \<open>JSON values\<close>

text \<open>A number is only asked whether it is zero.\<close>

datatype json = JNull | JBool bool | JNumber int | JString string | JArray "json list" | JObject "(string \<times> json) list"

type_synonym json_record = "(string, json) amap"

definition text_of :: "json option \<Rightarrow> string" where
  "text_of v = (case v of Some (JString s) \<Rightarrow> s | _ \<Rightarrow> [])"

section \<open>The file of accounts\<close>

record account_env =
  hashes :: hash_env
  totp_of :: totp_env
  read_records :: "string \<Rightarrow> json_record list option"
  print_records :: "json_record list \<Rightarrow> string"
  parse_uuid :: "string \<Rightarrow> uuid option"
  format_uuid :: "uuid \<Rightarrow> string"
  md5_bytes :: "string \<Rightarrow> 8 word list"
  lower_names :: "string \<Rightarrow> string"

record account_config =
  account_scheme :: string
  usernameKey :: string
  passwordKey :: string
  uuidKey :: string
  secretKey :: string

type_synonym stamp = "int \<times> int"

text \<open>The file: its text, \<open>None\<close> when it cannot be read, and its size and time.\<close>

record account_disk =
  account_text :: "string option"
  account_stamp :: stamp

record account_state =
  objects :: "json_record list"
  listed :: "nat list"
  users :: "string \<Rightarrow> nat option"
  loaded_stamp :: stamp
  second_factor :: Totp.verifier

datatype account_error = CannotRead | CannotParse | BadSecret string | Taken string | NoAccount string | HashFailed string
  | BadUUID string | CannotWrite

definition orDefault :: "string \<Rightarrow> string \<Rightarrow> string" where
  "orDefault v fallback = (if v = [] then fallback else v)"

definition record_name :: "account_config \<Rightarrow> json_record \<Rightarrow> string" where
  "record_name C r = text_of (lookup r (usernameKey C))"

text \<open>A secret that is there must be a text that is not blank.\<close>

definition bad_secret :: "account_config \<Rightarrow> json_record \<Rightarrow> bool" where
  "bad_secret C r =
     (case lookup r (secretKey C) of
        None \<Rightarrow> False | Some JNull \<Rightarrow> False
      | Some (JString s) \<Rightarrow> trim_space s = []
      | Some _ \<Rightarrow> True)"

fun load_users :: "account_config \<Rightarrow> nat \<Rightarrow> json_record list \<Rightarrow> (string \<Rightarrow> nat option) \<Rightarrow> (account_error, string \<Rightarrow> nat option) result" where
  "load_users C n [] us = Inr us"
| "load_users C n (r # rs) us =
     (if bad_secret C r then Inl (BadSecret (record_name C r))
      else load_users C (Suc n) rs (if record_name C r = [] then us else us(record_name C r \<mapsto> n)))"

text \<open>The stamp is taken after the file has been read.\<close>

definition load :: "account_env \<Rightarrow> account_config \<Rightarrow> account_disk \<Rightarrow> stamp \<Rightarrow> account_state \<Rightarrow> account_error option \<times> account_state" where
  "load E C d st_after a =
     (case account_text d of
        None \<Rightarrow> (Some CannotRead, a)
      | Some s \<Rightarrow>
          (case read_records E s of
             None \<Rightarrow> (Some CannotParse, a)
           | Some rs \<Rightarrow>
               (case load_users C 0 rs (\<lambda>_. None) of
                  Inl e \<Rightarrow> (Some e, a)
                | Inr us \<Rightarrow> (None, a\<lparr>objects := rs, listed := [0 ..< length rs], users := us, loaded_stamp := st_after\<rparr>))))"

definition user_record :: "account_state \<Rightarrow> string \<Rightarrow> json_record option" where
  "user_record a name = map_option (\<lambda>i. objects a ! i) (users a name)"

definition record_of :: "account_env \<Rightarrow> account_config \<Rightarrow> account_disk \<Rightarrow> string \<Rightarrow> account_state \<Rightarrow> json_record option \<times> account_state" where
  "record_of E C d name a =
     (if loaded_stamp a = account_stamp d then (user_record a name, a)
      else (case load E C d (account_stamp d) a of
          (Some e, _) \<Rightarrow> (user_record a name, a)
        | (None, a') \<Rightarrow> (user_record a' name, a')))"

definition identityUUID :: "account_env \<Rightarrow> json_record \<Rightarrow> string \<Rightarrow> string \<Rightarrow> uuid" where
  "identityUUID E r k name =
     (case lookup r k of
        Some (JString s) \<Rightarrow> (case parse_uuid E s of Some u \<Rightarrow> u | None \<Rightarrow> OfflineUUID (md5_bytes E) name)
      | _ \<Rightarrow> OfflineUUID (md5_bytes E) name)"

definition verify_password :: "account_env \<Rightarrow> string \<Rightarrow> string \<Rightarrow> string \<Rightarrow> (string, bool) result" where
  "verify_password E scheme password stored =
     (case hash_verify (hashes E) scheme of None \<Rightarrow> Inl ''scheme'' | Some f \<Rightarrow> f password stored)"

text \<open>The second factor, where the account has a secret: the answer and the state of the verifier.\<close>

definition check_second ::
    "account_env \<Rightarrow> int \<Rightarrow> credentials \<Rightarrow> string \<Rightarrow> Totp.verifier \<Rightarrow> provider_error option \<times> Totp.verifier" where
  "check_second E unix creds sec v =
     (if trim_space sec = [] then (None, v)
      else if ctwofactor creds = [] then (Some PTwoFactorRequired, v)
      else (case verifier_verify (totp_of E) unix (cusername creds) sec (ctwofactor creds) v of
          (ok, v) \<Rightarrow> (if ok then None else Some PInvalidCredentials, v)))"

definition identity_of :: "string \<Rightarrow> uuid \<Rightarrow> identity" where
  "identity_of name u = \<lparr>subject = name, username = name, iuuid = u\<rparr>"

definition file_Authenticate ::
    "account_env \<Rightarrow> account_config \<Rightarrow> account_disk \<Rightarrow> int \<Rightarrow> credentials \<Rightarrow> account_state \<Rightarrow> (provider_error, identity) result \<times> account_state" where
  "file_Authenticate E C d unix creds a =
     (case record_of E C d (cusername creds) a of
        (None, a) \<Rightarrow> (Inl PInvalidCredentials, a)
      | (Some r, a) \<Rightarrow>
          (case verify_password E (account_scheme C) (cpassword creds) (text_of (lookup r (passwordKey C))) of
             Inl e \<Rightarrow> (Inl (POther e), a)
           | Inr False \<Rightarrow> (Inl PInvalidCredentials, a)
           | Inr True \<Rightarrow>
               (case check_second E unix creds (text_of (lookup r (secretKey C))) (second_factor a) of
                  (Some e, v) \<Rightarrow> (Inl e, a\<lparr>second_factor := v\<rparr>)
                | (None, v) \<Rightarrow> (Inr (identity_of (cusername creds) (identityUUID E r (uuidKey C) (cusername creds))), a\<lparr>second_factor := v\<rparr>))))"

text \<open>
  \<open>save\<close>: the records in the order of the list; \<open>written\<close> is the stamp of the new file, \<open>None\<close> when writing fails.
\<close>

definition save :: "account_env \<Rightarrow> stamp option \<Rightarrow> account_disk \<times> account_state \<Rightarrow> bool \<times> account_disk \<times> account_state" where
  "save E written da =
     (case da of (d, a) \<Rightarrow>
       (case written of
          None \<Rightarrow> (False, d, a)
        | Some s \<Rightarrow> (True, \<lparr>account_text = Some (print_records E (map (\<lambda>i. objects a ! i) (listed a))), account_stamp = s\<rparr>, a\<lparr>loaded_stamp := s\<rparr>)))"

definition file_Add ::
    "account_env \<Rightarrow> account_config \<Rightarrow> string \<Rightarrow> stamp option \<Rightarrow> string \<Rightarrow> string \<Rightarrow> string \<Rightarrow> account_disk \<times> account_state \<Rightarrow>
     (account_error, identity) result \<times> account_disk \<times> account_state" where
  "file_Add E C salt written name password wanted da =
     (case da of (d, a) \<Rightarrow>
       (case load E C d (account_stamp d) a of
          (Some e, a) \<Rightarrow> (Inl e, d, a)
        | (None, a) \<Rightarrow>
            if users a name \<noteq> None then (Inl (Taken name), d, a)
            else (case ProduceCost (hashes E) (account_scheme C) password 0 salt of
                Inl e \<Rightarrow> (Inl (HashFailed e), d, a)
              | Inr digest \<Rightarrow>
                  (let parsed = (if trim_space wanted = [] then Some (OfflineUUID (md5_bytes E) name) else parse_uuid E wanted) in
                   case parsed of
                     None \<Rightarrow> (Inl (BadUUID wanted), d, a)
                   | Some u \<Rightarrow>
                       (let r = store (uuidKey C) (JString (format_uuid E u))
                              (store (passwordKey C) (JString digest) (store (usernameKey C) (JString name) []));
                            n = length (objects a);
                            a = a\<lparr>objects := objects a @ [r], listed := listed a @ [n], users := (users a)(name \<mapsto> n)\<rparr>
                        in case save E written (d, a) of
                             (False, d, a) \<Rightarrow> (Inl CannotWrite, d, a)
                           | (True, d, a) \<Rightarrow> (Inr (identity_of name u), d, a))))))"

definition file_SetPassword ::
    "account_env \<Rightarrow> account_config \<Rightarrow> string \<Rightarrow> stamp option \<Rightarrow> string \<Rightarrow> string \<Rightarrow> account_disk \<times> account_state \<Rightarrow>
     account_error option \<times> account_disk \<times> account_state" where
  "file_SetPassword E C salt written name password da =
     (case da of (d, a) \<Rightarrow>
       (case load E C d (account_stamp d) a of
          (Some e, a) \<Rightarrow> (Some e, d, a)
        | (None, a) \<Rightarrow>
            (case users a name of
               None \<Rightarrow> (Some (NoAccount name), d, a)
             | Some i \<Rightarrow>
                 (case ProduceCost (hashes E) (account_scheme C) password 0 salt of
                    Inl e \<Rightarrow> (Some (HashFailed e), d, a)
                  | Inr digest \<Rightarrow>
                      (let a = a\<lparr>objects := (objects a)[i := store (passwordKey C) (JString digest) (objects a ! i)]\<rparr>
                       in case save E written (d, a) of
                            (False, d, a) \<Rightarrow> (Some CannotWrite, d, a)
                          | (True, d, a) \<Rightarrow> (None, d, a))))))"

definition file_Remove ::
    "account_env \<Rightarrow> account_config \<Rightarrow> stamp option \<Rightarrow> string \<Rightarrow> account_disk \<times> account_state \<Rightarrow> account_error option \<times> account_disk \<times> account_state" where
  "file_Remove E C written name da =
     (case da of (d, a) \<Rightarrow>
       (case load E C d (account_stamp d) a of
          (Some e, a) \<Rightarrow> (Some e, d, a)
        | (None, a) \<Rightarrow>
            if users a name = None then (Some (NoAccount name), d, a)
            else (let a = a\<lparr>listed := filter (\<lambda>i. record_name C (objects a ! i) \<noteq> name) (listed a), users := (users a)(name := None)\<rparr>
                  in case save E written (d, a) of
                       (False, d, a) \<Rightarrow> (Some CannotWrite, d, a)
                     | (True, d, a) \<Rightarrow> (None, d, a))))"

text \<open>\<open>sort.Slice\<close> leaves the order of equal names open; the model keeps the order of the file.\<close>

definition file_List ::
    "account_env \<Rightarrow> account_config \<Rightarrow> account_disk \<Rightarrow> account_state \<Rightarrow> (account_error, identity list) result \<times> account_state" where
  "file_List E C d a =
     (case load E C d (account_stamp d) a of
        (Some e, a) \<Rightarrow> (Inl e, a)
      | (None, a) \<Rightarrow>
          (Inr (sort_key (\<lambda>i. to_lower (lower_names E) (username i))
             (map (\<lambda>r. identity_of (record_name C r) (identityUUID E r (uuidKey C) (record_name C r)))
               (filter (\<lambda>r. record_name C r \<noteq> []) (map (\<lambda>i. objects a ! i) (listed a))))), a))"

definition newJSONFile :: "account_env \<Rightarrow> account_config \<Rightarrow> account_disk \<Rightarrow> (account_error, account_config \<times> account_state) result" where
  "newJSONFile E raw d =
     (let C = \<lparr>account_scheme = orDefault (account_scheme raw) ''argon2id'', usernameKey = orDefault (usernameKey raw) ''username'',
            passwordKey = orDefault (passwordKey raw) ''password'', uuidKey = orDefault (uuidKey raw) ''uuid'',
            secretKey = orDefault (secretKey raw) ''totp''\<rparr> in
      if hash_verify (hashes E) (account_scheme C) = None then Inl (HashFailed ''scheme'')
      else (case load E C d (account_stamp d) \<lparr>objects = [], listed = [], users = (\<lambda>_. None), loaded_stamp = (0, 0), second_factor = []\<rparr> of
          (Some e, _) \<Rightarrow> Inl e
        | (None, a) \<Rightarrow> Inr (C, a)))"

section \<open>The SQL source\<close>

record account_fields =
  UsernameField :: string
  PasswordField :: string
  UuidField :: string
  SecretField :: string

record account_sql_config =
  AccountDriver :: string
  AccountTable :: string
  AccountHash :: string
  AccountFields :: account_fields
  AccountQuery :: string

record account_sql =
  account_query :: string
  custom :: bool
  hasUUID :: bool
  hasSecret :: bool
  sql_scheme :: string

datatype sql_fault = BadDriver | BadScheme | SecretNeedsTable | BadField

text \<open>An optional column after the ones before it.\<close>

definition more_columns :: "char \<Rightarrow> string \<Rightarrow> string \<Rightarrow> string list \<Rightarrow> string list option" where
  "more_columns q table field columns =
     (if field = [] then Some columns
      else (case Field table field of None \<Rightarrow> None | Some (_, c) \<Rightarrow> Some (columns @ [quote_name q c])))"

definition account_select :: "char \<Rightarrow> string \<Rightarrow> string list \<Rightarrow> string \<Rightarrow> string \<Rightarrow> string" where
  "account_select q place columns table column =
     ''SELECT '' @ join_text '', '' columns @ '' FROM '' @ quote_name q table @ '' WHERE '' @ quote_name q column @ '' = '' @ place"

definition newAccountSQL :: "account_env \<Rightarrow> account_sql_config \<Rightarrow> (sql_fault, account_sql) result" where
  "newAccountSQL E c =
     (case Dialect (AccountDriver c) of None \<Rightarrow> Inl BadDriver | Some (_, q, place) \<Rightarrow>
      (let scheme = orDefault (AccountHash c) ''argon2id''; f = AccountFields c in
       if hash_verify (hashes E) scheme = None then Inl BadScheme
       else if AccountQuery c \<noteq> [] then
         (if SecretField f \<noteq> [] then Inl SecretNeedsTable
          else Inr \<lparr>account_query = AccountQuery c, custom = True, hasUUID = False, hasSecret = False, sql_scheme = scheme\<rparr>)
       else (case Field (AccountTable c) (UsernameField f) of None \<Rightarrow> Inl BadField | Some (table, name_col) \<Rightarrow>
         (case Field (AccountTable c) (PasswordField f) of None \<Rightarrow> Inl BadField | Some (_, password_col) \<Rightarrow>
          (case more_columns q (AccountTable c) (UuidField f) [quote_name q password_col] of None \<Rightarrow> Inl BadField | Some columns \<Rightarrow>
           (case more_columns q (AccountTable c) (SecretField f) columns of None \<Rightarrow> Inl BadField | Some columns \<Rightarrow>
             Inr \<lparr>account_query = account_select q place columns table name_col, custom = False, hasUUID = (UuidField f \<noteq> []),
               hasSecret = (SecretField f \<noteq> []), sql_scheme = scheme\<rparr>))))))"

text \<open>What the database answers: an error, or the number of columns, the first row if there is one, and the error at the end of the rows.\<close>

type_synonym rows = "(string, nat \<times> sql_row option \<times> string option) result"

text \<open>The password of a row cannot be missing; the UUID and the secret can.\<close>

definition scan_account :: "bool \<Rightarrow> bool \<Rightarrow> sql_row \<Rightarrow> (string \<times> string option \<times> string option) option" where
  "scan_account with_uuid with_secret row =
     (if length row \<noteq> 1 + (if with_uuid then 1 else 0) + (if with_secret then 1 else 0) then None
      else (case hd row of
          None \<Rightarrow> None
        | Some stored \<Rightarrow> Some (stored, if with_uuid then row ! 1 else None, if with_secret then last row else None)))"

definition account_lookup :: "(string \<Rightarrow> string \<Rightarrow> rows) \<Rightarrow> account_sql \<Rightarrow> string \<Rightarrow> (provider_error, string \<times> string option \<times> string option) result" where
  "account_lookup ask p name =
     (case ask (account_query p) name of
        Inl e \<Rightarrow> Inl (POther e)
      | Inr (columns, row, late) \<Rightarrow>
          if \<not> custom p then
            (case row of
               None \<Rightarrow> (case late of Some e \<Rightarrow> Inl (POther e) | None \<Rightarrow> Inl PInvalidCredentials)
             | Some r \<Rightarrow> (case scan_account (hasUUID p) (hasSecret p) r of None \<Rightarrow> Inl (POther ''scan'') | Some x \<Rightarrow> Inr x))
          else if columns = 0 \<or> columns > 2 then Inl (POther ''columns'')
          else (case row of
              None \<Rightarrow> (case late of Some e \<Rightarrow> Inl (POther e) | None \<Rightarrow> Inl PInvalidCredentials)
            | Some r \<Rightarrow>
                (case scan_account (columns = 2) False r of
                   None \<Rightarrow> Inl (POther ''scan'')
                 | Some x \<Rightarrow> (case late of Some e \<Rightarrow> Inl (POther e) | None \<Rightarrow> Inr x))))"

definition sql_Authenticate ::
    "account_env \<Rightarrow> (string \<Rightarrow> string \<Rightarrow> rows) \<Rightarrow> account_sql \<Rightarrow> int \<Rightarrow> credentials \<Rightarrow> Totp.verifier \<Rightarrow> (provider_error, identity) result \<times> Totp.verifier" where
  "sql_Authenticate E ask p unix creds v =
     (case account_lookup ask p (cusername creds) of
        Inl e \<Rightarrow> (Inl e, v)
      | Inr (stored, raw_uuid, raw_secret) \<Rightarrow>
          (case verify_password E (sql_scheme p) (cpassword creds) stored of
             Inl e \<Rightarrow> (Inl (POther e), v)
           | Inr False \<Rightarrow> (Inl PInvalidCredentials, v)
           | Inr True \<Rightarrow>
               (case check_second E unix creds (if hasSecret p then trim_space (case raw_secret of None \<Rightarrow> [] | Some s \<Rightarrow> s) else []) v of
                  (Some e, v) \<Rightarrow> (Inl e, v)
                | (None, v) \<Rightarrow>
                    (Inr (identity_of (cusername creds)
                       (case Option.bind raw_uuid (parse_uuid E) of Some u \<Rightarrow> u | None \<Rightarrow> OfflineUUID (md5_bytes E) (cusername creds))), v))))"

section \<open>The HTTP source\<close>

definition maxAuthResponseBytes :: nat where "maxAuthResponseBytes = 2 ^ 20"

record http_source =
  usernameField :: string
  passwordField :: string
  codeField :: string
  uuidField :: string
  successField :: string
  secondFactorField :: string

definition newHTTP :: "string \<Rightarrow> http_source \<Rightarrow> http_source option" where
  "newHTTP url c =
     (if url = [] then None
      else Some (c\<lparr>usernameField := orDefault (usernameField c) ''username'', passwordField := orDefault (passwordField c) ''password'',
        codeField := orDefault (codeField c) ''totp''\<rparr>))"

definition http_body :: "http_source \<Rightarrow> credentials \<Rightarrow> (string, string) amap" where
  "http_body p creds =
     (let body = store (passwordField p) (cpassword creds) (store (usernameField p) (cusername creds) []) in
      if ctwofactor creds \<noteq> [] then store (codeField p) (ctwofactor creds) body else body)"

text \<open>A path of names through nested objects; nothing there is the null of JSON.\<close>

fun walk :: "json \<Rightarrow> string list \<Rightarrow> json" where
  "walk v [] = v"
| "walk (JObject o1) (p # ps) = (case map_of o1 p of None \<Rightarrow> JNull | Some v \<Rightarrow> walk v ps)"
| "walk _ (p # ps) = JNull"

definition json_lookup :: "json_record \<Rightarrow> string \<Rightarrow> json" where
  "json_lookup payload path = (if path = [] then JNull else walk (JObject payload) (split_on CHR ''.'' path))"

fun marked :: "json \<Rightarrow> bool" where
  "marked (JBool b) = b"
| "marked (JString s) = (s \<noteq> [] \<and> s \<noteq> ''false'' \<and> s \<noteq> ''0'')"
| "marked (JNumber n) = (n \<noteq> 0)"
| "marked JNull = False"
| "marked (JArray _) = True"
| "marked (JObject _) = True"

datatype http_answer = HttpFailed string | HttpAnswer int "string option"

text \<open>\<open>payload_of\<close> decodes the body into a map of names, which stays empty when it is no object.\<close>

definition http_Authenticate ::
    "account_env \<Rightarrow> (string \<Rightarrow> json_record) \<Rightarrow> http_source \<Rightarrow> ((string, string) amap \<Rightarrow> http_answer) \<Rightarrow> credentials \<Rightarrow> (provider_error, identity) result" where
  "http_Authenticate E payload_of p ask creds =
     (case ask (http_body p creds) of
        HttpFailed e \<Rightarrow> Inl (POther e)
      | HttpAnswer status None \<Rightarrow> Inl (POther ''body'')
      | HttpAnswer status (Some body) \<Rightarrow>
          (let data = take maxAuthResponseBytes body;
               payload = (if data = [] then [] else payload_of data);
               good = 200 \<le> status \<and> status < 300;
               accepted = good \<and> (successField p = [] \<or> marked (json_lookup payload (successField p)))
           in if accepted then
                Inr (identity_of (cusername creds)
                  (case json_lookup payload (uuidField p) of
                     JString s \<Rightarrow> (case parse_uuid E s of Some u \<Rightarrow> u | None \<Rightarrow> OfflineUUID (md5_bytes E) (cusername creds))
                   | _ \<Rightarrow> OfflineUUID (md5_bytes E) (cusername creds)))
              else if secondFactorField p \<noteq> [] \<and> marked (json_lookup payload (secondFactorField p)) then Inl PTwoFactorRequired
              else if status = 401 \<or> status = 403 then Inl PInvalidCredentials
              else if good then Inl PInvalidCredentials
              else Inl (POther (itoa status))))"

section \<open>The file is a map of accounts\<close>

text \<open>The abstract accounts: for every name the password and the UUID.\<close>

type_synonym accounts = "string \<Rightarrow> (string \<times> uuid) option"

datatype account_op = AddOp string string string string | PasswordOp string string string | RemoveOp string | SignInOp string string

datatype account_answer = Done | Refused | SignedInAs identity

text \<open>
  What each operation means, for two maps: the accounts in the file and those in memory. An operation reads the
  file, changes the accounts in memory and writes them; a write that fails (\<open>False\<close>) is answered as such, and
  memory keeps the change until the file is read again. A sign-in is answered from memory. The last argument
  of an added account is the UUID that was asked for.
\<close>

definition changed :: "bool \<Rightarrow> accounts \<Rightarrow> accounts \<Rightarrow> account_answer \<times> accounts \<times> accounts" where
  "changed written m m' = (if written then (Done, m', m') else (Refused, m, m'))"

fun spec_step :: "account_env \<Rightarrow> bool \<times> account_op \<Rightarrow> accounts \<times> accounts \<Rightarrow> account_answer \<times> accounts \<times> accounts" where
  "spec_step E (written, AddOp salt name password wanted) (m, n) =
     (if m name \<noteq> None then (Refused, m, m)
      else (case (if trim_space wanted = [] then Some (OfflineUUID (md5_bytes E) name) else parse_uuid E wanted) of
          None \<Rightarrow> (Refused, m, m)
        | Some u \<Rightarrow> changed written m (m(name \<mapsto> (password, u)))))"
| "spec_step E (written, PasswordOp salt name password) (m, n) =
     (case m name of None \<Rightarrow> (Refused, m, m) | Some (_, u) \<Rightarrow> changed written m (m(name \<mapsto> (password, u))))"
| "spec_step E (written, RemoveOp name) (m, n) = (if m name = None then (Refused, m, m) else changed written m (m(name := None)))"
| "spec_step E (written, SignInOp name password) (m, n) =
     (case n name of
        Some (p, u) \<Rightarrow> (if p = password then SignedInAs (identity_of name u) else Refused, m, n)
      | None \<Rightarrow> (Refused, m, n))"

text \<open>The file under the same operations: each write fails or gives the file a stamp.\<close>

type_synonym timed_op = "stamp option \<times> account_op"

fun file_step :: "account_env \<Rightarrow> account_config \<Rightarrow> timed_op \<Rightarrow> account_disk \<times> account_state \<Rightarrow> account_answer \<times> account_disk \<times> account_state" where
  "file_step E C (st, AddOp salt name password wanted) da =
     (case file_Add E C salt st name password wanted da of
        (Inl _, da) \<Rightarrow> (Refused, da) | (Inr _, da) \<Rightarrow> (Done, da))"
| "file_step E C (st, PasswordOp salt name password) da =
     (case file_SetPassword E C salt st name password da of (Some _, da) \<Rightarrow> (Refused, da) | (None, da) \<Rightarrow> (Done, da))"
| "file_step E C (st, RemoveOp name) da =
     (case file_Remove E C st name da of (Some _, da) \<Rightarrow> (Refused, da) | (None, da) \<Rightarrow> (Done, da))"
| "file_step E C (st, SignInOp name password) (d, a) =
     (case file_Authenticate E C d 0 \<lparr>cusername = name, cpassword = password, ctwofactor = []\<rparr> a of
        (Inr i, a) \<Rightarrow> (SignedInAs i, d, a) | (Inl _, a) \<Rightarrow> (Refused, d, a))"

definition written_op :: "timed_op \<Rightarrow> bool \<times> account_op" where
  "written_op x = (fst x \<noteq> None, snd x)"

fun run_with :: "('o \<Rightarrow> 's \<Rightarrow> 'r \<times> 's) \<Rightarrow> 'o list \<Rightarrow> 's \<Rightarrow> 'r list" where
  "run_with f [] s = []"
| "run_with f (x # xs) s = (case f x s of (r, s) \<Rightarrow> r # run_with f xs s)"

text \<open>The records of a file that its own operations have written.\<close>

definition keys_apart :: "account_config \<Rightarrow> bool" where
  "keys_apart C \<longleftrightarrow> distinct [usernameKey C, passwordKey C, uuidKey C, secretKey C]"

definition plain_record :: "account_env \<Rightarrow> account_config \<Rightarrow> json_record \<Rightarrow> string \<Rightarrow> string \<times> uuid \<Rightarrow> bool" where
  "plain_record E C r name pu \<longleftrightarrow> lookup r (usernameKey C) = Some (JString name) \<and> lookup r (secretKey C) = None \<and>
     (\<exists>stored. lookup r (passwordKey C) = Some (JString stored) \<and>
        (\<forall>p. verify_password E (account_scheme C) p stored = Inr (p = fst pu))) \<and>
     identityUUID E r (uuidKey C) name = snd pu"

definition records_mean :: "account_env \<Rightarrow> account_config \<Rightarrow> json_record list \<Rightarrow> accounts \<Rightarrow> bool" where
  "records_mean E C rs m \<longleftrightarrow> distinct (map (record_name C) rs) \<and>
     (\<forall>r \<in> set rs. record_name C r \<noteq> [] \<and> (\<exists>pu. m (record_name C r) = Some pu \<and> plain_record E C r (record_name C r) pu)) \<and>
     (\<forall>name. m name \<noteq> None \<longrightarrow> name \<in> record_name C ` set rs)"

text \<open>
  The state in memory stands for the second map when its stamp is the one of the file; otherwise the next
  sign-in reads the file.
\<close>

definition names_records :: "account_config \<Rightarrow> json_record list \<Rightarrow> account_state \<Rightarrow> bool" where
  "names_records C rs a \<longleftrightarrow> (\<forall>name. user_record a name = List.find (\<lambda>r. record_name C r = name) rs)"

definition memory_means :: "account_env \<Rightarrow> account_config \<Rightarrow> account_state \<Rightarrow> accounts \<Rightarrow> bool" where
  "memory_means E C a n \<longleftrightarrow> (\<forall>name. case n name of
     None \<Rightarrow> user_record a name = None
   | Some pu \<Rightarrow> \<exists>r. user_record a name = Some r \<and> plain_record E C r name pu)"

definition file_means :: "account_env \<Rightarrow> account_config \<Rightarrow> account_disk \<times> account_state \<Rightarrow> accounts \<times> accounts \<Rightarrow> bool" where
  "file_means E C da mn \<longleftrightarrow> (\<exists>rs. account_text (fst da) = Some (print_records E rs) \<and> records_mean E C rs (fst mn) \<and>
     (if loaded_stamp (snd da) = account_stamp (fst da) then memory_means E C (snd da) (snd mn) else snd mn = fst mn))"

text \<open>What is asked of the codec, the hash of the scheme and the printed UUIDs.\<close>

definition account_laws :: "account_env \<Rightarrow> account_config \<Rightarrow> bool" where
  "account_laws E C \<longleftrightarrow> keys_apart C \<and> (\<forall>rs. read_records E (print_records E rs) = Some rs) \<and>
     (\<forall>u. parse_uuid E (format_uuid E u) = Some u) \<and>
     (\<forall>salt p. \<exists>stored. ProduceCost (hashes E) (account_scheme C) p 0 salt = Inr stored \<and>
        (\<forall>q. verify_password E (account_scheme C) q stored = Inr (q = p)))"

lemma find_by_name: "distinct (map f rs) \<Longrightarrow> r \<in> set rs \<Longrightarrow> List.find (\<lambda>x. f x = f r) rs = Some r"
  by (induction rs) (auto simp: image_iff)

lemma find_no_name: "name \<notin> f ` set rs \<Longrightarrow> List.find (\<lambda>x. f x = name) rs = None"
  by (auto simp: find_None_iff)

text \<open>Every name leads to the record with that name, every other name to nothing.\<close>

definition index_ok :: "account_config \<Rightarrow> json_record list \<Rightarrow> json_record list \<Rightarrow> (string \<Rightarrow> nat option) \<Rightarrow> bool" where
  "index_ok C rs objs us \<longleftrightarrow>
     (\<forall>name i. us name = Some i \<longrightarrow> objs ! i \<in> set rs \<and> record_name C (objs ! i) = name) \<and>
     (\<forall>name. us name = None \<longrightarrow> name \<notin> record_name C ` set rs)"

lemma index_names:
  assumes "index_ok C rs (objects a) (users a)" "distinct (map (record_name C) rs)"
  shows "names_records C rs a"
  unfolding names_records_def
proof
  fix name
  show "user_record a name = List.find (\<lambda>r. record_name C r = name) rs"
  proof (cases "users a name")
    case None
    then have "name \<notin> record_name C ` set rs" using assms(1) unfolding index_ok_def by blast
    then show ?thesis using None find_no_name[of name "record_name C" rs] by (simp add: user_record_def)
  next
    case (Some k)
    then have "objects a ! k \<in> set rs" "record_name C (objects a ! k) = name" using assms(1) unfolding index_ok_def by blast+
    then show ?thesis using find_by_name[OF assms(2)] Some by (auto simp: user_record_def)
  qed
qed

lemma load_users_ok:
  assumes "\<forall>r \<in> set rs. \<not> bad_secret C r \<and> record_name C r \<noteq> []" "distinct (map (record_name C) rs)"
  shows "\<exists>us'. load_users C n rs us = Inr us' \<and>
    (\<forall>name i. us' name = Some i \<longrightarrow> name \<notin> record_name C ` set rs \<and> us name = Some i \<or>
       n \<le> i \<and> i < n + length rs \<and> record_name C (rs ! (i - n)) = name) \<and>
    (\<forall>name. us' name = None \<longrightarrow> us name = None \<and> name \<notin> record_name C ` set rs)"
  using assms
proof (induction rs arbitrary: n us)
  case (Cons r rs)
  let ?us = "us(record_name C r \<mapsto> n)"
  have "\<forall>r \<in> set rs. \<not> bad_secret C r \<and> record_name C r \<noteq> []" "distinct (map (record_name C) rs)" using Cons.prems by auto
  from Cons.IH[OF this, of "Suc n" ?us] obtain us' where us': "load_users C (Suc n) rs ?us = Inr us'"
    "\<And>name i. us' name = Some i \<Longrightarrow> name \<notin> record_name C ` set rs \<and> ?us name = Some i \<or>
       Suc n \<le> i \<and> i < Suc n + length rs \<and> record_name C (rs ! (i - Suc n)) = name"
    "\<And>name. us' name = None \<Longrightarrow> ?us name = None \<and> name \<notin> record_name C ` set rs" by blast
  have "load_users C n (r # rs) us = Inr us'" using us'(1) Cons.prems by simp
  moreover have "name \<notin> record_name C ` set (r # rs) \<and> us name = Some i \<or>
      n \<le> i \<and> i < n + length (r # rs) \<and> record_name C ((r # rs) ! (i - n)) = name" if "us' name = Some i" for name i
    using us'(2)[OF that]
  proof (elim disjE conjE)
    assume "name \<notin> record_name C ` set rs" "?us name = Some i"
    then show ?thesis by (cases "name = record_name C r") auto
  next
    assume "Suc n \<le> i" "i < Suc n + length rs" "record_name C (rs ! (i - Suc n)) = name"
    moreover from this have "i - n = Suc (i - Suc n)" by simp
    ultimately show ?thesis by simp
  qed
  moreover have "us name = None \<and> name \<notin> record_name C ` set (r # rs)" if "us' name = None" for name
    using us'(3)[OF that] by (cases "name = record_name C r") auto
  ultimately show ?case by blast
qed simp

lemma plain_record_good: "plain_record E C r name pu \<Longrightarrow> record_name C r = name \<and> \<not> bad_secret C r"
  by (simp add: plain_record_def record_name_def text_of_def bad_secret_def)

lemma load_means:
  assumes laws: "account_laws E C" and written: "account_text d = Some (print_records E rs)" and rs: "records_mean E C rs m"
  obtains us where "load E C d (account_stamp d) a =
      (None, a\<lparr>objects := rs, listed := [0 ..< length rs], users := us, loaded_stamp := account_stamp d\<rparr>)"
    "index_ok C rs rs us" "\<And>name i. us name = Some i \<Longrightarrow> i < length rs \<and> record_name C (rs ! i) = name"
proof -
  have "\<forall>r \<in> set rs. \<not> bad_secret C r \<and> record_name C r \<noteq> []" "distinct (map (record_name C) rs)"
    using rs plain_record_good unfolding records_mean_def by blast+
  from load_users_ok[OF this, of 0 "\<lambda>_. None"] obtain us where us: "load_users C 0 rs (\<lambda>_. None) = Inr us"
    "\<And>name i. us name = Some i \<Longrightarrow> i < length rs \<and> record_name C (rs ! i) = name"
    "\<And>name. us name = None \<Longrightarrow> name \<notin> record_name C ` set rs" by fastforce
  have "index_ok C rs rs us" unfolding index_ok_def using us(2,3) by (metis nth_mem)
  then show thesis using that us written laws by (simp add: load_def account_laws_def)
qed

lemma names_memory:
  assumes "names_records C rs a" "records_mean E C rs m"
  shows "memory_means E C a m"
  unfolding memory_means_def
proof
  fix name
  show "case m name of None \<Rightarrow> user_record a name = None | Some pu \<Rightarrow> \<exists>r. user_record a name = Some r \<and> plain_record E C r name pu"
  proof (cases "m name")
    case None
    then have "name \<notin> record_name C ` set rs" using assms(2) unfolding records_mean_def by force
    then show ?thesis using None find_no_name[of name "record_name C" rs] assms(1) by (simp add: names_records_def)
  next
    case (Some pu)
    then obtain r where r: "r \<in> set rs" "record_name C r = name" using assms(2) unfolding records_mean_def by blast
    have "List.find (\<lambda>x. record_name C x = name) rs = Some r"
      using find_by_name[of "record_name C" rs r] assms(2) r by (simp add: records_mean_def)
    moreover have "plain_record E C r name pu" using assms(2) r Some unfolding records_mean_def by fastforce
    ultimately show ?thesis using assms(1) Some by (simp add: names_records_def)
  qed
qed

lemma index_memory: "index_ok C rs (objects a) (users a) \<Longrightarrow> records_mean E C rs m \<Longrightarrow> memory_means E C a m"
  using index_names names_memory unfolding records_mean_def by blast

lemma memory_means_update [simp]:
  "memory_means E C (a\<lparr>loaded_stamp := s\<rparr>) n = memory_means E C a n"
  "memory_means E C (a\<lparr>second_factor := v\<rparr>) n = memory_means E C a n"
  by (simp_all add: memory_means_def user_record_def split: option.split)

lemma memory_meansD:
  assumes "memory_means E C a n"
  shows "n name = None \<Longrightarrow> user_record a name = None"
    "n name = Some pu \<Longrightarrow> \<exists>r. user_record a name = Some r \<and> plain_record E C r name pu"
  using assms[unfolded memory_means_def, rule_format, of name] by simp_all

text \<open>Reading gives both maps the accounts of the file; a failed write leaves the file and the change in memory.\<close>

lemma saved_means:
  assumes "map (\<lambda>i. objects a ! i) (listed a) = rs'" "records_mean E C rs' m'" "index_ok C rs' (objects a) (users a)"
    and "account_text d = Some (print_records E rs)" "records_mean E C rs m" "loaded_stamp a = account_stamp d"
  shows "\<exists>d' a'. save E s (d, a) = (s \<noteq> None, d', a') \<and> file_means E C (d', a') (snd (changed (s \<noteq> None) m m'))"
proof -
  have "memory_means E C a m'" using index_memory[OF assms(3,2)] .
  then show ?thesis using assms by (cases s) (auto simp: save_def file_means_def changed_def)
qed

lemma add_means:
  assumes laws: "account_laws E C" and name: "name \<noteq> []" and means: "file_means E C (d, a) (m, n)"
  shows "\<exists>da'. file_step E C (s, AddOp salt name password wanted) (d, a) = (fst (spec_step E (s \<noteq> None, AddOp salt name password wanted) (m, n)), da') \<and>
    file_means E C da' (snd (spec_step E (s \<noteq> None, AddOp salt name password wanted) (m, n)))"
proof -
  obtain rs where rs: "account_text d = Some (print_records E rs)" "records_mean E C rs m" using means by (auto simp: file_means_def)
  obtain us where l: "load E C d (account_stamp d) a =
      (None, a\<lparr>objects := rs, listed := [0 ..< length rs], users := us, loaded_stamp := account_stamp d\<rparr>)" (is "_ = (None, ?a)")
    "index_ok C rs rs us" "\<And>n i. us n = Some i \<Longrightarrow> i < length rs \<and> record_name C (rs ! i) = n"
    using load_means[OF laws rs, where a = a] by blast
  have mean: "file_means E C (d, ?a) (m, m)" using rs index_memory[of C rs ?a E m] l(2) by (auto simp: file_means_def)
  have taken: "us name = None \<longleftrightarrow> m name = None"
    using l(2) rs(2) unfolding index_ok_def records_mean_def by (metis image_iff not_Some_eq)
  obtain stored where h: "ProduceCost (hashes E) (account_scheme C) password 0 salt = Inr stored"
    "\<And>q. verify_password E (account_scheme C) q stored = Inr (q = password)" using laws unfolding account_laws_def by blast
  let ?parsed = "if trim_space wanted = [] then Some (OfflineUUID (md5_bytes E) name) else parse_uuid E wanted"
  show ?thesis
  proof (cases "m name = None \<and> ?parsed \<noteq> None")
    case False
    then show ?thesis using l(1) taken mean h(1) by (auto simp: file_Add_def Let_def)
  next
    case True
    then obtain u where u: "?parsed = Some u" by blast
    define r where "r = store (uuidKey C) (JString (format_uuid E u)) (store (passwordKey C) (JString stored) (store (usernameKey C) (JString name) []))"
    have r: "record_name C r = name" "plain_record E C r name (password, u)"
      using laws h(2) by (auto simp: r_def account_laws_def keys_apart_def plain_record_def record_name_def text_of_def identityUUID_def)
    have "us name = None" using taken True by simp
    then have new: "name \<notin> record_name C ` set rs" using l(2) unfolding index_ok_def by blast
    have mean': "records_mean E C (rs @ [r]) (m(name \<mapsto> (password, u)))"
      using rs(2) r new name unfolding records_mean_def by (auto simp: image_iff)
    let ?b = "?a\<lparr>objects := rs @ [r], listed := [0 ..< length rs] @ [length rs], users := us(name \<mapsto> length rs)\<rparr>"
    have "index_ok C (rs @ [r]) (rs @ [r]) (us(name \<mapsto> length rs))"
    proof -
      have "(rs @ [r]) ! i \<in> set (rs @ [r]) \<and> record_name C ((rs @ [r]) ! i) = n" if "(us(name \<mapsto> length rs)) n = Some i" for n i
        using l(3)[of n i] that r(1) by (cases "n = name") (auto simp: nth_append)
      moreover have "n \<notin> record_name C ` set (rs @ [r])" if "(us(name \<mapsto> length rs)) n = None" for n
        using l(2) that r(1) unfolding index_ok_def by (cases "n = name") auto
      ultimately show ?thesis unfolding index_ok_def by blast
    qed
    moreover have "map (\<lambda>i. objects ?b ! i) (listed ?b) = rs @ [r]" by (rule nth_equalityI) (auto simp: nth_append)
    ultimately obtain d' a' where "save E s (d, ?b) = (s \<noteq> None, d', a')"
        "file_means E C (d', a') (snd (changed (s \<noteq> None) m (m(name \<mapsto> (password, u)))))"
      using saved_means[of ?b "rs @ [r]" E C "m(name \<mapsto> (password, u))" d rs m s] mean' rs by auto
    then show ?thesis using l(1) taken True h(1) u r_def by (cases s) (auto simp: file_Add_def Let_def changed_def)
  qed
qed

lemma password_means:
  assumes laws: "account_laws E C" and means: "file_means E C (d, a) (m, n)"
  shows "\<exists>da'. file_step E C (s, PasswordOp salt name password) (d, a) = (fst (spec_step E (s \<noteq> None, PasswordOp salt name password) (m, n)), da') \<and>
    file_means E C da' (snd (spec_step E (s \<noteq> None, PasswordOp salt name password) (m, n)))"
proof -
  obtain rs where rs: "account_text d = Some (print_records E rs)" "records_mean E C rs m" using means by (auto simp: file_means_def)
  obtain us where l: "load E C d (account_stamp d) a =
      (None, a\<lparr>objects := rs, listed := [0 ..< length rs], users := us, loaded_stamp := account_stamp d\<rparr>)" (is "_ = (None, ?a)")
    "index_ok C rs rs us" "\<And>n i. us n = Some i \<Longrightarrow> i < length rs \<and> record_name C (rs ! i) = n"
    using load_means[OF laws rs, where a = a] by blast
  have mean: "file_means E C (d, ?a) (m, m)" using rs index_memory[of C rs ?a E m] l(2) by (auto simp: file_means_def)
  obtain stored where h: "ProduceCost (hashes E) (account_scheme C) password 0 salt = Inr stored"
    "\<And>q. verify_password E (account_scheme C) q stored = Inr (q = password)" using laws unfolding account_laws_def by blast
  show ?thesis
  proof (cases "us name")
    case None
    then have "m name = None" using l(2) rs(2) unfolding index_ok_def records_mean_def by blast
    then show ?thesis using l(1) None mean by (auto simp: file_SetPassword_def)
  next
    case (Some i)
    note i = l(3)[OF Some]
    then have "rs ! i \<in> set rs" by simp
    then obtain u p where m: "m name = Some (p, u)" and old: "plain_record E C (rs ! i) name (p, u)"
      using rs(2) i unfolding records_mean_def by (metis surj_pair)
    define r where "r = store (passwordKey C) (JString stored) (rs ! i)"
    have r: "record_name C r = name" "plain_record E C r name (password, u)"
      using laws old h(2) by (auto simp: r_def account_laws_def keys_apart_def plain_record_def record_name_def text_of_def identityUUID_def)
    let ?rs = "rs[i := r]"
    have names: "map (record_name C) ?rs = map (record_name C) rs" using i r(1) by (simp add: map_update list_update_same_conv)
    have dist: "distinct (map (record_name C) rs)" using rs(2) by (simp add: records_mean_def)
    have other: "x = r \<or> x \<in> set rs \<and> record_name C x \<noteq> name" if x: "x \<in> set ?rs" for x
    proof -
      obtain j where j: "j < length rs" "?rs ! j = x" using x by (metis in_set_conv_nth length_list_update)
      show ?thesis
      proof (cases "j = i")
        case True
        then show ?thesis using j by simp
      next
        case False
        then have "record_name C (rs ! j) \<noteq> name" using nth_eq_iff_index_eq[OF dist, of j i] j(1) i by simp
        then show ?thesis using j False by auto
      qed
    qed
    have mean': "records_mean E C ?rs (m(name \<mapsto> (password, u)))"
      unfolding records_mean_def
    proof (intro conjI ballI allI impI)
      show "distinct (map (record_name C) ?rs)" using names dist by simp
      fix x assume x: "x \<in> set ?rs"
      have "name \<noteq> []" using rs(2) i \<open>rs ! i \<in> set rs\<close> unfolding records_mean_def by blast
      then show "record_name C x \<noteq> []" using other[OF x] r rs(2) unfolding records_mean_def by blast
      show "\<exists>pu. (m(name \<mapsto> (password, u))) (record_name C x) = Some pu \<and> plain_record E C x (record_name C x) pu"
        using other[OF x]
      proof
        assume "x = r"
        then show ?thesis using r by simp
      next
        assume "x \<in> set rs \<and> record_name C x \<noteq> name"
        then show ?thesis using rs(2) unfolding records_mean_def by simp
      qed
    next
      fix n assume "(m(name \<mapsto> (password, u))) n \<noteq> None"
      then have "n \<in> record_name C ` set rs" using m rs(2) unfolding records_mean_def by (cases "n = name") auto
      then show "n \<in> record_name C ` set ?rs" using names by (metis list.set_map)
    qed
    let ?b = "?a\<lparr>objects := ?rs\<rparr>"
    have "index_ok C ?rs ?rs us"
      unfolding index_ok_def
    proof (intro conjI allI impI)
      fix n k assume n: "us n = Some k"
      have "k < length ?rs" using l(3)[OF n] by simp
      then show "?rs ! k \<in> set ?rs" by (rule nth_mem)
      show "record_name C (?rs ! k) = n" using l(3)[OF n] i r(1) by (cases "k = i") auto
    next
      fix n assume "us n = None"
      then have "n \<notin> record_name C ` set rs" using l(2) unfolding index_ok_def by blast
      then show "n \<notin> record_name C ` set ?rs" using names by (metis list.set_map)
    qed
    moreover have "map (\<lambda>k. objects ?b ! k) (listed ?b) = ?rs" using map_nth[of ?rs] by simp
    ultimately obtain d' a' where "save E s (d, ?b) = (s \<noteq> None, d', a')"
        "file_means E C (d', a') (snd (changed (s \<noteq> None) m (m(name \<mapsto> (password, u)))))"
      using saved_means[of ?b ?rs E C "m(name \<mapsto> (password, u))" d rs m s] mean' rs by auto
    then show ?thesis using l(1) Some m h(1) r_def by (cases s) (auto simp: file_SetPassword_def Let_def changed_def)
  qed
qed

lemma remove_means:
  assumes laws: "account_laws E C" and means: "file_means E C (d, a) (m, n)"
  shows "\<exists>da'. file_step E C (s, RemoveOp name) (d, a) = (fst (spec_step E (s \<noteq> None, RemoveOp name) (m, n)), da') \<and>
    file_means E C da' (snd (spec_step E (s \<noteq> None, RemoveOp name) (m, n)))"
proof -
  obtain rs where rs: "account_text d = Some (print_records E rs)" "records_mean E C rs m" using means by (auto simp: file_means_def)
  obtain us where l: "load E C d (account_stamp d) a =
      (None, a\<lparr>objects := rs, listed := [0 ..< length rs], users := us, loaded_stamp := account_stamp d\<rparr>)" (is "_ = (None, ?a)")
    "index_ok C rs rs us" "\<And>n i. us n = Some i \<Longrightarrow> i < length rs \<and> record_name C (rs ! i) = n"
    using load_means[OF laws rs, where a = a] by blast
  have mean: "file_means E C (d, ?a) (m, m)" using rs index_memory[of C rs ?a E m] l(2) by (auto simp: file_means_def)
  have known: "us name = None \<longleftrightarrow> m name = None"
    using l(2) rs(2) unfolding index_ok_def records_mean_def by (metis image_iff not_Some_eq)
  show ?thesis
  proof (cases "m name = None")
    case True
    then show ?thesis using l(1) known mean by (auto simp: file_Remove_def)
  next
    case False
    let ?rs = "filter (\<lambda>r. record_name C r \<noteq> name) rs"
    have mean': "records_mean E C ?rs (m(name := None))"
      unfolding records_mean_def
    proof (intro conjI ballI allI impI)
      show "distinct (map (record_name C) ?rs)" using rs(2) by (auto simp: records_mean_def distinct_map inj_on_def)
      fix x assume x: "x \<in> set ?rs"
      then show "record_name C x \<noteq> []" "\<exists>pu. (m(name := None)) (record_name C x) = Some pu \<and> plain_record E C x (record_name C x) pu"
        using rs(2) unfolding records_mean_def by simp_all
    next
      fix n assume "(m(name := None)) n \<noteq> None"
      then have "n \<noteq> name" "n \<in> record_name C ` set rs" using rs(2) unfolding records_mean_def by (auto split: if_splits)
      then show "n \<in> record_name C ` set ?rs" by auto
    qed
    let ?b = "?a\<lparr>listed := filter (\<lambda>i. record_name C (rs ! i) \<noteq> name) [0 ..< length rs], users := us(name := None)\<rparr>"
    have "map (\<lambda>i. rs ! i) (filter (\<lambda>i. record_name C (rs ! i) \<noteq> name) [0 ..< length rs]) = ?rs"
      using filter_map[of "\<lambda>r. record_name C r \<noteq> name" "\<lambda>i. rs ! i" "[0 ..< length rs]"] by (simp add: map_nth comp_def)
    moreover have "index_ok C ?rs rs (us(name := None))"
      using l(2) unfolding index_ok_def by auto
    ultimately obtain d' a' where "save E s (d, ?b) = (s \<noteq> None, d', a')"
        "file_means E C (d', a') (snd (changed (s \<noteq> None) m (m(name := None))))"
      using saved_means[of ?b ?rs E C "m(name := None)" d rs m s] mean' rs by auto
    then show ?thesis using l(1) known False by (cases s) (auto simp: file_Remove_def Let_def changed_def)
  qed
qed

lemma signin_means:
  assumes laws: "account_laws E C" and means: "file_means E C (d, a) (m, n)"
  shows "\<exists>da'. file_step E C (s, SignInOp name password) (d, a) = (fst (spec_step E (s \<noteq> None, SignInOp name password) (m, n)), da') \<and>
    file_means E C da' (snd (spec_step E (s \<noteq> None, SignInOp name password) (m, n)))"
proof -
  obtain rs where rs: "account_text d = Some (print_records E rs)" "records_mean E C rs m"
    "if loaded_stamp a = account_stamp d then memory_means E C a n else n = m"
    using means unfolding file_means_def fst_conv snd_conv by blast
  have "\<exists>b. record_of E C d name a = (user_record b name, b) \<and> memory_means E C b n \<and> loaded_stamp b = account_stamp d"
  proof (cases "loaded_stamp a = account_stamp d")
    case True
    then show ?thesis using rs by (auto simp: record_of_def)
  next
    case False
    obtain us where l: "load E C d (account_stamp d) a =
        (None, a\<lparr>objects := rs, listed := [0 ..< length rs], users := us, loaded_stamp := account_stamp d\<rparr>)" (is "_ = (None, ?a)")
      "index_ok C rs rs us" "\<And>n i. us n = Some i \<Longrightarrow> i < length rs \<and> record_name C (rs ! i) = n"
      using load_means[OF laws rs(1,2), where a = a] by blast
    have "memory_means E C ?a n" using index_memory[of C rs ?a E m] l(2) rs(2,3) False by simp
    then show ?thesis using False l(1) by (auto simp: record_of_def)
  qed
  then obtain b where b: "record_of E C d name a = (user_record b name, b)" "memory_means E C b n" "loaded_stamp b = account_stamp d" by blast
  have kept: "file_means E C (d, b\<lparr>second_factor := v\<rparr>) (m, n)" "file_means E C (d, b) (m, n)" for v
    using b(2,3) rs by (auto simp: file_means_def)
  show ?thesis
  proof (cases "n name")
    case None
    then have "user_record b name = None" by (rule memory_meansD(1)[OF b(2)])
    then show ?thesis using b kept None by (simp add: file_Authenticate_def)
  next
    case (Some pu)
    obtain p u where pu: "pu = (p, u)" by fastforce
    obtain r where f: "user_record b name = Some r" and plain: "plain_record E C r name (p, u)"
      using memory_meansD(2)[OF b(2) Some] pu by blast
    then obtain stored where st: "lookup r (passwordKey C) = Some (JString stored)"
      "\<And>q. verify_password E (account_scheme C) q stored = Inr (q = p)" "lookup r (secretKey C) = None" "identityUUID E r (uuidKey C) name = u"
      by (auto simp: plain_record_def)
    have blank: "trim_space [] = []" using set_trim_space[of "[]"] by simp
    have "b\<lparr>second_factor := second_factor b\<rparr> = b" by simp
    then show ?thesis using b f st Some pu blank kept
      by (auto simp: file_Authenticate_def text_of_def check_second_def)
  qed
qed

definition op_named :: "account_op \<Rightarrow> bool" where
  "op_named opn \<longleftrightarrow> (case opn of AddOp _ name _ _ \<Rightarrow> name \<noteq> [] | _ \<Rightarrow> True)"

lemma step_means:
  assumes "account_laws E C" "op_named (snd x)" "file_means E C da mn"
  shows "\<exists>da'. file_step E C x da = (fst (spec_step E (written_op x) mn), da') \<and> file_means E C da' (snd (spec_step E (written_op x) mn))"
proof -
  obtain s opn d a m n where x: "x = (s, opn)" "da = (d, a)" "mn = (m, n)" by (metis surj_pair)
  show ?thesis
    using assms add_means[OF assms(1)] password_means[OF assms(1)] remove_means[OF assms(1)] signin_means[OF assms(1)]
    unfolding x op_named_def written_op_def by (cases opn) (simp_all only: fst_conv snd_conv account_op.case)
qed

text \<open>
  C16: The file of accounts, written by its own operations, without second factors, with a hash under which
  only the password itself verifies, and used by one call at a time, is a pair of maps from names to
  passwords and UUIDs, of the accounts on the disk and those in memory: under every run of additions, changes
  of passwords, removals and sign-ins, with each write failing or given any stamp, every answer is the one
  that the maps give. So while writes succeed a sign-in is told who it is exactly for the password last set; a
  write that fails is answered with an error, and sign-ins follow the change in memory until the file is
  read again.
\<close>

theorem account_file_is_a_map:
  assumes "account_laws E C" "file_means E C da mn" "\<forall>x \<in> set ops. op_named (snd x)"
  shows "run_with (file_step E C) ops da = run_with (spec_step E) (map written_op ops) mn"
  using assms(2,3)
proof (induction ops arbitrary: da mn)
  case (Cons x ops)
  then obtain da' where "file_step E C x da = (fst (spec_step E (written_op x) mn), da')" "file_means E C da' (snd (spec_step E (written_op x) mn))"
    using step_means[OF assms(1), of x da mn] by auto
  then show ?case using Cons.IH[of da' "snd (spec_step E (written_op x) mn)"] Cons.prems(2) by (simp split: prod.splits)
qed simp

text \<open>When every write succeeds, both maps are one: the abstract accounts.\<close>

lemma written_maps_agree:
  assumes "fst (written_op x)" "spec_step E (written_op x) (m, m) = (answer, m', n')"
  shows "n' = m'"
  using assms by (cases x; cases "snd x") (auto simp: written_op_def changed_def split: option.splits if_splits)

instance json :: countable
  by countable_datatype

text \<open>A file in which the passwords are plain and the records are written as a number.\<close>

definition plain_accounts :: account_env where
  "plain_accounts = \<lparr>hashes = \<lparr>argon_compare = (\<lambda>p s. Inr (p = s)), argon_create = (\<lambda>p s. Inr p), bcrypt_compare = (\<lambda>p s. Inr (p = s)),
       bcrypt_generate = (\<lambda>p c s. Inr p), md5_hex = (\<lambda>p. p), sha256_hex = (\<lambda>p. p), sha512_hex = (\<lambda>p. p), lower_rest = (\<lambda>s. s)\<rparr>,
     totp_of = \<lparr>hmac_sha1 = (\<lambda>k m. []), upper = (\<lambda>s. s), base32 = (\<lambda>s. None)\<rparr>,
     read_records = (\<lambda>s. Some (from_nat (digits_val s))), print_records = (\<lambda>rs. nat_digits (to_nat rs)),
     parse_uuid = (\<lambda>s. Some (letters_bytes s)), format_uuid = (\<lambda>u. concat (map byte_letters u)), md5_bytes = (\<lambda>s. []), lower_names = (\<lambda>s. s)\<rparr>"

definition plain_account_config :: account_config where
  "plain_account_config = \<lparr>account_scheme = ''plain'', usernameKey = ''username'', passwordKey = ''password'', uuidKey = ''uuid'', secretKey = ''totp''\<rparr>"

definition empty_accounts :: "account_disk \<times> account_state" where
  "empty_accounts = (\<lparr>account_text = Some (print_records plain_accounts []), account_stamp = (2, 7)\<rparr>,
     \<lparr>objects = [], listed = [], users = (\<lambda>_. None), loaded_stamp = (2, 7), second_factor = []\<rparr>)"

lemma plain_laws: "account_laws plain_accounts plain_account_config"
  by (simp add: account_laws_def keys_apart_def plain_accounts_def plain_account_config_def ProduceCost_def scheme_names_def
      verify_password_def hash_verify_def letters_bytes_round)

lemma empty_means: "file_means plain_accounts plain_account_config empty_accounts (\<lambda>_. None, \<lambda>_. None)"
  by (auto simp: file_means_def empty_accounts_def records_mean_def memory_means_def user_record_def intro!: exI[of _ "[]"])

lemma account_file_is_a_map_witness:
  "run_with (file_step plain_accounts plain_account_config)
     [(Some (1, 1), AddOp [] ''amy'' ''old'' ''AB''), (None, SignInOp ''amy'' ''old''), (Some (3, 3), PasswordOp [] ''amy'' ''new''),
      (None, SignInOp ''amy'' ''old''), (None, SignInOp ''amy'' ''new''), (None, RemoveOp ''amy''), (None, SignInOp ''amy'' ''new''),
      (Some (4, 4), RemoveOp ''amy''), (Some (5, 5), RemoveOp ''amy''), (None, AddOp [] ''bo'' ''pw'' ''AB''), (None, SignInOp ''bo'' ''pw'')]
     empty_accounts =
   [Done, SignedInAs (identity_of ''amy'' (letters_bytes ''AB'')), Done, Refused, SignedInAs (identity_of ''amy'' (letters_bytes ''AB'')),
    Refused, Refused, Done, Refused, Refused, SignedInAs (identity_of ''bo'' (letters_bytes ''AB''))]"
proof -
  have "trim_space ''AB'' = ''AB''" by (intro trim_space_id) (auto simp: solid_def)
  then show ?thesis
    by (subst account_file_is_a_map[OF plain_laws empty_means])
      (simp_all add: op_named_def written_op_def changed_def plain_accounts_def)
qed

section \<open>Additions that were not written\<close>

text \<open>
  When the file cannot be written, \<open>Add\<close> answers an error but leaves the account in memory, where it can sign
  in until the file is read again.
\<close>

lemma failed_add_signs_in:
  assumes laws: "account_laws E C" and means: "file_means E C (d, a) (m, n)" and new: "m name = None"
  shows "\<exists>a'. file_Add E C salt None name password [] (d, a) = (Inl CannotWrite, d, a') \<and>
    fst (file_Authenticate E C d unix \<lparr>cusername = name, cpassword = password, ctwofactor = []\<rparr> a') =
      Inr (identity_of name (OfflineUUID (md5_bytes E) name))"
proof -
  obtain rs where rs: "account_text d = Some (print_records E rs)" "records_mean E C rs m" using means by (auto simp: file_means_def)
  obtain us where l: "load E C d (account_stamp d) a =
      (None, a\<lparr>objects := rs, listed := [0 ..< length rs], users := us, loaded_stamp := account_stamp d\<rparr>)" "index_ok C rs rs us"
    "\<And>n i. us n = Some i \<Longrightarrow> i < length rs \<and> record_name C (rs ! i) = n"
    using load_means[OF laws rs, where a = a] by blast
  have us: "us name = None" using l(2) rs(2) new unfolding index_ok_def records_mean_def by (metis image_iff not_Some_eq)
  obtain stored where h: "ProduceCost (hashes E) (account_scheme C) password 0 salt = Inr stored"
    "\<And>q. verify_password E (account_scheme C) q stored = Inr (q = password)" using laws unfolding account_laws_def by blast
  have blank: "trim_space [] = []" using set_trim_space[of "[]"] by simp
  have keys: "usernameKey C \<noteq> passwordKey C" "uuidKey C \<noteq> passwordKey C" "passwordKey C \<noteq> uuidKey C" "uuidKey C \<noteq> secretKey C"
    "passwordKey C \<noteq> secretKey C" "usernameKey C \<noteq> secretKey C" "secretKey C \<noteq> uuidKey C" "secretKey C \<noteq> passwordKey C" "secretKey C \<noteq> usernameKey C"
    "passwordKey C \<noteq> usernameKey C" "uuidKey C \<noteq> usernameKey C" "usernameKey C \<noteq> uuidKey C"
    using laws by (auto simp: account_laws_def keys_apart_def)
  have parse: "parse_uuid E (format_uuid E u) = Some u" for u using laws by (simp add: account_laws_def)
  show ?thesis
    by (simp add: file_Add_def l(1) us h blank save_def file_Authenticate_def record_of_def user_record_def nth_append Let_def keys parse
        text_of_def check_second_def identityUUID_def)
qed

section \<open>Codes under another spelling\<close>

text \<open>
  The budget of a one-time code is kept for the name as it was typed. A database that does not tell upper from lower case gives
  the same account for another spelling, under which a code that is used up is accepted again.
\<close>

lemma code_budget_per_spelling:
  assumes "ask (account_query p) other = Inr (n, Some [Some stored, Some sec], None)" "\<not> custom p" "\<not> hasUUID p" "hasSecret p"
    and "verify_password E (sql_scheme p) password stored = Inr True" "trim_space sec = sec" "sec \<noteq> []" "code \<noteq> []"
    and "Verify (totp_of E) sec code unix = Some s" "lookup v other = None" "keys_ok v"
  shows "fst (sql_Authenticate E ask p unix \<lparr>cusername = other, cpassword = password, ctwofactor = code\<rparr> v) =
    Inr (identity_of other (OfflineUUID (md5_bytes E) other))"
  using assms
  by (simp add: sql_Authenticate_def account_lookup_def scan_account_def check_second_def verifier_verify_def accept_step_def lookup_keep_if Let_def)

end
