(* ===== verification/LogBus.thy ===== *)
theory LogBus
  imports GoStrings "HOL-Library.Sublist"
begin

text \<open>
  The log lines that the server keeps for its viewers (package \<open>logbus\<close>: \<open>logbus.go\<close>, \<open>human.go\<close>): a ring of the last
  lines, subscribers with a bounded channel each, and the text of a line.

  A channel is a queue with a capacity of 256; a send that would block is dropped, as the \<open>select\<close> with a default does.
  The format of a time, \<open>strconv.Quote\<close> and the JSON encoder are parameters. A closed channel leaves the model.

  The theorems: the ring holds exactly the last lines that were published, and a subscriber whose channel does not overflow
  gets every line once and in order, without a gap between its history and what comes live.
\<close>

section \<open>Lines and the bus\<close>

record log_line =
  LineTime :: instant
  Level :: int
  LineSource :: string
  Message :: string
  Fields :: "(string, string) amap"

text \<open>A subscriber: its channel, which receives while it is open, and what its reader has taken.\<close>

record channel =
  queued :: "log_line list"
  taken :: "log_line list"
  dropped :: nat

record bus =
  ring :: "log_line list"
  next_slot :: nat
  full :: bool
  subs :: "(nat, channel) amap"

definition channelSize :: nat where "channelSize = 256"

definition blank_line :: log_line where
  "blank_line = \<lparr>LineTime = zero_time, Level = 0, LineSource = [], Message = [], Fields = []\<rparr>"

definition NewBus :: "nat \<Rightarrow> bus" where
  "NewBus n = \<lparr>ring = replicate n blank_line, next_slot = 0, full = False, subs = []\<rparr>"

definition offer :: "log_line \<Rightarrow> channel \<Rightarrow> channel" where
  "offer l c = (if length (queued c) < channelSize then c\<lparr>queued := queued c @ [l]\<rparr> else c\<lparr>dropped := dropped c + 1\<rparr>)"

text \<open>A bus of size 0 panics at its first line: \<open>None\<close>.\<close>

definition publish_line :: "log_line \<Rightarrow> bus \<Rightarrow> bus option" where
  "publish_line l b =
     (if ring b = [] then None
      else (let n = (next_slot b + 1) mod length (ring b) in
        Some (b\<lparr>ring := (ring b)[next_slot b := l], next_slot := n, full := full b \<or> n = 0, subs := map_vals (\<lambda>_. offer l) (subs b)\<rparr>)))"

definition snapshotLocked :: "int \<Rightarrow> bus \<Rightarrow> log_line list" where
  "snapshotLocked n b =
     (let lines = (if full b then drop (next_slot b) (ring b) else []) @ take (next_slot b) (ring b)
      in if n \<ge> 0 \<and> n < int (length lines) then drop (length lines - nat n) lines else lines)"

text \<open>The new channel is named by a number that no other one has.\<close>

definition Subscribe :: "nat \<Rightarrow> int \<Rightarrow> bus \<Rightarrow> log_line list \<times> bus" where
  "Subscribe ch backscroll b =
     (snapshotLocked backscroll b, b\<lparr>subs := store ch \<lparr>queued = [], taken = [], dropped = 0\<rparr> (subs b)\<rparr>)"

definition cancel :: "nat \<Rightarrow> bus \<Rightarrow> bus" where
  "cancel ch b = b\<lparr>subs := remove ch (subs b)\<rparr>"

text \<open>The reader of a channel takes its first line.\<close>

definition receive :: "nat \<Rightarrow> bus \<Rightarrow> bus" where
  "receive ch b =
     b\<lparr>subs := map_vals (\<lambda>k c. if k = ch then (case queued c of [] \<Rightarrow> c | l # ls \<Rightarrow> c\<lparr>queued := ls, taken := taken c @ [l]\<rparr>) else c) (subs b)\<rparr>"

section \<open>The handler\<close>

record handler =
  min_level :: "int option"
  attrs :: "(string \<times> string) list"
  group :: string

definition Enabled :: "handler \<Rightarrow> int \<Rightarrow> bool" where
  "Enabled h lvl = (case min_level h of None \<Rightarrow> True | Some m \<Rightarrow> lvl \<ge> m)"

definition collect_attr :: "handler \<Rightarrow> string \<times> string \<Rightarrow> string \<times> (string, string) amap \<Rightarrow> string \<times> (string, string) amap" where
  "collect_attr h a acc =
     (if fst a = ''source'' \<and> group h = [] then (snd a, snd acc)
      else (fst acc, store (if group h \<noteq> [] then group h @ ''.'' @ fst a else fst a) (snd a) (snd acc)))"

definition line_of :: "handler \<Rightarrow> instant \<Rightarrow> int \<Rightarrow> string \<Rightarrow> (string \<times> string) list \<Rightarrow> log_line" where
  "line_of h t lvl msg extra =
     (case fold (collect_attr h) (attrs h @ extra) ([], []) of
        (src, fs) \<Rightarrow> \<lparr>LineTime = t, Level = lvl, LineSource = src, Message = msg, Fields = fs\<rparr>)"

definition WithAttrs :: "(string \<times> string) list \<Rightarrow> handler \<Rightarrow> handler" where
  "WithAttrs extra h = h\<lparr>attrs := attrs h @ extra\<rparr>"

definition WithGroup :: "string \<Rightarrow> handler \<Rightarrow> handler" where
  "WithGroup name h = h\<lparr>group := (if group h \<noteq> [] then group h @ ''.'' @ name else name)\<rparr>"

definition trim_newlines :: "string \<Rightarrow> string" where
  "trim_newlines s = rev (dropWhile (\<lambda>c. c = CHR 0x0A) (rev s))"

text \<open>One line for every line of the text; nothing for no text.\<close>

definition echo_lines :: "instant \<Rightarrow> string \<Rightarrow> log_line list" where
  "echo_lines now txt =
     (if txt = [] then []
      else map (\<lambda>l. \<lparr>LineTime = now, Level = 0, LineSource = ''console'', Message = l, Fields = []\<rparr>) (split_on CHR 0x0A (trim_newlines txt)))"

fun publish_all :: "log_line list \<Rightarrow> bus \<Rightarrow> bus option" where
  "publish_all [] b = Some b"
| "publish_all (l # ls) b = (case publish_line l b of None \<Rightarrow> None | Some b \<Rightarrow> publish_all ls b)"

definition Echo :: "instant \<Rightarrow> string \<Rightarrow> bus \<Rightarrow> bus option" where
  "Echo now txt b = publish_all (echo_lines now txt) b"

section \<open>The text of a line\<close>

record render_env =
  json_line :: "log_line \<Rightarrow> string"
  format_time :: "bool \<Rightarrow> instant \<Rightarrow> string"
  quote_text :: "string \<Rightarrow> string"

definition escape :: "string \<Rightarrow> string" where "escape code = CHR 0x1B # code"

definition reset_style :: string where "reset_style = escape ''[0m''"
definition dim_style :: string where "dim_style = escape ''[2m''"
definition bold_style :: string where "bold_style = escape ''[1m''"
definition red_style :: string where "red_style = escape ''[31m''"
definition amber_style :: string where "amber_style = escape ''[33m''"
definition blue_style :: string where "blue_style = escape ''[36m''"

definition paint :: "bool \<Rightarrow> string \<Rightarrow> string \<Rightarrow> string" where
  "paint color txt style = (if \<not> color \<or> txt = [] \<or> style = [] then txt else style @ txt @ reset_style)"

text \<open>The words are Russian; a string is its bytes in UTF-8.\<close>

definition levelMark :: "int \<Rightarrow> string \<times> string" where
  "levelMark lvl =
     (if lvl \<ge> 8 then (map char_of [0xD0, 0xBE, 0xD1, 0x88, 0xD0, 0xB8, 0xD0, 0xB1, 0xD0, 0xBA, 0xD0, 0xB0 :: nat], red_style)
      else if lvl \<ge> 4 then (map char_of [0xD0, 0xB2, 0xD0, 0xB0, 0xD0, 0xB6, 0xD0, 0xBD, 0xD0, 0xBE :: nat], amber_style)
      else if lvl \<le> -4 then
        (map char_of [0xD0, 0xBE, 0xD1, 0x82, 0xD0, 0xBB, 0xD0, 0xB0, 0xD0, 0xB4, 0xD0, 0xBA, 0xD0, 0xB0 :: nat], dim_style)
      else ([], []))"

definition messageStyle :: "int \<Rightarrow> string" where
  "messageStyle lvl = (if lvl \<ge> 8 then bold_style else [])"

definition quoteIfNeeded :: "render_env \<Rightarrow> string \<Rightarrow> string" where
  "quoteIfNeeded R v =
     (if v = [] then [CHR 0x22, CHR 0x22]
      else if list_ex (\<lambda>c. c \<in> {CHR '' '', CHR 0x09, CHR 0x22}) v then quote_text R v else v)"

definition ordered_fields :: "render_env \<Rightarrow> (string, string) amap \<Rightarrow> (string \<times> string) list" where
  "ordered_fields R fs = map (\<lambda>k. (k, quoteIfNeeded R (case lookup fs k of None \<Rightarrow> [] | Some v \<Rightarrow> v))) (sort (map fst fs))"

definition render :: "render_env \<Rightarrow> log_line \<Rightarrow> bool \<Rightarrow> bool \<Rightarrow> string" where
  "render R l color dated =
     (let mark = levelMark (Level l) in
      paint color (format_time R dated (LineTime l)) dim_style @ '' '' @
      (if fst mark \<noteq> [] then paint color (fst mark) (snd mark) @ '' '' else []) @
      (if LineSource l \<noteq> [] \<and> LineSource l \<noteq> ''console'' then paint color (LineSource l) blue_style @ paint color '': '' dim_style else []) @
      paint color (Message l) (messageStyle (Level l)) @
      concat (map (\<lambda>f. ''  '' @ paint color (fst f @ ''='') dim_style @ snd f) (ordered_fields R (Fields l))))"

text \<open>The texts a line adds to the targets; a text that was rendered for one target is used again for the next of the same kind.\<close>

record target =
  Color :: bool
  Dated :: bool
  JSON :: bool

definition Stdout :: "bool \<Rightarrow> target" where "Stdout allowed = \<lparr>Color = allowed, Dated = False, JSON = False\<rparr>"
definition Plain :: target where "Plain = \<lparr>Color = False, Dated = True, JSON = False\<rparr>"

definition colorAllowed :: "(string \<Rightarrow> string) \<Rightarrow> string \<Rightarrow> string \<Rightarrow> bool" where
  "colorAllowed ulow no_color laminara_color \<longleftrightarrow> no_color = [] \<and> to_lower ulow laminara_color \<noteq> ''off''"

fun write_targets :: "render_env \<Rightarrow> log_line \<Rightarrow> (bool \<times> bool, string) amap \<Rightarrow> target list \<Rightarrow> string list" where
  "write_targets R l rendered [] = []"
| "write_targets R l rendered (target # targets) =
     (if JSON target then json_line R l # write_targets R l rendered targets
      else (case lookup rendered (Color target, Dated target) of
          Some txt \<Rightarrow> (txt @ [CHR 0x0A]) # write_targets R l rendered targets
        | None \<Rightarrow>
            (let txt = render R l (Color target) (Dated target)
             in (txt @ [CHR 0x0A]) # write_targets R l (store (Color target, Dated target) txt rendered) targets)))"

definition write_line :: "render_env \<Rightarrow> log_line \<Rightarrow> target list \<Rightarrow> string list" where
  "write_line R l targets = write_targets R l [] targets"

definition rendered_right :: "render_env \<Rightarrow> log_line \<Rightarrow> (bool \<times> bool, string) amap \<Rightarrow> bool" where
  "rendered_right R l rendered \<longleftrightarrow> (\<forall>c d txt. lookup rendered (c, d) = Some txt \<longrightarrow> txt = render R l c d)"

definition own_text :: "render_env \<Rightarrow> log_line \<Rightarrow> target \<Rightarrow> string" where
  "own_text R l t = (if JSON t then json_line R l else render R l (Color t) (Dated t) @ [CHR 0x0A])"

lemma rendered_right_store: "rendered_right R l rendered \<Longrightarrow> rendered_right R l (store (c, d) (render R l c d) rendered)"
  by (auto simp: rendered_right_def)

lemma write_targets_own: "rendered_right R l rendered \<Longrightarrow> write_targets R l rendered targets = map (own_text R l) targets"
proof (induction targets arbitrary: rendered)
  case (Cons t targets)
  show ?case
  proof (cases "lookup rendered (Color t, Dated t)")
    case None
    then show ?thesis using Cons.IH[OF Cons.prems] Cons.IH[OF rendered_right_store[OF Cons.prems]] by (simp add: own_text_def Let_def)
  next
    case (Some u)
    then have "u = render R l (Color t) (Dated t)" using Cons.prems by (simp add: rendered_right_def)
    then show ?thesis using Some Cons.IH[OF Cons.prems] by (simp add: own_text_def)
  qed
qed simp

text \<open>
  A value with a line feed and no space is written as it is, so the value of a field can begin a line of the log of its own.
\<close>

lemma field_forges_line:
  "quoteIfNeeded R (''amy'' @ [CHR 0x0A] @ ''12:00:00'') = ''amy'' @ [CHR 0x0A] @ ''12:00:00''"
  by (simp add: quoteIfNeeded_def)

text \<open>The source that a logger was given goes into the fields of a group that is opened after it.\<close>

lemma grouped_source: "group k \<noteq> [] \<Longrightarrow> fst (fold (collect_attr k) xs acc) = fst acc"
  by (induction xs arbitrary: acc) (simp_all add: collect_attr_def)

lemma group_hides_source:
  assumes "name \<noteq> []"
  shows "LineSource (line_of (WithGroup name (WithAttrs [(''source'', src)] h)) t lvl msg []) = []"
proof -
  let ?k = "WithGroup name (WithAttrs [(''source'', src)] h)"
  have "group ?k \<noteq> []" using assms by (simp add: WithGroup_def)
  then have "fst (fold (collect_attr ?k) (attrs ?k @ []) ([], [])) = []" by (metis grouped_source fst_conv)
  then show ?thesis unfolding line_of_def by (simp only: case_prod_unfold log_line.select_convs)
qed

section \<open>The ring is the last lines\<close>

text \<open>\<open>pub\<close> are all lines published so far; the abstraction keeps the last ones.\<close>

definition last_lines :: "nat \<Rightarrow> 'a list \<Rightarrow> 'a list" where
  "last_lines n xs = drop (length xs - n) xs"

definition ring_ok :: "log_line list \<Rightarrow> bus \<Rightarrow> bool" where
  "ring_ok pub b \<longleftrightarrow> ring b \<noteq> [] \<and> next_slot b = length pub mod length (ring b) \<and> (full b \<longleftrightarrow> length (ring b) \<le> length pub) \<and>
     (\<forall>i < length pub. length pub - length (ring b) \<le> i \<longrightarrow> ring b ! (i mod length (ring b)) = pub ! i)"

lemma ring_publish:
  assumes "ring_ok pub b"
  shows "\<exists>b'. publish_line l b = Some b' \<and> ring_ok (pub @ [l]) b' \<and> length (ring b') = length (ring b)"
proof -
  let ?n = "length (ring b)"
  have ne: "ring b \<noteq> []" "0 < ?n" and slot: "next_slot b = length pub mod ?n" and f: "full b \<longleftrightarrow> ?n \<le> length pub"
    using assms by (auto simp: ring_ok_def)
  have kept: "ring b ! (i mod ?n) = pub ! i" if "i < length pub" "length pub - ?n \<le> i" for i using assms that by (simp add: ring_ok_def)
  let ?b = "b\<lparr>ring := (ring b)[next_slot b := l], next_slot := (next_slot b + 1) mod ?n, full := full b \<or> (next_slot b + 1) mod ?n = 0,
      subs := map_vals (\<lambda>_. offer l) (subs b)\<rparr>"
  have "publish_line l b = Some ?b" using ne by (simp add: publish_line_def Let_def)
  moreover have "ring_ok (pub @ [l]) ?b"
    unfolding ring_ok_def
  proof (intro conjI allI impI)
    have n: "(next_slot b + 1) mod ?n = Suc (length pub) mod ?n" by (simp add: slot mod_Suc_eq)
    then show "next_slot ?b = length (pub @ [l]) mod length (ring ?b)" by simp
    have "Suc (length pub) mod ?n = 0 \<Longrightarrow> ?n \<le> Suc (length pub)" by (rule dvd_imp_le) auto
    moreover have "?n = Suc (length pub) \<Longrightarrow> Suc (length pub) mod ?n = 0" by simp
    ultimately show "full ?b = (length (ring ?b) \<le> length (pub @ [l]))" using f n by (auto simp: le_Suc_eq)
    fix i assume i: "i < length (pub @ [l])" "length (pub @ [l]) - length (ring ?b) \<le> i"
    show "ring ?b ! (i mod length (ring ?b)) = (pub @ [l]) ! i"
    proof (cases "i = length pub")
      case True
      then show ?thesis using ne slot by simp
    next
      case False
      then have ip: "i < length pub" "length pub - ?n \<le> i" "length pub - i < ?n" using i by auto
      have "i mod ?n \<noteq> length pub mod ?n"
      proof
        assume "i mod ?n = length pub mod ?n"
        then have "?n dvd length pub - i" using ip(1) by (metis less_imp_le mod_eq_dvd_iff_nat)
        then show False using ip by (auto dest: dvd_imp_le)
      qed
      then show ?thesis using ip kept[of i] ne slot by (simp add: nth_append)
    qed
  qed (use ne in simp)
  ultimately show ?thesis by simp
qed

lemma ring_contents:
  assumes "ring_ok pub b"
  shows "(if full b then drop (next_slot b) (ring b) else []) @ take (next_slot b) (ring b) = last_lines (length (ring b)) pub"
proof -
  let ?n = "length (ring b)" and ?p = "length pub"
  have ne: "0 < ?n" and slot: "next_slot b = ?p mod ?n" and f: "full b \<longleftrightarrow> ?n \<le> ?p" using assms by (auto simp: ring_ok_def)
  have kept: "ring b ! (i mod ?n) = pub ! i" if "i < ?p" "?p - ?n \<le> i" for i using assms that by (simp add: ring_ok_def)
  show ?thesis
  proof (cases "?n \<le> ?p")
    case False
    then have "take ?p (ring b) = pub" using kept by (intro nth_equalityI) auto
    then show ?thesis using False f slot by (simp add: last_lines_def)
  next
    case True
    have len: "length (drop (?p mod ?n) (ring b) @ take (?p mod ?n) (ring b)) = ?n" using ne by simp
    have "drop (?p mod ?n) (ring b) @ take (?p mod ?n) (ring b) = rotate ?p (ring b)" by (simp add: rotate_drop_take)
    moreover have "rotate ?p (ring b) = drop (?p - ?n) pub"
    proof (rule nth_equalityI)
      show "length (rotate ?p (ring b)) = length (drop (?p - ?n) pub)" using True by simp
      fix i assume "i < length (rotate ?p (ring b))"
      then have i: "i < ?n" by simp
      have "rotate ?p (ring b) ! i = ring b ! ((?p + i) mod ?n)" using i by (simp add: nth_rotate)
      also have "(?p + i) mod ?n = (?p - ?n + i) mod ?n"
      proof -
        have "?p + i = ?p - ?n + i + ?n" using True by simp
        then show ?thesis by (metis mod_add_self2)
      qed
      also have "ring b ! ((?p - ?n + i) mod ?n) = pub ! (?p - ?n + i)" using kept[of "?p - ?n + i"] i True by simp
      finally show "rotate ?p (ring b) ! i = drop (?p - ?n) pub ! i" using True by simp
    qed
    ultimately show ?thesis using True f slot by (simp add: last_lines_def)
  qed
qed

section \<open>A viewer\<close>

datatype bus_op =
    Handle handler instant int string "(string \<times> string) list"
  | Say instant string
  | Open nat int
  | Cancel nat
  | Receive nat

fun lines_of :: "bus_op \<Rightarrow> log_line list" where
  "lines_of (Handle h t lvl msg as) = [line_of h t lvl msg as]"
| "lines_of (Say now txt) = echo_lines now txt"
| "lines_of (Open ch k) = []"
| "lines_of (Cancel ch) = []"
| "lines_of (Receive ch) = []"

fun bus_step :: "bus_op \<Rightarrow> bus \<Rightarrow> bus option" where
  "bus_step (Handle h t lvl msg as) b = publish_line (line_of h t lvl msg as) b"
| "bus_step (Say now txt) b = Echo now txt b"
| "bus_step (Open ch k) b = Some (snd (Subscribe ch k b))"
| "bus_step (Cancel ch) b = Some (cancel ch b)"
| "bus_step (Receive ch) b = Some (receive ch b)"

fun bus_run :: "bus_op list \<Rightarrow> bus \<Rightarrow> bus option" where
  "bus_run [] b = Some b"
| "bus_run (op # ops) b = (case bus_step op b of None \<Rightarrow> None | Some b \<Rightarrow> bus_run ops b)"

definition published :: "bus_op list \<Rightarrow> log_line list" where
  "published ops = concat (map lines_of ops)"

text \<open>What a channel has delivered or still holds, after the lines \<open>ls\<close> came since it was opened.\<close>

definition channel_ok :: "log_line list \<Rightarrow> channel \<Rightarrow> bool" where
  "channel_ok ls c \<longleftrightarrow> length (queued c) \<le> channelSize \<and> subseq (taken c @ queued c) ls \<and>
     length (taken c @ queued c) + dropped c = length ls \<and> (dropped c \<noteq> 0 \<longrightarrow> channelSize < length ls)"

lemma channel_ok_new: "channel_ok [] \<lparr>queued = [], taken = [], dropped = 0\<rparr>"
  by (simp add: channel_ok_def)

lemma channel_ok_offer: "channel_ok ls c \<Longrightarrow> channel_ok (ls @ [l]) (offer l c)"
  by (auto simp: channel_ok_def offer_def subseq_append' simp flip: append_assoc)

text \<open>The bus has published \<open>pub\<close>; the channel \<open>ch\<close>, if it is watched, was open for the lines \<open>ls\<close>.\<close>

definition watched :: "nat \<Rightarrow> log_line list \<Rightarrow> bus \<Rightarrow> bool" where
  "watched ch ls b \<longleftrightarrow> (\<exists>c. lookup (subs b) ch = Some c \<and> channel_ok ls c)"

fun leaves :: "nat \<Rightarrow> bus_op \<Rightarrow> bool" where
  "leaves ch (Cancel x) \<longleftrightarrow> x \<noteq> ch"
| "leaves ch (Open x k) \<longleftrightarrow> x \<noteq> ch"
| "leaves ch _ \<longleftrightarrow> True"

lemma watched_publish:
  assumes "publish_line l b = Some b'" "watched ch ls b"
  shows "watched ch (ls @ [l]) b'"
  using assms channel_ok_offer by (auto simp: publish_line_def watched_def Let_def split: if_splits)

lemma watched_publish_all: "publish_all xs b = Some b' \<Longrightarrow> watched ch ls b \<Longrightarrow> watched ch (ls @ xs) b'"
proof (induction xs arbitrary: b ls)
  case (Cons x xs)
  then show ?case using watched_publish[of x b] by (fastforce split: option.splits)
qed simp

lemma publish_all_ring:
  "ring_ok pub b \<Longrightarrow> \<exists>b'. publish_all xs b = Some b' \<and> ring_ok (pub @ xs) b' \<and> length (ring b') = length (ring b)"
proof (induction xs arbitrary: b pub)
  case (Cons x xs)
  obtain b1 where b1: "publish_line x b = Some b1" "ring_ok (pub @ [x]) b1" "length (ring b1) = length (ring b)"
    using ring_publish[OF Cons.prems] by blast
  then show ?case using Cons.IH[OF b1(2)] by simp
qed simp

lemma step_publishes: "bus_step op b = (case op of Handle h t lvl m as \<Rightarrow> publish_all (lines_of op) b | Say now s \<Rightarrow> publish_all (lines_of op) b
    | Open ch k \<Rightarrow> Some (snd (Subscribe ch k b)) | Cancel ch \<Rightarrow> Some (cancel ch b) | Receive ch \<Rightarrow> Some (receive ch b))"
  by (cases op) (simp_all add: Echo_def split: option.splits)

lemma ring_step:
  assumes "ring_ok pub b"
  shows "\<exists>b'. bus_step op b = Some b' \<and> ring_ok (pub @ lines_of op) b' \<and> length (ring b') = length (ring b)"
  using assms publish_all_ring[OF assms, of "lines_of op"]
  by (cases op) (simp_all add: step_publishes Subscribe_def cancel_def receive_def ring_ok_def del: publish_all.simps)

lemma ring_run: "ring_ok pub b \<Longrightarrow> \<exists>b'. bus_run ops b = Some b' \<and> ring_ok (pub @ published ops) b' \<and> length (ring b') = length (ring b)"
proof (induction ops arbitrary: b pub)
  case (Cons op ops)
  obtain b1 where b1: "bus_step op b = Some b1" "ring_ok (pub @ lines_of op) b1" "length (ring b1) = length (ring b)"
    using ring_step[OF Cons.prems] by blast
  then show ?case using Cons.IH[OF b1(2)] by (simp add: published_def)
qed (simp add: published_def)

lemma watched_step:
  assumes "bus_step op b = Some b'" "leaves ch op" "watched ch ls b"
  shows "watched ch (ls @ lines_of op) b'"
proof (cases op)
  case (Receive x)
  then show ?thesis using assms
    by (auto simp: watched_def receive_def channel_ok_def split: list.splits)
qed (use assms watched_publish_all[of "lines_of op" b b' ch ls] in
      \<open>auto simp: step_publishes Subscribe_def cancel_def watched_def simp del: publish_all.simps\<close>)

lemma watched_run: "bus_run ops b = Some b' \<Longrightarrow> list_all (leaves ch) ops \<Longrightarrow> watched ch ls b \<Longrightarrow> watched ch (ls @ published ops) b'"
proof (induction ops arbitrary: b ls)
  case (Cons op ops)
  obtain b1 where b1: "bus_step op b = Some b1" "bus_run ops b1 = Some b'" using Cons.prems(1) by (auto split: option.splits)
  have "watched ch (ls @ lines_of op) b1" using watched_step[OF b1(1)] Cons.prems by simp
  then show ?case using Cons.IH[OF b1(2), of "ls @ lines_of op"] Cons.prems(2) by (simp add: published_def)
qed (simp add: published_def)

lemma ring_ok_new: "0 < n \<Longrightarrow> ring_ok [] (NewBus n)"
  by (simp add: ring_ok_def NewBus_def)

lemma snapshot_last:
  assumes "ring_ok pub b"
  shows "snapshotLocked k b = last_lines (if k < 0 then length (ring b) else min (nat k) (length (ring b))) pub"
  using ring_contents[OF assms]
  by (auto simp: snapshotLocked_def Let_def last_lines_def min_def intro!: arg_cong[where f = "\<lambda>x. drop x pub"])

text \<open>
  C19: A viewer of the log misses nothing between its history and what comes live: on a bus of at least one line, it first gets
  the last lines that were published (as many as it asked for and the ring holds), and then, whatever is published, taken or
  subscribed after, its channel has delivered or still holds a subsequence of the later lines in their order; none is dropped
  while at most 256 were published, and when none was dropped it is exactly all the later lines. Publishing never gets stuck.
\<close>

theorem viewer_misses_nothing:
  assumes "0 < n" "list_all (leaves ch) after"
  shows "\<exists>b b' c. bus_run before (NewBus n) = Some b \<and> bus_run (Open ch k # after) b = Some b' \<and> lookup (subs b') ch = Some c \<and>
    fst (Subscribe ch k b) = last_lines (if k < 0 then n else min (nat k) n) (published before) \<and>
    subseq (taken c @ queued c) (published after) \<and>
    length (taken c @ queued c) + dropped c = length (published after) \<and>
    (length (published after) \<le> channelSize \<longrightarrow> dropped c = 0) \<and>
    (dropped c = 0 \<longrightarrow> taken c @ queued c = published after)"
proof -
  obtain b where b: "bus_run before (NewBus n) = Some b" "ring_ok (published before) b" "length (ring b) = n"
    using ring_run[OF ring_ok_new[OF assms(1)], of before] by (auto simp: NewBus_def)
  have history: "fst (Subscribe ch k b) = last_lines (if k < 0 then n else min (nat k) n) (published before)"
    using snapshot_last[OF b(2)] b(3) by (simp add: Subscribe_def)
  obtain b' where b': "bus_run (Open ch k # after) b = Some b'" using ring_run[OF b(2), of "Open ch k # after"] by blast
  have "watched ch [] (snd (Subscribe ch k b))" by (simp add: watched_def Subscribe_def channel_ok_new)
  then have "watched ch (published after) b'" using watched_run[of after _ b' ch "[]"] b' assms(2) by simp
  then obtain c where c: "lookup (subs b') ch = Some c" "channel_ok (published after) c" by (auto simp: watched_def)
  have "dropped c = 0 \<Longrightarrow> taken c @ queued c = published after"
    using c(2) by (auto simp: channel_ok_def intro: subseq_same_length)
  then show ?thesis using b(1) b' history c by (auto simp: channel_ok_def)
qed

theorem viewer_misses_nothing_witness:
  "\<exists>b b' c. bus_run [Say 0 ''a'', Say 1 ''b'', Say 2 ''c''] (NewBus 2) = Some b \<and>
    bus_run [Open 7 (-1), Say 3 ''d'', Receive 7, Open 8 1, Say 4 (''e'' @ [CHR 0x0A] @ ''f'')] b = Some b' \<and> lookup (subs b') 7 = Some c \<and>
    map Message (fst (Subscribe 7 (-1) b)) = [''b'', ''c''] \<and> map Message (taken c @ queued c) = [''d'', ''e'', ''f'']"
proof -
  let ?before = "[Say 0 ''a'', Say 1 ''b'', Say 2 ''c'']" and ?after = "[Say 3 ''d'', Receive 7, Open 8 1, Say 4 (''e'' @ [CHR 0x0A] @ ''f'')]"
  have len: "published ?before = concat (map lines_of ?before)" "length (published ?after) \<le> channelSize"
    and msgs: "map Message (last_lines 2 (published ?before)) = [''b'', ''c'']" "map Message (published ?after) = [''d'', ''e'', ''f'']"
    by (simp_all add: published_def echo_lines_def trim_newlines_def channelSize_def last_lines_def)
  have p: "0 < (2 :: nat)" "list_all (leaves 7) ?after" by simp_all
  obtain b b' c where r: "bus_run ?before (NewBus 2) = Some b" "bus_run (Open 7 (-1) # ?after) b = Some b'" "lookup (subs b') 7 = Some c"
    "fst (Subscribe 7 (-1) b) = last_lines (if (-1 :: int) < 0 then 2 else min (nat (-1)) 2) (published ?before)"
    "length (published ?after) \<le> channelSize \<longrightarrow> dropped c = 0" "dropped c = 0 \<longrightarrow> taken c @ queued c = published ?after"
    using viewer_misses_nothing[OF p, of ?before "-1"] by (elim exE conjE) (rule that; assumption)
  show ?thesis using r len(2) msgs by (intro exI[of _ b] exI[of _ b'] exI[of _ c] conjI) simp_all
qed

end
