(* ===== verification/LogFile.thy ===== *)
theory LogFile
  imports GoStrings
begin

text \<open>
  The log file and its rotation (\<open>internal/logfile/logfile.go\<close>): a file of bounded size that is put aside under the name of
  the second, and the files put aside, of which the last few are kept.

  A directory is a map of names; what the system answers to the calls on files is a record of outcomes. A file that was closed
  stays in the field of the writer: the handle is shut, and neither a write nor another close succeeds on it. The format of the
  time is a parameter.

  The theorems: a write that succeeds puts its bytes at the end of the log, and the log is never longer than the limit unless it
  is one write; once a rotation has failed, no later write succeeds, whatever the system answers.
\<close>

section \<open>The directory\<close>

datatype log_entry = LogFile string instant | SubDir

type_synonym log_dir = "(string, log_entry) amap"

record log_options =
  LogName :: string
  MaxSizeMB :: int
  KeepFiles :: int
  MaxAge :: nanos

datatype log_handle = Opened | Shut | NoFile

record log_writer =
  options :: log_options
  handle :: log_handle
  bytes_written :: int

text \<open>What the system answers within one call, and when the clock is read.\<close>

record outcomes =
  mkdir_ok :: bool
  close_ok :: bool
  rename_ok :: bool
  open_ok :: bool
  stat_ok :: bool
  write_ok :: bool
  at_now :: instant
  at_prune :: instant

datatype log_error = NoPath | ErrClosed | CloseFailed | RenameFailed | OpenFailed | WriteFailed | MkdirFailed

definition DefaultMaxSizeMB :: int where "DefaultMaxSizeMB = 20"
definition DefaultKeep :: int where "DefaultKeep = 5"
definition DefaultMaxAge :: nanos where "DefaultMaxAge = 30 * 24 * hour"

definition ext_of :: "string \<Rightarrow> string" where
  "ext_of name = (if CHR ''.'' \<in> set name then CHR ''.'' # last (split_on CHR ''.'' name) else [])"

definition stem_of :: "string \<Rightarrow> string" where
  "stem_of name = fst (cut_suffix name (ext_of name))"

text \<open>\<open>open\<close>: the file is created or written on at its end.\<close>

definition open_log :: "outcomes \<Rightarrow> log_writer \<Rightarrow> log_dir \<Rightarrow> log_error option \<times> log_writer \<times> log_dir" where
  "open_log R w d =
     (let name = LogName (options w) in
      if \<not> open_ok R then (Some OpenFailed, w, d)
      else (case lookup d name of
          Some SubDir \<Rightarrow> (Some OpenFailed, w, d)
        | Some (LogFile c m) \<Rightarrow>
            if \<not> stat_ok R then (Some OpenFailed, w, d) else (None, w\<lparr>handle := Opened, bytes_written := int (length c)\<rparr>, d)
        | None \<Rightarrow>
            if \<not> stat_ok R then (Some OpenFailed, w, store name (LogFile [] (at_now R)) d)
            else (None, w\<lparr>handle := Opened, bytes_written := 0\<rparr>, store name (LogFile [] (at_now R)) d)))"

definition Open :: "outcomes \<Rightarrow> log_options \<Rightarrow> log_dir \<Rightarrow> (log_error, log_writer) result \<times> log_dir" where
  "Open R opts d =
     (let opts = opts\<lparr>MaxSizeMB := (if MaxSizeMB opts \<le> 0 then DefaultMaxSizeMB else MaxSizeMB opts),
            KeepFiles := (if KeepFiles opts \<le> 0 then DefaultKeep else KeepFiles opts),
            MaxAge := (if MaxAge opts \<le> 0 then DefaultMaxAge else MaxAge opts)\<rparr> in
      if LogName opts = [] then (Inl NoPath, d)
      else if \<not> mkdir_ok R then (Inl MkdirFailed, d)
      else (case open_log R \<lparr>options = opts, handle = NoFile, bytes_written = 0\<rparr> d of
          (Some e, w, d) \<Rightarrow> (Inl e, d)
        | (None, w, d) \<Rightarrow> (Inr w, d)))"

section \<open>Rotation\<close>

definition rotatedName :: "string \<Rightarrow> string \<Rightarrow> string" where
  "rotatedName name stamp = stem_of name @ ''-'' @ stamp @ ext_of name"

definition candidate :: "string \<Rightarrow> string \<Rightarrow> nat \<Rightarrow> string" where
  "candidate name stamp n = rotatedName name (if n = 0 then stamp else stamp @ ''-'' @ itoa (int n))"

text \<open>The loop over the suffixes ends, since a directory has finitely many names: one of the first few is free.\<close>

definition free_name :: "string \<Rightarrow> string \<Rightarrow> log_dir \<Rightarrow> string option" where
  "free_name name stamp d =
     map_option (candidate name stamp) (List.find (\<lambda>n. lookup d (candidate name stamp n) = None) [0..<Suc (length d)])"

definition rotatedFiles :: "log_options \<Rightarrow> log_dir \<Rightarrow> (string \<times> instant) list" where
  "rotatedFiles opts d =
     (let name = LogName opts; prefix = stem_of name @ ''-'' in
      sort_key fst (concat (map (\<lambda>(n, e). case e of
          SubDir \<Rightarrow> []
        | LogFile c m \<Rightarrow> if has_prefix n prefix \<and> ext_of n = ext_of name then [(n, m)] else []) d)))"

fun remove_names :: "string list \<Rightarrow> log_dir \<Rightarrow> log_dir" where
  "remove_names [] d = d"
| "remove_names (n # ns) d = remove_names ns (remove n d)"

definition prune :: "instant \<Rightarrow> log_options \<Rightarrow> log_dir \<Rightarrow> log_dir" where
  "prune now opts d =
     (let kept = rotatedFiles opts d; deadline = now - MaxAge opts in
      remove_names (map (\<lambda>(i, nm). fst nm)
        (filter (\<lambda>(i, nm). int i < int (length kept) - KeepFiles opts \<or> snd nm < deadline) (zip [0..<length kept] kept))) d)"

definition rotate_log :: "(instant \<Rightarrow> string) \<Rightarrow> outcomes \<Rightarrow> log_writer \<Rightarrow> log_dir \<Rightarrow> log_error option \<times> log_writer \<times> log_dir" where
  "rotate_log fmt R w d =
     (if handle w = Shut \<or> \<not> close_ok R then (Some CloseFailed, w\<lparr>handle := Shut\<rparr>, d)
      else (let w = w\<lparr>handle := Shut\<rparr>; name = LogName (options w) in
        case free_name name (fmt (at_now R)) d of
          None \<Rightarrow> (Some RenameFailed, w, d)
        | Some new_name \<Rightarrow>
            (case (if rename_ok R then lookup d name else None) of
               None \<Rightarrow> (Some RenameFailed, w, d)
             | Some e \<Rightarrow>
                 (case open_log R w (store new_name e (remove name d)) of
                    (Some err, w, d) \<Rightarrow> (Some err, w, d)
                  | (None, w, d) \<Rightarrow> (None, w, prune (at_prune R) (options w) d)))))"

section \<open>Writing\<close>

definition limit_of :: "log_writer \<Rightarrow> int" where
  "limit_of w = MaxSizeMB (options w) * 1024 * 1024"

definition append_bytes :: "outcomes \<Rightarrow> string \<Rightarrow> log_writer \<Rightarrow> log_dir \<Rightarrow> (int \<times> log_error option) \<times> log_writer \<times> log_dir" where
  "append_bytes R p w d =
     (if handle w \<noteq> Opened \<or> \<not> write_ok R then ((0, Some WriteFailed), w, d)
      else (case lookup d (LogName (options w)) of
          Some (LogFile c m) \<Rightarrow>
            ((int (length p), None), w\<lparr>bytes_written := bytes_written w + int (length p)\<rparr>,
             store (LogName (options w)) (LogFile (c @ p) (at_now R)) d)
        | _ \<Rightarrow> ((0, Some WriteFailed), w, d)))"

definition Write :: "(instant \<Rightarrow> string) \<Rightarrow> outcomes \<Rightarrow> string \<Rightarrow> log_writer \<Rightarrow> log_dir \<Rightarrow> (int \<times> log_error option) \<times> log_writer \<times> log_dir" where
  "Write fmt R p w d =
     (if handle w = NoFile then ((0, Some ErrClosed), w, d)
      else if bytes_written w > 0 \<and> bytes_written w + int (length p) > limit_of w then
        (case rotate_log fmt R w d of
           (Some e, w, d) \<Rightarrow> ((0, Some e), w, d)
         | (None, w, d) \<Rightarrow> append_bytes R p w d)
      else append_bytes R p w d)"

definition Close :: "outcomes \<Rightarrow> log_writer \<Rightarrow> log_error option \<times> log_writer" where
  "Close R w =
     (if handle w = NoFile then (None, w)
      else (if handle w = Shut \<or> \<not> close_ok R then Some CloseFailed else None, w\<lparr>handle := NoFile\<rparr>))"

section \<open>What a write does\<close>

lemma ext_suffix: "has_suffix name (ext_of name)"
proof (cases "CHR ''.'' \<in> set name")
  case True
  have shape: "\<exists>a. s = a @ CHR ''.'' # last (split_on CHR ''.'' s)" if "CHR ''.'' \<in> set s" for s
  proof -
    have "s = join_with CHR ''.'' (split_on CHR ''.'' s)" by simp
    moreover have two: "butlast (split_on CHR ''.'' s) \<noteq> []"
    proof
      assume "butlast (split_on CHR ''.'' s) = []"
      then have "split_on CHR ''.'' s = [last (split_on CHR ''.'' s)]" by (metis append_butlast_last_id append_Nil split_on_ne)
      then have "s = last (split_on CHR ''.'' s)" by (metis join_split join_with.simps(2))
      moreover have "CHR ''.'' \<notin> set (last (split_on CHR ''.'' s))" by (rule split_on_no_sep[of _ _ s]) simp
      ultimately show False using that by simp
    qed
    moreover have "split_on CHR ''.'' s = butlast (split_on CHR ''.'' s) @ [last (split_on CHR ''.'' s)]" by simp
    ultimately have "s = join_with CHR ''.'' (butlast (split_on CHR ''.'' s)) @ CHR ''.'' # last (split_on CHR ''.'' s)"
      by (metis join_append list.distinct(1) join_with.simps(2))
    then show ?thesis by blast
  qed
  show ?thesis using shape[OF True] True by (auto simp: ext_of_def has_suffix_iff)
qed (simp add: ext_of_def has_suffix_iff)

lemma stem_ext: "name = stem_of name @ ext_of name"
proof -
  obtain r where r: "name = r @ ext_of name" using ext_suffix[of name] by (auto simp: has_suffix_iff)
  then have "length name - length (ext_of name) = length r" by (metis add_diff_cancel_right' length_append)
  then have "take (length name - length (ext_of name)) name = r" using r by (metis append_eq_conv_conj)
  then show ?thesis using r ext_suffix[of name] by (simp add: stem_of_def cut_suffix_def)
qed

text \<open>The current log has not the name of one that was put aside.\<close>

lemma current_not_rotated: "\<not> has_prefix name (stem_of name @ ''-'')"
proof
  assume "has_prefix name (stem_of name @ ''-'')"
  then obtain r where "name = stem_of name @ ''-'' @ r" by (auto simp: has_prefix_iff)
  then have "ext_of name = ''-'' @ r" using stem_ext[of name] by (metis append_same_eq same_append_eq)
  then show False by (auto simp: ext_of_def split: if_splits)
qed

lemma rotatedFiles_not_current: "(n, m) \<in> set (rotatedFiles opts d) \<Longrightarrow> n \<noteq> LogName opts"
  using current_not_rotated by (auto simp: rotatedFiles_def Let_def split: log_entry.splits if_splits)

lemma lookup_remove_names: "lookup (remove_names ns d) x = (if x \<in> set ns then None else lookup d x)"
  by (induction ns arbitrary: d) auto

lemma prune_keeps_current: "lookup (prune now opts d) (LogName opts) = lookup d (LogName opts)"
proof -
  have "LogName opts \<notin> set (map (\<lambda>(i, nm). fst nm) (filter P (zip [0..<length (rotatedFiles opts d)] (rotatedFiles opts d))))" for P
    using rotatedFiles_not_current by (fastforce dest: set_zip_rightD)
  then show ?thesis by (simp only: prune_def Let_def lookup_remove_names if_False)
qed

lemma free_name_free: "free_name name stamp d = Some x \<Longrightarrow> lookup d x = None"
  by (auto simp: free_name_def find_Some_iff)

lemma candidate_inj: "candidate name stamp i = candidate name stamp j \<Longrightarrow> i = j"
proof -
  assume eq: "candidate name stamp i = candidate name stamp j"
  have "itoa (int a) = itoa (int b) \<Longrightarrow> a = b" for a b :: nat
    by (metis digits_val_nat_digits itoa_def nat_int of_nat_0_le_iff not_less)
  then show ?thesis using eq by (auto simp: candidate_def rotatedName_def split: if_splits)
qed

lemma free_name_found: "free_name name stamp d \<noteq> None"
proof
  assume "free_name name stamp d = None"
  then have "\<forall>n < Suc (length d). candidate name stamp n \<in> fst ` set d"
    by (simp add: free_name_def find_None_iff lookup_None_iff) (metis less_Suc_eq)
  then have "candidate name stamp ` {..<Suc (length d)} \<subseteq> fst ` set d" by auto
  moreover have "inj_on (candidate name stamp) {..<Suc (length d)}" by (auto simp: inj_on_def dest: candidate_inj)
  ultimately have "Suc (length d) \<le> card (fst ` set d)" by (metis card_image card_lessThan card_mono finite_imageI finite_set)
  also have "\<dots> \<le> length d" by (meson card_image_le card_length finite_set order_trans)
  finally show False by simp
qed

definition log_ok :: "log_writer \<Rightarrow> log_dir \<Rightarrow> string \<Rightarrow> bool" where
  "log_ok w d c \<longleftrightarrow> handle w = Opened \<and> (\<exists>m. lookup d (LogName (options w)) = Some (LogFile c m)) \<and> bytes_written w = int (length c)"

lemma rotate_ok:
  assumes "log_ok w d c" "rotate_log fmt R w d = (None, w', d')"
  shows "log_ok w' d' [] \<and> options w' = options w"
proof -
  obtain m where m: "lookup d (LogName (options w)) = Some (LogFile c m)" "handle w = Opened" using assms(1) by (auto simp: log_ok_def)
  obtain x where x: "free_name (LogName (options w)) (fmt (at_now R)) d = Some x" using free_name_found by blast
  then have ne: "x \<noteq> LogName (options w)" using free_name_free m(1) by force
  show ?thesis using assms(2) m x ne prune_keeps_current[of "at_prune R" "options w"]
    by (auto simp: rotate_log_def open_log_def log_ok_def Let_def split: if_splits)
qed

text \<open>
  A write that succeeds has put its bytes at the end of the log, behind all that was in it or, when the log was put aside, at
  its beginning; and the log is then within its limit unless it is this write alone.
\<close>

theorem write_appends:
  assumes "log_ok w d c" "Write fmt R p w d = ((n, None), w', d')"
  shows "n = int (length p) \<and> (\<exists>c0. log_ok w' d' (c0 @ p) \<and> (c0 = c \<or> c0 = []) \<and> (c0 = [] \<or> int (length (c0 @ p)) \<le> limit_of w))"
proof -
  have appended: "n = int (length p) \<and> log_ok w' d' (c0 @ p)"
    if "log_ok v e c0" "append_bytes R p v e = ((n, None), w', d')" for v e c0
    using that by (auto simp: log_ok_def append_bytes_def split: if_splits)
  show ?thesis
  proof (cases "bytes_written w > 0 \<and> bytes_written w + int (length p) > limit_of w")
    case True
    then obtain v e where r: "rotate_log fmt R w d = (None, v, e)" "append_bytes R p v e = ((n, None), w', d')"
      using assms by (auto simp: Write_def log_ok_def split: prod.splits option.splits)
    then have "n = int (length p) \<and> log_ok w' d' ([] @ p)" using appended[of v e "[]"] rotate_ok[OF assms(1) r(1)] by blast
    then show ?thesis by blast
  next
    case False
    then have "append_bytes R p w d = ((n, None), w', d')" using assms by (auto simp: Write_def log_ok_def)
    moreover have "c = [] \<or> int (length (c @ p)) \<le> limit_of w" using False assms(1) by (auto simp: log_ok_def)
    ultimately show ?thesis using appended[OF assms(1)] by blast
  qed
qed

section \<open>After a failure\<close>

lemma shut_stays:
  assumes "handle w = Shut"
  shows "\<exists>e w'. Write fmt R p w d = ((0, Some e), w', d) \<and> handle w' = Shut"
  using assms by (auto simp: Write_def rotate_log_def append_bytes_def)

fun write_all :: "(instant \<Rightarrow> string) \<Rightarrow> (outcomes \<times> string) list \<Rightarrow> log_writer \<Rightarrow> log_dir \<Rightarrow> log_error option list \<times> log_dir" where
  "write_all fmt [] w d = ([], d)"
| "write_all fmt ((R, p) # rest) w d =
     (case Write fmt R p w d of (ne, w, d) \<Rightarrow> (case write_all fmt rest w d of (es, d) \<Rightarrow> (snd ne # es, d)))"

lemma shut_for_ever: "handle w = Shut \<Longrightarrow> list_all (\<lambda>e. e \<noteq> None) (fst (write_all fmt calls w d)) \<and> snd (write_all fmt calls w d) = d"
proof (induction calls arbitrary: w)
  case (Cons c calls)
  obtain R p where c: "c = (R, p)" by fastforce
  obtain e w' where "Write fmt R p w d = ((0, Some e), w', d)" "handle w' = Shut" using shut_stays[OF Cons.prems] by blast
  then show ?case using Cons.IH[of w'] c by (auto split: prod.splits)
qed simp

lemma rotate_fails_shut:
  assumes "rotate_log fmt R w d = (Some e, w', d')"
  shows "handle w' = Shut"
  using assms by (auto simp: rotate_log_def open_log_def Let_def split: if_splits option.splits log_entry.splits)

text \<open>
  C20: Once a rotation has failed, for whatever reason, the log has ended: every later write fails and leaves the directory as it
  is, even when the system would now do all that is asked of it. The old file was closed before the rename, and is not opened again.
\<close>

theorem failed_rotation_is_final:
  assumes "rotate_log fmt R w d = (Some e, w', d')"
  shows "list_all (\<lambda>e. e \<noteq> None) (fst (write_all fmt calls w' d')) \<and> snd (write_all fmt calls w' d') = d'"
  using shut_for_ever[OF rotate_fails_shut[OF assms]] by blast

definition fine :: outcomes where
  "fine = \<lparr>mkdir_ok = True, close_ok = True, rename_ok = True, open_ok = True, stat_ok = True, write_ok = True, at_now = 0, at_prune = 0\<rparr>"

definition full_writer :: log_writer where
  "full_writer = \<lparr>options = \<lparr>LogName = ''s.log'', MaxSizeMB = 1, KeepFiles = 2, MaxAge = hour\<rparr>, handle = Opened, bytes_written = 1048576\<rparr>"

definition full_body :: string where "full_body = replicate 1048576 CHR ''x''"

definition full_dir :: log_dir where "full_dir = [(''s.log'', LogFile full_body 0)]"

lemma full_ok: "log_ok full_writer full_dir full_body"
  by (simp add: log_ok_def full_writer_def full_dir_def full_body_def)

lemma full_names: "rotatedName ''s.log'' ''t'' = ''s-t.log''" "candidate ''s.log'' ''t'' 0 = ''s-t.log''"
  "stem_of ''s.log'' = ''s''" "ext_of ''s.log'' = ''.log''" "ext_of ''s-t.log'' = ''.log''" "has_prefix ''s.log'' ''s-''\<longleftrightarrow> False" "has_prefix ''s-t.log'' ''s-''"
  by code_simp+

theorem write_appends_witness:
  "\<exists>w' d'. Write (\<lambda>t. ''t'') fine ''line'' full_writer full_dir = ((4, None), w', d') \<and> log_ok w' d' ''line''"
proof -
  obtain n e w' d' where run: "Write (\<lambda>t. ''t'') fine ''line'' full_writer full_dir = ((n, e), w', d')" by (metis prod.exhaust)
  have "free_name ''s.log'' ''t'' full_dir = Some ''s-t.log''"
    by (simp add: free_name_def full_dir_def full_names upt_rec[of 0])
  then have e: "e = None" using run
    by (auto simp: Write_def full_writer_def limit_of_def rotate_log_def fine_def full_dir_def open_log_def append_bytes_def prune_def
        rotatedFiles_def full_names Let_def hour_def minute_def second_def split: if_splits)
  then obtain c0 where c0: "n = 4" "log_ok w' d' (c0 @ ''line'')" "c0 = full_body \<or> c0 = []" "c0 = [] \<or> int (length (c0 @ ''line'')) \<le> limit_of full_writer"
    using write_appends[OF full_ok, of "\<lambda>t. ''t''" fine "''line''" n w' d'] run by auto
  then have "c0 = []" by (auto simp: full_body_def limit_of_def full_writer_def)
  then show ?thesis using run e c0 by auto
qed

theorem failed_rotation_is_final_witness:
  "\<exists>e w' d'. rotate_log (\<lambda>t. ''t'') (fine\<lparr>rename_ok := False\<rparr>) full_writer full_dir = (Some e, w', d') \<and>
    list_all (\<lambda>e. e \<noteq> None) (fst (write_all (\<lambda>t. ''t'') [(fine, ''a''), (fine, ''b'')] w' d'))"
proof -
  let ?run = "rotate_log (\<lambda>t. ''t'') (fine\<lparr>rename_ok := False\<rparr>) full_writer full_dir"
  have "fst ?run = Some RenameFailed"
    by (cases "free_name ''s.log'' ''t'' full_dir") (simp_all add: rotate_log_def full_writer_def fine_def Let_def)
  then obtain e w' d' where r: "?run = (Some e, w', d')" by (metis prod.collapse)
  then show ?thesis using failed_rotation_is_final[OF r] by blast
qed

section \<open>Which files are pruned\<close>

text \<open>
  The files put aside are ordered by their names, and the second one of a second sorts before the first: the newer is pruned and
  the older kept. A file of another log in the directory is taken for one put aside when its name goes on with a dash.
\<close>

lemma prune_drops_the_newer:
  "prune 9 \<lparr>LogName = ''s.log'', MaxSizeMB = 1, KeepFiles = 1, MaxAge = 100\<rparr>
     [(candidate ''s.log'' ''20260101-120000'' 0, LogFile ''older'' 1), (candidate ''s.log'' ''20260101-120000'' 1, LogFile ''newer'' 2)] =
   [(candidate ''s.log'' ''20260101-120000'' 0, LogFile ''older'' 1)]"
  by code_simp

lemma prune_drops_another_log:
  "prune 9 \<lparr>LogName = ''s.log'', MaxSizeMB = 1, KeepFiles = 1, MaxAge = 100\<rparr>
     [(''s-audit.log'', LogFile ''kept by someone else'' 8), (rotatedName ''s.log'' ''t'', LogFile ''own'' 2)] = [(rotatedName ''s.log'' ''t'', LogFile ''own'' 2)]"
  by code_simp

end
