(* ===== verification/Duration.thy ===== *)
theory Duration
  imports GoStrings
begin

text \<open>
  The durations of the settings (\<open>internal/duration/duration.go\<close>): \<open>30s\<close>, \<open>15m\<close>, \<open>12h\<close>, \<open>30d\<close>. \<open>time.ParseDuration\<close>
  of the standard library is written out; its arithmetic on fractions, which goes by floating point, and the text of a duration
  that is no whole number of seconds are parameters.

  The theorems: the text of a duration of whole seconds is read back as that duration; a number of days wraps around.
\<close>

section \<open>Reading\<close>

definition unit_map :: "(string, nat) amap" where
  "unit_map = [(''ns'', 1), (''us'', 1000), ([CHR 0xC2, CHR 0xB5, CHR ''s''], 1000), ([CHR 0xCE, CHR 0xBC, CHR ''s''], 1000),
     (''ms'', 1000000), (''s'', 1000000000), (''m'', 60000000000), (''h'', 3600000000000)]"

definition fraction_of :: "string \<Rightarrow> string \<times> string" where
  "fraction_of r = (if r \<noteq> [] \<and> hd r = CHR ''.'' then (takeWhile is_digit (tl r), dropWhile is_digit (tl r)) else ([], r))"

definition unit_text :: "string \<Rightarrow> string" where
  "unit_text r = takeWhile (\<lambda>c. c \<noteq> CHR ''.'' \<and> \<not> is_digit c) r"

lemma length_fraction_of: "length (snd (fraction_of r)) \<le> length r"
  by (auto simp: fraction_of_def intro: order_trans[OF length_dropWhile_le])

text \<open>The loop over the parts of a text; \<open>frac\<close> is the value of a fraction in a unit.\<close>

function parse_parts :: "(string \<Rightarrow> nat \<Rightarrow> nat) \<Rightarrow> nat \<Rightarrow> string \<Rightarrow> nat option" where
  "parse_parts frac acc s =
     (if s = [] then Some acc
      else let ds = takeWhile is_digit s; fr = fraction_of (dropWhile is_digit s); u = unit_text (snd fr) in
        if ds = [] \<and> fst fr = [] \<or> digits_val ds > 2 ^ 63 \<or> u = [] then None
        else (case lookup unit_map u of
            None \<Rightarrow> None
          | Some n \<Rightarrow>
              if digits_val ds > 2 ^ 63 div n then None
              else (let v = digits_val ds * n + (if digits_val (fst fr) > 0 then frac (fst fr) n else 0) in
                if v > 2 ^ 63 \<or> acc + v > 2 ^ 63 then None
                else parse_parts frac (acc + v) (drop (length u) (snd fr)))))"
  by pat_completeness auto
termination
proof (relation "measure (\<lambda>(f, acc, s). length s)")
  fix s :: string and ds fr u
  assume "s \<noteq> []" "ds = takeWhile is_digit s" "fr = fraction_of (dropWhile is_digit s)" "u = unit_text (snd fr)"
    "\<not> (ds = [] \<and> fst fr = [] \<or> digits_val ds > 2 ^ 63 \<or> u = [])"
  then have "length (snd fr) \<le> length s" "u \<noteq> []" "snd fr \<noteq> []"
    using length_fraction_of[of "dropWhile is_digit s"] length_dropWhile_le[of is_digit s] by (auto simp: unit_text_def)
  then have "length (drop (length u) (snd fr)) < length s" by (cases "snd fr"; cases u) auto
  then show "((frac, acc + v, drop (length u) (snd fr)), (frac, acc, s)) \<in> measure (\<lambda>(f, acc, s). length s)"
    for frac :: "string \<Rightarrow> nat \<Rightarrow> nat" and acc v :: nat by simp
qed simp

declare parse_parts.simps [simp del]

definition ParseDuration :: "(string \<Rightarrow> nat \<Rightarrow> nat) \<Rightarrow> string \<Rightarrow> nanos option" where
  "ParseDuration frac s =
     (let neg = (s \<noteq> [] \<and> hd s = CHR ''-'');
          rest = (if s \<noteq> [] \<and> (hd s = CHR ''-'' \<or> hd s = CHR ''+'') then tl s else s) in
      if rest = ''0'' then Some 0
      else if rest = [] then None
      else (case parse_parts frac 0 rest of
          None \<Rightarrow> None
        | Some d \<Rightarrow> if neg then Some (- int d) else if d > 2 ^ 63 - 1 then None else Some (int d)))"

definition Parse_duration :: "(string \<Rightarrow> nat \<Rightarrow> nat) \<Rightarrow> string \<Rightarrow> nanos option" where
  "Parse_duration frac value =
     (case cut_suffix (trim_space value) ''d'' of
        (days, True) \<Rightarrow> map_option (\<lambda>n. wrap64 (n * 24 * hour)) (atoi days)
      | (txt, False) \<Rightarrow> ParseDuration frac txt)"

section \<open>Writing\<close>

text \<open>The value is not negative but for the smallest duration, which is no whole number of seconds.\<close>

definition Compact :: "(nanos \<Rightarrow> string) \<Rightarrow> nanos \<Rightarrow> string" where
  "Compact std d =
     (if d = 0 then ''0s''
      else let sign = (if d < 0 then ''-'' else []); v = (if d < 0 then wrap64 (- d) else d) in
        if v mod second \<noteq> 0 then sign @ std v
        else sign @
          (if v div hour > 0 then itoa (v div hour) @ ''h'' else []) @
          (if v div minute mod 60 > 0 then itoa (v div minute mod 60) @ ''m'' else []) @
          (if v div second mod 60 > 0 then itoa (v div second mod 60) @ ''s'' else []))"

section \<open>What is written is read\<close>

lemma take_digits: "list_all is_digit a \<Longrightarrow> \<not> is_digit c \<Longrightarrow> takeWhile is_digit (a @ c # r) = a \<and> dropWhile is_digit (a @ c # r) = c # r"
  by (induction a) auto

lemma parse_part:
  assumes "lookup unit_map [c] = Some n" "\<not> is_digit c" "c \<noteq> CHR ''.''" "rest = [] \<or> is_digit (hd rest)" "0 < n"
    "acc + k * n \<le> 2 ^ 63"
  shows "parse_parts frac acc (nat_digits k @ c # rest) = parse_parts frac (acc + k * n) rest"
proof -
  have kn: "k * n \<le> 2 ^ 63" using assms(6) by linarith
  have k1: "k \<le> k * n" using assms(5) by simp
  have small: "k \<le> 2 ^ 63" using kn k1 by linarith
  have q: "k \<le> 2 ^ 63 div n" using kn assms(5) by (simp add: less_eq_div_iff_mult_less_eq)
  have d: "takeWhile is_digit (nat_digits k @ c # rest) = nat_digits k" "dropWhile is_digit (nat_digits k @ c # rest) = c # rest"
    using take_digits[OF nat_digits_digits assms(2)] by auto
  have f: "fraction_of (c # rest) = ([], c # rest)" using assms(3) by (simp add: fraction_of_def)
  have u: "unit_text (c # rest) = [c]"
    using assms(2,3,4) by (cases rest) (auto simp: unit_text_def)
  show ?thesis
    by (subst parse_parts.simps) (simp only: d f u fst_conv snd_conv Let_def, use assms(1,6) small q kn in
      \<open>simp add: not_less digits_val_def[of "[]"]\<close>)
qed

definition part :: "nat \<Rightarrow> char \<Rightarrow> string" where
  "part k c = (if 0 < k then nat_digits k @ [c] else [])"

lemma parse_maybe_part:
  assumes "lookup unit_map [c] = Some n" "\<not> is_digit c" "c \<noteq> CHR ''.''" "rest = [] \<or> is_digit (hd rest)" "0 < n"
    "acc + k * n \<le> 2 ^ 63"
  shows "parse_parts frac acc (part k c @ rest) = parse_parts frac (acc + k * n) rest"
  using parse_part[OF assms] by (simp add: part_def)

lemma digit_first: "is_digit (hd (nat_digits k @ r))"
  using nat_digits_digits[of k] by (cases "nat_digits k") auto

lemma part_first: "part k c @ r = [] \<or> is_digit (hd (part k c @ r))" if "r = [] \<or> is_digit (hd r)"
  using digit_first[of k "[c] @ r"] that by (auto simp: part_def)

definition hms :: "nat \<Rightarrow> string" where
  "hms V = part (V div 3600) CHR ''h'' @ part (V div 60 mod 60) CHR ''m'' @ part (V mod 60) CHR ''s''"

lemma split_hms: "(V :: nat) div 3600 * 3600 + V div 60 mod 60 * 60 + V mod 60 = V"
proof -
  have "V div 3600 = V div 60 div 60" by (simp flip: div_mult2_eq)
  then have "V div 3600 * 60 + V div 60 mod 60 = V div 60" by simp
  moreover have "V div 60 * 60 + V mod 60 = V" by simp
  ultimately show ?thesis by linarith
qed

lemma hms_parsed:
  assumes "V * 1000000000 \<le> 2 ^ 63"
  shows "parse_parts frac 0 (hms V) = Some (V * 1000000000)"
proof -
  let ?H = "V div 3600 * 3600000000000" and ?M = "V div 60 mod 60 * 60000000000" and ?S = "V mod 60 * 1000000000"
  have split: "?H + ?M + ?S = V * 1000000000" using split_hms[of V] by linarith
  have letters: "lookup unit_map ''h'' = Some 3600000000000" "lookup unit_map ''m'' = Some 60000000000" "lookup unit_map ''s'' = Some 1000000000"
    "\<not> is_digit CHR ''h''" "\<not> is_digit CHR ''m''" "\<not> is_digit CHR ''s''"
    by (simp_all add: unit_map_def is_digit_def)
  let ?s = "part (V mod 60) CHR ''s'' @ []"
  let ?m = "part (V div 60 mod 60) CHR ''m'' @ ?s"
  have s: "?s = [] \<or> is_digit (hd ?s)" by (rule part_first) simp
  have m: "?m = [] \<or> is_digit (hd ?m)" by (rule part_first[OF s])
  have "parse_parts frac 0 (hms V) = parse_parts frac 0 (part (V div 3600) CHR ''h'' @ ?m)" by (simp add: hms_def)
  also have "\<dots> = parse_parts frac (0 + ?H) ?m" using split assms by (intro parse_maybe_part[OF letters(1,4) _ m]) simp_all
  also have "\<dots> = parse_parts frac (0 + ?H + ?M) ?s" using split assms by (intro parse_maybe_part[OF letters(2,5) _ s]) simp_all
  also have "\<dots> = parse_parts frac (0 + ?H + ?M + ?S) []" using split assms by (intro parse_maybe_part[OF letters(3,6)]) simp_all
  also have "\<dots> = Some (V * 1000000000)" using split by (subst parse_parts.simps) simp
  finally show ?thesis .
qed

lemma hms_shape:
  assumes "0 < V"
  shows "hms V \<noteq> []" "is_digit (hd (hms V))" "last (hms V) \<in> {CHR ''h'', CHR ''m'', CHR ''s''}"
proof -
  have ne: "0 < V div 3600 \<or> 0 < V div 60 mod 60 \<or> 0 < V mod 60"
    using split_hms[of V] assms by linarith
  show n: "hms V \<noteq> []" using ne by (auto simp: hms_def part_def)
  have "hms V = [] \<or> is_digit (hd (hms V))" unfolding hms_def by (intro part_first) (metis part_first append_Nil2)
  then show "is_digit (hd (hms V))" using n by blast
  show "last (hms V) \<in> {CHR ''h'', CHR ''m'', CHR ''s''}" using ne by (auto simp: hms_def part_def)
qed

lemma Compact_hms:
  assumes "d \<noteq> 0" "int64 d" "d mod second = 0"
  shows "Compact std d = (if d < 0 then ''-'' else []) @ hms (nat (\<bar>d\<bar> div second))"
proof -
  let ?v = "if d < 0 then wrap64 (- d) else d"
  have "d \<noteq> - (2 ^ 63)" using assms(3) by (auto simp: second_def)
  then have v: "?v = \<bar>d\<bar>" using assms(2) by (auto simp: wrap64_id int64_def)
  have whole: "\<bar>d\<bar> mod second = 0" using assms(3) by (auto simp: abs_if zmod_zminus1_eq_if)
  have pos: "0 \<le> \<bar>d\<bar>" by simp
  obtain D where D: "\<bar>d\<bar> = int D" using nonneg_int_cases[OF pos] .
  define V where "V = D div 1000000000"
  have "nat (int D div 1000000000) = V" unfolding V_def by (metis nat_int of_nat_numeral zdiv_int)
  then have V: "nat (\<bar>d\<bar> div second) = V" by (simp only: D second_def)
  have V3: "D div 3600000000000 = V div 3600" "D div 60000000000 = V div 60"
    by (simp_all add: V_def flip: div_mult2_eq)
  have units: "hour = int 3600000000000" "minute = int 60000000000" "second = int 1000000000"
    by (simp_all add: hour_def minute_def second_def)
  have q: "\<bar>d\<bar> div hour = int (V div 3600)" "\<bar>d\<bar> div minute = int (V div 60)" "\<bar>d\<bar> div second = int V"
    by (simp_all only: D units zdiv_int[symmetric] V3 V_def[symmetric])
  have m: "\<bar>d\<bar> div minute mod 60 = int (V div 60 mod 60)" and s: "\<bar>d\<bar> div second mod 60 = int (V mod 60)"
    by (simp_all only: q zmod_int of_nat_numeral)
  have "itoa (int k) = nat_digits k" for k by (simp add: itoa_def)
  then show ?thesis using assms(1) v whole by (simp add: Compact_def Let_def hms_def part_def V q(1) m s)
qed

lemma some_digits: "char_of (48 :: nat) = CHR ''0''" "char_of (49 :: nat) = CHR ''1''" "char_of (51 :: nat) = CHR ''3''"
  by code_simp+

lemma solid_digit: "is_digit c \<Longrightarrow> solid c"
  by (simp add: is_digit_def solid_def)

text \<open>
  A duration of whole seconds that is written to the settings is read back as it was: \<open>Parse\<close> of the text that \<open>Compact\<close>
  gives is the duration, for every one that fits 64 bits.
\<close>

theorem duration_roundtrip:
  assumes "int64 d" "d mod second = 0"
  shows "Parse_duration frac (Compact std d) = Some d"
proof (cases "d = 0")
  case True
  have "trim_space ''0s'' = ''0s''" by (rule trim_space_id) (simp add: solid_def)
  moreover have "parse_parts frac 0 ''0s'' = Some 0"
    using parse_part[of "CHR ''s''" 1000000000 "[]" 0 0 frac] parse_parts.simps[of frac 0 "[]"]
    by (simp add: unit_map_def is_digit_def nat_digits.simps digit_char_def some_digits)
  ultimately show ?thesis using True by (simp add: Compact_def Parse_duration_def cut_suffix_def has_suffix_def ParseDuration_def)
next
  case False
  let ?V = "nat (\<bar>d\<bar> div second)" and ?sign = "if d < 0 then ''-'' else []"
  have whole: "\<bar>d\<bar> mod second = 0" using assms(2) by (auto simp: abs_if zmod_zminus1_eq_if)
  then have eq: "\<bar>d\<bar> = \<bar>d\<bar> div second * second" by (metis add.right_neutral div_mult_mod_eq)
  have pos: "0 < \<bar>d\<bar> div second" using False eq by (metis abs_ge_zero abs_eq_0 mult_zero_left order_le_less pos_imp_zdiv_nonneg_iff second_def zero_less_numeral)
  then have V: "0 < ?V" "int (?V * 1000000000) = \<bar>d\<bar>" using eq by (simp_all add: second_def)
  have bound: "?V * 1000000000 \<le> 2 ^ 63" and small: "0 < d \<Longrightarrow> ?V * 1000000000 \<le> 2 ^ 63 - 1"
    using V(2) assms(1) by (auto simp: int64_def abs_if split: if_splits)
  have text_is: "Compact std d = ?sign @ hms ?V" by (rule Compact_hms[OF False assms])
  note shape = hms_shape[OF V(1)]
  have letters: "solid CHR ''h''" "solid CHR ''m''" "solid CHR ''s''" "solid CHR ''-''" by (simp_all add: solid_def)
  have ends: "solid (hd (?sign @ hms ?V))" "solid (last (?sign @ hms ?V))"
    using shape letters solid_digit by auto
  have trim: "trim_space (?sign @ hms ?V) = ?sign @ hms ?V" by (rule trim_space_id) (use ends in blast)
  have no_days: "\<not> has_suffix (?sign @ hms ?V) ''d''"
  proof
    assume "has_suffix (?sign @ hms ?V) ''d''"
    then have "last (?sign @ hms ?V) = CHR ''d''" unfolding has_suffix_iff by (metis last_snoc)
    moreover have "last (?sign @ hms ?V) = last (hms ?V)" using shape(1) by simp
    ultimately show False using shape(3) by auto
  qed
  have parsed: "parse_parts frac 0 (hms ?V) = Some (?V * 1000000000)" by (rule hms_parsed[OF bound])
  have first: "hd (hms ?V) \<noteq> CHR ''-''" "hd (hms ?V) \<noteq> CHR ''+''" using shape(2) by (auto simp: is_digit_def)
  have not0: "hms ?V \<noteq> ''0''" using shape(3) by auto
  have "ParseDuration frac (?sign @ hms ?V) = Some d"
  proof (cases "d < 0")
    case True
    then have "- int (?V * 1000000000) = d" using V(2) by linarith
    then show ?thesis using True parsed not0 shape(1) by (simp add: ParseDuration_def)
  next
    case F: False
    then have "int (?V * 1000000000) = d" "?V * 1000000000 \<le> 2 ^ 63 - 1" using V(2) False small by linarith+
    then show ?thesis using F parsed not0 shape(1) first by (simp add: ParseDuration_def)
  qed
  then show ?thesis by (simp only: text_is Parse_duration_def trim cut_suffix_def no_days if_False prod.case bool.case)
qed

theorem duration_roundtrip_witness:
  "Compact std (- (90 * minute + second)) = ''-1h30m1s'' \<and> Parse_duration frac ''-1h30m1s'' = Some (- (90 * minute + second))"
proof -
  have written: "Compact std (- (90 * minute + second)) = ''-1h30m1s''"
    by (simp add: Compact_def minute_def second_def hour_def wrap64_def Let_def itoa_def nat_digits.simps digit_char_def some_digits)
  have "int64 (- (90 * minute + second))" "(- (90 * minute + second)) mod second = 0" by (simp_all add: int64_def minute_def second_def)
  then show ?thesis using duration_roundtrip[of "- (90 * minute + second)" frac std] written by metis
qed

text \<open>A number of days is multiplied without a check: 106752 days are a duration of less than none.\<close>

lemma days_wrap: "Parse_duration frac ''106752d'' = Some (- 9223371273709551616)"
proof -
  have "trim_space ''106752d'' = ''106752d''" by (rule trim_space_id) (simp add: solid_def)
  moreover have "atoi ''106752'' = Some 106752" by (simp add: atoi_def digits_val_def digit_val_def is_digit_def int64_def)
  ultimately show ?thesis by (simp add: Parse_duration_def cut_suffix_def has_suffix_def wrap64_def hour_def minute_def second_def)
qed

end
