(* ===== verification/Backup.thy ===== *)
theory Backup
  imports SafePath Tokens
begin

text \<open>
  The copy of what a server cannot get again (\<open>internal/backup/backup.go\<close>): \<open>Create\<close> packs the settings, the keys and
  the database that the settings name into one archive, \<open>Restore\<close> puts the files of an archive back.

  The disk is a map of absolute paths to files and directories, which no one else changes meanwhile. The tar and gzip writers
  and readers, the JSON of the manifest and of the settings of the HWID store, and \<open>filepath.Abs\<close> are the fields of a
  record; what is used of them is \<open>backup_laws\<close>: what was packed is unpacked, and an absolute path is rooted and clean.
  The texts for a reader are constructors.

  The theorems: an archive that fits the limits of the reader gives back every file it was made from, byte for byte; and
  \<open>Create\<close> packs a file that the reader refuses for its size, so such an archive can never be restored.
\<close>

section \<open>The disk\<close>

datatype node = File nat string | Dir

type_synonym disk = "(string, node) amap"

text \<open>\<open>filepath.Base\<close> and \<open>filepath.Dir\<close> of a path that is not empty.\<close>

definition strip_slashes :: "string \<Rightarrow> string" where
  "strip_slashes p = rev (dropWhile (\<lambda>c. c = CHR ''/'') (rev p))"

definition Base :: "string \<Rightarrow> string" where
  "Base p = (if p = [] then ''.'' else let s = strip_slashes p in if s = [] then ''/'' else last (split_on CHR ''/'' s))"

definition Dir_of :: "string \<Rightarrow> string" where
  "Dir_of p = Clean (rev (dropWhile (\<lambda>c. c \<noteq> CHR ''/'') (rev p)))"

text \<open>The directories above a clean path and itself, the highest first: what \<open>os.MkdirAll\<close> goes through.\<close>

fun chain :: "string \<Rightarrow> string list \<Rightarrow> string list" where
  "chain pre [] = []"
| "chain pre (s # ss) = (pre @ s) # chain (pre @ s @ ''/'') ss"

definition dirs_to :: "string \<Rightarrow> string list" where
  "dirs_to d =
     (if d = ''.'' \<or> d = ''/'' then []
      else if hd d = CHR ''/'' then chain ''/'' (split_on CHR ''/'' (tl d)) else chain [] (split_on CHR ''/'' d))"

fun make_all :: "string list \<Rightarrow> disk \<Rightarrow> disk option" where
  "make_all [] d = Some d"
| "make_all (p # ps) d =
     (case lookup d p of
        Some (File m b) \<Rightarrow> None
      | Some Dir \<Rightarrow> make_all ps d
      | None \<Rightarrow> make_all ps (store p Dir d))"

definition MkdirAll :: "string \<Rightarrow> disk \<Rightarrow> disk option" where
  "MkdirAll p d = make_all (dirs_to p) d"

text \<open>\<open>os.WriteFile\<close>: the mode counts only for a new file.\<close>

definition WriteFile :: "string \<Rightarrow> string \<Rightarrow> nat \<Rightarrow> disk \<Rightarrow> disk option" where
  "WriteFile p body m d =
     (case lookup d p of
        Some Dir \<Rightarrow> None
      | Some (File old b) \<Rightarrow> Some (store p (File old body) d)
      | None \<Rightarrow> Some (store p (File m body) d))"

section \<open>What is saved\<close>

datatype source_kind = ServerSettings | BuildKey | RetiredKey | GameKey | PrintSalt | TicketKey | HwidBase

datatype skipped_part = PreparedBuilds string | PublishedFiles | BuiltLaunchers string

record backup_item =
  ItemName :: string
  ItemPath :: string
  What :: source_kind
  ItemMode :: nat

record backup_manifest =
  MadeBy :: string
  CreatedAt :: instant
  Items :: "backup_item list"
  SkippedParts :: "skipped_part list"

record build_part =
  SigningKeyPath :: string
  TrustedSigningKeys :: "string list"
  ProfilesDir :: string

record hwid_part =
  SaltPath :: string
  TicketSecretPath :: string
  StoreConfig :: string

record backup_config =
  BuildPart :: "build_part option"
  RSAKeyPath :: "string option"
  HwidPart :: "hwid_part option"
  HasStorage :: bool
  LauncherDir :: "string option"

record tar_entry =
  EntryName :: string
  EntryMode :: nat
  EntryBody :: string

record backup_env =
  pack :: "tar_entry list \<Rightarrow> string"
  unpack :: "string \<Rightarrow> (tar_entry list \<times> bool) option"
  encode_manifest :: "backup_manifest \<Rightarrow> string"
  decode_manifest :: "string \<Rightarrow> backup_manifest option"
  decode_store :: "string \<Rightarrow> (string \<times> string) option"
  Abs :: "string \<Rightarrow> string option"
  may_open :: "string \<Rightarrow> bool"
  temp_ok :: bool
  finish_ok :: bool
  server_version :: string

text \<open>Unpacking gives \<open>None\<close> for what is no gzip, or the entries up to the end or up to a header that is broken.\<close>

definition has_part :: "string \<Rightarrow> string \<Rightarrow> bool" where
  "has_part s p \<longleftrightarrow> list_ex (\<lambda>i. has_prefix (drop i s) p) [0..<Suc (length s)]"

definition looksLikePath :: "string \<Rightarrow> bool" where
  "looksLikePath v \<longleftrightarrow> list_ex (\<lambda>c. c = CHR ''/'' \<or> c = CHR 0x5C) v \<or> has_suffix v ''.hex''"

definition sqlitePath :: "backup_env \<Rightarrow> string \<Rightarrow> string" where
  "sqlitePath E raw =
     (if raw = [] then []
      else (case decode_store E raw of
          None \<Rightarrow> []
        | Some (driver, dsn) \<Rightarrow>
            if driver \<noteq> ''sqlite'' \<and> driver \<noteq> [] then []
            else if dsn = [] \<or> has_part dsn '':memory:'' then []
            else trim_prefix (fst (cut_at CHR ''?'' dsn)) ''file:''))"

definition sources :: "backup_env \<Rightarrow> backup_config \<Rightarrow> string \<Rightarrow> (string \<times> source_kind) list" where
  "sources E cfg configPath =
     filter (\<lambda>(p, what). trim_space p \<noteq> [])
       ([(configPath, ServerSettings)] @
        (case BuildPart cfg of
           None \<Rightarrow> []
         | Some b \<Rightarrow> (SigningKeyPath b, BuildKey) # map (\<lambda>t. (t, RetiredKey)) (filter looksLikePath (TrustedSigningKeys b))) @
        (case RSAKeyPath cfg of None \<Rightarrow> [] | Some p \<Rightarrow> [(p, GameKey)]) @
        (case HwidPart cfg of
           None \<Rightarrow> []
         | Some h \<Rightarrow> [(SaltPath h, PrintSalt), (TicketSecretPath h, TicketKey), (sqlitePath E (StoreConfig h), HwidBase)]))"

definition Skipped :: "backup_config \<Rightarrow> skipped_part list" where
  "Skipped cfg =
     (case BuildPart cfg of None \<Rightarrow> [] | Some b \<Rightarrow> if ProfilesDir b \<noteq> [] then [PreparedBuilds (ProfilesDir b)] else []) @
     (if HasStorage cfg then [PublishedFiles] else []) @
     (case LauncherDir cfg of None \<Rightarrow> [] | Some dir \<Rightarrow> if dir \<noteq> [] then [BuiltLaunchers dir] else [])"

section \<open>Making an archive\<close>

datatype backup_error =
    AlreadyThere string
  | CannotCreate
  | CannotRead string
  | NothingToSave
  | CannotFinish
  | NoArchive string
  | NotAnArchive string
  | BrokenArchive
  | EntryTooBig string
  | BrokenManifest
  | ArchiveTooBig
  | NoManifest
  | CannotWrite string

definition maxFileBytes :: nat where "maxFileBytes = 512 * 2 ^ 20"
definition maxArchiveBytes :: nat where "maxArchiveBytes = 4 * 2 ^ 30"
definition maxArchiveItems :: nat where "maxArchiveItems = 5000"
definition manifestName :: string where "manifestName = ''manifest.json''"

definition pad2 :: "nat \<Rightarrow> string" where
  "pad2 i = (if i < 10 then ''0'' @ nat_digits i else nat_digits i)"

definition item_name :: "nat \<Rightarrow> string \<Rightarrow> string" where
  "item_name i p = ''files/'' @ pad2 i @ ''-'' @ Base p"

text \<open>The loop over the sources: \<open>i\<close> is the index, \<open>seen\<close> the paths that were packed.\<close>

fun pack_sources :: "backup_env \<Rightarrow> disk \<Rightarrow> nat \<Rightarrow> string list \<Rightarrow> (string \<times> source_kind) list
    \<Rightarrow> backup_error + (tar_entry \<times> backup_item) list" where
  "pack_sources E d i seen [] = Inr []"
| "pack_sources E d i seen ((p, what) # rest) =
     (case Abs E p of
        None \<Rightarrow> pack_sources E d (Suc i) seen rest
      | Some a \<Rightarrow>
          if a \<in> set seen then pack_sources E d (Suc i) seen rest
          else (case lookup d a of
              None \<Rightarrow> pack_sources E d (Suc i) seen rest
            | Some Dir \<Rightarrow> pack_sources E d (Suc i) seen rest
            | Some (File m body) \<Rightarrow>
                if \<not> may_open E a then Inl (CannotRead a)
                else bind_res (pack_sources E d (Suc i) (a # seen) rest)
                  (\<lambda>others. Inr ((\<lparr>EntryName = item_name i a, EntryMode = m mod 512, EntryBody = body\<rparr>,
                      \<lparr>ItemName = item_name i a, ItemPath = a, What = what, ItemMode = m mod 512\<rparr>) # others))))"

definition manifest_entry :: "backup_env \<Rightarrow> backup_manifest \<Rightarrow> tar_entry" where
  "manifest_entry E m = \<lparr>EntryName = manifestName, EntryMode = 0x180, EntryBody = encode_manifest E m\<rparr>"

definition Create :: "backup_env \<Rightarrow> instant \<Rightarrow> backup_config \<Rightarrow> string \<Rightarrow> string \<Rightarrow> disk
    \<Rightarrow> backup_error + (backup_manifest \<times> disk)" where
  "Create E now cfg configPath target d =
     (if lookup d target \<noteq> None then Inl (AlreadyThere target)
      else if \<not> temp_ok E then Inl CannotCreate
      else bind_res (pack_sources E d 0 [] (sources E cfg configPath))
        (\<lambda>packed.
           let m = \<lparr>MadeBy = server_version E, CreatedAt = now, Items = map snd packed, SkippedParts = Skipped cfg\<rparr> in
           if packed = [] then Inl NothingToSave
           else if \<not> finish_ok E then Inl CannotFinish
           else Inr (m, store target (File 0x180 (pack E (map fst packed @ [manifest_entry E m]))) d)))"

section \<open>Reading an archive\<close>

fun read_entries :: "backup_env \<Rightarrow> bool \<Rightarrow> tar_entry list \<Rightarrow> nat \<Rightarrow> backup_manifest option \<Rightarrow> (string, string) amap
    \<Rightarrow> backup_error + (backup_manifest option \<times> (string, string) amap)" where
  "read_entries E whole [] sum_so_far m payload = (if whole then Inr (m, payload) else Inl BrokenArchive)"
| "read_entries E whole (e # es) sum_so_far m payload =
     (if length (EntryBody e) > maxFileBytes then Inl (EntryTooBig (EntryName e))
      else if EntryName e = manifestName then
        (case decode_manifest E (EntryBody e) of
           None \<Rightarrow> Inl BrokenManifest
         | Some m \<Rightarrow> read_entries E whole es sum_so_far (Some m) payload)
      else (let sum_so_far = sum_so_far + length (EntryBody e) in
        if sum_so_far > maxArchiveBytes \<or> length payload \<ge> maxArchiveItems then Inl ArchiveTooBig
        else read_entries E whole es sum_so_far m (store (EntryName e) (EntryBody e) payload)))"

definition open_archive :: "backup_env \<Rightarrow> string \<Rightarrow> disk \<Rightarrow> backup_error + (backup_manifest \<times> (string, string) amap)" where
  "open_archive E path d =
     (case lookup d path of
        Some (File fm bytes) \<Rightarrow>
          (case unpack E bytes of
             None \<Rightarrow> Inl (NotAnArchive path)
           | Some (es, whole) \<Rightarrow>
               bind_res (read_entries E whole es 0 None [])
                 (\<lambda>(m, payload). case m of None \<Rightarrow> Inl NoManifest | Some m \<Rightarrow> Inr (m, payload)))
      | _ \<Rightarrow> Inl (NoArchive path))"

definition Read :: "backup_env \<Rightarrow> string \<Rightarrow> disk \<Rightarrow> backup_error + backup_manifest" where
  "Read E path d = bind_res (open_archive E path d) (\<lambda>(m, payload). Inr m)"

section \<open>Restoring\<close>

datatype restore_reason = NotInArchive | NoPath | LeadsUp | NotAbsolute | UnsafePath path_error | OnDisk

datatype restored = Written backup_item | Left backup_item restore_reason

definition restoreTarget :: "string \<Rightarrow> string \<Rightarrow> restore_reason + string" where
  "restoreTarget path dest =
     (let slashed = trim_space path in
      if slashed = [] then Inl NoPath
      else if has_part slashed ''../'' \<or> has_suffix slashed ''/..'' \<or> slashed = ''..'' then Inl LeadsUp
      else if dest = [] then (if \<not> has_prefix path ''/'' then Inl NotAbsolute else Inr (Clean path))
      else (let inner = (if length slashed > 1 \<and> slashed ! 1 = CHR '':'' then drop 2 slashed else slashed) in
        (case Join dest (dropWhile (\<lambda>c. c = CHR ''/'') inner) of Inl e \<Rightarrow> Inl (UnsafePath e) | Inr t \<Rightarrow> Inr t)))"

text \<open>What happened to the items so far, the error that ended the loop, and the disk.\<close>

fun restore_items :: "(string, string) amap \<Rightarrow> string \<Rightarrow> bool \<Rightarrow> backup_item list \<Rightarrow> disk
    \<Rightarrow> restored list \<times> backup_error option \<times> disk" where
  "restore_items payload dest force [] d = ([], None, d)"
| "restore_items payload dest force (item # rest) d =
     (let leave = (\<lambda>why. case restore_items payload dest force rest d of (rs, out) \<Rightarrow> (Left item why # rs, out)) in
      case lookup payload (ItemName item) of
        None \<Rightarrow> leave NotInArchive
      | Some body \<Rightarrow>
          (case restoreTarget (ItemPath item) dest of
             Inl why \<Rightarrow> leave why
           | Inr target \<Rightarrow>
               if lookup d target \<noteq> None \<and> \<not> force then leave OnDisk
               else (case MkdirAll (Dir_of target) d of
                   None \<Rightarrow> ([], Some (CannotWrite (Dir_of target)), d)
                 | Some d \<Rightarrow>
                     (let fm = (if ItemMode item mod 512 = 0 then 0x180 else ItemMode item mod 512) in
                      case WriteFile target body fm d of
                        None \<Rightarrow> ([], Some (CannotWrite target), d)
                      | Some d \<Rightarrow>
                          (case restore_items payload dest force rest d of
                             (rs, out) \<Rightarrow> (Written (item\<lparr>ItemPath := target\<rparr>) # rs, out))))))"

definition Restore :: "backup_env \<Rightarrow> string \<Rightarrow> string \<Rightarrow> bool \<Rightarrow> disk
    \<Rightarrow> restored list \<times> backup_error option \<times> disk" where
  "Restore E path dest force d =
     (case open_archive E path d of
        Inl e \<Rightarrow> ([], Some e, d)
      | Inr (m, payload) \<Rightarrow> restore_items payload dest force (sort_key ItemPath (Items m)) d)"

section \<open>What is packed\<close>

definition backup_laws :: "backup_env \<Rightarrow> bool" where
  "backup_laws E \<longleftrightarrow> (\<forall>es. unpack E (pack E es) = Some (es, True)) \<and> (\<forall>m. decode_manifest E (encode_manifest E m) = Some m) \<and>
     (\<forall>p a. Abs E p = Some a \<longrightarrow> Clean a = a \<and> has_prefix a ''/'')"

definition body_of :: "disk \<Rightarrow> string \<Rightarrow> string" where
  "body_of d p = (case lookup d p of Some (File m b) \<Rightarrow> b | _ \<Rightarrow> [])"

definition pair_ok :: "backup_env \<Rightarrow> disk \<Rightarrow> nat \<Rightarrow> string list \<Rightarrow> tar_entry \<times> backup_item \<Rightarrow> bool" where
  "pair_ok E d i seen ei \<longleftrightarrow>
     (case ei of (e, it) \<Rightarrow>
        EntryName e = ItemName it \<and> (\<exists>m. lookup d (ItemPath it) = Some (File m (EntryBody e))) \<and> ItemPath it \<notin> set seen \<and>
        (\<exists>j \<ge> i. ItemName it = item_name j (ItemPath it)) \<and> (\<exists>p. Abs E p = Some (ItemPath it)))"

lemma digits_no_dash: "CHR ''-'' \<notin> set (pad2 i)"
proof
  assume "CHR ''-'' \<in> set (pad2 i)"
  then have "CHR ''-'' \<in> set (nat_digits i)" by (auto simp: pad2_def split: if_splits)
  moreover have "list_all is_digit (nat_digits i)" by (rule nat_digits_digits)
  ultimately have "is_digit CHR ''-''" by (auto simp: list_all_iff)
  then show False by (simp add: is_digit_def)
qed

lemma pad2_val: "digits_val (pad2 i) = i"
proof -
  have "digits_val (CHR ''0'' # s) = digits_val s" for s by (simp add: digits_val_def digit_val_def)
  then show ?thesis by (simp add: pad2_def)
qed

lemma item_name_inj: "item_name i p = item_name j q \<Longrightarrow> i = j"
proof -
  assume "item_name i p = item_name j q"
  then have eq: "pad2 i @ CHR ''-'' # Base p = pad2 j @ CHR ''-'' # Base q" by (simp add: item_name_def)
  have "takeWhile (\<lambda>c. c \<noteq> CHR ''-'') (pad2 n @ CHR ''-'' # x) = pad2 n" for n x
    using digits_no_dash[of n] by (subst takeWhile_append2) auto
  then have "pad2 i = pad2 j" using eq by metis
  then show ?thesis using pad2_val by metis
qed

lemma item_name_no_manifest: "item_name i p \<noteq> manifestName"
  by (simp add: item_name_def manifestName_def)

lemma pair_ok_less: "pair_ok E d (Suc i) (a # seen) ei \<Longrightarrow> pair_ok E d i seen ei"
  "pair_ok E d (Suc i) seen ei \<Longrightarrow> pair_ok E d i seen ei"
  by (auto simp: pair_ok_def intro: Suc_leD)

lemma pack_sources_ok:
  "pack_sources E d i seen srcs = Inr packed \<Longrightarrow>
    list_all (pair_ok E d i seen) packed \<and> distinct (map (ItemPath \<circ> snd) packed) \<and> distinct (map (ItemName \<circ> snd) packed)"
proof (induction E d i seen srcs arbitrary: packed rule: pack_sources.induct)
  case (2 E d i seen p what rest)
  show ?case
  proof (cases "\<exists>a m body. Abs E p = Some a \<and> a \<notin> set seen \<and> lookup d a = Some (File m body)")
    case False
    have "pack_sources E d (Suc i) seen rest = Inr packed \<and> (pack_sources E d (Suc i) seen rest = Inr packed \<longrightarrow>
      list_all (pair_ok E d (Suc i) seen) packed \<and> distinct (map (ItemPath \<circ> snd) packed) \<and> distinct (map (ItemName \<circ> snd) packed))"
    proof (cases "Abs E p")
      case None
      then show ?thesis using 2(1,6) by (simp add: comp_def)
    next
      case (Some a)
      note abs = Some
      show ?thesis
      proof (cases "a \<in> set seen")
        case True
        then show ?thesis using 2(2,6) abs by (simp add: comp_def)
      next
        case unseen: False
        show ?thesis
        proof (cases "lookup d a")
          case None
          then show ?thesis using 2(3,6) abs unseen by (simp add: comp_def)
        next
          case (Some n)
          then have "lookup d a = Some Dir" using False abs unseen by (cases n) auto
          then show ?thesis using 2(5,6) abs unseen by (simp add: comp_def)
        qed
      qed
    qed
    then show ?thesis using pair_ok_less(2) by (metis (mono_tags, lifting) list_all_iff)
  next
    case True
    then obtain a m body where h: "Abs E p = Some a" "a \<notin> set seen" "lookup d a = Some (File m body)" by blast
    then have open_ok: "may_open E a" using 2(6) by (auto split: if_splits)
    then obtain others where o: "pack_sources E d (Suc i) (a # seen) rest = Inr others"
      and packed: "packed = (\<lparr>EntryName = item_name i a, EntryMode = m mod 512, EntryBody = body\<rparr>,
                      \<lparr>ItemName = item_name i a, ItemPath = a, What = what, ItemMode = m mod 512\<rparr>) # others"
      using 2(6) h by (cases "pack_sources E d (Suc i) (a # seen) rest") auto
    have IH: "list_all (pair_ok E d (Suc i) (a # seen)) others" "distinct (map (ItemPath \<circ> snd) others)" "distinct (map (ItemName \<circ> snd) others)"
      using 2(4)[OF h(1,2,3)] o open_ok by (auto simp: comp_def)
    have tail: "list_all (pair_ok E d i seen) others" using IH(1) pair_ok_less(1) by (metis (mono_tags, lifting) list_all_iff)
    have head: "pair_ok E d i seen (hd packed)" using h packed by (auto simp: pair_ok_def)
    have "a \<notin> set (map (ItemPath \<circ> snd) others)" using IH(1) by (auto simp: list_all_iff pair_ok_def)
    moreover have "item_name i a \<notin> set (map (ItemName \<circ> snd) others)"
    proof
      assume "item_name i a \<in> set (map (ItemName \<circ> snd) others)"
      then obtain e it where "(e, it) \<in> set others" "ItemName it = item_name i a" by auto
      moreover from this obtain j where "Suc i \<le> j" "ItemName it = item_name j (ItemPath it)"
        using IH(1) by (auto simp: list_all_iff pair_ok_def)
      ultimately show False using item_name_inj by (metis not_less_eq_eq order_refl)
    qed
    ultimately show ?thesis using tail head IH packed by (simp add: comp_def)
  qed
qed simp

section \<open>Reading it back\<close>

definition archived :: "disk \<Rightarrow> (tar_entry \<times> backup_item) list \<Rightarrow> bool" where
  "archived d packed \<longleftrightarrow> list_all (\<lambda>(e, it). EntryName e = ItemName it \<and> EntryBody e = body_of d (ItemPath it) \<and> ItemName it \<noteq> manifestName) packed"

lemma Create_packed:
  assumes "Create E now cfg conf target d = Inr (m, d')"
  obtains packed where "pack_sources E d 0 [] (sources E cfg conf) = Inr packed" "Items m = map snd packed" "lookup d target = None"
    "d' = store target (File 0x180 (pack E (map fst packed @ [manifest_entry E m]))) d"
  using assms by (cases "pack_sources E d 0 [] (sources E cfg conf)") (auto simp: Create_def Let_def split: if_splits)

lemma packed_archived: "pack_sources E d i seen srcs = Inr packed \<Longrightarrow> archived d packed"
  using pack_sources_ok[of E d i seen srcs packed] item_name_no_manifest
  by (fastforce simp: archived_def list_all_iff pair_ok_def body_of_def)

lemma read_manifest:
  assumes "backup_laws E"
  shows "read_entries E True [manifest_entry E m] n old payload =
    (if length (encode_manifest E m) > maxFileBytes then Inl (EntryTooBig manifestName) else Inr (Some m, payload))"
  using assms by (simp add: manifest_entry_def backup_laws_def)

lemma read_fits:
  assumes "backup_laws E" "length (encode_manifest E m) \<le> maxFileBytes"
  shows "archived d packed \<Longrightarrow> distinct (map (ItemName \<circ> snd) packed) \<Longrightarrow>
    list_all (\<lambda>(e, it). length (EntryBody e) \<le> maxFileBytes \<and> ItemName it \<notin> fst ` set payload) packed \<Longrightarrow>
    n + sum_list (map (\<lambda>(e, it). length (EntryBody e)) packed) \<le> maxArchiveBytes \<Longrightarrow> length payload + length packed \<le> maxArchiveItems \<Longrightarrow>
    \<exists>pl. read_entries E True (map fst packed @ [manifest_entry E m]) n old payload = Inr (Some m, pl) \<and>
      (\<forall>(e, it) \<in> set packed. lookup pl (ItemName it) = Some (EntryBody e)) \<and>
      (\<forall>x. x \<notin> (ItemName \<circ> snd) ` set packed \<longrightarrow> lookup pl x = lookup payload x)"
proof (induction packed arbitrary: n payload)
  case Nil
  then show ?case using read_manifest[OF assms(1)] assms(2) by simp
next
  case (Cons ei packed)
  obtain e it where ei: "ei = (e, it)" by (cases ei)
  let ?pl = "store (ItemName it) (EntryBody e) payload"
  have len: "length ?pl \<le> Suc (length payload)" by (simp add: length_store)
  have fresh: "ItemName it \<notin> (ItemName \<circ> snd) ` set packed" using Cons.prems(2) ei by simp
  have keys: "fst ` set ?pl = insert (ItemName it) (fst ` set payload)" by (simp add: dom_update)
  have later: "list_all (\<lambda>(e, it). length (EntryBody e) \<le> maxFileBytes \<and> ItemName it \<notin> fst ` set ?pl) packed"
  proof -
    have "ItemName it' \<noteq> ItemName it" if "(e', it') \<in> set packed" for e' it'
    proof
      assume "ItemName it' = ItemName it"
      then have "ItemName it = (ItemName \<circ> snd) (e', it')" by simp
      then show False using fresh that by (metis image_eqI)
    qed
    then show ?thesis using Cons.prems(3) keys by (auto simp: list_all_iff)
  qed
  obtain pl where pl: "read_entries E True (map fst packed @ [manifest_entry E m]) (n + length (EntryBody e)) old ?pl = Inr (Some m, pl)"
      "\<forall>(e, it) \<in> set packed. lookup pl (ItemName it) = Some (EntryBody e)"
      "\<forall>x. x \<notin> (ItemName \<circ> snd) ` set packed \<longrightarrow> lookup pl x = lookup ?pl x"
    using Cons.IH[of ?pl "n + length (EntryBody e)"] Cons.prems later len ei by (auto simp: archived_def)
  have head: "EntryName e = ItemName it" "ItemName it \<noteq> manifestName" "length (EntryBody e) \<le> maxFileBytes"
    using Cons.prems(1,3) ei by (simp_all add: archived_def)
  have "read_entries E True (map fst (ei # packed) @ [manifest_entry E m]) n old payload = Inr (Some m, pl)"
    using pl(1) head Cons.prems(4,5) ei by (simp add: Let_def)
  moreover have "lookup pl (ItemName it) = Some (EntryBody e)" using pl(3) fresh by simp
  moreover have "lookup pl x = lookup payload x" if "x \<notin> (ItemName \<circ> snd) ` set (ei # packed)" for x
    using pl(3) that ei by simp
  ultimately show ?case using pl(2) ei by auto
qed

lemma read_too_big:
  assumes "backup_laws E"
  shows "archived d packed \<Longrightarrow> \<exists>(e, it) \<in> set packed. maxFileBytes < length (EntryBody e) \<Longrightarrow>
    \<exists>err. read_entries E True (map fst packed @ [manifest_entry E m]) n old payload = Inl err"
proof (induction packed arbitrary: n payload)
  case (Cons ei packed)
  obtain e it where ei: "ei = (e, it)" by (cases ei)
  have head: "EntryName e = ItemName it" "ItemName it \<noteq> manifestName" using Cons.prems(1) ei by (simp_all add: archived_def)
  show ?case
  proof (cases "maxFileBytes < length (EntryBody e)")
    case False
    then have "\<exists>(e, it) \<in> set packed. maxFileBytes < length (EntryBody e)" using Cons.prems(2) ei by auto
    moreover have "archived d packed" using Cons.prems(1) by (simp add: archived_def)
    ultimately show ?thesis using Cons.IH head ei by (simp add: Let_def)
  qed (simp add: ei)
qed simp

section \<open>Putting the files back\<close>

lemma make_all_dirs:
  "\<forall>q \<in> set ps. \<forall>m b. lookup d q \<noteq> Some (File m b) \<Longrightarrow>
    \<exists>d'. make_all ps d = Some d' \<and> (\<forall>x. lookup d' x = (if x \<in> set ps then Some Dir else lookup d x))"
proof (induction ps arbitrary: d)
  case (Cons p ps)
  have here: "lookup d p = None \<or> lookup d p = Some Dir" using Cons.prems by (metis list.set_intros(1) node.exhaust option.exhaust)
  define d1 where "d1 = (if lookup d p = None then store p Dir d else d)"
  have dir: "\<forall>x. lookup d1 x = (if x = p then Some Dir else lookup d x)" using here by (auto simp: d1_def)
  have ok: "\<forall>q \<in> set ps. \<forall>m b. lookup d1 q \<noteq> Some (File m b)" using Cons.prems dir by simp
  obtain d' where d': "make_all ps d1 = Some d'" "\<forall>x. lookup d' x = (if x \<in> set ps then Some Dir else lookup d1 x)"
    using Cons.IH[OF ok] by blast
  have "make_all (p # ps) d = make_all ps d1" using here by (auto simp: d1_def)
  then show ?case using d' dir by simp
qed simp

definition item_dirs :: "backup_item \<Rightarrow> string set" where
  "item_dirs it = set (dirs_to (Dir_of (ItemPath it)))"

text \<open>The files of the items can be written: no directory is in their way and no file in that of their directories.\<close>

definition room :: "disk \<Rightarrow> backup_item list \<Rightarrow> bool" where
  "room r its \<longleftrightarrow> (\<forall>it \<in> set its. lookup r (ItemPath it) \<noteq> Some Dir \<and> (\<forall>q \<in> item_dirs it. \<forall>m b. lookup r q \<noteq> Some (File m b)))"

definition apart :: "backup_item list \<Rightarrow> bool" where
  "apart its \<longleftrightarrow> distinct (map ItemPath its) \<and> (\<forall>x \<in> set its. \<forall>y \<in> set its. ItemPath x \<notin> item_dirs y)"

lemma restore_all:
  "room r its \<Longrightarrow> apart its \<Longrightarrow> \<forall>it \<in> set its. lookup payload (ItemName it) = Some (content it) \<and> restoreTarget (ItemPath it) [] = Inr (ItemPath it) \<Longrightarrow>
    \<exists>r'. restore_items payload [] True its r = (map Written its, None, r') \<and>
      (\<forall>it \<in> set its. \<exists>m. lookup r' (ItemPath it) = Some (File m (content it))) \<and>
      (\<forall>x. x \<notin> ItemPath ` set its \<longrightarrow> x \<notin> \<Union> (item_dirs ` set its) \<longrightarrow> lookup r' x = lookup r x)"
proof (induction its arbitrary: r)
  case (Cons it its)
  have free: "\<forall>q \<in> set (dirs_to (Dir_of (ItemPath it))). \<forall>m b. lookup r q \<noteq> Some (File m b)" "lookup r (ItemPath it) \<noteq> Some Dir"
    using Cons.prems(1) by (auto simp: room_def item_dirs_def)
  obtain r1 where r1: "MkdirAll (Dir_of (ItemPath it)) r = Some r1" "\<forall>x. lookup r1 x = (if x \<in> item_dirs it then Some Dir else lookup r x)"
    using make_all_dirs[OF free(1)] by (auto simp: MkdirAll_def item_dirs_def)
  have self: "ItemPath it \<notin> item_dirs it" using Cons.prems(2) by (simp add: apart_def)
  define fm where "fm = (if ItemMode it mod 512 = 0 then 0x180 else ItemMode it mod 512)"
  obtain r2 fm' where r2: "WriteFile (ItemPath it) (content it) fm r1 = Some r2"
      "\<forall>x. lookup r2 x = (if x = ItemPath it then Some (File fm' (content it)) else lookup r1 x)"
  proof (cases "lookup r (ItemPath it)")
    case None
    then show thesis using r1(2) self by (intro that[of "store (ItemPath it) (File fm (content it)) r1" fm]) (simp_all add: WriteFile_def)
  next
    case (Some n)
    then obtain old b where "n = File old b" using free(2) by (cases n) auto
    then show thesis using r1(2) self Some
      by (intro that[of "store (ItemPath it) (File old (content it)) r1" old]) (simp_all add: WriteFile_def)
  qed
  have sep: "ItemPath it \<notin> ItemPath ` set its" "ItemPath it \<notin> \<Union> (item_dirs ` set its)" "apart its"
    using Cons.prems(2) by (auto simp: apart_def)
  have "room r2 its"
    unfolding room_def
  proof (intro ballI conjI allI)
    fix x assume x: "x \<in> set its"
    have "ItemPath x \<noteq> ItemPath it" using sep(1) x by (metis image_eqI)
    moreover have "ItemPath x \<notin> item_dirs it" using Cons.prems(2) x unfolding apart_def by (meson list.set_intros)
    ultimately show "lookup r2 (ItemPath x) \<noteq> Some Dir" using r2(2) r1(2) Cons.prems(1) x by (simp add: room_def)
    fix q m b assume q: "q \<in> item_dirs x"
    then have "q \<noteq> ItemPath it" using sep(2) x by blast
    moreover have "lookup r q \<noteq> Some (File m b)" using Cons.prems(1) x q by (simp add: room_def)
    ultimately show "lookup r2 q \<noteq> Some (File m b)" using r2(2) r1(2) by simp
  qed
  then obtain r' where r': "restore_items payload [] True its r2 = (map Written its, None, r')"
      "\<forall>it \<in> set its. \<exists>m. lookup r' (ItemPath it) = Some (File m (content it))"
      "\<forall>x. x \<notin> ItemPath ` set its \<longrightarrow> x \<notin> \<Union> (item_dirs ` set its) \<longrightarrow> lookup r' x = lookup r2 x"
    using Cons.IH[OF _ sep(3)] Cons.prems(3) by (metis list.set_intros(2))
  have "restore_items payload [] True (it # its) r = (map Written (it # its), None, r')"
    using Cons.prems(3) r1(1) r2(1) r'(1) by (simp add: Let_def fm_def)
  moreover have "lookup r' (ItemPath it) = Some (File fm' (content it))" using r'(3) sep r2(2) by simp
  moreover have "lookup r' x = lookup r x" if "x \<notin> ItemPath ` set (it # its)" "x \<notin> \<Union> (item_dirs ` set (it # its))" for x
    using r'(3) r2(2) r1(2) that by simp
  ultimately show ?case using r'(2) by auto
qed simp

section \<open>The theorems\<close>

text \<open>In a disk, what is above a file is a directory.\<close>

definition tree_ok :: "disk \<Rightarrow> bool" where
  "tree_ok d \<longleftrightarrow> (\<forall>p m b. lookup d p = Some (File m b) \<longrightarrow> (\<forall>q \<in> set (dirs_to (Dir_of p)). lookup d q = Some Dir))"

text \<open>The limits of the reader.\<close>

definition archive_fits :: "backup_env \<Rightarrow> backup_manifest \<Rightarrow> disk \<Rightarrow> bool" where
  "archive_fits E m d \<longleftrightarrow> list_all (\<lambda>it. length (body_of d (ItemPath it)) \<le> maxFileBytes) (Items m) \<and>
     sum_list (map (\<lambda>it. length (body_of d (ItemPath it))) (Items m)) \<le> maxArchiveBytes \<and> length (Items m) \<le> maxArchiveItems \<and>
     length (encode_manifest E m) \<le> maxFileBytes"

text \<open>No space around the path and no two dots before a separator, which \<open>restoreTarget\<close> takes for a way up.\<close>

definition safe_to_restore :: "string \<Rightarrow> bool" where
  "safe_to_restore p \<longleftrightarrow> trim_space p = p \<and> \<not> has_part p ''../'' \<and> \<not> has_suffix p ''/..''"

lemma restoreTarget_self: "safe_to_restore p \<Longrightarrow> Clean p = p \<Longrightarrow> has_prefix p ''/'' \<Longrightarrow> restoreTarget p [] = Inr p"
  by (auto simp: restoreTarget_def safe_to_restore_def Let_def has_prefix_def)

lemma packed_facts:
  assumes "backup_laws E" "pack_sources E d 0 [] srcs = Inr packed" "(e, it) \<in> set packed"
  shows "EntryBody e = body_of d (ItemPath it)" "\<exists>m. lookup d (ItemPath it) = Some (File m (EntryBody e))"
    "Clean (ItemPath it) = ItemPath it" "has_prefix (ItemPath it) ''/''"
proof -
  have p: "pair_ok E d 0 [] (e, it)" using pack_sources_ok[OF assms(2)] assms(3) by (auto simp: list_all_iff)
  then show here: "\<exists>m. lookup d (ItemPath it) = Some (File m (EntryBody e))" by (simp add: pair_ok_def)
  then show "EntryBody e = body_of d (ItemPath it)" by (auto simp: body_of_def)
  obtain x where "Abs E x = Some (ItemPath it)" using p by (auto simp: pair_ok_def)
  then show "Clean (ItemPath it) = ItemPath it" "has_prefix (ItemPath it) ''/''" using assms(1) unfolding backup_laws_def by blast+
qed

lemma packed_apart:
  assumes "backup_laws E" "tree_ok d" "pack_sources E d 0 [] srcs = Inr packed"
  shows "apart (map snd packed)"
proof -
  have "ItemPath x \<notin> item_dirs y" if xy: "(ex, x) \<in> set packed" "(ey, y) \<in> set packed" for ex x ey y
  proof
    assume "ItemPath x \<in> item_dirs y"
    then have "lookup d (ItemPath x) = Some Dir"
      using packed_facts(2)[OF assms(1,3) xy(2)] assms(2) unfolding tree_ok_def item_dirs_def by blast
    then show False using packed_facts(2)[OF assms(1,3) xy(1)] by auto
  qed
  then show ?thesis using pack_sources_ok[OF assms(3)] by (auto simp: apart_def comp_def)
qed

lemma opened_archive:
  assumes "backup_laws E" "Create E now cfg conf target d = Inr (m, d')" "archive_fits E m d" "lookup r target = lookup d' target"
  shows "\<exists>pl. open_archive E target r = Inr (m, pl) \<and> (\<forall>it \<in> set (Items m). lookup pl (ItemName it) = Some (body_of d (ItemPath it)))"
proof -
  obtain packed where p: "pack_sources E d 0 [] (sources E cfg conf) = Inr packed" "Items m = map snd packed"
      "d' = store target (File 0x180 (pack E (map fst packed @ [manifest_entry E m]))) d"
    using Create_packed[OF assms(2)] by metis
  have body: "\<forall>(e, it) \<in> set packed. EntryBody e = body_of d (ItemPath it)" using packed_facts(1)[OF assms(1) p(1)] by auto
  then have sizes: "map (\<lambda>(e, it). length (EntryBody e)) packed = map (\<lambda>it. length (body_of d (ItemPath it))) (Items m)"
    by (auto simp: p(2))
  have small: "list_all (\<lambda>(e, it). length (EntryBody e) \<le> maxFileBytes \<and> ItemName it \<notin> fst ` set ([] :: (string, string) amap)) packed"
    using assms(3) body by (fastforce simp: archive_fits_def p(2) list_all_iff)
  obtain pl where pl: "read_entries E True (map fst packed @ [manifest_entry E m]) 0 None [] = Inr (Some m, pl)"
      "\<forall>(e, it) \<in> set packed. lookup pl (ItemName it) = Some (EntryBody e)"
    using read_fits[OF assms(1) _ packed_archived[OF p(1)] _ small, of m 0 None] pack_sources_ok[OF p(1)] assms(3) sizes
    by (auto simp: archive_fits_def p(2))
  have "unpack E (pack E (map fst packed @ [manifest_entry E m])) = Some (map fst packed @ [manifest_entry E m], True)"
    using assms(1) by (simp add: backup_laws_def)
  then have "open_archive E target r = Inr (m, pl)" using pl(1) assms(4) p(3) by (simp add: open_archive_def)
  then show ?thesis using pl(2) body p(2) by fastforce
qed

text \<open>
  C17: What is saved is given back: restoring with force, in place, an archive that \<open>Create\<close> made and that fits the limits of
  the reader, writes every file of it with exactly the bytes it had when the archive was made, reports each as written, and
  changes nothing else on the disk it is restored to but the directories above these files. The paths must have no space around
  them and no part that ends in two dots, and where the files go there must be no directory in the place of a file and no file
  in the place of a directory. Without force, files that are there are left as they are.
\<close>

theorem backup_roundtrip:
  assumes "backup_laws E" "tree_ok d" "Create E now cfg conf target d = Inr (m, d')" "archive_fits E m d"
    "list_all (\<lambda>it. safe_to_restore (ItemPath it)) (Items m)" "lookup r target = lookup d' target" "room r (Items m)"
  shows "\<exists>r'. Restore E target [] True r = (map Written (sort_key ItemPath (Items m)), None, r') \<and>
    (\<forall>it \<in> set (Items m). \<exists>fm. lookup r' (ItemPath it) = Some (File fm (body_of d (ItemPath it)))) \<and>
    (\<forall>x. x \<notin> ItemPath ` set (Items m) \<longrightarrow> x \<notin> \<Union> (item_dirs ` set (Items m)) \<longrightarrow> lookup r' x = lookup r x)"
proof -
  obtain packed where p: "pack_sources E d 0 [] (sources E cfg conf) = Inr packed" "Items m = map snd packed"
    using Create_packed[OF assms(3)] by metis
  obtain pl where pl: "open_archive E target r = Inr (m, pl)" "\<forall>it \<in> set (Items m). lookup pl (ItemName it) = Some (body_of d (ItemPath it))"
    using opened_archive[OF assms(1,3,4,6)] by blast
  let ?its = "sort_key ItemPath (Items m)"
  have target: "restoreTarget (ItemPath it) [] = Inr (ItemPath it)" if "it \<in> set (Items m)" for it
    using that packed_facts(3,4)[OF assms(1) p(1)] assms(5) p(2) by (auto simp: list_all_iff intro!: restoreTarget_self)
  have "apart (Items m)" using packed_apart[OF assms(1,2) p(1)] p(2) by simp
  then have "apart ?its" by (simp add: apart_def distinct_map)
  moreover have "room r ?its" using assms(7) by (simp add: room_def)
  ultimately have "\<exists>r'. restore_items pl [] True ?its r = (map Written ?its, None, r') \<and>
      (\<forall>it \<in> set ?its. \<exists>fm. lookup r' (ItemPath it) = Some (File fm (body_of d (ItemPath it)))) \<and>
      (\<forall>x. x \<notin> ItemPath ` set ?its \<longrightarrow> x \<notin> \<Union> (item_dirs ` set ?its) \<longrightarrow> lookup r' x = lookup r x)"
    using pl(2) target by (intro restore_all) simp_all
  then show ?thesis using pl(1) by (simp add: Restore_def)
qed

text \<open>
  C18: \<open>Create\<close> packs a file of any size, and the reader refuses an entry of more than 512 MiB: an archive with such a file (a
  database of computers that has grown) is reported as made, and then it can neither be read nor restored, not even the other
  files of it.
\<close>

theorem big_file_is_never_restored:
  assumes "backup_laws E" "Create E now cfg conf target d = Inr (m, d')" "it \<in> set (Items m)"
    "maxFileBytes < length (body_of d (ItemPath it))" "lookup r target = lookup d' target"
  shows "\<exists>err. Read E target r = Inl err \<and> Restore E target dest force r = ([], Some err, r)"
proof -
  obtain packed where p: "pack_sources E d 0 [] (sources E cfg conf) = Inr packed" "Items m = map snd packed"
      "d' = store target (File 0x180 (pack E (map fst packed @ [manifest_entry E m]))) d"
    using Create_packed[OF assms(2)] by metis
  obtain e where "(e, it) \<in> set packed" using assms(3) p(2) by auto
  moreover from this have "maxFileBytes < length (EntryBody e)" using packed_facts(1)[OF assms(1) p(1)] assms(4) by simp
  ultimately have "\<exists>(e, it) \<in> set packed. maxFileBytes < length (EntryBody e)" by blast
  then obtain err where "read_entries E True (map fst packed @ [manifest_entry E m]) 0 None [] = Inl err"
    using read_too_big[OF assms(1) packed_archived[OF p(1)]] by blast
  moreover have "unpack E (pack E (map fst packed @ [manifest_entry E m])) = Some (map fst packed @ [manifest_entry E m], True)"
    using assms(1) by (simp add: backup_laws_def)
  ultimately have "open_archive E target r = Inl err" using assms(5) p(3) by (simp add: open_archive_def)
  then show ?thesis by (simp add: Read_def Restore_def)
qed

section \<open>An example\<close>

definition kind_text :: "source_kind \<Rightarrow> string" where
  "kind_text k = (case k of ServerSettings \<Rightarrow> ''s'' | BuildKey \<Rightarrow> ''b'' | RetiredKey \<Rightarrow> ''r'' | GameKey \<Rightarrow> ''g'' | PrintSalt \<Rightarrow> ''p''
     | TicketKey \<Rightarrow> ''t'' | HwidBase \<Rightarrow> ''h'')"

definition text_kind :: "string \<Rightarrow> source_kind" where
  "text_kind s = (if s = ''s'' then ServerSettings else if s = ''b'' then BuildKey else if s = ''r'' then RetiredKey
     else if s = ''g'' then GameKey else if s = ''p'' then PrintSalt else if s = ''t'' then TicketKey else HwidBase)"

definition part_text :: "skipped_part \<Rightarrow> string" where
  "part_text p = (case p of PreparedBuilds s \<Rightarrow> CHR ''p'' # s | PublishedFiles \<Rightarrow> ''f'' | BuiltLaunchers s \<Rightarrow> CHR ''l'' # s)"

fun text_part :: "string \<Rightarrow> skipped_part" where
  "text_part [] = PublishedFiles"
| "text_part (c # s) = (if c = CHR ''p'' then PreparedBuilds s else if c = CHR ''f'' then PublishedFiles else BuiltLaunchers s)"

fun plain_items :: "string list \<Rightarrow> backup_item list" where
  "plain_items (n # p # k # m # r) = \<lparr>ItemName = n, ItemPath = p, What = text_kind k, ItemMode = length m\<rparr> # plain_items r"
| "plain_items _ = []"

fun plain_entries :: "string list \<Rightarrow> tar_entry list" where
  "plain_entries (n # m # b # r) = \<lparr>EntryName = n, EntryMode = length m, EntryBody = b\<rparr> # plain_entries r"
| "plain_entries _ = []"

definition item_tokens :: "backup_item \<Rightarrow> string list" where
  "item_tokens it = [ItemName it, ItemPath it, kind_text (What it), replicate (ItemMode it) CHR ''i'']"

definition entry_tokens :: "tar_entry \<Rightarrow> string list" where
  "entry_tokens e = [EntryName e, replicate (EntryMode e) CHR ''i'', EntryBody e]"

definition plain_manifest :: "string list \<Rightarrow> backup_manifest option" where
  "plain_manifest ss = (case ss of v # a # b # its # parts \<Rightarrow>
     Some \<lparr>MadeBy = v, CreatedAt = int_of_plain a b, Items = plain_items (plain_tokens [] its), SkippedParts = map text_part parts\<rparr>
     | _ \<Rightarrow> None)"

definition plain_backup :: backup_env where
  "plain_backup = \<lparr>
     pack = (\<lambda>es. plain_encode (concat (map entry_tokens es))),
     unpack = (\<lambda>s. Some (plain_entries (plain_tokens [] s), True)),
     encode_manifest = (\<lambda>m. plain_encode (MadeBy m # plain_int (CreatedAt m) @
       plain_encode (concat (map item_tokens (Items m))) # map part_text (SkippedParts m))),
     decode_manifest = (\<lambda>s. plain_manifest (plain_tokens [] s)),
     decode_store = (\<lambda>s. None),
     Abs = (\<lambda>p. if has_prefix p ''/'' \<and> Clean p = p then Some p else None),
     may_open = (\<lambda>p. True), temp_ok = True, finish_ok = True, server_version = ''1.0''\<rparr>"

lemma plain_backup_laws: "backup_laws plain_backup"
proof -
  have es: "plain_entries (concat (map entry_tokens es)) = es" for es
    by (induction es) (simp_all add: entry_tokens_def)
  have kinds: "text_kind (kind_text k) = k" for k by (cases k) (simp_all add: kind_text_def text_kind_def)
  have its: "plain_items (concat (map item_tokens its)) = its" for its
    by (induction its) (simp_all add: item_tokens_def kinds)
  have "text_part (part_text p) = p" for p by (cases p) (simp_all add: part_text_def)
  then have parts: "map (text_part \<circ> part_text) ps = ps" for ps by (simp add: map_idI)
  have int: "int_of_plain (replicate (nat n) c) (replicate (nat (- n)) c) = n" for n c by (simp add: int_of_plain_def)
  show ?thesis by (simp add: backup_laws_def plain_backup_def plain_manifest_def plain_tokens_encode es its parts int plain_int_def)
qed

lemma plain_backup_simps:
  "Abs plain_backup p = (if has_prefix p ''/'' \<and> Clean p = p then Some p else None)"
  "may_open plain_backup p" "temp_ok plain_backup" "finish_ok plain_backup" "decode_store plain_backup raw = None"
  "server_version plain_backup = ''1.0''"
  by (simp_all add: plain_backup_def)

definition small_config :: backup_config where
  "small_config = \<lparr>BuildPart = Some \<lparr>SigningKeyPath = ''/k/a.hex'', TrustedSigningKeys = [''0a''], ProfilesDir = ''/p''\<rparr>,
     RSAKeyPath = Some ''/k/none'', HwidPart = None, HasStorage = True, LauncherDir = None\<rparr>"

definition small_disk :: "string \<Rightarrow> disk" where
  "small_disk body = [(''/c'', File 0x1A4 body), (''/k'', Dir), (''/k/a.hex'', File 0x180 ''key'')]"

definition small_manifest :: backup_manifest where
  "small_manifest = \<lparr>MadeBy = ''1.0'', CreatedAt = 0,
     Items = [\<lparr>ItemName = ''files/00-c'', ItemPath = ''/c'', What = ServerSettings, ItemMode = 0x1A4\<rparr>,
       \<lparr>ItemName = ''files/01-a.hex'', ItemPath = ''/k/a.hex'', What = BuildKey, ItemMode = 0x180\<rparr>],
     SkippedParts = [PreparedBuilds ''/p'', PublishedFiles]\<rparr>"

definition small_bytes :: "string \<Rightarrow> string" where
  "small_bytes body = pack plain_backup [\<lparr>EntryName = ''files/00-c'', EntryMode = 0x1A4, EntryBody = body\<rparr>,
     \<lparr>EntryName = ''files/01-a.hex'', EntryMode = 0x180, EntryBody = ''key''\<rparr>, manifest_entry plain_backup small_manifest]"

lemma small_sources: "sources plain_backup small_config ''/c'' = [(''/c'', ServerSettings), (''/k/a.hex'', BuildKey), (''/k/none'', GameKey)]"
  by (simp add: sources_def small_config_def looksLikePath_def has_suffix_def) code_simp

lemma small_names: "Clean ''/c'' = ''/c''" "Clean ''/k/a.hex'' = ''/k/a.hex''" "Clean ''/k/none'' = ''/k/none''"
  "has_prefix ''/c'' ''/''" "has_prefix ''/k/a.hex'' ''/''" "has_prefix ''/k/none'' ''/''"
  "item_name 0 ''/c'' = ''files/00-c''" "item_name (Suc 0) ''/k/a.hex'' = ''files/01-a.hex''"
  by code_simp+

lemma small_skipped: "Skipped small_config = [PreparedBuilds ''/p'', PublishedFiles]"
  by (simp add: Skipped_def small_config_def)

lemma small_created: "Create plain_backup 0 small_config ''/c'' ''/b'' (small_disk body) =
    Inr (small_manifest, store ''/b'' (File 0x180 (small_bytes body)) (small_disk body))"
  by (simp add: Create_def small_sources plain_backup_simps small_names small_disk_def small_manifest_def small_bytes_def Let_def small_skipped)

lemma small_bodies: "body_of (small_disk body) ''/c'' = body" "body_of (small_disk body) ''/k/a.hex'' = ''key''"
  by (simp_all add: body_of_def small_disk_def)

lemma length_plain_encode: "length (plain_encode ss) = sum_list (map (\<lambda>s. 2 * length s + 1) ss)"
  by (induction ss) (simp_all add: plain_encode_def length_concat comp_def sum_list_triv)

lemma small_fits: "archive_fits plain_backup small_manifest (small_disk ''cfg'')"
  by (simp add: archive_fits_def small_manifest_def small_bodies plain_backup_def length_plain_encode item_tokens_def plain_int_def
      kind_text_def part_text_def maxFileBytes_def maxArchiveBytes_def maxArchiveItems_def)

lemma small_dirs: "dirs_to (Dir_of ''/c'') = []" "dirs_to (Dir_of ''/k/a.hex'') = [''/k'']"
  by code_simp+

lemma small_tree: "tree_ok (small_disk body)"
  by (auto simp: tree_ok_def small_disk_def small_dirs split: if_splits)

lemma small_safe: "safe_to_restore ''/c''" "safe_to_restore ''/k/a.hex''"
  by code_simp+

theorem backup_roundtrip_witness:
  "\<exists>rs r'. Restore plain_backup ''/b'' [] True [(''/b'', File 0x180 (small_bytes ''cfg''))] = (rs, None, r') \<and> length rs = 2 \<and>
    (\<exists>fm. lookup r' ''/c'' = Some (File fm ''cfg'')) \<and> (\<exists>fm. lookup r' ''/k/a.hex'' = Some (File fm ''key''))"
proof -
  let ?r = "[(''/b'', File 0x180 (small_bytes ''cfg''))]"
  have "list_all (\<lambda>it. safe_to_restore (ItemPath it)) (Items small_manifest)" using small_safe by (simp add: small_manifest_def)
  moreover have "room ?r (Items small_manifest)" by (simp add: room_def item_dirs_def small_manifest_def small_dirs)
  moreover have "lookup ?r ''/b'' = lookup (store ''/b'' (File 0x180 (small_bytes ''cfg'')) (small_disk ''cfg'')) ''/b''" by simp
  ultimately have "\<exists>r'. Restore plain_backup ''/b'' [] True ?r = (map Written (sort_key ItemPath (Items small_manifest)), None, r') \<and>
    (\<forall>it \<in> set (Items small_manifest). \<exists>fm. lookup r' (ItemPath it) = Some (File fm (body_of (small_disk ''cfg'') (ItemPath it)))) \<and>
    (\<forall>x. x \<notin> ItemPath ` set (Items small_manifest) \<longrightarrow> x \<notin> \<Union> (item_dirs ` set (Items small_manifest)) \<longrightarrow> lookup r' x = lookup ?r x)"
    by (intro backup_roundtrip[OF plain_backup_laws small_tree small_created small_fits])
  then show ?thesis by (auto simp: small_manifest_def small_bodies)
qed

text \<open>A file of one byte too many.\<close>

definition grown_body :: string where
  "grown_body = replicate (Suc maxFileBytes) CHR ''x''"

theorem big_file_is_never_restored_witness:
  "\<exists>m d' err. Create plain_backup 0 small_config ''/c'' ''/b'' (small_disk grown_body) = Inr (m, d') \<and> length (Items m) = 2 \<and>
    Read plain_backup ''/b'' d' = Inl err \<and> Restore plain_backup ''/b'' ''/back'' True d' = ([], Some err, d')"
proof -
  let ?d = "store ''/b'' (File 0x180 (small_bytes grown_body)) (small_disk grown_body)"
  let ?it = "\<lparr>ItemName = ''files/00-c'', ItemPath = ''/c'', What = ServerSettings, ItemMode = 0x1A4\<rparr>"
  have "?it \<in> set (Items small_manifest)" by (simp add: small_manifest_def)
  moreover have "maxFileBytes < length (body_of (small_disk grown_body) (ItemPath ?it))" by (simp add: small_bodies grown_body_def)
  ultimately obtain err where "Read plain_backup ''/b'' ?d = Inl err" "Restore plain_backup ''/b'' ''/back'' True ?d = ([], Some err, ?d)"
    using big_file_is_never_restored[OF plain_backup_laws small_created, of ?it grown_body ?d "''/back''" True] by blast
  moreover have "length (Items small_manifest) = 2" by (simp add: small_manifest_def)
  ultimately show ?thesis using small_created by blast
qed

end
