(* ===== verification/Runes.thy ===== *)
theory Runes
  imports GoStrings
begin

text \<open>
  Strings as the language reads them when it goes by runes (\<open>[]rune(s)\<close>, \<open>strings.Map\<close>, \<open>range s\<close>): the bytes of one rune
  after the other, and a byte that begins no valid rune read as the replacement character of three bytes.
\<close>

definition byte_in :: "string \<Rightarrow> nat \<Rightarrow> nat \<Rightarrow> nat \<Rightarrow> bool" where
  "byte_in s i lo hi \<longleftrightarrow> i < length s \<and> lo \<le> of_char (s ! i) \<and> of_char (s ! i) \<le> hi"

text \<open>The bytes of the first rune; a byte that begins none has width 1.\<close>

definition rune_width :: "string \<Rightarrow> nat" where
  "rune_width s =
     (if byte_in s 0 0xC2 0xDF \<and> byte_in s 1 0x80 0xBF then 2
      else if (byte_in s 0 0xE0 0xE0 \<and> byte_in s 1 0xA0 0xBF \<or> byte_in s 0 0xE1 0xEC \<and> byte_in s 1 0x80 0xBF \<or>
               byte_in s 0 0xED 0xED \<and> byte_in s 1 0x80 0x9F \<or> byte_in s 0 0xEE 0xEF \<and> byte_in s 1 0x80 0xBF) \<and>
              byte_in s 2 0x80 0xBF then 3
      else if (byte_in s 0 0xF0 0xF0 \<and> byte_in s 1 0x90 0xBF \<or> byte_in s 0 0xF1 0xF3 \<and> byte_in s 1 0x80 0xBF \<or>
               byte_in s 0 0xF4 0xF4 \<and> byte_in s 1 0x80 0x8F) \<and> byte_in s 2 0x80 0xBF \<and> byte_in s 3 0x80 0xBF then 4
      else 1)"

definition replacement :: string where
  "replacement = [CHR 0xEF, CHR 0xBF, CHR 0xBD]"

definition first_rune :: "string \<Rightarrow> string" where
  "first_rune s = (if rune_width s = 1 \<and> \<not> byte_in s 0 0 0x7F then replacement else take (rune_width s) s)"

lemma rune_width_pos: "0 < rune_width s"
  by (simp add: rune_width_def)

function runes :: "string \<Rightarrow> string list" where
  "runes s = (if s = [] then [] else first_rune s # runes (drop (rune_width s) s))"
  by pat_completeness auto
termination
  by (relation "measure length") (auto simp: rune_width_pos)

declare runes.simps [simp del]

lemma runes_Nil [simp]: "runes [] = []"
  by (simp add: runes.simps)

lemma runes_ascii_Cons:
  assumes "(of_char c :: nat) < 0x80"
  shows "runes (c # s) = [c] # runes s"
proof -
  have "rune_width (c # s) = 1" using assms by (simp add: rune_width_def byte_in_def)
  moreover have "byte_in (c # s) 0 0 0x7F" using assms by (simp add: byte_in_def)
  ultimately show ?thesis by (simp add: runes.simps[of "c # s"] first_rune_def)
qed

lemma runes_ascii: "list_all (\<lambda>c. (of_char c :: nat) < 0x80) s \<Longrightarrow> runes s = map (\<lambda>c. [c]) s"
  by (induction s) (simp_all add: runes_ascii_Cons)

lemma first_rune_ne: "s \<noteq> [] \<Longrightarrow> first_rune s \<noteq> []"
  using rune_width_pos[of s] by (auto simp: first_rune_def replacement_def)

lemma runes_ne: "r \<in> set (runes s) \<Longrightarrow> r \<noteq> []"
proof (induction s rule: runes.induct)
  case (1 s)
  show ?case
  proof (cases "s = []")
    case False
    then have "runes s = first_rune s # runes (drop (rune_width s) s)" by (subst runes.simps) simp
    then have "r = first_rune s \<or> r \<in> set (runes (drop (rune_width s) s))" using 1(2) by simp
    then show ?thesis using 1(1)[OF False] first_rune_ne[OF False] by metis
  qed (use 1(2) in simp)
qed

lemma runes_empty_iff [simp]: "runes s = [] \<longleftrightarrow> s = []"
  by (subst runes.simps) simp

lemma length_runes: "length (runes s) \<le> length s"
proof (induction s rule: runes.induct)
  case (1 s)
  show ?case
  proof (cases "s = []")
    case False
    then have "length (runes s) = Suc (length (runes (drop (rune_width s) s)))" by (simp add: runes.simps[of s])
    also have "\<dots> \<le> Suc (length s - rune_width s)" using 1 False by simp
    also have "\<dots> \<le> length s" using False rune_width_pos[of s] by (cases s) (auto simp: Suc_le_eq)
    finally show ?thesis .
  qed simp
qed

text \<open>Text that is valid UTF-8, without a replacement character of its own, is the concatenation of its runes.\<close>

definition valid_utf8 :: "string \<Rightarrow> bool" where
  "valid_utf8 s \<longleftrightarrow> replacement \<notin> set (runes s)"

lemma concat_runes: "valid_utf8 s \<Longrightarrow> concat (runes s) = s"
proof (induction s rule: runes.induct)
  case (1 s)
  show ?case
  proof (cases "s = []")
    case False
    then have rs: "runes s = first_rune s # runes (drop (rune_width s) s)" by (simp add: runes.simps[of s])
    then have "first_rune s \<noteq> replacement" "valid_utf8 (drop (rune_width s) s)" using 1(2) by (auto simp: valid_utf8_def)
    then have "first_rune s = take (rune_width s) s" "concat (runes (drop (rune_width s) s)) = drop (rune_width s) s"
      using 1(1) False by (auto simp: first_rune_def split: if_splits)
    then show ?thesis using rs by simp
  qed simp
qed

text \<open>\<open>string([]rune(s)[:n])\<close>.\<close>

definition take_runes :: "nat \<Rightarrow> string \<Rightarrow> string" where
  "take_runes n s = concat (take n (runes s))"

lemma rune_width_le: "rune_width s \<le> 4"
  by (simp add: rune_width_def)

lemma first_rune_le: "length (first_rune s) \<le> 4"
  using rune_width_le[of s] by (auto simp: first_rune_def replacement_def)

lemma rune_le: "r \<in> set (runes s) \<Longrightarrow> length r \<le> 4"
proof (induction s rule: runes.induct)
  case (1 s)
  show ?case
  proof (cases "s = []")
    case False
    then have "runes s = first_rune s # runes (drop (rune_width s) s)" by (subst runes.simps) simp
    then have "r = first_rune s \<or> r \<in> set (runes (drop (rune_width s) s))" using 1(2) by simp
    then show ?thesis using 1(1)[OF False] first_rune_le[of s] by metis
  qed (use 1(2) in simp)
qed

lemma length_by_runes: "length s \<le> 4 * length (runes s)"
proof (induction s rule: runes.induct)
  case (1 s)
  show ?case
  proof (cases "s = []")
    case False
    then have "length (runes s) = Suc (length (runes (drop (rune_width s) s)))" by (subst runes.simps) simp
    then show ?thesis using 1[OF False] rune_width_le[of s] by simp
  qed simp
qed

lemma length_take_runes: "length (take_runes n s) \<le> 4 * n"
proof -
  have "(\<And>r. r \<in> set rs \<Longrightarrow> length r \<le> 4) \<Longrightarrow> length (concat (take n rs)) \<le> 4 * n" for rs :: "string list"
  proof (induction n arbitrary: rs)
    case (Suc n)
    show ?case
    proof (cases rs)
      case (Cons r rest)
      then have "length r \<le> 4" "length (concat (take n rest)) \<le> 4 * n" using Suc by simp_all
      then show ?thesis using Cons by simp
    qed simp
  qed simp
  then show ?thesis using rune_le by (auto simp: take_runes_def)
qed

end
