(* ===== verification/Crash.thy ===== *)
theory Crash
  imports Api Runes
begin

text \<open>
  Reports of games that crashed and logs of launchers (package \<open>crash\<close>: \<open>crash.go\<close>, \<open>service.go\<close>, \<open>sinks.go\<close>, and
  \<open>api/crash.go\<close>): the request of a launcher, the limit of reports per hour and sender, and the delivery to every sink.

  A post to another service is an entry of a list; the answer to the n-th one is a function of the environment, as are the
  formats of a time and the JSON of the settings. The Russian words of a report are a function of the word meant. The rest of
  the files the reports are written to is not touched.

  The theorems: a sender never gets more than the limit of reports accepted within an hour; whatever the player is called, a
  report is written to a file directly in the directory of the reports; and a report that is accepted can overwrite another
  one of the same second.
\<close>

section \<open>A report\<close>

datatype report_kind = GameCrash | LauncherLog

record crash_report =
  RKind :: report_kind
  RPlayer :: string
  RAddress :: string
  RUUID :: string
  RBuild :: string
  RVersion :: string
  RLoader :: string
  RExitCode :: int
  RLog :: string
  RDetails :: "(string, string) amap"
  RHappened :: instant
  RLauncher :: string
  RPlatform :: string
  ROSVersion :: string

datatype word_meant = WordPlayer | WordAddress | WordBuild | WordNoBuild | WordVersion | WordLoader | WordExit | WordSystem
  | WordLauncher | WordWhen | WordAnonymous | WordUnknown | WordLauncherLog | WordCrashIn | WordQuoteEnd | WordOutOfBuild
  | WordEmptyLog | WordAddressOf

text \<open>A world outside: the posts so far, the newest last, and the files of the reports.\<close>

datatype payload =
    DiscordPost string string string "(string \<times> string) option"
  | TelegramPost string string string string
  | WebhookPost crash_report "(string, string) amap"

record outside =
  posts :: "(string \<times> payload) list"
  report_files :: "(string, string) amap"

record crash_env =
  ru :: "word_meant \<Rightarrow> string"
  stamp_of :: "instant \<Rightarrow> string"
  local_time :: "instant \<Rightarrow> string"
  valid_url :: "string \<Rightarrow> bool"
  answers :: "nat \<Rightarrow> bool"
  can_write :: "string \<Rightarrow> bool"
  settings_of :: "string \<Rightarrow> (string, string) amap option"
  headers_of :: "string \<Rightarrow> (string, string) amap"

definition who :: "crash_env \<Rightarrow> crash_report \<Rightarrow> string" where
  "who E r = (if RPlayer r \<noteq> [] then RPlayer r else if RKind r = LauncherLog then ru E WordAnonymous else ru E WordUnknown)"

definition fallback :: "string \<Rightarrow> string \<Rightarrow> string" where
  "fallback value instead = (if trim_space value = [] then instead else value)"

definition Title :: "crash_env \<Rightarrow> crash_report \<Rightarrow> string" where
  "Title E r =
     (if RKind r = LauncherLog then who E r @ ru E WordLauncherLog
      else who E r @ ru E WordCrashIn @ fallback (RBuild r) (ru E WordOutOfBuild) @ ru E WordQuoteEnd)"

definition report_name :: "crash_report \<Rightarrow> string" where
  "report_name r = (if RKind r = LauncherLog then ''launcher.log'' else ''crash.log'')"

definition optional_line :: "crash_env \<Rightarrow> word_meant \<Rightarrow> string \<Rightarrow> string list" where
  "optional_line E w v = (if v \<noteq> [] then [ru E w @ v] else [])"

definition Lines :: "crash_env \<Rightarrow> crash_report \<Rightarrow> string list" where
  "Lines E r =
     [ru E WordPlayer @ who E r] @
     optional_line E WordAddress (RAddress r) @
     (if RKind r = GameCrash then
        [ru E WordBuild @ fallback (RBuild r) (ru E WordNoBuild)] @ optional_line E WordVersion (RVersion r) @
        optional_line E WordLoader (RLoader r) @ [ru E WordExit @ itoa (RExitCode r)]
      else []) @
     (if RPlatform r \<noteq> [] then [ru E WordSystem @ trim_space (RPlatform r @ '' '' @ ROSVersion r)] else []) @
     optional_line E WordLauncher (RLauncher r) @
     (if RHappened r \<noteq> zero_time then [ru E WordWhen @ local_time E (RHappened r)] else []) @
     map (\<lambda>k. k @ '': '' @ (case lookup (RDetails r) k of None \<Rightarrow> [] | Some v \<Rightarrow> v)) (sort (map fst (RDetails r)))"

definition report_text :: "crash_env \<Rightarrow> crash_report \<Rightarrow> string" where
  "report_text E r = join_with CHR 0x0A (Lines E r)"

section \<open>The sinks\<close>

datatype sink =
    Discord string string
  | Telegram string string
  | Webhook string "(string, string) amap"
  | FileSink string

datatype crash_error = ReportsDisabled | AnonymousDisabled | EnoughReports | Undelivered | UnknownSink string | BadSink string
  | NoSinks | BadJson

definition setting :: "(string, string) amap \<Rightarrow> string \<Rightarrow> string" where
  "setting m k = (case lookup m k of None \<Rightarrow> [] | Some v \<Rightarrow> v)"

definition newDiscord :: "crash_env \<Rightarrow> string \<Rightarrow> (crash_error, sink) result" where
  "newDiscord E raw =
     (case settings_of E raw of None \<Rightarrow> Inl BadJson
      | Some m \<Rightarrow> if setting m ''url'' = [] then Inl (BadSink ''discord'') else Inr (Discord (setting m ''url'') (setting m ''username'')))"

definition newTelegram :: "crash_env \<Rightarrow> string \<Rightarrow> (crash_error, sink) result" where
  "newTelegram E raw =
     (case settings_of E raw of None \<Rightarrow> Inl BadJson
      | Some m \<Rightarrow> if setting m ''token'' = [] \<or> setting m ''chatId'' = [] then Inl (BadSink ''telegram'')
          else Inr (Telegram (setting m ''token'') (setting m ''chatId'')))"

definition newWebhook :: "crash_env \<Rightarrow> string \<Rightarrow> (crash_error, sink) result" where
  "newWebhook E raw =
     (case settings_of E raw of None \<Rightarrow> Inl BadJson
      | Some m \<Rightarrow> if setting m ''url'' = [] then Inl (BadSink ''http'') else Inr (Webhook (setting m ''url'') (headers_of E raw)))"

definition newFile :: "crash_env \<Rightarrow> string \<Rightarrow> (crash_error, sink) result" where
  "newFile E raw =
     (case settings_of E raw of None \<Rightarrow> Inl BadJson
      | Some m \<Rightarrow> if setting m ''dir'' = [] then Inl (BadSink ''file'') else Inr (FileSink (setting m ''dir'')))"

definition sink_factory :: "string \<Rightarrow> (crash_env \<Rightarrow> string \<Rightarrow> (crash_error, sink) result) option" where
  "sink_factory kind =
     (if kind = ''discord'' then Some newDiscord else if kind = ''telegram'' then Some newTelegram
      else if kind = ''http'' then Some newWebhook else if kind = ''file'' then Some newFile else None)"

definition SinkNames :: "string list" where
  "SinkNames = sort [''discord'', ''telegram'', ''http'', ''file'']"

definition safe_char :: "char \<Rightarrow> bool" where
  "safe_char c \<longleftrightarrow> (let n = (of_char c :: nat) in
     of_char CHR ''a'' \<le> n \<and> n \<le> of_char CHR ''z'' \<or> of_char CHR ''A'' \<le> n \<and> n \<le> of_char CHR ''Z'' \<or> is_digit c \<or> c = CHR ''-'' \<or> c = CHR ''_'')"

definition safe :: "string \<Rightarrow> string" where
  "safe v =
     (let cleaned = concat (map (\<lambda>r. if length r = 1 \<and> safe_char (hd r) then r else ''-'') (runes v))
      in if cleaned = [] then ''unknown'' else cleaned)"

definition post :: "crash_env \<Rightarrow> string \<Rightarrow> payload \<Rightarrow> outside \<Rightarrow> bool \<times> outside" where
  "post E url p w = (if \<not> valid_url E url then (False, w) else (answers E (length (posts w)), w\<lparr>posts := posts w @ [(url, p)]\<rparr>))"

definition discord_send :: "crash_env \<Rightarrow> string \<Rightarrow> string \<Rightarrow> crash_report \<Rightarrow> outside \<Rightarrow> bool \<times> outside" where
  "discord_send E url name r w =
     post E url (DiscordPost (Title E r) (report_text E r) name
       (if trim_space (RLog r) \<noteq> [] then Some (report_name r, trim_space (RLog r)) else None)) w"

definition caption :: "crash_env \<Rightarrow> crash_report \<Rightarrow> string" where
  "caption E r =
     (let c = Title E r @ [CHR 0x0A, CHR 0x0A] @ report_text E r in if length (runes c) > 1000 then take_runes 1000 c else c)"

definition telegram_send :: "crash_env \<Rightarrow> string \<Rightarrow> string \<Rightarrow> crash_report \<Rightarrow> outside \<Rightarrow> bool \<times> outside" where
  "telegram_send E token chat r w =
     (let log = (if trim_space (RLog r) = [] then ru E WordEmptyLog else trim_space (RLog r)) in
      post E (''https://api.telegram.org/bot'' @ token @ ''/sendDocument'') (TelegramPost chat (caption E r) (report_name r) log) w)"

definition file_name :: "crash_env \<Rightarrow> instant \<Rightarrow> crash_report \<Rightarrow> string" where
  "file_name E now r =
     (let moment = (if RHappened r = zero_time then now else RHappened r) in
      if RKind r = LauncherLog then stamp_of E moment @ ''-'' @ safe (who E r) @ ''-launcher.log''
      else stamp_of E moment @ ''-'' @ safe (RPlayer r) @ ''.log'')"

definition file_body :: "crash_env \<Rightarrow> crash_report \<Rightarrow> string" where
  "file_body E r = Title E r @ [CHR 0x0A, CHR 0x0A] @ report_text E r @ [CHR 0x0A, CHR 0x0A] @ trim_space (RLog r) @ [CHR 0x0A]"

definition file_send :: "crash_env \<Rightarrow> instant \<Rightarrow> string \<Rightarrow> crash_report \<Rightarrow> outside \<Rightarrow> bool \<times> outside" where
  "file_send E now dir r w =
     (let path = path_join [dir, file_name E now r] in
      if can_write E path then (True, w\<lparr>report_files := store path (file_body E r) (report_files w)\<rparr>) else (False, w))"

definition Send :: "crash_env \<Rightarrow> instant \<Rightarrow> sink \<Rightarrow> crash_report \<Rightarrow> outside \<Rightarrow> bool \<times> outside" where
  "Send E now s r w =
     (case s of
        Discord url name \<Rightarrow> discord_send E url name r w
      | Telegram token chat \<Rightarrow> telegram_send E token chat r w
      | Webhook url headers \<Rightarrow> post E url (WebhookPost r headers) w
      | FileSink dir \<Rightarrow> file_send E now dir r w)"

section \<open>The service\<close>

record crash_config =
  CEnabled :: bool
  MaxPerHour :: int
  CAnonymous :: "bool option"
  AnonymousPerHour :: int
  CSinks :: "(string, string \<times> string) amap"

record crash_service =
  sinks :: "sink list"
  report_limit :: int
  anonymous_on :: bool
  anonymous_limit :: int

type_synonym recent_reports = "(string, instant list) amap"

definition acceptsAnonymous :: "crash_config \<Rightarrow> bool" where
  "acceptsAnonymous c = (case CAnonymous c of None \<Rightarrow> True | Some b \<Rightarrow> b)"

fun build_sinks :: "crash_env \<Rightarrow> (string, string \<times> string) amap \<Rightarrow> string list \<Rightarrow> (crash_error, sink list) result" where
  "build_sinks E m [] = Inr []"
| "build_sinks E m (name # names) =
     (case lookup m name of
        None \<Rightarrow> build_sinks E m names
      | Some (kind, raw) \<Rightarrow>
          (case sink_factory kind of
             None \<Rightarrow> Inl (UnknownSink kind)
           | Some factory \<Rightarrow> bind_res (factory E raw) (\<lambda>s. bind_res (build_sinks E m names) (\<lambda>ss. Inr (s # ss)))))"

definition New_crash :: "crash_env \<Rightarrow> crash_config option \<Rightarrow> (crash_error, crash_service option) result" where
  "New_crash E conf =
     (case conf of
        None \<Rightarrow> Inr None
      | Some c \<Rightarrow>
          if \<not> CEnabled c then Inr None
          else bind_res (build_sinks E (CSinks c) (sort (map fst (CSinks c))))
            (\<lambda>ss. if ss = [] then Inl NoSinks
              else Inr (Some \<lparr>sinks = ss, report_limit = (if MaxPerHour c \<le> 0 then 20 else MaxPerHour c), anonymous_on = acceptsAnonymous c,
                 anonymous_limit = (if AnonymousPerHour c \<le> 0 then 3 else AnonymousPerHour c)\<rparr>)))"

definition forgetStale :: "instant \<Rightarrow> recent_reports \<Rightarrow> recent_reports" where
  "forgetStale deadline m = keep_if (\<lambda>_ ms. \<not> (ms = [] \<or> last ms < deadline)) m"

definition moments :: "string \<Rightarrow> recent_reports \<Rightarrow> instant list" where
  "moments x m = (case lookup m x of None \<Rightarrow> [] | Some ms \<Rightarrow> ms)"

text \<open>The clock is read for the deadline and again for the entry.\<close>

definition allow :: "instant \<Rightarrow> instant \<Rightarrow> string \<Rightarrow> int \<Rightarrow> recent_reports \<Rightarrow> bool \<times> recent_reports" where
  "allow t1 t2 sender limit m =
     (let deadline = t1 - hour;
          kept = filter (\<lambda>x. x > deadline) (moments sender m);
          m = forgetStale deadline (if kept = [] then remove sender m else store sender kept m)
      in if int (length kept) \<ge> limit then (False, m) else (True, store sender (moments sender m @ [t2]) m))"

record crash_state =
  recent :: recent_reports
  world :: outside

record crash_times =
  at_deadline :: instant
  at_entry :: instant
  at_file :: instant

fun send_all :: "crash_env \<Rightarrow> instant \<Rightarrow> crash_report \<Rightarrow> sink list \<Rightarrow> outside \<Rightarrow> nat \<times> outside" where
  "send_all E now r [] w = (0, w)"
| "send_all E now r (s # ss) w =
     (case Send E now s r w of (ok, w) \<Rightarrow> (case send_all E now r ss w of (lost, w) \<Rightarrow> (if ok then lost else Suc lost, w)))"

definition deliver :: "crash_env \<Rightarrow> instant \<Rightarrow> crash_service \<Rightarrow> crash_report \<Rightarrow> outside \<Rightarrow> crash_error option \<times> outside" where
  "deliver E now S r w =
     (case send_all E now r (sinks S) w of (lost, w) \<Rightarrow> (if lost = length (sinks S) then Some Undelivered else None, w))"

definition Accept :: "crash_env \<Rightarrow> crash_times \<Rightarrow> crash_service option \<Rightarrow> crash_report \<Rightarrow> crash_state \<Rightarrow> crash_error option \<times> crash_state" where
  "Accept E t S r st =
     (case S of
        None \<Rightarrow> (Some ReportsDisabled, st)
      | Some S \<Rightarrow>
          (case allow (at_deadline t) (at_entry t) (RPlayer r) (report_limit S) (recent st) of
             (False, m) \<Rightarrow> (Some EnoughReports, st\<lparr>recent := m\<rparr>)
           | (True, m) \<Rightarrow> (case deliver E (at_file t) S r (world st) of (e, w) \<Rightarrow> (e, \<lparr>recent = m, world = w\<rparr>))))"

definition AcceptAnonymous :: "crash_env \<Rightarrow> crash_times \<Rightarrow> crash_service option \<Rightarrow> crash_report \<Rightarrow> string \<Rightarrow> crash_state
    \<Rightarrow> crash_error option \<times> crash_state" where
  "AcceptAnonymous E t S r address st =
     (case S of
        None \<Rightarrow> (Some ReportsDisabled, st)
      | Some S \<Rightarrow>
          if \<not> anonymous_on S then (Some AnonymousDisabled, st)
          else (case allow (at_deadline t) (at_entry t) (ru E WordAddressOf @ address) (anonymous_limit S) (recent st) of
             (False, m) \<Rightarrow> (Some EnoughReports, st\<lparr>recent := m\<rparr>)
           | (True, m) \<Rightarrow>
               (case deliver E (at_file t) S (r\<lparr>RPlayer := [], RUUID := [], RAddress := address\<rparr>) (world st) of
                  (e, w) \<Rightarrow> (e, \<lparr>recent = m, world = w\<rparr>))))"

section \<open>The requests\<close>

definition MaxLogBytes :: nat where "MaxLogBytes = 256 * 2 ^ 10"
definition MaxDetails :: nat where "MaxDetails = 32"
definition MaxDetailBytes :: nat where "MaxDetailBytes = 4 * 2 ^ 10"

text \<open>The range over the map stops at the limit; its order is that of the list.\<close>

fun take_details :: "(string, string) amap \<Rightarrow> (string, string) amap \<Rightarrow> (string, string) amap" where
  "take_details [] out = out"
| "take_details ((k, v) # rest) out = (if length out \<ge> MaxDetails then out else take_details rest (store k (take MaxDetailBytes v) out))"

definition boundedDetails :: "(string, string) amap \<Rightarrow> (string, string) amap" where
  "boundedDetails ds = (if length ds \<le> MaxDetails then ds else take_details ds [])"

definition describedReport :: "instant \<Rightarrow> report_kind \<Rightarrow> string \<Rightarrow> (string, string) amap \<Rightarrow> int \<Rightarrow> crash_report" where
  "describedReport now kind log ds happened =
     (let log = (if length log > MaxLogBytes then drop (length log - MaxLogBytes) log else log);
          ds = boundedDetails ds
      in \<lparr>RKind = kind, RPlayer = [], RAddress = [], RUUID = [], RBuild = [], RVersion = [], RLoader = [], RExitCode = 0, RLog = log,
          RDetails = ds, RHappened = (if happened > 0 then happened else now), RLauncher = setting ds ''launcher'',
          RPlatform = setting ds ''platform'', ROSVersion = setting ds ''os''\<rparr>)"

record wire_crash =
  WLog :: string
  WDetails :: "(string, string) amap"
  WHappened :: int
  WBuild :: string
  WVersion :: string
  WLoader :: string
  WExitCode :: int

datatype report_refusal = NotSignedIn | ReportsOff | EmptyReport

text \<open>The answer: refused, or accepted or not with the reason.\<close>

definition ReportCrash ::
    "('a, 'r, 's, 'h, 'ip, 'net) api \<Rightarrow> crash_env \<Rightarrow> crash_service option \<Rightarrow> times \<Rightarrow> crash_times \<Rightarrow> string list \<Rightarrow> wire_crash option \<Rightarrow> header \<Rightarrow>
     ('a, 'r, 's, 'h) api_state \<times> crash_state \<Rightarrow> (report_refusal, crash_error option) result \<times> ('a, 'r, 's, 'h) api_state \<times> crash_state" where
  "ReportCrash P E S t ct order incoming h stc =
     (case stc of (st, cs) \<Rightarrow>
      case subjectOf P t order h st of
        ((s, state), st) \<Rightarrow>
          if state \<noteq> TokenValid then (Inl NotSignedIn, st, cs)
          else if S = None then (Inl ReportsOff, st, cs)
          else (case incoming of
              None \<Rightarrow> (Inl EmptyReport, st, cs)
            | Some c \<Rightarrow>
                (let r = (describedReport (at_file ct) GameCrash (WLog c) (WDetails c) (WHappened c))
                   \<lparr>RPlayer := Access.subject.Username s, RUUID := UUID s, RBuild := WBuild c, RVersion := WVersion c, RLoader := WLoader c,
                    RExitCode := WExitCode c\<rparr>
                 in case Accept E ct S r cs of (e, cs) \<Rightarrow> (Inr e, st, cs))))"

definition ReportLauncherLog ::
    "('a, 'r, 's, 'h, 'ip, 'net) api \<Rightarrow> crash_env \<Rightarrow> crash_service option \<Rightarrow> times \<Rightarrow> crash_times \<Rightarrow> string list \<Rightarrow> wire_crash option \<Rightarrow> header \<Rightarrow> string \<Rightarrow>
     ('a, 'r, 's, 'h) api_state \<times> crash_state \<Rightarrow> (report_refusal, crash_error option) result \<times> ('a, 'r, 's, 'h) api_state \<times> crash_state" where
  "ReportLauncherLog P E S t ct order incoming h peer stc =
     (case stc of (st, cs) \<Rightarrow>
      if S = None then (Inl ReportsOff, st, cs)
      else (case incoming of
          None \<Rightarrow> (Inl EmptyReport, st, cs)
        | Some c \<Rightarrow>
            (let r = describedReport (at_file ct) LauncherLog (WLog c) (WDetails c) (WHappened c) in
             case subjectOf P t order h st of
               ((s, state), st) \<Rightarrow>
                 (case (if state = TokenValid then Accept E ct S (r\<lparr>RPlayer := Access.subject.Username s, RUUID := UUID s\<rparr>) cs
                        else AcceptAnonymous E ct S r (Of (api_addr P) (api_proxies P) h peer) cs) of
                    (e, cs) \<Rightarrow> (Inr e, st, cs)))))"

section \<open>The limit of an hour\<close>

record allow_call =
  call_deadline :: instant
  call_entry :: instant
  call_sender :: string
  call_limit :: int

fun allow_run :: "allow_call list \<Rightarrow> recent_reports \<Rightarrow> recent_reports" where
  "allow_run [] m = m"
| "allow_run (c # cs) m = allow_run cs (snd (allow (call_deadline c) (call_entry c) (call_sender c) (call_limit c) m))"

fun accepted_at :: "string \<Rightarrow> allow_call list \<Rightarrow> recent_reports \<Rightarrow> instant list" where
  "accepted_at x [] m = []"
| "accepted_at x (c # cs) m =
     (case allow (call_deadline c) (call_entry c) (call_sender c) (call_limit c) m of
        (ok, m) \<Rightarrow> (if ok \<and> call_sender c = x then [call_entry c] else []) @ accepted_at x cs m)"

text \<open>The clock does not go back.\<close>

fun clock_ok :: "instant \<Rightarrow> allow_call list \<Rightarrow> bool" where
  "clock_ok t [] \<longleftrightarrow> True"
| "clock_ok t (c # cs) \<longleftrightarrow> t \<le> call_deadline c \<and> call_deadline c \<le> call_entry c \<and> clock_ok (call_entry c) cs"

text \<open>At the moment \<open>t\<close>, the service remembers of the accepted moments all that are less than an hour old.\<close>

definition since :: "instant \<Rightarrow> instant list \<Rightarrow> instant list" where
  "since d ms = filter (\<lambda>x. x > d) ms"

definition remembers :: "instant \<Rightarrow> string \<Rightarrow> instant list \<Rightarrow> recent_reports \<Rightarrow> bool" where
  "remembers t x acc m \<longleftrightarrow> keys_ok m \<and> (\<forall>y. sorted (moments y m) \<and> (\<forall>a \<in> set (moments y m). a \<le> t)) \<and> (\<forall>a \<in> set acc. a \<le> t) \<and>
     since (t - hour) (moments x m) = since (t - hour) acc"

lemma since_since: "d \<le> d' \<Longrightarrow> since d' (since d ms) = since d' ms"
  by (induction ms) (auto simp: since_def)

lemma since_later: "since d ms = since d ns \<Longrightarrow> d \<le> d' \<Longrightarrow> since d' ms = since d' ns"
  by (metis since_since)

lemma since_last: "sorted ms \<Longrightarrow> ms \<noteq> [] \<Longrightarrow> last ms < d \<Longrightarrow> since d ms = []"
  by (induction ms rule: rev_induct) (auto simp: since_def sorted_append filter_empty_conv)

lemma moments_forget:
  assumes "keys_ok m" "\<forall>y. sorted (moments y m)"
  shows "since d (moments y (forgetStale d m)) = since d (moments y m)" "sorted (moments y (forgetStale d m))"
    "set (moments y (forgetStale d m)) \<subseteq> set (moments y m)" "keys_ok (forgetStale d m)"
    "moments y m \<noteq> [] \<Longrightarrow> d \<le> last (moments y m) \<Longrightarrow> moments y (forgetStale d m) = moments y m"
proof -
  have look: "lookup (forgetStale d m) y = (case lookup m y of None \<Rightarrow> None | Some ms \<Rightarrow> if ms = [] \<or> last ms < d then None else Some ms)"
    using assms(1) by (auto simp: forgetStale_def lookup_keep_if split: option.splits)
  have s: "sorted (moments y m)" using assms(2) by blast
  show "keys_ok (forgetStale d m)" using assms(1) by (simp add: forgetStale_def)
  show "moments y m \<noteq> [] \<Longrightarrow> d \<le> last (moments y m) \<Longrightarrow> moments y (forgetStale d m) = moments y m"
    using look by (auto simp: moments_def split: option.splits)
  show "sorted (moments y (forgetStale d m))" "set (moments y (forgetStale d m)) \<subseteq> set (moments y m)"
    using look s by (auto simp: moments_def split: option.splits)
  show "since d (moments y (forgetStale d m)) = since d (moments y m)"
  proof (cases "lookup m y")
    case (Some ms)
    have "last ms < d \<Longrightarrow> since d ms = []" using since_last[of ms d] s Some by (cases "ms = []") (simp_all add: moments_def since_def)
    then show ?thesis using look Some by (cases "ms = []") (auto simp: moments_def since_def)
  qed (use look in \<open>simp add: moments_def\<close>)
qed

lemma allow_remembers:
  assumes "remembers t x acc m" "t \<le> t1" "t1 \<le> t2" "allow t1 t2 y l m = (ok, m')"
  shows "remembers t2 x (acc @ (if ok \<and> y = x then [t2] else [])) m'"
    "ok \<Longrightarrow> y = x \<Longrightarrow> int (length (since (t1 - hour) acc)) < l"
proof -
  let ?d = "t1 - hour"
  let ?kept = "since ?d (moments y m)"
  let ?m1 = "if ?kept = [] then remove y m else store y ?kept m"
  let ?m2 = "forgetStale ?d ?m1"
  have keys: "keys_ok m" and srt: "\<forall>z. sorted (moments z m)" and old: "\<forall>z. \<forall>a \<in> set (moments z m). a \<le> t"
    and accs: "\<forall>a \<in> set acc. a \<le> t" and same: "since (t - hour) (moments x m) = since (t - hour) acc"
    using assms(1) by (auto simp: remembers_def)
  have m': "ok \<longleftrightarrow> int (length ?kept) < l" "m' = (if ok then store y (moments y ?m2 @ [t2]) ?m2 else ?m2)"
    using assms(4) by (auto simp: allow_def Let_def since_def split: if_splits)
  have mom1: "moments z ?m1 = (if z = y then ?kept else moments z m)" for z by (auto simp: moments_def)
  have keys1: "keys_ok ?m1" using keys by simp
  have srt1: "\<forall>z. sorted (moments z ?m1)" using srt mom1 by (simp add: since_def sorted_wrt_filter)
  have sub1: "set (moments z ?m1) \<subseteq> set (moments z m)" for z using mom1 by (auto simp: since_def)
  note f = moments_forget[OF keys1 srt1, where d = ?d]
  have since2: "since ?d (moments z ?m2) = since ?d (moments z m)" for z
    using f(1)[where y = z] mom1[of z] since_since[of ?d ?d "moments y m"] by (cases "z = y") simp_all
  have le2: "\<forall>a \<in> set (moments z ?m2). a \<le> t" for z using f(3)[where y = z] sub1[of z] old by blast
  have eq: "since ?d (moments x m) = since ?d acc" using since_later[OF same] assms(2) by simp
  have le: "t \<le> t2" using assms(2,3) by simp
  have part: "sorted (moments z m')" "\<forall>a \<in> set (moments z m'). a \<le> t2" for z
  proof -
    have shape: "moments z m' = (if ok \<and> z = y then moments y ?m2 @ [t2] else moments z ?m2)" using m'(2) by (auto simp: moments_def)
    have bound: "\<forall>a \<in> set (moments u ?m2). a \<le> t2" for u using le2[of u] le by (meson order_trans)
    show "\<forall>a \<in> set (moments z m'). a \<le> t2"
    proof (cases "ok \<and> z = y")
      case True
      then have "moments z m' = moments y ?m2 @ [t2]" using shape by metis
      then show ?thesis using bound[of y] by simp
    next
      case False
      then have "moments z m' = moments z ?m2" using shape by metis
      then show ?thesis using bound[of z] by simp
    qed
    show "sorted (moments z m')"
    proof (cases "ok \<and> z = y")
      case True
      then have "moments z m' = moments y ?m2 @ [t2]" using shape by metis
      moreover have "sorted (moments y ?m2)" by (rule f(2))
      ultimately show ?thesis using bound[of y] by (simp add: sorted_append)
    next
      case False
      then have "moments z m' = moments z ?m2" using shape by metis
      moreover have "sorted (moments z ?m2)" by (rule f(2))
      ultimately show ?thesis by simp
    qed
  qed
  have "since ?d (moments x m') = since ?d (acc @ (if ok \<and> y = x then [t2] else []))"
  proof (cases "ok \<and> y = x")
    case True
    then have "moments x m' = moments x ?m2 @ [t2]" using m'(2) by (simp add: moments_def)
    then show ?thesis using True since2[of x] eq by (simp add: since_def)
  next
    case False
    then have "moments x m' = moments x ?m2" using m'(2) by (auto simp: moments_def)
    then show ?thesis using False since2[of x] eq by auto
  qed
  then have "since (t2 - hour) (moments x m') = since (t2 - hour) (acc @ (if ok \<and> y = x then [t2] else []))"
    by (rule since_later) (use assms(3) in simp)
  moreover have "keys_ok m'" using m'(2) f(4) by simp
  moreover have "\<forall>a \<in> set (acc @ (if ok \<and> y = x then [t2] else [])). a \<le> t2" using accs le by fastforce
  moreover have "\<forall>z. sorted (moments z m') \<and> (\<forall>a \<in> set (moments z m'). a \<le> t2)" using part by blast
  ultimately show "remembers t2 x (acc @ (if ok \<and> y = x then [t2] else [])) m'" unfolding remembers_def by blast
  show "ok \<Longrightarrow> y = x \<Longrightarrow> int (length (since ?d acc)) < l" using m'(1) eq by simp
qed

text \<open>The accepted moments in an hour that ends at \<open>T\<close>.\<close>

definition within :: "instant \<Rightarrow> instant list \<Rightarrow> instant list" where
  "within T acc = filter (\<lambda>a. T - hour < a \<and> a \<le> T) acc"

lemma within_snoc:
  assumes "\<forall>a \<in> set acc. a \<le> t1" "t1 \<le> t2" "int (length (since (t1 - hour) acc)) < l" "int (length (within T acc)) \<le> l"
  shows "int (length (within T (acc @ [t2]))) \<le> l"
proof (cases "T - hour < t2 \<and> t2 \<le> T")
  case True
  have "length (within T acc) \<le> length (since (t1 - hour) acc)"
  proof -
    have "filter (\<lambda>a. T - hour < a \<and> a \<le> T) (since (t1 - hour) acc) = within T acc"
      using True assms(2) by (auto simp: since_def within_def intro!: filter_cong)
    then show ?thesis by (metis length_filter_le)
  qed
  then show ?thesis using True assms(3) by (simp add: within_def)
qed (use assms(4) in \<open>auto simp: within_def\<close>)

lemma hour_bound:
  "clock_ok t cs \<Longrightarrow> remembers t x acc m \<Longrightarrow> \<forall>c \<in> set cs. call_sender c = x \<longrightarrow> call_limit c = l \<Longrightarrow>
    (\<forall>T. int (length (within T acc)) \<le> l) \<Longrightarrow> int (length (within T (acc @ accepted_at x cs m))) \<le> l"
proof (induction cs arbitrary: t acc m)
  case (Cons c cs)
  let ?c = "call_deadline c" and ?e = "call_entry c"
  obtain ok m' where a: "allow ?c ?e (call_sender c) (call_limit c) m = (ok, m')" by fastforce
  have le: "t \<le> ?c" "?c \<le> ?e" "clock_ok ?e cs" using Cons.prems(1) by simp_all
  let ?new = "if ok \<and> call_sender c = x then [?e] else []"
  have rem: "remembers ?e x (acc @ ?new) m'" using allow_remembers(1)[OF Cons.prems(2) le(1,2) a] .
  have "\<forall>a \<in> set acc. a \<le> ?c" using Cons.prems(2) le(1) by (auto simp: remembers_def)
  then have "int (length (within T (acc @ ?new))) \<le> l" for T
    using within_snoc[OF _ le(2)] allow_remembers(2)[OF Cons.prems(2) le(1,2) a] Cons.prems(3,4) by auto
  then have "int (length (within T ((acc @ ?new) @ accepted_at x cs m'))) \<le> l"
    using Cons.IH[OF le(3) rem] Cons.prems(3) by simp
  then show ?case using a by simp
qed simp

text \<open>
  A sender never gets more reports accepted than its limit within an hour, whatever other senders do in between: for calls
  whose clock does not go back, starting with nothing remembered, at most \<open>l\<close> of the moments at which reports of \<open>x\<close> were
  accepted lie in any stretch of one hour.
\<close>

theorem reports_per_hour:
  assumes "clock_ok t cs" "\<forall>c \<in> set cs. call_sender c = x \<longrightarrow> call_limit c = l" "0 \<le> l"
  shows "int (length (within T (accepted_at x cs []))) \<le> l"
proof -
  have "remembers t x [] []" by (simp add: remembers_def moments_def since_def)
  moreover have "\<forall>T. int (length (within T [])) \<le> l" using assms(3) by (simp add: within_def)
  ultimately show ?thesis using hour_bound[OF assms(1) _ assms(2), of "[]"] by simp
qed

definition amy_call :: "int \<Rightarrow> allow_call" where
  "amy_call minutes = \<lparr>call_deadline = minutes * minute, call_entry = minutes * minute, call_sender = ''amy'', call_limit = 2\<rparr>"

theorem reports_per_hour_witness:
  "accepted_at ''amy'' (map amy_call [0, 10, 20, 61]) [] = [0, 10 * minute, 61 * minute] \<and>
    int (length (within (61 * minute) (accepted_at ''amy'' (map amy_call [0, 10, 20, 61]) []))) \<le> 2"
proof -
  have "clock_ok 0 (map amy_call [0, 10, 20, 61])" by (simp add: amy_call_def minute_def second_def)
  moreover have "\<forall>c \<in> set (map amy_call [0, 10, 20, 61]). call_sender c = ''amy'' \<longrightarrow> call_limit c = 2" by (simp add: amy_call_def)
  moreover have "(0 :: int) \<le> 2" by simp
  ultimately have bound: "int (length (within (61 * minute) (accepted_at ''amy'' (map amy_call [0, 10, 20, 61]) []))) \<le> 2"
    by (rule reports_per_hour)
  have "accepted_at ''amy'' (map amy_call [0, 10, 20, 61]) [] = [0, 10 * minute, 61 * minute]"
    by (simp add: amy_call_def allow_def moments_def forgetStale_def keep_if_def hour_def minute_def second_def)
  then show ?thesis using bound by simp
qed

section \<open>The files of the reports\<close>

lemma safe_plain: "c \<in> set (safe v) \<Longrightarrow> safe_char c"
proof -
  assume c: "c \<in> set (safe v)"
  have dash: "safe_char CHR ''-''" by (simp add: safe_char_def Let_def)
  have unknown: "\<forall>c \<in> set ''unknown''. safe_char c" by (simp add: safe_char_def Let_def)
  define cleaned where "cleaned = concat (map (\<lambda>r. if length r = 1 \<and> safe_char (hd r) then r else ''-'') (runes v))"
  have "\<forall>c \<in> set cleaned. safe_char c" using dash by (auto simp: cleaned_def length_Suc_conv split: if_splits)
  moreover have "safe v = (if cleaned = [] then ''unknown'' else cleaned)" by (simp only: safe_def Let_def cleaned_def)
  ultimately show ?thesis using c unknown by (metis (no_types))
qed

lemma safe_ne: "safe v \<noteq> []"
  by (simp add: safe_def Let_def)

definition stamps_ok :: "crash_env \<Rightarrow> bool" where
  "stamps_ok E \<longleftrightarrow> (\<forall>t. stamp_of E t \<noteq> [] \<and> CHR ''/'' \<notin> set (stamp_of E t) \<and> hd (stamp_of E t) \<noteq> CHR ''.'')"

lemma file_name_plain: "stamps_ok E \<Longrightarrow> plain_seg (file_name E now r)"
proof -
  assume E: "stamps_ok E"
  have "\<not> safe_char CHR ''/''" by (simp add: safe_char_def is_digit_def Let_def)
  then have no: "CHR ''/'' \<notin> set (safe v)" for v using safe_plain by blast
  have "CHR ''/'' \<notin> set (file_name E now r)" using E no by (auto simp: file_name_def Let_def stamps_ok_def)
  moreover have "file_name E now r \<noteq> []" by (simp add: file_name_def Let_def)
  moreover have "hd (file_name E now r) \<noteq> CHR ''.''" using E by (simp add: file_name_def Let_def stamps_ok_def)
  ultimately show ?thesis unfolding plain_seg_def by auto
qed

text \<open>
  A report of a player goes to a file in the directory of the reports, directly: the path is the directory, a separator and a
  name without one.
\<close>

lemma report_stays_in_directory:
  assumes "stamps_ok E" "dir \<noteq> []" "Clean dir \<noteq> ''.''" "Clean dir \<noteq> ''/''"
  shows "path_join [dir, file_name E now r] = Clean dir @ ''/'' @ file_name E now r"
proof -
  let ?f = "file_name E now r"
  have f: "plain_seg ?f" by (rule file_name_plain[OF assms(1)])
  then have ne: "?f \<noteq> []" by (simp add: plain_seg_def)
  then have "path_join [dir, ?f] = Clean (dir @ CHR ''/'' # ?f)" using assms(2) by (simp add: path_join_def)
  then show ?thesis using Clean_append[OF assms(2), of "[?f]"] f assms(3,4) by simp
qed

text \<open>
  The name of a file is the second and the sender, and a launcher says when its report happened: of two logs of senders who are
  not signed in, with the same second, only the later one is left, and both were delivered.
\<close>

lemma same_second_overwrites:
  assumes "RKind r1 = LauncherLog" "RKind r2 = LauncherLog" "RPlayer r1 = RPlayer r2" "RHappened r1 \<noteq> zero_time" "RHappened r2 \<noteq> zero_time"
    "stamp_of E (RHappened r1) = stamp_of E (RHappened r2)" "file_send E t1 dir r1 w = (True, w1)"
  shows "\<exists>w2. file_send E t2 dir r2 w1 = (True, w2) \<and> map fst (report_files w2) = map fst (report_files w1) \<and>
    lookup (report_files w2) (path_join [dir, file_name E t1 r1]) = Some (file_body E r2)"
proof -
  have name: "file_name E t2 r2 = file_name E t1 r1" using assms by (simp add: file_name_def who_def Let_def)
  let ?p = "path_join [dir, file_name E t1 r1]"
  have w: "can_write E ?p" "w1 = w\<lparr>report_files := store ?p (file_body E r1) (report_files w)\<rparr>"
    using assms(7) by (auto simp: file_send_def Let_def split: if_splits)
  have "map fst (store k u (store k v m)) = map fst (store k v m)" for k and u v :: string and m
    by (induction m) auto
  then show ?thesis using w name by (simp add: file_send_def Let_def)
qed

text \<open>The bound on the size of a detail is not reached while there are few of them.\<close>

lemma few_details_unbounded: "length ds \<le> MaxDetails \<Longrightarrow> boundedDetails ds = ds"
  by (simp add: boundedDetails_def)

lemma many_details_bounded:
  assumes "MaxDetails < length ds"
  shows "length (boundedDetails ds) \<le> MaxDetails \<and> (\<forall>(k, v) \<in> set (boundedDetails ds). length v \<le> MaxDetailBytes)"
proof -
  have taken: "length out \<le> MaxDetails \<Longrightarrow> (\<forall>(k, v) \<in> set out. length v \<le> MaxDetailBytes) \<Longrightarrow>
    length (take_details ds out) \<le> MaxDetails \<and> (\<forall>(k, v) \<in> set (take_details ds out). length v \<le> MaxDetailBytes)" for out
  proof (induction ds out rule: take_details.induct)
    case (2 k v rest out)
    show ?case
    proof (cases "MaxDetails \<le> length out")
      case False
      let ?out = "store k (take MaxDetailBytes v) out"
      have "length ?out \<le> MaxDetails" using False by (simp add: length_store)
      moreover have "set ?out \<subseteq> insert (k, take MaxDetailBytes v) (set out)" by (induction out) auto
      then have "\<forall>(k, v) \<in> set ?out. length v \<le> MaxDetailBytes" using 2(3) by fastforce
      ultimately show ?thesis using 2(1) False by simp
    qed (use 2 in simp)
  qed simp
  have "boundedDetails ds = take_details ds []" using assms by (simp add: boundedDetails_def)
  then show ?thesis using taken[of "[]"] by simp
qed

text \<open>A log that comes without a session names no player, whatever was sent.\<close>

lemma anonymous_names_nobody:
  assumes "anonymous_on S" "fst (allow (at_deadline t) (at_entry t) (ru E WordAddressOf @ address) (anonymous_limit S) (recent st))"
  shows "\<exists>r'. RPlayer r' = [] \<and> RUUID r' = [] \<and> RAddress r' = address \<and>
    world (snd (AcceptAnonymous E t (Some S) r address st)) = snd (deliver E (at_file t) S r' (world st))"
  using assms by (intro exI[of _ "r\<lparr>RPlayer := [], RUUID := [], RAddress := address\<rparr>"])
    (auto simp: AcceptAnonymous_def split: prod.splits bool.splits)

end
