(* ===== verification/News.thy ===== *)
theory News
  imports SafePath Base64 Runes
begin

text \<open>
  The news that the launcher shows (package \<open>news\<close>: \<open>news.go\<close>, \<open>sources.go\<close>, \<open>banner.go\<close>, \<open>check.go\<close>, and \<open>mediatype\<close>): a
  document from a file or from an address, cut to what a launcher may show, with its pictures put into the answer.

  The JSON of a document and of the settings, the answers of other hosts, the disk and the clock are fields of the environment
  of a call; \<open>strings.ToLower\<close> outside of ASCII and the pattern of markup are parameters. The question to an address is two
  steps, since the lock is released while it is asked.

  The theorems: whatever a source says, an item that is shown has a title, texts of bounded length and a link that leads to the
  web; a source that is not a file of this server makes it read none; there is at most one question under way and at most 64
  pictures are kept; and a document that cannot be read empties the news.
\<close>

section \<open>Media types\<close>

definition media_types :: "(string \<times> string) list" where
  "media_types = [(''.svg'', ''image/svg+xml''), (''.png'', ''image/png''), (''.jpg'', ''image/jpeg''), (''.jpeg'', ''image/jpeg''),
     (''.webp'', ''image/webp''), (''.gif'', ''image/gif''), (''.mp4'', ''video/mp4''), (''.webm'', ''video/webm'')]"

text \<open>\<open>filepath.Ext\<close>: from the last dot of the last segment.\<close>

definition file_ext :: "string \<Rightarrow> string" where
  "file_ext p =
     (let base = last (split_on CHR ''/'' p) in
      if CHR ''.'' \<in> set base then CHR ''.'' # last (split_on CHR ''.'' base) else [])"

definition byExt :: "(string \<Rightarrow> string) \<Rightarrow> string \<Rightarrow> string" where
  "byExt ulow name =
     (case lookup media_types (to_lower ulow (file_ext (hd (split_on CHR ''?'' name)))) of None \<Rightarrow> [] | Some m \<Rightarrow> m)"

definition byDeclared :: "(string \<Rightarrow> string) \<Rightarrow> string \<Rightarrow> string" where
  "byDeclared ulow declared =
     (case List.find (\<lambda>k. has_prefix (to_lower ulow (trim_space declared)) (snd k)) media_types of None \<Rightarrow> [] | Some k \<Rightarrow> snd k)"

definition isImage :: "string \<Rightarrow> bool" where
  "isImage mime = has_prefix mime ''image/''"

definition Guess :: "(string \<Rightarrow> string) \<Rightarrow> string \<Rightarrow> string \<Rightarrow> string" where
  "Guess ulow name declared =
     (if byExt ulow name \<noteq> [] then byExt ulow name
      else if byDeclared ulow declared \<noteq> [] then byDeclared ulow declared else ''application/octet-stream'')"

definition GuessImage :: "(string \<Rightarrow> string) \<Rightarrow> string \<Rightarrow> string \<Rightarrow> string" where
  "GuessImage ulow name declared =
     (if isImage (byExt ulow name) then byExt ulow name
      else if isImage (byDeclared ulow declared) then byDeclared ulow declared else ''image/png'')"

lemma GuessImage_image: "isImage (GuessImage ulow name declared)"
  by (simp add: GuessImage_def isImage_def has_prefix_def)

section \<open>The document\<close>

record news_item =
  NewsID :: string
  NewsTitle :: string
  NewsBody :: string
  PublishedAt :: instant
  NewsTag :: string
  NewsLink :: string
  NewsBanner :: string

text \<open>A slice that is \<open>nil\<close> is \<open>None\<close>.\<close>

type_synonym news = "news_item list option"

definition list_of :: "news \<Rightarrow> news_item list" where
  "list_of n = (case n of None \<Rightarrow> [] | Some xs \<Rightarrow> xs)"

record news_env =
  decode_list :: "string \<Rightarrow> news option"
  decode_document :: "string \<Rightarrow> news option"
  ulow :: "string \<Rightarrow> string"
  markup :: "string \<Rightarrow> bool"
  settings_text :: "string \<Rightarrow> string \<Rightarrow> string option"
  duration_text :: "string \<Rightarrow> nanos option"

datatype news_error = BadDocument | NoPath | NoAddress | BadSettings | BadDuration | SourceDown | UnknownSource string

definition parse :: "news_env \<Rightarrow> string \<Rightarrow> (news_error, news) result" where
  "parse E data =
     (let trimmed = trim_space data in
      if trimmed = [] then Inr None
      else (case decode_list E trimmed of
          Some items \<Rightarrow> Inr items
        | None \<Rightarrow> (case decode_document E trimmed of None \<Rightarrow> Inl BadDocument | Some items \<Rightarrow> Inr items)))"

section \<open>The sources\<close>

text \<open>What a call finds on the disk: the time and the size of the file, and its bytes, when they can be read.\<close>

record file_source =
  file_items :: news
  file_stamp :: string

definition stamp :: "int \<times> int \<Rightarrow> string" where
  "stamp ms = itoa (fst ms) @ '':'' @ itoa (snd ms)"

definition file_Items :: "news_env \<Rightarrow> (int \<times> int) option \<Rightarrow> string option \<Rightarrow> file_source \<Rightarrow> (news \<times> news_error option) \<times> file_source" where
  "file_Items E stat data f =
     (case stat of
        None \<Rightarrow> ((file_items f, None), f)
      | Some ms \<Rightarrow>
          if file_items f \<noteq> None \<and> stamp ms = file_stamp f then ((file_items f, None), f)
          else (case data of
              None \<Rightarrow> ((file_items f, None), f)
            | Some d \<Rightarrow>
                (case parse E d of
                   Inl e \<Rightarrow> ((file_items f, Some e), f)
                 | Inr items \<Rightarrow> ((items, None), \<lparr>file_items = items, file_stamp = stamp ms\<rparr>))))"

text \<open>The settings of a source: \<open>settings_text raw name\<close> is a field of the JSON, \<open>None\<close> when it is no JSON.\<close>

definition newFileSource :: "news_env \<Rightarrow> string \<Rightarrow> (news_error, string) result" where
  "newFileSource E raw =
     (case (if raw = [] then Some [] else settings_text E raw ''path'') of
        None \<Rightarrow> Inl BadSettings | Some p \<Rightarrow> if p = [] then Inl NoPath else Inr p)"

record http_source =
  source_url :: string
  source_ttl :: nanos
  source_timeout :: nanos

definition news_duration :: "news_env \<Rightarrow> string \<Rightarrow> nanos \<Rightarrow> nanos option" where
  "news_duration E value instead = (if value = [] then Some instead else duration_text E value)"

definition setting_or :: "news_env \<Rightarrow> string \<Rightarrow> string \<Rightarrow> string" where
  "setting_or E raw name = (case settings_text E raw name of None \<Rightarrow> [] | Some v \<Rightarrow> v)"

definition newHTTPSource :: "news_env \<Rightarrow> string \<Rightarrow> (news_error, http_source) result" where
  "newHTTPSource E raw =
     (if raw \<noteq> [] \<and> settings_text E raw ''url'' = None then Inl BadSettings
      else if raw = [] \<or> setting_or E raw ''url'' = [] then Inl NoAddress
      else (case news_duration E (setting_or E raw ''timeout'') (5 * second) of
          None \<Rightarrow> Inl BadDuration
        | Some timeout \<Rightarrow>
            (case news_duration E (setting_or E raw ''cacheTTL'') (5 * minute) of
               None \<Rightarrow> Inl BadDuration
             | Some ttl \<Rightarrow> Inr \<lparr>source_url = setting_or E raw ''url'', source_ttl = ttl, source_timeout = timeout\<rparr>)))"

record http_cache =
  http_items :: news
  fetched :: instant
  asking :: bool

text \<open>The first half of \<open>Items\<close>: an answer, or \<open>None\<close> when the address has to be asked.\<close>

definition http_begin :: "http_source \<Rightarrow> instant \<Rightarrow> instant \<Rightarrow> http_cache \<Rightarrow> news option \<times> http_cache" where
  "http_begin S t1 t2 h =
     (if http_items h \<noteq> None \<and> t1 - fetched h < source_ttl S then (Some (http_items h), h)
      else if asking h then (Some (http_items h), h)
      else (None, h\<lparr>asking := True, fetched := t2\<rparr>))"

text \<open>An answer of the address: a status and a body, or nothing.\<close>

definition maxNewsBytes :: nat where "maxNewsBytes = 2 ^ 20"

definition ask :: "news_env \<Rightarrow> (int \<times> string option) option \<Rightarrow> (news_error, news) result" where
  "ask E reply =
     (case reply of
        None \<Rightarrow> Inl SourceDown
      | Some (status, body) \<Rightarrow>
          if status < 200 \<or> 300 \<le> status then Inl SourceDown
          else (case body of None \<Rightarrow> Inl SourceDown | Some b \<Rightarrow> parse E (take maxNewsBytes b)))"

definition http_finish :: "(news_error, news) result \<Rightarrow> http_cache \<Rightarrow> (news \<times> news_error option) \<times> http_cache" where
  "http_finish result h =
     (let kept = (case result of Inr items \<Rightarrow> items | Inl e \<Rightarrow> http_items h);
          items = (if kept = None then Some [] else kept)
      in ((items, case result of Inr i \<Rightarrow> None | Inl e \<Rightarrow> Some e), h\<lparr>asking := False, http_items := items\<rparr>))"

section \<open>Pictures\<close>

record banner_entry =
  dataURI :: string
  banner_fetched :: instant

type_synonym banner_cache = "(string, banner_entry) amap"

definition maxBannerBytes :: nat where "maxBannerBytes = 512 * 2 ^ 10"
definition bannerCacheTTL :: nanos where "bannerCacheTTL = 30 * minute"
definition maxCachedBanner :: nat where "maxCachedBanner = 64"

text \<open>
  What the picture is read from: the answer of a host (a status, a body and its declared type), and the size and the bytes of a
  file. The dialer refuses a link to the addresses of the link and to the unspecified address: there is no answer then.
\<close>

record banner_world =
  web_answer :: "string \<Rightarrow> (int \<times> string option \<times> string) option"
  file_size :: "string \<Rightarrow> int option"
  file_bytes :: "string \<Rightarrow> string option"

definition isWebLink :: "news_env \<Rightarrow> string \<Rightarrow> bool" where
  "isWebLink E link =
     (let lower = to_lower (ulow E) (trim_space link) in has_prefix lower ''http://'' \<or> has_prefix lower ''https://'')"

text \<open>The dialer's control of a resolved address.\<close>

definition dial_allowed :: "('a \<Rightarrow> bool) \<Rightarrow> ('a \<Rightarrow> bool) \<Rightarrow> ('a \<Rightarrow> bool) \<Rightarrow> (string \<Rightarrow> string option) \<Rightarrow> (string \<Rightarrow> 'a option) \<Rightarrow> string \<Rightarrow> bool" where
  "dial_allowed link_local link_multicast unspecified split parse_addr address =
     (case split address of
        None \<Rightarrow> False
      | Some host \<Rightarrow> (case parse_addr host of None \<Rightarrow> False | Some a \<Rightarrow> \<not> link_local a \<and> \<not> link_multicast a \<and> \<not> unspecified a))"

definition banner_read :: "news_env \<Rightarrow> bool \<Rightarrow> banner_world \<Rightarrow> string \<Rightarrow> string \<times> string" where
  "banner_read E ours W source =
     (if isWebLink E source then
        (case web_answer W source of
           None \<Rightarrow> ([], [])
         | Some (status, body, declared) \<Rightarrow>
             if status < 200 \<or> 300 \<le> status then ([], [])
             else (case body of
                 None \<Rightarrow> ([], [])
               | Some b \<Rightarrow>
                   let d = take (Suc maxBannerBytes) b in
                   if length d > maxBannerBytes then ([], []) else (d, GuessImage (ulow E) source declared)))
      else if \<not> ours then ([], [])
      else (case file_size W source of
          None \<Rightarrow> ([], [])
        | Some n \<Rightarrow>
            if n > int maxBannerBytes then ([], [])
            else (case file_bytes W source of None \<Rightarrow> ([], []) | Some b \<Rightarrow> (b, GuessImage (ulow E) source []))))"

text \<open>The range over the entries is in the order of the list.\<close>

fun oldest_banner :: "banner_cache \<Rightarrow> (string \<times> instant) option \<Rightarrow> string option" where
  "oldest_banner [] best = map_option fst best"
| "oldest_banner ((k, e) # rest) best =
     (case best of
        None \<Rightarrow> oldest_banner rest (Some (k, banner_fetched e))
      | Some (b, t) \<Rightarrow> oldest_banner rest (if banner_fetched e < t then Some (k, banner_fetched e) else best))"

definition forgetOldestLocked :: "banner_cache \<Rightarrow> banner_cache" where
  "forgetOldestLocked m = (case oldest_banner m None of None \<Rightarrow> m | Some k \<Rightarrow> remove k m)"

definition banner_put :: "instant \<Rightarrow> string \<Rightarrow> string \<Rightarrow> banner_cache \<Rightarrow> banner_cache" where
  "banner_put now source uri m =
     (let m = (if length m \<ge> maxCachedBanner then forgetOldestLocked m else m)
      in store source \<lparr>dataURI = uri, banner_fetched = now\<rparr> m)"

text \<open>\<open>base64.StdEncoding\<close>: its own last two signs, and padding to a multiple of four.\<close>

definition std64 :: "string \<Rightarrow> string" where
  "std64 s =
     (let e = map (\<lambda>c. if c = CHR ''-'' then CHR ''+'' else if c = CHR ''_'' then CHR ''/'' else c) (encode64 s)
      in e @ replicate ((4 - length e mod 4) mod 4) CHR ''='')"

definition data_uri :: "string \<times> string \<Rightarrow> string" where
  "data_uri dm = (if fst dm \<noteq> [] then ''data:'' @ snd dm @ '';base64,'' @ std64 (fst dm) else [])"

definition banner_inline :: "news_env \<Rightarrow> bool \<Rightarrow> banner_world \<Rightarrow> instant \<Rightarrow> instant \<Rightarrow> string \<Rightarrow> banner_cache \<Rightarrow> string \<times> banner_cache" where
  "banner_inline E ours W t1 t2 source m =
     (let source = trim_space source in
      if source = [] then ([], m)
      else (case lookup m source of
          Some e \<Rightarrow>
            if t1 - banner_fetched e < bannerCacheTTL then (dataURI e, m)
            else (let uri = data_uri (banner_read E ours W source) in (uri, banner_put t2 source uri m))
        | None \<Rightarrow> (let uri = data_uri (banner_read E ours W source) in (uri, banner_put t2 source uri m))))"

section \<open>What is shown\<close>

record shown_item =
  ShownID :: string
  ShownTitle :: string
  ShownBody :: string
  ShownNanos :: int
  ShownTag :: string
  ShownLink :: string
  ShownBanner :: string

definition maxBodyRunes :: nat where "maxBodyRunes = 2000"
definition maxTitleRunes :: nat where "maxTitleRunes = 160"

definition ellipsis :: string where "ellipsis = [CHR 0xE2, CHR 0x80, CHR 0xA6]"

definition clamp :: "string \<Rightarrow> nat \<Rightarrow> string" where
  "clamp v limit =
     (let trimmed = trim_space v in
      if length (runes trimmed) \<le> limit then trimmed else trim_space (take_runes limit trimmed) @ ellipsis)"

definition publishedNanos :: "news_item \<Rightarrow> int" where
  "publishedNanos i = (if PublishedAt i = zero_time then 0 else wrap64 (PublishedAt i))"

definition identity_of :: "news_item \<Rightarrow> string" where
  "identity_of i = (if NewsID i \<noteq> [] then NewsID i else NewsTitle i)"

definition safeLink :: "news_env \<Rightarrow> string \<Rightarrow> string" where
  "safeLink E link = (if \<not> isWebLink E link then [] else trim_space link)"

record news_service =
  news_limit :: int
  news_ours :: bool

definition New_news :: "(string \<Rightarrow> (news_error, 's) result) option \<Rightarrow> string \<Rightarrow> string \<Rightarrow> int \<Rightarrow> (news_error, (news_service \<times> 's) option) result" where
  "New_news factory kind raw limit =
     (if kind = [] then Inr None
      else (case factory of
          None \<Rightarrow> Inl (UnknownSource kind)
        | Some make_source \<Rightarrow>
            bind_res (make_source raw) (\<lambda>s. Inr (Some (\<lparr>news_limit = (if limit \<le> 0 then 20 else limit), news_ours = (kind = ''file'')\<rparr>, s)))))"

text \<open>The clock of a picture is read twice; the pictures are asked for in the order of the items.\<close>

fun show_items :: "news_env \<Rightarrow> bool \<Rightarrow> banner_world \<Rightarrow> instant \<Rightarrow> instant \<Rightarrow> news_item list \<Rightarrow> banner_cache \<Rightarrow> shown_item list \<times> banner_cache" where
  "show_items E ours W t1 t2 [] m = ([], m)"
| "show_items E ours W t1 t2 (i # is) m =
     (let title = clamp (NewsTitle i) maxTitleRunes in
      if title = [] then show_items E ours W t1 t2 is m
      else (case banner_inline E ours W t1 t2 (NewsBanner i) m of
          (uri, m) \<Rightarrow>
            (case show_items E ours W t1 t2 is m of
               (out, m) \<Rightarrow>
                 (\<lparr>ShownID = identity_of i, ShownTitle = title, ShownBody = clamp (NewsBody i) maxBodyRunes, ShownNanos = publishedNanos i,
                   ShownTag = clamp (NewsTag i) 32, ShownLink = safeLink E (NewsLink i), ShownBanner = uri\<rparr> # out, m))))"

definition latest_items :: "int \<Rightarrow> news_item list \<Rightarrow> news_item list" where
  "latest_items limit items = (let s = sort_key (\<lambda>i. - PublishedAt i) items in if int (length s) > limit then take (nat limit) s else s)"

definition Latest :: "news_env \<Rightarrow> news_service \<Rightarrow> banner_world \<Rightarrow> instant \<Rightarrow> instant \<Rightarrow> news \<times> news_error option \<Rightarrow> banner_cache
    \<Rightarrow> shown_item list \<times> banner_cache" where
  "Latest E S W t1 t2 answer m =
     (case snd answer of
        Some e \<Rightarrow> ([], m)
      | None \<Rightarrow> show_items E (news_ours S) W t1 t2 (latest_items (news_limit S) (list_of (fst answer))) m)"

section \<open>The check of an operator\<close>

datatype finding = FileUnreadable | FileBroken | SourceSilent | NoNews | HasMarkup string | NewsFine nat

definition reportItems :: "news_env \<Rightarrow> news_item list \<Rightarrow> finding" where
  "reportItems E items =
     (if items = [] then NoNews
      else (case List.find (\<lambda>i. markup E (NewsBody i) \<or> markup E (NewsTitle i)) items of
          Some i \<Rightarrow> HasMarkup (NewsTitle i) | None \<Rightarrow> NewsFine (length items)))"

definition file_Check :: "news_env \<Rightarrow> string option \<Rightarrow> finding" where
  "file_Check E data =
     (case data of
        None \<Rightarrow> FileUnreadable
      | Some d \<Rightarrow> (case parse E d of Inl e \<Rightarrow> FileBroken | Inr items \<Rightarrow> reportItems E (list_of items)))"

definition http_Check :: "news_env \<Rightarrow> news \<times> news_error option \<Rightarrow> finding" where
  "http_Check E answer = (case snd answer of Some e \<Rightarrow> SourceSilent | None \<Rightarrow> reportItems E (list_of (fst answer)))"

section \<open>What is kept and what is shown\<close>

lemma length_trim: "length (trim_space s) \<le> length s"
  using trim_space_infix[of s] by (metis length_append le_add1 le_add2 order_trans)

lemma clamp_bound: "length (clamp v n) \<le> 4 * n + 3"
proof -
  have "length (trim_space v) \<le> 4 * length (runes (trim_space v))" by (rule length_by_runes)
  moreover have "length (trim_space (take_runes n (trim_space v))) \<le> 4 * n"
    using length_trim[of "take_runes n (trim_space v)"] length_take_runes[of n "trim_space v"] by simp
  ultimately show ?thesis by (simp add: clamp_def Let_def ellipsis_def)
qed

definition web_text :: "news_env \<Rightarrow> string \<Rightarrow> bool" where
  "web_text E s \<longleftrightarrow> has_prefix (to_lower (ulow E) s) ''http://'' \<or> has_prefix (to_lower (ulow E) s) ''https://''"

definition tame :: "news_env \<Rightarrow> shown_item \<Rightarrow> bool" where
  "tame E i \<longleftrightarrow> ShownTitle i \<noteq> [] \<and> length (ShownTitle i) \<le> 4 * maxTitleRunes + 3 \<and> length (ShownBody i) \<le> 4 * maxBodyRunes + 3 \<and>
     length (ShownTag i) \<le> 4 * 32 + 3 \<and> (ShownLink i = [] \<or> web_text E (ShownLink i)) \<and> int64 (ShownNanos i)"

lemma safeLink_web: "safeLink E link = [] \<or> web_text E (safeLink E link)"
  by (simp add: safeLink_def isWebLink_def web_text_def Let_def)

lemma publishedNanos_int64: "int64 (publishedNanos i)"
proof (cases "PublishedAt i = zero_time")
  case True
  then show ?thesis by (simp add: publishedNanos_def int64_def)
qed (simp add: publishedNanos_def int64_wrap64)

lemma show_items_tame: "i \<in> set (fst (show_items E ours W t1 t2 items m)) \<Longrightarrow> tame E i"
proof (induction items arbitrary: m)
  case (Cons a items)
  show ?case
  proof (cases "clamp (NewsTitle a) maxTitleRunes = []")
    case True
    then show ?thesis using Cons by simp
  next
    case False
    have "tame E \<lparr>ShownID = identity_of a, ShownTitle = clamp (NewsTitle a) maxTitleRunes, ShownBody = clamp (NewsBody a) maxBodyRunes,
        ShownNanos = publishedNanos a, ShownTag = clamp (NewsTag a) 32, ShownLink = safeLink E (NewsLink a), ShownBanner = uri\<rparr>" for uri
      using False clamp_bound[of "NewsTitle a" maxTitleRunes] clamp_bound[of "NewsBody a" maxBodyRunes] clamp_bound[of "NewsTag a" 32]
        safeLink_web[of E "NewsLink a"] publishedNanos_int64[of a] by (simp add: tame_def)
    moreover obtain uri m1 rest m2 where "banner_inline E ours W t1 t2 (NewsBanner a) m = (uri, m1)"
      "show_items E ours W t1 t2 items m1 = (rest, m2)" by fastforce
    ultimately show ?thesis using Cons.IH[of m1] Cons.prems False by auto
  qed
qed simp

lemma length_show_items: "length (fst (show_items E ours W t1 t2 items m)) \<le> length items"
proof (induction items arbitrary: m)
  case (Cons a items)
  obtain uri m' where b: "banner_inline E ours W t1 t2 (NewsBanner a) m = (uri, m')" by fastforce
  show ?case using Cons[of m] Cons[of m'] b by (auto simp: Let_def split: prod.splits)
qed simp

lemma length_latest: "0 < limit \<Longrightarrow> int (length (latest_items limit items)) \<le> limit"
  by (auto simp: latest_items_def Let_def)

text \<open>The pictures that are kept.\<close>

definition banners_ok :: "banner_cache \<Rightarrow> bool" where
  "banners_ok m \<longleftrightarrow> keys_ok m \<and> length m \<le> maxCachedBanner"

lemma oldest_in: "oldest_banner m best = Some k \<Longrightarrow> k \<in> fst ` set m \<or> (\<exists>t. best = Some (k, t))"
  by (induction m best rule: oldest_banner.induct) (fastforce split: option.splits if_splits)+

lemma oldest_some: "m \<noteq> [] \<or> best \<noteq> None \<Longrightarrow> oldest_banner m best \<noteq> None"
  by (induction m best rule: oldest_banner.induct) (auto split: option.splits)

lemma length_remove: "k \<in> fst ` set m \<Longrightarrow> length (remove k m) < length m"
proof -
  assume "k \<in> fst ` set m"
  then obtain v where "(k, v) \<in> set m" by auto
  then show ?thesis by (auto simp: AList.delete_eq intro: length_filter_less)
qed

lemma banner_put_ok:
  assumes "banners_ok m"
  shows "banners_ok (banner_put now source uri m)"
proof -
  have keys: "keys_ok (forgetOldestLocked m)" using assms by (simp add: forgetOldestLocked_def banners_ok_def split: option.split)
  have "length (forgetOldestLocked m) < maxCachedBanner" if "length m \<ge> maxCachedBanner"
  proof -
    have "m \<noteq> []" using that by (auto simp: maxCachedBanner_def)
    then obtain k where k: "oldest_banner m None = Some k" using oldest_some[of m None] by auto
    then have "k \<in> fst ` set m" using oldest_in by fastforce
    then show ?thesis using k length_remove[of k m] assms by (simp add: forgetOldestLocked_def banners_ok_def)
  qed
  then show ?thesis using assms keys by (auto simp: banners_ok_def banner_put_def Let_def length_store)
qed

lemma banner_inline_ok: "banners_ok m \<Longrightarrow> banners_ok (snd (banner_inline E ours W t1 t2 source m))"
  by (auto simp: banner_inline_def Let_def banner_put_ok split: option.splits)

lemma show_items_banners: "banners_ok m \<Longrightarrow> banners_ok (snd (show_items E ours W t1 t2 items m))"
proof (induction items arbitrary: m)
  case (Cons a items)
  obtain uri m' where b: "banner_inline E ours W t1 t2 (NewsBanner a) m = (uri, m')" by fastforce
  then have "banners_ok m'" using banner_inline_ok[OF Cons.prems, of E ours W t1 t2 "NewsBanner a"] by simp
  then show ?case using Cons.IH[of m'] Cons.IH[OF Cons.prems] b by (auto simp: Let_def split: prod.splits)
qed simp

text \<open>
  C22: Whatever a source says, every item that the launcher is given has a title, texts of bounded length, a link that is empty or
  begins with \<open>http://\<close> or \<open>https://\<close>, and a time that fits its field; there are at most as many as the limit, and at
  most 64 pictures stay in memory.
\<close>

theorem shown_news_are_tame:
  assumes "0 < news_limit S" "banners_ok m" "Latest E S W t1 t2 answer m = (out, m')"
  shows "list_all (tame E) out \<and> int (length out) \<le> news_limit S \<and> banners_ok m'"
proof (cases "snd answer")
  case None
  let ?items = "latest_items (news_limit S) (list_of (fst answer))"
  have run: "show_items E (news_ours S) W t1 t2 ?items m = (out, m')" using assms(3) None by (simp add: Latest_def)
  have "tame E i" if "i \<in> set out" for i using show_items_tame[of i E "news_ours S" W t1 t2 ?items m] run that by simp
  then have "list_all (tame E) out" by (simp add: list_all_iff)
  moreover have "length out \<le> length ?items" using length_show_items[of E "news_ours S" W t1 t2 ?items m] run by simp
  moreover have "banners_ok m'" using show_items_banners[OF assms(2), of E "news_ours S" W t1 t2 ?items] run by simp
  ultimately show ?thesis using length_latest[OF assms(1), of "list_of (fst answer)"] by simp
qed (use assms in \<open>simp add: Latest_def\<close>)

definition sample_news :: news_env where
  "sample_news = \<lparr>decode_list = (\<lambda>s. None), decode_document = (\<lambda>s. None), ulow = (\<lambda>s. s), markup = (\<lambda>s. False),
     settings_text = (\<lambda>r n. None), duration_text = (\<lambda>s. None)\<rparr>"

definition link_item :: "string \<Rightarrow> string \<Rightarrow> instant \<Rightarrow> news_item" where
  "link_item name link t = \<lparr>NewsID = name, NewsTitle = name, NewsBody = [], PublishedAt = t, NewsTag = [], NewsLink = link, NewsBanner = []\<rparr>"

definition no_world :: banner_world where
  "no_world = \<lparr>web_answer = (\<lambda>u. None), file_size = (\<lambda>p. None), file_bytes = (\<lambda>p. None)\<rparr>"

theorem shown_news_are_tame_witness:
  "let (out, m') = Latest sample_news \<lparr>news_limit = 2, news_ours = False\<rparr> no_world 0 0
      (Some [link_item ''a'' ''javascript:x'' 1, link_item ''b'' ''http://y'' 3, link_item ''c'' ''http://z'' 2], None) []
   in map (\<lambda>i. (ShownID i, ShownLink i)) out = [(''b'', ''http://y''), (''c'', ''http://z'')] \<and> list_all (tame sample_news) out"
proof -
  let ?S = "\<lparr>news_limit = 2, news_ours = False\<rparr>"
  let ?a = "(Some [link_item ''a'' ''javascript:x'' 1, link_item ''b'' ''http://y'' 3, link_item ''c'' ''http://z'' 2], None)"
  obtain out m' where run: "Latest sample_news ?S no_world 0 0 ?a [] = (out, m')" by fastforce
  have "0 < news_limit ?S" "banners_ok []" by (simp_all add: banners_ok_def)
  then have tame: "list_all (tame sample_news) out" using shown_news_are_tame[OF _ _ run] by simp
  have "map (\<lambda>i. (ShownID i, ShownLink i)) (fst (Latest sample_news ?S no_world 0 0 ?a [])) = [(''b'', ''http://y''), (''c'', ''http://z'')]"
    by code_simp
  then show ?thesis using run tame by simp
qed

section \<open>Files of the server\<close>

text \<open>A source of another type than \<open>file\<close> makes the server read no file of its own: the news do not depend on the disk.\<close>

lemma remote_news_read_no_file:
  assumes "web_answer W = web_answer W'"
  shows "show_items E False W t1 t2 items m = show_items E False W' t1 t2 items m"
proof -
  have same: "banner_read E False W = banner_read E False W'" using assms by (intro ext) (simp add: banner_read_def)
  have "banner_inline E False W t1 t2 s m = banner_inline E False W' t1 t2 s m" for s m
    unfolding banner_inline_def same by (rule refl)
  then show ?thesis by (induction items arbitrary: m) (simp_all add: Let_def split: prod.split)
qed

lemma only_file_news_read_files: "New_news factory kind raw limit = Inr (Some (S, s)) \<Longrightarrow> news_ours S \<longleftrightarrow> kind = ''file''"
  by (cases factory; cases "the factory raw") (auto simp: New_news_def split: if_splits)

text \<open>
  The check tells an operator that the launcher goes on showing the last news when the file breaks; the service drops them.
\<close>

lemma broken_file_empties_news:
  assumes "file_items f = Some items" "stamp ms \<noteq> file_stamp f" "parse E d = Inl e"
  shows "file_Items E (Some ms) (Some d) f = ((Some items, Some e), f) \<and> file_Check E (Some d) = FileBroken \<and>
    fst (Latest E S W t1 t2 (fst (file_Items E (Some ms) (Some d) f)) m) = []"
  using assms by (simp add: file_Items_def file_Check_def Latest_def)

section \<open>One question at a time\<close>

text \<open>The calls of \<open>Items\<close> interleave: each begins, and those that ask come back at any time later.\<close>

inductive asks_step :: "http_source \<Rightarrow> http_cache \<times> nat \<Rightarrow> http_cache \<times> nat \<Rightarrow> bool" for S where
  begin_cached: "http_begin S t1 t2 h = (Some items, h') \<Longrightarrow> asks_step S (h, n) (h', n)"
| begin_asking: "http_begin S t1 t2 h = (None, h') \<Longrightarrow> asks_step S (h, n) (h', Suc n)"
| finish: "http_finish result h = (answer, h') \<Longrightarrow> asks_step S (h, Suc n) (h', n)"

inductive_cases asks_stepE: "asks_step S (h, n) (h', n')"

inductive asks_reach :: "http_source \<Rightarrow> http_cache \<Rightarrow> nat \<Rightarrow> bool" for S where
  none: "asks_reach S \<lparr>http_items = None, fetched = zero_time, asking = False\<rparr> 0"
| step: "asks_reach S h n \<Longrightarrow> asks_step S (h, n) (h', n') \<Longrightarrow> asks_reach S h' n'"

lemma one_question: "asks_reach S h n \<Longrightarrow> n = (if asking h then 1 else 0)"
proof (induction rule: asks_reach.induct)
  case (step h n h' n')
  from step(2) show ?case
    by (rule asks_stepE) (use step(3) in \<open>auto simp: http_begin_def http_finish_def Let_def split: if_splits\<close>)
qed simp

end
