(* ===== verification/BuildSpec.thy ===== *)
theory BuildSpec
  imports SafePath Platform Runes "HOL-Library.Multiset"
begin

text \<open>
  The description of a build that a client sends to be planned and applied (\<open>internal/buildspec/spec.go\<close>): what is accepted,
  and the canonical form whose hash tells whether a description was applied already.

  The JSON decoder and encoder, SHA-256, \<open>strings.ToLower\<close> outside of ASCII and the names of the loaders are fields of an
  environment.

  The theorems: the files of an accepted description have safe paths, no two of which are the same or one above the other, on a
  file system that tells upper from lower case or not; and the canonical form forgets the order of platforms and files and
  where a file came from.
\<close>

section \<open>The description\<close>

record spec_file =
  FPath :: string
  FSource :: string
  FSHA256 :: string
  FSize :: nat

record spec =
  SVersion :: int
  SName :: string
  SMinecraft :: string
  SLoader :: string
  SLoaderVersion :: string
  SCompat :: string
  SJava :: string
  SRuntimes :: "(string, string) amap"
  SPlatforms :: "string list"
  SSettings :: "(string, string) amap"
  SFiles :: "spec_file list"
  SSourceRevision :: string

record spec_env =
  decode_spec :: "string \<Rightarrow> spec option"
  rest_empty :: "string \<Rightarrow> bool"
  encode_spec :: "spec \<Rightarrow> string option"
  spec_sha :: "string \<Rightarrow> string"
  spec_lower :: "string \<Rightarrow> string"
  known_loader :: "string \<Rightarrow> bool"

definition MaxFileSize :: nat where "MaxFileSize = 512 * 2 ^ 20"
definition MaxSpecSize :: nat where "MaxSpecSize = 48 * 2 ^ 10"
definition maxFiles :: nat where "maxFiles = 200"
definition maxTotal :: nat where "maxTotal = 8 * 2 ^ 30"

datatype spec_error = TooLong | NotJson | MoreData | BadName | NoExactVersion | BadRevision | BadLoader | NoLoaderVersion | BadCompat
  | NoPlatforms | UnknownPlatform string | BadPlatforms | BadRuntime | BadSetting string | TooManyFiles | BadFile string | Overlap | TooMuch
  | CannotEncode

section \<open>Paths\<close>

text \<open>\<open>unicode.IsControl\<close> of a rune: the bytes below a space, the delete byte, and U+0080 to U+009F.\<close>

definition control_rune :: "string \<Rightarrow> bool" where
  "control_rune r \<longleftrightarrow>
     length r = 1 \<and> ((of_char (hd r) :: nat) < 0x20 \<or> of_char (hd r) = (0x7F :: nat)) \<or>
     length r = 2 \<and> of_char (hd r) = (0xC2 :: nat) \<and> (of_char (r ! 1) :: nat) \<le> 0x9F"

definition has_control :: "string \<Rightarrow> bool" where
  "has_control s = list_ex control_rune (runes s)"

definition bad_part :: "string \<Rightarrow> bool" where
  "bad_part p \<longleftrightarrow> p = ''.'' \<or> p = ''..'' \<or> has_prefix p ''.'' \<or> trim_space p \<noteq> p \<or> has_control p"

definition reserved_names :: "string list" where
  "reserved_names = [''platforms'', ''runtime'', ''assets'', ''libraries'', ''versions'']"

definition SafePath :: "string \<Rightarrow> bool" where
  "SafePath v \<longleftrightarrow>
     \<not> (v = [] \<or> list_ex (\<lambda>c. c \<in> {CHR 0x5C, CHR '':'', CHR 0x00}) v \<or> has_prefix v ''/'' \<or> Clean v \<noteq> v) \<and>
     \<not> list_ex bad_part (split_on CHR ''/'' v) \<and>
     (let first = fst (cut_at CHR ''/'' v) in first \<notin> set reserved_names \<and> \<not> has_prefix first ''laminara.'')"

text \<open>Hexadecimal digits of 32 bytes, all of them lower case.\<close>

definition ValidHash :: "string \<Rightarrow> bool" where
  "ValidHash v \<longleftrightarrow> length v = 64 \<and> list_all (\<lambda>c. c \<in> set ''0123456789abcdef'') v"

section \<open>Validation\<close>

fun check_platforms :: "spec_env \<Rightarrow> string list \<Rightarrow> string list \<Rightarrow> (spec_error, string list) result" where
  "check_platforms E seen [] = Inr seen"
| "check_platforms E seen (name # rest) =
     (case Parse (spec_lower E) name of
        (p, ok) \<Rightarrow>
          if \<not> ok then Inl (UnknownPlatform name)
          else if name \<noteq> fst (Key p) \<or> name \<in> set seen then Inl BadPlatforms
          else check_platforms E (name # seen) rest)"

definition allowed_settings :: "string list" where
  "allowed_settings = [''serverAddress'', ''userWritable'', ''enforced'', ''jvmArgs'', ''gameArgs'', ''classpath'', ''classpathExclude'',
     ''mainClass'', ''features'']"

text \<open>\<open>total\<close> is a \<open>uint64\<close>; at most 200 files of at most 512 MiB each do not leave its range.\<close>

fun check_files :: "spec_env \<Rightarrow> string list \<Rightarrow> nat \<Rightarrow> spec_file list \<Rightarrow> spec_error option" where
  "check_files E seen sum_so_far [] = (if sum_so_far > maxTotal then Some TooMuch else None)"
| "check_files E seen sum_so_far (f # rest) =
     (let key = to_lower (spec_lower E) (FPath f) in
      if \<not> SafePath (FPath f) \<or> key \<in> set seen \<or> FSize f > MaxFileSize \<or> (FSource f = [] \<and> \<not> ValidHash (FSHA256 f)) then Some (BadFile (FPath f))
      else if list_ex (\<lambda>previous. has_prefix key (previous @ ''/'') \<or> has_prefix previous (key @ ''/'')) seen then Some Overlap
      else check_files E (key # seen) (sum_so_far + FSize f) rest)"

text \<open>The words for the latest version that are refused: one in English and three in Russian.\<close>

definition floating_words :: "string list" where
  "floating_words = [''latest'',
     map char_of [0xD0, 0xBF, 0xD0, 0xBE, 0xD1, 0x81, 0xD0, 0xBB, 0xD0, 0xB5, 0xD0, 0xB4, 0xD0, 0xBD, 0xD1, 0x8F, 0xD1, 0x8F :: nat],
     map char_of [0xD0, 0xBD, 0xD0, 0xBE, 0xD0, 0xB2, 0xD0, 0xB0, 0xD1, 0x8F :: nat],
     map char_of [0xD1, 0x81, 0xD0, 0xB2, 0xD0, 0xB5, 0xD0, 0xB6, 0xD0, 0xB0, 0xD1, 0x8F :: nat]]"

definition bad_compat :: "string \<Rightarrow> bool" where
  "bad_compat c = (case cut_at CHR '':'' c of (_, v, ok) \<Rightarrow> \<not> ok \<or> v = [] \<or> v \<in> set floating_words)"

definition Validate :: "spec_env \<Rightarrow> spec \<Rightarrow> spec_error option" where
  "Validate E s =
     (if SVersion s \<noteq> 1 \<or> \<not> SafePath (SName s) \<or> CHR ''/'' \<in> set (SName s) then Some BadName
      else if SMinecraft s = [] \<or> SMinecraft s \<in> {''release'', ''snapshot'', ''latest''} then Some NoExactVersion
      else if SSourceRevision s = [] \<or> length (SSourceRevision s) > 256 \<or> has_control (SSourceRevision s) then Some BadRevision
      else if SLoader s \<noteq> ''vanilla'' \<and> \<not> known_loader E (SLoader s) then Some BadLoader
      else if SLoader s \<noteq> ''vanilla'' \<and> (SLoaderVersion s = [] \<or> SLoaderVersion s = ''latest'') then Some NoLoaderVersion
      else if SCompat s \<noteq> ''off'' \<and> bad_compat (SCompat s) then Some BadCompat
      else if SPlatforms s = [] then Some NoPlatforms
      else (case check_platforms E [] (SPlatforms s) of
          Inl e \<Rightarrow> Some e
        | Inr seen \<Rightarrow>
            if list_ex (\<lambda>(t, v). t \<notin> set seen \<or> trim_space v = [] \<or> v = ''latest'') (SRuntimes s) then Some BadRuntime
            else (case List.find (\<lambda>(k, v). k \<notin> set allowed_settings) (SSettings s) of
                Some (k, v) \<Rightarrow> Some (BadSetting k)
              | None \<Rightarrow> if length (SFiles s) > maxFiles then Some TooManyFiles else check_files E [] 0 (SFiles s))))"

definition Decode :: "spec_env \<Rightarrow> string \<Rightarrow> (spec_error, spec) result" where
  "Decode E data =
     (if length data > MaxSpecSize then Inl TooLong
      else (case decode_spec E data of
          None \<Rightarrow> Inl NotJson
        | Some s \<Rightarrow> if \<not> rest_empty E data then Inl MoreData else (case Validate E s of Some e \<Rightarrow> Inl e | None \<Rightarrow> Inr s)))"

section \<open>The canonical form\<close>

text \<open>\<open>slices.SortFunc\<close> is not stable, but the paths of an accepted description differ.\<close>

definition canonical_spec :: "spec \<Rightarrow> spec" where
  "canonical_spec s = s\<lparr>SPlatforms := sort (SPlatforms s), SFiles := sort_key FPath (map (\<lambda>f. f\<lparr>FSource := []\<rparr>) (SFiles s))\<rparr>"

definition Canonical :: "spec_env \<Rightarrow> spec \<Rightarrow> (spec_error, string \<times> string) result" where
  "Canonical E s = (case encode_spec E (canonical_spec s) of None \<Rightarrow> Inl CannotEncode | Some d \<Rightarrow> Inr (d, spec_sha E d))"

section \<open>What is accepted\<close>

definition apart_paths :: "string \<Rightarrow> string \<Rightarrow> bool" where
  "apart_paths a b \<longleftrightarrow> a \<noteq> b \<and> \<not> has_prefix a (b @ ''/'') \<and> \<not> has_prefix b (a @ ''/'')"

definition file_ok :: "spec_file \<Rightarrow> bool" where
  "file_ok f \<longleftrightarrow> SafePath (FPath f) \<and> FSize f \<le> MaxFileSize \<and> (FSource f = [] \<longrightarrow> ValidHash (FSHA256 f))"

definition keys_of :: "spec_env \<Rightarrow> spec_file list \<Rightarrow> string list" where
  "keys_of E fs = map (\<lambda>f. to_lower (spec_lower E) (FPath f)) fs"

lemma check_files_ok:
  "check_files E seen n fs = None \<Longrightarrow>
    list_all file_ok fs \<and> n + sum_list (map FSize fs) \<le> maxTotal \<and>
    (\<forall>k \<in> set (keys_of E fs). \<forall>p \<in> set seen. apart_paths k p) \<and> sorted_wrt apart_paths (keys_of E fs)"
proof (induction fs arbitrary: seen n)
  case (Cons f fs)
  let ?k = "to_lower (spec_lower E) (FPath f)"
  have head: "file_ok f" "?k \<notin> set seen" "\<not> list_ex (\<lambda>previous. has_prefix ?k (previous @ ''/'') \<or> has_prefix previous (?k @ ''/'')) seen"
    and rest: "check_files E (?k # seen) (n + FSize f) fs = None"
    using Cons.prems by (auto simp: file_ok_def Let_def split: if_splits)
  note IH = Cons.IH[OF rest]
  have "apart_paths ?k p" if "p \<in> set seen" for p using head(2,3) that by (auto simp: apart_paths_def list_ex_iff)
  moreover have "apart_paths ?k k" if "k \<in> set (keys_of E fs)" for k using IH that by (auto simp: apart_paths_def)
  ultimately show ?case using IH head(1) by (auto simp: keys_of_def)
qed (simp add: keys_of_def split: if_splits)

lemma SafePath_segs:
  assumes "SafePath v"
  shows "\<forall>p \<in> set (split_on CHR ''/'' v). plain_seg p \<and> hd p \<noteq> CHR ''.'' \<and> trim_space p = p \<and> \<not> has_control p"
proof
  fix p assume p: "p \<in> set (split_on CHR ''/'' v)"
  have v: "v \<noteq> []" "\<not> has_prefix v ''/''" "Clean v = v" using assms by (auto simp: SafePath_def)
  have "\<not> bad_part p" using assms p by (auto simp: SafePath_def list_ex_iff)
  then have parts: "p \<noteq> ''.''" "p \<noteq> ''..''" "\<not> has_prefix p ''.''" "trim_space p = p" "\<not> has_control p" by (auto simp: bad_part_def)
  have rel: "\<not> (v \<noteq> [] \<and> hd v = CHR ''/'')" using v by (cases v) (auto simp: has_prefix_def)
  let ?segs = "clean_segs False [] (split_on CHR ''/'' v)"
  have out: "v = (if join_with CHR ''/'' ?segs = [] then ''.'' else join_with CHR ''/'' ?segs)"
    using v(3) rel by (simp add: Clean_def Let_def)
  have plain: "v \<noteq> ''.''" using assms by (auto simp: SafePath_def bad_part_def)
  then have joined: "v = join_with CHR ''/'' ?segs" using out by metis
  have "list_all (\<lambda>s. CHR ''/'' \<notin> set s) (split_on CHR ''/'' v)" using split_on_no_sep by (auto simp: list_all_iff)
  then have real: "\<forall>s \<in> set ?segs. real_seg s"
    using clean_segs_real[of "[]" "split_on CHR ''/'' v" False] by (simp add: list_all_iff)
  have "?segs \<noteq> []" using joined v(1) by auto
  then have "split_on CHR ''/'' v = ?segs" using joined real by (metis real_seg_def split_join)
  then have "real_seg p" using real p by simp
  then have "p \<noteq> []" "CHR ''/'' \<notin> set p" by (auto simp: real_seg_def)
  then show "plain_seg p \<and> hd p \<noteq> CHR ''.'' \<and> trim_space p = p \<and> \<not> has_control p"
    using parts by (cases p) (auto simp: plain_seg_def has_prefix_def)
qed

lemma Validate_files:
  assumes "Validate E s = None"
  shows "check_files E [] 0 (SFiles s) = None" "length (SFiles s) \<le> maxFiles" "SafePath (SName s)" "CHR ''/'' \<notin> set (SName s)"
  using assms by (auto simp: Validate_def split: if_splits sum.splits option.splits prod.splits)

lemma sorted_wrt_pairs: "sorted_wrt P xs \<Longrightarrow> i < j \<Longrightarrow> j < length xs \<Longrightarrow> P (xs ! i) (xs ! j)"
  by (simp add: sorted_wrt_iff_nth_less)

text \<open>
  C23: A description that is accepted cannot put its files anywhere but below the build: each path is a list of plain names that
  begin with no dot, have no control characters and no space around them; and no two files are the same or one above the other,
  not even where upper and lower case are not told apart. The files are at most 200, of at most 512 MiB each and 8 GiB together,
  and each has a hash or a source.
\<close>

theorem accepted_description_is_safe:
  assumes "Validate E s = None"
  shows "(\<forall>f \<in> set (SFiles s). \<forall>p \<in> set (split_on CHR ''/'' (FPath f)). plain_seg p \<and> hd p \<noteq> CHR ''.'' \<and> trim_space p = p \<and> \<not> has_control p) \<and>
    (\<forall>i j. i < j \<and> j < length (SFiles s) \<longrightarrow>
      apart_paths (to_lower (spec_lower E) (FPath (SFiles s ! i))) (to_lower (spec_lower E) (FPath (SFiles s ! j)))) \<and>
    list_all file_ok (SFiles s) \<and> length (SFiles s) \<le> maxFiles \<and> sum_list (map FSize (SFiles s)) \<le> maxTotal"
proof -
  note ok = check_files_ok[OF Validate_files(1)[OF assms]]
  have "apart_paths (to_lower (spec_lower E) (FPath (SFiles s ! i))) (to_lower (spec_lower E) (FPath (SFiles s ! j)))"
    if "i < j" "j < length (SFiles s)" for i j
    using sorted_wrt_pairs[of apart_paths "keys_of E (SFiles s)" i j] ok that by (simp add: keys_of_def)
  moreover have "SafePath (FPath f)" if "f \<in> set (SFiles s)" for f using ok that by (auto simp: list_all_iff file_ok_def)
  then have "\<forall>f \<in> set (SFiles s). \<forall>p \<in> set (split_on CHR ''/'' (FPath f)). plain_seg p \<and> hd p \<noteq> CHR ''.'' \<and> trim_space p = p \<and> \<not> has_control p"
    using SafePath_segs by blast
  moreover have "sum_list (map FSize (SFiles s)) \<le> maxTotal" using ok by simp
  ultimately show ?thesis using ok Validate_files(2)[OF assms] by blast
qed

section \<open>What the canonical form forgets\<close>

lemma sort_key_perm:
  assumes "mset xs = mset ys" "distinct (map f xs)"
  shows "sort_key f xs = sort_key f (ys :: 'a list)"
proof -
  have sets: "set xs = set ys" using assms(1) by (rule mset_eq_setD)
  have inj: "inj_on f (set xs)" and dx: "distinct xs" using assms(2) by (simp_all add: distinct_map)
  have dy: "distinct ys" using assms(1) dx by (metis mset_eq_imp_distinct_iff)
  have "map f (sort_key f xs) = map f (sort_key f ys)"
    using sets inj dx dy by (intro sorted_distinct_set_unique) (simp_all add: distinct_map)
  then show ?thesis using inj sets by (intro map_inj_on[of f]) simp_all
qed

definition without_source :: "spec_file \<Rightarrow> spec_file" where
  "without_source f = f\<lparr>FSource := []\<rparr>"

text \<open>
  Whether a description was applied already does not depend on how it was written: two that differ only in the order of the
  platforms, in the order of the files and in where the files come from have the same canonical form and the same hash.
\<close>

theorem canonical_forgets_order:
  assumes "Validate E s = None" "mset (SPlatforms s') = mset (SPlatforms s)"
    "mset (map without_source (SFiles s')) = mset (map without_source (SFiles s))"
    "s' = s\<lparr>SPlatforms := SPlatforms s', SFiles := SFiles s'\<rparr>"
  shows "Canonical E s' = Canonical E s"
proof -
  have "sorted_wrt apart_paths (keys_of E (SFiles s))" using check_files_ok[OF Validate_files(1)[OF assms(1)]] by blast
  then have "sorted_wrt (\<noteq>) (keys_of E (SFiles s))" by (rule sorted_wrt_mono_rel[rotated]) (simp add: apart_paths_def)
  then have "distinct (map (to_lower (spec_lower E)) (map FPath (SFiles s)))"
    by (simp add: keys_of_def distinct_conv_nth sorted_wrt_iff_nth_less comp_def) (metis linorder_neqE_nat)
  then have "distinct (map FPath (SFiles s))" by (simp only: distinct_map)
  then have "distinct (map FPath (map without_source (SFiles s)))" by (simp add: comp_def without_source_def)
  then have "sort_key FPath (map without_source (SFiles s)) = sort_key FPath (map without_source (SFiles s'))"
    using assms(3) by (intro sort_key_perm) simp_all
  moreover have "sort (SPlatforms s') = sort (SPlatforms s)" using assms(2) by (intro properties_for_sort) simp_all
  moreover have "(\<lambda>f. f\<lparr>FSource := []\<rparr>) = without_source" by (simp add: fun_eq_iff without_source_def)
  ultimately have "canonical_spec s' = canonical_spec s" by (subst assms(4)) (simp add: canonical_spec_def)
  then show ?thesis by (simp add: Canonical_def)
qed

section \<open>An example\<close>

definition plain_spec_env :: spec_env where
  "plain_spec_env = \<lparr>decode_spec = (\<lambda>s. None), rest_empty = (\<lambda>s. True), encode_spec = (\<lambda>s. Some (concat (SPlatforms s @ map FPath (SFiles s)))),
     spec_sha = (\<lambda>s. s), spec_lower = (\<lambda>s. s), known_loader = (\<lambda>s. s = ''fabric'')\<rparr>"

definition small_file :: "string \<Rightarrow> string \<Rightarrow> spec_file" where
  "small_file p src = \<lparr>FPath = p, FSource = src, FSHA256 = [], FSize = 5\<rparr>"

definition small_spec :: "string list \<Rightarrow> spec_file list \<Rightarrow> spec" where
  "small_spec ps fs = \<lparr>SVersion = 1, SName = ''b'', SMinecraft = ''1.21'', SLoader = ''vanilla'', SLoaderVersion = [], SCompat = ''off'',
     SJava = [], SRuntimes = [], SPlatforms = ps, SSettings = [], SFiles = fs, SSourceRevision = ''r''\<rparr>"

lemma small_paths: "SafePath ''b''" "SafePath ''mods/a''" "SafePath ''mods/b''" "SafePath ''Mods/A/b''" "\<not> has_control ''r''"
  "Parse (\<lambda>s. s) ''linux'' = (PLATFORM_LINUX, True)" "fst (Key PLATFORM_LINUX) = ''linux''"
  "to_lower (\<lambda>s. s) ''mods/a'' = ''mods/a''" "to_lower (\<lambda>s. s) ''mods/b'' = ''mods/b''" "to_lower (\<lambda>s. s) ''Mods/A/b'' = ''mods/a/b''"
  by code_simp+

lemma small_spec_valid: "Validate plain_spec_env (small_spec [''linux''] [small_file ''mods/a'' ''x'', small_file ''mods/b'' ''y'']) = None"
  using small_paths by (simp add: Validate_def small_spec_def small_file_def plain_spec_env_def MaxFileSize_def maxFiles_def maxTotal_def has_prefix_def
      to_lower_def is_ascii_def)

lemma small_spec_overlap:
  "Validate plain_spec_env (small_spec [''linux''] [small_file ''mods/a'' ''x'', small_file ''Mods/A/b'' ''y'']) = Some Overlap"
  using small_paths by (simp add: Validate_def small_spec_def small_file_def plain_spec_env_def MaxFileSize_def maxFiles_def maxTotal_def has_prefix_def)

theorem accepted_description_is_safe_witness:
  "Validate plain_spec_env (small_spec [''linux''] [small_file ''mods/a'' ''x'', small_file ''mods/b'' ''y'']) = None \<and>
    apart_paths (to_lower (\<lambda>s. s) ''mods/a'') (to_lower (\<lambda>s. s) ''mods/b'') \<and>
    Validate plain_spec_env (small_spec [''linux''] [small_file ''mods/a'' ''x'', small_file ''Mods/A/b'' ''y'']) = Some Overlap"
proof -
  let ?s = "small_spec [''linux''] [small_file ''mods/a'' ''x'', small_file ''mods/b'' ''y'']"
  have "0 < (1 :: nat)" "1 < length (SFiles ?s)" by (simp_all add: small_spec_def)
  then have "apart_paths (to_lower (spec_lower plain_spec_env) (FPath (SFiles ?s ! 0))) (to_lower (spec_lower plain_spec_env) (FPath (SFiles ?s ! 1)))"
    using accepted_description_is_safe[OF small_spec_valid] by blast
  then have "apart_paths (to_lower (\<lambda>s. s) ''mods/a'') (to_lower (\<lambda>s. s) ''mods/b'')"
    by (simp add: small_spec_def small_file_def plain_spec_env_def)
  then show ?thesis using small_spec_valid small_spec_overlap by blast
qed

theorem canonical_forgets_order_witness:
  "Canonical plain_spec_env (small_spec [''linux''] [small_file ''mods/b'' [], small_file ''mods/a'' ''z'']) =
    Canonical plain_spec_env (small_spec [''linux''] [small_file ''mods/a'' ''x'', small_file ''mods/b'' ''y''])"
proof (rule canonical_forgets_order[OF small_spec_valid])
  let ?s = "small_spec [''linux''] [small_file ''mods/a'' ''x'', small_file ''mods/b'' ''y'']"
    and ?t = "small_spec [''linux''] [small_file ''mods/b'' [], small_file ''mods/a'' ''z'']"
  show "mset (SPlatforms ?t) = mset (SPlatforms ?s)" by (simp add: small_spec_def)
  show "mset (map without_source (SFiles ?t)) = mset (map without_source (SFiles ?s))"
    by (simp add: small_spec_def small_file_def without_source_def)
  show "?t = ?s\<lparr>SPlatforms := SPlatforms ?t, SFiles := SFiles ?t\<rparr>" by (simp add: small_spec_def)
qed

end
