(* ===== verification/TextSearch.thy ===== *)
theory TextSearch
  imports GoStrings
begin

text \<open>
  Searching in strings: \<open>strings.Index\<close>, \<open>strings.LastIndexByte\<close> and \<open>strings.ReplaceAll\<close>, as the parts of the string around
  what is found.
\<close>

text \<open>What is before the last occurrence of a character and what is after it.\<close>

definition split_last :: "char \<Rightarrow> string \<Rightarrow> (string \<times> string) option" where
  "split_last c s =
     (case cut_at c (rev s) of (after, before, found) \<Rightarrow> if found then Some (rev before, rev after) else None)"

text \<open>What is before the first occurrence of a text, and the string from there.\<close>

fun find_text :: "string \<Rightarrow> string \<Rightarrow> (string \<times> string) option" where
  "find_text p [] = (if p = [] then Some ([], []) else None)"
| "find_text p (c # s) =
     (if has_prefix (c # s) p then Some ([], c # s) else map_option (\<lambda>(b, r). (c # b, r)) (find_text p s))"

lemma find_text_Some: "find_text p s = Some (b, r) \<Longrightarrow> s = b @ r \<and> has_prefix r p"
  by (induction p s arbitrary: b r rule: find_text.induct) (auto simp: has_prefix_def split: if_splits)

lemma find_text_first: "find_text p s = Some (b, r) \<Longrightarrow> s = b' @ p @ t \<Longrightarrow> length b \<le> length b'"
proof (induction p s arbitrary: b r b' rule: find_text.induct)
  case (2 p c s)
  show ?case
  proof (cases "has_prefix (c # s) p")
    case True
    then have "b = []" using 2(2) by simp
    then show ?thesis by simp
  next
    case False
    then obtain b0 where b0: "find_text p s = Some (b0, r)" "b = c # b0" using 2(2) by auto
    have "b' \<noteq> []" using False 2(3) by (cases b') (auto simp: has_prefix_iff)
    then obtain b1 where "b' = c # b1" "s = b1 @ p @ t" using 2(3) by (cases b') auto
    then show ?thesis using 2(1)[OF False b0(1)] b0(2) by simp
  qed
qed (auto split: if_splits)

lemma find_text_None: "find_text p s = None \<longleftrightarrow> \<not> (\<exists>a t. s = a @ p @ t)"
proof (induction p s rule: find_text.induct)
  case (2 p c s)
  show ?case
  proof (cases "has_prefix (c # s) p")
    case True
    then show ?thesis by (auto simp: has_prefix_iff intro: exI[of _ "[]"])
  next
    case False
    have "(\<exists>a t. c # s = a @ p @ t) \<longleftrightarrow> (\<exists>a t. s = a @ p @ t)"
    proof
      assume "\<exists>a t. c # s = a @ p @ t"
      then obtain a t where e: "c # s = a @ p @ t" by blast
      have "a \<noteq> []" using False e by (auto simp: has_prefix_iff)
      then have "s = tl a @ p @ t" using e by (cases a) auto
      then show "\<exists>a t. s = a @ p @ t" by blast
    next
      assume "\<exists>a t. s = a @ p @ t"
      then show "\<exists>a t. c # s = a @ p @ t" by (metis append_Cons)
    qed
    then show ?thesis using False 2 by simp
  qed
qed simp

text \<open>\<open>strings.ReplaceAll\<close> with a text that is not empty.\<close>

function replace_all :: "string \<Rightarrow> string \<Rightarrow> string \<Rightarrow> string" where
  "replace_all old new s =
     (case find_text old s of
        None \<Rightarrow> s
      | Some (b, r) \<Rightarrow> if old = [] then s else b @ new @ replace_all old new (drop (length old) r))"
  by pat_completeness auto
termination
  by (relation "measure (\<lambda>(old, new, s). length s)") (auto dest!: find_text_Some simp: has_prefix_iff)

declare replace_all.simps [simp del]

end
