(* ===== verification/LaunchProfile.thy ===== *)
theory LaunchProfile
  imports Command TextSearch
begin

text \<open>
  What a build starts the game with: the rules and arguments of a version (\<open>internal/mojang\<close>), the coordinates of libraries
  (\<open>internal/maven\<close>), the choice of arguments (\<open>internal/launchargs\<close>) and the profile made of them (\<open>internal/resolve\<close>), with
  the profile that Fabric and Quilt give (\<open>internal/loader/fabriclike.go\<close>).

  The answers of the web are given as the values the decoder makes of them.

  The theorems: the arguments of a profile leave to the launcher what the launcher sets and have no placeholder the launcher does
  not know; the rules say what the last rule that matches says; and what a placeholder is.
\<close>

section \<open>Versions of the game\<close>

record artifact_info =
  InfoPath :: string
  InfoSHA1 :: string
  InfoSize :: int
  InfoURL :: string

record os_rule =
  OSName :: string
  OSArch :: string
  OSVersion :: string

record game_rule =
  Action :: string
  OS :: "os_rule option"
  RuleFeatures :: "(string, bool) amap"

record game_library =
  LibName :: string
  MainArtifact :: "artifact_info option"
  Classifiers :: "(string, artifact_info) amap"
  LibRules :: "game_rule list"
  LibNatives :: "(string, string) amap"
  LibURL :: string

record argument =
  ArgRules :: "game_rule list"
  ArgValues :: "string list"

text \<open>
  The forms of JSON that the decoder tells apart. A \<open>null\<close> is read as an empty string or an empty list.
\<close>

datatype value_json = NoValue | NullValue | ManyTexts "string list" | OneText string | OtherValue
datatype arg_json = TextArg string | NullArg | ObjectArg "game_rule list" value_json | OtherArg

fun UnmarshalJSON :: "arg_json \<Rightarrow> argument option" where
  "UnmarshalJSON (TextArg s) = Some \<lparr>ArgRules = [], ArgValues = [s]\<rparr>"
| "UnmarshalJSON NullArg = Some \<lparr>ArgRules = [], ArgValues = [[]]\<rparr>"
| "UnmarshalJSON (ObjectArg rules (ManyTexts many)) = Some \<lparr>ArgRules = rules, ArgValues = many\<rparr>"
| "UnmarshalJSON (ObjectArg rules (OneText one)) = Some \<lparr>ArgRules = rules, ArgValues = [one]\<rparr>"
| "UnmarshalJSON (ObjectArg rules _) = Some \<lparr>ArgRules = rules, ArgValues = []\<rparr>"
| "UnmarshalJSON OtherArg = None"

section \<open>Rules\<close>

definition ruleMatches :: "game_rule \<Rightarrow> string \<Rightarrow> string \<Rightarrow> bool" where
  "ruleMatches rule os arch =
     (if RuleFeatures rule \<noteq> [] then False
      else (case OS rule of
          None \<Rightarrow> True
        | Some r \<Rightarrow>
            if OSVersion r \<noteq> [] then False
            else if OSName r \<noteq> [] \<and> OSName r \<noteq> os then False
            else if OSArch r \<noteq> [] \<and> OSArch r \<noteq> arch then False
            else True))"

definition EvaluateRules :: "game_rule list \<Rightarrow> string \<Rightarrow> string \<Rightarrow> bool" where
  "EvaluateRules rules os arch =
     (if rules = [] then True
      else fold (\<lambda>rule allowed. if ruleMatches rule os arch then Action rule = ''allow'' else allowed) rules False)"

definition Selected :: "argument list \<Rightarrow> string \<Rightarrow> string \<Rightarrow> string list" where
  "Selected args os arch = concat (map ArgValues (filter (\<lambda>a. EvaluateRules (ArgRules a) os arch) args))"

section \<open>Coordinates of a library\<close>

definition maven_path :: "string \<Rightarrow> string option" where
  "maven_path coords =
     (let (extension, coords) = (case split_last CHR ''@'' coords of None \<Rightarrow> (''jar'', coords) | Some (before, after) \<Rightarrow> (after, before));
          parts = split_on CHR '':'' coords in
      if length parts < 3 then None
      else (let grp = map (\<lambda>c. if c = CHR ''.'' then CHR ''/'' else c) (parts ! 0); artifact = parts ! 1; version = parts ! 2;
                leaf = artifact @ ''-'' @ version @ (if length parts \<ge> 4 then ''-'' @ parts ! 3 else []) in
        Some (grp @ ''/'' @ artifact @ ''/'' @ version @ ''/'' @ leaf @ ''.'' @ extension)))"

section \<open>Arguments\<close>

definition resolvablePlaceholders :: "string list" where
  "resolvablePlaceholders = [''${library_directory}'', ''${classpath_separator}'', ''${version_name}'', ''${natives_directory}'']"

definition launcherJVMArgs :: "string list" where
  "launcherJVMArgs = [''-XstartOnFirstThread'', ''-Djava.library.path='', ''-Dorg.lwjgl.system.SharedLibraryExtractPath='',
     ''-Dminecraft.launcher.brand='', ''-Dminecraft.launcher.version='']"

definition launcherGameFlags :: "string list" where
  "launcherGameFlags = [''--username'', ''--version'', ''--gameDir'', ''--assetsDir'', ''--assetIndex'', ''--uuid'', ''--accessToken'',
     ''--userProperties'', ''--clientId'', ''--xuid'', ''--userType'', ''--versionType'', ''--width'', ''--height'', ''--demo'']"

definition resolvable :: "string \<Rightarrow> bool" where
  "resolvable placeholder \<longleftrightarrow> placeholder \<in> set resolvablePlaceholders"

function hasUnresolvedPlaceholder :: "string \<Rightarrow> bool" where
  "hasUnresolvedPlaceholder rest =
     (case find_text ''${'' rest of
        None \<Rightarrow> False
      | Some (_, from) \<Rightarrow>
          (case cut_at CHR ''}'' from of
             (before, after, found) \<Rightarrow>
               if \<not> found then False
               else if \<not> resolvable (before @ ''}'') then True
               else hasUnresolvedPlaceholder after))"
  by pat_completeness auto

termination
  by (relation "measure length") (auto dest!: find_text_Some cut_True[OF sym])

declare hasUnresolvedPlaceholder.simps [simp del]

definition suppliedByLauncher :: "string \<Rightarrow> bool" where
  "suppliedByLauncher v = list_ex (has_prefix v) launcherJVMArgs"

fun filterJVM :: "string list \<Rightarrow> string list" where
  "filterJVM [] = []"
| "filterJVM (v # vs) =
     (if v = ''-cp'' \<or> v = ''-classpath'' then filterJVM (drop 1 vs)
      else if suppliedByLauncher v \<or> hasUnresolvedPlaceholder v then filterJVM vs
      else v # filterJVM vs)"

definition valueOf :: "string list \<Rightarrow> string option" where
  "valueOf vs =
     (case vs of
        flag # next # _ \<Rightarrow> if \<not> has_prefix flag ''-'' then None else if has_prefix next ''-'' then None else Some next
      | _ \<Rightarrow> None)"

fun filterGame :: "string list \<Rightarrow> string list" where
  "filterGame [] = []"
| "filterGame (flag # vs) =
     (case valueOf (flag # vs) of
        None \<Rightarrow> (if flag \<in> set launcherGameFlags \<or> hasUnresolvedPlaceholder flag then filterGame vs else flag # filterGame vs)
      | Some v \<Rightarrow>
          (if flag \<in> set launcherGameFlags \<or> hasUnresolvedPlaceholder flag \<or> hasUnresolvedPlaceholder v then filterGame (drop 1 vs)
           else flag # v # filterGame (drop 1 vs)))"

definition JVM :: "argument list \<Rightarrow> string \<Rightarrow> string \<Rightarrow> string list" where
  "JVM args os arch = filterJVM (Selected args os arch)"

definition Game :: "argument list \<Rightarrow> string \<Rightarrow> string \<Rightarrow> string list" where
  "Game args os arch = filterGame (Selected args os arch)"

lemma trim_left_shorter: "length (trim_left s) \<le> length s"
  using strip_all_suffix[of s space_runes] by (metis le_add2 length_append trim_left_def)

lemma trim_left_starts: "\<not> starts_space (trim_left s)"
  by (simp add: starts_space_def trim_left_def strip_all_stuck)

lemma word_shorter: "trim_left s = c # t \<Longrightarrow> (w, r) = take_word (c # t) \<Longrightarrow> length r < length s"
  using take_word_shorter[of "c # t" w r] trim_left_starts[of s] trim_left_shorter[of s] by (metis list.distinct(1) order_less_le_trans)

text \<open>\<open>strings.Fields\<close>: the words between white space.\<close>

function Fields :: "string \<Rightarrow> string list" where
  "Fields s = (case trim_left s of [] \<Rightarrow> [] | c # t \<Rightarrow> (case take_word (c # t) of (w, r) \<Rightarrow> w # Fields r))"
  by pat_completeness auto

termination
  by (relation "measure length") (simp_all only: in_measure wf_measure, metis word_shorter)

declare Fields.simps [simp del]

definition Legacy :: "string \<Rightarrow> string list" where
  "Legacy arguments = filterGame (Fields arguments)"

section \<open>The profile\<close>

record artifact =
  ArtPath :: string
  ArtSHA1 :: string
  ArtSize :: int
  ArtURL :: string

record version_detail =
  VersionID :: string
  DetailMain :: string
  JavaComponentOf :: string
  JavaMajorOf :: int
  AssetID :: string
  AssetURL :: string
  DetailLibraries :: "game_library list"
  ArgumentsGame :: "argument list"
  ArgumentsJVM :: "argument list"
  MinecraftArguments :: string
  ClientSHA1 :: string
  ClientSize :: int
  ClientURL :: string

record loader_library =
  LoaderName :: string
  LoaderURL :: string

record loader_profile =
  LoaderMain :: string
  LoaderLibraries :: "loader_library list"

record profile =
  MainClass :: string
  JavaComponent :: string
  JavaMajor :: int
  ClientJar :: artifact
  Libraries :: "artifact list"
  Natives :: "artifact list"
  JvmArgs :: "string list"
  GameArgs :: "string list"
  AssetIndexID :: string
  AssetIndexURL :: string

definition defaultLoaderMaven :: string where
  "defaultLoaderMaven = ''https://maven.fabricmc.net/''"

definition gameArgs :: "version_detail \<Rightarrow> string \<Rightarrow> string \<Rightarrow> string list" where
  "gameArgs d os arch = (if ArgumentsGame d \<noteq> [] then Game (ArgumentsGame d) os arch else Legacy (MinecraftArguments d))"

definition fromArtifact :: "artifact_info \<Rightarrow> string \<Rightarrow> artifact option" where
  "fromArtifact a name =
     (case (if InfoPath a = [] then maven_path name else Some (InfoPath a)) of
        None \<Rightarrow> None
      | Some p \<Rightarrow> Some \<lparr>ArtPath = ''libraries/'' @ p, ArtSHA1 = InfoSHA1 a, ArtSize = InfoSize a, ArtURL = InfoURL a\<rparr>)"

text \<open>\<open>strings.TrimRight\<close> of slashes.\<close>

definition trim_slashes :: "string \<Rightarrow> string" where
  "trim_slashes s = rev (dropWhile (\<lambda>c. c = CHR ''/'') (rev s))"

definition mavenArtifact :: "string \<Rightarrow> string \<Rightarrow> artifact option" where
  "mavenArtifact coords base =
     (case maven_path coords of
        None \<Rightarrow> None
      | Some p \<Rightarrow> Some \<lparr>ArtPath = ''libraries/'' @ p, ArtSHA1 = [], ArtSize = 0, ArtURL = trim_slashes base @ ''/'' @ p\<rparr>)"

definition archBits :: "string \<Rightarrow> string" where
  "archBits arch = (if arch = ''x86'' then ''32'' else ''64'')"

text \<open>The libraries and natives found so far; \<open>None\<close> is the error that a library has no place.\<close>

fun take_libraries :: "string \<Rightarrow> string \<Rightarrow> game_library list \<Rightarrow> artifact list \<Rightarrow> artifact list \<Rightarrow> (artifact list \<times> artifact list) option" where
  "take_libraries os arch [] libs nats = Some (libs, nats)"
| "take_libraries os arch (lib # rest) libs nats =
     (if \<not> EvaluateRules (LibRules lib) os arch then take_libraries os arch rest libs nats
      else (case lookup (LibNatives lib) os of
          Some k \<Rightarrow>
            (let classifierKey = replace_all ''${arch}'' (archBits arch) k in
             case lookup (Classifiers lib) classifierKey of
               Some declared \<Rightarrow>
                 (case fromArtifact declared (LibName lib @ '':'' @ classifierKey) of
                    None \<Rightarrow> None
                  | Some a \<Rightarrow> take_libraries os arch rest libs (nats @ [a]))
             | None \<Rightarrow> take_libraries os arch rest libs nats)
        | None \<Rightarrow>
            (case MainArtifact lib of
               Some m \<Rightarrow>
                 (case fromArtifact m (LibName lib) of None \<Rightarrow> None | Some a \<Rightarrow> take_libraries os arch rest (libs @ [a]) nats)
             | None \<Rightarrow>
                 if LibURL lib \<noteq> [] then
                   (case mavenArtifact (LibName lib) (LibURL lib) of None \<Rightarrow> None | Some a \<Rightarrow> take_libraries os arch rest (libs @ [a]) nats)
                 else take_libraries os arch rest libs nats)))"

fun take_loader :: "loader_library list \<Rightarrow> artifact list \<Rightarrow> artifact list option" where
  "take_loader [] libs = Some libs"
| "take_loader (lib # rest) libs =
     (case mavenArtifact (LoaderName lib) (if LoaderURL lib = [] then defaultLoaderMaven else LoaderURL lib) of
        None \<Rightarrow> None
      | Some a \<Rightarrow> take_loader rest (libs @ [a]))"

definition Resolve :: "version_detail \<Rightarrow> string \<Rightarrow> string \<Rightarrow> loader_profile option \<Rightarrow> profile option" where
  "Resolve d os arch lp =
     (case take_libraries os arch (DetailLibraries d) [] [] of
        None \<Rightarrow> None
      | Some (libs, nats) \<Rightarrow>
          (let p = \<lparr>MainClass = DetailMain d, JavaComponent = JavaComponentOf d, JavaMajor = JavaMajorOf d,
                ClientJar = \<lparr>ArtPath = ''versions/'' @ VersionID d @ ''/'' @ VersionID d @ ''.jar'', ArtSHA1 = ClientSHA1 d,
                  ArtSize = ClientSize d, ArtURL = ClientURL d\<rparr>,
                Libraries = libs, Natives = nats, JvmArgs = JVM (ArgumentsJVM d) os arch, GameArgs = gameArgs d os arch,
                AssetIndexID = AssetID d, AssetIndexURL = AssetURL d\<rparr> in
           case lp of
             None \<Rightarrow> Some p
           | Some l \<Rightarrow>
               (case take_loader (LoaderLibraries l) libs of
                  None \<Rightarrow> None
                | Some libs \<Rightarrow> Some (p\<lparr>MainClass := (if LoaderMain l \<noteq> [] then LoaderMain l else DetailMain d), Libraries := libs\<rparr>))))"

section \<open>The loaders Fabric and Quilt\<close>

datatype main_json = NoMain | MainText string | MainClient string | MainOther

fun parseMainClass :: "main_json \<Rightarrow> string option" where
  "parseMainClass NoMain = Some []"
| "parseMainClass (MainText s) = Some s"
| "parseMainClass (MainClient c) = Some c"
| "parseMainClass MainOther = None"

record fabric_entry =
  FabricVersion :: string
  FabricMaven :: string
  IntermediaryMaven :: string
  FabricMain :: main_json
  FabricCommon :: "loader_library list"
  FabricClient :: "loader_library list"

record fabricLike =
  FabricName :: string
  FabricBase :: string
  FabricMavenURL :: string

definition fabricMaven :: string where
  "fabricMaven = ''https://maven.fabricmc.net/''"

definition mavenOf :: "fabricLike \<Rightarrow> string \<Rightarrow> string" where
  "mavenOf f coordinate = (if has_prefix coordinate ''net.fabricmc:'' then fabricMaven else FabricMavenURL f)"

text \<open>The web is a function of the address; \<open>None\<close> is a failed request.\<close>

definition fabric_versions :: "(string \<Rightarrow> fabric_entry list option) \<Rightarrow> fabricLike \<Rightarrow> string \<Rightarrow> string list option" where
  "fabric_versions web f mc = map_option (map FabricVersion) (web (FabricBase f @ ''/versions/loader/'' @ mc))"

definition fabric_resolve :: "(string \<Rightarrow> fabric_entry option) \<Rightarrow> fabricLike \<Rightarrow> string \<Rightarrow> string \<Rightarrow> loader_profile option" where
  "fabric_resolve web f mc version =
     (case web (FabricBase f @ ''/versions/loader/'' @ mc @ ''/'' @ version) of
        None \<Rightarrow> None
      | Some e \<Rightarrow>
          (case parseMainClass (FabricMain e) of
             None \<Rightarrow> None
           | Some main \<Rightarrow>
               Some \<lparr>LoaderMain = main,
                 LoaderLibraries = map (\<lambda>c. \<lparr>LoaderName = c, LoaderURL = mavenOf f c\<rparr>)
                   (filter (\<lambda>c. c \<noteq> []) [IntermediaryMaven e, FabricMaven e]) @ FabricCommon e @ FabricClient e\<rparr>))"

section \<open>What is left to the launcher\<close>

lemma filterJVM_clean:
  "v \<in> set (filterJVM vs) \<Longrightarrow> v \<noteq> ''-cp'' \<and> v \<noteq> ''-classpath'' \<and> \<not> suppliedByLauncher v \<and> \<not> hasUnresolvedPlaceholder v"
  by (induction vs rule: filterJVM.induct) (auto split: if_splits)

lemma flags_dashed: "v \<in> set launcherGameFlags \<Longrightarrow> has_prefix v ''-''"
  by (auto simp: launcherGameFlags_def has_prefix_def)

lemma valueOf_plain: "valueOf (flag # vs) = Some v \<Longrightarrow> \<not> has_prefix v ''-'' \<and> (\<exists>rest. vs = v # rest)"
  by (auto simp: valueOf_def split: list.splits if_splits)

lemma filterGame_clean:
  "v \<in> set (filterGame vs) \<Longrightarrow> v \<notin> set launcherGameFlags \<and> \<not> hasUnresolvedPlaceholder v"
proof (induction vs rule: filterGame.induct)
  case (2 flag vs)
  then show ?case by (auto split: option.splits if_splits dest: valueOf_plain flags_dashed)
qed simp

text \<open>What a rule decides: the last one that matches, and no rule at all allows.\<close>

lemma EvaluateRules_last:
  "EvaluateRules rules os arch \<longleftrightarrow>
    (case List.find (\<lambda>r. ruleMatches r os arch) (rev rules) of None \<Rightarrow> rules = [] | Some r \<Rightarrow> Action r = ''allow'')"
proof -
  have "fold (\<lambda>rule allowed. if ruleMatches rule os arch then Action rule = ''allow'' else allowed) rules False \<longleftrightarrow>
    (case List.find (\<lambda>r. ruleMatches r os arch) (rev rules) of None \<Rightarrow> False | Some r \<Rightarrow> Action r = ''allow'')"
    by (induction rules rule: rev_induct) simp_all
  then show ?thesis by (auto simp: EvaluateRules_def split: option.splits)
qed

lemma resolvable_one: "resolvable p \<Longrightarrow> p = a @ ''${'' @ b \<Longrightarrow> a = []"
  unfolding resolvable_def resolvablePlaceholders_def by (auto simp: append_eq_Cons_conv)

text \<open>What the search for placeholders finds: one in braces that is none of the four the launcher fills in.\<close>

lemma hasUnresolvedPlaceholder_iff:
  "hasUnresolvedPlaceholder s \<longleftrightarrow> (\<exists>a b c. s = a @ ''${'' @ b @ ''}'' @ c \<and> CHR ''}'' \<notin> set b \<and> \<not> resolvable (''${'' @ b @ ''}''))"
  (is "_ \<longleftrightarrow> ?bad s")
proof (induction s rule: hasUnresolvedPlaceholder.induct)
  case (1 s)
  show ?case
  proof (cases "find_text ''${'' s")
    case None
    then have "\<not> ?bad s" using find_text_None by blast
    then show ?thesis using None by (simp add: hasUnresolvedPlaceholder.simps)
  next
    case (Some x)
    obtain front tail where x: "x = (front, tail)" by (cases x)
    obtain before after found where cut: "cut_at CHR ''}'' tail = (before, after, found)" by (cases "cut_at CHR ''}'' tail")
    have s: "s = front @ tail" and starts: "has_prefix tail ''${''" using find_text_Some Some x by blast+
    then obtain rest where rest: "tail = ''${'' @ rest" by (auto simp: has_prefix_iff)
    have later: "\<exists>a'. a = front @ a' \<and> tail = a' @ ''${'' @ b @ ''}'' @ c" if "s = a @ ''${'' @ b @ ''}'' @ c" for a b c
    proof -
      have "length front \<le> length a" using find_text_first[of "''${''" s front tail a "b @ ''}'' @ c"] Some x that by simp
      then have "a = front @ drop (length front) a" using s that by (metis append_eq_append_conv_if append_take_drop_id)
      then show ?thesis using s that by (metis append.assoc same_append_eq)
    qed
    show ?thesis
    proof (cases found)
      case False
      then have "CHR ''}'' \<notin> set tail" using cut cut_False by fastforce
      then have "\<not> ?bad s" using later by (metis in_set_conv_decomp append.assoc append_Cons append_Nil)
      then show ?thesis using Some x cut False by (subst hasUnresolvedPlaceholder.simps) simp
    next
      case True
      then have parts: "tail = before @ CHR ''}'' # after" "CHR ''}'' \<notin> set before" using cut cut_True[of "CHR ''}''" tail before after] by auto
      obtain inner where inner: "before = ''${'' @ inner" using rest parts(1) by (cases before; cases "tl before") auto
      show ?thesis
      proof (cases "resolvable (before @ ''}'')")
        case False
        have "s = front @ ''${'' @ inner @ ''}'' @ after" using s parts inner by simp
        moreover have "CHR ''}'' \<notin> set inner" using parts(2) inner by simp
        moreover have "\<not> resolvable (''${'' @ inner @ ''}'')" using False inner by simp
        ultimately have "?bad s" by blast
        then show ?thesis using Some x cut True False by (subst hasUnresolvedPlaceholder.simps) simp
      next
        case res: True
        have "?bad s \<longleftrightarrow> ?bad after"
        proof
          assume "?bad after"
          then obtain a b c where "after = a @ ''${'' @ b @ ''}'' @ c" "CHR ''}'' \<notin> set b" "\<not> resolvable (''${'' @ b @ ''}'')" by blast
          moreover from this have "s = (front @ before @ ''}'' @ a) @ ''${'' @ b @ ''}'' @ c" using s parts(1) by simp
          ultimately show "?bad s" by blast
        next
          assume "?bad s"
          then obtain a b c where bad: "s = a @ ''${'' @ b @ ''}'' @ c" "CHR ''}'' \<notin> set b" "\<not> resolvable (''${'' @ b @ ''}'')" by blast
          obtain a' where a': "tail = a' @ ''${'' @ b @ ''}'' @ c" using later[OF bad(1)] by blast
          then have "a' @ (''${'' @ b @ ''}'' @ c) = before @ (CHR ''}'' # after)" using parts(1) by simp
          then obtain us where us: "a' = before @ us \<and> us @ ''${'' @ b @ ''}'' @ c = CHR ''}'' # after \<or>
              a' @ us = before \<and> ''${'' @ b @ ''}'' @ c = us @ CHR ''}'' # after"
            unfolding append_eq_append_conv2 by blast
          then show "?bad after"
          proof
            assume "a' = before @ us \<and> us @ ''${'' @ b @ ''}'' @ c = CHR ''}'' # after"
            then have "after = tl us @ ''${'' @ b @ ''}'' @ c" by (cases us) auto
            then show ?thesis using bad(2,3) by blast
          next
            assume eq: "a' @ us = before \<and> ''${'' @ b @ ''}'' @ c = us @ CHR ''}'' # after"
            then have "CHR ''}'' \<notin> set us" using parts(2) by auto
            moreover have "CHR ''}'' \<notin> set (''${'' @ b)" using bad(2) by simp
            moreover have "(''${'' @ b) @ CHR ''}'' # c = us @ CHR ''}'' # after" using eq by simp
            ultimately have "us = ''${'' @ b" by (metis cut_found prod.inject)
            then have before: "before = a' @ ''${'' @ b" using eq by simp
            then have "a' = []" using resolvable_one[OF res, of a' "b @ ''}''"] by simp
            then show ?thesis using before res bad(3) by simp
          qed
        qed
        moreover have "hasUnresolvedPlaceholder s = hasUnresolvedPlaceholder after"
          using Some x cut True res by (subst hasUnresolvedPlaceholder.simps) simp
        moreover have "hasUnresolvedPlaceholder after \<longleftrightarrow> ?bad after"
          using 1[OF Some, of front tail] x cut True res by simp
        ultimately show ?thesis by simp
      qed
    qed
  qed
qed

section \<open>The property\<close>

text \<open>
  An argument of the virtual machine stands alone, but the class path follows its flag; an argument of the game is a flag with
  its value, when the flag has a dash and what follows has none, or stands alone.
\<close>

fun jvm_units :: "string list \<Rightarrow> string list list" where
  "jvm_units [] = []"
| "jvm_units [v] = [[v]]"
| "jvm_units (v # x # vs) = (if v \<in> {''-cp'', ''-classpath''} then [v, x] # jvm_units vs else [v] # jvm_units (x # vs))"

fun game_units :: "string list \<Rightarrow> string list list" where
  "game_units [] = []"
| "game_units [flag] = [[flag]]"
| "game_units (flag # v # vs) =
     (if has_prefix flag ''-'' \<and> \<not> has_prefix v ''-'' then [flag, v] # game_units vs else [flag] # game_units (v # vs))"

lemma units_concat: "concat (jvm_units vs) = vs" "concat (game_units vs) = vs"
  by (induction vs rule: jvm_units.induct; simp) (induction vs rule: game_units.induct; simp)

text \<open>Every placeholder is one the launcher fills in.\<close>

definition resolved :: "string \<Rightarrow> bool" where
  "resolved v \<longleftrightarrow> (\<forall>a b c. v = a @ ''${'' @ b @ ''}'' @ c \<and> CHR ''}'' \<notin> set b \<longrightarrow> ''${'' @ b @ ''}'' \<in> set resolvablePlaceholders)"

definition jvm_kept :: "string list \<Rightarrow> bool" where
  "jvm_kept u \<longleftrightarrow> hd u \<notin> {''-cp'', ''-classpath''} \<and> (\<forall>known \<in> set launcherJVMArgs. \<not> has_prefix (hd u) known) \<and> resolved (hd u)"

definition game_kept :: "string list \<Rightarrow> bool" where
  "game_kept u \<longleftrightarrow> hd u \<notin> set launcherGameFlags \<and> (\<forall>v \<in> set u. resolved v)"

lemma resolved_iff: "resolved v \<longleftrightarrow> \<not> hasUnresolvedPlaceholder v"
  unfolding hasUnresolvedPlaceholder_iff resolved_def resolvable_def by blast

lemma filterJVM_units: "filterJVM vs = concat (filter jvm_kept (jvm_units vs))"
  by (induction vs rule: jvm_units.induct) (simp_all add: jvm_kept_def resolved_iff suppliedByLauncher_def list_ex_iff list.pred_set)

lemma filterGame_units: "filterGame vs = concat (filter game_kept (game_units vs))"
proof (induction vs rule: game_units.induct)
  case (3 flag v vs)
  show ?case
  proof (cases "has_prefix flag ''-'' \<and> \<not> has_prefix v ''-''")
    case True
    then have "valueOf (flag # v # vs) = Some v" by (simp add: valueOf_def)
    then show ?thesis using True 3(1) by (simp add: game_kept_def resolved_iff)
  next
    case False
    then have none: "valueOf (flag # v # vs) = None" by (auto simp: valueOf_def)
    have "filterGame (flag # v # vs) =
        (if flag \<in> set launcherGameFlags \<or> hasUnresolvedPlaceholder flag then filterGame (v # vs) else flag # filterGame (v # vs))"
      by (simp only: filterGame.simps(2) none option.case)
    moreover have "game_units (flag # v # vs) = [flag] # game_units (v # vs)" using False by (simp only: game_units.simps if_False)
    ultimately show ?thesis using 3(2)[OF False] by (simp add: game_kept_def resolved_iff del: filterGame.simps game_units.simps)
  qed
qed (simp_all add: game_kept_def resolved_iff valueOf_def)

text \<open>
  C36: Whatever the version and the loader say, the arguments of a profile are those of the version that its rules select, in
  their order, less the class path with its flag, the arguments the launcher sets, the flags of the player and the window with their
  values, and every argument, flag or value with a placeholder that is none of the four that the launcher fills in, a flag and its
  value together. Nothing else is left out, and none of these is left in.
\<close>

theorem launcher_sets_its_own_arguments:
  assumes "Resolve d os arch lp = Some p"
  shows "JvmArgs p = concat (filter jvm_kept (jvm_units (Selected (ArgumentsJVM d) os arch))) \<and>
    GameArgs p = concat (filter game_kept (game_units
      (if ArgumentsGame d \<noteq> [] then Selected (ArgumentsGame d) os arch else Fields (MinecraftArguments d)))) \<and>
    (\<forall>v \<in> set (JvmArgs p). v \<notin> {''-cp'', ''-classpath''} \<and> (\<forall>known \<in> set launcherJVMArgs. \<not> has_prefix v known)) \<and>
    (\<forall>v \<in> set (GameArgs p). v \<notin> set launcherGameFlags) \<and>
    (\<forall>v \<in> set (JvmArgs p @ GameArgs p). \<forall>a b c. v = a @ ''${'' @ b @ ''}'' @ c \<and> CHR ''}'' \<notin> set b \<longrightarrow>
      ''${'' @ b @ ''}'' \<in> set resolvablePlaceholders)"
proof -
  have p: "JvmArgs p = filterJVM (Selected (ArgumentsJVM d) os arch)" "GameArgs p = filterGame
      (if ArgumentsGame d \<noteq> [] then Selected (ArgumentsGame d) os arch else Fields (MinecraftArguments d))"
    using assms by (auto simp: Resolve_def Let_def JVM_def gameArgs_def Game_def Legacy_def split: option.splits)
  have j: "v \<noteq> ''-cp'' \<and> v \<noteq> ''-classpath'' \<and> \<not> suppliedByLauncher v \<and> resolved v" if "v \<in> set (JvmArgs p)" for v
    using filterJVM_clean that p(1) unfolding resolved_iff by metis
  have g: "v \<notin> set launcherGameFlags \<and> resolved v" if "v \<in> set (GameArgs p)" for v
    using filterGame_clean that p(2) unfolding resolved_iff by metis
  have "\<forall>v \<in> set (JvmArgs p @ GameArgs p). \<forall>a b c. v = a @ ''${'' @ b @ ''}'' @ c \<and> CHR ''}'' \<notin> set b \<longrightarrow>
      ''${'' @ b @ ''}'' \<in> set resolvablePlaceholders"
    using j g unfolding resolved_def set_append by blast
  moreover have "JvmArgs p = concat (filter jvm_kept (jvm_units (Selected (ArgumentsJVM d) os arch)))" by (simp only: p filterJVM_units)
  moreover have "GameArgs p = concat (filter game_kept (game_units
      (if ArgumentsGame d \<noteq> [] then Selected (ArgumentsGame d) os arch else Fields (MinecraftArguments d))))"
    by (simp only: p filterGame_units)
  ultimately show ?thesis using j g by (auto simp: suppliedByLauncher_def list_ex_iff)
qed

definition sample_detail :: version_detail where
  "sample_detail = \<lparr>VersionID = ''1'', DetailMain = ''M'', JavaComponentOf = ''j'', JavaMajorOf = 21, AssetID = ''1'', AssetURL = [],
     DetailLibraries = [\<lparr>LibName = ''g:a:1'', MainArtifact = None, Classifiers = [], LibRules = [], LibNatives = [], LibURL = ''u/''\<rparr>],
     ArgumentsGame = [\<lparr>ArgRules = [], ArgValues = [''--uuid'', ''x'', ''--server'', ''s'']\<rparr>],
     ArgumentsJVM = [\<lparr>ArgRules = [], ArgValues = [''-cp'', ''x'', ''-Da=${b}'', ''-Dc=${version_name}'']\<rparr>],
     MinecraftArguments = [], ClientSHA1 = [], ClientSize = 0, ClientURL = []\<rparr>"

theorem launcher_sets_its_own_arguments_witness:
  "\<exists>p. Resolve sample_detail ''linux'' ''x86_64'' None = Some p \<and> JvmArgs p = [''-Dc=${version_name}''] \<and>
    GameArgs p = [''--server'', ''s''] \<and> map ArtPath (Libraries p) = [''libraries/g/a/1/a-1.jar''] \<and>
    concat (filter game_kept (game_units [''--uuid'', ''x'', ''--server'', ''s''])) = [''--server'', ''s'']"
proof -
  have args: "filterGame [''--uuid'', ''x'', ''--server'', ''s''] = [''--server'', ''s'']"
    "filterJVM [''-cp'', ''x'', ''-Da=${b}'', ''-Dc=${version_name}''] = [''-Dc=${version_name}'']" by code_simp+
  have path: "maven_path ''g:a:1'' = Some ''g/a/1/a-1.jar''" by code_simp
  let ?shown = "\<lambda>p. (JvmArgs p, GameArgs p, map ArtPath (Libraries p))"
  have run: "map_option ?shown (Resolve sample_detail ''linux'' ''x86_64'' None) =
      Some ([''-Dc=${version_name}''], [''--server'', ''s''], [''libraries/g/a/1/a-1.jar''])"
    by (simp add: Resolve_def sample_detail_def EvaluateRules_def mavenArtifact_def JVM_def gameArgs_def Game_def Selected_def args path
        del: filterJVM.simps filterGame.simps)
  show ?thesis
  proof (cases "Resolve sample_detail ''linux'' ''x86_64'' None")
    case None
    show ?thesis using run unfolding None by (simp only: option.map option.distinct)
  next
    case (Some p)
    have "?shown p = ([''-Dc=${version_name}''], [''--server'', ''s''], [''libraries/g/a/1/a-1.jar''])"
      using run unfolding Some by (simp only: option.map option.inject)
    then have "JvmArgs p = [''-Dc=${version_name}''] \<and> GameArgs p = [''--server'', ''s''] \<and>
        map ArtPath (Libraries p) = [''libraries/g/a/1/a-1.jar'']" by (simp only: prod.inject)
    moreover have "GameArgs p = concat (filter game_kept (game_units [''--uuid'', ''x'', ''--server'', ''s'']))"
      using launcher_sets_its_own_arguments[OF Some] by (simp add: sample_detail_def Selected_def EvaluateRules_def)
    ultimately show ?thesis using Some by metis
  qed
qed

text \<open>
  A value that begins with a dash is not taken with its flag: of a negative width the flag is dropped and the value left among the
  arguments.
\<close>

lemma value_left_behind: "filterGame [''--width'', ''-1'', ''--server'', ''s''] = [''-1'', ''--server'', ''s'']"
  by code_simp

end
