(* ===== verification/Slp.thy ===== *)
theory Slp
  imports TextSearch
begin

text \<open>
  The status of a game server (\<open>internal/slp/slp.go\<close>): the address, the numbers of variable length, the two requests and the
  answer. \<open>net.SplitHostPort\<close> and \<open>strconv.ParseUint\<close> are written out; the JSON decoder is a parameter, and a connection is
  what it answers to each call.

  The theorem: a number that was written is read back and the rest of the stream is left, and so is a status.
\<close>

unbundle bit_operations_syntax

type_synonym bytes = "8 word list"

definition text_bytes :: "string \<Rightarrow> bytes" where
  "text_bytes s = map (\<lambda>c. of_nat (of_char c)) s"

definition maxStatusBytes :: "32 word" where "maxStatusBytes = 4 * 2 ^ 20"
definition protocolVersion :: "32 word" where "protocolVersion = 767"

record status =
  Online :: int
  Max :: int
  StatusVersion :: string
  Sample :: "string list"

section \<open>Addresses\<close>

text \<open>\<open>net.SplitHostPort\<close>: an address in brackets may have colons, any other only the one before the port.\<close>

definition SplitHostPort :: "string \<Rightarrow> (string \<times> string) option" where
  "SplitHostPort hostport =
     (case split_last CHR '':'' hostport of
        None \<Rightarrow> None
      | Some (before, port) \<Rightarrow>
          if has_prefix hostport ''['' then
            (case cut_at CHR '']'' (tl hostport) of
               (host, rest, found) \<Rightarrow>
                 if found \<and> rest = CHR '':'' # port \<and> CHR ''['' \<notin> set (host @ port) \<and> CHR '']'' \<notin> set port then Some (host, port) else None)
          else if CHR '':'' \<in> set before \<or> CHR ''['' \<in> set hostport \<or> CHR '']'' \<in> set hostport then None
          else Some (before, port))"

definition ParseUint16 :: "string \<Rightarrow> 16 word option" where
  "ParseUint16 s = (if s = [] \<or> \<not> list_all is_digit s \<or> digits_val s > 65535 then None else Some (of_nat (digits_val s)))"

definition SplitAddress :: "string \<Rightarrow> string \<times> 16 word" where
  "SplitAddress address =
     (let address = trim_space address in
      case SplitHostPort address of
        None \<Rightarrow> (address, 25565)
      | Some (host, port) \<Rightarrow> (case ParseUint16 port of None \<Rightarrow> (address, 25565) | Some number \<Rightarrow> (host, number)))"

section \<open>Numbers and frames\<close>

function appendVarint :: "bytes \<Rightarrow> 32 word \<Rightarrow> bytes" where
  "appendVarint buf v =
     (let part = ucast (v AND 0x7F) :: 8 word; v' = drop_bit 7 v in
      if v' \<noteq> 0 then appendVarint (buf @ [part OR 0x80]) v' else buf @ [part])"
  by pat_completeness auto
termination
proof (relation "measure (\<lambda>(buf, v). unat v)")
  fix buf :: bytes and v :: "32 word" and x :: "8 word" and v'
  assume v': "v' = drop_bit 7 v" "v' \<noteq> 0"
  then have "v \<noteq> 0" by auto
  then have "0 < unat v" by (simp add: unat_gt_0)
  then show "((buf @ [x OR 0x80], v'), buf, v) \<in> measure (\<lambda>(buf, v). unat v)"
    using v'(1) by (simp only: in_measure prod.case, subst unat_drop_bit_eq) (simp add: drop_bit_eq_div)
qed simp

declare appendVarint.simps [simp del]

text \<open>The position is at most 28 when a byte is read: after five bytes the number is refused.\<close>

fun read_part :: "32 word \<Rightarrow> nat \<Rightarrow> bytes \<Rightarrow> (32 word \<times> bytes) option" where
  "read_part acc shift [] = None"
| "read_part acc shift (part # rest) =
     (let acc = acc OR push_bit shift (ucast (part AND 0x7F)) in
      if part AND 0x80 = 0 then Some (acc, rest)
      else if shift + 7 \<ge> 32 then None
      else read_part acc (shift + 7) rest)"

definition readVarint :: "bytes \<Rightarrow> (32 word \<times> bytes) option" where
  "readVarint input = read_part 0 0 input"

definition frame :: "bytes \<Rightarrow> bytes" where
  "frame data = appendVarint [] (of_nat (length data)) @ data"

definition appendString :: "bytes \<Rightarrow> string \<Rightarrow> bytes" where
  "appendString buf t = appendVarint buf (of_nat (length t)) @ text_bytes t"

definition AppendUint16 :: "bytes \<Rightarrow> 16 word \<Rightarrow> bytes" where
  "AppendUint16 buf v = buf @ [ucast (drop_bit 8 v), ucast v]"

section \<open>Asking a server\<close>

record slp_body =
  body_version :: string
  body_online :: int
  body_max :: int
  body_sample :: "string list"

definition slp_decode :: "(bytes \<Rightarrow> slp_body option) \<Rightarrow> bytes \<Rightarrow> status option" where
  "slp_decode json p =
     (case json p of
        None \<Rightarrow> None
      | Some b \<Rightarrow> Some \<lparr>Online = body_online b, Max = body_max b, StatusVersion = body_version b,
          Sample = filter (\<lambda>name. name \<noteq> []) (body_sample b)\<rparr>)"

record slp_conn =
  dials :: bool
  writes :: "bool list"
  answers :: bytes

definition handshake :: "string \<Rightarrow> 16 word \<Rightarrow> bytes" where
  "handshake host port = appendVarint (AppendUint16 (appendString (appendVarint [0] protocolVersion) host) port) 1"

text \<open>What is read after the requests; \<open>io.ReadFull\<close> fails when the stream ends early.\<close>

definition read_status :: "(bytes \<Rightarrow> slp_body option) \<Rightarrow> bytes \<Rightarrow> status option" where
  "read_status json input =
     (case readVarint input of
        None \<Rightarrow> None
      | Some (_, input) \<Rightarrow>
          (case readVarint input of
             None \<Rightarrow> None
           | Some (_, input) \<Rightarrow>
               (case readVarint input of
                  None \<Rightarrow> None
                | Some (n, input) \<Rightarrow>
                    if n = 0 \<or> n > maxStatusBytes then None
                    else if length input < unat n then None
                    else slp_decode json (take (unat n) input))))"

definition PingContext :: "(bytes \<Rightarrow> slp_body option) \<Rightarrow> slp_conn \<Rightarrow> string \<Rightarrow> bytes list \<times> status option" where
  "PingContext json c address =
     (case SplitAddress address of
        (host, port) \<Rightarrow>
          if \<not> dials c then ([], None)
          else (let first = frame (handshake host port); second = [0x01, 0x00] in
            case writes c of
              True # True # _ \<Rightarrow> ([first, second], read_status json (answers c))
            | True # _ \<Rightarrow> ([first], None)
            | _ \<Rightarrow> ([], None)))"

section \<open>Round trips\<close>

lemma unat_drop7: "drop_bit 7 v \<noteq> 0 \<Longrightarrow> unat (drop_bit 7 v) < unat v" for v :: "32 word"
proof -
  assume "drop_bit 7 v \<noteq> 0"
  then have "0 < unat v" by (metis drop_bit_of_0 unat_gt_0)
  then show ?thesis by (subst unat_drop_bit_eq) (simp add: drop_bit_eq_div)
qed

lemma appendVarint_step:
  "appendVarint buf v = (if drop_bit 7 v \<noteq> 0 then appendVarint (buf @ [ucast (v AND 0x7F) OR 0x80]) (drop_bit 7 v) else buf @ [ucast (v AND 0x7F)])"
  by (subst appendVarint.simps) (simp add: Let_def)

lemma appendVarint_buf: "appendVarint buf v = buf @ appendVarint [] v"
proof (induction "unat v" arbitrary: buf v rule: less_induct)
  case less
  note smaller = less[OF unat_drop7]
  show ?case
  proof (cases "drop_bit 7 v = 0")
    case True
    then show ?thesis by (subst (1 2) appendVarint_step) simp
  next
    case False
    show ?thesis
      by (subst (1 2) appendVarint_step, subst (1 2) smaller[OF False]) (use False in simp)
  qed
qed

lemma varint_more: "drop_bit 7 v \<noteq> 0 \<Longrightarrow> appendVarint [] v = (ucast (v AND 0x7F) OR 0x80) # appendVarint [] (drop_bit 7 v)"
  by (subst appendVarint_step, subst appendVarint_buf) simp

lemma varint_last: "drop_bit 7 v = 0 \<Longrightarrow> appendVarint [] v = [ucast (v AND 0x7F)]"
  by (subst appendVarint_step) simp

lemma part_masks: "(0x7F :: 'a::len word) = mask 7" "(0x80 :: 'a word) = push_bit 7 1"
  by (simp_all add: mask_eq_exp_minus_1 push_bit_eq_mult)

lemma mark_bit: "bit (0x80 :: 8 word) n \<longleftrightarrow> n = 7"
proof -
  have "bit (push_bit 7 1 :: 8 word) n \<longleftrightarrow> n = 7" by (simp only: bit_push_bit_iff possible_bit_word bit_1_iff) auto
  then show ?thesis unfolding part_masks .
qed

lemma part_marks:
  "(ucast (v AND 0x7F) OR 0x80 :: 8 word) AND 0x80 \<noteq> 0" "(ucast (v AND 0x7F) :: 8 word) AND 0x80 = 0"
  "(ucast ((ucast (v AND 0x7F) OR 0x80 :: 8 word) AND 0x7F) :: 32 word) = v AND 0x7F"
  "(ucast ((ucast (v AND 0x7F) :: 8 word) AND 0x7F) :: 32 word) = v AND 0x7F" for v :: "32 word"
proof -
  have "bit ((ucast (v AND 0x7F) OR 0x80 :: 8 word) AND 0x80) 7" unfolding part_masks by (simp add: bit_simps)
  then show "(ucast (v AND 0x7F) OR 0x80 :: 8 word) AND 0x80 \<noteq> 0" by (metis bit_0_eq bot_apply bot_bool_def)
  show "(ucast (v AND 0x7F) :: 8 word) AND 0x80 = 0" 
  proof (rule bit_word_eqI)
    fix n
    have "\<not> bit (ucast (v AND 0x7F) :: 8 word) 7" unfolding part_masks(1) by (simp add: bit_simps)
    then have "\<not> bit ((ucast (v AND 0x7F) :: 8 word) AND 0x80) n" by (auto simp only: bit_and_iff mark_bit)
    then show "bit ((ucast (v AND 0x7F) :: 8 word) AND 0x80) n \<longleftrightarrow> bit (0 :: 8 word) n" by simp
  qed
  show "(ucast ((ucast (v AND 0x7F) OR 0x80 :: 8 word) AND 0x7F) :: 32 word) = v AND 0x7F"
  proof (rule bit_word_eqI)
    fix n
    show "bit (ucast ((ucast (v AND 0x7F) OR 0x80 :: 8 word) AND 0x7F) :: 32 word) n \<longleftrightarrow> bit (v AND 0x7F) n"
      unfolding part_masks(1) by (cases "n < 7") (simp_all only: bit_and_iff bit_or_iff bit_unsigned_iff bit_mask_iff mark_bit, simp_all)
  qed
  show "(ucast ((ucast (v AND 0x7F) :: 8 word) AND 0x7F) :: 32 word) = v AND 0x7F"
    unfolding part_masks by (rule bit_word_eqI) (auto simp: bit_simps)
qed

lemma dropped_bits: "drop_bit n v = 0 \<longleftrightarrow> (\<forall>k \<ge> n. \<not> bit v k)" for v :: "32 word"
proof -
  have "drop_bit n v = 0 \<longleftrightarrow> (\<forall>k. \<not> bit (drop_bit n v) k)" by (metis bit_0_eq bot_apply bot_bool_def bit_eqI)
  then have "drop_bit n v = 0 \<longleftrightarrow> (\<forall>k. \<not> bit v (n + k))" by (simp only: bit_drop_bit_eq comp_def)
  then show ?thesis by (metis le_add1 le_iff_add)
qed

lemma read_varint_part:
  assumes "shift < 32" "drop_bit (32 - shift) v = 0"
  shows "read_part acc shift (appendVarint [] v @ rest) = Some (acc OR push_bit shift v, rest)"
  using assms
proof (induction "unat v" arbitrary: acc shift v rule: less_induct)
  case less
  show ?case
  proof (cases "drop_bit 7 v = 0")
    case True
    then have "v AND 0x7F = v" unfolding part_masks dropped_bits by (intro bit_word_eqI) (auto simp: bit_simps intro: not_le_imp_less)
    then show ?thesis using True part_marks(2,4)[of v] by (simp add: varint_last)
  next
    case False
    have room: "shift + 7 < 32" 
    proof -
      obtain k where k: "7 \<le> k" "bit v k" using False unfolding dropped_bits by blast
      then have "k < 32 - shift" using less.prems(2) unfolding dropped_bits by (meson not_le)
      then show ?thesis using k(1) by simp
    qed
    then have room_left: "(shift + 7 \<ge> 32) = False" by simp
    have rest_bits: "drop_bit (32 - (shift + 7)) (drop_bit 7 v) = 0" using less.prems unfolding dropped_bits by (auto simp: bit_simps)
    have join: "push_bit shift (v AND 0x7F) OR push_bit (shift + 7) (drop_bit 7 v) = push_bit shift v"
    proof (rule bit_word_eqI)
      fix n
      have "7 + (n - (shift + 7)) = n - shift" if "\<not> n - shift < 7" using that by simp
      then show "bit (push_bit shift (v AND 0x7F) OR push_bit (shift + 7) (drop_bit 7 v)) n \<longleftrightarrow> bit (push_bit shift v) n"
        unfolding part_masks by (cases "n - shift < 7") (auto simp: bit_simps)
    qed
    have "read_part acc shift (appendVarint [] v @ rest) =
        read_part (acc OR push_bit shift (v AND 0x7F)) (shift + 7) (appendVarint [] (drop_bit 7 v) @ rest)"
      by (simp only: varint_more[OF False] append_Cons read_part.simps Let_def part_marks(1,3) room_left if_False)
    also have "\<dots> = Some ((acc OR push_bit shift (v AND 0x7F)) OR push_bit (shift + 7) (drop_bit 7 v), rest)"
      by (rule less.hyps[OF unat_drop7[OF False] room rest_bits])
    finally show ?thesis by (simp only: or.assoc join)
  qed
qed

lemma read_varint: "readVarint (appendVarint [] v @ rest) = Some (v, rest)"
proof -
  have "drop_bit 32 v = 0" by (rule bit_word_eqI) (simp add: bit_simps)
  then show ?thesis using read_varint_part[of 0 v 0 rest] by (simp add: readVarint_def)
qed

lemma host_port_ipv6: "SplitAddress ''[::1]:25570'' = (''::1'', 25570)"
proof -
  have plain: "trim_space ''[::1]:25570'' = ''[::1]:25570''" by (rule trim_space_id) (simp_all add: solid_def)
  show ?thesis
  by (simp add: SplitAddress_def SplitHostPort_def split_last_def ParseUint16_def has_prefix_def plain digits_val_def digit_val_def is_digit_def)
qed

text \<open>
  Any number is read back as it was written and what follows it is left; and whatever a server answers in the form of a status of
  at most 4 MiB is read to its end and no further, whatever it writes after it.
\<close>

theorem status_is_read_back:
  assumes "0 < length body" "length body \<le> 4 * 2 ^ 20"
    "dials c" "writes c = [True, True]" "answers c = frame (appendVarint [0] (of_nat (length body)) @ body) @ rest"
  shows "PingContext json c address =
    ([frame (handshake (fst (SplitAddress address)) (snd (SplitAddress address))), [0x01, 0x00]], slp_decode json body)"
proof -
  let ?n = "of_nat (length body) :: 32 word"
  have unat: "unat ?n = length body" using assms(2) by (simp add: unat_of_nat take_bit_nat_eq_self)
  then have "?n \<noteq> 0" using assms(1) by (metis less_irrefl unat_0)
  moreover have "\<not> ?n > maxStatusBytes" using assms(2) unat by (simp add: word_less_nat_alt maxStatusBytes_def)
  moreover have "appendVarint [0] ?n = appendVarint [] 0 @ appendVarint [] ?n"
    by (subst appendVarint_buf) (simp add: varint_last)
  ultimately have "read_status json (answers c) = slp_decode json body"
    using unat assms(5) by (simp add: read_status_def frame_def read_varint)
  then show ?thesis using assms(3,4) by (simp add: PingContext_def Let_def case_prod_unfold)
qed

end
