(* ===== verification/WebConsole.thy ===== *)
theory WebConsole
  imports Accounts Slp
begin

text \<open>
  The console in the browser (\<open>internal/webconsole\<close>): links that open once, sessions that survive a restart, the password, the
  budget of wrong attempts, the requests and the command that hands out links.

  The digest of a secret, the embedded files and argon2id are parameters; a secret that is drawn is an argument of the operation
  that draws it, and so is whether the file of the sessions could be written. A request reads the clock once. The terminal behind
  the socket is a program of the system; only how many are open is kept.

  The theorem: a session that is let in was opened by a link, made before and not used since, or with the password. The lemmas at
  the end show where the code falls short: the budget of attempts goes by an address the client names, a session that was
  forgotten comes back when the file could not be written, and a link opens the console also where only the password should.
\<close>

section \<open>Tickets and sessions\<close>

record console_record =
  RecHash :: string
  RecExpires :: "instant option"
  RecIssued :: instant
  RecAddress :: string

text \<open>\<open>saved_file\<close> is what the file of the sessions holds when it can be read as JSON.\<close>

record console_store =
  store_path :: string
  tickets :: "(string, console_record) amap"
  csessions :: "(string, console_record) amap"
  saved_file :: "console_record list option"

definition expired :: "instant \<Rightarrow> console_record \<Rightarrow> bool" where
  "expired now e \<longleftrightarrow> (case RecExpires e of None \<Rightarrow> False | Some t \<Rightarrow> now > t)"

definition saveLocked :: "bool \<Rightarrow> console_store \<Rightarrow> console_store" where
  "saveLocked ok s =
     (if store_path s = [] then s
      else if ok then s\<lparr>saved_file := Some (map snd (csessions s))\<rparr>
      else s)"

definition load_sessions :: "instant \<Rightarrow> console_store \<Rightarrow> console_store" where
  "load_sessions now s =
     (if store_path s = [] then s
      else (case saved_file s of
          None \<Rightarrow> s
        | Some saved \<Rightarrow> s\<lparr>csessions := fold (\<lambda>e m. if expired now e then m else store (RecHash e) e m) saved (csessions s)\<rparr>))"

definition newStore :: "instant \<Rightarrow> string \<Rightarrow> console_record list option \<Rightarrow> console_store" where
  "newStore now p saved = load_sessions now \<lparr>store_path = p, tickets = [], csessions = [], saved_file = saved\<rparr>"

definition ticket :: "(string \<Rightarrow> string) \<Rightarrow> instant \<Rightarrow> nanos \<Rightarrow> string \<Rightarrow> console_store \<Rightarrow> console_store" where
  "ticket dg now ttl secret s =
     s\<lparr>tickets := store (dg secret) \<lparr>RecHash = dg secret, RecExpires = Some (now + ttl), RecIssued = now, RecAddress = []\<rparr> (tickets s)\<rparr>"

definition created :: "(string \<Rightarrow> string) \<Rightarrow> instant \<Rightarrow> string \<Rightarrow> nanos \<Rightarrow> string \<Rightarrow> console_record" where
  "created dg now addr ttl session =
     \<lparr>RecHash = dg session, RecExpires = (if ttl > 0 then Some (now + ttl) else None), RecIssued = now, RecAddress = addr\<rparr>"

definition open_session ::
    "(string \<Rightarrow> string) \<Rightarrow> instant \<Rightarrow> bool \<Rightarrow> string \<Rightarrow> nanos \<Rightarrow> string \<Rightarrow> console_store \<Rightarrow> string \<times> console_store" where
  "open_session dg now ok addr ttl session s =
     (session, saveLocked ok (s\<lparr>csessions := store (dg session) (created dg now addr ttl session) (csessions s)\<rparr>))"

definition redeem ::
    "(string \<Rightarrow> string) \<Rightarrow> instant \<Rightarrow> bool \<Rightarrow> string \<Rightarrow> string \<Rightarrow> nanos \<Rightarrow> string \<Rightarrow> console_store \<Rightarrow> string option \<times> console_store" where
  "redeem dg now ok secret addr ttl session s =
     (let k = dg secret; s' = s\<lparr>tickets := remove k (tickets s)\<rparr> in
      case lookup (tickets s) k of
        None \<Rightarrow> (None, s')
      | Some entry \<Rightarrow>
          if expired now entry then (None, s')
          else (Some session, saveLocked ok (s'\<lparr>csessions := store (dg session) (created dg now addr ttl session) (csessions s')\<rparr>)))"

definition valid :: "(string \<Rightarrow> string) \<Rightarrow> instant \<Rightarrow> bool \<Rightarrow> string \<Rightarrow> console_store \<Rightarrow> bool \<times> console_store" where
  "valid dg now ok secret s =
     (if secret = [] then (False, s)
      else (let k = dg secret in
        case lookup (csessions s) k of
          None \<Rightarrow> (False, s)
        | Some entry \<Rightarrow>
            if expired now entry then (False, saveLocked ok (s\<lparr>csessions := remove k (csessions s)\<rparr>))
            else (RecHash entry = k, s)))"

definition close_session :: "(string \<Rightarrow> string) \<Rightarrow> bool \<Rightarrow> string \<Rightarrow> console_store \<Rightarrow> console_store" where
  "close_session dg ok secret s =
     (if secret = [] then s else saveLocked ok (s\<lparr>csessions := remove (dg secret) (csessions s)\<rparr>))"

definition forgetAll :: "bool \<Rightarrow> console_store \<Rightarrow> nat \<times> console_store" where
  "forgetAll ok s = (length (csessions s), saveLocked ok (s\<lparr>csessions := [], tickets := []\<rparr>))"

definition live :: "instant \<Rightarrow> console_store \<Rightarrow> nat \<times> console_store" where
  "live now s = (let kept = keep_if (\<lambda>_ e. \<not> expired now e) (csessions s) in (length kept, s\<lparr>csessions := kept\<rparr>))"

section \<open>The service\<close>

record console_config =
  EnabledFlag :: "bool option"
  AuthMode :: string
  ConsolePassword :: string
  SessionTTL :: "nanos option"
  LinkTTL :: nanos
  PublicURL :: string
  StatePath :: string

record web_env =
  console_digest :: "string \<Rightarrow> string"
  console_hashes :: hash_env
  console_lower :: "string \<Rightarrow> string"
  asset :: "string \<Rightarrow> string option"

record console_service =
  console_cfg :: console_config
  cstore :: console_store
  failures :: "(string, instant list) amap"
  terminals :: nat

definition basePath :: string where "basePath = ''/console''"
definition defaultSessionTTL :: nanos where "defaultSessionTTL = 7 * 24 * hour"
definition defaultLinkTTL :: nanos where "defaultLinkTTL = 10 * minute"
definition failureWindow :: nanos where "failureWindow = minute"
definition failureBudget :: nat where "failureBudget = 10"
definition maxTerminals :: nat where "maxTerminals = 8"

definition On :: "console_config option \<Rightarrow> bool" where
  "On c = (case c of None \<Rightarrow> True | Some c \<Rightarrow> EnabledFlag c = None \<or> EnabledFlag c = Some True)"

definition mode :: "web_env \<Rightarrow> console_config option \<Rightarrow> string" where
  "mode E c =
     (case c of
        None \<Rightarrow> ''link''
      | Some c \<Rightarrow>
          (let m = to_lower (console_lower E) (trim_space (AuthMode c)) in
           if m = ''password'' then ''password'' else if m = ''both'' then ''both'' else ''link''))"

definition no_console_config :: console_config where
  "no_console_config = \<lparr>EnabledFlag = None, AuthMode = [], ConsolePassword = [], SessionTTL = None, LinkTTL = 0, PublicURL = [], StatePath = []\<rparr>"

datatype console_start = ConsoleOff | PasswordMissing | NoExecutable | ConsoleReady console_service

definition New_console :: "web_env \<Rightarrow> instant \<Rightarrow> bool \<Rightarrow> console_record list option \<Rightarrow> console_config option \<Rightarrow> console_start" where
  "New_console E now executable saved c =
     (if \<not> On c then ConsoleOff
      else (let c = (case c of None \<Rightarrow> no_console_config | Some c \<Rightarrow> c) in
        if mode E (Some c) \<noteq> ''link'' \<and> ConsolePassword c = [] then PasswordMissing
        else if \<not> executable then NoExecutable
        else ConsoleReady \<lparr>console_cfg = c, cstore = newStore now (StatePath c) saved, failures = [], terminals = 0\<rparr>))"

definition sessionTTL :: "console_service \<Rightarrow> nanos" where
  "sessionTTL s = (case SessionTTL (console_cfg s) of None \<Rightarrow> defaultSessionTTL | Some ttl \<Rightarrow> ttl)"

definition linkTTL :: "console_service \<Rightarrow> nanos" where
  "linkTTL s = (if LinkTTL (console_cfg s) > 0 then LinkTTL (console_cfg s) else defaultLinkTTL)"

text \<open>The address that is shown, and whether it is whole.\<close>

definition trim_tail :: "string \<Rightarrow> string" where
  "trim_tail s = rev (dropWhile (\<lambda>c. c = CHR ''/'') (rev s))"

definition Link :: "web_env \<Rightarrow> instant \<Rightarrow> string \<Rightarrow> console_service \<Rightarrow> (string \<times> bool) \<times> console_service" where
  "Link E now secret s =
     (let base = trim_tail (trim_space (PublicURL (console_cfg s))) in
      ((base @ basePath @ ''/enter?t='' @ secret, base \<noteq> []),
       s\<lparr>cstore := ticket (console_digest E) now (linkTTL s) secret (cstore s)\<rparr>))"

definition allowAttempt :: "instant \<Rightarrow> string \<Rightarrow> console_service \<Rightarrow> bool \<times> console_service" where
  "allowAttempt now addr s =
     (let kept = filter (\<lambda>t. now - t < failureWindow) (case lookup (failures s) addr of None \<Rightarrow> [] | Some ts \<Rightarrow> ts) in
      (length kept < failureBudget, s\<lparr>failures := store addr kept (failures s)\<rparr>))"

definition noteFailure :: "instant \<Rightarrow> string \<Rightarrow> console_service \<Rightarrow> console_service" where
  "noteFailure now addr s =
     s\<lparr>failures := store addr ((case lookup (failures s) addr of None \<Rightarrow> [] | Some ts \<Rightarrow> ts) @ [now]) (failures s)\<rparr>"

definition passwordMatches :: "web_env \<Rightarrow> console_service \<Rightarrow> string \<Rightarrow> bool" where
  "passwordMatches E s candidate =
     (if ConsolePassword (console_cfg s) = [] \<or> candidate = [] then False
      else (case hash_verify (console_hashes E) ''argon2id'' of
          None \<Rightarrow> False
        | Some f \<Rightarrow> f candidate (ConsolePassword (console_cfg s)) = Inr True))"

section \<open>Requests\<close>

text \<open>\<open>FormPassword\<close> is \<open>None\<close> when the form cannot be read.\<close>

record web_request =
  Method :: string
  UrlPath :: string
  TicketParam :: string
  FormPassword :: "string option"
  CookieValue :: "string option"
  ForwardedFor :: string
  ForwardedProto :: string
  RemoteAddr :: string
  OverTLS :: bool

record cookie =
  CookieSecret :: string
  CookieSecure :: bool
  CookieExpires :: "instant option"

datatype web_answer =
    WebNotFound | WebTooMany | WebBadForm | WebRedirect string "cookie option" | WebContent string string | WebLost
  | TerminalBusy | TerminalFailed | TerminalOpen

text \<open>\<open>strings.EqualFold\<close> with \<open>https\<close>: the long s of Unicode is folded like the letter.\<close>

definition equal_https :: "string \<Rightarrow> bool" where
  "equal_https s \<longleftrightarrow> map ascii_lower (replace_all [CHR 0xC5, CHR 0xBF] ''s'' s) = ''https''"

definition secure :: "web_request \<Rightarrow> bool" where
  "secure r \<longleftrightarrow> OverTLS r \<or> equal_https (ForwardedProto r)"

definition address :: "web_request \<Rightarrow> string" where
  "address r =
     (if ForwardedFor r \<noteq> [] then trim_space (hd (split_on CHR '','' (ForwardedFor r)))
      else (case SplitHostPort (RemoteAddr r) of None \<Rightarrow> RemoteAddr r | Some (host, _) \<Rightarrow> host))"

definition grant :: "instant \<Rightarrow> web_request \<Rightarrow> string \<Rightarrow> console_service \<Rightarrow> cookie" where
  "grant now r secret s =
     \<lparr>CookieSecret = secret, CookieSecure = secure r, CookieExpires = (if sessionTTL s > 0 then Some (now + sessionTTL s) else None)\<rparr>"

definition authorized :: "web_env \<Rightarrow> instant \<Rightarrow> bool \<Rightarrow> web_request \<Rightarrow> console_service \<Rightarrow> bool \<times> console_service" where
  "authorized E now ok r s =
     (case CookieValue r of
        None \<Rightarrow> (False, s)
      | Some v \<Rightarrow> (case valid (console_digest E) now ok v (cstore s) of (b, st) \<Rightarrow> (b, s\<lparr>cstore := st\<rparr>)))"

definition enter :: "web_env \<Rightarrow> instant \<Rightarrow> bool \<Rightarrow> string \<Rightarrow> web_request \<Rightarrow> console_service \<Rightarrow> web_answer \<times> console_service" where
  "enter E now ok session r s =
     (case allowAttempt now (address r) s of
        (False, s) \<Rightarrow> (WebNotFound, s)
      | (True, s) \<Rightarrow>
          (case redeem (console_digest E) now ok (TicketParam r) (address r) (sessionTTL s) session (cstore s) of
             (None, st) \<Rightarrow> (WebNotFound, noteFailure now (address r) (s\<lparr>cstore := st\<rparr>))
           | (Some secret, st) \<Rightarrow> (WebRedirect (basePath @ ''/'') (Some (grant now r secret s)), s\<lparr>cstore := st\<rparr>)))"

definition login :: "web_env \<Rightarrow> instant \<Rightarrow> bool \<Rightarrow> string \<Rightarrow> web_request \<Rightarrow> console_service \<Rightarrow> web_answer \<times> console_service" where
  "login E now ok session r s =
     (if Method r \<noteq> ''POST'' \<or> mode E (Some (console_cfg s)) = ''link'' then (WebNotFound, s)
      else (case allowAttempt now (address r) s of
          (False, s) \<Rightarrow> (WebTooMany, s)
        | (True, s) \<Rightarrow>
            (case FormPassword r of
               None \<Rightarrow> (WebBadForm, s)
             | Some p \<Rightarrow>
                 if \<not> passwordMatches E s p then (WebRedirect (basePath @ ''/?wrong=1'') None, noteFailure now (address r) s)
                 else (case open_session (console_digest E) now ok (address r) (sessionTTL s) session (cstore s) of
                     (secret, st) \<Rightarrow> (WebRedirect (basePath @ ''/'') (Some (grant now r secret s)), s\<lparr>cstore := st\<rparr>)))))"

definition contentType :: "string \<Rightarrow> string" where
  "contentType name =
     (if has_suffix name ''.css'' then ''text/css; charset=utf-8''
      else if has_suffix name ''.js'' then ''text/javascript; charset=utf-8''
      else if has_suffix name ''.html'' then ''text/html; charset=utf-8''
      else ''application/octet-stream'')"

definition static :: "web_env \<Rightarrow> instant \<Rightarrow> bool \<Rightarrow> web_request \<Rightarrow> string \<Rightarrow> console_service \<Rightarrow> web_answer \<times> console_service" where
  "static E now ok r name s =
     (case authorized E now ok r s of
        (auth, s) \<Rightarrow>
          if \<not> auth \<and> mode E (Some (console_cfg s)) = ''link'' then (WebNotFound, s)
          else (case asset E (''assets/'' @ name) of
              None \<Rightarrow> (WebNotFound, s)
            | Some body \<Rightarrow> (WebContent body (contentType name), s)))"

definition serve :: "web_env \<Rightarrow> string \<Rightarrow> string \<Rightarrow> web_answer" where
  "serve E name k = (case asset E name of None \<Rightarrow> WebLost | Some body \<Rightarrow> WebContent body k)"

definition page :: "web_env \<Rightarrow> instant \<Rightarrow> bool \<Rightarrow> web_request \<Rightarrow> console_service \<Rightarrow> web_answer \<times> console_service" where
  "page E now ok r s =
     (let name = trim_prefix (UrlPath r) (basePath @ ''/'') in
      if name \<noteq> [] then static E now ok r name s
      else (case authorized E now ok r s of
          (False, s) \<Rightarrow>
            if mode E (Some (console_cfg s)) = ''link'' then (WebNotFound, s)
            else (serve E ''assets/login.html'' ''text/html; charset=utf-8'', s)
        | (True, s) \<Rightarrow> (serve E ''assets/console.html'' ''text/html; charset=utf-8'', s)))"

definition claimTerminal :: "console_service \<Rightarrow> bool \<times> console_service" where
  "claimTerminal s = (if terminals s \<ge> maxTerminals then (False, s) else (True, s\<lparr>terminals := terminals s + 1\<rparr>))"

definition releaseTerminal :: "console_service \<Rightarrow> console_service" where
  "releaseTerminal s = s\<lparr>terminals := terminals s - 1\<rparr>"

text \<open>\<open>starts\<close>: the socket was accepted and the program ran. A terminal that is open is released when it ends.\<close>

definition socket :: "web_env \<Rightarrow> instant \<Rightarrow> bool \<Rightarrow> bool \<Rightarrow> web_request \<Rightarrow> console_service \<Rightarrow> web_answer \<times> console_service" where
  "socket E now ok starts r s =
     (case authorized E now ok r s of
        (False, s) \<Rightarrow> (WebNotFound, s)
      | (True, s) \<Rightarrow>
          (case claimTerminal s of
             (False, s) \<Rightarrow> (TerminalBusy, s)
           | (True, s) \<Rightarrow> if starts then (TerminalOpen, s) else (TerminalFailed, releaseTerminal s)))"

definition resize :: "string \<Rightarrow> (int \<times> int) option" where
  "resize data =
     (case cut_at CHR ''x'' (trim_space data) of
        (width, height, ok) \<Rightarrow>
          if \<not> ok then None
          else (case (atoi width, atoi height) of
              (Some cols, Some rows) \<Rightarrow> if cols \<le> 0 \<or> rows \<le> 0 \<or> cols > 1000 \<or> rows > 1000 then None else Some (cols, rows)
            | _ \<Rightarrow> None))"

section \<open>The command\<close>

datatype web_action = GaveLink string bool bool | GaveStatus string nat nanos string | Forgot nat | UnknownAction string

definition secured :: "web_env \<Rightarrow> console_service \<Rightarrow> bool" where
  "secured E s \<longleftrightarrow> has_prefix (to_lower (console_lower E) (trim_space (PublicURL (console_cfg s)))) ''https://''"

definition run_web :: "web_env \<Rightarrow> instant \<Rightarrow> bool \<Rightarrow> string \<Rightarrow> string list \<Rightarrow> console_service \<Rightarrow> web_action \<times> console_service" where
  "run_web E now ok secret args s =
     (let action = (case args of [] \<Rightarrow> ''link'' | a # _ \<Rightarrow> to_lower (console_lower E) a) in
      if action = ''link'' then
        (case Link E now secret s of ((shown, whole), s) \<Rightarrow> (GaveLink shown whole (secured E s), s))
      else if action = ''status'' then
        (case live now (cstore s) of
           (n, st) \<Rightarrow> (GaveStatus (mode E (Some (console_cfg s))) n (sessionTTL s)
             (if PublicURL (console_cfg s) = [] then [] else trim_tail (PublicURL (console_cfg s)) @ basePath @ ''/''), s\<lparr>cstore := st\<rparr>))
      else if action = ''forget'' then
        (case forgetAll ok (cstore s) of (n, st) \<Rightarrow> (Forgot n, s\<lparr>cstore := st\<rparr>))
      else (UnknownAction action, s))"

section \<open>Runs\<close>

definition enterPath :: string where "enterPath = basePath @ ''/enter''"
definition loginPath :: string where "loginPath = basePath @ ''/login''"
definition socketPath :: string where "socketPath = basePath @ ''/socket''"

definition Mount ::
    "web_env \<Rightarrow> instant \<Rightarrow> bool \<Rightarrow> string \<Rightarrow> bool \<Rightarrow> web_request \<Rightarrow> console_service \<Rightarrow> web_answer \<times> console_service" where
  "Mount E now ok session starts r s =
     (if UrlPath r = enterPath then enter E now ok session r s
      else if UrlPath r = loginPath then login E now ok session r s
      else if UrlPath r = socketPath then socket E now ok starts r s
      else if has_prefix (UrlPath r) (basePath @ ''/'') then page E now ok r s
      else if UrlPath r = basePath then (WebRedirect (basePath @ ''/'') None, s)
      else (WebNotFound, s))"

text \<open>\<open>Ask now ok session starts r\<close>, \<open>Order now ok secret args\<close>.\<close>

datatype console_op = Ask instant bool string bool web_request | Order instant bool string "string list" | TerminalEnded

fun console_step :: "web_env \<Rightarrow> console_op \<Rightarrow> console_service \<Rightarrow> console_service" where
  "console_step E (Ask now ok session starts r) s = snd (Mount E now ok session starts r s)"
| "console_step E (Order now ok secret args) s = snd (run_web E now ok secret args s)"
| "console_step E TerminalEnded s = releaseTerminal s"

definition console_run :: "web_env \<Rightarrow> console_op list \<Rightarrow> console_service \<Rightarrow> console_service" where
  "console_run E ops s = fold (console_step E) ops s"

definition order_name :: "web_env \<Rightarrow> string list \<Rightarrow> string" where
  "order_name E args = (case args of [] \<Rightarrow> ''link'' | a # _ \<Rightarrow> to_lower (console_lower E) a)"

text \<open>The command made a link of this digest; the command closed all sessions.\<close>

fun makes_link :: "web_env \<Rightarrow> string \<Rightarrow> console_op \<Rightarrow> bool" where
  "makes_link E h (Order now ok secret args) \<longleftrightarrow> order_name E args = ''link'' \<and> console_digest E secret = h"
| "makes_link E h _ \<longleftrightarrow> False"

fun forgets :: "web_env \<Rightarrow> console_op \<Rightarrow> bool" where
  "forgets E (Order now ok secret args) \<longleftrightarrow> order_name E args = ''forget''"
| "forgets E _ \<longleftrightarrow> False"

text \<open>A request that came in through the link of this digest.\<close>

fun uses_link :: "web_env \<Rightarrow> console_service \<Rightarrow> string \<Rightarrow> console_op \<Rightarrow> bool" where
  "uses_link E s h (Ask now ok session starts r) \<longleftrightarrow>
     UrlPath r = enterPath \<and> console_digest E (TicketParam r) = h \<and> fst (enter E now ok session r s) \<noteq> WebNotFound"
| "uses_link E s h _ \<longleftrightarrow> False"

definition linked :: "web_env \<Rightarrow> console_service \<Rightarrow> console_op list \<Rightarrow> nat \<Rightarrow> string \<Rightarrow> bool" where
  "linked E s0 ops i h \<longleftrightarrow>
     (\<exists>j < i. makes_link E h (ops ! j) \<and>
       (\<forall>k. j < k \<and> k < i \<longrightarrow> \<not> forgets E (ops ! k) \<and> \<not> uses_link E (console_run E (take k ops) s0) h (ops ! k)))"

definition right_password :: "web_env \<Rightarrow> console_service \<Rightarrow> web_request \<Rightarrow> bool" where
  "right_password E s r \<longleftrightarrow> mode E (Some (console_cfg s)) \<noteq> ''link'' \<and> (\<exists>p. FormPassword r = Some p \<and> passwordMatches E s p)"

text \<open>The request at this place opened a session of this digest, and rightly, at this time.\<close>

definition opened :: "web_env \<Rightarrow> console_service \<Rightarrow> console_op list \<Rightarrow> nat \<Rightarrow> string \<Rightarrow> instant \<Rightarrow> bool" where
  "opened E s0 ops i h now \<longleftrightarrow>
     (\<exists>ok session starts r. ops ! i = Ask now ok session starts r \<and> console_digest E session = h \<and>
       (UrlPath r = enterPath \<and> linked E s0 ops i (console_digest E (TicketParam r)) \<or>
        UrlPath r = loginPath \<and> right_password E s0 r))"

section \<open>What one step changes\<close>

lemma saveLocked_maps [simp]: "tickets (saveLocked ok s) = tickets s" "csessions (saveLocked ok s) = csessions s"
  by (simp_all add: saveLocked_def)

lemma valid_maps: "valid dg now ok v s = (b, s') \<Longrightarrow> tickets s' = tickets s \<and>
    (\<forall>h e. lookup (csessions s') h = Some e \<longrightarrow> lookup (csessions s) h = Some e) \<and> (keys_ok (csessions s) \<longrightarrow> keys_ok (csessions s'))"
  by (auto simp: valid_def Let_def split: if_splits option.splits)

lemma authorized_maps:
  "authorized E now ok r s = (b, s') \<Longrightarrow> console_cfg s' = console_cfg s \<and> tickets (cstore s') = tickets (cstore s) \<and>
    (\<forall>h e. lookup (csessions (cstore s')) h = Some e \<longrightarrow> lookup (csessions (cstore s)) h = Some e) \<and>
    (keys_ok (csessions (cstore s)) \<longrightarrow> keys_ok (csessions (cstore s')))"
  by (auto simp: authorized_def split: option.splits prod.splits dest!: valid_maps)

text \<open>What a step leaves of a state: sessions can only go, and tickets stay.\<close>

definition only_closes :: "console_service \<Rightarrow> console_service \<Rightarrow> bool" where
  "only_closes s s' \<longleftrightarrow> console_cfg s' = console_cfg s \<and> tickets (cstore s') = tickets (cstore s) \<and>
     (\<forall>h e. lookup (csessions (cstore s')) h = Some e \<longrightarrow> lookup (csessions (cstore s)) h = Some e) \<and>
     (keys_ok (csessions (cstore s)) \<longrightarrow> keys_ok (csessions (cstore s')))"

lemma only_closes_refl [simp]: "only_closes s s"
  by (simp add: only_closes_def)

lemma authorized_closes: "authorized E now ok r s = (b, s') \<Longrightarrow> only_closes s s'"
  using authorized_maps by (fastforce simp: only_closes_def)

lemma page_closes: "only_closes s (snd (page E now ok r s))"
  by (auto simp: page_def static_def Let_def split: prod.splits bool.splits option.splits dest: authorized_closes)

lemma socket_closes: "only_closes s (snd (socket E now ok starts r s))"
proof -
  obtain b s' where a: "authorized E now ok r s = (b, s')" by fastforce
  show ?thesis using authorized_closes[OF a]
    by (cases b) (auto simp: socket_def a claimTerminal_def releaseTerminal_def only_closes_def)
qed

lemma allow_frame: "allowAttempt now a s = (b, s') \<Longrightarrow> console_cfg s' = console_cfg s \<and> cstore s' = cstore s"
  by (auto simp: allowAttempt_def Let_def)

lemma note_frame: "console_cfg (noteFailure now a s) = console_cfg s" "cstore (noteFailure now a s) = cstore s"
  by (simp_all add: noteFailure_def)

lemma password_frame: "console_cfg s' = console_cfg s \<Longrightarrow> passwordMatches E s' = passwordMatches E s"
  by (simp add: passwordMatches_def fun_eq_iff split: option.split)

lemma login_effect:
  assumes "login E now ok session r s = (a, s')"
  shows "only_closes s s' \<or>
    right_password E s r \<and> console_cfg s' = console_cfg s \<and> tickets (cstore s') = tickets (cstore s) \<and>
    csessions (cstore s') = store (console_digest E session) (created (console_digest E) now (address r) (sessionTTL s) session) (csessions (cstore s))"
proof -
  obtain b s1 where al: "allowAttempt now (address r) s = (b, s1)" by fastforce
  note fr = allow_frame[OF al]
  have ttl: "sessionTTL s1 = sessionTTL s" using fr by (simp add: sessionTTL_def)
  show ?thesis
  proof (cases "Method r \<noteq> ''POST'' \<or> mode E (Some (console_cfg s)) = ''link''")
    case True
    then show ?thesis using assms by (auto simp: login_def)
  next
    case mode: False
    have unfolded: "login E now ok session r s = (case (b, s1) of (False, s) \<Rightarrow> (WebTooMany, s)
        | (True, s) \<Rightarrow>
            (case FormPassword r of
               None \<Rightarrow> (WebBadForm, s)
             | Some p \<Rightarrow>
                 if \<not> passwordMatches E s p then (WebRedirect (basePath @ ''/?wrong=1'') None, noteFailure now (address r) s)
                 else (case open_session (console_digest E) now ok (address r) (sessionTTL s) session (cstore s) of
                     (secret, st) \<Rightarrow> (WebRedirect (basePath @ ''/'') (Some (grant now r secret s)), s\<lparr>cstore := st\<rparr>))))"
      unfolding login_def al using mode by (simp only: if_False)
    show ?thesis
    proof (cases "FormPassword r")
      case None
      then show ?thesis using assms fr unfolded by (cases b) (auto simp: only_closes_def)
    next
      case (Some p)
      show ?thesis
      proof (cases "passwordMatches E s1 p")
        case True
        then have "right_password E s r" using mode Some password_frame[of s1 s E] fr by (auto simp: right_password_def)
        then show ?thesis using assms fr unfolded Some True ttl by (cases b) (auto simp: open_session_def only_closes_def)
      next
        case wrong: False
        then show ?thesis using assms fr unfolded Some by (cases b) (auto simp: only_closes_def note_frame)
      qed
    qed
  qed
qed

lemma enter_effect:
  assumes "enter E now ok session r s = (a, s')"
  shows "only_closes s s' \<and> a = WebNotFound \<or>
    console_cfg s' = console_cfg s \<and> tickets (cstore s') = remove (console_digest E (TicketParam r)) (tickets (cstore s)) \<and>
    (csessions (cstore s') = csessions (cstore s) \<and> a = WebNotFound \<or>
     lookup (tickets (cstore s)) (console_digest E (TicketParam r)) \<noteq> None \<and>
     csessions (cstore s') = store (console_digest E session) (created (console_digest E) now (address r) (sessionTTL s) session) (csessions (cstore s)))"
proof -
  obtain b s1 where al: "allowAttempt now (address r) s = (b, s1)" by fastforce
  note fr = allow_frame[OF al]
  have ttl: "sessionTTL s1 = sessionTTL s" using fr by (simp add: sessionTTL_def)
  show ?thesis
  proof (cases b)
    case False
    then show ?thesis using assms al fr by (auto simp: enter_def only_closes_def)
  next
    case True
    obtain x st where rd: "redeem (console_digest E) now ok (TicketParam r) (address r) (sessionTTL s1) session (cstore s1) = (x, st)" by fastforce
    show ?thesis
    proof (cases x)
      case None
      then have "tickets st = remove (console_digest E (TicketParam r)) (tickets (cstore s1))" "csessions st = csessions (cstore s1)"
        using rd by (auto simp: redeem_def Let_def split: option.splits if_splits)
      then show ?thesis using assms al fr True rd None by (auto simp: enter_def note_frame)
    next
      case (Some secret)
      then have "tickets st = remove (console_digest E (TicketParam r)) (tickets (cstore s1))"
          "lookup (tickets (cstore s1)) (console_digest E (TicketParam r)) \<noteq> None"
          "csessions st = store (console_digest E session) (created (console_digest E) now (address r) (sessionTTL s1) session) (csessions (cstore s1))"
        using rd by (auto simp: redeem_def Let_def split: option.splits if_splits)
      then show ?thesis using assms al fr True rd Some ttl by (auto simp: enter_def)
    qed
  qed
qed

definition session_end :: "console_service \<Rightarrow> instant \<Rightarrow> instant option" where
  "session_end s now = (if sessionTTL s > 0 then Some (now + sessionTTL s) else None)"

definition opens :: "web_env \<Rightarrow> console_service \<Rightarrow> string \<Rightarrow> console_record \<Rightarrow> console_op \<Rightarrow> bool" where
  "opens E s h e opn \<longleftrightarrow>
     (\<exists>now ok session starts r. opn = Ask now ok session starts r \<and> console_digest E session = h \<and> RecExpires e = session_end s now \<and>
       (UrlPath r = enterPath \<and> lookup (tickets (cstore s)) (console_digest E (TicketParam r)) \<noteq> None \<or>
        UrlPath r = loginPath \<and> right_password E s r))"

lemma run_web_effect:
  assumes "run_web E now ok secret args s = (a, s')" and keys: "keys_ok (csessions (cstore s))"
  shows "console_cfg s' = console_cfg s \<and> keys_ok (csessions (cstore s')) \<and>
    (\<forall>h e. lookup (tickets (cstore s')) h = Some e \<longrightarrow>
      makes_link E h (Order now ok secret args) \<or> lookup (tickets (cstore s)) h = Some e \<and> order_name E args \<noteq> ''forget'') \<and>
    (\<forall>h e. lookup (csessions (cstore s')) h = Some e \<longrightarrow> lookup (csessions (cstore s)) h = Some e \<and> order_name E args \<noteq> ''forget'')"
proof -
  have name: "(case args of [] \<Rightarrow> ''link'' | a # _ \<Rightarrow> to_lower (console_lower E) a) = order_name E args" by (simp add: order_name_def)
  note run = assms(1)
  consider "order_name E args = ''link''" | "order_name E args = ''status''" | "order_name E args = ''forget''"
    | "order_name E args \<notin> {''link'', ''status'', ''forget''}" by blast
  then show ?thesis
  proof cases
    case 1
    then have "s' = s\<lparr>cstore := ticket (console_digest E) now (linkTTL s) secret (cstore s)\<rparr>"
      using run by (simp add: run_web_def name Link_def Let_def)
    then show ?thesis using 1 keys by (auto simp: ticket_def split: if_splits)
  next
    case 2
    then have "s' = s\<lparr>cstore := snd (live now (cstore s))\<rparr>" using run by (simp add: run_web_def name split: prod.splits)
    then show ?thesis using 2 keys by (auto simp: live_def Let_def lookup_keep_if split: option.splits if_splits)
  next
    case 3
    then have "s' = s\<lparr>cstore := snd (forgetAll ok (cstore s))\<rparr>" using run by (simp add: run_web_def name split: prod.splits)
    then show ?thesis using 3 by (simp add: forgetAll_def)
  next
    case 4
    then have "s' = s" using run by (simp add: run_web_def name)
    then show ?thesis using 4 keys by auto
  qed
qed

text \<open>One step, over all that can happen.\<close>

lemma console_step_effect:
  assumes keys: "keys_ok (csessions (cstore s))" and s': "s' = console_step E opn s"
  shows "console_cfg s' = console_cfg s \<and> keys_ok (csessions (cstore s')) \<and>
    (\<forall>h e. lookup (tickets (cstore s')) h = Some e \<longrightarrow>
      makes_link E h opn \<or> lookup (tickets (cstore s)) h = Some e \<and> \<not> forgets E opn \<and> \<not> uses_link E s h opn) \<and>
    (\<forall>h e. lookup (csessions (cstore s')) h = Some e \<longrightarrow>
      opens E s h e opn \<or> lookup (csessions (cstore s)) h = Some e \<and> \<not> forgets E opn)"
proof (cases opn)
  case (Order now ok secret args)
  obtain a where "run_web E now ok secret args s = (a, s')" using s' Order by (metis console_step.simps(2) prod.collapse)
  from run_web_effect[OF this keys] show ?thesis using Order by simp
next
  case TerminalEnded
  then show ?thesis using s' keys by (simp add: releaseTerminal_def)
next
  case (Ask now ok session starts r)
  have after: "s' = snd (Mount E now ok session starts r s)" using s' Ask by simp
  have quiet: ?thesis if "only_closes s s'" "\<And>h. \<not> uses_link E s h opn"
    using that keys Ask by (auto simp: only_closes_def)
  have new: "opens E s h e opn" if "h = console_digest E session" "e = created (console_digest E) now (address r) (sessionTTL s) session"
    "UrlPath r = enterPath \<and> lookup (tickets (cstore s)) (console_digest E (TicketParam r)) \<noteq> None \<or> UrlPath r = loginPath \<and> right_password E s r" for h e
    using that Ask by (auto simp: opens_def created_def session_end_def)
  show ?thesis
  proof (cases "UrlPath r = enterPath")
    case enters: True
    obtain a where a: "enter E now ok session r s = (a, s')" using after enters by (metis Mount_def prod.collapse)
    have uses: "uses_link E s h opn \<longleftrightarrow> console_digest E (TicketParam r) = h \<and> a \<noteq> WebNotFound" for h using Ask enters a by simp
    from enter_effect[OF a] show ?thesis
    proof
      assume "only_closes s s' \<and> a = WebNotFound"
      then show ?thesis using quiet uses by blast
    next
      assume eff: "console_cfg s' = console_cfg s \<and> tickets (cstore s') = remove (console_digest E (TicketParam r)) (tickets (cstore s)) \<and>
        (csessions (cstore s') = csessions (cstore s) \<and> a = WebNotFound \<or>
         lookup (tickets (cstore s)) (console_digest E (TicketParam r)) \<noteq> None \<and>
         csessions (cstore s') = store (console_digest E session) (created (console_digest E) now (address r) (sessionTTL s) session) (csessions (cstore s)))"
      then have tick: "\<forall>h e. lookup (tickets (cstore s')) h = Some e \<longrightarrow> lookup (tickets (cstore s)) h = Some e \<and> \<not> uses_link E s h opn"
        using uses by auto
      have sess: "\<forall>h e. lookup (csessions (cstore s')) h = Some e \<longrightarrow> opens E s h e opn \<or> lookup (csessions (cstore s)) h = Some e"
        using eff new enters by (auto split: if_splits)
      have "keys_ok (csessions (cstore s'))" using eff keys by auto
      then show ?thesis using eff tick sess Ask by simp
    qed
  next
    case other: False
    have unused: "\<not> uses_link E s h opn" for h using Ask other by simp
    show ?thesis
    proof (cases "UrlPath r = loginPath")
      case logs: True
      obtain a where a: "login E now ok session r s = (a, s')" using after other logs by (metis Mount_def prod.collapse)
      from login_effect[OF a] show ?thesis
      proof
        assume "only_closes s s'"
        then show ?thesis using quiet unused by blast
      next
        assume eff: "right_password E s r \<and> console_cfg s' = console_cfg s \<and> tickets (cstore s') = tickets (cstore s) \<and>
          csessions (cstore s') = store (console_digest E session) (created (console_digest E) now (address r) (sessionTTL s) session) (csessions (cstore s))"
        have sess: "\<forall>h e. lookup (csessions (cstore s')) h = Some e \<longrightarrow> opens E s h e opn \<or> lookup (csessions (cstore s)) h = Some e"
          using eff new logs by (auto split: if_splits)
        have "keys_ok (csessions (cstore s'))" using eff keys by auto
        then show ?thesis using eff sess unused Ask by simp
      qed
    next
      case False
      then have "only_closes s s'" using after other page_closes socket_closes by (auto simp: Mount_def)
      then show ?thesis using quiet unused by blast
    qed
  qed
qed

section \<open>The histories\<close>

lemma console_run_snoc [simp]: "console_run E (ops @ [opn]) s = console_step E opn (console_run E ops s)" "console_run E [] s = s"
  by (simp_all add: console_run_def)

lemma linked_more: "i \<le> length ops \<Longrightarrow> linked E s0 (ops @ rest) i h \<longleftrightarrow> linked E s0 ops i h"
  by (auto simp: linked_def nth_append)

lemma opened_more: "i < length ops \<Longrightarrow> opened E s0 (ops @ rest) i h now \<longleftrightarrow> opened E s0 ops i h now"
  by (simp add: opened_def nth_append linked_more)

lemma linked_snoc:
  "linked E s0 (ops @ [opn]) (Suc (length ops)) h \<longleftrightarrow>
    makes_link E h opn \<or> linked E s0 ops (length ops) h \<and> \<not> forgets E opn \<and> \<not> uses_link E (console_run E ops s0) h opn"
proof -
  define made where "made os j \<longleftrightarrow> makes_link E h (os ! j)" for os j
  define over where "over os k \<longleftrightarrow> forgets E (os ! k) \<or> uses_link E (console_run E (take k os) s0) h (os ! k)" for os k
  let ?n = "length ops" and ?ops = "ops @ [opn]"
  have linked: "linked E s0 os m h \<longleftrightarrow> (\<exists>j < m. made os j \<and> (\<forall>k. j < k \<and> k < m \<longrightarrow> \<not> over os k))" for os m
    by (simp add: linked_def made_def over_def)
  have old: "made ?ops j = made ops j" "over ?ops j = over ops j" if "j < ?n" for j
    using that by (simp_all add: made_def over_def nth_append)
  have last: "made ?ops ?n \<longleftrightarrow> makes_link E h opn" "over ?ops ?n \<longleftrightarrow> forgets E opn \<or> uses_link E (console_run E ops s0) h opn"
    by (simp_all add: made_def over_def)
  have "linked E s0 ?ops (Suc ?n) h \<longleftrightarrow> made ?ops ?n \<or> linked E s0 ?ops ?n h \<and> \<not> over ?ops ?n"
  proof
    assume "linked E s0 ?ops (Suc ?n) h"
    then obtain j where j: "j < Suc ?n" "made ?ops j" "\<forall>k. j < k \<and> k < Suc ?n \<longrightarrow> \<not> over ?ops k" unfolding linked by blast
    show "made ?ops ?n \<or> linked E s0 ?ops ?n h \<and> \<not> over ?ops ?n"
    proof (cases "j = ?n")
      case False
      then have "j < ?n" using j(1) by simp
      then show ?thesis using j(2,3) unfolding linked by auto
    qed (use j(2) in simp)
  next
    assume "made ?ops ?n \<or> linked E s0 ?ops ?n h \<and> \<not> over ?ops ?n"
    then show "linked E s0 ?ops (Suc ?n) h"
    proof
      assume "made ?ops ?n"
      moreover have "\<forall>k. ?n < k \<and> k < Suc ?n \<longrightarrow> \<not> over ?ops k" by auto
      ultimately show ?thesis unfolding linked by (intro exI[of _ ?n]) simp
    next
      assume l: "linked E s0 ?ops ?n h \<and> \<not> over ?ops ?n"
      then obtain j where j: "j < ?n" "made ?ops j" "\<forall>k. j < k \<and> k < ?n \<longrightarrow> \<not> over ?ops k" unfolding linked by blast
      then have "\<forall>k. j < k \<and> k < Suc ?n \<longrightarrow> \<not> over ?ops k" using l by (auto simp: less_Suc_eq)
      then show ?thesis using j(1,2) unfolding linked by (intro exI[of _ j]) simp
    qed
  qed
  moreover have "linked E s0 ?ops ?n h \<longleftrightarrow> linked E s0 ops ?n h" by (simp add: linked_more)
  ultimately show ?thesis using last by blast
qed

text \<open>A session of this digest was opened, not forgotten since, and ends then.\<close>

definition stays_open :: "web_env \<Rightarrow> console_service \<Rightarrow> console_op list \<Rightarrow> string \<Rightarrow> instant option \<Rightarrow> bool" where
  "stays_open E s0 ops h till \<longleftrightarrow>
     (\<exists>i < length ops. \<exists>now. opened E s0 ops i h now \<and> till = session_end s0 now \<and> (\<forall>k. i < k \<and> k < length ops \<longrightarrow> \<not> forgets E (ops ! k)))"

definition explained :: "web_env \<Rightarrow> console_service \<Rightarrow> console_op list \<Rightarrow> bool" where
  "explained E s0 ops \<longleftrightarrow>
     (let s = console_run E ops s0 in
      console_cfg s = console_cfg s0 \<and> keys_ok (csessions (cstore s)) \<and>
      (\<forall>h e. lookup (tickets (cstore s)) h = Some e \<longrightarrow> linked E s0 ops (length ops) h) \<and>
      (\<forall>h e. lookup (csessions (cstore s)) h = Some e \<longrightarrow> stays_open E s0 ops h (RecExpires e)))"

lemma same_config:
  assumes "console_cfg s = console_cfg s0"
  shows "right_password E s r = right_password E s0 r" "session_end s now = session_end s0 now"
  using assms password_frame[OF assms] by (simp_all add: right_password_def session_end_def sessionTTL_def)

lemma opens_explained:
  assumes ex: "explained E s0 ops" and op: "opens E (console_run E ops s0) h e opn"
  shows "stays_open E s0 (ops @ [opn]) h (RecExpires e)"
proof -
  let ?s = "console_run E ops s0"
  have cfg: "console_cfg ?s = console_cfg s0"
    and tick: "\<And>h e. lookup (tickets (cstore ?s)) h = Some e \<Longrightarrow> linked E s0 ops (length ops) h"
    using ex by (auto simp: explained_def Let_def)
  obtain now ok session starts r where o: "opn = Ask now ok session starts r" "console_digest E session = h" "RecExpires e = session_end ?s now"
    "UrlPath r = enterPath \<and> lookup (tickets (cstore ?s)) (console_digest E (TicketParam r)) \<noteq> None \<or> UrlPath r = loginPath \<and> right_password E ?s r"
    using op by (auto simp: opens_def)
  have "UrlPath r = enterPath \<and> linked E s0 (ops @ [opn]) (length ops) (console_digest E (TicketParam r)) \<or>
      UrlPath r = loginPath \<and> right_password E s0 r"
    using o(4) tick same_config(1)[OF cfg] by (auto simp: linked_more)
  then have "opened E s0 (ops @ [opn]) (length ops) h now" using o(1,2) by (auto simp: opened_def)
  moreover have "RecExpires e = session_end s0 now" using o(3) same_config(2)[OF cfg] by simp
  ultimately show ?thesis unfolding stays_open_def by (intro exI[of _ "length ops"]) auto
qed

lemma stays_open_snoc: "stays_open E s0 ops h till \<Longrightarrow> \<not> forgets E opn \<Longrightarrow> stays_open E s0 (ops @ [opn]) h till"
proof -
  assume "stays_open E s0 ops h till" and no: "\<not> forgets E opn"
  then obtain i now where i: "i < length ops" "opened E s0 ops i h now" "till = session_end s0 now"
    "\<forall>k. i < k \<and> k < length ops \<longrightarrow> \<not> forgets E (ops ! k)" unfolding stays_open_def by blast
  have "opened E s0 (ops @ [opn]) i h now" using i(1,2) by (simp add: opened_more)
  moreover have "\<forall>k. i < k \<and> k < length (ops @ [opn]) \<longrightarrow> \<not> forgets E ((ops @ [opn]) ! k)"
    using i(4) no by (auto simp: nth_append less_Suc_eq)
  ultimately show ?thesis unfolding stays_open_def using i(1,3) by (intro exI[of _ i] conjI exI[of _ now]) simp_all
qed

lemma all_explained:
  assumes "tickets (cstore s0) = []" "csessions (cstore s0) = []"
  shows "explained E s0 ops"
proof (induction ops rule: rev_induct)
  case Nil
  then show ?case using assms by (simp add: explained_def)
next
  case (snoc opn ops)
  let ?s = "console_run E ops s0" and ?s' = "console_run E (ops @ [opn]) s0"
  have old: "console_cfg ?s = console_cfg s0" "keys_ok (csessions (cstore ?s))"
    "\<And>h e. lookup (tickets (cstore ?s)) h = Some e \<Longrightarrow> linked E s0 ops (length ops) h"
    "\<And>h e. lookup (csessions (cstore ?s)) h = Some e \<Longrightarrow> stays_open E s0 ops h (RecExpires e)"
    using snoc by (auto simp: explained_def Let_def)
  have s': "?s' = console_step E opn ?s" by simp
  note eff = console_step_effect[OF old(2) s']
  have "linked E s0 (ops @ [opn]) (length (ops @ [opn])) h" if "lookup (tickets (cstore ?s')) h = Some e" for h e
    using eff that old(3) unfolding length_append_singleton linked_snoc by blast
  moreover have "stays_open E s0 (ops @ [opn]) h (RecExpires e)" if "lookup (csessions (cstore ?s')) h = Some e" for h e
    using eff that old(4) opens_explained[OF snoc] stays_open_snoc by blast
  moreover have "console_cfg ?s' = console_cfg s0" "keys_ok (csessions (cstore ?s'))" using eff old(1) by simp_all
  ultimately show ?case unfolding explained_def Let_def by blast
qed

text \<open>
  C21: Over every run of requests, links and orders to forget, a cookie that lets a request into the console belongs to a session
  that a request of this run opened: with the password, where the settings allow one, or through a link that the command had made
  before and that no request had come in through before. No order to forget came after it, and its time is not over.
\<close>

theorem console_lets_in_only_whom_it_granted:
  assumes "tickets (cstore s0) = []" "csessions (cstore s0) = []"
    and "authorized E now ok r (console_run E ops s0) = (True, s')"
  shows "\<exists>v i t. CookieValue r = Some v \<and> i < length ops \<and> opened E s0 ops i (console_digest E v) t \<and>
    (\<forall>k. i < k \<and> k < length ops \<longrightarrow> \<not> forgets E (ops ! k)) \<and> (sessionTTL s0 > 0 \<longrightarrow> now \<le> t + sessionTTL s0)"
proof -
  let ?s = "console_run E ops s0"
  obtain v where v: "CookieValue r = Some v" "fst (valid (console_digest E) now ok v (cstore ?s))"
    using assms(3) by (auto simp: authorized_def split: option.splits prod.splits)
  then obtain e where e: "lookup (csessions (cstore ?s)) (console_digest E v) = Some e" "\<not> expired now e"
    by (auto simp: valid_def Let_def split: if_splits option.splits)
  have "stays_open E s0 ops (console_digest E v) (RecExpires e)"
    using all_explained[OF assms(1,2), of E ops] e(1) by (auto simp: explained_def Let_def)
  then obtain i t where i: "i < length ops" "opened E s0 ops i (console_digest E v) t" "RecExpires e = session_end s0 t"
    "\<forall>k. i < k \<and> k < length ops \<longrightarrow> \<not> forgets E (ops ! k)" unfolding stays_open_def by blast
  have "sessionTTL s0 > 0 \<longrightarrow> now \<le> t + sessionTTL s0" using e(2) i(3) by (auto simp: expired_def session_end_def)
  then show ?thesis using v(1) i(1,2,4) by blast
qed

definition sample_console_env :: web_env where
  "sample_console_env = \<lparr>console_digest = (\<lambda>s. CHR ''h'' # s),
     console_hashes = \<lparr>argon_compare = (\<lambda>p q. Inr (p = q)), argon_create = (\<lambda>_ p. Inr p), bcrypt_compare = (\<lambda>p q. Inr (p = q)),
       bcrypt_generate = (\<lambda>p _ _. Inr p), md5_hex = (\<lambda>s. s), sha256_hex = (\<lambda>s. s), sha512_hex = (\<lambda>s. s), lower_rest = (\<lambda>s. s)\<rparr>,
     console_lower = (\<lambda>s. s), asset = (\<lambda>_. None)\<rparr>"

definition sample_console :: console_service where
  "sample_console = \<lparr>console_cfg = no_console_config\<lparr>AuthMode := ''password'', ConsolePassword := ''x''\<rparr>, cstore = newStore 0 [] None,
     failures = [], terminals = 0\<rparr>"

definition sample_request :: web_request where
  "sample_request = \<lparr>Method = ''GET'', UrlPath = ''/console/enter'', TicketParam = ''T'', FormPassword = None, CookieValue = Some ''S'',
     ForwardedFor = [], ForwardedProto = [], RemoteAddr = ''a'', OverTLS = True\<rparr>"

definition sample_console_ops :: "console_op list" where
  "sample_console_ops = [Order 0 True ''T'' [], Ask 1 True ''S'' True sample_request]"

lemma sample_console_end:
  "csessions (cstore (console_run sample_console_env sample_console_ops sample_console)) =
    [(''hS'', \<lparr>RecHash = ''hS'', RecExpires = Some (1 + defaultSessionTTL), RecIssued = 1, RecAddress = ''a''\<rparr>)]"
  by code_simp

theorem console_lets_in_only_whom_it_granted_witness:
  "\<exists>s'. authorized sample_console_env 2 True sample_request (console_run sample_console_env sample_console_ops sample_console) = (True, s') \<and>
    (\<exists>i t. i < 2 \<and> opened sample_console_env sample_console sample_console_ops i ''hS'' t \<and> 2 \<le> t + defaultSessionTTL)"
proof -
  have empty: "tickets (cstore sample_console) = []" "csessions (cstore sample_console) = []"
    by (simp_all add: sample_console_def newStore_def load_sessions_def)
  have ttl: "sessionTTL sample_console = defaultSessionTTL" "0 < defaultSessionTTL"
    by (simp_all add: sessionTTL_def sample_console_def no_console_config_def defaultSessionTTL_def hour_def minute_def second_def)
  have "\<exists>s'. authorized sample_console_env 2 True sample_request (console_run sample_console_env sample_console_ops sample_console) = (True, s')"
    using sample_console_end
    by (simp add: authorized_def sample_request_def valid_def sample_console_env_def expired_def defaultSessionTTL_def hour_def minute_def second_def)
  then obtain s' where s': "authorized sample_console_env 2 True sample_request (console_run sample_console_env sample_console_ops sample_console) = (True, s')" by blast
  from console_lets_in_only_whom_it_granted[OF empty s'] obtain v i t where
    "CookieValue sample_request = Some v" "i < length sample_console_ops"
    "opened sample_console_env sample_console sample_console_ops i (console_digest sample_console_env v) t" "2 \<le> t + sessionTTL sample_console"
    using ttl by auto
  moreover from this have "v = ''S''" by (simp add: sample_request_def)
  moreover have "console_digest sample_console_env ''S'' = ''hS''" by (simp add: sample_console_env_def)
  moreover have "length sample_console_ops = 2" by (simp add: sample_console_ops_def)
  ultimately have "i < 2 \<and> opened sample_console_env sample_console sample_console_ops i ''hS'' t \<and> 2 \<le> t + defaultSessionTTL"
    using ttl(1) by metis
  then show ?thesis using s' by blast
qed

section \<open>Where it falls short\<close>

text \<open>A link opens the console also where the settings name the password as the only way in.\<close>

lemma link_opens_in_password_mode:
  "mode sample_console_env (Some (console_cfg sample_console)) = ''password''"
  "\<exists>c. fst (enter sample_console_env 1 True ''S'' sample_request (console_run sample_console_env [Order 0 True ''T'' []] sample_console)) =
    WebRedirect ''/console/'' (Some c)"
proof -
  show "mode sample_console_env (Some (console_cfg sample_console)) = ''password''" by code_simp
  have "(case fst (enter sample_console_env 1 True ''S'' sample_request (console_run sample_console_env [Order 0 True ''T'' []] sample_console)) of
      WebRedirect p (Some c) \<Rightarrow> p = ''/console/'' | _ \<Rightarrow> False)" by code_simp
  then show "\<exists>c. fst (enter sample_console_env 1 True ''S'' sample_request (console_run sample_console_env [Order 0 True ''T'' []] sample_console)) =
    WebRedirect ''/console/'' (Some c)" by (auto split: web_answer.splits option.splits)
qed

text \<open>The budget of wrong passwords goes by the address that the client writes into a header, so that it never ends.\<close>

definition guess :: "web_request \<Rightarrow> string \<Rightarrow> web_request" where
  "guess r h = r\<lparr>ForwardedFor := h\<rparr>"

fun guesses :: "web_env \<Rightarrow> instant \<Rightarrow> string \<Rightarrow> web_request \<Rightarrow> string list \<Rightarrow> console_service \<Rightarrow> web_answer list" where
  "guesses E now session r [] s = []"
| "guesses E now session r (h # hs) s = (case login E now True session (guess r h) s of (a, s) \<Rightarrow> a # guesses E now session r hs s)"

lemma login_failures:
  assumes "lookup (failures s) (address r) = None" "login E now ok session r s = (a, s')"
  shows "a \<noteq> WebTooMany \<and> (\<forall>x. x \<noteq> address r \<longrightarrow> lookup (failures s') x = lookup (failures s) x)"
proof -
  have al: "allowAttempt now (address r) s = (True, s\<lparr>failures := store (address r) [] (failures s)\<rparr>)"
    using assms(1) by (simp add: allowAttempt_def failureBudget_def)
  show ?thesis using assms(2)
    by (auto simp: login_def al noteFailure_def open_session_def split: if_splits option.splits)
qed

lemma forged_addresses_are_never_stopped:
  "distinct (map (\<lambda>h. address (guess r h)) hs) \<Longrightarrow> \<forall>h \<in> set hs. lookup (failures s) (address (guess r h)) = None \<Longrightarrow>
    WebTooMany \<notin> set (guesses E now session r hs s)"
proof (induction hs arbitrary: s)
  case (Cons h hs)
  obtain a s' where run: "login E now True session (guess r h) s = (a, s')" by fastforce
  have here: "lookup (failures s) (address (guess r h)) = None" using Cons.prems by simp
  note f = login_failures[OF here run]
  have "lookup (failures s') (address (guess r h')) = None" if "h' \<in> set hs" for h'
  proof -
    have "address (guess r h') \<noteq> address (guess r h)" using Cons.prems(1) that by (auto simp: image_iff)
    then show ?thesis using f Cons.prems(2) that by simp
  qed
  then have "WebTooMany \<notin> set (guesses E now session r hs s')" using Cons by simp
  then show ?case using f run by auto
qed simp

lemma address_forged: "h \<noteq> [] \<Longrightarrow> CHR '','' \<notin> set h \<Longrightarrow> trim_space h = h \<Longrightarrow> address (guess r h) = h"
  by (simp add: address_def guess_def split_on_id)

text \<open>When the file could not be written, what was forgotten is open again after a restart.\<close>

lemma forgotten_session_returns:
  assumes "store_path s \<noteq> []" "saved_file s = Some [e]" "\<not> expired now e"
  shows "lookup (csessions (newStore now (store_path s) (saved_file (snd (forgetAll False s))))) (RecHash e) = Some e"
  using assms by (simp add: newStore_def load_sessions_def forgetAll_def saveLocked_def)

end
