(* ===== verification/SettingsTree.thy ===== *)
theory SettingsTree
  imports Skin
begin

text \<open>
  The editor of the configuration file (\<open>internal/settings\<close>): the tree of a document and its paths (\<open>doc.go\<close>, \<open>path.go\<close>), what
  of a field is secret, how it is hidden and how an edit gets it back (\<open>secrets.go\<close>), and how a value is shown (\<open>view.go\<close>).

  The encoder of JSON, the digest of a file and the check of a whole configuration are parameters. A number is the text it is shown
  as, and \<open>nil\<close> is the value \<open>JNull\<close>. Of a collection the titles of entries and the functions that find entries are left out,
  the options of a field are a list, and variants stand in a fixed order.

  The theorems: what is shown of a setting does not depend on the secrets in it, and an edit that leaves the masks in place gets the
  secrets back; a value that was put is found under its path, and any key can be a step of a path.
\<close>

section \<open>Fields\<close>

datatype setting_kind = KindText | KindSecret | KindBool | KindInt | KindDuration | KindChoice | KindList | KindPairs | KindMap
  | KindJSON | KindSecretJSON

datatype setting_field = SettingField
    (FieldGroup: string) (FieldMin: "int option") (FieldMax: "int option") (FieldRequired: bool) (Extension: bool)
    (FieldKey: string) (FieldLabel: string) (FieldHint: string) (FieldKind: setting_kind) (FieldDefault: string) (Initial: string)
    (FieldOptions: "string list option") (Variants: "(string \<times> setting_field list) list option") (VariantOf: string) (AllowZero: bool)

text \<open>The collections below an entry may go on for ever: a group of options has options with groups.\<close>

codatatype collection = Collection
    (CollectionKey: string) (CollectionTitle: string) (CollectionHint: string) (Keyed: bool)
    (CollectionFields: "setting_field list") (children: "collection list")

record setting_section =
  SectionKey :: string
  SectionTitle :: string
  SectionHint :: string
  SectionFields :: "setting_field list"
  SectionCollections :: "collection list"

section \<open>The tree\<close>

datatype json = JNull | JBool bool | JNum string | JStr string | JArr "json list" | JObj "(string \<times> json) list"

definition hex_val :: "char \<Rightarrow> nat option" where
  "hex_val c =
     (let n = of_char c :: nat in
      if 48 \<le> n \<and> n \<le> 57 then Some (n - 48)
      else if 65 \<le> n \<and> n \<le> 70 then Some (n - 55)
      else if 97 \<le> n \<and> n \<le> 102 then Some (n - 87)
      else None)"

text \<open>\<open>url.PathUnescape\<close>; \<open>None\<close> is its error.\<close>

fun PathUnescape :: "string \<Rightarrow> string option" where
  "PathUnescape [] = Some []"
| "PathUnescape (c # s) =
     (if c \<noteq> CHR ''%'' then map_option (\<lambda>r. c # r) (PathUnescape s)
      else (case s of
          a # b # s' \<Rightarrow>
            (case (hex_val a, hex_val b) of
               (Some x, Some y) \<Rightarrow> map_option (\<lambda>r. char_of (16 * x + y) # r) (PathUnescape s')
             | _ \<Rightarrow> None)
        | _ \<Rightarrow> None))"

definition pathKey :: "string \<Rightarrow> string" where
  "pathKey k = concat (map (\<lambda>c. if c = CHR ''.'' then ''%2E'' else [c]) (PathEscape k))"

definition unescapeKey :: "string \<Rightarrow> string" where
  "unescapeKey k = (case PathUnescape k of None \<Rightarrow> k | Some d \<Rightarrow> d)"

text \<open>The index a step names, when it is one of the list.\<close>

definition step_index :: "string \<Rightarrow> 'a list \<Rightarrow> nat option" where
  "step_index step xs = (case atoi step of None \<Rightarrow> None | Some i \<Rightarrow> if i < 0 \<or> i \<ge> int (length xs) then None else Some (nat i))"

fun raw_at :: "string list \<Rightarrow> json \<Rightarrow> json option" where
  "raw_at [] v = Some v"
| "raw_at (step # steps) (JObj m) = (case lookup m (unescapeKey step) of None \<Rightarrow> None | Some v \<Rightarrow> raw_at steps v)"
| "raw_at (step # steps) (JArr xs) = (case step_index (unescapeKey step) xs of None \<Rightarrow> None | Some i \<Rightarrow> raw_at steps (xs ! i))"
| "raw_at (step # steps) v = None"

section \<open>Collections\<close>

lemma cut_shorter: "cut_at c s = (a, b, True) \<Longrightarrow> length b < length s"
  using cut_True[of c s a b] by auto

lemma cut_dropped: "(ident, nested, ok) = cut_at c (drop n rest) \<Longrightarrow> ok \<Longrightarrow> length nested < length rest"
  using cut_shorter[of c "drop n rest" ident nested] by (metis (full_types) diff_le_self length_drop order_less_le_trans)

text \<open>The collection at what is left of a path; below an entry the search does not come back.\<close>

function find_collection :: "string \<Rightarrow> collection list \<Rightarrow> collection option" where
  "find_collection rest [] = None"
| "find_collection rest (c # cs) =
     (if rest = CollectionKey c then Some c
      else if has_prefix rest (CollectionKey c @ ''.'') then
        (case cut_at CHR ''.'' (drop (length (CollectionKey c) + 1) rest) of
           (ident, nested, ok) \<Rightarrow> if ok then find_collection nested (children c) else find_collection rest cs)
      else find_collection rest cs)"
  by pat_completeness auto

termination
  by (relation "measure length <*lex*> measure length" ) (auto dest: cut_dropped)

record doc =
  doc_path :: string
  tree :: json
  doc_revision :: string
  namespace :: string
  doc_sections :: "setting_section list"

definition findCollection :: "doc \<Rightarrow> string \<Rightarrow> collection option" where
  "findCollection d p =
     (case cut_at CHR ''.'' p of
        (k, rest, ok) \<Rightarrow>
          (case List.find (\<lambda>s. SectionKey s = k) (doc_sections d) of
             None \<Rightarrow> None
           | Some s \<Rightarrow> if ok then find_collection rest (SectionCollections s) else None))"

definition raw_value :: "doc \<Rightarrow> string \<Rightarrow> json option" where
  "raw_value d p = raw_at (split_on CHR ''.'' p) (tree d)"

section \<open>Changes\<close>

text \<open>
  What is put in place, and the tree after it; a node on the way that is missing is made, a list when the next step is a number and
  the place is no collection with names. \<open>keyed\<close> tells of the steps before whether they are such a collection.
\<close>

fun put_at :: "(string list \<Rightarrow> bool) \<Rightarrow> string list \<Rightarrow> string list \<Rightarrow> json \<Rightarrow> json \<Rightarrow> bool \<times> json" where
  "put_at keyed before [] v node = (False, node)"
| "put_at keyed before [final] v node =
     (case node of
        JObj m \<Rightarrow> (True, JObj (if v = JNull then remove (unescapeKey final) m else store (unescapeKey final) v m))
      | JArr xs \<Rightarrow> (case step_index (unescapeKey final) xs of None \<Rightarrow> (False, node) | Some i \<Rightarrow> (True, JArr (xs[i := v])))
      | _ \<Rightarrow> (False, node))"
| "put_at keyed before (step # next # rest) v node =
     (case node of
        JObj m \<Rightarrow>
          (let child = (case lookup m (unescapeKey step) of
                 None \<Rightarrow> JNull | Some c \<Rightarrow> c);
               child = (if child \<noteq> JNull then child
                 else if atoi next \<noteq> None \<and> \<not> keyed (before @ [step]) then JArr [] else JObj []) in
           case put_at keyed (before @ [step]) (next # rest) v child of
             (ok, child) \<Rightarrow> (ok, JObj (store (unescapeKey step) child m)))
      | JArr xs \<Rightarrow>
          (case step_index (unescapeKey step) xs of
             None \<Rightarrow> (False, node)
           | Some i \<Rightarrow> (case put_at keyed (before @ [step]) (next # rest) v (xs ! i) of (ok, child) \<Rightarrow> (ok, JArr (xs[i := child]))))
      | _ \<Rightarrow> (False, node))"

definition is_keyed :: "doc \<Rightarrow> string list \<Rightarrow> bool" where
  "is_keyed d before = (case findCollection d (join_with CHR ''.'' before) of None \<Rightarrow> False | Some c \<Rightarrow> Keyed c)"

definition put :: "string \<Rightarrow> json \<Rightarrow> doc \<Rightarrow> bool \<times> doc" where
  "put p v d = (case put_at (is_keyed d) [] (split_on CHR ''.'' p) v (tree d) of (ok, t) \<Rightarrow> (ok, d\<lparr>tree := t\<rparr>))"

text \<open>The path of the node above, as its steps.\<close>

definition drop_entry :: "string \<Rightarrow> doc \<Rightarrow> bool \<times> doc" where
  "drop_entry p d =
     (let steps = split_on CHR ''.'' p; parent = join_with CHR ''.'' (butlast steps); final = unescapeKey (last steps) in
      if parent = [] then (case tree d of JObj m \<Rightarrow> (True, d\<lparr>tree := JObj (remove final m)\<rparr>) | _ \<Rightarrow> (True, d))
      else (case raw_value d parent of
          None \<Rightarrow> (True, d)
        | Some (JObj m) \<Rightarrow> (True, snd (put parent (JObj (remove final m)) d))
        | Some (JArr xs) \<Rightarrow>
            (case step_index final xs of
               None \<Rightarrow> (False, d)
             | Some i \<Rightarrow> put parent (JArr (take i xs @ drop (Suc i) xs)) d)
        | Some _ \<Rightarrow> (False, d)))"

definition Keys :: "doc \<Rightarrow> string \<Rightarrow> string list" where
  "Keys d p =
     (case raw_value d p of
        Some (JObj m) \<Rightarrow> sort (map fst m)
      | Some (JArr xs) \<Rightarrow> map (itoa \<circ> int) [0 ..< length xs]
      | _ \<Rightarrow> [])"

section \<open>Opening and saving\<close>

record doc_env =
  parse_json :: "string \<Rightarrow> (string \<times> json) list option"
  print_json :: "json \<Rightarrow> string option"
  file_revision :: "string \<Rightarrow> string"
  doc_valid :: "string \<Rightarrow> bool"
  low_rest :: "string \<Rightarrow> string"
  marshal :: "json \<Rightarrow> string"

datatype doc_error = NoPath | NoFile | NotReadable | NotValid | NotWritten | ErrChanged

definition Open :: "doc_env \<Rightarrow> setting_section list \<Rightarrow> string \<Rightarrow> string option \<Rightarrow> (doc_error, doc) result" where
  "Open E sections p content =
     (if p = [] then Inl NoPath
      else (case content of
          None \<Rightarrow> Inl NoFile
        | Some data \<Rightarrow>
            (case parse_json E data of
               None \<Rightarrow> Inl NotReadable
             | Some m \<Rightarrow> Inr \<lparr>doc_path = p, tree = JObj m, doc_revision = file_revision E data, namespace = [], doc_sections = sections\<rparr>)))"

definition OpenSchema :: "doc_env \<Rightarrow> setting_section list \<Rightarrow> string \<Rightarrow> string \<Rightarrow> string option \<Rightarrow> (doc_error, doc) result" where
  "OpenSchema E sections p ns content =
     (case Open E sections p content of
        Inr d \<Rightarrow> Inr (d\<lparr>tree := JObj [(ns, tree d)], namespace := ns\<rparr>)
      | Inl NoFile \<Rightarrow> Inr \<lparr>doc_path = p, tree = JObj [(ns, JObj [])], doc_revision = file_revision E [], namespace = ns, doc_sections = sections\<rparr>
      | Inl e \<Rightarrow> Inl e)"

definition Bytes :: "doc_env \<Rightarrow> doc \<Rightarrow> string option" where
  "Bytes E d =
     (let t = (if namespace d \<noteq> [] then (case tree d of JObj m \<Rightarrow> (case lookup m (namespace d) of None \<Rightarrow> JNull | Some v \<Rightarrow> v) | _ \<Rightarrow> JNull)
               else tree d) in
      map_option (\<lambda>s. s @ [CHR 0x0A]) (print_json E t))"

text \<open>\<open>writes\<close>: the temporary file could be made, written and closed; \<open>renames\<close>: it could take the place of the old one.\<close>

definition Save :: "doc_env \<Rightarrow> bool \<Rightarrow> bool \<Rightarrow> string option \<Rightarrow> doc \<Rightarrow> doc_error option \<times> string option \<times> doc" where
  "Save E writes renames content d =
     (case Bytes E d of
        None \<Rightarrow> (Some NotValid, content, d)
      | Some data \<Rightarrow>
          if \<not> doc_valid E data then (Some NotValid, content, d)
          else if \<not> writes then (Some NotWritten, content, d)
          else if content = None \<and> doc_revision d \<noteq> file_revision E [] then (Some NoFile, content, d)
          else if file_revision E (case content of None \<Rightarrow> [] | Some c \<Rightarrow> c) \<noteq> doc_revision d then (Some ErrChanged, content, d)
          else if \<not> renames then (Some NotWritten, content, d)
          else (None, Some data, d\<lparr>doc_revision := file_revision E data\<rparr>))"

section \<open>Secrets\<close>

definition SecretMask :: string where "SecretMask = ''***''"

definition HeaderSecret :: "(string \<Rightarrow> string) \<Rightarrow> string \<Rightarrow> bool" where
  "HeaderSecret low name \<longleftrightarrow>
     to_lower low name \<notin> {''accept'', ''accept-encoding'', ''accept-language'', ''content-type'', ''user-agent'', ''cache-control''}"

fun collect_sensitive :: "string \<Rightarrow> setting_field \<Rightarrow> (string \<times> setting_kind) list" where
  "collect_sensitive p (SettingField g mi ma rq ext k l h kind d i opts vs vo az) =
     (if kind \<in> {KindSecret, KindSecretJSON, KindPairs} then [(p, kind)] else []) @
     (case vs of
        None \<Rightarrow> []
      | Some vs \<Rightarrow> concat (map (\<lambda>(_, fields). concat (map (\<lambda>nested. collect_sensitive (p @ ''.'' @ FieldKey nested) nested) fields)) vs))"

definition sensitivePaths :: "string \<Rightarrow> setting_field \<Rightarrow> (string, setting_kind) amap" where
  "sensitivePaths p f = fold (\<lambda>(q, k) m. store q k m) (collect_sensitive p f) []"

definition secretAt :: "(string \<Rightarrow> string) \<Rightarrow> (string, setting_kind) amap \<Rightarrow> string \<Rightarrow> bool" where
  "secretAt low P p \<longleftrightarrow>
     lookup P p \<in> {Some KindSecret, Some KindSecretJSON} \<or>
     list_ex (\<lambda>(parent, k). k = KindPairs \<and> has_prefix p (parent @ ''.'') \<and> HeaderSecret low (drop (length parent + 1) p)) P"

fun redactTree :: "(string \<Rightarrow> string) \<Rightarrow> (string, setting_kind) amap \<Rightarrow> string \<Rightarrow> json \<Rightarrow> json"
  and redact_object :: "(string \<Rightarrow> string) \<Rightarrow> (string, setting_kind) amap \<Rightarrow> string \<Rightarrow> (string \<times> json) list \<Rightarrow> (string \<times> json) list"
  and redact_list :: "(string \<Rightarrow> string) \<Rightarrow> (string, setting_kind) amap \<Rightarrow> string \<Rightarrow> nat \<Rightarrow> json list \<Rightarrow> json list" where
  "redactTree low P p v =
     (if secretAt low P p \<and> v \<noteq> JNull \<and> v \<noteq> JStr [] then JStr SecretMask
      else (case v of JObj m \<Rightarrow> JObj (redact_object low P p m) | JArr xs \<Rightarrow> JArr (redact_list low P p 0 xs) | _ \<Rightarrow> v))"
| "redact_object low P p [] = []"
| "redact_object low P p ((k, v) # m) = (k, redactTree low P (p @ ''.'' @ k) v) # redact_object low P p m"
| "redact_list low P p i [] = []"
| "redact_list low P p i (v # xs) = redactTree low P (p @ ''.'' @ itoa (int i)) v # redact_list low P p (Suc i) xs"

text \<open>A list is not looked into. The error is the path with no secret to put back.\<close>

fun restoreSecrets :: "(string \<Rightarrow> string) \<Rightarrow> (string, setting_kind) amap \<Rightarrow> string \<Rightarrow> json \<Rightarrow> json \<Rightarrow> (string, json) result"
  and restore_object :: "(string \<Rightarrow> string) \<Rightarrow> (string, setting_kind) amap \<Rightarrow> string \<Rightarrow> (string \<times> json) list \<Rightarrow> (string \<times> json) list \<Rightarrow>
    (string, (string \<times> json) list) result" where
  "restoreSecrets low P p v previous =
     (if v = JStr SecretMask \<and> secretAt low P p then (if previous = JNull then Inl p else Inr previous)
      else (case v of
          JObj m \<Rightarrow>
            (case restore_object low P p m (case previous of JObj old \<Rightarrow> old | _ \<Rightarrow> []) of
               Inl e \<Rightarrow> Inl e
             | Inr m \<Rightarrow> Inr (JObj m))
        | _ \<Rightarrow> Inr v))"
| "restore_object low P p [] old = Inr []"
| "restore_object low P p ((k, v) # m) old =
     (case restoreSecrets low P (p @ ''.'' @ k) v (case lookup old k of None \<Rightarrow> JNull | Some w \<Rightarrow> w) of
        Inl e \<Rightarrow> Inl e
      | Inr v \<Rightarrow> (case restore_object low P p m old of Inl e \<Rightarrow> Inl e | Inr m \<Rightarrow> Inr ((k, v) # m)))"

fun containsMask :: "json \<Rightarrow> bool" where
  "containsMask (JStr s) \<longleftrightarrow> s = SecretMask"
| "containsMask (JObj m) \<longleftrightarrow> list_ex (\<lambda>(_, v). containsMask v) m"
| "containsMask (JArr xs) \<longleftrightarrow> list_ex containsMask xs"
| "containsMask _ \<longleftrightarrow> False"

text \<open>A member of an object, and its text; anything else has none.\<close>

definition member :: "json \<Rightarrow> string \<Rightarrow> json" where
  "member v k = (case v of JObj m \<Rightarrow> (case lookup m k of None \<Rightarrow> JNull | Some w \<Rightarrow> w) | _ \<Rightarrow> JNull)"

definition text_of :: "json \<Rightarrow> string" where
  "text_of v = (case v of JStr s \<Rightarrow> s | _ \<Rightarrow> [])"

text \<open>Whether the edit is refused.\<close>

fun validateVariantEdit :: "setting_field \<Rightarrow> json \<Rightarrow> json \<Rightarrow> bool" where
  "validateVariantEdit (SettingField g mi ma rq ext k l h kind d i opts vs vo az) v previous \<longleftrightarrow>
     (case vs of
        None \<Rightarrow> False
      | Some vs \<Rightarrow> list_ex (\<lambda>(_, fields). list_ex (\<lambda>nested.
          VariantOf nested \<noteq> [] \<and> text_of (member v (VariantOf nested)) \<noteq> text_of (member previous (VariantOf nested)) \<and>
            containsMask (member v (FieldKey nested)) \<or>
          validateVariantEdit nested (member v (FieldKey nested)) (member previous (FieldKey nested))) fields) vs)"

section \<open>What is shown\<close>

definition yes_word :: string where "yes_word = map char_of [0xD0, 0xB4, 0xD0, 0xB0 :: nat]"
definition no_word :: string where "no_word = map char_of [0xD0, 0xBD, 0xD0, 0xB5, 0xD1, 0x82 :: nat]"

text \<open>\<open>strings.Join\<close> with a comma and a space.\<close>

fun join_list :: "string list \<Rightarrow> string" where
  "join_list [] = []"
| "join_list [s] = s"
| "join_list (s # t # ss) = s @ '', '' @ join_list (t # ss)"

text \<open>\<open>renderTree\<close> is only called without paths that are to be hidden.\<close>

fun renderTree :: "json \<Rightarrow> string" where
  "renderTree JNull = []"
| "renderTree (JBool b) = (if b then yes_word else no_word)"
| "renderTree (JNum n) = n"
| "renderTree (JStr s) = s"
| "renderTree (JArr xs) = join_list (map renderTree xs)"
| "renderTree (JObj m) = join_list (map snd (sort_key fst (map (\<lambda>(k, v). (k, k @ ''='' @ renderTree v)) m)))"

definition renderPairs :: "(string \<Rightarrow> string) \<Rightarrow> json \<Rightarrow> string" where
  "renderPairs low v =
     (case v of
        JObj m \<Rightarrow> join_list (map (\<lambda>(k, v). let shown = renderTree v in
          k @ ''='' @ (if shown \<noteq> [] \<and> HeaderSecret low k then SecretMask else shown)) (sort_key fst m))
      | _ \<Rightarrow> renderTree v)"

definition render :: "doc_env \<Rightarrow> setting_kind \<Rightarrow> json \<Rightarrow> string" where
  "render E k v =
     (if k = KindJSON \<or> k = KindMap then marshal E v
      else if k = KindSecret \<and> (case v of JStr s \<Rightarrow> s \<noteq> [] | _ \<Rightarrow> False) then SecretMask
      else if k = KindPairs then renderPairs (low_rest E) v
      else renderTree v)"

definition renderEntry :: "doc_env \<Rightarrow> setting_field \<Rightarrow> string \<Rightarrow> json \<Rightarrow> string" where
  "renderEntry E field p v =
     (let safe = redactTree (low_rest E) (sensitivePaths p field) p v in
      if FieldKind field = KindSecretJSON then renderTree safe
      else if FieldKind field \<in> {KindPairs, KindMap, KindList} \<or> Variants field \<noteq> None then render E KindJSON safe
      else render E (FieldKind field) safe)"

section \<open>Secrets are not shown\<close>

text \<open>Two values that differ at most in what stands at secret places, where both have something.\<close>

inductive alike :: "(string \<Rightarrow> string) \<Rightarrow> (string, setting_kind) amap \<Rightarrow> string \<Rightarrow> json \<Rightarrow> json \<Rightarrow> bool" for low P where
  secret: "secretAt low P p \<Longrightarrow> v \<notin> {JNull, JStr []} \<Longrightarrow> w \<notin> {JNull, JStr []} \<Longrightarrow> alike low P p v w"
| same: "alike low P p v v"
| object: "length m = length m' \<Longrightarrow> (\<And>i. i < length m \<Longrightarrow> fst (m ! i) = fst (m' ! i)) \<Longrightarrow>
    (\<And>i. i < length m \<Longrightarrow> alike low P (p @ ''.'' @ fst (m ! i)) (snd (m ! i)) (snd (m' ! i))) \<Longrightarrow> alike low P p (JObj m) (JObj m')"
| items: "length xs = length ys \<Longrightarrow>
    (\<And>i. i < length xs \<Longrightarrow> alike low P (p @ ''.'' @ itoa (int i)) (xs ! i) (ys ! i)) \<Longrightarrow> alike low P p (JArr xs) (JArr ys)"

lemma redact_object_map: "redact_object low P p m = map (\<lambda>(k, v). (k, redactTree low P (p @ ''.'' @ k) v)) m"
  by (induction m) auto

lemma redact_list_map: "redact_list low P p n xs = map (\<lambda>i. redactTree low P (p @ ''.'' @ itoa (int (n + i))) (xs ! i)) [0 ..< length xs]"
proof (induction xs arbitrary: n)
  case (Cons x xs)
  have "[0 ..< length (x # xs)] = 0 # map Suc [0 ..< length xs]" by (simp add: map_Suc_upt upt_conv_Cons del: upt_Suc)
  then show ?case using Cons[of "Suc n"] by (simp add: comp_def add_ac del: upt_Suc redactTree.simps)
qed simp

declare redactTree.simps [simp del]

lemma alike_redacted: "alike low P p v w \<Longrightarrow> redactTree low P p v = redactTree low P p w"
proof (induction rule: alike.induct)
  case (secret p v w)
  then show ?case by (simp add: redactTree.simps)
next
  case (object m m' p)
  have "redact_object low P p m = redact_object low P p m'"
    unfolding redact_object_map by (rule nth_equalityI) (use object in \<open>auto simp: case_prod_unfold\<close>)
  then show ?case by (simp add: redactTree.simps)
next
  case (items xs ys p)
  have "redact_list low P p 0 xs = redact_list low P p 0 ys"
    unfolding redact_list_map by (rule nth_equalityI) (use items in auto)
  then show ?case by (simp add: redactTree.simps)
qed simp

text \<open>
  What is shown of a setting does not depend on the secrets in it: values that differ only at secret places, where neither is
  empty, are shown the same, for every kind of field and every schema of adapters.
\<close>

theorem shown_settings_hide_their_secrets:
  assumes "alike (low_rest E) (sensitivePaths p field) p v w"
  shows "renderEntry E field p v = renderEntry E field p w"
  using alike_redacted[OF assms] by (simp add: renderEntry_def)

section \<open>Secrets come back\<close>

text \<open>Keys occur once, and no list has a secret in it.\<close>

fun well_kept :: "(string \<Rightarrow> string) \<Rightarrow> (string, setting_kind) amap \<Rightarrow> string \<Rightarrow> json \<Rightarrow> bool" where
  "well_kept low P p (JObj m) \<longleftrightarrow> secretAt low P p \<or> distinct (map fst m) \<and> list_all (\<lambda>(k, v). well_kept low P (p @ ''.'' @ k) v) m"
| "well_kept low P p (JArr xs) \<longleftrightarrow> secretAt low P p \<or> redact_list low P p 0 xs = xs"
| "well_kept low P p v \<longleftrightarrow> True"

lemma restore_members:
  assumes "\<And>k v. (k, v) \<in> set m \<Longrightarrow> restoreSecrets low P (p @ ''.'' @ k) (redactTree low P (p @ ''.'' @ k) v) v = Inr v"
    and "\<And>k v. (k, v) \<in> set m \<Longrightarrow> lookup old k = Some v"
  shows "restore_object low P p (redact_object low P p m) old = Inr m"
  using assms
proof (induction m)
  case (Cons kv m)
  obtain k v where kv: "kv = (k, v)" by (cases kv)
  have "restoreSecrets low P (p @ ''.'' @ k) (redactTree low P (p @ ''.'' @ k) v) v = Inr v" "lookup old k = Some v"
    using Cons.prems[of k v] kv by auto
  moreover have "restore_object low P p (redact_object low P p m) old = Inr m" using Cons by simp
  ultimately show ?case unfolding kv redact_object.simps restore_object.simps by (simp del: restoreSecrets.simps append_Cons append_Nil)
qed simp

lemma restore_redacted: "well_kept low P p v \<Longrightarrow> restoreSecrets low P p (redactTree low P p v) v = Inr v"
proof (induction low P p v rule: well_kept.induct)
  case (1 low P p m)
  show ?case
  proof (cases "secretAt low P p")
    case True
    then show ?thesis by (simp add: redactTree.simps)
  next
    case False
    then have d: "distinct (map fst m)" and kept: "\<And>k v. (k, v) \<in> set m \<Longrightarrow> well_kept low P (p @ ''.'' @ k) v"
      using 1(2) by (auto simp: list_all_iff)
    have "restore_object low P p (redact_object low P p m) m = Inr m"
    proof (rule restore_members)
      fix k v assume kv: "(k, v) \<in> set m"
      show "restoreSecrets low P (p @ ''.'' @ k) (redactTree low P (p @ ''.'' @ k) v) v = Inr v" using 1(1)[OF kv _ kept[OF kv]] by simp
      show "lookup m k = Some v" using kv d by simp
    qed
    then show ?thesis using False by (simp add: redactTree.simps)
  qed
next
  case (2 low P p xs)
  then show ?case by (cases "secretAt low P p") (auto simp: redactTree.simps)
qed (auto simp: redactTree.simps)

text \<open>
  An edit that leaves the masks of the secrets in place gets the secrets back: what is shown for editing, sent back as it is,
  is the value that was there, as long as no list has a secret in it.
\<close>

theorem masked_edit_restores_secrets:
  assumes "well_kept low (sensitivePaths p field) p v"
  shows "restoreSecrets low (sensitivePaths p field) p (redactTree low (sensitivePaths p field) p v) v = Inr v"
  by (rule restore_redacted[OF assms])

section \<open>Paths\<close>

lemma step_index_update: "step_index s (xs[i := x]) = step_index s xs"
  by (simp add: step_index_def split: option.split)

lemma step_index_less: "step_index s xs = Some i \<Longrightarrow> i < length xs"
  by (auto simp: step_index_def split: option.splits if_splits)

text \<open>What was put is found under its path.\<close>

lemma put_then_raw: "put_at keyed before steps v node = (True, node') \<Longrightarrow> v \<noteq> JNull \<Longrightarrow> raw_at steps node' = Some v"
proof (induction keyed before steps v node arbitrary: node' rule: put_at.induct)
  case (2 keyed before final v node)
  then show ?case by (auto simp: step_index_update step_index_less split: json.splits option.splits)
next
  case (3 keyed before step nxt rest v node)
  show ?case
  proof (cases node)
    case (JObj m)
    let ?old = "case lookup m (unescapeKey step) of None \<Rightarrow> JNull | Some c \<Rightarrow> c"
    let ?child = "if ?old \<noteq> JNull then ?old else if atoi nxt \<noteq> None \<and> \<not> keyed (before @ [step]) then JArr [] else JObj []"
    obtain c where c: "put_at keyed (before @ [step]) (nxt # rest) v ?child = (True, c)" "node' = JObj (store (unescapeKey step) c m)"
      using 3(3) JObj by (auto simp: Let_def split: prod.splits)
    have "raw_at (nxt # rest) c = Some v" by (rule 3(2)[OF JObj refl refl c(1) 3(4)])
    then show ?thesis by (simp add: c(2))
  next
    case (JArr xs)
    then obtain i c where i: "step_index (unescapeKey step) xs = Some i" "put_at keyed (before @ [step]) (nxt # rest) v (xs ! i) = (True, c)"
        "node' = JArr (xs[i := c])"
      using 3(3) by (auto split: option.splits prod.splits)
    have "raw_at (nxt # rest) c = Some v" by (rule 3(1)[OF JArr i(1,2) 3(4)])
    then show ?thesis using step_index_less[OF i(1)] by (simp add: i step_index_update)
  qed (use 3(3) in simp_all)
qed simp

theorem put_is_found: "put p v d = (True, d') \<Longrightarrow> v \<noteq> JNull \<Longrightarrow> raw_value d' p = Some v"
  unfolding put_def raw_value_def by (auto split: prod.splits intro: put_then_raw)

text \<open>Any key is one step of a path, and the step means the key.\<close>

lemma hex_val_upper: "n < 16 \<Longrightarrow> hex_val (hex_upper n) = Some n"
proof -
  assume n: "n < 16"
  show ?thesis
  proof (cases "n < 10")
    case True
    then have "(of_char (char_of (48 + n) :: char) :: nat) = 48 + n" by (simp add: of_char_of)
    then show ?thesis using True by (simp add: hex_val_def hex_upper_def)
  next
    case False
    then have "(of_char (char_of (55 + n) :: char) :: nat) = 55 + n" using n by (simp add: of_char_of)
    then show ?thesis using False n by (simp add: hex_val_def hex_upper_def)
  qed
qed

definition step_part :: "char \<Rightarrow> string" where
  "step_part c = (if c = CHR ''.'' then ''%2E'' else if path_char c then [c]
     else [CHR ''%'', hex_upper (of_char c div 16), hex_upper (of_char c mod 16)])"

lemma hex_upper_dot: "n < 16 \<Longrightarrow> hex_upper n \<noteq> CHR ''.''"
  using hex_val_upper[of n] by (auto simp: hex_val_def)

lemma pathKey_parts: "pathKey k = concat (map step_part k)"
proof (induction k)
  case (Cons c k)
  have b: "(of_char c :: nat) div 16 < 16" "(of_char c :: nat) mod 16 < 16" by (simp_all add: less_mult_imp_div_less)
  have "path_char CHR ''.''" by (simp add: path_char_def)
  then have "concat (map (\<lambda>c. if c = CHR ''.'' then ''%2E'' else [c]) (if path_char c then [c]
     else [CHR ''%'', hex_upper (of_char c div 16), hex_upper (of_char c mod 16)])) = step_part c"
    using hex_upper_dot[OF b(1)] hex_upper_dot[OF b(2)] by (auto simp: step_part_def)
  then show ?case using Cons by (simp add: pathKey_def PathEscape_def)
qed (simp add: pathKey_def PathEscape_def)

lemma step_part_read: "PathUnescape (step_part c @ s) = map_option (\<lambda>r. c # r) (PathUnescape s)"
proof -
  have b: "(of_char c :: nat) div 16 < 16" "(of_char c :: nat) mod 16 < 16" by (simp_all add: less_mult_imp_div_less)
  have whole: "char_of (16 * (of_char c div 16) + of_char c mod 16 :: nat) = c" by simp
  have plain: "\<not> path_char CHR ''%''" by (simp add: path_char_def identifier_char_def identifier_start_def is_digit_def)
  show ?thesis
  proof (cases "c = CHR ''.''")
    case True
    have "(char_of (46 :: nat) :: char) = CHR ''.''" by (simp add: char_of_def bit_0)
    then show ?thesis using True by (simp add: step_part_def hex_val_def)
  next
    case False
    then show ?thesis using plain hex_val_upper[OF b(1)] hex_val_upper[OF b(2)] whole by (auto simp: step_part_def)
  qed
qed

theorem any_key_is_a_step: "CHR ''.'' \<notin> set (pathKey k) \<and> unescapeKey (pathKey k) = k"
proof
  have "CHR ''.'' \<notin> set (step_part c)" for c
    using hex_upper_dot[of "of_char c div 16"] hex_upper_dot[of "of_char c mod 16"] by (auto simp: step_part_def less_mult_imp_div_less)
  then show "CHR ''.'' \<notin> set (pathKey k)" by (auto simp: pathKey_parts)
  have "PathUnescape (concat (map step_part k)) = Some k" by (induction k) (simp_all add: step_part_read)
  then show "unescapeKey (pathKey k) = k" by (simp add: unescapeKey_def pathKey_parts)
qed

text \<open>A file that was changed since the document was read is left as it is.\<close>

theorem Save_keeps_other_changes:
  assumes "file_revision E (case content of None \<Rightarrow> [] | Some c \<Rightarrow> c) \<noteq> doc_revision d"
  shows "\<exists>e. Save E writes renames content d = (Some e, content, d)"
  using assms by (auto simp: Save_def split: option.split)

end
