(* ===== verification/Bake.thy ===== *)
theory Bake
  imports Prelude
begin

text \<open>
  The settings of a server inside a launcher (\<open>internal/bake/bake.go\<close>): they are appended to the executable, followed by their
  length in eight bytes, the least first, and by a magic text.

  The theorem: what was attached is read back, attaching again replaces it, and taking it off gives the bare executable.
\<close>

unbundle bit_operations_syntax

type_synonym bytes = "8 word list"

definition magic :: bytes where
  "magic = map (\<lambda>c. of_nat (of_char c)) ''LAMINARA_CONFIG1''"

definition trailerLen :: nat where "trailerLen = 24"
definition maxConfig :: nat where "maxConfig = 8 * 2 ^ 20"

datatype bake_error = ErrEmpty | ErrTooLarge

text \<open>\<open>binary.LittleEndian.AppendUint64\<close> and \<open>binary.LittleEndian.Uint64\<close>.\<close>

definition AppendUint64 :: "bytes \<Rightarrow> 64 word \<Rightarrow> bytes" where
  "AppendUint64 b v = b @ map (\<lambda>i. ucast (drop_bit (8 * i) v)) [0 ..< 8]"

definition Uint64 :: "bytes \<Rightarrow> 64 word" where
  "Uint64 b = foldr (\<lambda>x acc. ucast x OR push_bit 8 acc) b 0"

text \<open>A declared length is compared as a \<open>uint64\<close> before it becomes an \<open>int\<close>.\<close>

definition locate :: "bytes \<Rightarrow> (nat \<times> nat) option" where
  "locate img =
     (if length img \<le> trailerLen then None
      else (let trailer = drop (length img - trailerLen) img in
        if drop 8 trailer \<noteq> magic then None
        else (let declared = Uint64 (take 8 trailer) in
          if declared = 0 \<or> declared > of_nat (length img - trailerLen) then None
          else (let size = unat declared in Some (length img - trailerLen - size, size)))))"

definition Read :: "bytes \<Rightarrow> bytes option" where
  "Read img = (case locate img of None \<Rightarrow> None | Some (start, n) \<Rightarrow> Some (take n (drop start img)))"

definition Strip :: "bytes \<Rightarrow> bytes" where
  "Strip img = (case locate img of None \<Rightarrow> img | Some (start, n) \<Rightarrow> take start img)"

definition Baked :: "bytes \<Rightarrow> bool" where
  "Baked img \<longleftrightarrow> locate img \<noteq> None"

definition Holds :: "bytes \<Rightarrow> bytes \<Rightarrow> bool" where
  "Holds img config \<longleftrightarrow> Read img = Some config"

definition Attach :: "bytes \<Rightarrow> bytes \<Rightarrow> (bake_error, bytes) result" where
  "Attach img config =
     (if config = [] then Inl ErrEmpty
      else if length config > maxConfig then Inl ErrTooLarge
      else Inr (AppendUint64 (Strip img @ config) (of_nat (length config)) @ magic))"

section \<open>Round trip\<close>

lemma length_magic: "length magic = 16"
  by (simp add: magic_def)

lemma Uint64_Nil: "Uint64 [] = 0" and Uint64_Cons: "Uint64 (x # b) = ucast x OR push_bit 8 (Uint64 b)"
  by (simp_all add: Uint64_def)

lemma Uint64_bytes: "k \<le> 8 \<Longrightarrow> Uint64 (map (\<lambda>i. ucast (drop_bit (8 * i) v)) [k ..< 8]) = drop_bit (8 * k) v"
proof (induction "8 - k" arbitrary: k)
  case 0
  then have "k = 8" by simp
  moreover have "drop_bit 64 v = 0" by (rule bit_word_eqI) (simp add: bit_simps)
  ultimately show ?case by (simp add: Uint64_Nil)
next
  case (Suc n)
  then have k: "k < 8" by simp
  have "Uint64 (map (\<lambda>i. ucast (drop_bit (8 * i) v)) [Suc k ..< 8]) = drop_bit (8 * Suc k) v" using Suc by simp
  then have "Uint64 (map (\<lambda>i. ucast (drop_bit (8 * i) v)) [k ..< 8]) = ucast (ucast (drop_bit (8 * k) v) :: 8 word) OR push_bit 8 (drop_bit (8 * Suc k) v)"
    using k by (simp add: upt_conv_Cons Uint64_Cons)
  also have "\<dots> = drop_bit (8 * k) v"
  proof (rule bit_word_eqI)
    fix j assume "j < LENGTH(64)"
    show "bit (ucast (ucast (drop_bit (8 * k) v) :: 8 word) OR push_bit 8 (drop_bit (8 * Suc k) v)) j \<longleftrightarrow> bit (drop_bit (8 * k) v) j"
      using \<open>j < LENGTH(64)\<close> by (cases "j < 8") (auto simp: bit_simps)
  qed
  finally show ?case .
qed

lemma Uint64_append: "Uint64 (drop (length b) (AppendUint64 b v)) = v"
  using Uint64_bytes[of 0 v] by (simp add: AppendUint64_def)

lemma length_append64: "length (AppendUint64 b v) = length b + 8"
  by (simp add: AppendUint64_def)

lemma locate_attached:
  assumes "config \<noteq> []" "length bare + length config < 2 ^ 64"
  shows "locate (AppendUint64 (bare @ config) (of_nat (length config)) @ magic) = Some (length bare, length config)"
proof -
  let ?n = "of_nat (length config) :: 64 word" and ?len = "length bare + length config"
  let ?out = "AppendUint64 (bare @ config) ?n @ magic"
  have len: "length ?out = ?len + trailerLen" by (simp add: length_append64 length_magic trailerLen_def)
  have trailer: "drop (length ?out - trailerLen) ?out = drop ?len (AppendUint64 (bare @ config) ?n) @ magic"
    using len by (simp add: length_append64 length_magic trailerLen_def)
  have eight: "length (drop ?len (AppendUint64 (bare @ config) ?n)) = 8" by (simp add: length_append64)
  have unat: "unat ?n = length config" using assms(2) by (simp add: unat_of_nat take_bit_nat_eq_self)
  then have pos: "?n \<noteq> 0" using assms(1) by (metis length_0_conv unat_0)
  have "unat (of_nat ?len :: 64 word) = ?len" using assms(2) by (simp add: unat_of_nat take_bit_nat_eq_self del: of_nat_add)
  then have fits: "\<not> ?n > of_nat ?len" using unat by (simp add: word_less_nat_alt)
  have "0 < ?len" using assms(1) by simp
  then show ?thesis
    using Uint64_append[of "bare @ config" ?n] len trailer eight unat pos fits by (simp add: locate_def Let_def)
qed

lemma length_Strip: "length (Strip img) \<le> length img"
  by (simp add: Strip_def split: option.splits prod.splits)

text \<open>
  What is attached to an executable of less than 2 ^ 63 bytes is read back, whatever the executable was; it replaces what was
  attached before, so that attaching again changes nothing else; and taking it off an executable that had nothing attached gives
  the executable again.
\<close>

theorem baked_settings_are_read_back:
  assumes "Attach img config = Inr out" "length img < 2 ^ 63"
  shows "Holds out config \<and> Strip out = Strip img \<and> (\<not> Baked img \<longrightarrow> Strip out = img) \<and> (\<forall>c. Attach out c = Attach img c)"
proof -
  let ?bare = "Strip img"
  have c: "config \<noteq> []" "length config \<le> maxConfig"
    and out: "out = AppendUint64 (?bare @ config) (of_nat (length config)) @ magic"
    using assms(1) by (auto simp: Attach_def split: if_splits)
  have small: "length ?bare + length config < 2 ^ 64"
    using length_Strip[of img] assms(2) c(2) by (simp add: maxConfig_def)
  have found: "locate out = Some (length ?bare, length config)" using locate_attached[OF c(1) small] out by simp
  obtain rest where shape: "out = ?bare @ config @ rest" using out by (simp add: AppendUint64_def)
  have strip: "Strip out = ?bare" using found shape by (simp add: Strip_def)
  have "Read out = Some config" using found shape by (simp add: Read_def)
  moreover have "\<not> Baked img \<Longrightarrow> ?bare = img" by (simp add: Baked_def Strip_def split: option.split)
  ultimately show ?thesis using strip by (simp add: Holds_def Attach_def)
qed

theorem baked_settings_are_read_back_witness:
  "Attach [1, 2] [7] = Inr ([1, 2, 7, 1, 0, 0, 0, 0, 0, 0, 0] @ magic) \<and>
    Holds ([1, 2, 7, 1, 0, 0, 0, 0, 0, 0, 0] @ magic) [7] \<and> Strip ([1, 2, 7, 1, 0, 0, 0, 0, 0, 0, 0] @ magic) = [1, 2]"
proof -
  have run: "Attach [1, 2] [7] = Inr ([1, 2, 7, 1, 0, 0, 0, 0, 0, 0, 0] @ magic)"
    by (simp add: Attach_def Strip_def locate_def trailerLen_def maxConfig_def AppendUint64_def upt_rec)
  moreover have "\<not> Baked [1, 2]" by (simp add: Baked_def locate_def trailerLen_def)
  moreover have "length ([1, 2] :: bytes) < 2 ^ 63" by simp
  ultimately show ?thesis using baked_settings_are_read_back[OF run] by metis
qed

end
