(* ===== verification/Spec2Isabelle.thy ===== *)
theory Spec2Isabelle
  imports PathPolicy SafePath Totp Command ControlAuth Jobs CatalogRuns Yggdrasil Accounts LogBus LogFile Duration Backup Crash News BuildSpec LaunchProfile WebConsole SettingsTree Bake
begin

text \<open>
  A model of the server of Laminara, a launcher of Minecraft builds (the Go code under
  \<open>src/server/internal\<close>), and theorems about it. Every definition follows one function or type of the
  code and keeps its name where HOL allows; every theory opens with the files it models.

  \<^bold>\<open>The parts and how they meet.\<close> A launcher asks the server for the builds it may see and for their
  files. \<open>Sessions\<close> (package \<open>auth\<close>) signs a player in against one of the \<open>Accounts\<close>, issues the token pair, renews and revokes it;
  \<open>Totp\<close> is the second factor; \<open>RateLimit\<close> slows guessing down, by the address that \<open>ClientAddr\<close> finds.
  \<open>HwidMatch\<close>, \<open>HwidStore\<close>, \<open>HwidTicket\<close>, \<open>HwidGate\<close> and \<open>HwidBans\<close> (package \<open>hwid\<close>) recognise the machine a
  player comes from by the signals of its report, group machines into clusters, and ban accounts, machines
  and clusters. \<open>Access\<close> decides which closed builds a player sees. \<open>Api\<close> puts these together into the
  requests of the launcher, \<open>Yggdrasil\<close> into those of the game, with the \<open>Skin\<close> of a player. What they hand out is made by the other half: \<open>Manifest\<close>, with \<open>Features\<close>,
  \<open>PathPolicy\<close> and \<open>SafePath\<close>, turns the files of a build into a manifest and puts them into the \<open>Storage\<close> of
  objects named by their hash; \<open>Releases\<close> publishes manifests on disk and rolls them back; \<open>Catalog\<close>
  indexes what is published; \<open>Launcher\<close> publishes the launcher itself under the order of \<open>Version\<close>.
  Administrators come in through \<open>ControlAuth\<close> (tokens and scopes), whose policy \<open>Command\<close> (the command
  line and its registry) asks before it runs a command; \<open>Jobs\<close> runs commands as jobs with a log on disk.
  Around these, \<open>LogBus\<close> and \<open>LogFile\<close> keep what the server says for its viewers and on disk, \<open>Backup\<close> saves and
  restores what cannot be had again, and launchers get the \<open>News\<close> and send the reports of \<open>Crash\<close>.

  \<^bold>\<open>Conventions.\<close> A Go struct is a record, a value of an enum or an error kind a constructor, and a
  fallible function returns a sum with the error on the left. Strings are lists of characters, one per
  byte. A Go map that the code counts or ranges over is an association list with distinct keys
  (\<open>keys_ok\<close>), one that it only looks up is a function. A method that holds a mutex from start to end
  is one step from state to state. The clock, random
  bytes and the outcome of a disk or network call are arguments, so a theorem holds for all of them.
  Times are integers of nanoseconds; where the code could leave 64 bits, the wrap is written out or
  the range is a hypothesis. Hashes, HMAC, JSON, Redis, Unicode tables, \<open>path.Match\<close> and
  \<open>strconv.Quote\<close> are fields of the environment records \<open>auth_env\<close>, \<open>hwid_env\<close>, \<open>access_env\<close>, \<open>line_env\<close>,
  \<open>control_env\<close>, \<open>job_env\<close>, \<open>release_env\<close> and others, and what a theorem needs of them is a hypothesis with a witness.

  \<^bold>\<open>What interleaves.\<close> Requests of the server run at the same time, and where a request makes several calls to a
  store or takes a lock twice, others may come in between. The model takes such a request apart in these places
  only: the two calls of \<open>Refresh\<close> (\<open>auth_run\<close> in \<open>Sessions\<close>), the three steps of \<open>subjectOf\<close> together with them
  (\<open>api_run\<close> in \<open>Api\<close>), the last output and the end of a job (\<open>job_step\<close> in \<open>Jobs\<close>), and the caches of \<open>News\<close> and
  \<open>Skin\<close> in lemmas of their own. In all other runs a step is a whole request: of the machine gate and its
  store (\<open>HwidBans\<close>), of the game (\<open>Yggdrasil\<close>), of the file of accounts (\<open>Accounts\<close>), of publications of builds
  and of the launcher (\<open>ReleaseRuns\<close>, \<open>Launcher\<close>), of the browser console (\<open>WebConsole\<close>). There the theorems hold
  for requests that come one after another; where the operations of a run each hold one lock throughout, as those on
  challenges, on the bus of the log, on one-time codes and, but for \<open>Bootstrap\<close>, on admin tokens do, that is every
  interleaving. \<open>Login\<close> of
  \<open>Api\<close> is one request and is treated alone. Theorems about sessions, bans, limits and game tokens over runs are for the
  stores in memory; the stores in Redis are modelled call by call, and lemmas show where their failures break what the
  stores in memory keep.

  \<^bold>\<open>The theories.\<close>
  \<^item> \<open>Prelude\<close>: results, association lists, 64-bit integers. \<open>GoStrings\<close>: what the code uses of the packages
    \<open>strings\<close>, \<open>strconv\<close> and \<open>path\<close> (cuts, splits, trims, clean). \<open>Base64\<close>: the raw URL alphabet and its
    round trip.
  \<^item> \<open>PathPolicy\<close> (\<open>pathpolicy.go\<close>): the backtracking glob loop, as \<open>while\<close> with a termination measure, is
    the declarative meaning of the glob; \<open>Resolve\<close> prefers enforced patterns.
  \<^item> \<open>SafePath\<close> (\<open>safepath.go\<close>): accepted paths have plain segments, and joining stays below the root.
  \<^item> \<open>Version\<close> (\<open>version.go\<close>): \<open>Compare\<close> is a total preorder.
  \<^item> \<open>RateLimit\<close> (\<open>ratelimit\<close>, \<open>redisconf\<close>): the memory and the Redis limiter behind one type, the guard, its
    lock-out and its bounds over runs.
  \<^item> \<open>Sessions\<close> (\<open>auth/identity.go\<close>, \<open>token.go\<close>, \<open>session.go\<close>, \<open>service.go\<close>, \<open>redisstore\<close>): login, refresh,
    validation and logout over any store; the memory and the Redis store; runs of all four operations.
  \<^item> \<open>Totp\<close> (\<open>auth/totp/totp.go\<close>): codes and the verifier's budget of two uses.
  \<^item> \<open>HwidMatch\<close> (\<open>hwid/match.go\<close>, \<open>hwid.go\<close>): scores and the choice of a machine. \<open>HwidStore\<close> (\<open>store.go\<close>,
    \<open>memory.go\<close>): the contract of a store as the locale \<open>hwid_store\<close> and the memory store as its
    interpretation. \<open>HwidTicket\<close> (\<open>ticket.go\<close>, \<open>canonical.go\<close>): signed tickets and the signed form of a
    report. \<open>HwidGate\<close> (\<open>gate.go\<close>, \<open>ban.go\<close>): the gate's operations. \<open>HwidBans\<close>: runs of the gate.
  \<^item> \<open>Access\<close> (\<open>access\<close>): rules, rosters, the file and HTTP sources with their caches.
  \<^item> \<open>ClientAddr\<close> (\<open>clientaddr\<close>): the address of a client behind proxies, which it cannot choose.
  \<^item> \<open>Api\<close> (\<open>api/api.go\<close>, \<open>subject.go\<close>, \<open>machine.go\<close>): sign-in, machine report, profiles, manifests and objects,
    with the cache of token answers in three steps; what a refused sign-in leaves, how long a cached token
    lives and on whose behalf an object is handed out.
  \<^item> \<open>Accounts\<close> (\<open>auth/providers\<close>, \<open>auth/hash\<close>): the account sources over a file, SQL and HTTP; the file refines
    two maps of accounts, the saved and the remembered one, with writes that fail.
  \<^item> \<open>Skin\<close> (\<open>skin\<close>, \<open>sqlschema\<close>): the sources of skins and the mirror of images with its bounds. \<open>Yggdrasil\<close>
    (\<open>yggdrasil\<close>): the sign-in of the game, its sessions and joins; where a token comes from, who is told to have
    joined, and dead tokens.
  \<^item> \<open>Platform\<close> (\<open>platform\<close>): the platforms and their keys. \<open>Storage\<close> (\<open>storage.go\<close>, \<open>cas.go\<close>, \<open>fs.go\<close>): the
    content-addressed store over a backend and the file system behind it, with faults of the disk.
  \<^item> \<open>Features\<close> (\<open>manifest/features.go\<close>): options of a build, and when their model is accepted. \<open>Manifest\<close> (the
    rest of \<open>manifest\<close>): settings, their check, and the manifest that is built from a directory.
  \<^item> \<open>Releases\<close> (\<open>catalog/releases.go\<close>, \<open>rollback.go\<close>): publishing a build, its inventory and rolling back, with a
    disk that fails anywhere; \<open>ReleaseRuns\<close>: what holds over runs with crashes.
  \<^item> \<open>Catalog\<close> (\<open>catalog.go\<close>, \<open>index.go\<close>): the index of what is published and the owners of an object;
    \<open>CatalogRuns\<close>: the catalogue over runs of publications.
  \<^item> \<open>Launcher\<close> (\<open>launchersvc\<close>, \<open>api/download.go\<close>): publishing launcher releases and handing them out.
  \<^item> \<open>Command\<close> (\<open>command\<close>): splitting and formatting a command line, the registry and dispatch.
  \<^item> \<open>ControlAuth\<close> (\<open>controlauth\<close>): admin tokens, scopes, and dispatch under a token.
  \<^item> \<open>Jobs\<close> (\<open>jobs\<close>): starts, output, the event log, recovery, and runs of the manager with its limits.
  \<^item> \<open>LogBus\<close> (\<open>logbus\<close>): the ring of the last lines, the channels of viewers and the text of a line; a viewer
    misses nothing. \<open>LogFile\<close> (\<open>logfile\<close>): writing and rotation, and what a failed rotation leaves.
  \<^item> \<open>Duration\<close> (\<open>duration\<close>): the durations of the settings as text, and their round trip.
  \<^item> \<open>Backup\<close> (\<open>backup\<close>): archives, their limits, and the files that come back; \<open>Tokens\<close> is the text from which
    the examples of codecs are built.
  \<^item> \<open>Runes\<close>: strings read rune by rune. \<open>Crash\<close> (\<open>crash\<close>, \<open>api/crash.go\<close>): reports, their limit per hour and the
    sinks. \<open>News\<close> (\<open>news\<close>, \<open>mediatype\<close>): the sources of news, their pictures and what a launcher is shown.
  \<^item> \<open>BuildSpec\<close> (\<open>buildspec\<close>): the description of a build a client sends, what of it is accepted, and its canonical form.
  \<^item> \<open>TextSearch\<close>: searching in strings. \<open>LaunchProfile\<close> (\<open>resolve\<close>, \<open>launchargs\<close>, \<open>mojang\<close>, \<open>maven\<close> and
    \<open>loader/fabriclike.go\<close>): the arguments and libraries a build starts the game with. \<open>Slp\<close> (\<open>slp\<close>): the status of a game
    server and its numbers of variable length. \<open>Bake\<close> (\<open>bake\<close>): the settings inside a launcher, written and read back.
  \<^item> \<open>WebConsole\<close> (\<open>webconsole\<close>): the console in the browser, its links, sessions and requests; who is let in.
  \<^item> \<open>SettingsTree\<close> (the tree and the secrets of \<open>settings\<close>): paths into the configuration, what is shown of it, and edits that
    keep the secrets.

  \<^bold>\<open>Bounds and fuel.\<close> No definition uses fuel: every loop is structural, a \<open>function\<close> with a measure, or
  the \<open>while\<close> of \<open>matchSegment\<close> that is shown to end. Constants of the code (limits, sizes, periods) keep
  their values.

  \<^bold>\<open>Not modelled.\<close> The terminal interface, the doctor command, builders of launcher and
  installer files, HTTP and gRPC plumbing, SQL statements, log lines, and the texts of messages: a
  message is modelled as its kind or by a short fixed text. The manifest of this library lists every
  part with the reason.
\<close>

end
